(* ===== verification/Prelude.thy ===== *)
theory Prelude
  imports Main "HOL-Library.Word" "HOL-Library.Monad_Syntax"
begin

text \<open>
  What the component theories share: the machine integers of the C sources, byte buffers with
  bounds-checked access, singly linked lists over a map of next pointers, and the collections
  of facts that carry the component proofs.

  Convention of the whole development: a result of type \<open>'a option\<close> is \<open>None\<close> exactly where
  the C code has no defined behaviour (an access outside its object, a null dereference, a
  signed overflow); every status code, null result and early return of the code is an ordinary
  value.
\<close>

unbundle bit_operations_syntax

section \<open>Machine integers\<close>

type_synonym u8 = "8 word"
type_synonym u16 = "16 word"
type_synonym u32 = "32 word"
type_synonym u64 = "64 word"

text \<open>A byte buffer: an object in memory, as the list of its bytes.\<close>

type_synonym bytes = "u8 list"

named_theorems fault_simps \<open>bounds-checked accesses\<close>
named_theorems chain_simps \<open>linked lists\<close>
named_theorems status_simps \<open>status results of operations\<close>

text \<open>Unsigned 32 bit subtraction wraps; a signed 32 bit result has to be in range.\<close>

definition sub32 :: "nat \<Rightarrow> nat \<Rightarrow> nat" where
  "sub32 x k = (x + (2 ^ 32 - k)) mod 2 ^ 32"

definition int32 :: "int \<Rightarrow> int option" where
  "int32 i = (if - (2 ^ 31) \<le> i \<and> i < 2 ^ 31 then Some i else None)"

lemma sub32_small: "k \<le> x \<Longrightarrow> x < 2 ^ 32 \<Longrightarrow> 0 < k \<Longrightarrow> sub32 x k = x - k"
  by (simp add: sub32_def mod_if)

lemma sub32_0 [simp]: "x < 2 ^ 32 \<Longrightarrow> sub32 x 0 = x"
  by (simp add: sub32_def)

lemma sub32_le: "k \<le> x \<Longrightarrow> x < 2 ^ 32 \<Longrightarrow> sub32 x k = x - k"
  by (cases "k = 0") (simp_all add: sub32_small)

lemma sub32_wrap: "x < k \<Longrightarrow> k < 2 ^ 32 \<Longrightarrow> sub32 x k = x + 2 ^ 32 - k"
  by (simp add: sub32_def)

lemma mod_shift: "0 \<le> (x::int) \<Longrightarrow> x < 2 * m \<Longrightarrow> x mod m = (if x < m then x else x - m)"
proof (cases "x < m")
  case False
  assume "0 \<le> x" "x < 2 * m"
  then have "(x - m) mod m = x - m" using False by (intro mod_pos_pos_trivial) auto
  then show ?thesis using False by (simp only: minus_mod_self2 if_False)
qed simp

lemma sint_u32: "sint (v :: u32) = (if uint v < 2 ^ 31 then uint v else uint v - 2 ^ 32)"
proof -
  have b: "0 \<le> uint v" "uint v < 2 ^ 32" using uint_bounded [of v] by simp_all
  have "sint v = (uint v + 2 ^ 31) mod 2 ^ 32 - 2 ^ 31"
    by (simp add: sint_uint signed_take_bit_eq_take_bit_shift take_bit_int_def)
  moreover have "(uint v + 2 ^ 31) mod 2 ^ 32
      = (if uint v + 2 ^ 31 < 2 ^ 32 then uint v + 2 ^ 31 else uint v + 2 ^ 31 - 2 ^ 32)"
    by (rule mod_shift) (use b in simp_all)
  ultimately show ?thesis by simp
qed

lemma uint_minus_u32: "(v :: u32) \<noteq> 0 \<Longrightarrow> uint (- v) = 2 ^ 32 - uint v"
proof -
  assume "v \<noteq> 0"
  then have "uint v \<noteq> 0" by (simp add: uint_0_iff)
  then have b: "0 < uint v" "uint v < 2 ^ 32"
    using uint_bounded [of v] uint_ge_0 [of v] by (auto simp: order_le_less)
  have "uint (- v) = (- uint v) mod 2 ^ 32" by (simp add: uint_word_ariths)
  also have "\<dots> = (2 ^ 32 - uint v) mod 2 ^ 32"
    using mod_add_self1 [of "2 ^ 32" "- uint v"] by (metis add_uminus_conv_diff)
  also have "\<dots> = 2 ^ 32 - uint v" using b by (intro mod_pos_pos_trivial) auto
  finally show ?thesis .
qed

lemma abs_u32: "unat (if unat (v :: u32) > 0x80000000 then - v else v) = nat \<bar>sint v\<bar>"
proof -
  have b: "0 \<le> uint v" "uint v < 2 ^ 32" using uint_bounded [of v] by simp_all
  have u: "unat v > 0x80000000 \<longleftrightarrow> uint v > 0x80000000"
    by (simp only: unat_eq_nat_uint zless_nat_eq_int_zless of_nat_numeral)
  show ?thesis
  proof (cases "uint v > 0x80000000")
    case True
    then have "v \<noteq> 0" by auto
    with True b u show ?thesis
      using uint_minus_u32 [of v] by (simp only: unat_eq_nat_uint sint_u32) simp
  next
    case False
    then have "uint v < 2 ^ 31 \<or> uint v = 2 ^ 31" by auto
    then show ?thesis using b u False by (simp only: unat_eq_nat_uint sint_u32) (elim disjE; simp)
  qed
qed

lemma sless_0_iff: "v <s 0 \<longleftrightarrow> sint v < 0"
  by (simp add: word_sless_alt)

lemma and_not_mask: "x AND NOT (mask n) = push_bit n (drop_bit n (x :: 'a :: len word))"
  by (rule bit_eqI) (auto simp: bit_simps dest: bit_imp_le_length)

lemma bit3: "bit (3 :: u8) n \<longleftrightarrow> n = 0 \<or> n = 1"
proof -
  have m: "(3 :: u8) = mask 2" by (simp add: mask_eq_exp_minus_1)
  have "bit (3 :: u8) n \<longleftrightarrow> n < 8 \<and> n < 2" unfolding m bit_mask_iff by simp
  then show ?thesis by auto
qed

lemma and_3_eq_3: "(f :: u8) AND 3 = 3 \<longleftrightarrow> bit f 0 \<and> bit f 1"
proof -
  have "f AND 3 = 3 \<longleftrightarrow> (\<forall>n < 8. (bit f n \<and> (n = 0 \<or> n = 1)) = (n = 0 \<or> n = 1))"
    unfolding bit_eq_iff [of "f AND 3"] bit_and_iff bit3 by simp
  then show ?thesis by (auto simp: eval_nat_numeral All_less_Suc)
qed

lemma and_3_eq_1: "(f :: u8) AND 3 = 1 \<longleftrightarrow> bit f 0 \<and> \<not> bit f 1"
proof -
  have "f AND 3 = 1 \<longleftrightarrow> (\<forall>n < 8. (bit f n \<and> (n = 0 \<or> n = 1)) = (n = 0))"
    unfolding bit_eq_iff [of "f AND 3"] bit_and_iff bit3 bit_1_iff by auto
  then show ?thesis by (auto simp: eval_nat_numeral All_less_Suc)
qed

text \<open>The status codes of the kernel's runtime, \<open>enum result_t\<close> of \<open>kernel/sys/defs.h\<close>.\<close>

datatype result_t =
    RESULT_OK
  | RESULT_INVALID_THREAD
  | RESULT_DETACHED_THREAD
  | RESULT_SPINLOCK_ALREADY_LOCKED
  | RESULT_SPINLOCK_ALREADY_UNLOCKED
  | RESULT_INVALID_STREAM
  | RESULT_EMPTY_STREAM
  | RESULT_BLOCKED_STREAM
  | RESULT_BAD_PARAM
  | RESULT_OUT_OF_RANGE
  | RESULT_OUT_OF_SPACE
  | RESULT_INVALID_DATA
  | RESULT_INCOMPLETE
  | RESULT_FORBIDDEN
  | RESULT_LINEAR_ADDRESS_IN_USE
  | RESULT_LINEAR_ADDRESS_NOT_IN_USE
  | RESULT_PHYSICAL_PAGE_IN_USE
  | RESULT_PHYSICAL_PAGE_NOT_IN_USE
  | RESULT_PHYSICAL_PAGE_EXCLUSIVE
  | RESULT_OUT_OF_PHYSICAL_MEM
  | RESULT_OUT_OF_VIRTUAL_MEM

section \<open>Checked buffer access\<close>

definition rd :: "'a list \<Rightarrow> nat \<Rightarrow> 'a option" where
  "rd xs i = (if i < length xs then Some (xs ! i) else None)"

definition wr :: "'a list \<Rightarrow> nat \<Rightarrow> 'a \<Rightarrow> 'a list option" where
  "wr xs i v = (if i < length xs then Some (xs[i := v]) else None)"

lemma rd_in [fault_simps]: "i < length xs \<Longrightarrow> rd xs i = Some (xs ! i)"
  by (simp add: rd_def)

lemma wr_in [fault_simps]: "i < length xs \<Longrightarrow> wr xs i v = Some (xs[i := v])"
  by (simp add: wr_def)

lemma rd_Some_iff: "rd xs i = Some v \<longleftrightarrow> i < length xs \<and> v = xs ! i"
  by (auto simp: rd_def)

lemma wr_Some_iff: "wr xs i v = Some ys \<longleftrightarrow> i < length xs \<and> ys = xs[i := v]"
  by (auto simp: wr_def)

lemma rd_None_iff: "rd xs i = None \<longleftrightarrow> length xs \<le> i"
  by (auto simp: rd_def)

lemma wr_None_iff: "wr xs i v = None \<longleftrightarrow> length xs \<le> i"
  by (auto simp: wr_def)

text \<open>Copying \<open>n\<close> elements between two buffers.\<close>

definition blit :: "'a list \<Rightarrow> nat \<Rightarrow> 'a list \<Rightarrow> 'a list" where
  "blit dst i src = take i dst @ src @ drop (i + length src) dst"

lemma length_blit [simp]:
  "i + length src \<le> length dst \<Longrightarrow> length (blit dst i src) = length dst"
  by (simp add: blit_def)

lemma blit_all: "length xs = length dst \<Longrightarrow> blit dst 0 xs = xs"
  by (simp add: blit_def)

lemma blit_Nil [simp]: "blit dst i [] = dst"
  by (simp add: blit_def)

lemma blit_snoc:
  "i + length xs < length dst \<Longrightarrow> (blit dst i xs)[i + length xs := x] = blit dst i (xs @ [x])"
  by (auto simp: blit_def list_update_append Cons_nth_drop_Suc [symmetric])

lemma nth_blit:
  "i + length src \<le> length dst \<Longrightarrow> j < length dst \<Longrightarrow>
   blit dst i src ! j = (if i \<le> j \<and> j < i + length src then src ! (j - i) else dst ! j)"
  by (auto simp: blit_def nth_append)

lemma take_drop_blit [simp]:
  "i + length src \<le> length dst \<Longrightarrow> take (length src) (drop i (blit dst i src)) = src"
  by (simp add: blit_def)

lemma blit_blit:
  "i + length xs + length ys \<le> length dst \<Longrightarrow>
   blit (blit dst i xs) (i + length xs) ys = blit dst i (xs @ ys)"
  by (simp add: blit_def ac_simps)

lemma slice_blit_disjoint:
  assumes "i + length src \<le> length dst" "c + n \<le> length dst" "c + n \<le> i \<or> i + length src \<le> c"
  shows "take n (drop c (blit dst i src)) = take n (drop c dst)"
  by (rule nth_equalityI) (use assms in \<open>auto simp: nth_blit\<close>)

lemma length_slice [simp]: "s + n \<le> length xs \<Longrightarrow> length (take n (drop s xs)) = n"
  by simp

lemma length_blit_slice [simp]:
  "d + n \<le> length dst \<Longrightarrow> s + n \<le> length src \<Longrightarrow>
   length (blit dst d (take n (drop s src))) = length dst"
  by (rule length_blit) simp

lemma not_bit_byte: "8 \<le> n \<Longrightarrow> \<not> bit (v :: u8) n"
  by (auto dest: bit_imp_le_length)

definition copy_bytes :: "'a list \<Rightarrow> nat \<Rightarrow> 'a list \<Rightarrow> nat \<Rightarrow> nat \<Rightarrow> 'a list option" where
  "copy_bytes dst d src s n =
     (if d + n \<le> length dst \<and> s + n \<le> length src
      then Some (blit dst d (take n (drop s src))) else None)"

lemma copy_bytes_in [fault_simps]:
  "d + n \<le> length dst \<Longrightarrow> s + n \<le> length src \<Longrightarrow>
   copy_bytes dst d src s n = Some (blit dst d (take n (drop s src)))"
  by (simp add: copy_bytes_def)

section \<open>Linked lists\<close>

text \<open>
  A list of nodes reached from a head pointer along the \<open>next\<close> fields. Nodes are named by
  addresses of any type; \<open>None\<close> is the null pointer.
\<close>

fun chain :: "('a \<Rightarrow> 'a option) \<Rightarrow> 'a option \<Rightarrow> 'a list \<Rightarrow> bool" where
  "chain nx p [] = (p = None)"
| "chain nx p (a # as) = (p = Some a \<and> chain nx (nx a) as)"

lemma chain_None [simp]: "chain nx None as \<longleftrightarrow> as = []"
  by (cases as) auto

lemma chain_Some: "chain nx (Some a) as \<longleftrightarrow> (\<exists>bs. as = a # bs \<and> chain nx (nx a) bs)"
  by (cases as) auto

lemma chain_unique: "chain nx p as \<Longrightarrow> chain nx p bs \<Longrightarrow> as = bs"
  by (induction as arbitrary: p bs) (auto simp: chain_Some)

lemma chain_upd [simp]: "a \<notin> set as \<Longrightarrow> chain (nx(a := q)) p as = chain nx p as"
  by (induction as arbitrary: p) auto

lemma chain_upd_lambda [simp]:
  "a \<notin> set as \<Longrightarrow> chain (\<lambda>b. if b = a then q else nx b) p as = chain nx p as"
  using chain_upd [of a as nx q p] by (simp add: fun_upd_def)

lemma chain_cong: "(\<And>a. a \<in> set as \<Longrightarrow> nx a = ny a) \<Longrightarrow> chain nx p as = chain ny p as"
  by (induction as arbitrary: p) auto

lemma chain_suffix: "chain nx p (as @ bs) \<Longrightarrow> \<exists>q. chain nx q bs"
  by (induction as arbitrary: p) auto

lemma chain_not_in_tail: "chain nx (nx a) as \<Longrightarrow> a \<notin> set as"
proof
  assume c: "chain nx (nx a) as" and "a \<in> set as"
  then obtain us vs where as: "as = us @ a # vs" by (auto simp: in_set_conv_decomp)
  with c obtain q where "chain nx q (a # vs)" by (metis chain_suffix)
  then have "chain nx (nx a) vs" by simp
  with c have "as = vs" by (rule chain_unique)
  with as show False by simp
qed

lemma chain_distinct: "chain nx p as \<Longrightarrow> distinct as"
  by (induction as arbitrary: p) (auto dest: chain_not_in_tail)

text \<open>Appending behind the last node of a list, as every head/last queue of the kernel does.\<close>

lemma chain_snoc:
  "chain nx p as \<Longrightarrow> as \<noteq> [] \<Longrightarrow> a \<notin> set as \<Longrightarrow>
   chain (nx(last as := Some a, a := None)) p (as @ [a])"
proof (induction as arbitrary: p)
  case Nil
  then show ?case by simp
next
  case (Cons b bs)
  show ?case
  proof (cases bs)
    case Nil
    with Cons.prems show ?thesis by auto
  next
    case (Cons c cs)
    have d: "distinct (b # bs)" using Cons.prems(1) by (rule chain_distinct)
    have "chain (nx(last bs := Some a, a := None)) (nx b) (bs @ [a])"
      by (rule Cons.IH) (use Cons.prems Cons in auto)
    moreover have "(nx(last bs := Some a, a := None)) b = nx b"
      using d Cons Cons.prems(3) by auto
    moreover have "last (b # bs) = last bs" using Cons by simp
    ultimately show ?thesis using Cons.prems(1) by (simp del: fun_upd_apply)
  qed
qed

lemma chain_append:
  "chain nx p as \<Longrightarrow> as \<noteq> [] \<Longrightarrow> chain nx q bs \<Longrightarrow> set as \<inter> set bs = {} \<Longrightarrow>
   chain (nx(last as := q)) p (as @ bs)"
proof (induction as arbitrary: p)
  case Nil
  then show ?case by simp
next
  case (Cons a as)
  have d: "distinct (a # as)" using Cons.prems(1) by (rule chain_distinct)
  show ?case
  proof (cases "as = []")
    case True
    then show ?thesis using Cons.prems chain_upd [of a bs nx q q] by (simp del: fun_upd_apply add: fun_upd_same)
  next
    case False
    then have "chain (nx(last as := q)) (nx a) (as @ bs)"
      using Cons.IH [of "nx a"] Cons.prems by (simp del: fun_upd_apply)
    moreover have "a \<noteq> last as" using d False by auto
    ultimately show ?thesis
      using Cons.prems(1) False by (simp del: fun_upd_apply add: fun_upd_other)
  qed
qed

lemma chain_hd: "chain nx p as \<Longrightarrow> p = (if as = [] then None else Some (hd as))"
  by (cases as) auto

text \<open>The nodes of a list, when at most \<open>n\<close> of them are followed.\<close>

fun walk :: "nat \<Rightarrow> ('a \<Rightarrow> 'a option) \<Rightarrow> 'a option \<Rightarrow> 'a list" where
  "walk 0 nx p = []"
| "walk (Suc n) nx None = []"
| "walk (Suc n) nx (Some a) = a # walk n nx (nx a)"

lemma walk_chain: "chain nx p as \<Longrightarrow> length as \<le> n \<Longrightarrow> walk n nx p = as"
proof (induction n arbitrary: p as)
  case 0
  then show ?case by simp
next
  case (Suc n)
  then show ?case by (cases as) auto
qed

text \<open>A page of objects that each point at their neighbour.\<close>

lemma chain_stride:
  assumes "\<And>j. i \<le> j \<Longrightarrow> Suc j < i + Suc n \<Longrightarrow> nx (f j) = Some (f (Suc j))"
    and "nx (f (i + n)) = None"
  shows "chain nx (Some (f i)) (map f [i..<i + Suc n])"
  using assms
proof (induction n arbitrary: i)
  case 0
  then show ?case by simp
next
  case (Suc n)
  have "chain nx (Some (f (Suc i))) (map f [Suc i..<Suc i + Suc n])"
    by (rule Suc.IH) (use Suc.prems in auto)
  then show ?case using Suc.prems(1) [of i] by (simp add: upt_conv_Cons del: upt_Suc)
qed

text \<open>The nodes of a well-formed list.\<close>

definition nodes :: "('a \<Rightarrow> 'a option) \<Rightarrow> 'a option \<Rightarrow> 'a list" where
  "nodes nx p = (THE as. chain nx p as)"

lemma nodes_eq: "chain nx p as \<Longrightarrow> nodes nx p = as"
  unfolding nodes_def by (rule the_equality) (auto dest: chain_unique)

section \<open>Ports\<close>

text \<open>Access to the ports of the processor, on a world of type \<open>'d\<close>.\<close>

record 'd port_io =
  in_b :: "nat \<Rightarrow> 'd \<Rightarrow> u8 \<times> 'd"
  out_b :: "u8 \<Rightarrow> nat \<Rightarrow> 'd \<Rightarrow> 'd"

section \<open>Interfaces\<close>

text \<open>Repeated removal from a container, until it is empty or \<open>n\<close> elements are out.\<close>

primrec drain :: "('q \<Rightarrow> 'a option \<times> 'q) \<Rightarrow> nat \<Rightarrow> 'q \<Rightarrow> 'a list \<times> 'q" where
  "drain deq 0 q = ([], q)"
| "drain deq (Suc n) q = (case deq q of (None, q') \<Rightarrow> ([], q')
     | (Some x, q') \<Rightarrow> (case drain deq n q' of (xs, r) \<Rightarrow> (x # xs, r)))"

primrec fill :: "('q \<Rightarrow> 'a \<Rightarrow> 'q) \<Rightarrow> 'q \<Rightarrow> 'a list \<Rightarrow> 'q" where
  "fill enq q [] = q"
| "fill enq q (x # xs) = fill enq (enq q x) xs"

primrec fill_ok :: "('q \<Rightarrow> 'a \<Rightarrow> bool) \<Rightarrow> ('q \<Rightarrow> 'a \<Rightarrow> 'q) \<Rightarrow> 'q \<Rightarrow> 'a list \<Rightarrow> bool" where
  "fill_ok fresh enq q [] = True"
| "fill_ok fresh enq q (x # xs) = (fresh q x \<and> fill_ok fresh enq (enq q x) xs)"

text \<open>
  A first-in first-out container: what the lock-free queue, the scheduler's thread lists and the
  byte streams of the kernel promise to their clients. \<open>fresh\<close> is the condition under which
  the container accepts an element.
\<close>

locale fifo =
  fixes invar :: "'q \<Rightarrow> bool"
    and contents :: "'q \<Rightarrow> 'a list"
    and fresh :: "'q \<Rightarrow> 'a \<Rightarrow> bool"
    and enq :: "'q \<Rightarrow> 'a \<Rightarrow> 'q"
    and deq :: "'q \<Rightarrow> 'a option \<times> 'q"
  assumes enq_invar: "invar q \<Longrightarrow> fresh q x \<Longrightarrow> invar (enq q x)"
    and enq_contents: "invar q \<Longrightarrow> fresh q x \<Longrightarrow> contents (enq q x) = contents q @ [x]"
    and deq_invar: "invar q \<Longrightarrow> invar (snd (deq q))"
    and deq_result: "invar q \<Longrightarrow>
      fst (deq q) = (case contents q of [] \<Rightarrow> None | x # _ \<Rightarrow> Some x)"
    and deq_contents: "invar q \<Longrightarrow> contents (snd (deq q)) = tl (contents q)"
begin

lemma fill_contents:
  "invar q \<Longrightarrow> fill_ok fresh enq q xs \<Longrightarrow>
   invar (fill enq q xs) \<and> contents (fill enq q xs) = contents q @ xs"
  by (induction xs arbitrary: q) (auto simp: enq_invar enq_contents)

lemma drain_contents:
  "invar q \<Longrightarrow> fst (drain deq n q) = take n (contents q) \<and>
   invar (snd (drain deq n q)) \<and> contents (snd (drain deq n q)) = drop n (contents q)"
proof (induction n arbitrary: q)
  case 0
  then show ?case by simp
next
  case (Suc n)
  obtain r q' where d: "deq q = (r, q')" by (cases "deq q")
  have q': "invar q'" "contents q' = tl (contents q)"
    using deq_invar [OF Suc.prems] deq_contents [OF Suc.prems] d by auto
  have r: "r = (case contents q of [] \<Rightarrow> None | x # _ \<Rightarrow> Some x)"
    using deq_result [OF Suc.prems] d by simp
  show ?case
    using Suc.IH [OF q'(1)] r q' d by (cases "contents q") (auto split: prod.splits)
qed

lemma fill_drain:
  assumes "invar q" "contents q = []" "fill_ok fresh enq q xs"
  shows "fst (drain deq n (fill enq q xs)) = take n xs"
  using fill_contents [OF assms(1,3)] drain_contents [of "fill enq q xs" n] assms(2) by simp

lemma fill_drain_empty:
  assumes "invar q" "contents q = []" "fill_ok fresh enq q xs"
  shows "contents (snd (drain deq (length xs) (fill enq q xs))) = []"
  using fill_contents [OF assms(1,3)] drain_contents [of "fill enq q xs" "length xs"] assms(2) by simp

end

text \<open>A byte store addressed by offset: what a disk driver promises to the file system.\<close>

locale byte_store =
  fixes bok :: "'d \<Rightarrow> bool"
    and bcontents :: "'d \<Rightarrow> bytes"
    and bread :: "'d \<Rightarrow> nat \<Rightarrow> nat \<Rightarrow> bytes option"
    and bwrite :: "'d \<Rightarrow> nat \<Rightarrow> bytes \<Rightarrow> 'd option"
  assumes bread_in: "bok d \<Longrightarrow> a + n \<le> length (bcontents d) \<Longrightarrow>
      bread d a n = Some (take n (drop a (bcontents d)))"
    and bwrite_in: "bok d \<Longrightarrow> a + length bs \<le> length (bcontents d) \<Longrightarrow>
      \<exists>d'. bwrite d a bs = Some d' \<and> bok d' \<and> bcontents d' = blit (bcontents d) a bs"
begin

lemma write_read:
  assumes "bok d" "a + length bs \<le> length (bcontents d)"
  shows "\<exists>d'. bwrite d a bs = Some d' \<and> bok d' \<and> bread d' a (length bs) = Some bs"
proof -
  obtain d' where d': "bwrite d a bs = Some d'" "bok d'" "bcontents d' = blit (bcontents d) a bs"
    using bwrite_in [OF assms] by blast
  have "bread d' a (length bs) = Some bs"
    using bread_in [of d' a "length bs"] assms d'(2,3) by simp
  with d' show ?thesis by blast
qed

lemma write_read_elsewhere:
  assumes "bok d" "a + length bs \<le> length (bcontents d)" "c + n \<le> length (bcontents d)"
    and "c + n \<le> a \<or> a + length bs \<le> c"
  shows "\<exists>d'. bwrite d a bs = Some d' \<and> bok d' \<and> bread d' c n = bread d c n"
proof -
  obtain d' where d': "bwrite d a bs = Some d'" "bok d'" "bcontents d' = blit (bcontents d) a bs"
    using bwrite_in [OF assms(1,2)] by blast
  have "take n (drop c (blit (bcontents d) a bs)) = take n (drop c (bcontents d))"
    using assms(2-4) by (rule slice_blit_disjoint)
  then have "bread d' c n = bread d c n"
    using bread_in [of d' c n] bread_in [of d c n] assms d'(2,3) by simp
  with d' show ?thesis by blast
qed

end

end
