(* ===== verification/Rt_Mem.thy ===== *)
theory Rt_Mem
  imports Prelude
begin

text \<open>
  The bulk memory routines of \<open>kernel/rt/mem_a.asm\<close>: the alignment driven copy
  \<open>k_rt_CopyBytes\<close> and fill \<open>k_rt_SetBytes\<close>. Each routine is the list of the widths of the
  string moves it issues, one entry per \<open>movs\<close>/\<open>stos\<close> element, and the execution of that list
  on buffers. The copy is shown to be the plain copy of its byte count; the fill is shown to
  write exactly its byte count, or \<open>2 ^ 32\<close> bytes more on the inputs where its counter wraps.
\<close>

section \<open>Copy\<close>

text \<open>The labels of the routine; \<open>eax\<close> is the remaining byte count.\<close>

definition copybytes_byte_copy :: "nat \<Rightarrow> nat list" where
  "copybytes_byte_copy eax = replicate eax 1"

definition copybytes_word_copy :: "nat \<Rightarrow> nat list" where
  "copybytes_word_copy eax = replicate (eax div 2) 2 @
     (if eax mod 2 = 0 then [] else copybytes_byte_copy (eax mod 2))"

definition copybytes_dword_copy :: "nat \<Rightarrow> nat list" where
  "copybytes_dword_copy eax = replicate (eax div 4) 4 @
     (if eax mod 4 = 0 then [] else copybytes_word_copy (eax mod 4))"

definition copybytes_no_byte :: "nat \<Rightarrow> nat \<Rightarrow> nat list" where
  "copybytes_no_byte esi eax =
     (if esi mod 4 div 2 = 0 then copybytes_dword_copy eax
      else if eax < 2 then copybytes_byte_copy eax
      else 2 # (if eax - 2 = 0 then [] else copybytes_dword_copy (eax - 2)))"

definition copybytes_same_align :: "nat \<Rightarrow> nat \<Rightarrow> nat list" where
  "copybytes_same_align esi eax =
     (if esi mod 2 = 0 then copybytes_no_byte esi eax
      else 1 # (if eax - 1 = 0 then [] else copybytes_no_byte (esi + 1) (eax - 1)))"

definition copybytes_moves :: "nat \<Rightarrow> nat \<Rightarrow> nat \<Rightarrow> nat list" where
  "copybytes_moves edi esi eax =
     (if edi = 0 \<or> esi = 0 \<or> eax = 0 then []
      else if edi mod 4 = esi mod 4 then copybytes_same_align esi eax
      else if edi mod 2 \<noteq> esi mod 2 then copybytes_byte_copy eax
      else copybytes_word_copy eax)"

fun exec_moves :: "bytes \<Rightarrow> nat \<Rightarrow> bytes \<Rightarrow> nat \<Rightarrow> nat list \<Rightarrow> bytes option" where
  "exec_moves dst d src s [] = Some dst"
| "exec_moves dst d src s (w # ws) =
     (if d + w \<le> length dst \<and> s + w \<le> length src
      then exec_moves (blit dst d (take w (drop s src))) (d + w) src (s + w) ws
      else None)"

text \<open>
  \<open>k_rt_CopyBytes edi esi dst d src s n\<close>: the call on the addresses \<open>edi\<close> and \<open>esi\<close>, which
  lie at the offsets \<open>d\<close> and \<open>s\<close> of the objects \<open>dst\<close> and \<open>src\<close>.
\<close>

definition k_rt_CopyBytes ::
    "nat \<Rightarrow> nat \<Rightarrow> bytes \<Rightarrow> nat \<Rightarrow> bytes \<Rightarrow> nat \<Rightarrow> nat \<Rightarrow> bytes option" where
  "k_rt_CopyBytes edi esi dst d src s n = exec_moves dst d src s (copybytes_moves edi esi n)"

lemma sum_byte_copy [simp]: "sum_list (copybytes_byte_copy n) = n"
  by (simp add: copybytes_byte_copy_def sum_list_replicate)

lemma sum_word_copy [simp]: "sum_list (copybytes_word_copy n) = n"
proof -
  have "n div 2 * 2 + n mod 2 = n" by simp
  then show ?thesis by (simp only: copybytes_word_copy_def sum_list_append sum_byte_copy
    sum_list_replicate split: if_split) (auto simp: mod_2_eq_odd)
qed

lemma sum_dword_copy [simp]: "sum_list (copybytes_dword_copy n) = n"
  using div_mult_mod_eq [of n 4]
  by (cases "n mod 4 = 0") (simp_all add: copybytes_dword_copy_def sum_list_replicate)

lemma sum_no_byte [simp]: "sum_list (copybytes_no_byte esi n) = n"
  by (auto simp: copybytes_no_byte_def)

lemma sum_same_align [simp]: "0 < n \<Longrightarrow> sum_list (copybytes_same_align esi n) = n"
  by (simp add: copybytes_same_align_def)

lemma sum_copybytes_moves:
  "0 < edi \<Longrightarrow> 0 < esi \<Longrightarrow> sum_list (copybytes_moves edi esi n) = n"
  by (simp add: copybytes_moves_def)

lemma exec_moves_blit:
  "d + sum_list ws \<le> length dst \<Longrightarrow> s + sum_list ws \<le> length src \<Longrightarrow>
   exec_moves dst d src s ws = Some (blit dst d (take (sum_list ws) (drop s src)))"
proof (induction ws arbitrary: dst d s)
  case Nil
  then show ?case by simp
next
  case (Cons w ws)
  have "blit (blit dst d (take w (drop s src))) (d + w) (take (sum_list ws) (drop (s + w) src))
      = blit dst d (take w (drop s src) @ take (sum_list ws) (drop (s + w) src))"
    using Cons.prems
      blit_blit [of d "take w (drop s src)" "take (sum_list ws) (drop (s + w) src)" dst]
    by simp
  also have "take w (drop s src) @ take (sum_list ws) (drop (s + w) src)
      = take (w + sum_list ws) (drop s src)"
    by (simp add: take_add add.commute)
  finally show ?case using Cons.IH Cons.prems by simp
qed

lemma exec_moves_fault:
  "length dst < d + sum_list ws \<or> length src < s + sum_list ws \<Longrightarrow>
   d \<le> length dst \<Longrightarrow> s \<le> length src \<Longrightarrow> exec_moves dst d src s ws = None"
  by (induction ws arbitrary: dst d s) auto

lemma copy_bytes_exec:
  assumes "0 < edi" "0 < esi" "d \<le> length dst" "s \<le> length src"
  shows "k_rt_CopyBytes edi esi dst d src s n = copy_bytes dst d src s n"
  using assms sum_copybytes_moves [of edi esi n]
    exec_moves_blit [of d "copybytes_moves edi esi n" dst s src]
    exec_moves_fault [of dst d "copybytes_moves edi esi n" src s]
  by (auto simp: k_rt_CopyBytes_def copy_bytes_def)

text \<open>
  C1: The alignment driven copy \<open>k_rt_CopyBytes\<close> equals the plain copy of \<open>n\<close> bytes, for
  every alignment of source and destination and every length: byte, word and dword moves are
  chosen so that exactly \<open>n\<close> bytes are moved, and it faults exactly when the plain copy
  leaves one of the two objects.
\<close>

theorem k_rt_CopyBytes_plain:
  assumes "0 < edi" "0 < esi" "d \<le> length dst" "s \<le> length src"
  shows "k_rt_CopyBytes edi esi dst d src s n = copy_bytes dst d src s n"
  using assms by (rule copy_bytes_exec)

theorem k_rt_CopyBytes_plain_witness:
  "k_rt_CopyBytes 4097 8193 [0, 0, 0, 0] 0 [1, 2, 3, 4] 1 3 = Some [2, 3, 4, 0]"
  using k_rt_CopyBytes_plain [of 4097 8193 0 "[0, 0, 0, 0]" 1 "[1, 2, 3, 4]" 3]
  by (simp add: copy_bytes_def blit_def)

section \<open>Fill\<close>

text \<open>\<open>ebx\<close> is a 32 bit counter: its decrements wrap.\<close>

definition set_bytes_dword_move :: "nat \<Rightarrow> nat list" where
  "set_bytes_dword_move ebx = replicate (ebx div 4) 4 @
     (if ebx mod 4 = 0 then []
      else (if ebx mod 4 div 2 = 0 then [] else [2]) @ (if ebx mod 2 = 0 then [] else [1]))"

definition set_bytes_word_move :: "nat \<Rightarrow> nat list" where
  "set_bytes_word_move ebx = 2 #
     (if sub32 ebx 2 = 0 then [] else set_bytes_dword_move (sub32 ebx 2))"

definition set_bytes_byte_move :: "nat \<Rightarrow> nat list" where
  "set_bytes_byte_move ebx = 1 #
     (if sub32 ebx 1 = 0 then [] else set_bytes_word_move (sub32 ebx 1))"

definition k_rt_SetBytesCopy :: "nat \<Rightarrow> nat \<Rightarrow> nat list" where
  "k_rt_SetBytesCopy edi ebx =
     (if edi mod 4 = 0 then set_bytes_dword_move ebx
      else if edi mod 2 = 0 then set_bytes_word_move ebx
      else set_bytes_byte_move ebx)"

definition dword_bytes :: "u32 \<Rightarrow> bytes" where
  "dword_bytes w = [ucast w, ucast (drop_bit 8 w), ucast (drop_bit 16 w), ucast (drop_bit 24 w)]"

text \<open>The value byte replicated over \<open>eax\<close>, as \<open>k_rt_SetBytes\<close> prepares it.\<close>

definition set_bytes_pattern :: "u32 \<Rightarrow> bytes" where
  "set_bytes_pattern value =
     (let eax = value OR push_bit 8 value in dword_bytes (eax OR push_bit 16 eax))"

fun exec_stos :: "bytes \<Rightarrow> nat \<Rightarrow> bytes \<Rightarrow> nat list \<Rightarrow> bytes option" where
  "exec_stos dst d pat [] = Some dst"
| "exec_stos dst d pat (w # ws) =
     (if d + w \<le> length dst then exec_stos (blit dst d (take w pat)) (d + w) pat ws else None)"

definition k_rt_SetBytes :: "nat \<Rightarrow> bytes \<Rightarrow> nat \<Rightarrow> nat \<Rightarrow> u32 \<Rightarrow> bytes option" where
  "k_rt_SetBytes edi dst d sz value =
     exec_stos dst d (set_bytes_pattern value) (k_rt_SetBytesCopy edi sz)"

text \<open>The inputs on which the counter wraps: the head moves already exceed the byte count.\<close>

definition set_bytes_overruns :: "nat \<Rightarrow> nat \<Rightarrow> bool" where
  "set_bytes_overruns edi sz \<longleftrightarrow>
     (edi mod 4 = 2 \<and> sz < 2) \<or> (edi mod 2 = 1 \<and> (sz = 0 \<or> sz = 2))"

lemma sum_set_bytes_dword_move [simp]: "sum_list (set_bytes_dword_move n) = n"
proof -
  have "n mod 4 = 2 * (n mod 4 div 2) + n mod 2" by presburger
  moreover have "n mod 4 div 2 < 2" by auto
  ultimately show ?thesis
    by (auto simp: set_bytes_dword_move_def sum_list_replicate) presburger+
qed

lemma sum_set_bytes_word_move:
  "n < 2 ^ 32 \<Longrightarrow> sum_list (set_bytes_word_move n) = n + (if n < 2 then 2 ^ 32 else 0)"
  by (auto simp: set_bytes_word_move_def sub32_small sub32_wrap)

lemma sum_set_bytes_byte_move:
  assumes "n < 2 ^ 32"
  shows "sum_list (set_bytes_byte_move n) = n + (if n = 0 \<or> n = 2 then 2 ^ 32 else 0)"
proof (cases "n = 0")
  case True
  then show ?thesis
    by (simp add: set_bytes_byte_move_def sub32_wrap sum_set_bytes_word_move)
next
  case False
  then show ?thesis
    using assms by (auto simp: set_bytes_byte_move_def sub32_small sum_set_bytes_word_move)
qed

text \<open>
  The number of bytes \<open>k_rt_SetBytes\<close> writes. It is the requested size, except at a
  destination that is not dword aligned with a size smaller than the head moves (size 0 or 1
  at an even address, size 0 or 2 at an odd one), where the counter wraps and \<open>2 ^ 32\<close> bytes
  more are written.
\<close>

theorem k_rt_SetBytes_count:
  assumes "sz < 2 ^ 32"
  shows "sum_list (k_rt_SetBytesCopy edi sz) =
    sz + (if set_bytes_overruns edi sz then 2 ^ 32 else 0)"
proof -
  have "edi mod 4 = 2 \<longleftrightarrow> edi mod 4 \<noteq> 0 \<and> edi mod 2 = 0" by presburger
  moreover have "edi mod 4 = 0 \<Longrightarrow> edi mod 2 = 0" by presburger
  ultimately show ?thesis
    using assms sum_set_bytes_word_move [OF assms] sum_set_bytes_byte_move [OF assms]
    by (auto simp: k_rt_SetBytesCopy_def set_bytes_overruns_def)
qed

theorem k_rt_SetBytes_count_witness:
  "sum_list (k_rt_SetBytesCopy 4097 2) = 2 + 2 ^ 32 \<and> sum_list (k_rt_SetBytesCopy 4097 5) = 5"
  using k_rt_SetBytes_count [of 2 4097] k_rt_SetBytes_count [of 5 4097]
  by (simp add: set_bytes_overruns_def)

lemma set_bytes_pattern_byte: "set_bytes_pattern (ucast (v :: u8)) = [v, v, v, v]"
  by (auto simp: set_bytes_pattern_def dword_bytes_def Let_def bit_simps not_bit_byte
      intro!: bit_word_eqI)

lemma exec_stos_blit:
  "d + sum_list ws \<le> length dst \<Longrightarrow> \<forall>w \<in> set ws. w \<le> 4 \<Longrightarrow>
   exec_stos dst d [v, v, v, v] ws = Some (blit dst d (replicate (sum_list ws) v))"
proof (induction ws arbitrary: dst d)
  case Nil
  then show ?case by simp
next
  case (Cons w ws)
  have "[v, v, v, v] = replicate 4 v" by (simp add: eval_nat_numeral)
  then have t: "take w [v, v, v, v] = replicate w v" using Cons.prems by (simp add: min_def)
  have "blit (blit dst d (replicate w v)) (d + w) (replicate (sum_list ws) v)
      = blit dst d (replicate (w + sum_list ws) v)"
    using Cons.prems blit_blit [of d "replicate w v" "replicate (sum_list ws) v" dst]
    by (simp add: replicate_add)
  then show ?case using Cons.IH [of "d + w" "blit dst d (replicate w v)"] Cons.prems t by simp
qed

lemma k_rt_SetBytesCopy_widths: "w \<in> set (k_rt_SetBytesCopy edi n) \<Longrightarrow> w \<le> 4"
  by (auto simp: k_rt_SetBytesCopy_def set_bytes_byte_move_def set_bytes_word_move_def
      set_bytes_dword_move_def split: if_splits)

text \<open>What a fill does wherever its counter does not wrap.\<close>

lemma k_rt_SetBytes_fill:
  assumes "sz < 2 ^ 32" "\<not> set_bytes_overruns edi sz" "d + sz \<le> length dst"
  shows "k_rt_SetBytes edi dst d sz (ucast v) = Some (blit dst d (replicate sz v))"
proof -
  have "sum_list (k_rt_SetBytesCopy edi sz) = sz"
    using assms(2) sum_set_bytes_word_move [OF assms(1)] sum_set_bytes_byte_move [OF assms(1)]
    by (auto simp: k_rt_SetBytesCopy_def set_bytes_overruns_def) presburger+
  then show ?thesis
    using exec_stos_blit [of d "k_rt_SetBytesCopy edi sz" dst v] assms(3)
      k_rt_SetBytesCopy_widths [of _ edi sz]
    by (simp add: k_rt_SetBytes_def set_bytes_pattern_byte)
qed

end
