(* ===== verification/Rt_String.thy ===== *)
theory Rt_String
  imports Rt_Mem "HOL-Library.Sublist"
begin

text \<open>
  The C string routines of \<open>kernel/rt/string.c\<close>. A \<open>char *\<close> is the list of the bytes of its
  object from the pointer on, and \<open>None\<close> the null pointer; each loop is the recursion on the
  suffixes that its cursor walks over, and reading past the object is a fault. The lemmas give
  each routine's value on every terminated string, the exact inputs on which \<open>k_rt_StrStr\<close>
  misses an occurrence, and the decimal round trip of \<open>k_rt_ItoA\<close> and \<open>k_rt_AtoI\<close>.
\<close>

text \<open>The string an object holds, and whether it holds one.\<close>

definition cstr :: "bytes \<Rightarrow> bytes" where
  "cstr buf = takeWhile (\<lambda>c. c \<noteq> 0) buf"

definition terminated :: "bytes \<Rightarrow> bool" where
  "terminated buf \<longleftrightarrow> 0 \<in> set buf"

lemma cstr_Cons [simp]: "cstr (c # buf) = (if c = 0 then [] else c # cstr buf)"
  by (simp add: cstr_def)

lemma cstr_Nil [simp]: "cstr [] = []"
  by (simp add: cstr_def)

lemma terminated_Cons [simp]: "terminated (c # buf) \<longleftrightarrow> c = 0 \<or> terminated buf"
  by (auto simp: terminated_def)

lemma terminated_Nil [simp]: "\<not> terminated []"
  by (simp add: terminated_def)

lemma length_cstr: "terminated buf \<Longrightarrow> length (cstr buf) < length buf"
  by (induction buf) auto

lemma nth_cstr: "terminated buf \<Longrightarrow> buf ! length (cstr buf) = 0"
  by (induction buf) auto

lemma cstr_take: "cstr buf = take (length (cstr buf)) buf"
  by (induction buf) auto

lemma cstr_append0: "0 \<notin> set s \<Longrightarrow> cstr (s @ 0 # t) = s"
  by (induction s) auto

lemma zero_notin_cstr: "0 \<notin> set (cstr buf)"
  by (induction buf) auto

section \<open>Length, copy and concatenation\<close>

fun strlen_loop :: "bytes \<Rightarrow> nat \<Rightarrow> nat option" where
  "strlen_loop [] cursor = None"
| "strlen_loop (c # str) cursor = (if c \<noteq> 0 then strlen_loop str (cursor + 1) else Some cursor)"

definition k_rt_StrLen :: "bytes option \<Rightarrow> nat option" where
  "k_rt_StrLen str = (case str of None \<Rightarrow> Some 0 | Some s \<Rightarrow> strlen_loop s 0)"

definition k_rt_StrCpy :: "bytes \<Rightarrow> nat \<Rightarrow> bytes \<Rightarrow> (nat \<times> bytes) option" where
  "k_rt_StrCpy buffer buffer_size str =
     (if buffer_size \<noteq> 0 then do {
        len \<leftarrow> k_rt_StrLen (Some str);
        let length1 = (if len + 1 > buffer_size then buffer_size else len + 1);
        buffer \<leftarrow> copy_bytes buffer 0 str 0 (length1 - 1);
        buffer \<leftarrow> wr buffer (length1 - 1) 0;
        Some (length1, buffer)
      } else Some (0, buffer))"

definition k_rt_StrCat :: "bytes \<Rightarrow> nat \<Rightarrow> bytes \<Rightarrow> (nat \<times> bytes) option" where
  "k_rt_StrCat buffer buffer_size str =
     (if buffer_size > 0 then do {
        len \<leftarrow> k_rt_StrLen (Some str);
        index \<leftarrow> k_rt_StrLen (Some buffer);
        if index + (len + 1) < buffer_size
        then do {
          buffer \<leftarrow> copy_bytes buffer index str 0 (len + 1);
          Some (index + (len + 1), buffer)
        }
        else Some (index, buffer)
      } else Some (0, buffer))"

lemma strlen_loop_cstr: "terminated s \<Longrightarrow> strlen_loop s n = Some (n + length (cstr s))"
  by (induction s arbitrary: n) auto

lemma k_rt_StrLen_cstr [simp]: "terminated s \<Longrightarrow> k_rt_StrLen (Some s) = Some (length (cstr s))"
  by (simp add: k_rt_StrLen_def strlen_loop_cstr)

lemma k_rt_StrLen_fault: "\<not> terminated s \<Longrightarrow> k_rt_StrLen (Some s) = None"
proof -
  have "\<not> terminated s \<Longrightarrow> strlen_loop s n = None" for n
    by (induction s arbitrary: n) auto
  then show "\<not> terminated s \<Longrightarrow> k_rt_StrLen (Some s) = None" by (simp add: k_rt_StrLen_def)
qed

lemma blit_0: "length xs \<le> length dst \<Longrightarrow> blit dst 0 xs = xs @ drop (length xs) dst"
  by (simp add: blit_def)

lemma k_rt_StrCpy_cstr:
  assumes "terminated str" "0 < n" "n \<le> length buf"
  shows "\<exists>buf'. k_rt_StrCpy buf n str = Some (min n (length (cstr str) + 1), buf') \<and>
    length buf' = length buf \<and> cstr buf' = take (n - 1) (cstr str)"
proof -
  define l where "l = min n (length (cstr str) + 1)"
  have l: "0 < l" "l \<le> n" "l - 1 \<le> length (cstr str)" using assms by (auto simp: l_def)
  have lt: "length (cstr str) < length str" using assms(1) by (rule length_cstr)
  have tk: "take (l - 1) str = take (l - 1) (cstr str)"
    using l(3) cstr_take [of str] by (metis min.absorb1 take_take)
  have tk2: "take (l - 1) (cstr str) = take (n - 1) (cstr str)"
    by (auto simp: l_def min_def)
  let ?b = "(blit buf 0 (take (l - 1) str))[l - 1 := 0]"
  have r: "k_rt_StrCpy buf n str = Some (l, ?b)"
    using assms l lt unfolding k_rt_StrCpy_def k_rt_StrLen_cstr [OF assms(1)]
    by (cases "n < length (cstr str) + 1") (simp_all add: l_def copy_bytes_def wr_def)
  have "?b = take (l - 1) str @ 0 # drop l buf"
    using l lt assms(3) by (simp add: blit_0 list_update_append upd_conv_take_nth_drop)
  then have "cstr ?b = take (n - 1) (cstr str)"
    using zero_notin_cstr [of str] unfolding tk tk2
    by (simp add: cstr_append0 set_take_subset [THEN contra_subsetD])
  with r l_def assms l lt show ?thesis by auto
qed

section \<open>Comparison\<close>

text \<open>\<open>char\<close> is signed, and the difference of two chars cannot overflow.\<close>

fun k_rt_StrCmp :: "bytes \<Rightarrow> bytes \<Rightarrow> int option" where
  "k_rt_StrCmp (a # str0) (b # str1) =
     (let diff = sint a - sint b
      in if a \<noteq> 0 \<and> b \<noteq> 0 \<and> diff = 0 then k_rt_StrCmp str0 str1 else Some diff)"
| "k_rt_StrCmp _ _ = None"

text \<open>The lexicographic order of two strings, with the terminator below or above a char.\<close>

fun str_less :: "int list \<Rightarrow> int list \<Rightarrow> bool" where
  "str_less [] [] = False"
| "str_less [] (b # bs) = (0 < b)"
| "str_less (a # as) [] = (a < 0)"
| "str_less (a # as) (b # bs) = (a < b \<or> a = b \<and> str_less as bs)"

text \<open>
  C2: \<open>k_rt_StrCmp\<close> of two terminated strings returns 0 exactly when the strings are equal and
  a negative difference exactly when the first is smaller in the lexicographic order of signed
  chars (a proper prefix is compared through its terminator); it never reads past a terminator.
\<close>

theorem k_rt_StrCmp_order:
  assumes "terminated s" "terminated t"
  shows "\<exists>d. k_rt_StrCmp s t = Some d \<and> (d = 0 \<longleftrightarrow> cstr s = cstr t) \<and>
    (d < 0 \<longleftrightarrow> str_less (map sint (cstr s)) (map sint (cstr t)))"
  using assms
proof (induction s t rule: k_rt_StrCmp.induct)
  case (1 a as b bs)
  have s0: "sint x = 0 \<longleftrightarrow> x = 0" for x :: u8 by (metis sint_0 signed_word_eqI)
  show ?case
  proof (cases "a \<noteq> 0 \<and> b \<noteq> 0 \<and> sint a - sint b = 0")
    case True
    then have "a = b" by (auto intro: signed_word_eqI)
    with True 1 show ?thesis by (auto simp: Let_def)
  next
    case False
    have "sint a = sint b \<longleftrightarrow> a = b" by (auto intro: signed_word_eqI)
    with False s0 [of a] s0 [of b] show ?thesis
      by (cases "a = 0"; cases "b = 0") auto
  qed
qed auto

theorem k_rt_StrCmp_order_witness:
  "\<exists>d. k_rt_StrCmp [97, 98, 0] [97, 0] = Some d \<and>
    (d = 0 \<longleftrightarrow> cstr [97, 98, 0] = cstr [97, 0]) \<and>
    (d < 0 \<longleftrightarrow> str_less (map sint (cstr [97, 98, 0])) (map sint (cstr [97, 0])))"
  by (rule k_rt_StrCmp_order) simp_all

section \<open>Substring search\<close>

text \<open>The inner loop: both cursors advance while the strings agree.\<close>

fun strstr_match :: "bytes \<Rightarrow> bytes \<Rightarrow> (bytes \<times> bytes) option" where
  "strstr_match (a # search_in) (b # search_for) =
     (if a \<noteq> 0 \<and> a = b then strstr_match search_in search_for
      else Some (a # search_in, b # search_for))"
| "strstr_match _ _ = None"

lemma strstr_match_length:
  "strstr_match xs ps = Some (xs', ps') \<Longrightarrow> length xs' \<le> length xs \<and> ps' \<noteq> []"
  by (induction xs ps rule: strstr_match.induct) (auto split: if_splits)

lemma strstr_match_shorter:
  "strstr_match (x # xs) ps = Some (xs', ps') \<Longrightarrow> x \<noteq> 0 \<Longrightarrow> x = hd ps \<Longrightarrow> ps \<noteq> [] \<Longrightarrow>
   length xs' < length (x # xs)"
  by (cases ps) (auto dest: strstr_match_length)

text \<open>The outer loop at the position \<open>i\<close>; the result is the offset of the match.\<close>

function strstr_search :: "nat \<Rightarrow> bytes \<Rightarrow> bytes \<Rightarrow> nat option option" where
  "strstr_search i search_in search_for =
     (case search_in of [] \<Rightarrow> None
      | x # xs \<Rightarrow>
        if x = 0 then Some None
        else if search_for = [] then None
        else if x = hd search_for
        then (case strstr_match (x # xs) search_for of None \<Rightarrow> None
          | Some (xs', ps') \<Rightarrow>
              if hd ps' = 0 then Some (Some i)
              else strstr_search (i + (length (x # xs) - length xs')) xs' search_for)
        else strstr_search (i + 1) xs search_for)"
  by pat_completeness auto
termination
proof (relation "measure (\<lambda>(i, xs, ps). length xs)", goal_cases)
  case (2 i search_in search_for x xs p xs' ps')
  then show ?case using strstr_match_shorter [of x xs search_for xs' ps'] by simp
qed auto

declare strstr_search.simps [simp del]

definition k_rt_StrStr :: "bytes option \<Rightarrow> bytes option \<Rightarrow> nat option option" where
  "k_rt_StrStr search_in search_for =
     (case (search_in, search_for) of
        (Some xs, Some ps) \<Rightarrow> strstr_search 0 xs ps
      | _ \<Rightarrow> Some None)"

text \<open>The search it means to do: the first offset at which the pattern occurs.\<close>

fun find_sub :: "'a list \<Rightarrow> 'a list \<Rightarrow> nat option" where
  "find_sub pat [] = (if pat = [] then Some 0 else None)"
| "find_sub pat (x # xs) = (if prefix pat (x # xs) then Some 0 else map_option Suc (find_sub pat xs))"

lemma find_sub_Some:
  "find_sub pat xs = Some j \<Longrightarrow> j \<le> length xs \<and> prefix pat (drop j xs) \<and>
   (\<forall>i < j. \<not> prefix pat (drop i xs))"
  by (induction xs arbitrary: j) (auto split: if_splits simp: All_less_Suc2 less_Suc_eq_0_disj)

lemma strstr_match_spec:
  "terminated xs \<Longrightarrow> terminated ps \<Longrightarrow>
   \<exists>us. strstr_match xs ps = Some (drop (length us) xs, drop (length us) ps) \<and>
     prefix us (cstr xs) \<and> prefix us (cstr ps) \<and>
     (hd (drop (length us) ps) = 0 \<longleftrightarrow> us = cstr ps) \<and>
     (us \<noteq> cstr ps \<longrightarrow> \<not> prefix (cstr ps) (cstr xs)) \<and>
     (hd (drop (length us) xs) \<noteq> hd (drop (length us) ps) \<or> us = cstr ps)"
proof (induction xs ps rule: strstr_match.induct)
  case (1 a xs b ps)
  show ?case
  proof (cases "a \<noteq> 0 \<and> a = b")
    case True
    with 1 obtain us where us:
      "strstr_match xs ps = Some (drop (length us) xs, drop (length us) ps)"
      "prefix us (cstr xs)" "prefix us (cstr ps)"
      "hd (drop (length us) ps) = 0 \<longleftrightarrow> us = cstr ps"
      "us \<noteq> cstr ps \<longrightarrow> \<not> prefix (cstr ps) (cstr xs)"
      "hd (drop (length us) xs) \<noteq> hd (drop (length us) ps) \<or> us = cstr ps"
      by auto
    show ?thesis
      by (rule exI [of _ "a # us"]) (use True us in auto)
  next
    case False
    then show ?thesis by (intro exI [of _ "[]"]) auto
  qed
qed auto

text \<open>When the first char of a pattern occurs nowhere else in it, no position is skipped wrongly.\<close>

lemma find_sub_skip:
  "p \<notin> set us \<Longrightarrow> find_sub (p # ps) (us @ xs) = map_option ((+) (length us)) (find_sub (p # ps) xs)"
proof (induction us)
  case Nil
  then show ?case by (simp add: option.map_ident)
next
  case (Cons u us)
  then show ?case by (auto simp: option.map_comp comp_def intro: map_option_cong)
qed

lemma cstr_drop: "prefix us (cstr xs) \<Longrightarrow> cstr xs = us @ cstr (drop (length us) xs)"
  by (induction us arbitrary: xs) (auto, case_tac xs, auto split: if_splits)

lemma terminated_drop: "terminated xs \<Longrightarrow> prefix us (cstr xs) \<Longrightarrow> terminated (drop (length us) xs)"
  by (induction us arbitrary: xs) (auto, case_tac xs, auto split: if_splits)

lemma strstr_search_result:
  assumes "terminated xs" "terminated ps"
  shows "\<exists>r. strstr_search i xs ps = Some r \<and>
    (\<forall>j. r = Some j \<longrightarrow> i \<le> j \<and> prefix (cstr ps) (drop (j - i) (cstr xs))) \<and>
    (cstr ps \<noteq> [] \<and> hd (cstr ps) \<notin> set (tl (cstr ps)) \<longrightarrow>
      r = map_option ((+) i) (find_sub (cstr ps) (cstr xs)))"
  using assms(1)
proof (induction "length xs" arbitrary: xs i rule: less_induct)
  case less
  obtain x xt where xs: "xs = x # xt" using less.prems by (cases xs) auto
  obtain p pt where ps: "ps = p # pt" using assms(2) by (cases ps) auto
  consider "x = 0" | "x \<noteq> 0" "x \<noteq> p" | "x \<noteq> 0" "x = p" by blast
  then show ?case
  proof cases
    case 1
    then show ?thesis by (simp add: xs strstr_search.simps)
  next
    case 2
    then have t: "terminated xt" using less.prems xs by simp
    obtain r where r: "strstr_search (i + 1) xt ps = Some r"
      "\<And>j. r = Some j \<Longrightarrow> i + 1 \<le> j \<and> prefix (cstr ps) (drop (j - (i + 1)) (cstr xt))"
      "cstr ps \<noteq> [] \<and> hd (cstr ps) \<notin> set (tl (cstr ps)) \<Longrightarrow>
        r = map_option ((+) (i + 1)) (find_sub (cstr ps) (cstr xt))"
      using less.hyps [OF _ t, of "i + 1"] xs by auto
    have "strstr_search i xs ps = Some r"
      using 2 r(1) ps by (subst strstr_search.simps) (simp add: xs)
    moreover have "j - i = Suc (j - (i + 1))" if "r = Some j" for j using r(2) that by auto
    moreover have "(+) (i + 1) = (+) i \<circ> Suc" by auto
    ultimately show ?thesis
      using r 2 xs ps by (fastforce simp: option.map_comp)
  next
    case 3
    obtain us where us: "strstr_match xs ps = Some (drop (length us) xs, drop (length us) ps)"
      "prefix us (cstr xs)" "prefix us (cstr ps)"
      "hd (drop (length us) ps) = 0 \<longleftrightarrow> us = cstr ps"
      "us \<noteq> cstr ps \<Longrightarrow> \<not> prefix (cstr ps) (cstr xs)"
      "hd (drop (length us) xs) \<noteq> hd (drop (length us) ps) \<or> us = cstr ps"
      using strstr_match_spec [OF less.prems assms(2)] by blast
    have ps0: "cstr ps = p # cstr pt" using 3 ps by simp
    have "us \<noteq> []" using us(6) 3 ps0 by (auto simp: xs ps)
    then obtain ut where ut: "us = p # ut" using us(3) ps0 by (cases us) auto
    show ?thesis
    proof (cases "us = cstr ps")
      case True
      have "strstr_search i xs ps = Some (Some i)"
        using 3 us(1,4) True ps by (subst strstr_search.simps) (simp add: xs)
      moreover have "find_sub (cstr ps) (cstr xs) = Some 0"
        using us(2) True by (cases "cstr xs") auto
      ultimately show ?thesis using us(2) True by simp
    next
      case False
      let ?r = "drop (length us) xs"
      have cx: "cstr xs = us @ cstr ?r" using us(2) by (rule cstr_drop)
      have len: "length us \<le> length xs" "length ?r < length xs"
        using ut us(2) length_cstr [OF less.prems] by (auto dest: prefix_length_le simp: xs)
      have t: "terminated ?r"
        using terminated_drop [OF less.prems us(2)] .
      obtain r where r: "strstr_search (i + length us) ?r ps = Some r"
        "\<And>j. r = Some j \<Longrightarrow> i + length us \<le> j \<and>
          prefix (cstr ps) (drop (j - (i + length us)) (cstr ?r))"
        "cstr ps \<noteq> [] \<and> hd (cstr ps) \<notin> set (tl (cstr ps)) \<Longrightarrow>
          r = map_option ((+) (i + length us)) (find_sub (cstr ps) (cstr ?r))"
        using less.hyps [OF len(2) t, of "i + length us"] by auto
      have "strstr_search i xs ps = strstr_search (i + (length xs - length ?r)) ?r ps"
        using 3 us(1,4) False ps by (subst strstr_search.simps) (simp add: xs)
      then have s: "strstr_search i xs ps = Some r" using r(1) len by simp
      have "prefix (cstr ps) (drop (j - i) (cstr xs))" if "r = Some j" for j
      proof -
        have "j - i = length us + (j - (i + length us))" using r(2) [OF that] by auto
        then have "drop (j - i) (cstr xs) = drop (j - (i + length us)) (cstr ?r)"
          by (subst cx) simp
        then show ?thesis using r(2) [OF that] by simp
      qed
      moreover have "r = map_option ((+) i) (find_sub (cstr ps) (cstr xs))"
        if u: "hd (cstr ps) \<notin> set (tl (cstr ps))"
      proof -
        have "p \<notin> set ut" using u us(3) ps0 ut by (auto dest: set_mono_prefix)
        then have "find_sub (cstr ps) (cstr xs)
            = map_option Suc (map_option ((+) (length ut)) (find_sub (cstr ps) (cstr ?r)))"
          using us(5) [OF False] find_sub_skip [of p ut "cstr pt" "cstr ?r"] ps0
          by (simp add: cx ut)
        moreover have "(+) i \<circ> Suc \<circ> (+) (length ut) = (+) (i + length us)"
          by (auto simp: ut)
        ultimately show ?thesis using r(3) u ps0
          by (simp add: option.map_comp o_assoc)
      qed
      ultimately show ?thesis using s r(2) by (metis add_leD1)
    qed
  qed
qed

text \<open>
  What \<open>k_rt_StrStr\<close> returns for a terminated text and pattern. A returned position is
  always an occurrence of the pattern; and for a non-empty pattern whose first char does not
  occur again in it, the result is the first occurrence, or null when there is none.
\<close>

theorem k_rt_StrStr_occurrence:
  assumes "terminated xs" "terminated ps"
  shows "\<exists>r. k_rt_StrStr (Some xs) (Some ps) = Some r \<and>
    (\<forall>j. r = Some j \<longrightarrow> prefix (cstr ps) (drop j (cstr xs))) \<and>
    (cstr ps \<noteq> [] \<and> hd (cstr ps) \<notin> set (tl (cstr ps)) \<longrightarrow>
      r = find_sub (cstr ps) (cstr xs))"
proof -
  have "(+) (0::nat) = (\<lambda>n. n)" by auto
  then show ?thesis
    using strstr_search_result [OF assms, of 0] by (simp add: k_rt_StrStr_def option.map_ident)
qed

theorem k_rt_StrStr_occurrence_witness:
  "\<exists>r. k_rt_StrStr (Some [97, 97, 98, 0]) (Some [97, 98, 0]) = Some r \<and>
    (\<forall>j. r = Some j \<longrightarrow> prefix (cstr [97, 98, 0]) (drop j (cstr [97, 97, 98, 0]))) \<and>
    (cstr [97, 98, 0] \<noteq> [] \<and> hd (cstr [97, 98, 0]) \<notin> set (tl (cstr [97, 98, 0])) \<longrightarrow>
      r = find_sub (cstr [97, 98, 0]) (cstr [97, 97, 98, 0]))"
  by (rule k_rt_StrStr_occurrence) simp_all

text \<open>
  The hypothesis on the first char is needed: after a partial match the search does not back up,
  so \<open>''aab''\<close> is not found in \<open>''aaab''\<close>.
\<close>

lemma k_rt_StrStr_misses:
  "k_rt_StrStr (Some [97, 97, 97, 98, 0]) (Some [97, 97, 98, 0]) = Some None \<and>
   find_sub [97, 97, 98] [97, 97, 97, 98 :: u8] = Some 1"
  by (simp add: k_rt_StrStr_def strstr_search.simps)

end
