(* ===== verification/Rt_Number.thy ===== *)
theory Rt_Number
  imports Rt_String
begin

text \<open>
  Decimal conversion in \<open>kernel/rt/string.c\<close>. \<open>k_rt_ItoA\<close> divides by the powers of ten of its
  mask table, most significant row first, and subtracts the table's multiple; \<open>k_rt_AtoI\<close>
  accumulates in a signed 32 bit integer. The lemmas relate both to the decimal numeral of a
  number: exact output on every value and buffer size, and the round trip.
\<close>

section \<open>The conversions\<close>

definition k_rt_itoa_masks :: "nat list list" where
  "k_rt_itoa_masks =
    [[0, 1000000000, 2000000000, 3000000000, 4000000000, 0, 0, 0, 0, 0],
     [0, 100000000, 200000000, 300000000, 400000000, 500000000, 600000000, 700000000, 800000000, 900000000],
     [0, 10000000, 20000000, 30000000, 40000000, 50000000, 60000000, 70000000, 80000000, 90000000],
     [0, 1000000, 2000000, 3000000, 4000000, 5000000, 6000000, 7000000, 8000000, 9000000],
     [0, 100000, 200000, 300000, 400000, 500000, 600000, 700000, 800000, 900000],
     [0, 10000, 20000, 30000, 40000, 50000, 60000, 70000, 80000, 90000],
     [0, 1000, 2000, 3000, 4000, 5000, 6000, 7000, 8000, 9000],
     [0, 100, 200, 300, 400, 500, 600, 700, 800, 900],
     [0, 10, 20, 30, 40, 50, 60, 70, 80, 90],
     [0, 1, 1, 1, 1, 1, 1, 1, 1, 1]]"

function itoa_start :: "nat \<Rightarrow> nat \<Rightarrow> nat" where
  "itoa_start uvalue mask_index =
     (if uvalue < k_rt_itoa_masks ! mask_index ! 1 \<and> mask_index < 9
      then itoa_start uvalue (mask_index + 1) else mask_index)"
  by pat_completeness auto
termination by (relation "measure (\<lambda>(u, m). 9 - m)") auto

declare itoa_start.simps [simp del]

function itoa_digits :: "nat \<Rightarrow> nat \<Rightarrow> nat \<Rightarrow> nat \<Rightarrow> bytes \<Rightarrow> (nat \<times> bytes) option" where
  "itoa_digits mask_index uvalue index buffer_length buffer =
     (if mask_index < 10 \<and> index < buffer_length
      then do {
        let digit = uvalue div k_rt_itoa_masks ! mask_index ! 1;
        buffer \<leftarrow> wr buffer index (word_of_nat (0x30 + digit));
        multiple \<leftarrow> rd (k_rt_itoa_masks ! mask_index) digit;
        itoa_digits (mask_index + 1) (sub32 uvalue multiple) (index + 1) buffer_length buffer
      }
      else Some (index, buffer))"
  by pat_completeness auto
termination by (relation "measure (\<lambda>(m, _). 10 - m)") auto

declare itoa_digits.simps [simp del]

definition k_rt_ItoA ::
    "u32 \<Rightarrow> bytes option \<Rightarrow> nat \<Rightarrow> nat \<Rightarrow> (result_t \<times> nat \<times> bytes option) option" where
  "k_rt_ItoA v buffer buffer_size result_size =
     (case buffer of
        None \<Rightarrow> Some (RESULT_BAD_PARAM, result_size, buffer)
      | Some buf \<Rightarrow>
        if buffer_size > 0 then
          (let sign = (if v <s 0 then 1 else 0);
               uvalue = unat (if unat v > 0x80000000 then - v else v);
               mask_index = itoa_start uvalue 0;
               buffer_length = buffer_size - 1
           in if sign + 10 - mask_index \<le> buffer_length then do {
                buf \<leftarrow> (if sign \<noteq> 0 then wr buf 0 0x2d else Some buf);
                (index, buf) \<leftarrow> itoa_digits mask_index uvalue sign buffer_length buf;
                buf \<leftarrow> wr buf index 0;
                Some (RESULT_OK, index, Some buf)
              }
              else Some (RESULT_OUT_OF_SPACE, result_size, buffer))
        else Some (RESULT_BAD_PARAM, result_size, buffer))"

fun atoi_loop :: "bytes \<Rightarrow> int \<Rightarrow> (result_t \<times> int) option" where
  "atoi_loop [] local_value = None"
| "atoi_loop (c # str) local_value =
     (if c = 0 then Some (RESULT_OK, local_value)
      else if c <s 0x30 \<or> 0x39 <s c then Some (RESULT_BAD_PARAM, local_value)
      else do {
        scaled \<leftarrow> int32 (local_value * 10);
        local_value \<leftarrow> int32 (scaled + (sint c - 0x30));
        atoi_loop str local_value
      })"

definition k_rt_AtoI :: "bytes option \<Rightarrow> int \<Rightarrow> (result_t \<times> int) option" where
  "k_rt_AtoI str val =
     (case str of None \<Rightarrow> Some (RESULT_BAD_PARAM, val)
      | Some s \<Rightarrow> do {
          (r, local_value) \<leftarrow> atoi_loop s 0;
          Some (if r = RESULT_OK then (RESULT_OK, local_value) else (r, val))
        })"

section \<open>Decimal numerals\<close>

abbreviation digit_char :: "nat \<Rightarrow> u8" where
  "digit_char d \<equiv> word_of_nat (0x30 + d)"

fun decimal :: "nat \<Rightarrow> bytes" where
  "decimal n = (if n < 10 then [digit_char n]
     else decimal (n div 10) @ [digit_char (n mod 10)])"

declare decimal.simps [simp del]

text \<open>The last \<open>k\<close> digits of a number, most significant first.\<close>

fun pad :: "nat \<Rightarrow> nat \<Rightarrow> bytes" where
  "pad 0 u = []"
| "pad (Suc k) u = digit_char (u div 10 ^ k mod 10) # pad k u"

lemma length_pad [simp]: "length (pad k u) = k"
  by (induction k) auto

lemma pad_mod: "k \<le> m \<Longrightarrow> pad k (u mod 10 ^ m) = pad k u"
proof (induction k)
  case (Suc k)
  then have "(u mod 10 ^ m) div 10 ^ k mod 10 = u div 10 ^ k mod 10"
  proof -
    have m: "(10::nat) ^ m = 10 ^ k * (10 * 10 ^ (m - Suc k))"
      using Suc.prems by (metis power_Suc power_add le_add_diff_inverse add_Suc_right add_Suc)
    have "(u mod 10 ^ m) div 10 ^ k = u div 10 ^ k mod (10 * 10 ^ (m - Suc k))"
      unfolding m by (simp add: mod_mult2_eq)
    then show ?thesis by (simp add: mod_mod_cancel)
  qed
  with Suc show ?case by simp
qed simp

lemma pad_snoc: "pad (Suc k) u = pad k (u div 10) @ [digit_char (u mod 10)]"
  by (induction k) (simp_all add: div_mult2_eq [symmetric])

lemma pad_decimal: "u < 10 ^ Suc k \<Longrightarrow> k = 0 \<or> 10 ^ k \<le> u \<Longrightarrow> pad (Suc k) u = decimal u"
proof (induction k arbitrary: u)
  case 0
  then show ?case by (simp add: decimal.simps)
next
  case (Suc k)
  then have "pad (Suc k) (u div 10) = decimal (u div 10)" by (intro Suc.IH) auto
  moreover have "10 \<le> u"
  proof -
    have "(10::nat) \<le> 10 ^ Suc k" by (simp add: Suc_leI)
    then show ?thesis using Suc.prems(2) by linarith
  qed
  ultimately show ?case by (subst pad_snoc, subst decimal.simps) simp
qed

section \<open>Correctness of the conversions\<close>

lemma masks_rows:
  "list_all (\<lambda>m. k_rt_itoa_masks ! m ! 1 = 10 ^ (9 - m) \<and> length (k_rt_itoa_masks ! m) = 10) [0..<10]"
  by (simp add: k_rt_itoa_masks_def upt_rec)

lemma masks_multiples:
  "list_all (\<lambda>m. list_all (\<lambda>d. d * 10 ^ (9 - m) < 2 ^ 32 \<longrightarrow>
     k_rt_itoa_masks ! m ! d = d * 10 ^ (9 - m)) [0..<10]) [0..<9]"
  by (simp add: k_rt_itoa_masks_def upt_rec)

lemma masks_row:
  assumes "m < 10"
  shows "k_rt_itoa_masks ! m ! Suc 0 = 10 ^ (9 - m)" "length (k_rt_itoa_masks ! m) = 10"
  using masks_rows assms by (auto simp: list_all_iff)

lemma masks_multiple:
  "m < 9 \<Longrightarrow> d < 10 \<Longrightarrow> d * 10 ^ (9 - m) < 2 ^ 32 \<Longrightarrow>
   k_rt_itoa_masks ! m ! d = d * 10 ^ (9 - m)"
  using masks_multiples by (auto simp: list_all_iff)

lemma itoa_start_decimal:
  assumes "m \<le> 9" "u < 10 ^ (10 - m)"
  shows "itoa_start u m \<le> 9 \<and> decimal u = pad (10 - itoa_start u m) u \<and>
    u < 10 ^ (10 - itoa_start u m)"
  using assms
proof (induction u m rule: itoa_start.induct)
  case (1 u m)
  have row: "k_rt_itoa_masks ! m ! Suc 0 = 10 ^ (9 - m)" using 1 by (intro masks_row(1)) auto
  have s: "10 - m = Suc (9 - m)" using 1 by simp
  show ?case
  proof (cases "u < 10 ^ (9 - m) \<and> m < 9")
    case True
    then have "itoa_start u m = itoa_start u (m + 1)" by (simp add: itoa_start.simps [of u m] row)
    moreover have "u < 10 ^ (10 - (m + 1))" using True by simp
    ultimately show ?thesis using 1(1) True row by simp
  next
    case False
    then have i: "itoa_start u m = m" by (subst itoa_start.simps) (use row in auto)
    have "pad (Suc (9 - m)) u = decimal u"
      by (rule pad_decimal) (use False 1 s in \<open>auto simp: not_less\<close>)
    with i 1 s show ?thesis by simp
  qed
qed

lemma itoa_digits_pad:
  assumes "m \<le> 10" "u < 10 ^ (10 - m)" "u < 2 ^ 32" "index + (10 - m) \<le> bl" "bl \<le> length buf"
  shows "itoa_digits m u index bl buf = Some (index + (10 - m), blit buf index (pad (10 - m) u))"
  using assms
proof (induction "10 - m" arbitrary: m u index buf)
  case 0
  then show ?case by (simp add: itoa_digits.simps)
next
  case (Suc k)
  then have k: "k = 9 - m" "k = 10 - (m + 1)" and m: "m < 10" by auto
  let ?d = "u div 10 ^ k"
  have row: "k_rt_itoa_masks ! m ! Suc 0 = 10 ^ k" "length (k_rt_itoa_masks ! m) = 10"
    using masks_row [OF m] k by auto
  have d: "?d < 10" "?d * 10 ^ k \<le> u"
    using Suc.prems(2) by (simp_all add: Suc.hyps(2) [symmetric] less_mult_imp_div_less)
  have idx: "index < bl" "index < length buf" using Suc.prems Suc.hyps(2) by auto
  let ?b = "buf[index := digit_char ?d]"
  have b: "?b = blit buf index [digit_char ?d]"
    using blit_snoc [of index "[]" buf "digit_char ?d"] Suc.prems Suc.hyps(2) by simp
  have step: "itoa_digits m u index bl buf
      = itoa_digits (m + 1) (sub32 u (k_rt_itoa_masks ! m ! ?d)) (index + 1) bl ?b"
    using m d idx by (subst itoa_digits.simps) (simp add: row wr_in rd_in Let_def)
  have "itoa_digits (m + 1) (sub32 u (k_rt_itoa_masks ! m ! ?d)) (index + 1) bl ?b
      = Some (index + 1 + k, blit ?b (index + 1) (pad k u))"
  proof (cases "k = 0")
    case True
    then show ?thesis using k m by (subst itoa_digits.simps) simp
  next
    case False
    then have "k_rt_itoa_masks ! m ! ?d = ?d * 10 ^ k"
      using masks_multiple [of m ?d] k d le_less_trans [OF d(2) Suc.prems(3)] by simp
    then have u: "sub32 u (k_rt_itoa_masks ! m ! ?d) = u mod 10 ^ k"
      using d Suc.prems(3) by (simp add: sub32_le minus_div_mult_eq_mod)
    have "itoa_digits (m + 1) (u mod 10 ^ k) (index + 1) bl ?b
      = Some (index + 1 + (10 - (m + 1)), blit ?b (index + 1) (pad (10 - (m + 1)) (u mod 10 ^ k)))"
      by (rule Suc.hyps(1))
        (use Suc.prems Suc.hyps(2) k m in \<open>auto intro: le_less_trans [OF mod_less_eq_dividend]\<close>)
    then show ?thesis by (simp add: u pad_mod k(1) [symmetric])
  qed
  moreover have "blit ?b (index + 1) (pad k u) = blit buf index (pad (Suc k) u)"
  proof -
    have "index + length [digit_char ?d] + length (pad k u) \<le> length buf"
      using Suc.prems Suc.hyps(2) by simp
    from blit_blit [OF this] show ?thesis using d unfolding b by simp
  qed
  ultimately show ?case by (simp add: step Suc.hyps(2) [symmetric])
qed

text \<open>The text \<open>k_rt_ItoA\<close> has to produce.\<close>

definition numeral_text :: "int \<Rightarrow> bytes" where
  "numeral_text i = (if i < 0 then [0x2d] else []) @ decimal (nat \<bar>i\<bar>)"

text \<open>
  C3: \<open>k_rt_ItoA\<close> on every 32 bit value, the smallest one included, and every buffer: it writes
  the sign and decimal numeral with a terminator and reports its length when they fit in
  \<open>n\<close> bytes, and otherwise returns \<open>RESULT_OUT_OF_SPACE\<close> with the buffer untouched.
\<close>

theorem k_rt_ItoA_decimal:
  assumes "0 < n" "n \<le> length buf"
  shows "k_rt_ItoA v (Some buf) n r = Some
    (if length (numeral_text (sint v)) < n
     then (RESULT_OK, length (numeral_text (sint v)),
           Some (blit buf 0 (numeral_text (sint v) @ [0])))
     else (RESULT_OUT_OF_SPACE, r, Some buf))"
proof -
  let ?s = "if v <s 0 then 1 else 0 :: nat"
  define u where "u = unat (if unat v > 0x80000000 then - v else v)"
  define m where "m = itoa_start u 0"
  have ua: "u = nat \<bar>sint v\<bar>" unfolding u_def by (rule abs_u32)
  have u: "u < 2 ^ 32" using unsigned_less [of "if unat v > 0x80000000 then - v else v"]
    by (simp add: u_def)
  have m: "m \<le> 9" "decimal u = pad (10 - m) u" "u < 10 ^ (10 - m)"
    using itoa_start_decimal [of 0 u] u by (auto simp: m_def)
  have len: "length (numeral_text (sint v)) = ?s + 10 - m"
    using m(1) by (simp add: numeral_text_def sless_0_iff m(2) flip: ua)
  show ?thesis
  proof (cases "?s + 10 - m \<le> n - 1")
    case False
    then show ?thesis
      using assms len by (simp add: k_rt_ItoA_def Let_def u_def [symmetric] m_def [symmetric])
  next
    case True
    define b1 where "b1 = blit buf 0 (if v <s 0 then [0x2d] else [])"
    have l1: "length b1 = length buf" using assms by (simp add: b1_def)
    have b1: "(if ?s \<noteq> 0 then wr buf 0 0x2d else Some buf) = Some b1"
      using assms blit_snoc [of 0 "[]" buf "0x2d"] by (cases buf) (simp_all add: b1_def wr_in)
    have dig: "itoa_digits m u ?s (n - 1) b1
        = Some (?s + (10 - m), blit b1 ?s (pad (10 - m) u))"
      by (rule itoa_digits_pad) (use m u True assms l1 in auto)
    have b2: "blit b1 ?s (pad (10 - m) u) = blit buf 0 (numeral_text (sint v))"
      using blit_blit [of 0 "if v <s 0 then [0x2d] else []" "pad (10 - m) u" buf] True assms m(1)
      by (auto simp: b1_def numeral_text_def sless_0_iff m(2) simp flip: ua)
    have "(blit buf 0 (numeral_text (sint v)))[?s + (10 - m) := 0]
        = blit buf 0 (numeral_text (sint v) @ [0])"
      using blit_snoc [of 0 "numeral_text (sint v)" buf 0] len True assms m(1) by simp
    moreover have "wr (blit buf 0 (numeral_text (sint v))) (?s + (10 - m)) 0
        = Some ((blit buf 0 (numeral_text (sint v)))[?s + (10 - m) := 0])"
      by (rule wr_in) (use len True assms m(1) in auto)
    moreover have "length (numeral_text (sint v)) < n" using len True assms(1) by linarith
    ultimately show ?thesis
      using True assms len m(1) b1 dig b2
      by (simp add: k_rt_ItoA_def Let_def u_def [symmetric] m_def [symmetric] split del: if_split)
  qed
qed

theorem k_rt_ItoA_decimal_witness:
  "k_rt_ItoA (- 42) (Some [7, 7, 7, 7, 7]) 5 0
     = Some (RESULT_OK, 3, Some (blit [7, 7, 7, 7, 7] 0 [0x2d, 0x34, 0x32, 0]))"
  using k_rt_ItoA_decimal [of 5 "[7, 7, 7, 7, 7]" "- 42" 0]
  by (simp add: numeral_text_def decimal.simps)

text \<open>Reading the digits back: each is a char between \<open>'0'\<close> and \<open>'9'\<close>.\<close>

lemma sint_u8_small: "d < 128 \<Longrightarrow> sint (word_of_nat d :: u8) = int d"
  by (simp add: signed_of_nat signed_take_bit_int_eq_self)

lemma sint_digit: "d < 10 \<Longrightarrow> sint (digit_char d) = 0x30 + int d"
  using sint_u8_small [of "48 + d"] by simp

lemma digit_char_nonzero: "d < 10 \<Longrightarrow> digit_char d \<noteq> 0"
  using sint_digit [of d] by (metis add_nonneg_pos of_nat_0_le_iff less_irrefl signed_0
      zero_less_numeral add.commute)

lemma atoi_loop_digit:
  "d < 10 \<Longrightarrow> 0 \<le> a \<Longrightarrow> a * 10 + int d < 2 ^ 31 \<Longrightarrow>
   atoi_loop (digit_char d # str) a = atoi_loop str (a * 10 + int d)"
  using sint_digit [of d] digit_char_nonzero [of d]
  by (simp add: int32_def word_sless_alt)

lemma atoi_decimal:
  "n < 2 ^ 31 \<Longrightarrow> atoi_loop (decimal n @ t) 0 = atoi_loop t (int n)"
proof (induction n arbitrary: t rule: decimal.induct)
  case (1 n)
  show ?case
  proof (cases "n < 10")
    case True
    then show ?thesis using atoi_loop_digit [of n 0 t] by (simp add: decimal.simps [of n])
  next
    case False
    have "atoi_loop (digit_char (n mod 10) # t) (int (n div 10)) = atoi_loop t (int n)"
      proof -
      have n: "int (n div 10) * 10 + int (n mod 10) = int n"
        by (metis div_mult_mod_eq of_nat_add of_nat_mult of_nat_numeral)
      have "int n < 2 ^ 31" using 1(2) by (metis of_nat_less_iff of_nat_numeral of_nat_power)
      with n show ?thesis using atoi_loop_digit [of "n mod 10" "int (n div 10)" t] by simp
    qed
    then show ?thesis using False 1 by (simp add: decimal.simps [of n])
  qed
qed

text \<open>
  C4: Reading back what \<open>k_rt_ItoA\<close> printed: \<open>k_rt_AtoI\<close> returns the value itself for every
  non-negative value, without overflow, and rejects the text of every negative one, because it
  has no case for the sign.
\<close>

theorem k_rt_AtoI_ItoA:
  assumes "k_rt_ItoA v (Some buf) n r = Some (RESULT_OK, l, Some buf')" "n \<le> length buf"
  shows "k_rt_AtoI (Some buf') x =
    Some (if 0 \<le> sint v then (RESULT_OK, sint v) else (RESULT_BAD_PARAM, x))"
proof -
  have n: "0 < n" using assms(1) by (cases n) (simp_all add: k_rt_ItoA_def)
  let ?s = "numeral_text (sint v)"
  have s: "length ?s < n" "buf' = blit buf 0 (?s @ [0])"
    using assms k_rt_ItoA_decimal [OF n assms(2), of v r] by (auto split: if_splits)
  have b: "buf' = ?s @ 0 # drop (length ?s + 1) buf"
    using s assms(2) by (simp add: blit_0)
  show ?thesis
  proof (cases "0 \<le> sint v")
    case True
    have "sint v < 2 ^ 31" using sint_lt [of v] by simp
    then show ?thesis using True by (simp add: k_rt_AtoI_def b numeral_text_def atoi_decimal)
  next
    case False
    have "(0x2d :: u8) <s 0x30" by (simp add: word_sless_alt)
    then show ?thesis using False by (simp add: k_rt_AtoI_def b numeral_text_def)
  qed
qed

theorem k_rt_AtoI_ItoA_witness:
  "k_rt_AtoI (Some (blit [7, 7, 7, 7, 7] 0 [0x34, 0x32, 0])) 9 = Some (RESULT_OK, 42)"
proof -
  have "k_rt_ItoA 42 (Some [7, 7, 7, 7, 7]) 5 0
      = Some (RESULT_OK, 2, Some (blit [7, 7, 7, 7, 7] 0 [0x34, 0x32, 0]))"
    by (simp add: k_rt_ItoA_def itoa_start.simps itoa_digits.simps k_rt_itoa_masks_def Let_def
        wr_def rd_def sub32_def blit_def word_sless_alt)
  from k_rt_AtoI_ItoA [OF this] show ?thesis by simp
qed

end
