(* ===== verification/K_String.thy ===== *)
theory K_String
  imports Rt_Number
begin

text \<open>
  The formatter of \<open>kernel/k_string.c\<close>: \<open>k_itoa\<close> (the same digit loop as \<open>k_rt_ItoA\<close>), the
  hexadecimal \<open>k_xtoa\<close>, \<open>k_strcat\<close> and the directive loop \<open>k_vasfmt\<close>. A pointer into the
  buffer is the rest of the buffer from there on, and the variable arguments are a list whose
  elements have the type they were passed with. The lemmas give the exact output of \<open>k_xtoa\<close>
  and of directive free formats, and the inputs on which \<open>k_vasfmt\<close> writes out of its buffer.
\<close>

section \<open>The conversions\<close>

definition k_itoa_masks :: "nat list list" where
  "k_itoa_masks = k_rt_itoa_masks"

definition k_nibble_lut :: bytes where
  "k_nibble_lut = [0x30, 0x31, 0x32, 0x33, 0x34, 0x35, 0x36, 0x37, 0x38, 0x39,
    0x61, 0x62, 0x63, 0x64, 0x65, 0x66]"

definition k_strlen :: "bytes \<Rightarrow> nat option" where
  "k_strlen buf = strlen_loop buf 0"

definition k_itoa :: "bytes \<Rightarrow> int \<Rightarrow> u32 \<Rightarrow> (nat \<times> bytes) option" where
  "k_itoa buf buffer_size v =
     (if buffer_size > 0 then
        (let buffer_length = nat buffer_size - 1;
             sign = (if v <s 0 then 1 else 0);
             uvalue = unat (if unat v > 0x80000000 then - v else v);
             mask_index = itoa_start uvalue 0
         in if sign + 10 - mask_index \<le> buffer_length then do {
              buf \<leftarrow> (if sign \<noteq> 0 then wr buf 0 0x2d else Some buf);
              (index, buf) \<leftarrow> itoa_digits mask_index uvalue sign buffer_length buf;
              buf \<leftarrow> wr buf index 0;
              Some (index, buf)
            }
            else Some (0, buf))
      else Some (0, buf))"

function xtoa_scan :: "u64 \<Rightarrow> u64 \<Rightarrow> nat \<Rightarrow> nat" where
  "xtoa_scan val msk index =
     (if val AND msk = 0 \<and> msk \<noteq> 0 then xtoa_scan val (drop_bit 4 msk) (index + 1) else index)"
  by pat_completeness auto
termination
proof (relation "measure (\<lambda>(v, m, i). unat m)", goal_cases)
  case (2 v m i)
  then have "0 < unat m" by (simp add: unat_gt_0)
  then have "unat m div 16 < unat m" by (intro div_less_dividend) auto
  then show ?case by (simp add: unat_drop_bit_eq drop_bit_eq_div unat_div_distrib)
qed simp

declare xtoa_scan.simps [simp del]

function xtoa_digits :: "nat \<Rightarrow> u64 \<Rightarrow> bytes \<Rightarrow> bytes option" where
  "xtoa_digits index val buffer =
     (if index = 0 then None
      else do {
        buffer \<leftarrow> wr buffer (index - 1) (k_nibble_lut ! unat (val AND 0xf));
        if drop_bit 4 val \<noteq> 0 then xtoa_digits (index - 1) (drop_bit 4 val) buffer
        else Some buffer
      })"
  by pat_completeness auto
termination by (relation "measure fst") auto

declare xtoa_digits.simps [simp del]

definition k_xtoa :: "bytes \<Rightarrow> int \<Rightarrow> u64 \<Rightarrow> (nat \<times> bytes) option" where
  "k_xtoa buf buffer_size val =
     (if buffer_size > 0 then
        (let index = 16 - xtoa_scan val 0xf000000000000000 0;
             index = (if index = 0 then index + 1 else index);
             len = index
         in if int index < buffer_size then do {
              buf \<leftarrow> wr buf index 0;
              buf \<leftarrow> xtoa_digits index val buf;
              Some (len, buf)
            }
            else Some (len, buf))
      else Some (0, buf))"

definition k_strcat :: "bytes \<Rightarrow> int \<Rightarrow> bytes \<Rightarrow> (nat \<times> bytes) option" where
  "k_strcat buf buffer_size str =
     (if buffer_size > 0 then do {
        len \<leftarrow> k_strlen str;
        index \<leftarrow> k_strlen buf;
        if index + (len + 1) < nat buffer_size
        then do {
          buf \<leftarrow> copy_bytes buf index str 0 (len + 1);
          Some (index + (len + 1), buf)
        }
        else Some (index, buf)
      } else Some (0, buf))"

fun memcpy_loop :: "nat \<Rightarrow> nat \<Rightarrow> bytes \<Rightarrow> bytes \<Rightarrow> bytes option" where
  "memcpy_loop 0 index dst src = Some dst"
| "memcpy_loop (Suc left) index dst src = do {
     c \<leftarrow> rd src index;
     dst \<leftarrow> wr dst index c;
     memcpy_loop left (index + 1) dst src
   }"

definition k_memcpy :: "bytes \<Rightarrow> bytes \<Rightarrow> nat \<Rightarrow> bytes option" where
  "k_memcpy dst src n = memcpy_loop n 0 dst src"

section \<open>The formatter\<close>

datatype K_FMT_MODIFIER_TYPE =
  K_FMT_MODIFIER_NONE | K_FMT_MODIFIER_LONG | K_FMT_MODIFIER_LONG_LONG

datatype vararg = Dword u32 | Qword u64 | Str bytes

fun va_dword :: "vararg list \<Rightarrow> (u32 \<times> vararg list) option" where
  "va_dword (Dword d # args) = Some (d, args)"
| "va_dword _ = None"

fun va_qword :: "vararg list \<Rightarrow> (u64 \<times> vararg list) option" where
  "va_qword (Qword q # args) = Some (q, args)"
| "va_qword _ = None"

fun va_str :: "vararg list \<Rightarrow> (bytes \<times> vararg list) option" where
  "va_str (Str s # args) = Some (s, args)"
| "va_str _ = None"

definition fmt_modifier ::
    "bytes \<Rightarrow> K_FMT_MODIFIER_TYPE \<Rightarrow> (K_FMT_MODIFIER_TYPE \<times> bytes) option" where
  "fmt_modifier fmt modifier = do {
     c \<leftarrow> rd fmt 0;
     if c = 0x6c then do {
       c \<leftarrow> rd fmt 1;
       Some (if c = 0x6c then (K_FMT_MODIFIER_LONG_LONG, drop 2 fmt)
             else (K_FMT_MODIFIER_LONG, drop 1 fmt))
     }
     else Some (modifier, fmt)
   }"

definition fmt_directive ::
    "u8 \<Rightarrow> K_FMT_MODIFIER_TYPE \<Rightarrow> vararg list \<Rightarrow> bytes \<Rightarrow> nat \<Rightarrow> nat \<Rightarrow>
     (vararg list \<times> bytes \<times> nat) option" where
  "fmt_directive c modifier args buffer buffer_length out_index =
     (if c = 0x64 then do {
        (dword_arg, args) \<leftarrow> va_dword args;
        (n, rest) \<leftarrow> k_itoa (drop out_index buffer) (int (buffer_length - out_index)) dword_arg;
        Some (args, take out_index buffer @ rest, out_index + n)
      }
      else if c = 0x78 then do {
        (qword_arg, args) \<leftarrow> (if modifier = K_FMT_MODIFIER_LONG_LONG then va_qword args
          else do { (d, args) \<leftarrow> va_dword args; Some (ucast d, args) });
        (n, rest) \<leftarrow> k_xtoa (drop out_index buffer) (int (buffer_length - out_index)) qword_arg;
        Some (args, take out_index buffer @ rest, out_index + n)
      }
      else if c = 0x73 then do {
        (str_arg, args) \<leftarrow> va_str args;
        (n, rest) \<leftarrow> k_strcat (drop out_index buffer) (int (buffer_length - out_index)) str_arg;
        Some (args, take out_index buffer @ rest,
          if n \<noteq> 0 then out_index + (n - 1) else out_index)
      }
      else if c = 0x63 then do {
        (dword_arg, args) \<leftarrow> va_dword args;
        buffer \<leftarrow> wr buffer out_index (ucast (dword_arg AND 0xff));
        Some (args, buffer, out_index + 1)
      }
      else Some (args, buffer, out_index))"

lemma fmt_modifier_length: "fmt_modifier fmt m = Some (m', rest) \<Longrightarrow> length rest \<le> length fmt"
  by (auto simp: fmt_modifier_def bind_eq_Some_conv split: if_splits)

function vasfmt_loop ::
    "bytes \<Rightarrow> K_FMT_MODIFIER_TYPE \<Rightarrow> vararg list \<Rightarrow> bytes \<Rightarrow> nat \<Rightarrow> nat \<Rightarrow> (bytes \<times> nat) option" where
  "vasfmt_loop fmt modifier args buffer buffer_length out_index =
     (case fmt of [] \<Rightarrow> None
      | c # fmt' \<Rightarrow>
        if c \<noteq> 0 \<and> out_index < buffer_length then
          Option.bind (wr buffer out_index 0) (\<lambda>buffer.
            if c = 0x25 then
              (case fmt_modifier fmt' modifier of None \<Rightarrow> None
               | Some (modifier, rest) \<Rightarrow>
                 Option.bind (rd rest 0) (\<lambda>d.
                   Option.bind (fmt_directive d modifier args buffer buffer_length out_index)
                     (\<lambda>(args, buffer, out_index).
                       vasfmt_loop (tl rest) modifier args buffer buffer_length out_index)))
            else Option.bind (wr buffer out_index c) (\<lambda>buffer.
              vasfmt_loop fmt' modifier args buffer buffer_length (out_index + 1)))
        else Some (buffer, out_index))"
  by pat_completeness auto
termination
  by (relation "measure (\<lambda>(fmt, _). length fmt)") (auto dest: fmt_modifier_length)

declare vasfmt_loop.simps [simp del]

definition k_vasfmt :: "bytes \<Rightarrow> int \<Rightarrow> bytes \<Rightarrow> vararg list \<Rightarrow> bytes option" where
  "k_vasfmt buffer buffer_size fmt args =
     (if buffer_size > 0 then do {
        (buffer, out_index) \<leftarrow>
          vasfmt_loop fmt K_FMT_MODIFIER_NONE args buffer (nat buffer_size - 1) 0;
        wr buffer out_index 0
      } else Some buffer)"

definition k_sfmt :: "bytes \<Rightarrow> int \<Rightarrow> bytes \<Rightarrow> vararg list \<Rightarrow> bytes option" where
  "k_sfmt buffer buffer_size fmt args = k_vasfmt buffer buffer_size fmt args"

section \<open>Hexadecimal output\<close>

fun hexadecimal :: "nat \<Rightarrow> bytes" where
  "hexadecimal n = (if n < 16 then [k_nibble_lut ! n]
     else hexadecimal (n div 16) @ [k_nibble_lut ! (n mod 16)])"

declare hexadecimal.simps [simp del]

lemma length_hexadecimal_0: "length (hexadecimal 0) = 1"
  by (subst hexadecimal.simps) simp

lemma hexadecimal_pos: "0 < length (hexadecimal n)"
  by (subst hexadecimal.simps) simp

lemma length_hexadecimal:
  "n < 16 ^ Suc j \<Longrightarrow> j = 0 \<or> 16 ^ j \<le> n \<Longrightarrow> length (hexadecimal n) = Suc j"
proof (induction j arbitrary: n)
  case 0
  then show ?case by (simp add: hexadecimal.simps)
next
  case (Suc j)
  have "(16::nat) \<le> 16 ^ Suc j" by (simp add: Suc_leI)
  then have "\<not> n < 16" using Suc.prems(2) by linarith
  moreover have "length (hexadecimal (n div 16)) = Suc j" by (rule Suc.IH) (use Suc.prems in auto)
  ultimately show ?case by (subst hexadecimal.simps) simp
qed

lemma hexadecimal_le: "n < 16 ^ Suc j \<Longrightarrow> length (hexadecimal n) \<le> Suc j"
proof (induction j arbitrary: n)
  case 0
  then show ?case by (simp add: hexadecimal.simps)
next
  case (Suc j)
  have "length (hexadecimal (n div 16)) \<le> Suc j" by (rule Suc.IH) (use Suc.prems in auto)
  then show ?case by (subst hexadecimal.simps) simp
qed

definition xtoa_mask :: "nat \<Rightarrow> u64" where
  "xtoa_mask k = (if k = 0 then 0 else push_bit (4 * (k - 1)) (mask 4))"

lemma bit_u64: "bit (v :: u64) n \<Longrightarrow> n < 64"
  by (auto dest: bit_imp_le_length)

lemma unat_drop_nibbles: "unat (v :: u64) < 16 ^ j \<longleftrightarrow> (\<forall>i \<ge> 4 * j. \<not> bit v i)"
proof -
  have "unat v < 16 ^ j \<longleftrightarrow> unat (drop_bit (4 * j) v) = 0"
    by (simp add: unat_drop_bit_eq div_eq_0_iff power_mult del: drop_bit_eq_div) (simp add: drop_bit_eq_div div_eq_0_iff power_mult)
  also have "\<dots> \<longleftrightarrow> drop_bit (4 * j) v = 0" by (simp add: unat_eq_0)
  also have "\<dots> \<longleftrightarrow> (\<forall>i. \<not> bit v (4 * j + i))" 
    by (auto simp: bit_eq_iff bit_simps) (metis add_lessD1 add.commute bit_u64)
  also have "\<dots> \<longleftrightarrow> (\<forall>i \<ge> 4 * j. \<not> bit v i)" by (metis le_add1 le_iff_add)
  finally show ?thesis .
qed

lemma and_xtoa_mask:
  assumes "unat (v :: u64) < 16 ^ Suc j"
  shows "v AND xtoa_mask (Suc j) = 0 \<longleftrightarrow> unat v < 16 ^ j"
proof -
  have "v AND xtoa_mask (Suc j) = 0 \<longleftrightarrow> (\<forall>i. 4 * j \<le> i \<and> i < 4 * j + 4 \<longrightarrow> \<not> bit v i)"
    by (auto simp: xtoa_mask_def bit_eq_iff [of "v AND push_bit (4 * j) (mask 4)"] bit_simps
        less_diff_conv2 dest: bit_imp_le_length) (use bit_u64 in fastforce)
  moreover have "\<forall>i \<ge> 4 * j + 4. \<not> bit v i" using assms unat_drop_nibbles [of v "Suc j"] by simp
  ultimately show ?thesis unfolding unat_drop_nibbles by (metis not_le_imp_less)
qed

lemma xtoa_mask_shift: "k \<le> 16 \<Longrightarrow> 0 < k \<Longrightarrow> drop_bit 4 (xtoa_mask k) = xtoa_mask (k - 1)"
  by (rule bit_word_eqI) (auto simp: xtoa_mask_def bit_simps)

lemma xtoa_mask_nonzero: "k \<le> 16 \<Longrightarrow> 0 < k \<Longrightarrow> xtoa_mask k \<noteq> 0"
  by (auto simp: xtoa_mask_def bit_eq_iff [where 'a = "64 word"] bit_simps
      intro!: exI [of _ "4 * (k - 1)"])

lemma xtoa_scan_length:
  assumes "unat v < 16 ^ k" "k \<le> 16"
  shows "xtoa_scan v (xtoa_mask k) i =
    i + (k - (if v = 0 then 0 else length (hexadecimal (unat v))))"
  using assms
proof (induction k arbitrary: i)
  case 0
  then have "v = 0" by (simp add: unat_eq_0)
  then show ?case by (simp add: xtoa_scan.simps xtoa_mask_def)
next
  case (Suc j)
  show ?case
  proof (cases "unat v < 16 ^ j")
    case True
    have "xtoa_scan v (xtoa_mask (Suc j)) i = xtoa_scan v (xtoa_mask j) (i + 1)"
      using Suc.prems True and_xtoa_mask xtoa_mask_nonzero [of "Suc j"] xtoa_mask_shift [of "Suc j"]
      by (subst xtoa_scan.simps) simp
    moreover have "v = 0 \<or> length (hexadecimal (unat v)) \<le> j"
    proof (cases j)
      case 0
      then show ?thesis using True by (simp add: unat_eq_0)
    next
      case (Suc m)
      then show ?thesis using True hexadecimal_le by simp
    qed
    ultimately show ?thesis using Suc True by auto
  next
    case False
    have "length (hexadecimal (unat v)) = Suc j"
      by (rule length_hexadecimal) (use Suc.prems False in auto)
    moreover have "v \<noteq> 0" using False by auto
    ultimately show ?thesis
      using Suc.prems False and_xtoa_mask by (subst xtoa_scan.simps) simp
  qed
qed

lemma blit_update_tail:
  "length xs < length dst \<Longrightarrow> blit (dst[length xs := x]) 0 xs = blit dst 0 (xs @ [x])"
  by (simp add: blit_def upd_conv_take_nth_drop)

lemma nibble: "unat ((v :: u64) AND 0xf) = unat v mod 16" "unat (drop_bit 4 v) = unat v div 16"
proof -
  have "v AND 0xf = take_bit 4 v" by (simp add: take_bit_eq_mask mask_eq_exp_minus_1)
  then show "unat (v AND 0xf) = unat v mod 16"
    by (simp only: unsigned_take_bit_eq take_bit_nat_def) simp
  show "unat (drop_bit 4 v) = unat v div 16"
    by (simp add: unat_drop_bit_eq drop_bit_eq_div unat_div_distrib)
qed

lemma xtoa_digits_hex:
  assumes "length (hexadecimal (unat v)) \<le> length buf"
  shows "xtoa_digits (length (hexadecimal (unat v))) v buf
    = Some (blit buf 0 (hexadecimal (unat v)))"
  using assms
proof (induction "unat v" arbitrary: v buf rule: hexadecimal.induct)
  case 1
  let ?l = "\<lambda>n. length (hexadecimal n)"
  have pos: "0 < ?l (unat v)" by (rule hexadecimal_pos)
  have dz: "drop_bit 4 v \<noteq> 0 \<longleftrightarrow> \<not> unat v < 16"
    by (metis div_eq_0_iff nibble(2) unat_eq_0 zero_neq_numeral)
  show ?case
  proof (cases "unat v < 16")
    case True
    then show ?thesis
      using 1(2) dz nibble [of v] blit_snoc [of 0 "[]" buf "k_nibble_lut ! unat v"]
      by (subst xtoa_digits.simps) (auto simp: hexadecimal.simps wr_def)
  next
    case False
    let ?b = "buf[?l (unat v div 16) := k_nibble_lut ! (unat v mod 16)]"
    have h: "hexadecimal (unat v) = hexadecimal (unat v div 16) @ [k_nibble_lut ! (unat v mod 16)]"
      using False by (subst hexadecimal.simps) simp
    have "xtoa_digits (?l (unat v)) v buf = xtoa_digits (?l (unat v div 16)) (drop_bit 4 v) ?b"
      using False 1(2) dz nibble [of v] by (subst xtoa_digits.simps) (simp add: h wr_def)
    also have "\<dots> = Some (blit ?b 0 (hexadecimal (unat v div 16)))"
      using 1(1) [OF False, of "drop_bit 4 v" ?b] 1(2) nibble [of v] by (simp add: h)
    also have "\<dots> = Some (blit buf 0 (hexadecimal (unat v)))"
      using 1(2) by (simp add: h blit_update_tail)
    finally show ?thesis .
  qed
qed

text \<open>The length is reported even when the numeral does not fit and nothing is written.\<close>

lemma k_xtoa_hex:
  assumes "0 < n" "n \<le> int (length buf)"
  shows "k_xtoa buf n v = Some (length (hexadecimal (unat v)),
    if int (length (hexadecimal (unat v))) < n then blit buf 0 (hexadecimal (unat v) @ [0]) else buf)"
proof -
  let ?h = "hexadecimal (unat v)"
  have m: "(0xf000000000000000 :: u64) = xtoa_mask 16"
    by (simp add: xtoa_mask_def mask_eq_exp_minus_1 push_bit_eq_mult)
  have v: "unat v < 16 ^ 16" using unsigned_less [of v] by simp
  have len: "0 < length ?h" "length ?h \<le> 16"
    using hexadecimal_pos hexadecimal_le [of "unat v" 15] v by auto
  have idx: "(let i = 16 - xtoa_scan v 0xf000000000000000 0 in if i = 0 then i + 1 else i) = length ?h"
    using xtoa_scan_length [OF v, of 0] len
    by (auto simp: m Let_def length_hexadecimal_0)
  show ?thesis
  proof (cases "int (length ?h) < n")
    case True
    have "blit (buf[length ?h := 0]) 0 ?h = blit buf 0 (?h @ [0])"
      by (rule blit_update_tail) (use True assms in auto)
    then show ?thesis
      using True assms xtoa_digits_hex [of v "buf[length ?h := 0]"] idx
      by (simp add: k_xtoa_def Let_def wr_def)
  next
    case False
    then show ?thesis using assms idx by (simp add: k_xtoa_def Let_def)
  qed
qed

section \<open>The formatter\<close>

lemma vasfmt_loop_literal:
  "terminated fmt \<Longrightarrow> 0x25 \<notin> set (cstr fmt) \<Longrightarrow> out_index \<le> bl \<Longrightarrow> bl < length buf \<Longrightarrow>
   vasfmt_loop fmt m args buf bl out_index =
     Some (blit buf out_index (take (bl - out_index) (cstr fmt)),
           out_index + length (take (bl - out_index) (cstr fmt)))"
proof (induction fmt arbitrary: out_index buf)
  case (Cons c fmt)
  show ?case
  proof (cases "c \<noteq> 0 \<and> out_index < bl")
    case True
    let ?b = "buf[out_index := c]"
    have s: "bl - out_index = Suc (bl - (out_index + 1))" using True by linarith
    have b: "?b = blit buf out_index [c]"
      using blit_snoc [of out_index "[]" buf c] True Cons.prems by simp
    have "vasfmt_loop (c # fmt) m args buf bl out_index
        = vasfmt_loop fmt m args ?b bl (out_index + 1)"
      using True Cons.prems by (subst vasfmt_loop.simps) (simp add: wr_def)
    moreover have "blit ?b (out_index + 1) (take (bl - (out_index + 1)) (cstr fmt))
        = blit buf out_index (c # take (bl - (out_index + 1)) (cstr fmt))"
    proof -
      have "out_index + length [c] + length (take (bl - (out_index + 1)) (cstr fmt)) \<le> length buf"
        using True Cons.prems by (auto simp: min_def)
      from blit_blit [OF this] show ?thesis unfolding b by simp
    qed
    ultimately show ?thesis
      using Cons.IH [of "out_index + 1" ?b] Cons.prems True by (simp add: s)
  next
    case False
    then show ?thesis using Cons.prems by (subst vasfmt_loop.simps) auto
  qed
qed simp

text \<open>
  A format without directives is copied, cut to the buffer and always terminated, whatever
  the arguments.
\<close>

theorem k_vasfmt_literal:
  assumes "terminated fmt" "0x25 \<notin> set (cstr fmt)" "0 < n" "n \<le> length buf"
  shows "k_vasfmt buf (int n) fmt args = Some (blit buf 0 (take (n - 1) (cstr fmt) @ [0]))"
proof -
  define t where "t = take (n - 1) (cstr fmt)"
  have t: "length t < length buf" using assms by (auto simp: t_def)
  have "vasfmt_loop fmt K_FMT_MODIFIER_NONE args buf (n - 1) 0 = Some (blit buf 0 t, length t)"
    using assms vasfmt_loop_literal [of fmt 0 "n - 1" buf K_FMT_MODIFIER_NONE args]
    by (simp add: t_def)
  then show ?thesis
    using assms t blit_snoc [of 0 t buf 0] by (simp add: k_vasfmt_def wr_def flip: One_nat_def) (simp add: t_def)
qed

theorem k_vasfmt_literal_witness:
  "k_vasfmt [9, 9, 9] (int 3) [0x68, 0x65, 0x79, 0] [] = Some (blit [9, 9, 9] 0 ([0x68, 0x65] @ [0]))"
  using k_vasfmt_literal [of "[0x68, 0x65, 0x79, 0]" 3 "[9, 9, 9]" "[]"] by simp

text \<open>
  A hexadecimal directive whose numeral is at least as long as the buffer makes \<open>k_vasfmt\<close>
  write its terminator outside the buffer: \<open>k_xtoa\<close> writes nothing when the numeral does not
  fit but still reports its length, by which the output index is advanced.
\<close>

theorem k_vasfmt_hex_overrun:
  assumes "2 \<le> length buf" "length buf \<le> length (hexadecimal (unat d))"
  shows "k_vasfmt buf (int (length buf)) [0x25, 0x78, 0] [Dword d] = None"
proof -
  let ?b = "buf[0 := 0]"
  have u: "unat (ucast d :: u64) = unat d"
  proof -
    have "unat d < 2 ^ LENGTH(32)" by (rule unsigned_less)
    then have "unat d < 2 ^ 64" by simp
    then show ?thesis by (simp add: unsigned_ucast_eq take_bit_nat_eq_self)
  qed
  have nonempty: "buf \<noteq> []" using assms(1) by auto
  have x: "k_xtoa ?b (int (length buf) - 1) (ucast d) = Some (length (hexadecimal (unat d)), ?b)"
    using assms k_xtoa_hex [of "int (length buf) - 1" ?b "ucast d"] by (auto simp: u)
  have "vasfmt_loop [0x25, 0x78, 0] K_FMT_MODIFIER_NONE [Dword d] buf (length buf - 1) 0
      = Some (?b, length (hexadecimal (unat d)))"
    using assms(1) x nonempty by (simp add: vasfmt_loop.simps fmt_modifier_def rd_def wr_def fmt_directive_def)
  then show ?thesis using assms nonempty by (simp add: k_vasfmt_def wr_def)
qed

theorem k_vasfmt_hex_overrun_witness:
  "k_vasfmt [0, 0, 0, 0] (int (length [0, 0, 0, 0 :: u8])) [0x25, 0x78, 0] [Dword 0xdeadbeef] = None"
  by (rule k_vasfmt_hex_overrun) (simp_all add: hexadecimal.simps)

end
