(* ===== verification/Mem_Virt.thy ===== *)
theory Mem_Virt
  imports Prelude
begin

text \<open>
  The virtual address allocator of \<open>kernel/mem/mngr.c\<close>: one array that holds the free ranges,
  sorted by address, in front of the used ranges, sorted by address. Ranges are counted in
  pages. The state is \<open>k_mem_virtual_ranges\<close>: the array with its full capacity and the two
  counts. Every element move of the code's loops is a checked access to the array. The lemmas
  relate the array to the two lists it holds, and give each operation's effect on them.
\<close>

section \<open>Data\<close>

record vrange =
  vstart :: nat
  vsize :: nat

record vrlist =
  vfree_count :: nat
  vrange_count :: nat
  vranges :: "vrange list"

section \<open>Operations\<close>

function used_index_loop :: "vrlist \<Rightarrow> nat \<Rightarrow> nat \<Rightarrow> nat option" where
  "used_index_loop vl range_start index =
     (if index < vrange_count vl
      then Option.bind (rd (vranges vl) index) (\<lambda>range.
        if vstart range \<ge> range_start then Some index
        else used_index_loop vl range_start (index + 1))
      else Some (vrange_count vl))"
  by pat_completeness auto
termination by (relation "measure (\<lambda>(vl, s, i). vrange_count vl - i)") auto

declare used_index_loop.simps [simp del]

definition k_mem_UsedVirtualRangeIndex :: "vrlist \<Rightarrow> nat \<Rightarrow> nat option" where
  "k_mem_UsedVirtualRangeIndex vl mem = used_index_loop vl (mem div 4096) (vfree_count vl)"

text \<open>The loops that move a part of the array up by one place, or down by \<open>d\<close> places.\<close>

fun move_up :: "'a list \<Rightarrow> nat \<Rightarrow> nat \<Rightarrow> 'a list option" where
  "move_up ranges move_index to =
     (if move_index > to then do {
        r \<leftarrow> rd ranges (move_index - 1);
        ranges \<leftarrow> wr ranges move_index r;
        move_up ranges (move_index - 1) to
      } else Some ranges)"

function move_down :: "'a list \<Rightarrow> nat \<Rightarrow> nat \<Rightarrow> nat \<Rightarrow> 'a list option" where
  "move_down ranges move_index to d =
     (if move_index < to then do {
        r \<leftarrow> rd ranges (move_index + d);
        ranges \<leftarrow> wr ranges move_index r;
        move_down ranges (move_index + 1) to d
      } else Some ranges)"
  by pat_completeness auto
termination by (relation "measure (\<lambda>(r, i, t, d). t - i)") auto

declare move_up.simps [simp del] move_down.simps [simp del]

definition alloc_at :: "vrlist \<Rightarrow> nat \<Rightarrow> nat \<Rightarrow> vrange \<Rightarrow> (nat \<times> vrlist) option" where
  "alloc_at vl index request_size free_range = do {
     let memory = vstart free_range * 4096;
     used_index \<leftarrow> k_mem_UsedVirtualRangeIndex vl memory;
     if vsize free_range > request_size then do {
       ranges \<leftarrow> move_up (vranges vl) (vrange_count vl) used_index;
       ranges \<leftarrow> wr ranges used_index \<lparr>vstart = vstart free_range, vsize = request_size\<rparr>;
       ranges \<leftarrow> wr ranges index
         \<lparr>vstart = vstart free_range + request_size, vsize = vsize free_range - request_size\<rparr>;
       Some (memory, vl\<lparr>vranges := ranges, vrange_count := vrange_count vl + 1\<rparr>)
     }
     else do {
       let range_start = vsize free_range;
       let range_size = vsize free_range;
       ranges \<leftarrow> move_down (vranges vl) index used_index 1;
       ranges \<leftarrow> wr ranges used_index \<lparr>vstart = range_start, vsize = range_size\<rparr>;
       Some (memory, vl\<lparr>vranges := ranges, vfree_count := vfree_count vl - 1\<rparr>)
     }
   }"

function alloc_search :: "vrlist \<Rightarrow> nat \<Rightarrow> nat \<Rightarrow> (nat \<times> vrlist) option" where
  "alloc_search vl index request_size =
     (if index < vfree_count vl
      then Option.bind (rd (vranges vl) index) (\<lambda>free_range.
        if vsize free_range \<ge> request_size then alloc_at vl index request_size free_range
        else alloc_search vl (index + 1) request_size)
      else Some (0, vl))"
  by pat_completeness auto
termination by (relation "measure (\<lambda>(vl, i, r). vfree_count vl - i)") auto

declare alloc_search.simps [simp del]

definition pages_of_size :: "nat \<Rightarrow> nat" where
  "pages_of_size sz = (if sz mod 4096 \<noteq> 0 then sz div 4096 + 1 else sz div 4096)"

definition k_mem_AllocVirtualRange :: "nat \<Rightarrow> vrlist \<Rightarrow> (nat \<times> vrlist) option" where
  "k_mem_AllocVirtualRange sz vl = alloc_search vl 0 (pages_of_size sz)"

text \<open>Release of the used range at \<open>used_index\<close>, in front of the free range at \<open>free_index\<close>.\<close>

definition merge_prev :: "vrlist \<Rightarrow> vrange \<Rightarrow> nat \<Rightarrow> nat \<Rightarrow> (vrange list \<times> nat) option" where
  "merge_prev vl used0 used_index free_index =
     (if free_index \<noteq> 0 then do {
        prev \<leftarrow> rd (vranges vl) (free_index - 1);
        if vstart used0 = vstart prev + vsize prev then do {
          ranges \<leftarrow> wr (vranges vl) (free_index - 1)
            (prev\<lparr>vsize := vsize prev + vsize used0\<rparr>);
          Some (ranges, free_index - 1)
        }
        else Some (vranges vl, used_index)
      } else Some (vranges vl, used_index))"

definition free_at :: "vrlist \<Rightarrow> nat \<Rightarrow> nat \<Rightarrow> vrlist option" where
  "free_at vl used_index free_index = do {
     used0 \<leftarrow> rd (vranges vl) used_index;
     (ranges, used_range) \<leftarrow> merge_prev vl used0 used_index free_index;
     used \<leftarrow> rd ranges used_range;
     free_range \<leftarrow> rd ranges free_index;
     if vstart used + vsize used = vstart free_range then do {
       ranges \<leftarrow> wr ranges free_index
         \<lparr>vstart = vstart used, vsize = vsize free_range + vsize used\<rparr>;
       if used_range + 1 = free_index then do {
         ranges \<leftarrow> move_down ranges (free_index - 1) (used_index - 1) 1;
         ranges \<leftarrow> move_down ranges (used_index - 1) (vrange_count vl - 2) 2;
         Some (vl\<lparr>vranges := ranges, vfree_count := vfree_count vl - 1,
           vrange_count := vrange_count vl - 2\<rparr>)
       }
       else do {
         ranges \<leftarrow> move_down ranges used_index (vrange_count vl - 1) 1;
         Some (vl\<lparr>vranges := ranges, vrange_count := vrange_count vl - 1\<rparr>)
       }
     }
     else if used_range + 1 = free_index then do {
       ranges \<leftarrow> move_down ranges used_index (vrange_count vl - 1) 1;
       Some (vl\<lparr>vranges := ranges, vrange_count := vrange_count vl - 1\<rparr>)
     }
     else do {
       ranges \<leftarrow> move_up ranges used_index free_index;
       ranges \<leftarrow> wr ranges free_index \<lparr>vstart = vstart used, vsize = vsize used\<rparr>;
       Some (vl\<lparr>vranges := ranges, vfree_count := vfree_count vl + 1\<rparr>)
     }
   }"

function free_search_virt :: "vrlist \<Rightarrow> nat \<Rightarrow> nat \<Rightarrow> nat \<Rightarrow> vrlist option" where
  "free_search_virt vl used_index used_start free_index =
     (if free_index < vfree_count vl
      then Option.bind (rd (vranges vl) free_index) (\<lambda>free_range.
        if vstart free_range > used_start then free_at vl used_index free_index
        else free_search_virt vl used_index used_start (free_index + 1))
      else Some vl)"
  by pat_completeness auto
termination by (relation "measure (\<lambda>(vl, u, s, i). vfree_count vl - i)") auto

declare free_search_virt.simps [simp del]

definition k_mem_FreeVirtualRange :: "nat \<Rightarrow> vrlist \<Rightarrow> vrlist option" where
  "k_mem_FreeVirtualRange mem vl =
     (if mem \<noteq> 0 then do {
        used_index \<leftarrow> k_mem_UsedVirtualRangeIndex vl mem;
        if used_index \<ge> vrange_count vl then Some vl
        else do {
          used_range \<leftarrow> rd (vranges vl) used_index;
          if vstart used_range \<noteq> mem div 4096 then Some vl
          else free_search_virt vl used_index (vstart used_range) 0
        }
      } else Some vl)"

section \<open>The two lists in the array\<close>

definition vr_rep :: "vrlist \<Rightarrow> vrange list \<Rightarrow> vrange list \<Rightarrow> bool" where
  "vr_rep vl fs us \<longleftrightarrow> vfree_count vl = length fs \<and> vrange_count vl = length fs + length us \<and>
     (\<exists>rest. vranges vl = fs @ us @ rest)"

abbreviation vend :: "vrange \<Rightarrow> nat" where
  "vend r \<equiv> vstart r + vsize r"

definition vpages :: "vrange \<Rightarrow> nat set" where
  "vpages r = {vstart r ..< vend r}"

definition vpages_list :: "vrange list \<Rightarrow> nat set" where
  "vpages_list rs = (\<Union>r \<in> set rs. vpages r)"

text \<open>Sorted by address, without overlap, and with no empty range.\<close>

definition vr_sorted :: "vrange list \<Rightarrow> bool" where
  "vr_sorted rs \<longleftrightarrow> sorted_wrt (\<lambda>a b. vend a \<le> vstart b) rs \<and> (\<forall>r \<in> set rs. 0 < vsize r)"

definition vr_ok :: "vrange list \<Rightarrow> vrange list \<Rightarrow> bool" where
  "vr_ok fs us \<longleftrightarrow> vr_sorted fs \<and> vr_sorted us \<and> vpages_list fs \<inter> vpages_list us = {}"

lemma move_up_shift:
  "move_up (as @ bs @ x # cs) (length as + length bs) (length as)
     = Some (as @ hd (bs @ [x]) # bs @ cs)"
proof (induction bs arbitrary: x cs rule: rev_induct)
  case Nil
  then show ?case by (simp add: move_up.simps)
next
  case (snoc b bs)
  have "move_up (as @ (bs @ [b]) @ x # cs) (length as + length (bs @ [b])) (length as)
      = move_up (as @ bs @ b # (b # cs)) (length as + length bs) (length as)"
    by (subst move_up.simps) (simp add: rd_def wr_def nth_append list_update_append)
  then show ?case using snoc.IH [of b "b # cs"] by (cases bs) simp_all
qed

lemma move_down_shift:
  "length xs = d \<Longrightarrow> 0 < d \<Longrightarrow>
   move_down (as @ xs @ bs @ cs) (length as) (length as + length bs) d
     = Some (as @ bs @ drop (length bs) (xs @ bs) @ cs)"
proof (induction bs arbitrary: as xs)
  case Nil
  then show ?case by (simp add: move_down.simps)
next
  case (Cons b bs)
  then obtain x xt where xs: "xs = x # xt" by (cases xs) auto
  have "move_down (as @ xs @ (b # bs) @ cs) (length as) (length as + length (b # bs)) d
      = move_down ((as @ [b]) @ (xt @ [b]) @ bs @ cs) (length (as @ [b]))
          (length (as @ [b]) + length bs) d"
    using Cons.prems by (subst move_down.simps) (auto simp: rd_def wr_def nth_append xs)
  then show ?case using Cons.IH [of "xt @ [b]" "as @ [b]"] Cons.prems by (simp add: xs)
qed

lemma used_index_loop_scan:
  "us = as @ bs \<Longrightarrow> vranges vl = fs @ us @ rest \<Longrightarrow> vrange_count vl = length fs + length us \<Longrightarrow>
   used_index_loop vl s (length fs + length as) =
     Some (length fs + length as + length (takeWhile (\<lambda>r. vstart r < s) bs))"
proof (induction bs arbitrary: as)
  case Nil
  then show ?case by (simp add: used_index_loop.simps)
next
  case (Cons b bs)
  have "rd (vranges vl) (length fs + length as) = Some b"
    using Cons.prems by (simp add: rd_def nth_append)
  then show ?case
    using Cons.prems Cons.IH [of "as @ [b]"]
    by (subst used_index_loop.simps) simp
qed

lemma used_index_rep:
  "vr_rep vl fs us \<Longrightarrow> k_mem_UsedVirtualRangeIndex vl mem =
     Some (length fs + length (takeWhile (\<lambda>r. vstart r < mem div 4096) us))"
  using used_index_loop_scan [of us "[]" us vl fs]
  by (auto simp: vr_rep_def k_mem_UsedVirtualRangeIndex_def)

lemma takeWhile_split:
  "us = us1 @ us2 \<Longrightarrow> \<forall>r \<in> set us1. P r \<Longrightarrow> us2 = [] \<or> \<not> P (hd us2) \<Longrightarrow> takeWhile P us = us1"
  by (cases us2) (auto simp: takeWhile_tail)

section \<open>Order and pages\<close>

lemma vpages_disjoint_order:
  "vpages a \<inter> vpages b = {} \<Longrightarrow> 0 < vsize a \<Longrightarrow> 0 < vsize b \<Longrightarrow> vstart a \<le> vstart b \<Longrightarrow>
   vend a \<le> vstart b"
proof (rule ccontr)
  assume "vpages a \<inter> vpages b = {}" "0 < vsize a" "0 < vsize b" "vstart a \<le> vstart b"
    "\<not> vend a \<le> vstart b"
  then have "vstart b \<in> vpages a" "vstart b \<in> vpages b" by (auto simp: vpages_def)
  with \<open>vpages a \<inter> vpages b = {}\<close> show False by blast
qed

lemma vpages_list_simps [simp]:
  "vpages_list [] = {}" "vpages_list (r # rs) = vpages r \<union> vpages_list rs"
  "vpages_list (rs @ ts) = vpages_list rs \<union> vpages_list ts"
  by (auto simp: vpages_list_def)

lemma vr_sorted_append: "vr_sorted (as @ bs) \<longleftrightarrow>
   vr_sorted as \<and> vr_sorted bs \<and> (\<forall>a \<in> set as. \<forall>b \<in> set bs. vend a \<le> vstart b)"
  by (auto simp: vr_sorted_def sorted_wrt_append)

lemma vr_sorted_Cons: "vr_sorted (a # bs) \<longleftrightarrow>
   0 < vsize a \<and> vr_sorted bs \<and> (\<forall>b \<in> set bs. vend a \<le> vstart b)"
  by (auto simp: vr_sorted_def)

lemma vr_sorted_Nil [simp]: "vr_sorted []"
  by (simp add: vr_sorted_def)

lemma vr_sorted_disjoint: "vr_sorted (as @ r # bs) \<Longrightarrow> vpages r \<inter> vpages_list (as @ bs) = {}"
  by (fastforce simp: vr_sorted_append vr_sorted_Cons vpages_list_def vpages_def)

lemma vpages_list_mem: "r \<in> set rs \<Longrightarrow> vpages r \<subseteq> vpages_list rs"
  by (auto simp: vpages_list_def)

text \<open>A range disjoint from a sorted list fits between its smaller and its larger elements.\<close>

lemma vr_sorted_between:
  assumes "vr_sorted (as @ bs)" "0 < vsize r" "vpages r \<inter> vpages_list (as @ bs) = {}"
    and "\<forall>a \<in> set as. vstart a \<le> vstart r" "\<forall>b \<in> set bs. vstart r \<le> vstart b"
  shows "(\<forall>a \<in> set as. vend a \<le> vstart r) \<and> (\<forall>b \<in> set bs. vend r \<le> vstart b)"
proof -
  have pos: "0 < vsize q" if "q \<in> set (as @ bs)" for q using that assms(1) by (auto simp: vr_sorted_def)
  have dis: "vpages r \<inter> vpages q = {}" if "q \<in> set (as @ bs)" for q
    using assms(3) vpages_list_mem [OF that] by blast
  show ?thesis
  proof (intro conjI ballI)
    fix a assume "a \<in> set as"
    then show "vend a \<le> vstart r"
      using vpages_disjoint_order [of a r] dis [of a] pos [of a] assms(2,4) by auto
  next
    fix b assume "b \<in> set bs"
    then show "vend r \<le> vstart b"
      using vpages_disjoint_order [of r b] dis [of b] pos [of b] assms(2,5) by auto
  qed
qed

section \<open>Allocation\<close>

lemma alloc_search_first_fit:
  "fs = as @ fs1 @ f # fs2 \<Longrightarrow> vranges vl = fs @ rest \<Longrightarrow> vfree_count vl = length fs \<Longrightarrow>
   \<forall>r \<in> set fs1. vsize r < req \<Longrightarrow> req \<le> vsize f \<Longrightarrow>
   alloc_search vl (length as) req = alloc_at vl (length as + length fs1) req f"
proof (induction fs1 arbitrary: as)
  case Nil
  then show ?case by (subst alloc_search.simps) (simp add: rd_def nth_append)
next
  case (Cons a fs1)
  have "alloc_search vl (length as) req = alloc_search vl (length (as @ [a])) req"
    using Cons.prems by (subst alloc_search.simps) (simp add: rd_def nth_append)
  then show ?case using Cons.IH [of "as @ [a]"] Cons.prems by simp
qed

lemma used_split:
  assumes "vr_sorted us" "us = us1 @ us2" "us1 = takeWhile (\<lambda>r. vstart r < s) us"
  shows "\<forall>r \<in> set us1. vstart r < s" "\<forall>r \<in> set us2. s \<le> vstart r"
proof -
  show "\<forall>r \<in> set us1. vstart r < s" using assms(3) by (auto dest: set_takeWhileD)
  have us2: "us2 = dropWhile (\<lambda>r. vstart r < s) us"
    using assms(2,3) takeWhile_dropWhile_id [of "\<lambda>r. vstart r < s" us] by (metis same_append_eq)
  show "\<forall>r \<in> set us2. s \<le> vstart r"
  proof (cases us2)
    case (Cons b bs)
    then have "s \<le> vstart b" using us2 by (metis hd_dropWhile list.distinct(1) list.sel(1) not_less)
    moreover have "vr_sorted (b # bs)" using assms(1,2) Cons by (simp add: vr_sorted_append)
    ultimately show ?thesis using Cons by (fastforce simp: vr_sorted_Cons)
  qed simp
qed

text \<open>
  C7: Allocation of \<open>sz\<close> bytes from the first free range that is large enough, when that range is
  larger than the request and the array has room: the block is the start of that range, it
  becomes one used range, the free ranges lose exactly its pages, and both lists stay sorted,
  without overlap and disjoint.
\<close>

theorem k_mem_AllocVirtualRange_split:
  assumes rep: "vr_rep vl (fs1 @ f # fs2) us" and ok: "vr_ok (fs1 @ f # fs2) us"
    and small: "\<forall>r \<in> set fs1. vsize r < pages_of_size sz"
    and fit: "0 < pages_of_size sz" "pages_of_size sz < vsize f"
    and room: "vrange_count vl < length (vranges vl)"
  shows "\<exists>vl' fs' us'. k_mem_AllocVirtualRange sz vl = Some (vstart f * 4096, vl') \<and>
    vr_rep vl' fs' us' \<and> vr_ok fs' us' \<and>
    set us' = insert \<lparr>vstart = vstart f, vsize = pages_of_size sz\<rparr> (set us) \<and>
    vpages_list fs' = vpages_list (fs1 @ f # fs2) - {vstart f ..< vstart f + pages_of_size sz}"
proof -
  let ?n = "pages_of_size sz" and ?fs = "fs1 @ f # fs2"
  define us1 where "us1 = takeWhile (\<lambda>r. vstart r < vstart f) us"
  define us2 where "us2 = dropWhile (\<lambda>r. vstart r < vstart f) us"
  have us: "us = us1 @ us2" by (simp add: us1_def us2_def)
  obtain rest0 where rest0: "vranges vl = ?fs @ us @ rest0" using rep by (auto simp: vr_rep_def)
  have cnt: "vfree_count vl = length ?fs" "vrange_count vl = length ?fs + length us"
    using rep by (auto simp: vr_rep_def)
  obtain x rest where rest: "rest0 = x # rest" using room rest0 cnt by (cases rest0) auto
  let ?u = "\<lparr>vstart = vstart f, vsize = ?n\<rparr>"
  let ?f = "\<lparr>vstart = vstart f + ?n, vsize = vsize f - ?n\<rparr>"
  have ui: "k_mem_UsedVirtualRangeIndex vl (vstart f * 4096) = Some (length (?fs @ us1))"
    using used_index_rep [OF rep, of "vstart f * 4096"] by (simp add: us1_def)
  have mv: "move_up (vranges vl) (vrange_count vl) (length (?fs @ us1))
      = Some ((?fs @ us1) @ hd (us2 @ [x]) # us2 @ rest)"
    using move_up_shift [of "?fs @ us1" us2 x rest] rest0 rest cnt us by (simp add: add_ac)
  have w: "wr ((?fs @ us1) @ hd (us2 @ [x]) # us2 @ rest) (length (?fs @ us1)) ?u
      = Some (?fs @ us1 @ ?u # us2 @ rest)"
    by (simp add: wr_def list_update_append)
  have w2: "wr (?fs @ us1 @ ?u # us2 @ rest) (length fs1) ?f
      = Some ((fs1 @ ?f # fs2) @ (us1 @ ?u # us2) @ rest)"
    by (simp add: wr_def list_update_append)
  let ?vl = "vl\<lparr>vranges := (fs1 @ ?f # fs2) @ (us1 @ ?u # us2) @ rest,
    vrange_count := vrange_count vl + 1\<rparr>"
  have "k_mem_AllocVirtualRange sz vl = alloc_at vl (length fs1) ?n f"
    using alloc_search_first_fit [of ?fs "[]" fs1 f fs2 vl "us @ rest0" ?n] rest0 cnt small fit
    by (simp add: k_mem_AllocVirtualRange_def)
  also have "\<dots> = Some (vstart f * 4096, ?vl)"
    using fit ui mv w w2 by (simp add: alloc_at_def)
  finally have run: "k_mem_AllocVirtualRange sz vl = Some (vstart f * 4096, ?vl)" .
  have rep': "vr_rep ?vl (fs1 @ ?f # fs2) (us1 @ ?u # us2)"
    using cnt us by (auto simp: vr_rep_def)
  have sf: "vr_sorted ?fs" "vr_sorted us" and dis: "vpages_list ?fs \<inter> vpages_list us = {}"
    using ok by (auto simp: vr_ok_def)
  have uf: "vpages ?u \<subseteq> vpages f" using fit by (auto simp: vpages_def)
  have bt: "(\<forall>a \<in> set us1. vend a \<le> vstart ?u) \<and> (\<forall>b \<in> set us2. vend ?u \<le> vstart b)"
    by (rule vr_sorted_between)
      (use sf(2) us fit uf dis used_split [OF sf(2) us us1_def] in \<open>auto intro: less_imp_le\<close>)
  have su: "vr_sorted (us1 @ ?u # us2)"
    using bt sf(2) us fit by (fastforce simp: vr_sorted_append vr_sorted_Cons)
  have sf': "vr_sorted (fs1 @ ?f # fs2)"
    using sf(1) fit by (fastforce simp: vr_sorted_append vr_sorted_Cons)
  have fd: "vpages f \<inter> vpages_list (fs1 @ fs2) = {}" by (rule vr_sorted_disjoint [OF sf(1)])
  have fp: "vpages ?f = vpages f - vpages ?u" using fit by (auto simp: vpages_def)
  have pages: "vpages_list (fs1 @ ?f # fs2) = vpages_list ?fs - vpages ?u"
    using fd uf fp by auto
  have "vr_ok (fs1 @ ?f # fs2) (us1 @ ?u # us2)"
    using su sf' dis pages us by (auto simp: vr_ok_def)
  moreover have "vpages ?u = {vstart f ..< vstart f + ?n}" by (simp add: vpages_def)
  moreover have "set (us1 @ ?u # us2) = insert ?u (set us)" using us by auto
  ultimately show ?thesis using run rep' pages by metis
qed

theorem k_mem_AllocVirtualRange_split_witness:
  "\<exists>vl' fs' us'. k_mem_AllocVirtualRange 5000
      \<lparr>vfree_count = 1, vrange_count = 1,
       vranges = [\<lparr>vstart = 4, vsize = 9\<rparr>, \<lparr>vstart = 0, vsize = 0\<rparr>]\<rparr> = Some (4 * 4096, vl') \<and>
    vr_rep vl' fs' us' \<and> vr_ok fs' us' \<and>
    set us' = insert \<lparr>vstart = 4, vsize = pages_of_size 5000\<rparr> {} \<and>
    vpages_list fs' = vpages_list [\<lparr>vstart = 4, vsize = 9\<rparr>] - {4 ..< 4 + pages_of_size 5000}"
  using k_mem_AllocVirtualRange_split [of "\<lparr>vfree_count = 1, vrange_count = 1,
       vranges = [\<lparr>vstart = 4, vsize = 9\<rparr>, \<lparr>vstart = 0, vsize = 0\<rparr>]\<rparr>" "[]" "\<lparr>vstart = 4, vsize = 9\<rparr>" "[]" "[]" 5000]
  by (simp add: vr_rep_def vr_ok_def vr_sorted_Cons pages_of_size_def)

text \<open>
  A request that uses a free range up exactly, while a used range lies above it, loses the
  block: the block is returned, but its entry is written one place too far and with the size
  in place of the start address. The block is in no list afterwards, and releasing it does
  nothing.
\<close>

theorem k_mem_AllocVirtualRange_exact_leaks:
  assumes rep: "vr_rep vl (fs1 @ f # fs2) us" and ok: "vr_ok (fs1 @ f # fs2) us"
    and small: "\<forall>r \<in> set fs1. vsize r < pages_of_size sz"
    and fit: "pages_of_size sz = vsize f"
    and above: "\<exists>u \<in> set us. vstart f < vstart u"
  shows "\<exists>vl' us1 u us2. us = us1 @ u # us2 \<and>
    k_mem_AllocVirtualRange sz vl = Some (vstart f * 4096, vl') \<and>
    vr_rep vl' (fs1 @ fs2) (us1 @ u # \<lparr>vstart = vsize f, vsize = vsize f\<rparr> # us2) \<and>
    k_mem_FreeVirtualRange (vstart f * 4096) vl' = Some vl'"
proof -
  let ?n = "pages_of_size sz" and ?fs = "fs1 @ f # fs2"
  define us1 where "us1 = takeWhile (\<lambda>r. vstart r < vstart f) us"
  define us2' where "us2' = dropWhile (\<lambda>r. vstart r < vstart f) us"
  have sf: "vr_sorted ?fs" "vr_sorted us" and dis: "vpages_list ?fs \<inter> vpages_list us = {}"
    using ok by (auto simp: vr_ok_def)
  have us': "us = us1 @ us2'" by (simp add: us1_def us2'_def)
  note sp = used_split [OF sf(2) us' us1_def]
  obtain u us2 where u: "us2' = u # us2" using above sp(1) us' by (cases us2') fastforce+
  have us: "us = us1 @ u # us2" using us' u by simp
  obtain rest where rest: "vranges vl = ?fs @ us @ rest" using rep by (auto simp: vr_rep_def)
  have cnt: "vfree_count vl = length ?fs" "vrange_count vl = length ?fs + length us"
    using rep by (auto simp: vr_rep_def)
  have ui: "k_mem_UsedVirtualRangeIndex vl (vstart f * 4096) = Some (length (?fs @ us1))"
    using used_index_rep [OF rep, of "vstart f * 4096"] by (simp add: us1_def)
  have mv: "move_down (vranges vl) (length fs1) (length (?fs @ us1)) 1
      = Some (fs1 @ (fs2 @ us1 @ [u]) @ [u] @ us2 @ rest)"
    using move_down_shift [of "[f]" 1 fs1 "fs2 @ us1 @ [u]" "us2 @ rest"] rest us
    by (simp add: add_ac)
  let ?b = "\<lparr>vstart = vsize f, vsize = vsize f\<rparr>"
  have w: "wr (fs1 @ (fs2 @ us1 @ [u]) @ [u] @ us2 @ rest) (length (?fs @ us1)) ?b
      = Some ((fs1 @ fs2) @ (us1 @ u # ?b # us2) @ rest)"
    by (simp add: wr_def list_update_append)
  let ?vl = "vl\<lparr>vranges := (fs1 @ fs2) @ (us1 @ u # ?b # us2) @ rest,
    vfree_count := vfree_count vl - 1\<rparr>"
  have "k_mem_AllocVirtualRange sz vl = alloc_at vl (length fs1) ?n f"
    using alloc_search_first_fit [of ?fs "[]" fs1 f fs2 vl "us @ rest" ?n] rest cnt small fit
    by (simp add: k_mem_AllocVirtualRange_def)
  also have "\<dots> = Some (vstart f * 4096, ?vl)" using fit ui mv w by (simp add: alloc_at_def)
  finally have run: "k_mem_AllocVirtualRange sz vl = Some (vstart f * 4096, ?vl)" .
  have rep': "vr_rep ?vl (fs1 @ fs2) (us1 @ u # ?b # us2)"
    using cnt us by (auto simp: vr_rep_def)
  have fpos: "0 < vsize f" using sf(1) by (auto simp: vr_sorted_def)
  have "vstart u \<noteq> vstart f"
  proof
    assume e: "vstart u = vstart f"
    have "0 < vsize u" using sf(2) us by (auto simp: vr_sorted_def)
    then have "vstart f \<in> vpages u" "vstart f \<in> vpages f" using e fpos by (auto simp: vpages_def)
    then show False using dis us by auto
  qed
  then have ne: "vstart f < vstart u" using sp(2) u by force
  have "takeWhile (\<lambda>r. vstart r < vstart f) (us1 @ u # ?b # us2) = us1"
    using sp(1) ne by (simp add: takeWhile_tail)
  then have ui': "k_mem_UsedVirtualRangeIndex ?vl (vstart f * 4096) = Some (length (fs1 @ fs2 @ us1))"
    using used_index_rep [OF rep', of "vstart f * 4096"] by simp
  have "rd (vranges ?vl) (length (fs1 @ fs2 @ us1)) = Some u"
    by (simp add: rd_def nth_append)
  then have "k_mem_FreeVirtualRange (vstart f * 4096) ?vl = Some ?vl"
    using ui' ne by (simp add: k_mem_FreeVirtualRange_def)
  with us run rep' show ?thesis by blast
qed

theorem k_mem_AllocVirtualRange_exact_leaks_witness:
  "\<exists>vl' us1 u us2. [\<lparr>vstart = 20, vsize = 2\<rparr>] = us1 @ u # us2 \<and>
    k_mem_AllocVirtualRange 4096
      \<lparr>vfree_count = 1, vrange_count = 2,
       vranges = [\<lparr>vstart = 4, vsize = 1\<rparr>, \<lparr>vstart = 20, vsize = 2\<rparr>]\<rparr> = Some (4 * 4096, vl') \<and>
    vr_rep vl' ([] @ []) (us1 @ u # \<lparr>vstart = 1, vsize = 1\<rparr> # us2) \<and>
    k_mem_FreeVirtualRange (4 * 4096) vl' = Some vl'"
  using k_mem_AllocVirtualRange_exact_leaks [of "\<lparr>vfree_count = 1, vrange_count = 2,
       vranges = [\<lparr>vstart = 4, vsize = 1\<rparr>, \<lparr>vstart = 20, vsize = 2\<rparr>]\<rparr>" "[]" "\<lparr>vstart = 4, vsize = 1\<rparr>" "[]"
       "[\<lparr>vstart = 20, vsize = 2\<rparr>]" 4096]
  by (simp add: vr_rep_def vr_ok_def vr_sorted_Cons pages_of_size_def vpages_def)

section \<open>Release\<close>

text \<open>The free list after the release of \<open>u\<close>, which lies between \<open>fs1\<close> and \<open>f\<close>.\<close>

definition release :: "vrange list \<Rightarrow> vrange \<Rightarrow> vrange \<Rightarrow> vrange list \<Rightarrow> vrange list" where
  "release fs1 u f fs2 =
     (if fs1 \<noteq> [] \<and> vstart u = vend (last fs1) then
        (if vend u = vstart f
         then butlast fs1 @ \<lparr>vstart = vstart (last fs1),
                vsize = vsize f + (vsize (last fs1) + vsize u)\<rparr> # fs2
         else butlast fs1 @ (last fs1)\<lparr>vsize := vsize (last fs1) + vsize u\<rparr> # f # fs2)
      else if vend u = vstart f then fs1 @ \<lparr>vstart = vstart u, vsize = vsize f + vsize u\<rparr> # fs2
      else fs1 @ u # f # fs2)"

lemma free_at_no_prev:
  assumes r: "vranges vl = (fs1 @ f # fs2) @ (us1 @ u # us2) @ rest"
    and c: "vfree_count vl = length (fs1 @ f # fs2)"
      "vrange_count vl = length (fs1 @ f # fs2) + length (us1 @ u # us2)"
    and np: "\<not> (fs1 \<noteq> [] \<and> vstart u = vend (last fs1))"
  shows "\<exists>vl'. free_at vl (length (fs1 @ f # fs2 @ us1)) (length fs1) = Some vl' \<and>
    vr_rep vl' (release fs1 u f fs2) (us1 @ us2)"
proof -
  let ?ui = "length (fs1 @ f # fs2 @ us1)"
  have ru: "rd (vranges vl) ?ui = Some u" and rf: "rd (vranges vl) (length fs1) = Some f"
    by (simp_all add: r rd_def nth_append)
  have sel: "merge_prev vl u ?ui (length fs1) = Some (vranges vl, ?ui)"
  proof (cases fs1 rule: rev_cases)
    case (snoc gs p)
    then have "rd (vranges vl) (length fs1 - 1) = Some p" by (simp add: r rd_def nth_append)
    then show ?thesis using np snoc by (simp add: merge_prev_def)
  qed (simp add: merge_prev_def)
  show ?thesis
  proof (cases "vend u = vstart f")
    case True
    let ?m = "\<lparr>vstart = vstart u, vsize = vsize f + vsize u\<rparr>"
    have w: "wr (vranges vl) (length fs1) ?m = Some ((fs1 @ ?m # fs2 @ us1) @ [u] @ us2 @ rest)"
      by (simp add: r wr_def list_update_append)
    have md: "move_down ((fs1 @ ?m # fs2 @ us1) @ [u] @ us2 @ rest) ?ui (vrange_count vl - 1) 1
        = Some ((fs1 @ ?m # fs2 @ us1) @ us2 @ drop (length us2) ([u] @ us2) @ rest)"
      using move_down_shift [of "[u]" 1 "fs1 @ ?m # fs2 @ us1" us2 rest] c(2) by (simp add: add_ac)
    show ?thesis
      using ru rf sel w md True c unfolding release_def if_not_P [OF np]
      by (simp add: free_at_def vr_rep_def)
  next
    case False
    have mu: "move_up (vranges vl) ?ui (length fs1)
        = Some (fs1 @ f # (f # fs2 @ us1) @ us2 @ rest)"
      using move_up_shift [of fs1 "f # fs2 @ us1" u "us2 @ rest"] r by simp
    have w: "wr (fs1 @ f # (f # fs2 @ us1) @ us2 @ rest) (length fs1)
        \<lparr>vstart = vstart u, vsize = vsize u\<rparr> = Some (fs1 @ u # f # fs2 @ us1 @ us2 @ rest)"
      by (simp add: wr_def list_update_append)
    show ?thesis
      using ru rf sel w mu False c unfolding release_def if_not_P [OF np]
      by (simp add: free_at_def vr_rep_def)
  qed
qed

lemma free_at_prev:
  assumes r: "vranges vl = ((gs @ [p]) @ f # fs2) @ (us1 @ u # us2) @ rest"
    and c: "vfree_count vl = length ((gs @ [p]) @ f # fs2)"
      "vrange_count vl = length ((gs @ [p]) @ f # fs2) + length (us1 @ u # us2)"
    and pr: "vstart u = vend p"
  shows "\<exists>vl'. free_at vl (length ((gs @ [p]) @ f # fs2 @ us1)) (length (gs @ [p])) = Some vl' \<and>
    vr_rep vl' (release (gs @ [p]) u f fs2) (us1 @ us2)"
proof -
  let ?ui = "length ((gs @ [p]) @ f # fs2 @ us1)"
  let ?p = "p\<lparr>vsize := vsize p + vsize u\<rparr>"
  let ?rs = "gs @ ?p # f # fs2 @ us1 @ u # us2 @ rest"
  have ru: "rd (vranges vl) ?ui = Some u" and rp: "rd (vranges vl) (length gs) = Some p"
    by (simp_all add: r rd_def nth_append)
  have wp: "wr (vranges vl) (length gs) ?p = Some ?rs"
    by (simp add: r wr_def list_update_append)
  have sel: "merge_prev vl u ?ui (length (gs @ [p])) = Some (?rs, length gs)"
    using rp wp pr by (simp add: merge_prev_def)
  have ru': "rd ?rs (length gs) = Some ?p" and rf: "rd ?rs (Suc (length gs)) = Some f"
    by (simp_all add: rd_def nth_append)
  show ?thesis
  proof (cases "vend u = vstart f")
    case True
    let ?m = "\<lparr>vstart = vstart p, vsize = vsize f + (vsize p + vsize u)\<rparr>"
    have w: "wr ?rs (Suc (length gs)) ?m = Some (gs @ [?p] @ (?m # fs2 @ us1) @ u # us2 @ rest)"
      by (simp add: wr_def list_update_append)
    define l where "l = drop (length (?m # fs2 @ us1)) ([?p] @ (?m # fs2 @ us1))"
    have l: "length l = 1" by (simp add: l_def)
    have md1: "move_down (gs @ [?p] @ (?m # fs2 @ us1) @ u # us2 @ rest) (length gs) (?ui - 1) 1
        = Some ((gs @ ?m # fs2 @ us1) @ (l @ [u]) @ us2 @ rest)"
      using move_down_shift [of "[?p]" 1 gs "?m # fs2 @ us1" "u # us2 @ rest"]
      by (simp add: l_def)
    have md2: "move_down ((gs @ ?m # fs2 @ us1) @ (l @ [u]) @ us2 @ rest) (?ui - 1)
        (vrange_count vl - 2) 2
      = Some ((gs @ ?m # fs2 @ us1) @ us2 @ drop (length us2) ((l @ [u]) @ us2) @ rest)"
      using move_down_shift [of "l @ [u]" 2 "gs @ ?m # fs2 @ us1" us2 rest] l c(2)
      by (simp add: add_ac)
    show ?thesis
      using ru sel ru' rf w md1 md2 True pr c
      by (simp add: free_at_def vr_rep_def release_def)
  next
    case False
    have md: "move_down ((gs @ ?p # f # fs2 @ us1) @ [u] @ us2 @ rest) ?ui (vrange_count vl - 1) 1
        = Some ((gs @ ?p # f # fs2 @ us1) @ us2 @ drop (length us2) ([u] @ us2) @ rest)"
      using move_down_shift [of "[u]" 1 "gs @ ?p # f # fs2 @ us1" us2 rest] c(2)
      by (simp add: add_ac)
    show ?thesis
      using ru sel ru' rf md False pr c
      by (simp add: free_at_def vr_rep_def release_def)
  qed
qed

lemma free_at_rep:
  assumes r: "vranges vl = (fs1 @ f # fs2) @ (us1 @ u # us2) @ rest"
    and c: "vfree_count vl = length (fs1 @ f # fs2)"
      "vrange_count vl = length (fs1 @ f # fs2) + length (us1 @ u # us2)"
  shows "\<exists>vl'. free_at vl (length (fs1 @ f # fs2 @ us1)) (length fs1) = Some vl' \<and>
    vr_rep vl' (release fs1 u f fs2) (us1 @ us2)"
proof (cases "fs1 \<noteq> [] \<and> vstart u = vend (last fs1)")
  case True
  then obtain gs p where gs: "fs1 = gs @ [p]" by (metis append_butlast_last_id)
  with True have "vstart u = vend p" by simp
  then show ?thesis using free_at_prev [of vl gs p f fs2 us1 u us2 rest] r c gs by simp
next
  case False
  then show ?thesis using free_at_no_prev [OF r c] by blast
qed

lemma free_search_virt_finds:
  "fs = as @ fs1 @ f # fs2 \<Longrightarrow> vranges vl = fs @ rest \<Longrightarrow> vfree_count vl = length fs \<Longrightarrow>
   \<forall>r \<in> set fs1. vstart r \<le> s \<Longrightarrow> s < vstart f \<Longrightarrow>
   free_search_virt vl ui s (length as) = free_at vl ui (length as + length fs1)"
proof (induction fs1 arbitrary: as)
  case Nil
  then show ?case by (subst free_search_virt.simps) (simp add: rd_def nth_append)
next
  case (Cons a fs1)
  have "free_search_virt vl ui s (length as) = free_search_virt vl ui s (length (as @ [a]))"
    using Cons.prems by (subst free_search_virt.simps) (simp add: rd_def nth_append)
  then show ?case using Cons.IH [of "as @ [a]"] Cons.prems by simp
qed

lemma release_pages:
  assumes "vr_sorted (fs1 @ f # fs2)" "0 < vsize u"
    and "\<forall>a \<in> set fs1. vend a \<le> vstart u" "vend u \<le> vstart f"
  shows "vr_sorted (release fs1 u f fs2) \<and>
    vpages_list (release fs1 u f fs2) = vpages_list (fs1 @ f # fs2) \<union> vpages u"
proof (cases "fs1 \<noteq> [] \<and> vstart u = vend (last fs1)")
  case True
  then obtain gs p where gs: "fs1 = gs @ [p]" by (metis append_butlast_last_id)
  have p: "vstart u = vend p" using True gs by simp
  have ord: "0 < vsize p" "0 < vsize f" "vr_sorted gs" "vr_sorted fs2"
    "\<forall>a \<in> set gs. vend a \<le> vstart p" "\<forall>b \<in> set fs2. vend f \<le> vstart b"
    using assms(1) gs by (auto simp: vr_sorted_append vr_sorted_Cons)
  have cross: "\<forall>a \<in> set gs. \<forall>b \<in> set fs2. vend a \<le> vstart b"
    "\<forall>a \<in> set gs. vend a \<le> vstart f"
    using assms(1) gs by (auto simp: vr_sorted_append vr_sorted_Cons)
  have rel: "release fs1 u f fs2 = (if vend u = vstart f
      then gs @ \<lparr>vstart = vstart p, vsize = vsize f + (vsize p + vsize u)\<rparr> # fs2
      else gs @ p\<lparr>vsize := vsize p + vsize u\<rparr> # f # fs2)"
    using p by (simp add: release_def gs)
  have pg: "vend u = vstart f \<Longrightarrow> vpages \<lparr>vstart = vstart p, vsize = vsize f + (vsize p + vsize u)\<rparr>
      = vpages p \<union> vpages u \<union> vpages f"
    "vpages (p\<lparr>vsize := vsize p + vsize u\<rparr>) = vpages p \<union> vpages u"
    using p by (auto simp: vpages_def)
  show ?thesis
    unfolding rel using ord cross assms(2,4) p pg
    by (auto simp: vr_sorted_append vr_sorted_Cons gs)
next
  case False
  have rel: "release fs1 u f fs2 = (if vend u = vstart f
      then fs1 @ \<lparr>vstart = vstart u, vsize = vsize f + vsize u\<rparr> # fs2 else fs1 @ u # f # fs2)"
    unfolding release_def if_not_P [OF False] ..
  have pg: "vend u = vstart f \<Longrightarrow> vpages \<lparr>vstart = vstart u, vsize = vsize f + vsize u\<rparr>
      = vpages u \<union> vpages f" by (auto simp: vpages_def)
  have ord: "0 < vsize f" "vr_sorted fs1" "vr_sorted fs2" "\<forall>b \<in> set fs2. vend f \<le> vstart b"
    "\<forall>a \<in> set fs1. \<forall>b \<in> set fs2. vend a \<le> vstart b" "\<forall>a \<in> set fs1. vend a \<le> vstart f"
    using assms(1) by (auto simp: vr_sorted_append vr_sorted_Cons)
  have ub: "vend u \<le> vstart b" if "b \<in> set fs2" for b
    using ord(4) that assms(4) by (meson le_trans le_add1)
  show ?thesis
    unfolding rel using ord ub assms(2-4) pg
    by (auto simp: vr_sorted_append vr_sorted_Cons add.assoc add.left_commute)
qed

text \<open>
  C8: Release of a used block below some free range: the block leaves the used list and its
  pages join the free pages, in all four cases of coalescing with the free neighbours, and both
  lists stay sorted, without overlap and disjoint.
\<close>

theorem k_mem_FreeVirtualRange_ok:
  assumes rep: "vr_rep vl fs us" and ok: "vr_ok fs us" and u: "u \<in> set us" "0 < vstart u"
    and above: "\<exists>f \<in> set fs. vstart u < vstart f" and off: "off < 4096"
  shows "\<exists>vl' fs' us1 us2. us = us1 @ u # us2 \<and>
    k_mem_FreeVirtualRange (vstart u * 4096 + off) vl = Some vl' \<and>
    vr_rep vl' fs' (us1 @ us2) \<and> vr_ok fs' (us1 @ us2) \<and>
    vpages_list fs' = vpages_list fs \<union> vpages u"
proof -
  have sf: "vr_sorted fs" "vr_sorted us" and dis: "vpages_list fs \<inter> vpages_list us = {}"
    using ok by (auto simp: vr_ok_def)
  obtain us1 us2 where us: "us = us1 @ u # us2" using u(1) by (auto simp: in_set_conv_decomp)
  have upos: "0 < vsize u" using sf(2) us by (auto simp: vr_sorted_def)
  have l1: "\<forall>r \<in> set us1. vstart r < vstart u"
  proof
    fix r assume "r \<in> set us1"
    then have "0 < vsize r" "vend r \<le> vstart u" using sf(2) us by (auto simp: vr_sorted_def sorted_wrt_append)
    then show "vstart r < vstart u" by linarith
  qed
  obtain fs1 f fs2 where fs: "fs = fs1 @ f # fs2" and f: "vstart u < vstart f"
    "\<forall>r \<in> set fs1. vstart r \<le> vstart u"
    using split_list_first_prop [OF above] by (metis linorder_not_less)
  obtain rest where rest: "vranges vl = fs @ us @ rest" using rep by (auto simp: vr_rep_def)
  have cnt: "vfree_count vl = length fs" "vrange_count vl = length fs + length us"
    using rep by (auto simp: vr_rep_def)
  have m: "(vstart u * 4096 + off) div 4096 = vstart u" using off by simp
  have "takeWhile (\<lambda>r. vstart r < vstart u) us = us1"
    by (rule takeWhile_split [OF us l1]) simp
  then have ui: "k_mem_UsedVirtualRangeIndex vl (vstart u * 4096 + off) = Some (length (fs @ us1))"
    using used_index_rep [OF rep, of "vstart u * 4096 + off"] m by simp
  have ru: "rd (vranges vl) (length (fs @ us1)) = Some u"
    using rest us by (simp add: rd_def nth_append)
  have fse: "free_search_virt vl (length (fs @ us1)) (vstart u) 0
      = free_at vl (length (fs1 @ f # fs2 @ us1)) (length fs1)"
    using free_search_virt_finds [of fs "[]" fs1 f fs2 vl "us @ rest" "vstart u"] fs rest cnt f by simp
  obtain vl' where vl': "free_at vl (length (fs1 @ f # fs2 @ us1)) (length fs1) = Some vl'"
    "vr_rep vl' (release fs1 u f fs2) (us1 @ us2)"
    using free_at_rep [of vl fs1 f fs2 us1 u us2 rest] rest cnt fs us by auto
  have run: "k_mem_FreeVirtualRange (vstart u * 4096 + off) vl = Some vl'"
    using ui ru fse vl'(1) u(2) us cnt m by (simp add: k_mem_FreeVirtualRange_def)
  have "vpages u \<inter> vpages_list (fs1 @ f # fs2) = {}" using dis us fs by auto
  then have bt: "(\<forall>a \<in> set fs1. vend a \<le> vstart u) \<and> (\<forall>b \<in> set (f # fs2). vend u \<le> vstart b)"
    using vr_sorted_between [of fs1 "f # fs2" u] sf(1) fs upos f
    by (fastforce simp: vr_sorted_append vr_sorted_Cons)
  then have rel: "vr_sorted (release fs1 u f fs2)"
    "vpages_list (release fs1 u f fs2) = vpages_list fs \<union> vpages u"
    using release_pages [of fs1 f fs2 u] sf(1) upos fs by auto
  have "vr_sorted (us1 @ us2)" using sf(2) us by (simp add: vr_sorted_append vr_sorted_Cons)
  moreover have "vpages u \<inter> vpages_list (us1 @ us2) = {}"
    by (rule vr_sorted_disjoint) (use sf(2) us in simp)
  ultimately have "vr_ok (release fs1 u f fs2) (us1 @ us2)"
    using rel dis us by (auto simp: vr_ok_def)
  with us run vl'(2) rel(2) show ?thesis by blast
qed

theorem k_mem_FreeVirtualRange_ok_witness:
  "\<exists>vl' fs' us1 us2. [\<lparr>vstart = 4, vsize = 1\<rparr>] = us1 @ \<lparr>vstart = 4, vsize = 1\<rparr> # us2 \<and>
    k_mem_FreeVirtualRange (vstart \<lparr>vstart = 4, vsize = 1\<rparr> * 4096 + 5)
      \<lparr>vfree_count = 1, vrange_count = 2,
       vranges = [\<lparr>vstart = 5, vsize = 7\<rparr>, \<lparr>vstart = 4, vsize = 1\<rparr>]\<rparr> = Some vl' \<and>
    vr_rep vl' fs' (us1 @ us2) \<and> vr_ok fs' (us1 @ us2) \<and>
    vpages_list fs' = vpages_list [\<lparr>vstart = 5, vsize = 7\<rparr>] \<union> vpages \<lparr>vstart = 4, vsize = 1\<rparr>"
  by (rule k_mem_FreeVirtualRange_ok) (simp_all add: vr_rep_def vr_ok_def vr_sorted_Cons vpages_def)

end
