(* ===== verification/Mem_Phys.thy ===== *)
theory Mem_Phys
  imports Prelude
begin

text \<open>
  The physical page allocator of \<open>kernel/mem/mngr.c\<close>: per range of memory a stack of free page
  addresses and one \<open>k_mem_upage_t\<close> header per page. Addresses are the natural numbers below
  \<open>2 ^ 32\<close>, with the subtraction that finds a header written out with its wrap-around. The list
  of ranges is \<open>k_mem_physical_ranges\<close>. The spinlock around each operation makes it one step,
  so an operation is a function of the list of ranges. The lemmas give the invariant of a
  range, its preservation by both operations, and what an allocation and a release change.
\<close>

section \<open>Data\<close>

record upage =
  upage_index :: nat
  upage_flags :: u8

record prange =
  base_address :: nat
  free_pages :: "nat list"
  used_pages :: "upage list"
  free_count :: nat
  page_count :: nat

abbreviation (input) K_MEM_PAGE_FLAG_USED :: u8 where "K_MEM_PAGE_FLAG_USED \<equiv> 1"
abbreviation (input) K_MEM_PAGE_FLAG_HEAD :: u8 where "K_MEM_PAGE_FLAG_HEAD \<equiv> 2"
abbreviation (input) K_MEM_NULL_PAGE :: nat where "K_MEM_NULL_PAGE \<equiv> 0"

section \<open>Operations\<close>

definition alloc_from :: "u32 \<Rightarrow> prange \<Rightarrow> (nat \<times> prange) option" where
  "alloc_from flags r = do {
     let fc = free_count r - 1;
     page \<leftarrow> rd (free_pages r) fc;
     used \<leftarrow> wr (used_pages r) (sub32 page (base_address r) div 4096)
       \<lparr>upage_index = 0,
        upage_flags = ucast flags OR K_MEM_PAGE_FLAG_USED OR K_MEM_PAGE_FLAG_HEAD\<rparr>;
     Some (page, r\<lparr>free_count := fc, used_pages := used\<rparr>)
   }"

fun alloc_loop :: "u32 \<Rightarrow> prange list \<Rightarrow> nat \<Rightarrow> (nat \<times> prange list) option" where
  "alloc_loop flags [] page_address = Some (page_address, [])"
| "alloc_loop flags (r # rs) page_address =
     (if free_count r \<noteq> 0 then do {
        (page_address, r) \<leftarrow> alloc_from flags r;
        (page_address, rs) \<leftarrow> alloc_loop flags rs page_address;
        Some (page_address, r # rs)
      }
      else do {
        (page_address, rs) \<leftarrow> alloc_loop flags rs page_address;
        Some (page_address, r # rs)
      })"

definition k_mem_AllocPhysicalPage :: "u32 \<Rightarrow> prange list \<Rightarrow> (nat \<times> prange list) option" where
  "k_mem_AllocPhysicalPage flags ranges = alloc_loop flags ranges K_MEM_NULL_PAGE"

text \<open>The body of the contiguous allocation is commented out: it always reports no memory.\<close>

definition k_mem_AllocPhysicalPages :: "u32 \<Rightarrow> u32 \<Rightarrow> nat" where
  "k_mem_AllocPhysicalPages flags count = K_MEM_NULL_PAGE"

function free_run :: "prange \<Rightarrow> nat \<Rightarrow> nat \<Rightarrow> prange option" where
  "free_run r page page_index =
     Option.bind (wr (free_pages r) (free_count r) page) (\<lambda>fp.
     Option.bind (wr (used_pages r) page_index
         \<lparr>upage_index = free_count r mod 2 ^ 24, upage_flags = 0\<rparr>) (\<lambda>used.
     Option.bind (rd used (page_index + 1)) (\<lambda>used_page.
       let r' = r\<lparr>free_pages := fp, used_pages := used, free_count := free_count r + 1\<rparr>
       in if upage_flags used_page AND 3 = K_MEM_PAGE_FLAG_USED
          then free_run r' (page + 4096) (page_index + 1)
          else Some r')))"
  by pat_completeness auto
termination
  by (relation "measure (\<lambda>(r, p, i). length (used_pages r) - i)") (auto simp: wr_Some_iff)

declare free_run.simps [simp del]

fun free_search :: "nat \<Rightarrow> prange list \<Rightarrow> prange list option" where
  "free_search page [] = Some []"
| "free_search page (r # rs) =
     (let page_index = sub32 page (base_address r) div 4096
      in if base_address r \<le> page \<and> page_index < page_count r
         then do {
           used_page \<leftarrow> rd (used_pages r) page_index;
           if upage_flags used_page AND 3 = 3
           then do { r \<leftarrow> free_run r page page_index; Some (r # rs) }
           else do { rs \<leftarrow> free_search page rs; Some (r # rs) }
         }
         else do { rs \<leftarrow> free_search page rs; Some (r # rs) })"

definition k_mem_FreePhysicalPages :: "nat \<Rightarrow> prange list \<Rightarrow> prange list option" where
  "k_mem_FreePhysicalPages page0 ranges =
     (let page = page0 div 4096 * 4096
      in if page \<noteq> K_MEM_NULL_PAGE then free_search page ranges else Some ranges)"

section \<open>Invariant\<close>

definition page_addr :: "prange \<Rightarrow> nat \<Rightarrow> nat" where
  "page_addr r i = base_address r + 4096 * i"

text \<open>The addresses on the free stack, and the pages whose header says they are in use.\<close>

definition free_stack :: "prange \<Rightarrow> nat list" where
  "free_stack r = take (free_count r) (free_pages r)"

definition page_used :: "prange \<Rightarrow> nat \<Rightarrow> bool" where
  "page_used r i = bit (upage_flags (used_pages r ! i)) 0"

text \<open>
  A range is well formed when the free stack holds exactly the addresses of the pages that are
  not in use, each once, and every page in use heads its own allocation.
\<close>

definition prange_ok :: "prange \<Rightarrow> bool" where
  "prange_ok r \<longleftrightarrow>
     base_address r mod 4096 = 0 \<and> 0 < base_address r \<and>
     base_address r + 4096 * page_count r < 2 ^ 32 \<and>
     length (free_pages r) = page_count r \<and> length (used_pages r) = page_count r \<and>
     free_count r \<le> page_count r \<and> distinct (free_stack r) \<and>
     set (free_stack r) = page_addr r ` {i. i < page_count r \<and> \<not> page_used r i} \<and>
     (\<forall>i < page_count r. page_used r i \<longrightarrow> bit (upage_flags (used_pages r ! i)) 1)"

definition prange_addrs :: "prange \<Rightarrow> nat set" where
  "prange_addrs r = {base_address r ..< base_address r + 4096 * page_count r}"

text \<open>The list of ranges: each is well formed and no two share an address.\<close>

fun prlist_ok :: "prange list \<Rightarrow> bool" where
  "prlist_ok [] = True"
| "prlist_ok (r # rs) \<longleftrightarrow> prange_ok r \<and> prlist_ok rs \<and>
     (\<forall>s \<in> set rs. prange_addrs r \<inter> prange_addrs s = {})"

lemma page_index_of: 
  "prange_ok r \<Longrightarrow> i < page_count r \<Longrightarrow> sub32 (page_addr r i) (base_address r) div 4096 = i"
  by (simp add: sub32_le page_addr_def prange_ok_def)

lemma page_addr_inj: "page_addr r i = page_addr r j \<longleftrightarrow> i = j"
  by (simp add: page_addr_def)

lemma page_addr_in: "i < page_count r \<Longrightarrow> page_addr r i \<in> prange_addrs r"
  by (simp add: page_addr_def prange_addrs_def)

lemma set_butlast_distinct: "distinct xs \<Longrightarrow> xs \<noteq> [] \<Longrightarrow> set (butlast xs) = set xs - {last xs}"
proof -
  assume d: "distinct xs" and "xs \<noteq> []"
  then have "xs = butlast xs @ [last xs]" by simp
  with d have "last xs \<notin> set (butlast xs)" "set xs = insert (last xs) (set (butlast xs))"
    by (metis distinct.simps(2) distinct_append not_distinct_conv_prefix,
        metis Un_insert_right list.set(1,2) set_append sup_bot.right_neutral)
  then show ?thesis by auto
qed

lemma free_stack_length: "prange_ok r \<Longrightarrow> length (free_stack r) = free_count r"
  by (simp add: prange_ok_def free_stack_def)

lemma free_stack_page:
  "prange_ok r \<Longrightarrow> p \<in> set (free_stack r) \<Longrightarrow>
   \<exists>i < page_count r. p = page_addr r i \<and> \<not> page_used r i"
  by (auto simp: prange_ok_def)

section \<open>Allocation\<close>

lemma alloc_from_ok:
  assumes ok: "prange_ok r" and f: "0 < free_count r"
  shows "\<exists>r'. alloc_from flags r = Some (last (free_stack r), r') \<and> prange_ok r' \<and>
    free_stack r' = butlast (free_stack r) \<and>
    base_address r' = base_address r \<and> page_count r' = page_count r \<and>
    last (free_stack r) \<in> prange_addrs r"
proof -
  have ne: "free_stack r \<noteq> []" using free_stack_length [OF ok] f by auto
  then obtain i where i: "i < page_count r" "last (free_stack r) = page_addr r i" "\<not> page_used r i"
    using free_stack_page [OF ok last_in_set] by blast
  have last: "rd (free_pages r) (free_count r - 1) = Some (page_addr r i)"
  proof -
    have "free_count r \<le> length (free_pages r)" using ok by (simp add: prange_ok_def)
    then show ?thesis
      using i(2) f ne last_conv_nth [of "free_stack r"]
      by (auto simp: free_stack_def rd_def min_def)
  qed
  define h where "h = \<lparr>upage_index = 0, upage_flags = ucast flags OR 1 OR (2 :: u8)\<rparr>"
  let ?r = "r\<lparr>free_count := free_count r - 1, used_pages := (used_pages r)[i := h]\<rparr>"
  have a: "alloc_from flags r = Some (page_addr r i, ?r)"
    using last i ok by (simp add: alloc_from_def page_index_of wr_def prange_ok_def h_def)
  have st: "free_stack ?r = butlast (free_stack r)"
    using ok f by (simp add: free_stack_def prange_ok_def butlast_take)
  have b1: "bit (upage_flags h) 0" "bit (upage_flags h) 1"
    unfolding h_def upage.simps bit_or_iff by (simp_all add: bit_2_iff)
  have used: "page_used ?r j \<longleftrightarrow> j = i \<or> page_used r j" if "j < page_count r" for j
    using that ok i(1) b1 by (auto simp: page_used_def prange_ok_def nth_list_update)
  have head: "bit (upage_flags (used_pages ?r ! j)) 1"
    if "j < page_count r" "page_used ?r j" for j
    using that used [OF that(1)] ok i(1) b1
    by (auto simp: prange_ok_def nth_list_update page_used_def)
  have "set (free_stack ?r) = set (free_stack r) - {page_addr r i}"
    using ok ne i(2) unfolding st by (simp add: set_butlast_distinct prange_ok_def)
  also have "\<dots> = page_addr r ` {j. j < page_count r \<and> \<not> page_used r j} - {page_addr r i}"
    using ok by (simp add: prange_ok_def)
  also have "\<dots> = page_addr ?r ` {j. j < page_count ?r \<and> \<not> page_used ?r j}"
    using used by (auto simp: page_addr_def)
  finally have "set (free_stack ?r) = page_addr ?r ` {j. j < page_count ?r \<and> \<not> page_used ?r j}" .
  moreover have "distinct (free_stack ?r)" using ok unfolding st by (simp add: prange_ok_def distinct_butlast)
  moreover have "free_count r - 1 \<le> page_count r"
    using ok by (simp add: prange_ok_def le_diff_conv)
  ultimately have "prange_ok ?r" using ok f head by (simp add: prange_ok_def)
  then show ?thesis using a st i page_addr_in [OF i(1)] by auto
qed

text \<open>The page the scan ends with.\<close>

fun last_top :: "nat \<Rightarrow> prange list \<Rightarrow> nat" where
  "last_top p [] = p"
| "last_top p (r # rs) = last_top (if free_stack r = [] then p else last (free_stack r)) rs"

lemma last_top_cases:
  "(\<exists>r \<in> set rs. free_stack r \<noteq> [] \<and> last_top p rs = last (free_stack r)) \<or>
   (\<forall>r \<in> set rs. free_stack r = []) \<and> last_top p rs = p"
proof (induction rs arbitrary: p)
  case (Cons r rs)
  show ?case using Cons.IH [of p] Cons.IH [of "last (free_stack r)"] by auto
qed simp

lemma prlist_disjoint_cong:
  assumes "map prange_addrs rs' = map prange_addrs rs" "prange_addrs r' = prange_addrs r"
    and "\<forall>s \<in> set rs. prange_addrs r \<inter> prange_addrs s = {}"
  shows "\<forall>s \<in> set rs'. prange_addrs r' \<inter> prange_addrs s = {}"
proof
  fix s assume "s \<in> set rs'"
  then have "prange_addrs s \<in> prange_addrs ` set rs" using assms(1) by (metis image_eqI set_map)
  with assms(2,3) show "prange_addrs r' \<inter> prange_addrs s = {}" by auto
qed

lemma alloc_loop_ok:
  "prlist_ok rs \<Longrightarrow> \<exists>rs'. alloc_loop flags rs p = Some (last_top p rs, rs') \<and> prlist_ok rs' \<and>
     map prange_addrs rs' = map prange_addrs rs \<and>
     map free_stack rs' = map (butlast \<circ> free_stack) rs"
proof (induction rs arbitrary: p)
  case (Cons r rs)
  have ok: "prange_ok r" "prlist_ok rs" and dis: "\<forall>s \<in> set rs. prange_addrs r \<inter> prange_addrs s = {}"
    using Cons.prems by auto
  define p' where "p' = (if free_stack r = [] then p else last (free_stack r))"
  obtain rs' where rs': "alloc_loop flags rs p' = Some (last_top p' rs, rs')" "prlist_ok rs'"
    "map prange_addrs rs' = map prange_addrs rs"
    "map free_stack rs' = map (butlast \<circ> free_stack) rs"
    using Cons.IH [OF ok(2)] by blast
  have len: "free_count r = 0 \<longleftrightarrow> free_stack r = []" using free_stack_length [OF ok(1)] by auto
  show ?case
  proof (cases "free_count r = 0")
    case True
    then have "p' = p" using len by (simp add: p'_def)
    then show ?thesis
      using True len rs' ok prlist_disjoint_cong [OF rs'(3) refl dis]
      by (intro exI [of _ "r # rs'"]) simp
  next
    case False
    then obtain r' where r': "alloc_from flags r = Some (last (free_stack r), r')" "prange_ok r'"
      "free_stack r' = butlast (free_stack r)" "prange_addrs r' = prange_addrs r"
      using alloc_from_ok [OF ok(1), of flags] by (auto simp: prange_addrs_def)
    have "p' = last (free_stack r)" using False len by (simp add: p'_def)
    then show ?thesis
      using False len rs' r' ok prlist_disjoint_cong [OF rs'(3) r'(4) dis]
      by (intro exI [of _ "r' # rs'"]) simp
  qed
qed simp

lemma prlist_ok_member: "prlist_ok rs \<Longrightarrow> r \<in> set rs \<Longrightarrow> prange_ok r"
  by (induction rs) auto

text \<open>
  C5: Allocation of a page keeps every range well formed and never fails to run. It returns null
  exactly when no range has a free page; otherwise the page on top of the last non-empty
  range's stack. The scan does not stop at the first page it finds: every range that has a free
  page loses one.
\<close>

theorem k_mem_AllocPhysicalPage_ok:
  assumes "prlist_ok rs"
  shows "\<exists>page rs'. k_mem_AllocPhysicalPage flags rs = Some (page, rs') \<and> prlist_ok rs' \<and>
    map free_stack rs' = map (butlast \<circ> free_stack) rs \<and>
    (page = 0 \<longleftrightarrow> (\<forall>r \<in> set rs. free_stack r = [])) \<and>
    (page \<noteq> 0 \<longrightarrow> (\<exists>r \<in> set rs. free_stack r \<noteq> [] \<and> page = last (free_stack r)))"
proof -
  obtain rs' where a: "k_mem_AllocPhysicalPage flags rs = Some (last_top 0 rs, rs')" "prlist_ok rs'"
    "map free_stack rs' = map (butlast \<circ> free_stack) rs"
    using alloc_loop_ok [OF assms, of flags 0] by (auto simp: k_mem_AllocPhysicalPage_def)
  have nz: "last (free_stack r) \<noteq> 0" if "r \<in> set rs" "free_stack r \<noteq> []" for r
    using free_stack_page [OF prlist_ok_member [OF assms that(1)] last_in_set [OF that(2)]]
      prlist_ok_member [OF assms that(1)]
    by (auto simp: page_addr_def prange_ok_def)
  then have z: "last_top 0 rs = 0 \<longleftrightarrow> (\<forall>r \<in> set rs. free_stack r = [])"
    using last_top_cases [of rs 0] nz by metis
  show ?thesis
    by (intro exI [of _ "last_top 0 rs"] exI [of _ rs'] conjI a z)
      (use last_top_cases [of rs 0] in auto)
qed

section \<open>Release\<close>

text \<open>
  Release of a page in use. The loop looks for the continuation pages of the allocation, so it
  reads the header behind the released page.
\<close>

lemma free_run_ok:
  assumes ok: "prange_ok r" and i: "i + 1 < page_count r" "page_used r i"
  shows "\<exists>r'. free_run r (page_addr r i) i = Some r' \<and> prange_ok r' \<and>
    free_stack r' = free_stack r @ [page_addr r i] \<and> prange_addrs r' = prange_addrs r"
proof -
  have len: "length (free_pages r) = page_count r" "length (used_pages r) = page_count r"
    using ok by (simp_all add: prange_ok_def)
  have fresh: "page_addr r i \<notin> set (free_stack r)"
    using i free_stack_page [OF ok, of "page_addr r i"] by (auto simp: page_addr_inj)
  have "free_count r < page_count r"
  proof -
    have "card (set (free_stack r)) = free_count r"
    proof -
      have "distinct (free_stack r)" using ok by (simp add: prange_ok_def)
      then show ?thesis using free_stack_length [OF ok] distinct_card by metis
    qed
    moreover have "set (free_stack r) \<subseteq> page_addr r ` ({..<page_count r} - {i})"
      using free_stack_page [OF ok] i(2) by fastforce
    moreover have "card (page_addr r ` ({..<page_count r} - {i})) = page_count r - 1"
      using i(1) by (subst card_image) (auto simp: inj_on_def page_addr_inj)
    ultimately have "free_count r \<le> page_count r - 1"
      by (metis card_mono finite_Diff finite_imageI finite_lessThan)
    then show ?thesis using i(1) by linarith
  qed
  note fc = this
  define h where "h = \<lparr>upage_index = free_count r mod 2 ^ 24, upage_flags = 0 :: u8\<rparr>"
  let ?r = "r\<lparr>free_pages := (free_pages r)[free_count r := page_addr r i],
    used_pages := (used_pages r)[i := h], free_count := free_count r + 1\<rparr>"
  have nx: "upage_flags (used_pages r ! (i + 1)) AND 3 \<noteq> 1"
    using ok i(1) unfolding and_3_eq_1 by (auto simp: prange_ok_def page_used_def)
  have run: "free_run r (page_addr r i) i = Some ?r"
    using fc len i nx by (subst free_run.simps) (simp add: wr_def rd_def h_def Let_def)
  have st: "free_stack ?r = free_stack r @ [page_addr r i]"
    using fc len by (simp add: free_stack_def take_Suc_conv_app_nth)
  have used: "page_used ?r j \<longleftrightarrow> j \<noteq> i \<and> page_used r j" if "j < page_count r" for j
    using that len i by (auto simp: page_used_def nth_list_update h_def)
  have "set (free_stack ?r)
      = insert (page_addr r i) (page_addr r ` {j. j < page_count r \<and> \<not> page_used r j})"
    using ok unfolding st by (simp add: prange_ok_def)
  also have "\<dots> = page_addr ?r ` {j. j < page_count ?r \<and> \<not> page_used ?r j}"
    using used i by (auto simp: page_addr_def)
  finally have s: "set (free_stack ?r) = page_addr ?r ` {j. j < page_count ?r \<and> \<not> page_used ?r j}" .
  have d: "distinct (free_stack ?r)" using ok fresh unfolding st by (simp add: prange_ok_def)
  have hd: "bit (upage_flags (used_pages ?r ! j)) 1" if "j < page_count r" "page_used ?r j" for j
    using that used [OF that(1)] ok len i by (auto simp: prange_ok_def nth_list_update)
  have "prange_ok ?r" using ok fc s d hd by (simp add: prange_ok_def)
  then show ?thesis using run st by (auto simp: prange_addrs_def)
qed

lemma free_run_last_page:
  assumes "prange_ok r" "i + 1 = page_count r"
  shows "free_run r p i = None"
  using assms by (subst free_run.simps) (simp add: prange_ok_def rd_def wr_def bind_eq_None_conv)

text \<open>Where a page address is found: in the one range it lies in.\<close>

lemma in_range_test:
  assumes "prange_ok r" "page mod 4096 = 0" "page < 2 ^ 32"
  shows "base_address r \<le> page \<and> sub32 page (base_address r) div 4096 < page_count r \<longleftrightarrow>
    page \<in> prange_addrs r"
  using assms by (auto simp: prange_addrs_def prange_ok_def sub32_le div_less_iff_less_mult)

lemma free_search_run:
  assumes "prlist_ok rs" "r \<in> set rs" "i < page_count r" "page_used r i"
  shows "\<exists>us vs. rs = us @ r # vs \<and> free_search (page_addr r i) rs =
    map_option (\<lambda>r'. us @ r' # vs) (free_run r (page_addr r i) i)"
  using assms
proof (induction rs)
  case (Cons s rs)
  have rok: "prange_ok r" using prlist_ok_member [OF Cons.prems(1,2)] .
  have pa: "page_addr r i mod 4096 = 0" "page_addr r i < 2 ^ 32"
    using rok Cons.prems(3) by (auto simp: prange_ok_def page_addr_def mod_add_eq)
  have pin: "page_addr r i \<in> prange_addrs r"
    by (rule page_addr_in) (use Cons.prems in simp)
  show ?case
  proof (cases "s = r")
    case True
    have "upage_flags (used_pages r ! i) AND 3 = 3"
      using rok Cons.prems(3,4) unfolding and_3_eq_3 by (auto simp: prange_ok_def page_used_def)
    moreover have "sub32 (page_addr r i) (base_address r) div 4096 = i"
      by (rule page_index_of [OF rok]) (use Cons.prems in simp)
    moreover have "i < length (used_pages r)" using rok Cons.prems(3) by (simp add: prange_ok_def)
    moreover have "base_address r \<le> page_addr r i" by (simp add: page_addr_def)
    ultimately have "free_search (page_addr r i) (s # rs) =
        map_option (\<lambda>r'. r' # rs) (free_run r (page_addr r i) i)"
      using True Cons.prems(3)
      by (cases "free_run r (page_addr r i) i") (simp_all add: rd_def)
    then show ?thesis using True by (intro exI [of _ "[]"] exI [of _ rs]) simp
  next
    case False
    then have rin: "r \<in> set rs" using Cons.prems(2) by simp
    have sok: "prange_ok s" "prlist_ok rs" "prange_addrs s \<inter> prange_addrs r = {}"
      using Cons.prems(1) rin by auto
    have "page_addr r i \<notin> prange_addrs s" using sok(3) pin by blast
    then have "\<not> (base_address s \<le> page_addr r i \<and>
        sub32 (page_addr r i) (base_address s) div 4096 < page_count s)"
      using in_range_test [OF sok(1) pa] by blast
    then have "free_search (page_addr r i) (s # rs)
        = Option.bind (free_search (page_addr r i) rs) (\<lambda>rs. Some (s # rs))" by auto
    moreover obtain us vs where "rs = us @ r # vs" "free_search (page_addr r i) rs =
        map_option (\<lambda>r'. us @ r' # vs) (free_run r (page_addr r i) i)"
      using Cons.IH [OF sok(2) rin Cons.prems(3,4)] by blast
    ultimately show ?thesis
      by (intro exI [of _ "s # us"] exI [of _ vs])
        (cases "free_run r (page_addr r i) i"; simp)
  qed
qed simp

lemma prlist_ok_update:
  "prlist_ok (us @ r # vs) \<Longrightarrow> prange_ok r' \<Longrightarrow> prange_addrs r' = prange_addrs r \<Longrightarrow>
   prlist_ok (us @ r' # vs)"
  by (induction us) auto

text \<open>
  C6: Release of a page in use. Flag bits in the address are ignored. Unless the page is the
  last of its range, every range stays well formed, exactly that page is put on top of the free
  stack of the range it belongs to, and no other range changes. Releasing the last page of a
  range faults: the search for continuation pages reads the header behind the last one.
\<close>

theorem k_mem_FreePhysicalPages_ok:
  assumes "prlist_ok rs" "r \<in> set rs" "i < page_count r" "page_used r i" "f < 4096"
  shows "if i + 1 = page_count r then k_mem_FreePhysicalPages (page_addr r i + f) rs = None
    else (\<exists>us vs r'. rs = us @ r # vs \<and>
      k_mem_FreePhysicalPages (page_addr r i + f) rs = Some (us @ r' # vs) \<and>
      prlist_ok (us @ r' # vs) \<and> free_stack r' = free_stack r @ [page_addr r i])"
proof -
  have rok: "prange_ok r" using prlist_ok_member [OF assms(1,2)] .
  then have pa: "page_addr r i mod 4096 = 0" "0 < page_addr r i"
    by (auto simp: prange_ok_def page_addr_def mod_add_eq)
  have al: "(page_addr r i + f) div 4096 * 4096 = page_addr r i"
  proof -
    obtain q where "page_addr r i = 4096 * q" using pa(1) by (auto simp: mod_eq_0_iff_dvd)
    then show ?thesis using assms(5) by simp
  qed
  have e: "k_mem_FreePhysicalPages (page_addr r i + f) rs = free_search (page_addr r i) rs"
    using pa(2) unfolding k_mem_FreePhysicalPages_def al Let_def by simp
  obtain us vs where u: "rs = us @ r # vs" "free_search (page_addr r i) rs =
      map_option (\<lambda>r'. us @ r' # vs) (free_run r (page_addr r i) i)"
    using free_search_run [OF assms(1-4)] by blast
  show ?thesis
  proof (cases "i + 1 = page_count r")
    case True
    then show ?thesis using e u(2) free_run_last_page [OF rok] by simp
  next
    case False
    then have "i + 1 < page_count r" using assms(3) by simp
    then obtain r' where r': "free_run r (page_addr r i) i = Some r'" "prange_ok r'"
      "free_stack r' = free_stack r @ [page_addr r i]" "prange_addrs r' = prange_addrs r"
      using free_run_ok [OF rok _ assms(4)] by blast
    have "prlist_ok (us @ r' # vs)"
      by (rule prlist_ok_update [OF _ r'(2,4)]) (use assms(1) u(1) in simp)
    with False e u r' show ?thesis by auto
  qed
qed

section \<open>Free pages across ranges\<close>

definition free_set :: "prange list \<Rightarrow> nat set" where
  "free_set rs = (\<Union>r \<in> set rs. set (free_stack r))"

lemma free_set_page:
  "prlist_ok rs \<Longrightarrow> p \<in> free_set rs \<Longrightarrow> p mod 4096 = 0 \<and> 0 < p \<and> p < 2 ^ 32"
proof -
  assume "prlist_ok rs" "p \<in> free_set rs"
  then obtain r where r: "r \<in> set rs" "p \<in> set (free_stack r)" "prange_ok r"
    using prlist_ok_member by (auto simp: free_set_def)
  then obtain i where "i < page_count r" "p = page_addr r i" using free_stack_page by blast
  with r(3) show ?thesis by (auto simp: prange_ok_def page_addr_def mod_add_eq)
qed

lemma prlist_ok_disjoint:
  "prlist_ok rs \<Longrightarrow> r \<in> set rs \<Longrightarrow> s \<in> set rs \<Longrightarrow> r = s \<or> prange_addrs r \<inter> prange_addrs s = {}"
  by (induction rs) auto

lemma free_stack_addrs: "prange_ok r \<Longrightarrow> p \<in> set (free_stack r) \<Longrightarrow> p \<in> prange_addrs r"
  using free_stack_page page_addr_in by blast

lemma k_mem_AllocPhysicalPage_fresh:
  assumes ok: "prlist_ok rs" and ne: "free_set rs \<noteq> {}"
  shows "\<exists>page rs'. k_mem_AllocPhysicalPage flags rs = Some (page, rs') \<and> prlist_ok rs' \<and>
    page \<in> free_set rs \<and> free_set rs' \<subseteq> free_set rs - {page}"
proof -
  obtain rs' where a: "k_mem_AllocPhysicalPage flags rs = Some (last_top 0 rs, rs')" "prlist_ok rs'"
    "map free_stack rs' = map (butlast \<circ> free_stack) rs"
    using alloc_loop_ok [OF ok, of flags 0] by (auto simp: k_mem_AllocPhysicalPage_def)
  obtain r where r: "r \<in> set rs" "free_stack r \<noteq> []" "last_top 0 rs = last (free_stack r)"
    using last_top_cases [of rs 0] ne by (auto simp: free_set_def)
  let ?p = "last (free_stack r)"
  have "free_stack ` set rs' = (butlast \<circ> free_stack) ` set rs" using a(3) by (metis set_map)
  then have f': "free_set rs' = (\<Union>s \<in> set rs. set (butlast (free_stack s)))"
  proof -
    have "free_set rs' = \<Union> (set ` (free_stack ` set rs'))" by (simp add: free_set_def)
    also have "\<dots> = \<Union> (set ` ((butlast \<circ> free_stack) ` set rs))"
      using \<open>free_stack ` set rs' = _\<close> by simp
    finally show ?thesis by (simp add: image_image)
  qed
  have notin: "?p \<notin> set (butlast (free_stack s))" if s: "s \<in> set rs" for s
  proof (cases "s = r")
    case True
    have "distinct (free_stack r)" using prlist_ok_member [OF ok r(1)] by (simp add: prange_ok_def)
    then show ?thesis using True set_butlast_distinct [OF _ r(2)] by simp
  next
    case False
    then have "prange_addrs s \<inter> prange_addrs r = {}" using prlist_ok_disjoint [OF ok s r(1)] by blast
    moreover have "?p \<in> prange_addrs r"
      by (rule free_stack_addrs [OF prlist_ok_member [OF ok r(1)]]) (use r(2) in simp)
    ultimately have "?p \<notin> set (free_stack s)"
      using free_stack_addrs [OF prlist_ok_member [OF ok s]] by blast
    then show ?thesis by (meson in_set_butlastD)
  qed
  have "free_set rs' \<subseteq> free_set rs - {?p}"
    using notin f' by (auto simp: free_set_def dest: in_set_butlastD)
  moreover have "?p \<in> free_set rs" using r(1) last_in_set [OF r(2)] by (auto simp: free_set_def)
  ultimately show ?thesis using a r(3) by auto
qed

text \<open>A range of three pages with its middle page in use.\<close>

definition sample_range :: prange where
  "sample_range = \<lparr>base_address = 0x100000, free_pages = [0x100000, 0x102000, 0],
     used_pages = [\<lparr>upage_index = 0, upage_flags = 0\<rparr>, \<lparr>upage_index = 0, upage_flags = 3\<rparr>,
       \<lparr>upage_index = 1, upage_flags = 0\<rparr>],
     free_count = 2, page_count = 3\<rparr>"

lemma sample_range_ok: "prange_ok sample_range"
proof -
  have three: "i < 3 \<longleftrightarrow> i = 0 \<or> i = 1 \<or> i = 2" for i :: nat by auto
  have u: "page_used sample_range 0 = False" "page_used sample_range 1 = True"
    "page_used sample_range 2 = False"
    by (simp_all add: page_used_def sample_range_def)
  have "{i. i < 3 \<and> \<not> page_used sample_range i} = {0, 2}" using u by (auto simp: three)
  moreover have "page_addr sample_range ` {0, 2} = {0x100000, 0x102000}"
    by (simp add: page_addr_def sample_range_def)
  moreover have "free_stack sample_range = [0x100000, 0x102000]"
    by (simp add: free_stack_def sample_range_def)
  moreover have "bit (upage_flags (used_pages sample_range ! i)) 1"
    if "i < 3" "page_used sample_range i" for i
    using that u by (auto simp: three sample_range_def)
  ultimately show ?thesis by (simp add: prange_ok_def) (simp add: sample_range_def)
qed

theorem k_mem_AllocPhysicalPage_ok_witness:
  "\<exists>page rs'. k_mem_AllocPhysicalPage 4 [sample_range] = Some (page, rs') \<and> prlist_ok rs' \<and>
    map free_stack rs' = map (butlast \<circ> free_stack) [sample_range] \<and>
    (page = 0 \<longleftrightarrow> (\<forall>r \<in> set [sample_range]. free_stack r = [])) \<and>
    (page \<noteq> 0 \<longrightarrow> (\<exists>r \<in> set [sample_range]. free_stack r \<noteq> [] \<and> page = last (free_stack r)))"
  by (rule k_mem_AllocPhysicalPage_ok) (simp add: sample_range_ok)

theorem k_mem_FreePhysicalPages_ok_witness:
  "\<exists>us vs r'. [sample_range] = us @ sample_range # vs \<and>
    k_mem_FreePhysicalPages (page_addr sample_range 1 + 7) [sample_range] = Some (us @ r' # vs) \<and>
    prlist_ok (us @ r' # vs) \<and>
    free_stack r' = free_stack sample_range @ [page_addr sample_range 1]"
proof -
  have "page_used sample_range 1" "page_count sample_range = 3"
    by (simp_all add: page_used_def sample_range_def)
  then show ?thesis
    using k_mem_FreePhysicalPages_ok [of "[sample_range]" sample_range 1 7]
    by (simp add: sample_range_ok)
qed

end
