(* ===== verification/Mem_Pmap.thy ===== *)
theory Mem_Pmap
  imports Mem_Phys
begin

text \<open>
  The paging structures and \<open>kernel/mem/pmap.c\<close>. The state holds the contents of the physical
  pages, the page directory's address and the physical allocator. The code edits the active
  structures through the recursive window at \<open>0xffc00000\<close>: \<open>window_page\<close> is the processor's
  walk of that window, so the model's accesses go where the hardware takes them. \<open>translate\<close> is
  the processor's walk of any other address, the promise the operations are checked against.
\<close>

section \<open>Entries\<close>

datatype k_status =
    K_STATUS_OK
  | K_STATUS_FORBIDDEN
  | K_STATUS_INVALID_THREAD
  | K_STATUS_DETACHED_THREAD
  | K_STATUS_SPINLOCK_ALREADY_LOCKED
  | K_STATUS_SPINLOCK_ALREADY_UNLOCKED
  | K_STATUS_LINEAR_ADDRESS_IN_USE
  | K_STATUS_LINEAR_ADDRESS_NOT_IN_USE
  | K_STATUS_PHYSICAL_PAGE_IN_USE
  | K_STATUS_PHYSICAL_PAGE_NOT_IN_USE
  | K_STATUS_PHYSICAL_PAGE_EXCLUSIVE
  | K_STATUS_OUT_OF_PHYSICAL_MEM
  | K_STATUS_OUT_OF_VIRTUAL_MEM
  | K_STATUS_INVALID_STREAM
  | K_STATUS_EMPTY_STREAM
  | K_STATUS_BLOCKED_STREAM
  | K_STATUS_INVALID_DATA

definition entry_present :: "u32 \<Rightarrow> bool" where
  "entry_present e \<longleftrightarrow> e AND 0x1 \<noteq> 0"

definition entry_big :: "u32 \<Rightarrow> bool" where
  "entry_big e \<longleftrightarrow> e AND 0x80 \<noteq> 0"

definition entry_used :: "u32 \<Rightarrow> bool" where
  "entry_used e \<longleftrightarrow> e AND 0x200 \<noteq> 0"

definition entry_addr :: "u32 \<Rightarrow> nat" where
  "entry_addr e = unat (e AND 0xfffff000)"

definition K_MEM_PDIR_INDEX :: "u32 \<Rightarrow> nat" where
  "K_MEM_PDIR_INDEX address = unat (drop_bit 22 address AND 0x3ff)"

definition K_MEM_PTABLE_INDEX :: "u32 \<Rightarrow> nat" where
  "K_MEM_PTABLE_INDEX address = unat (drop_bit 12 address AND 0x3ff)"

section \<open>Memory as the processor sees it\<close>

record mmu =
  cr3 :: nat
  frames :: "nat \<Rightarrow> u32 list option"
  phys :: "prange list"

text \<open>The physical page behind the window of the page table \<open>i\<close>.\<close>

definition window_page :: "mmu \<Rightarrow> nat \<Rightarrow> nat option" where
  "window_page st i = do {
     pdir \<leftarrow> frames st (cr3 st);
     pde \<leftarrow> rd pdir 0x3ff;
     ptable \<leftarrow> (if entry_present pde then frames st (entry_addr pde) else None);
     pte \<leftarrow> rd ptable i;
     if entry_present pte then Some (entry_addr pte) else None
   }"

definition read_entry :: "mmu \<Rightarrow> nat \<Rightarrow> nat \<Rightarrow> u32 option" where
  "read_entry st i j = do {
     page \<leftarrow> window_page st i;
     entries \<leftarrow> frames st page;
     rd entries j
   }"

definition write_entry :: "mmu \<Rightarrow> nat \<Rightarrow> nat \<Rightarrow> u32 \<Rightarrow> mmu option" where
  "write_entry st i j e = do {
     page \<leftarrow> window_page st i;
     entries \<leftarrow> frames st page;
     entries \<leftarrow> wr entries j e;
     Some (st\<lparr>frames := (frames st)(page \<mapsto> entries)\<rparr>)
   }"

definition translate :: "mmu \<Rightarrow> u32 \<Rightarrow> u32 option" where
  "translate st la = do {
     pdir \<leftarrow> frames st (cr3 st);
     pde \<leftarrow> rd pdir (K_MEM_PDIR_INDEX la);
     if \<not> entry_present pde then None
     else if entry_big pde then Some ((pde AND 0xffc00000) OR (la AND 0x3fffff))
     else do {
       ptable \<leftarrow> frames st (entry_addr pde);
       pte \<leftarrow> rd ptable (K_MEM_PTABLE_INDEX la);
       if entry_present pte then Some ((pte AND 0xfffff000) OR (la AND 0xfff)) else None
     }
   }"

section \<open>Operations\<close>

definition forbidden :: "u32 \<Rightarrow> bool" where
  "forbidden linear_address \<longleftrightarrow> linear_address = 0 \<or> linear_address \<ge> 0xffc00000"

fun clear_table :: "nat \<Rightarrow> nat \<Rightarrow> mmu \<Rightarrow> nat \<Rightarrow> mmu option" where
  "clear_table 0 entry_index st i = Some st"
| "clear_table (Suc n) entry_index st i = do {
     st \<leftarrow> write_entry st i entry_index 0;
     clear_table n (entry_index + 1) st i
   }"

text \<open>The allocation of a page table; the status is set when the function returns from here.\<close>

definition add_page_table :: "mmu \<Rightarrow> nat \<Rightarrow> u32 \<Rightarrow> (k_status option \<times> mmu) option" where
  "add_page_table st pdir_index flags = do {
     (page, ranges) \<leftarrow> k_mem_AllocPhysicalPage 0 (phys st);
     let e = word_of_nat page OR flags;
     st \<leftarrow> write_entry (st\<lparr>phys := ranges\<rparr>) 0x3ff pdir_index e;
     if e = 0 then Some (Some K_STATUS_OUT_OF_PHYSICAL_MEM, st)
     else do {
       st \<leftarrow> write_entry st 0x3fe pdir_index e;
       st \<leftarrow> clear_table 1024 0 st pdir_index;
       Some (None, st)
     }
   }"

definition set_mapping :: "mmu \<Rightarrow> u32 \<Rightarrow> u32 \<Rightarrow> u32 \<Rightarrow> (k_status \<times> mmu) option" where
  "set_mapping st linear_address physical_address flags = do {
     let pdir_index = K_MEM_PDIR_INDEX linear_address;
     let ptable_index = K_MEM_PTABLE_INDEX linear_address;
     pde \<leftarrow> read_entry st 0x3ff pdir_index;
     if entry_big pde then Some (K_STATUS_LINEAR_ADDRESS_IN_USE, st)
     else if \<not> entry_big flags then do {
       pte \<leftarrow> read_entry st pdir_index ptable_index;
       if entry_used pte then Some (K_STATUS_LINEAR_ADDRESS_IN_USE, st)
       else do {
         st \<leftarrow> write_entry st pdir_index ptable_index (physical_address OR flags);
         Some (K_STATUS_OK, st)
       }
     }
     else do {
       st \<leftarrow> write_entry st 0x3ff pdir_index (physical_address OR flags);
       Some (K_STATUS_OK, st)
     }
   }"

definition k_mem_MapLinearAddress :: "mmu \<Rightarrow> u32 \<Rightarrow> u32 \<Rightarrow> u32 \<Rightarrow> (k_status \<times> mmu) option" where
  "k_mem_MapLinearAddress st linear_address physical_address flags0 =
     (if forbidden linear_address then Some (K_STATUS_FORBIDDEN, st)
      else do {
        let pdir_index = K_MEM_PDIR_INDEX linear_address;
        pde \<leftarrow> read_entry st 0x3ff pdir_index;
        let flags = flags0 OR (0x200 OR 0x2 OR 0x1);
        (r, st) \<leftarrow> (if \<not> entry_used pde \<and> \<not> entry_big flags
          then add_page_table st pdir_index flags else Some (None, st));
        case r of Some status \<Rightarrow> Some (status, st)
        | None \<Rightarrow> set_mapping st linear_address physical_address flags
      })"

definition k_mem_UnmapLinearAddress :: "mmu \<Rightarrow> u32 \<Rightarrow> (k_status \<times> mmu) option" where
  "k_mem_UnmapLinearAddress st linear_address =
     (if forbidden linear_address then Some (K_STATUS_FORBIDDEN, st)
      else do {
        let pdir_index = K_MEM_PDIR_INDEX linear_address;
        let ptable_index = K_MEM_PTABLE_INDEX linear_address;
        pde \<leftarrow> read_entry st 0x3ff pdir_index;
        if \<not> entry_used pde then Some (K_STATUS_LINEAR_ADDRESS_NOT_IN_USE, st)
        else if \<not> entry_big pde then do {
          pte \<leftarrow> read_entry st pdir_index ptable_index;
          if \<not> entry_used pte then Some (K_STATUS_LINEAR_ADDRESS_NOT_IN_USE, st)
          else do {
            st \<leftarrow> write_entry st pdir_index ptable_index 0;
            Some (K_STATUS_OK, st)
          }
        }
        else do {
          st \<leftarrow> write_entry st 0x3ff pdir_index 0;
          Some (K_STATUS_OK, st)
        }
      })"

definition k_mem_LinearAddressPhysicalPage :: "mmu \<Rightarrow> u32 \<Rightarrow> nat option" where
  "k_mem_LinearAddressPhysicalPage st linear_address =
     (if forbidden linear_address then Some K_MEM_NULL_PAGE
      else do {
        let pdir_index = K_MEM_PDIR_INDEX linear_address;
        pde \<leftarrow> read_entry st 0x3ff pdir_index;
        if entry_used pde then do {
          entry \<leftarrow> (if \<not> entry_big pde
            then read_entry st pdir_index (K_MEM_PTABLE_INDEX linear_address) else Some pde);
          Some (if entry_used entry then entry_addr entry else K_MEM_NULL_PAGE)
        }
        else Some K_MEM_NULL_PAGE
      })"

definition k_mem_IsLinearAddressMapped :: "mmu \<Rightarrow> u32 \<Rightarrow> k_status option" where
  "k_mem_IsLinearAddressMapped st linear_address =
     (if forbidden linear_address then Some K_STATUS_FORBIDDEN
      else do {
        let pdir_index = K_MEM_PDIR_INDEX linear_address;
        pde \<leftarrow> read_entry st 0x3ff pdir_index;
        if entry_used pde then
          (if entry_big pde then Some K_STATUS_LINEAR_ADDRESS_IN_USE
           else do {
             pte \<leftarrow> read_entry st pdir_index (K_MEM_PTABLE_INDEX linear_address);
             Some (if entry_used pte then K_STATUS_LINEAR_ADDRESS_IN_USE
                   else K_STATUS_LINEAR_ADDRESS_NOT_IN_USE)
           })
        else Some K_STATUS_LINEAR_ADDRESS_NOT_IN_USE
      })"

lemma entry_bits:
  "entry_present e \<longleftrightarrow> bit e 0" "entry_big e \<longleftrightarrow> bit e 7" "entry_used e \<longleftrightarrow> bit e 9"
proof -
  have b: "(e AND push_bit n 1 \<noteq> 0) = bit e n" for n by (simp add: bit_iff_and_push_bit_not_eq_0)
  show "entry_present e \<longleftrightarrow> bit e 0" "entry_big e \<longleftrightarrow> bit e 7" "entry_used e \<longleftrightarrow> bit e 9"
    using b [of 0] b [of 7] b [of 9] by (simp_all add: entry_present_def entry_big_def entry_used_def)
qed

lemma page_mask: "(w :: u32) AND 0xfffff000 = push_bit 12 (drop_bit 12 w)"
proof -
  have "(0xfffff000 :: u32) = NOT (mask 12)" by (simp add: mask_eq_exp_minus_1)
  then have "w AND 0xfffff000 = w AND NOT (mask 12)" by simp
  also have "\<dots> = push_bit 12 (drop_bit 12 w)"
    by (rule bit_word_eqI) (auto simp: bit_simps)
  finally show ?thesis .
qed

lemma entry_addr_div: "entry_addr e = unat e div 4096 * 4096"
proof -
  have "unat e < 2 ^ LENGTH(32)" by (rule unsigned_less)
  then have u: "unat e < 2 ^ 32" by simp
  have "entry_addr e = take_bit 32 (push_bit 12 (drop_bit 12 (unat e)))"
    by (simp only: entry_addr_def page_mask unsigned_push_bit_eq unat_drop_bit_eq) simp
  also have "\<dots> = unat e div 4096 * 4096" using u
    by (simp add: push_bit_eq_mult drop_bit_eq_div take_bit_nat_def)
  finally show ?thesis .
qed

lemma and_or_page: "(a :: u32) AND 0xfff = 0 \<Longrightarrow> f AND 0xfffff000 = 0 \<Longrightarrow>
  (a OR f) AND 0xfffff000 = a \<and> a AND 0xfffff000 = a"
proof -
  assume a: "a AND 0xfff = 0" "f AND 0xfffff000 = 0"
  have m: "(0xfff :: u32) = mask 12" "(0xfffff000 :: u32) = NOT (mask 12)"
    by (simp_all add: mask_eq_exp_minus_1)
  have "a = (a AND mask 12) OR (a AND NOT (mask 12))"
    by (rule bit_word_eqI) (auto simp: bit_simps)
  then have "a AND NOT (mask 12) = a" using a unfolding m by simp
  moreover have "(a OR f) AND NOT (mask 12) = (a AND NOT (mask 12)) OR (f AND NOT (mask 12))"
    by (simp add: bit.conj_disj_distrib2)
  ultimately show ?thesis using a unfolding m by simp
qed

lemma page_word: "p mod 4096 = 0 \<Longrightarrow> p < 2 ^ 32 \<Longrightarrow> (word_of_nat p :: u32) AND 0xfff = 0 \<and> unat (word_of_nat p :: u32) = p"
proof -
  assume p: "p mod 4096 = 0" "p < 2 ^ 32"
  then have u: "unat (word_of_nat p :: u32) = p" by (simp add: unat_of_nat)
  have "(word_of_nat p :: u32) AND 0xfff = take_bit 12 (word_of_nat p)"
    by (simp add: take_bit_eq_mask mask_eq_exp_minus_1)
  moreover have "unat (take_bit 12 (word_of_nat p :: u32)) = 0"
    using p by (simp only: unsigned_take_bit_eq u take_bit_nat_def) simp
  ultimately show ?thesis using u by (simp add: unat_eq_0)
qed

lemma low_bits: "(a :: u32) AND 0xfff = 0 \<Longrightarrow> n < 12 \<Longrightarrow> \<not> bit a n"
proof -
  assume a: "a AND 0xfff = 0" "n < 12"
  have m: "(0xfff :: u32) = mask 12" by (simp add: mask_eq_exp_minus_1)
  have "bit (a AND mask 12) n = bit a n" using a(2) by (simp add: bit_and_iff bit_mask_iff)
  then show ?thesis using a m by simp
qed

section \<open>Invariant\<close>

text \<open>The directory entries that refer to a page table.\<close>

definition tables :: "u32 list \<Rightarrow> nat set" where
  "tables pd = {i. i < 1022 \<and> entry_used (pd ! i) \<and> \<not> entry_big (pd ! i)}"

definition entry_ok :: "u32 \<Rightarrow> bool" where
  "entry_ok e \<longleftrightarrow> e = 0 \<or> entry_used e \<and> entry_present e"

definition table_ok :: "mmu \<Rightarrow> u32 list \<Rightarrow> u32 list \<Rightarrow> nat \<Rightarrow> bool" where
  "table_ok st pd pt i \<longleftrightarrow> entry_present (pt ! i) \<and> entry_addr (pt ! i) = entry_addr (pd ! i) \<and>
     entry_addr (pd ! i) \<noteq> cr3 st \<and> entry_addr (pd ! i) \<noteq> entry_addr (pd ! 1023) \<and>
     (\<exists>t. frames st (entry_addr (pd ! i)) = Some t \<and> length t = 1024 \<and> (\<forall>e \<in> set t. entry_ok e))"

definition fresh_page :: "mmu \<Rightarrow> u32 list \<Rightarrow> nat \<Rightarrow> bool" where
  "fresh_page st pd p \<longleftrightarrow> p \<noteq> cr3 st \<and> p \<noteq> entry_addr (pd ! 1023) \<and>
     p \<notin> (\<lambda>i. entry_addr (pd ! i)) ` tables pd \<and> (\<exists>t. frames st p = Some t \<and> length t = 1024)"

text \<open>
  The paging structures of the active address space: \<open>pd\<close> is the directory, \<open>pt\<close> the table
  behind its last entry, through which both are mapped; every other table in use is mapped by
  \<open>pt\<close> at its own index, and the tables and the free pages of the allocator are all distinct.
\<close>

definition pmap_ok :: "mmu \<Rightarrow> u32 list \<Rightarrow> u32 list \<Rightarrow> bool" where
  "pmap_ok st pd pt \<longleftrightarrow>
     frames st (cr3 st) = Some pd \<and> length pd = 1024 \<and>
     frames st (entry_addr (pd ! 1023)) = Some pt \<and> length pt = 1024 \<and>
     entry_addr (pd ! 1023) \<noteq> cr3 st \<and> entry_present (pd ! 1023) \<and>
     entry_present (pt ! 1023) \<and> entry_addr (pt ! 1023) = cr3 st \<and>
     entry_present (pt ! 1022) \<and> entry_addr (pt ! 1022) = entry_addr (pd ! 1023) \<and>
     (\<forall>i < 1022. entry_ok (pd ! i)) \<and> (\<forall>i \<in> tables pd. table_ok st pd pt i) \<and>
     inj_on (\<lambda>i. entry_addr (pd ! i)) (tables pd) \<and>
     prlist_ok (phys st) \<and> (\<forall>p \<in> free_set (phys st). fresh_page st pd p)"

lemma entry_ok_0 [simp]: "entry_ok 0"
  by (simp add: entry_ok_def)

lemma entry_flags_0 [simp]: "\<not> entry_used 0" "\<not> entry_present 0" "\<not> entry_big 0"
  by (simp_all add: entry_bits)

lemma pdir_index_less: "K_MEM_PDIR_INDEX la < 1024"
proof -
  have "drop_bit 22 la AND 0x3ff = take_bit 10 (drop_bit 22 la)"
    by (simp add: take_bit_eq_mask mask_eq_exp_minus_1)
  then have "K_MEM_PDIR_INDEX la = take_bit 10 (unat (drop_bit 22 la))"
    by (simp only: K_MEM_PDIR_INDEX_def unsigned_take_bit_eq)
  then show ?thesis by (simp add: take_bit_nat_def)
qed

lemma ptable_index_less: "K_MEM_PTABLE_INDEX la < 1024"
proof -
  have "drop_bit 12 la AND 0x3ff = take_bit 10 (drop_bit 12 la)"
    by (simp add: take_bit_eq_mask mask_eq_exp_minus_1)
  then have "K_MEM_PTABLE_INDEX la = take_bit 10 (unat (drop_bit 12 la))"
    by (simp only: K_MEM_PTABLE_INDEX_def unsigned_take_bit_eq)
  then show ?thesis by (simp add: take_bit_nat_def)
qed

lemma window_page_of:
  "frames st (cr3 st) = Some pd \<Longrightarrow> length pd = 1024 \<Longrightarrow> entry_present (pd ! 1023) \<Longrightarrow>
   frames st (entry_addr (pd ! 1023)) = Some pt \<Longrightarrow> length pt = 1024 \<Longrightarrow> i < 1024 \<Longrightarrow>
   window_page st i = (if entry_present (pt ! i) then Some (entry_addr (pt ! i)) else None)"
  by (simp add: window_page_def rd_def)

lemma window_dir: "pmap_ok st pd pt \<Longrightarrow> window_page st 1023 = Some (cr3 st)"
  using window_page_of [of st pd pt 1023] by (simp add: pmap_ok_def)

lemma window_table:
  "pmap_ok st pd pt \<Longrightarrow> i \<in> tables pd \<Longrightarrow> window_page st i = Some (entry_addr (pd ! i))"
  using window_page_of [of st pd pt i] by (simp add: pmap_ok_def tables_def table_ok_def)

lemma read_dir: "pmap_ok st pd pt \<Longrightarrow> i < 1024 \<Longrightarrow> read_entry st 1023 i = Some (pd ! i)"
  by (simp add: read_entry_def window_dir) (simp add: pmap_ok_def rd_def)

lemma read_table:
  "pmap_ok st pd pt \<Longrightarrow> i \<in> tables pd \<Longrightarrow> frames st (entry_addr (pd ! i)) = Some t \<Longrightarrow>
   j < length t \<Longrightarrow> read_entry st i j = Some (t ! j)"
  by (simp add: read_entry_def window_table rd_def)

lemma write_table:
  assumes ok: "pmap_ok st pd pt" and i: "i \<in> tables pd"
    and t: "frames st (entry_addr (pd ! i)) = Some t" and j: "j < 1024" and e: "entry_ok e"
  shows "\<exists>st'. write_entry st i j e = Some st' \<and> pmap_ok st' pd pt \<and> cr3 st' = cr3 st \<and>
    frames st' = (frames st)(entry_addr (pd ! i) \<mapsto> t[j := e]) \<and> phys st' = phys st"
proof -
  let ?a = "entry_addr (pd ! i)"
  let ?st = "st\<lparr>frames := (frames st)(?a \<mapsto> t[j := e])\<rparr>"
  have tok: "table_ok st pd pt i" using ok i by (simp add: pmap_ok_def)
  then have len: "length t = 1024" "\<forall>e \<in> set t. entry_ok e" and ne: "?a \<noteq> cr3 st" "?a \<noteq> entry_addr (pd ! 1023)"
    using t by (auto simp: table_ok_def)
  have w: "write_entry st i j e = Some ?st"
    using window_table [OF ok i] t j len by (simp add: write_entry_def wr_def)
  have te: "\<forall>x \<in> set (t[j := e]). entry_ok x"
    using len(2) e set_update_subset_insert [of t j e] by auto
  have "table_ok ?st pd pt k" if "k \<in> tables pd" for k
  proof -
    have "table_ok st pd pt k" using ok that by (simp add: pmap_ok_def)
    then show ?thesis using te len(1) by (auto simp: table_ok_def)
  qed
  moreover have "fresh_page ?st pd p" if "p \<in> free_set (phys st)" for p
  proof -
    have "fresh_page st pd p" using ok that by (simp add: pmap_ok_def)
    then show ?thesis using i by (auto simp: fresh_page_def)
  qed
  ultimately have "pmap_ok ?st pd pt" using ok ne by (simp add: pmap_ok_def)
  with w show ?thesis by auto
qed

text \<open>What the processor makes of an address, in terms of the directory and its tables.\<close>

definition same_page :: "u32 \<Rightarrow> u32 \<Rightarrow> bool" where
  "same_page a b \<longleftrightarrow> K_MEM_PDIR_INDEX a = K_MEM_PDIR_INDEX b \<and>
     K_MEM_PTABLE_INDEX a = K_MEM_PTABLE_INDEX b"

lemma translate_dir:
  "pmap_ok st pd pt \<Longrightarrow> translate st la =
     (let pde = pd ! K_MEM_PDIR_INDEX la
      in if \<not> entry_present pde then None
         else if entry_big pde then Some ((pde AND 0xffc00000) OR (la AND 0x3fffff))
         else Option.bind (frames st (entry_addr pde)) (\<lambda>t.
           Option.bind (rd t (K_MEM_PTABLE_INDEX la)) (\<lambda>pte.
             if entry_present pte then Some ((pte AND 0xfffff000) OR (la AND 0xfff)) else None)))"
  using pdir_index_less [of la] by (simp add: translate_def pmap_ok_def rd_def Let_def)

lemma table_entry_present:
  "pmap_ok st pd pt \<Longrightarrow> i < 1022 \<Longrightarrow> entry_present (pd ! i) \<longleftrightarrow> entry_used (pd ! i)"
  by (auto simp: pmap_ok_def entry_ok_def)

text \<open>What an operation on one entry of a table keeps.\<close>

definition same_but_table :: "mmu \<Rightarrow> mmu \<Rightarrow> u32 list \<Rightarrow> u32 \<Rightarrow> bool" where
  "same_but_table st st' pd la \<longleftrightarrow> cr3 st' = cr3 st \<and> phys st' = phys st \<and>
     (\<forall>p. p \<noteq> entry_addr (pd ! K_MEM_PDIR_INDEX la) \<longrightarrow> frames st' p = frames st p)"

lemma set_mapping_table:
  assumes ok: "pmap_ok st pd pt" and i: "K_MEM_PDIR_INDEX la \<in> tables pd"
    and fl: "\<not> entry_big flags" "entry_used flags" "entry_present flags" "flags AND 0xfffff000 = 0"
    and pa: "pa AND 0xfff = 0"
  shows "if translate st la \<noteq> None
    then set_mapping st la pa flags = Some (K_STATUS_LINEAR_ADDRESS_IN_USE, st)
    else (\<exists>st'. set_mapping st la pa flags = Some (K_STATUS_OK, st') \<and> pmap_ok st' pd pt \<and>
      (\<forall>lb. K_MEM_PDIR_INDEX lb < 1022 \<longrightarrow> translate st' lb =
        (if same_page la lb then Some (pa OR (lb AND 0xfff)) else translate st lb)) \<and> same_but_table st st' pd la)"
proof -
  let ?i = "K_MEM_PDIR_INDEX la" and ?j = "K_MEM_PTABLE_INDEX la"
  have ti: "entry_used (pd ! ?i)" "\<not> entry_big (pd ! ?i)" "?i < 1022" using i by (auto simp: tables_def)
  have pr: "entry_present (pd ! ?i)" using table_entry_present [OF ok ti(3)] ti by simp
  obtain t where t: "frames st (entry_addr (pd ! ?i)) = Some t" "length t = 1024"
    "\<forall>e \<in> set t. entry_ok e"
    using ok i by (auto simp: pmap_ok_def table_ok_def)
  have j: "?j < 1024" by (rule ptable_index_less)
  have tj: "entry_ok (t ! ?j)" using t(2,3) j by simp
  have rd1: "read_entry st 0x3ff ?i = Some (pd ! ?i)" using read_dir [OF ok, of ?i] ti by simp
  have rd2: "read_entry st ?i ?j = Some (t ! ?j)" using read_table [OF ok i t(1)] t(2) j by simp
  have tr: "translate st la = (if entry_present (t ! ?j)
      then Some ((t ! ?j AND 0xfffff000) OR (la AND 0xfff)) else None)"
    unfolding translate_dir [OF ok] using ti pr t j by (simp add: Let_def rd_def)
  have up: "entry_used (t ! ?j) \<longleftrightarrow> entry_present (t ! ?j)"
    using tj by (auto simp: entry_ok_def)
  show ?thesis
  proof (cases "entry_used (t ! ?j)")
    case True
    then show ?thesis using rd1 rd2 ti fl up tr by (simp add: set_mapping_def Let_def)
  next
    case False
    let ?e = "pa OR flags"
    have e: "entry_ok ?e" "entry_present ?e" using fl by (auto simp: entry_ok_def entry_bits bit_or_iff)
    have ea: "?e AND 0xfffff000 = pa" using and_or_page [OF pa fl(4)] by simp
    obtain st' where st': "write_entry st ?i ?j ?e = Some st'" "pmap_ok st' pd pt" "cr3 st' = cr3 st"
      "frames st' = (frames st)(entry_addr (pd ! ?i) \<mapsto> t[?j := ?e])" "phys st' = phys st"
      using write_table [OF ok i t(1) j e(1)] by blast
    have sb: "same_but_table st st' pd la" using st'(3-5) by (simp add: same_but_table_def)
    have run: "set_mapping st la pa flags = Some (K_STATUS_OK, st')"
      using rd1 rd2 ti fl st' False by (simp add: set_mapping_def Let_def)
    have "translate st' lb = (if same_page la lb then Some (pa OR (lb AND 0xfff)) else translate st lb)"
      if lb: "K_MEM_PDIR_INDEX lb < 1022" for lb
    proof (cases "K_MEM_PDIR_INDEX lb = ?i")
      case True
      then show ?thesis
        unfolding translate_dir [OF ok] translate_dir [OF st'(2)]
        using ti pr t j e ea st'(4) ptable_index_less [of lb]
        by (auto simp: Let_def rd_def same_page_def nth_list_update)
    next
      case False
      have "entry_addr (pd ! K_MEM_PDIR_INDEX lb) \<noteq> entry_addr (pd ! ?i)"
        if "K_MEM_PDIR_INDEX lb \<in> tables pd"
        using ok that i False by (auto simp: pmap_ok_def inj_on_def)
      then show ?thesis
        unfolding translate_dir [OF ok] translate_dir [OF st'(2)]
        using False lb table_entry_present [OF ok lb] st'(4)
        by (auto simp: Let_def same_page_def tables_def)
    qed
    then show ?thesis using run st'(2) tr up False sb by auto
  qed
qed

lemma window_page_frames:
  assumes "frames st (cr3 st) = Some pd" "length pd = 1024"
    and "p \<noteq> cr3 st" "p \<noteq> entry_addr (pd ! 1023)"
  shows "window_page (st\<lparr>frames := (frames st)(p \<mapsto> t)\<rparr>) i = window_page st i"
  using assms by (simp add: window_page_def rd_def)

lemma clear_table_run:
  "frames st (cr3 st) = Some pd \<Longrightarrow> length pd = 1024 \<Longrightarrow> p \<noteq> cr3 st \<Longrightarrow>
   p \<noteq> entry_addr (pd ! 1023) \<Longrightarrow> window_page st i = Some p \<Longrightarrow> frames st p = Some t \<Longrightarrow>
   k + n \<le> length t \<Longrightarrow>
   clear_table n k st i
     = Some (st\<lparr>frames := (frames st)(p \<mapsto> take k t @ replicate n 0 @ drop (k + n) t)\<rparr>)"
proof (induction n arbitrary: k st t)
  case 0
  have "frames st = (frames st)(p \<mapsto> t)" using "0.prems" by auto
  then have "st\<lparr>frames := (frames st)(p \<mapsto> t)\<rparr> = st" by (cases st) auto
  then show ?case by (simp del: fun_upd_apply)
next
  case (Suc n)
  let ?st = "st\<lparr>frames := (frames st)(p \<mapsto> t[k := 0])\<rparr>"
  have w: "write_entry st i k 0 = Some ?st"
    using Suc.prems by (simp add: write_entry_def wr_def)
  have "clear_table n (k + 1) ?st i = Some (?st\<lparr>frames := (frames ?st)(p \<mapsto>
      take (k + 1) (t[k := 0]) @ replicate n 0 @ drop (k + 1 + n) (t[k := 0]))\<rparr>)"
    by (rule Suc.IH)
      (use Suc.prems window_page_frames [of st pd p "t[k := 0]" i] in auto)
  moreover have "take (k + 1) (t[k := 0]) @ replicate n 0 @ drop (k + 1 + n) (t[k := 0])
      = take k t @ replicate (Suc n) 0 @ drop (k + Suc n) t"
    using Suc.prems by (simp add: take_Suc_conv_app_nth)
  ultimately show ?case using w by (simp del: fun_upd_apply)
qed

text \<open>Allocation of a table for an unused directory entry.\<close>

lemma add_page_table_ok:
  assumes ok: "pmap_ok st pd pt" and i: "i < 1022" "\<not> entry_used (pd ! i)"
    and fl: "\<not> entry_big flags" "entry_used flags" "entry_present flags" "flags AND 0xfffff000 = 0"
    and free: "free_set (phys st) \<noteq> {}"
  shows "\<exists>st' e. add_page_table st i flags = Some (None, st') \<and> i \<in> tables (pd[i := e]) \<and>
    pmap_ok st' (pd[i := e]) (pt[i := e]) \<and>
    (\<forall>la. K_MEM_PDIR_INDEX la < 1022 \<longrightarrow> translate st' la = translate st la)"
proof -
  have len: "length pd = 1024" "length pt = 1024" and fpd: "frames st (cr3 st) = Some pd"
    and fpt: "frames st (entry_addr (pd ! 1023)) = Some pt" using ok by (simp_all add: pmap_ok_def)
  have pne: "entry_addr (pd ! 1023) \<noteq> cr3 st" "entry_present (pd ! 1023)" "entry_present (pt ! 1023)"
    "entry_addr (pt ! 1023) = cr3 st" "entry_present (pt ! 1022)"
    "entry_addr (pt ! 1022) = entry_addr (pd ! 1023)" and eok: "\<forall>i < 1022. entry_ok (pd ! i)"
    and tabs: "\<forall>i \<in> tables pd. table_ok st pd pt i"
    and inj: "inj_on (\<lambda>i. entry_addr (pd ! i)) (tables pd)" and pl: "prlist_ok (phys st)"
    and fresh: "\<forall>p \<in> free_set (phys st). fresh_page st pd p"
    using ok by (simp_all add: pmap_ok_def)
  obtain p ph where p: "k_mem_AllocPhysicalPage 0 (phys st) = Some (p, ph)" "prlist_ok ph"
    "p \<in> free_set (phys st)" "free_set ph \<subseteq> free_set (phys st) - {p}"
    using k_mem_AllocPhysicalPage_fresh [OF pl free] by blast
  have pw: "(word_of_nat p :: u32) AND 0xfff = 0" "unat (word_of_nat p :: u32) = p"
    using free_set_page [OF pl p(3)] page_word by auto
  define e where "e = word_of_nat p OR flags"
  have em: "e AND 0xfffff000 = word_of_nat p" unfolding e_def using and_or_page [OF pw(1) fl(4)] by simp
  have e: "entry_addr e = p" "entry_used e" "entry_present e" "\<not> entry_big e" "e \<noteq> 0"
  proof -
    show "entry_addr e = p" using em pw(2) by (simp add: entry_addr_def)
    show "entry_used e" "entry_present e" "\<not> entry_big e"
      using fl low_bits [OF pw(1), of 7] by (simp_all add: e_def entry_bits bit_or_iff)
    then show "e \<noteq> 0" by auto
  qed
  have fp: "fresh_page st pd p" using fresh p(3) by blast
  then obtain t where t: "frames st p = Some t" "length t = 1024" and pn: "p \<noteq> cr3 st"
    "p \<noteq> entry_addr (pd ! 1023)" "p \<notin> (\<lambda>i. entry_addr (pd ! i)) ` tables pd"
    by (auto simp: fresh_page_def)
  let ?s0 = "st\<lparr>phys := ph\<rparr>"
  let ?s1 = "?s0\<lparr>frames := (frames st)(cr3 st \<mapsto> pd[i := e])\<rparr>"
  let ?P = "entry_addr (pd ! 1023)"
  let ?s2 = "?s1\<lparr>frames := (frames ?s1)(?P \<mapsto> pt[i := e])\<rparr>"
  let ?s3 = "?s2\<lparr>frames := (frames ?s2)(p \<mapsto> replicate 1024 0)\<rparr>"
  have "window_page ?s0 1023 = Some (cr3 st)"
    using window_page_of [of ?s0 pd pt 1023] fpd fpt len pne by simp
  then have w1: "write_entry ?s0 0x3ff i e = Some ?s1"
    using fpd len i by (simp add: write_entry_def wr_def)
  have "window_page ?s1 1022 = Some ?P"
    using window_page_of [of ?s1 "pd[i := e]" pt 1022] fpt len pne i by simp
  then have w2: "write_entry ?s1 0x3fe i e = Some ?s2"
    using fpt len i pne by (simp add: write_entry_def wr_def)
  have "window_page ?s2 i = Some p"
    using window_page_of [of ?s2 "pd[i := e]" "pt[i := e]" i] len pne i e by simp
  then have w3: "clear_table 1024 0 ?s2 i = Some ?s3"
    using clear_table_run [of ?s2 "pd[i := e]" p i t 0 1024] len pne i pn t by simp
  have run: "add_page_table st i flags = Some (None, ?s3)"
    using p(1) w1 w2 w3 e(5) by (simp add: add_page_table_def e_def [symmetric])
  have tb: "tables (pd[i := e]) = insert i (tables pd)"
    using i e len by (auto simp: tables_def nth_list_update)
  have itab: "i \<notin> tables pd" using i by (simp add: tables_def)
  have nth: "k \<noteq> i \<Longrightarrow> pd[i := e] ! k = pd ! k" "k \<noteq> i \<Longrightarrow> pt[i := e] ! k = pt ! k" for k by auto
  have tk: "table_ok ?s3 (pd[i := e]) (pt[i := e]) k" if "k \<in> tables (pd[i := e])" for k
  proof (cases "k = i")
    case True
    then show ?thesis using i e len pne pn by (auto simp: table_ok_def)
  next
    case False
    then have "table_ok st pd pt k" "entry_addr (pd ! k) \<noteq> p" using that tb tabs pn(3) by auto
    then show ?thesis using False i pne by (auto simp: table_ok_def)
  qed
  have inj': "inj_on (\<lambda>k. entry_addr (pd[i := e] ! k)) (tables (pd[i := e]))"
  proof -
    have "inj_on (\<lambda>k. entry_addr (pd[i := e] ! k)) (tables pd)"
      using inj itab
      by (subst inj_on_cong [where g = "\<lambda>k. entry_addr (pd ! k)"]) (auto intro!: arg_cong [of _ _ entry_addr] nth_list_update_neq)
    moreover have "entry_addr (pd[i := e] ! i) \<notin> (\<lambda>k. entry_addr (pd[i := e] ! k)) ` tables pd"
      using pn(3) e i len itab by (auto simp: image_iff nth_list_update)
    ultimately show ?thesis using tb itab by auto
  qed
  have fr: "fresh_page ?s3 (pd[i := e]) q" if "q \<in> free_set ph" for q
  proof -
    have q: "q \<noteq> p" "fresh_page st pd q" using that p(4) fresh by auto
    then have "q \<notin> (\<lambda>k. entry_addr (pd[i := e] ! k)) ` tables (pd[i := e])"
      using tb i e len itab by (auto simp: fresh_page_def image_iff nth_list_update)
    then show ?thesis using q i pne by (auto simp: fresh_page_def)
  qed
  have eok': "\<forall>k < 1022. entry_ok (pd[i := e] ! k)"
    using eok e i len by (auto simp: nth_list_update entry_ok_def)
  have ok3: "pmap_ok ?s3 (pd[i := e]) (pt[i := e])"
    using tk inj' fr eok' p(2) len pne i pn by (simp add: pmap_ok_def)
  have "translate ?s3 la = translate st la" if la: "K_MEM_PDIR_INDEX la < 1022" for la
  proof (cases "K_MEM_PDIR_INDEX la = i")
    case True
    have "\<not> entry_present (pd ! i)" using i table_entry_present [OF ok i(1)] by simp
    then show ?thesis unfolding translate_dir [OF ok] translate_dir [OF ok3]
      using True e i len ptable_index_less [of la] by (simp add: Let_def rd_def)
  next
    case False
    have "entry_addr (pd ! K_MEM_PDIR_INDEX la) \<noteq> p \<and> table_ok st pd pt (K_MEM_PDIR_INDEX la)"
      if "K_MEM_PDIR_INDEX la \<in> tables pd"
      using that pn(3) tabs by auto
    then show ?thesis unfolding translate_dir [OF ok] translate_dir [OF ok3]
      using False la table_entry_present [OF ok la]
      by (auto simp: Let_def tables_def table_ok_def)
  qed
  then show ?thesis using run tb ok3 by blast
qed

lemma flags_with:
  "f AND 0xfffff000 = 0 \<Longrightarrow> \<not> entry_big f \<Longrightarrow>
   (f OR 0x203) AND 0xfffff000 = 0 \<and> \<not> entry_big (f OR 0x203) \<and> entry_used (f OR 0x203) \<and>
   entry_present (f OR 0x203)" for f :: u32
  by (simp add: entry_bits bit_or_iff bit.conj_disj_distrib2)


section \<open>Unmapping and lookup\<close>

lemma write_dir_clear:
  assumes ok: "pmap_ok st pd pt" and i: "i < 1022" "entry_big (pd ! i)"
  shows "\<exists>st'. write_entry st 1023 i 0 = Some st' \<and> pmap_ok st' (pd[i := 0]) pt \<and>
    cr3 st' = cr3 st \<and> frames st' = (frames st)(cr3 st \<mapsto> pd[i := 0])"
proof -
  let ?st = "st\<lparr>frames := (frames st)(cr3 st \<mapsto> pd[i := 0])\<rparr>"
  have len: "length pd = 1024" and fpd: "frames st (cr3 st) = Some pd"
    and pne: "entry_addr (pd ! 1023) \<noteq> cr3 st" using ok by (simp_all add: pmap_ok_def)
  have w: "write_entry st 1023 i 0 = Some ?st"
    using window_dir [OF ok] fpd len i by (simp add: write_entry_def wr_def)
  have it: "i \<notin> tables pd" using i by (simp add: tables_def)
  have tb: "tables (pd[i := 0]) = tables pd"
    using i len by (auto simp: tables_def nth_list_update)
  have n: "pd[i := 0] ! k = pd ! k" if "k \<in> tables pd" for k using that it by (metis nth_list_update_neq)
  have n2: "pd[i := 0] ! 1023 = pd ! 1023" using i by simp
  have "table_ok ?st (pd[i := 0]) pt k" if "k \<in> tables pd" for k
  proof -
    have "table_ok st pd pt k" using ok that by (simp add: pmap_ok_def)
    then show ?thesis using n [OF that] n2 by (auto simp: table_ok_def)
  qed
  moreover have "inj_on (\<lambda>k. entry_addr (pd[i := 0] ! k)) (tables pd)"
    using ok n by (subst inj_on_cong [where g = "\<lambda>k. entry_addr (pd ! k)"]) (auto simp: pmap_ok_def)
  moreover have "fresh_page ?st (pd[i := 0]) p" if "p \<in> free_set (phys st)" for p
  proof -
    have "fresh_page st pd p" using ok that by (simp add: pmap_ok_def)
    moreover have "(\<lambda>k. entry_addr (pd[i := 0] ! k)) ` tables pd = (\<lambda>k. entry_addr (pd ! k)) ` tables pd"
      using n by (intro image_cong) auto
    ultimately show ?thesis using n2 by (simp add: fresh_page_def tb)
  qed
  moreover have "\<forall>k < 1022. entry_ok (pd[i := 0] ! k)"
    using ok len i by (auto simp: pmap_ok_def nth_list_update)
  ultimately have "pmap_ok ?st (pd[i := 0]) pt" using ok n2 pne by (simp add: pmap_ok_def tb)
  with w show ?thesis by auto
qed

text \<open>The addresses whose translation goes through the same entry as that of \<open>la\<close>.\<close>

definition same_entry :: "u32 list \<Rightarrow> u32 \<Rightarrow> u32 \<Rightarrow> bool" where
  "same_entry pd la lb \<longleftrightarrow> K_MEM_PDIR_INDEX la = K_MEM_PDIR_INDEX lb \<and>
     (entry_big (pd ! K_MEM_PDIR_INDEX la) \<or> K_MEM_PTABLE_INDEX la = K_MEM_PTABLE_INDEX lb)"

text \<open>Unmapping an address that goes through a table.\<close>

lemma unmap_table:
  assumes ok: "pmap_ok st pd pt" and la: "\<not> forbidden la" "K_MEM_PDIR_INDEX la < 1022" and 3: "K_MEM_PDIR_INDEX la \<in> tables pd"
  shows "if translate st la = None
    then k_mem_UnmapLinearAddress st la = Some (K_STATUS_LINEAR_ADDRESS_NOT_IN_USE, st)
    else (\<exists>st'. k_mem_UnmapLinearAddress st la = Some (K_STATUS_OK, st') \<and> pmap_ok st' pd pt \<and>
      (\<forall>lb. K_MEM_PDIR_INDEX lb < 1022 \<longrightarrow> translate st' lb =
        (if same_entry pd la lb then None else translate st lb)) \<and> same_but_table st st' pd la)"
proof -
  let ?i = "K_MEM_PDIR_INDEX la" and ?j = "K_MEM_PTABLE_INDEX la"
  have rdd: "read_entry st 0x3ff ?i = Some (pd ! ?i)" using read_dir [OF ok, of ?i] la by simp
  note pu = table_entry_present [OF ok]
  obtain t where t: "frames st (entry_addr (pd ! ?i)) = Some t" "length t = 1024"
    "\<forall>e \<in> set t. entry_ok e"
    using ok 3 by (auto simp: pmap_ok_def table_ok_def)
  have j: "?j < 1024" by (rule ptable_index_less)
  have up: "entry_used (t ! ?j) \<longleftrightarrow> entry_present (t ! ?j)"
  proof -
    have "entry_ok (t ! ?j)" using t(2,3) j by simp
    then show ?thesis by (auto simp: entry_ok_def)
  qed
  have ti: "entry_used (pd ! ?i)" "\<not> entry_big (pd ! ?i)" using 3 by (auto simp: tables_def)
  have tr: "translate st la = (if entry_present (t ! ?j)
      then Some ((t ! ?j AND 0xfffff000) OR (la AND 0xfff)) else None)"
    unfolding translate_dir [OF ok] using ti pu [OF la(2)] t j by (simp add: Let_def rd_def)
  have rdt: "read_entry st ?i ?j = Some (t ! ?j)" using read_table [OF ok 3 t(1)] t(2) j by simp
  obtain st' where st': "write_entry st ?i ?j 0 = Some st'" "pmap_ok st' pd pt" "cr3 st' = cr3 st"
    "frames st' = (frames st)(entry_addr (pd ! ?i) \<mapsto> t[?j := 0])" "phys st' = phys st"
    using write_table [OF ok 3 t(1) j entry_ok_0] by blast
  have tl: "translate st' lb = (if same_entry pd la lb then None else translate st lb)"
    if lb: "K_MEM_PDIR_INDEX lb < 1022" for lb
  proof (cases "K_MEM_PDIR_INDEX lb = ?i")
    case True
    then show ?thesis unfolding translate_dir [OF ok] translate_dir [OF st'(2)]
      using ti pu [OF la(2)] t j st'(4) ptable_index_less [of lb]
      by (auto simp: Let_def rd_def same_entry_def nth_list_update)
  next
    case False
    have "entry_addr (pd ! K_MEM_PDIR_INDEX lb) \<noteq> entry_addr (pd ! ?i)"
      if "K_MEM_PDIR_INDEX lb \<in> tables pd"
      using ok that 3 False by (auto simp: pmap_ok_def inj_on_def)
    then show ?thesis unfolding translate_dir [OF ok] translate_dir [OF st'(2)]
      using False lb pu [OF lb] st'(4) by (auto simp: Let_def same_entry_def tables_def)
  qed
  show ?thesis
  proof (cases "entry_used (t ! ?j)")
    case True
    then have "k_mem_UnmapLinearAddress st la = Some (K_STATUS_OK, st')"
      using ti la rdd rdt st'(1) by (simp add: k_mem_UnmapLinearAddress_def Let_def)
    then show ?thesis using True up tr st'(2-5) tl by (auto simp: same_but_table_def)
  next
    case False
    then show ?thesis
      using ti la rdd rdt up tr by (simp add: k_mem_UnmapLinearAddress_def Let_def)
  qed
qed

text \<open>
  C10: Unmapping an address of the paged range below the window. If the processor does not
  translate it, the call reports so and changes nothing; otherwise the small or big page it
  lies in is no longer translated, every other address translates as before, and the paging
  structures stay well formed.
\<close>

theorem k_mem_UnmapLinearAddress_translate:
  assumes ok: "pmap_ok st pd pt" and la: "\<not> forbidden la" "K_MEM_PDIR_INDEX la < 1022"
  shows "if translate st la = None
    then k_mem_UnmapLinearAddress st la = Some (K_STATUS_LINEAR_ADDRESS_NOT_IN_USE, st)
    else (\<exists>st' pd'. k_mem_UnmapLinearAddress st la = Some (K_STATUS_OK, st') \<and> pmap_ok st' pd' pt \<and>
      (\<forall>lb. K_MEM_PDIR_INDEX lb < 1022 \<longrightarrow> translate st' lb =
        (if same_entry pd la lb then None else translate st lb)))"
proof -
  let ?i = "K_MEM_PDIR_INDEX la" and ?j = "K_MEM_PTABLE_INDEX la"
  have rdd: "read_entry st 0x3ff ?i = Some (pd ! ?i)" using read_dir [OF ok, of ?i] la by simp
  have len: "length pd = 1024" using ok by (simp add: pmap_ok_def)
  note pu = table_entry_present [OF ok]
  consider "\<not> entry_used (pd ! ?i)" | "entry_used (pd ! ?i)" "entry_big (pd ! ?i)" | "?i \<in> tables pd"
    using la by (auto simp: tables_def)
  then show ?thesis
  proof cases
    case 1
    then have "translate st la = None"
      unfolding translate_dir [OF ok] using pu [OF la(2)] by (simp add: Let_def)
    then show ?thesis using 1 la rdd by (simp add: k_mem_UnmapLinearAddress_def Let_def)
  next
    case 2
    then have t: "translate st la \<noteq> None"
      unfolding translate_dir [OF ok] using pu [OF la(2)] by (simp add: Let_def)
    obtain st' where st': "write_entry st 1023 ?i 0 = Some st'" "pmap_ok st' (pd[?i := 0]) pt"
      "cr3 st' = cr3 st" "frames st' = (frames st)(cr3 st \<mapsto> pd[?i := 0])"
      using write_dir_clear [OF ok la(2) 2(2)] by blast
    have run: "k_mem_UnmapLinearAddress st la = Some (K_STATUS_OK, st')"
      using 2 la rdd st'(1) by (simp add: k_mem_UnmapLinearAddress_def Let_def)
    have "translate st' lb = (if same_entry pd la lb then None else translate st lb)"
      if lb: "K_MEM_PDIR_INDEX lb < 1022" for lb
    proof (cases "K_MEM_PDIR_INDEX lb = ?i")
      case True
      then show ?thesis unfolding translate_dir [OF ok] translate_dir [OF st'(2)]
        using 2 la len by (simp add: Let_def same_entry_def)
    next
      case False
      have "entry_addr (pd ! K_MEM_PDIR_INDEX lb) \<noteq> cr3 st" if "K_MEM_PDIR_INDEX lb \<in> tables pd"
        using ok that by (auto simp: pmap_ok_def table_ok_def)
      then show ?thesis unfolding translate_dir [OF ok] translate_dir [OF st'(2)]
        using False pu [OF lb] st'(4) lb by (auto simp: Let_def same_entry_def tables_def)
    qed
    then show ?thesis using t run st'(2) by auto
  next
    case 3
    then show ?thesis using unmap_table [OF ok la 3] by (auto split: if_splits)
  qed
qed

text \<open>
  Running out of physical pages is never reported: with no free page left, mapping an address
  whose table does not exist yet installs the null page as its page table.
\<close>

lemma k_mem_MapLinearAddress_never_out_of_memory:
  assumes "k_mem_MapLinearAddress st la pa flags = Some (s, st')"
  shows "s \<noteq> K_STATUS_OUT_OF_PHYSICAL_MEM"
proof -
  have nz: "word_of_nat p OR (flags OR 0x203) \<noteq> (0 :: u32)" for p
  proof -
    have "entry_present (word_of_nat p OR (flags OR 0x203))" by (simp add: entry_bits bit_or_iff)
    then show ?thesis by (metis entry_flags_0(2))
  qed
  have a: "r = None" if "add_page_table st i (flags OR 0x203) = Some (r, st')" for r i st'
    using that nz by (auto simp: add_page_table_def bind_eq_Some_conv Let_def)
  have m: "s' \<noteq> K_STATUS_OUT_OF_PHYSICAL_MEM" if "set_mapping st1 la pa f = Some (s', st2)" for st1 f s' st2
    using that by (auto simp: set_mapping_def bind_eq_Some_conv Let_def split: if_splits)
  show ?thesis
    using assms
    by (auto simp: k_mem_MapLinearAddress_def bind_eq_Some_conv Let_def
        dest: a m split: if_splits option.splits)
qed

text \<open>The lookups agree with the processor.\<close>

lemma k_mem_IsLinearAddressMapped_translate:
  assumes ok: "pmap_ok st pd pt" and la: "\<not> forbidden la" "K_MEM_PDIR_INDEX la < 1022"
  shows "k_mem_IsLinearAddressMapped st la = Some (if translate st la = None
    then K_STATUS_LINEAR_ADDRESS_NOT_IN_USE else K_STATUS_LINEAR_ADDRESS_IN_USE)"
proof -
  let ?i = "K_MEM_PDIR_INDEX la" and ?j = "K_MEM_PTABLE_INDEX la"
  have rdd: "read_entry st 0x3ff ?i = Some (pd ! ?i)" using read_dir [OF ok, of ?i] la by simp
  note pu = table_entry_present [OF ok la(2)]
  show ?thesis
  proof (cases "?i \<in> tables pd")
    case True
    then obtain t where t: "frames st (entry_addr (pd ! ?i)) = Some t" "length t = 1024"
      "\<forall>e \<in> set t. entry_ok e"
      using ok by (auto simp: pmap_ok_def table_ok_def)
    have j: "?j < 1024" by (rule ptable_index_less)
    have "entry_ok (t ! ?j)" using t(2,3) j by simp
    then have "entry_used (t ! ?j) \<longleftrightarrow> entry_present (t ! ?j)" by (auto simp: entry_ok_def)
    moreover have "read_entry st ?i ?j = Some (t ! ?j)"
      using read_table [OF ok True t(1)] t(2) j by simp
    ultimately show ?thesis unfolding translate_dir [OF ok]
      using True pu la rdd t j
      by (auto simp: k_mem_IsLinearAddressMapped_def tables_def Let_def rd_def)
  next
    case False
    then show ?thesis unfolding translate_dir [OF ok]
      using pu la rdd by (auto simp: k_mem_IsLinearAddressMapped_def tables_def Let_def)
  qed
qed

section \<open>An address space\<close>

text \<open>A directory that maps itself and one big page, and two free physical pages.\<close>

definition sample_pd :: "u32 list" where
  "sample_pd = (replicate 1024 0)[1 := 0x400283, 1023 := 0x2203]"

definition sample_pt :: "u32 list" where
  "sample_pt = (replicate 1024 0)[1022 := 0x2203, 1023 := 0x1203]"

definition sample_mmu :: mmu where
  "sample_mmu = \<lparr>cr3 = 0x1000,
     frames = [0x1000 \<mapsto> sample_pd, 0x2000 \<mapsto> sample_pt,
       0x100000 \<mapsto> replicate 1024 0, 0x102000 \<mapsto> replicate 1024 0],
     phys = [sample_range]\<rparr>"

lemma sample_pd_nth [simp]:
  "i < 1024 \<Longrightarrow> sample_pd ! i = (if i = 1 then 0x400283 else if i = 1023 then 0x2203 else 0)"
  by (simp add: sample_pd_def nth_list_update)

lemma sample_lengths [simp]: "length sample_pd = 1024" "length sample_pt = 1024"
  by (simp_all add: sample_pd_def sample_pt_def)

lemma sample_free: "free_set [sample_range] = {0x100000, 0x102000}"
  by (simp add: free_set_def free_stack_def sample_range_def)

lemma sample_mmu_ok: "pmap_ok sample_mmu sample_pd sample_pt"
proof -
  have a: "entry_addr 0x2203 = 0x2000" "entry_addr 0x1203 = 0x1000"
    by (simp_all add: entry_addr_div)
  have b: "entry_present 0x2203" "entry_present 0x1203" "entry_big 0x400283" "entry_ok 0x400283"
    by (simp_all add: entry_bits entry_ok_def)
  have t: "tables sample_pd = {}" using b by (auto simp: tables_def)
  have p: "sample_pt ! 1023 = 0x1203" "sample_pt ! 1022 = 0x2203" by (simp_all add: sample_pt_def)
  have "fresh_page sample_mmu sample_pd q" if "q \<in> {0x100000, 0x102000}" for q
    using that a t by (auto simp: fresh_page_def sample_mmu_def)
  moreover have "\<forall>i < 1022. entry_ok (sample_pd ! i)" using b by auto
  ultimately show ?thesis
    using a b t p sample_range_ok sample_free
    by (simp add: pmap_ok_def sample_mmu_def)
qed


theorem k_mem_UnmapLinearAddress_translate_witness:
  "\<exists>st' pd'. k_mem_UnmapLinearAddress sample_mmu 0x400000 = Some (K_STATUS_OK, st') \<and>
    pmap_ok st' pd' sample_pt \<and> translate st' 0x400123 = None"
proof -
  have b: "entry_present 0x400283" "entry_big 0x400283" by (simp_all add: entry_bits)
  have i: "K_MEM_PDIR_INDEX 0x400000 = 1" "K_MEM_PDIR_INDEX 0x400123 = 1"
    by (simp_all add: K_MEM_PDIR_INDEX_def)
  have t: "translate sample_mmu 0x400000 \<noteq> None"
    unfolding translate_dir [OF sample_mmu_ok] using b by (simp add: i Let_def)
  have s: "same_entry sample_pd 0x400000 0x400123" using b i by (simp add: same_entry_def)
  show ?thesis
    using k_mem_UnmapLinearAddress_translate [OF sample_mmu_ok, where la = "0x400000"] t i s
    by (fastforce simp: forbidden_def)
qed

end
