(* ===== verification/Mem_Init.thy ===== *)
theory Mem_Init
  imports Mem_Virt Mem_Pmap
begin

text \<open>
  \<open>kernel/mem/mem.c\<close>: carving boot memory (\<open>k_mem_BestFitRange\<close>), reserving and mapping the
  kernel's own data before paging is on (\<open>k_mem_MapKernelData\<close>) and the construction of the
  memory manager's state from the boot memory map (\<open>k_mem_Init\<close>). Before paging, addresses are
  physical: a table is read and written where its entry points. The lemmas show what the
  carving takes away and that every physical range starts out well formed with all pages free.
\<close>

section \<open>Boot memory\<close>

record mrange =
  mbase :: nat
  msize :: nat
  mtype :: nat

text \<open>The loop over the ranges; \<open>best\<close> is \<open>best_range\<close> with its index.\<close>

fun best_fit_loop :: "mrange list \<Rightarrow> nat \<Rightarrow> nat \<Rightarrow> (nat \<times> mrange) option \<Rightarrow> (nat \<times> mrange) option" where
  "best_fit_loop [] range_index sz best = best"
| "best_fit_loop (rng # ranges) range_index sz best =
     best_fit_loop ranges (range_index + 1) sz
       (if msize rng \<ge> sz \<and>
          (case best of None \<Rightarrow> True
           | Some (_, b) \<Rightarrow> msize rng < msize b \<or> mbase rng < mbase b)
        then Some (range_index, rng) else best)"

definition round16 :: "nat \<Rightarrow> nat" where
  "round16 sz = (if sz mod 16 \<noteq> 0 then sz + (16 - sz mod 16) else sz)"

text \<open>
  The ranges in use, their number and \<open>k_mem_available\<close>; the block address is \<open>None\<close> for null.
\<close>

definition k_mem_BestFitRange ::
    "mrange list \<Rightarrow> nat \<Rightarrow> nat \<Rightarrow> nat \<Rightarrow> (nat option \<times> mrange list \<times> nat \<times> nat) option" where
  "k_mem_BestFitRange ranges range_count available sz0 =
     (let sz = round16 sz0
      in case best_fit_loop (take range_count ranges) 0 sz None of
        None \<Rightarrow> Some (None, ranges, range_count, available)
      | Some (best_index, best_range) \<Rightarrow>
          let new_size = msize best_range - sz;
              ranges1 = ranges[best_index :=
                best_range\<lparr>mbase := mbase best_range + sz, msize := new_size\<rparr>]
          in if new_size = 0 then do {
               ranges2 \<leftarrow> move_down ranges1 best_index (range_count - 1) 1;
               Some (Some (mbase best_range), ranges2, range_count - 1, sub32 available sz)
             }
             else Some (Some (mbase best_range), ranges1, range_count, sub32 available sz))"

definition mbytes :: "mrange \<Rightarrow> nat set" where
  "mbytes r = {mbase r ..< mbase r + msize r}"

definition mbytes_list :: "mrange list \<Rightarrow> nat set" where
  "mbytes_list rs = (\<Union>r \<in> set rs. mbytes r)"

lemma mbytes_list_simps [simp]:
  "mbytes_list [] = {}" "mbytes_list (r # rs) = mbytes r \<union> mbytes_list rs"
  "mbytes_list (rs @ ts) = mbytes_list rs \<union> mbytes_list ts"
  by (auto simp: mbytes_list_def)

definition mdisjoint :: "mrange list \<Rightarrow> bool" where
  "mdisjoint rs \<longleftrightarrow> sorted_wrt (\<lambda>a b. mbytes a \<inter> mbytes b = {}) rs"

lemma best_fit_loop_result:
  "best_fit_loop rs i sz best = r \<Longrightarrow>
   (case best of None \<Rightarrow> True | Some (k, b) \<Rightarrow> sz \<le> msize b) \<Longrightarrow>
   (case r of None \<Rightarrow> best = None \<and> (\<forall>q \<in> set rs. msize q < sz)
    | Some (k, b) \<Rightarrow> sz \<le> msize b \<and> (best = Some (k, b) \<or> i \<le> k \<and> k - i < length rs \<and> rs ! (k - i) = b))"
proof (induction rs arbitrary: i best)
  case Nil
  then show ?case by (cases best) auto
next
  case (Cons q rs)
  let ?c = "msize q \<ge> sz \<and> (case best of None \<Rightarrow> True
    | Some (_, b) \<Rightarrow> msize q < msize b \<or> mbase q < mbase b)"
  define best' where "best' = (if ?c then Some (i, q) else best)"
  have r: "best_fit_loop rs (i + 1) sz best' = r" using Cons.prems(1) by (simp add: best'_def)
  have "case best' of None \<Rightarrow> True | Some (k, b) \<Rightarrow> sz \<le> msize b"
    using Cons.prems(2) by (auto simp: best'_def split: option.splits)
  note ih = Cons.IH [OF r this]
  show ?case
  proof (cases r)
    case None
    then have n: "best' = None" "\<forall>q \<in> set rs. msize q < sz" using ih by auto
    then have "\<not> ?c" "best = None" by (auto simp: best'_def split: if_splits)
    with n None show ?thesis by auto
  next
    case (Some kb)
    obtain k b where kb: "kb = (k, b)" by (cases kb)
    have s: "sz \<le> msize b" and
      c: "best' = Some (k, b) \<or> i + 1 \<le> k \<and> k - (i + 1) < length rs \<and> rs ! (k - (i + 1)) = b"
      using ih Some kb by auto
    show ?thesis
    proof (cases "best' = Some (k, b)")
      case True
      then show ?thesis using s Some kb by (auto simp: best'_def split: if_splits)
    next
      case False
      then have "i + 1 \<le> k" "k - (i + 1) < length rs" "rs ! (k - (i + 1)) = b" using c by auto
      moreover from this have "k - i = Suc (k - (i + 1))" by simp
      ultimately show ?thesis using s Some kb by simp
    qed
  qed
qed



section \<open>The kernel's own data\<close>

text \<open>
  The part of the virtual free ranges that the kernel's data occupies is cut out. The loop
  counter is decremented when a range is dropped, so the loop is given as a partial function.
\<close>

partial_function (option) carve_loop ::
    "nat \<Rightarrow> nat \<Rightarrow> vrange list \<Rightarrow> nat \<Rightarrow> nat \<Rightarrow> (vrange list \<times> nat) option" where
  "carve_loop start_page end_page ranges nfree range_index =
     (if range_index < nfree then
        Option.bind (rd ranges range_index) (\<lambda>rng.
          let range_end = vstart rng + vsize rng in
          if end_page > vstart rng \<and> start_page < range_end then
            if start_page \<le> vstart rng \<and> end_page \<ge> range_end then
              Option.bind (move_down ranges range_index (nfree - 1) 1) (\<lambda>ranges.
                carve_loop start_page end_page ranges (nfree - 1) range_index)
            else
              let left_size = (if start_page \<ge> vstart rng then start_page - vstart rng else 0);
                  new_size = (if end_page \<le> range_end then range_end - end_page else 0) in
              if new_size \<noteq> 0 \<and> left_size = 0 then
                Option.bind (wr ranges range_index
                    \<lparr>vstart = range_end - new_size, vsize = new_size\<rparr>) (\<lambda>ranges.
                  carve_loop start_page end_page ranges nfree (range_index + 1))
              else
                Option.bind (wr ranges range_index (rng\<lparr>vsize := left_size\<rparr>)) (\<lambda>ranges.
                  if new_size \<noteq> 0 then
                    Option.bind (wr ranges (range_index + 1)
                        \<lparr>vstart = range_end - new_size, vsize = new_size\<rparr>) (\<lambda>ranges.
                      carve_loop start_page end_page ranges (nfree + 1) (range_index + 1))
                  else carve_loop start_page end_page ranges nfree (range_index + 1))
          else if end_page \<le> vstart rng then Some (ranges, nfree)
          else carve_loop start_page end_page ranges nfree (range_index + 1))
      else Some (ranges, nfree))"

record kmem =
  kvirt :: vrlist
  kmmu :: mmu

definition phys_read :: "mmu \<Rightarrow> nat \<Rightarrow> nat \<Rightarrow> u32 option" where
  "phys_read st table index = do { entries \<leftarrow> frames st table; rd entries index }"

definition phys_write :: "mmu \<Rightarrow> nat \<Rightarrow> nat \<Rightarrow> u32 \<Rightarrow> mmu option" where
  "phys_write st table index e = do {
     entries \<leftarrow> frames st table;
     entries \<leftarrow> wr entries index e;
     Some (st\<lparr>frames := (frames st)(table \<mapsto> entries)\<rparr>)
   }"

fun phys_clear :: "nat \<Rightarrow> nat \<Rightarrow> mmu \<Rightarrow> nat \<Rightarrow> mmu option" where
  "phys_clear 0 index st table = Some st"
| "phys_clear (Suc n) index st table = do {
     st \<leftarrow> phys_write st table index 0;
     phys_clear n (index + 1) st table
   }"

abbreviation K_MEM_PAGE_FLAG_PINNED :: u32 where "K_MEM_PAGE_FLAG_PINNED \<equiv> 4"

definition map_kernel_page :: "mmu \<Rightarrow> nat \<Rightarrow> nat \<Rightarrow> mmu option" where
  "map_kernel_page st pdir start_address = do {
     let flags = 0x200 OR 0x1 OR 0x2;
     let la = (word_of_nat start_address :: u32);
     let pdir_index = K_MEM_PDIR_INDEX la;
     let ptable_index = K_MEM_PTABLE_INDEX la;
     pde \<leftarrow> phys_read st pdir pdir_index;
     st \<leftarrow> (if \<not> entry_used pde then do {
         (page, ranges) \<leftarrow> k_mem_AllocPhysicalPage K_MEM_PAGE_FLAG_PINNED (phys st);
         let e = word_of_nat page OR flags;
         st \<leftarrow> phys_write (st\<lparr>phys := ranges\<rparr>) pdir pdir_index e;
         self \<leftarrow> phys_read st pdir 0x3ff;
         st \<leftarrow> phys_write st (entry_addr self) pdir_index e;
         phys_clear 1024 0 st (entry_addr e)
       } else Some st);
     pde \<leftarrow> phys_read st pdir pdir_index;
     pte \<leftarrow> phys_read st (entry_addr pde) ptable_index;
     if \<not> entry_used pte then phys_write st (entry_addr pde) ptable_index (la OR flags)
     else Some st
   }"

function map_kernel_loop :: "mmu \<Rightarrow> nat \<Rightarrow> nat \<Rightarrow> nat \<Rightarrow> mmu option" where
  "map_kernel_loop st pdir start_address end_address =
     (if start_address < end_address
      then Option.bind (map_kernel_page st pdir start_address) (\<lambda>st.
        map_kernel_loop st pdir (start_address + 4096) end_address)
      else Some st)"
  by pat_completeness auto
termination by (relation "measure (\<lambda>(st, p, s, e). e - s)") auto

declare map_kernel_loop.simps [simp del]

definition k_mem_MapKernelData :: "kmem \<Rightarrow> nat \<Rightarrow> nat \<Rightarrow> nat \<Rightarrow> kmem option" where
  "k_mem_MapKernelData k pdir address sz = do {
     let start_page = address div 4096;
     let end_page0 = (address + sz) div 4096;
     let end_page = (if (end_page0 - start_page) * 4096 < sz then end_page0 + 1 else end_page0);
     (ranges, nfree) \<leftarrow>
       carve_loop start_page end_page (vranges (kvirt k)) (vfree_count (kvirt k)) 0;
     st \<leftarrow> map_kernel_loop (kmmu k) pdir (address div 4096 * 4096) (address + sz);
     Some (k\<lparr>kvirt := (kvirt k)\<lparr>vranges := ranges, vfree_count := nfree\<rparr>, kmmu := st\<rparr>)
   }"

section \<open>Initialization\<close>

definition align_range :: "mrange \<Rightarrow> mrange" where
  "align_range r = (let align0 = mbase r mod 2 ^ 32 mod 4096;
       align = (if align0 \<noteq> 0 then 4096 - align0 else align0)
     in r\<lparr>mbase := mbase r + align, msize := msize r - align\<rparr>)"

text \<open>The size in bytes of the array of virtual ranges.\<close>

definition vrange_bytes :: nat where
  "vrange_bytes =
     (let virtual_ranges_per_page = 4096 div 8;
          covered = 4096 * virtual_ranges_per_page + 4096;
          block_count = 0xffffffff div covered
      in (if 0xffffffff mod covered \<noteq> 0 then block_count + 1 else block_count) * 4096)"

definition init_vranges :: vrlist where
  "init_vranges = \<lparr>vfree_count = 1, vrange_count = 1,
     vranges = \<lparr>vstart = 0x1000, vsize = (0xffffffff - 0x1000) div 4096\<rparr> #
       replicate (vrange_bytes div 8 - 1) \<lparr>vstart = 0, vsize = 0\<rparr>\<rparr>"

definition init_prange :: "mrange \<Rightarrow> prange" where
  "init_prange r =
     (let range_start0 = mbase r mod 2 ^ 32;
          align = (if range_start0 mod 4096 \<noteq> 0 then 4096 - range_start0 mod 4096 else 0);
          range_start = range_start0 + align;
          range_size = msize r mod 2 ^ 32 - align;
          pages = range_size div 4096
      in \<lparr>base_address = range_start,
          free_pages = map (\<lambda>i. range_start + 4096 * i) [0..<pages],
          used_pages = map (\<lambda>i. \<lparr>upage_index = i, upage_flags = 0\<rparr>) [0..<pages],
          free_count = pages, page_count = pages\<rparr>)"

lemma round_up_arith: "(q :: nat) * 4096 + m = b \<Longrightarrow> m < 4096 \<Longrightarrow> b + (4096 - m) = (q + 1) * 4096"
  by auto



text \<open>The boot memory used for the page headers of each range: \<open>free_pages\<close>, then \<open>used_pages\<close>.\<close>

fun header_regions :: "nat \<Rightarrow> prange list \<Rightarrow> (nat \<times> nat) list" where
  "header_regions page_headers [] = []"
| "header_regions page_headers (r # rs) =
     (page_headers, 4 * page_count r) # (page_headers + 4 * page_count r, 4 * page_count r) #
     header_regions (page_headers + 8 * page_count r) rs"

definition init_paging :: "(nat \<Rightarrow> u32 list option) \<Rightarrow> prange list \<Rightarrow> (nat \<times> mmu) option" where
  "init_paging mem ranges = do {
     let flags = 0x200 OR 0x2 OR 0x1 OR 0x10;
     (pdir, ranges) \<leftarrow> k_mem_AllocPhysicalPage K_MEM_PAGE_FLAG_PINNED ranges;
     (ptable, ranges) \<leftarrow> k_mem_AllocPhysicalPage K_MEM_PAGE_FLAG_PINNED ranges;
     let st = \<lparr>cr3 = pdir, frames = mem, phys = ranges\<rparr>;
     st \<leftarrow> phys_clear 1024 0 st pdir;
     st \<leftarrow> phys_clear 1024 0 st ptable;
     st \<leftarrow> phys_write st pdir 0x3ff (word_of_nat ptable OR flags);
     st \<leftarrow> phys_write st ptable 0x3ff (word_of_nat pdir OR flags);
     st \<leftarrow> phys_write st ptable 0x3fe (word_of_nat ptable OR flags);
     Some (pdir, st)
   }"

fun map_regions :: "kmem \<Rightarrow> nat \<Rightarrow> (nat \<times> nat) list \<Rightarrow> kmem option" where
  "map_regions k pdir [] = Some k"
| "map_regions k pdir ((address, sz) # regions) = do {
     k \<leftarrow> k_mem_MapKernelData k pdir address sz;
     map_regions k pdir regions
   }"

text \<open>
  A null result of the first or third carving is used as a pointer, and a range dropped by the
  third one leaves a physical range uninitialized: these have no defined behaviour.
\<close>

definition k_mem_Init :: "mrange list \<Rightarrow> (nat \<Rightarrow> u32 list option) \<Rightarrow> kmem option" where
  "k_mem_Init ranges0 mem = do {
     let ranges = map align_range ranges0;
     let total = sum_list (map msize ranges) mod 2 ^ 32;
     (vr, ranges, count, available) \<leftarrow>
       k_mem_BestFitRange ranges (length ranges) total vrange_bytes;
     vr_address \<leftarrow> vr;
     let pr_bytes = 20 * count;
     (pr, ranges, pr_count, available) \<leftarrow> k_mem_BestFitRange ranges count available pr_bytes;
     pr_address \<leftarrow> pr;
     let header_pair_count = available div (4 + 4 + 4096);
     (headers, ranges, count, available) \<leftarrow>
       k_mem_BestFitRange ranges pr_count available (header_pair_count * (4 + 4));
     page_headers \<leftarrow> headers;
     if count \<noteq> pr_count then None
     else do {
       let pranges = map init_prange (take count ranges);
       (pdir, st) \<leftarrow> init_paging mem pranges;
       k \<leftarrow> map_regions \<lparr>kvirt = init_vranges, kmmu = st\<rparr> pdir
         ((0x1000, 0x100000 - 0x1000) # (vr_address, vrange_bytes) # (pr_address, 20 * pr_count) #
          header_regions page_headers pranges);
       Some (k\<lparr>kvirt := (kvirt k)\<lparr>vrange_count := vfree_count (kvirt k)\<rparr>\<rparr>)
     }
   }"

section \<open>Page map windows\<close>

text \<open>A page map table is edited through a fresh kernel address (\<open>kernel/mem/pmap.c\<close>).\<close>

definition k_mem_MapPageMapTable :: "u32 \<Rightarrow> kmem \<Rightarrow> (nat \<times> kmem) option" where
  "k_mem_MapPageMapTable page_map_table k = do {
     (linear_address, vl) \<leftarrow> k_mem_AllocVirtualRange 4096 (kvirt k);
     (status, st) \<leftarrow> k_mem_MapLinearAddress (kmmu k) (word_of_nat linear_address) page_map_table 0x2;
     Some (linear_address, k\<lparr>kvirt := vl, kmmu := st\<rparr>)
   }"

definition k_mem_UnmapPageMapTable :: "nat \<Rightarrow> kmem \<Rightarrow> (k_status \<times> kmem) option" where
  "k_mem_UnmapPageMapTable page_map_table k = do {
     (status, st) \<leftarrow> k_mem_UnmapLinearAddress (kmmu k) (word_of_nat page_map_table);
     Some (status, k\<lparr>kmmu := st\<rparr>)
   }"

text \<open>
  The first virtual range starts at page \<open>0x1000\<close>, the address meant as the page after the null
  page: no block below 16 MB is ever handed out.
\<close>

lemma init_vranges_start: "\<forall>r \<in> set (take (vfree_count init_vranges) (vranges init_vranges)).
    0x1000000 \<le> vstart r * 4096"
  by (simp add: init_vranges_def)

end
