(* ===== verification/Rt_Alloc.thy ===== *)
theory Rt_Alloc
  imports Mem_Init
begin

text \<open>
  The kernel heap, \<open>kernel/rt/alloc.c\<close>. Requests above 2048 bytes get whole pages
  (\<open>k_rt_BigAlloc\<close>); smaller ones a chunk from one of nine size buckets, which are linked lists
  of free chunks threaded through the chunks. \<open>k_rt_InitChunkPage\<close> carves a page into chunks of
  its main bucket and one chunk for each smaller bucket; \<open>k_rt_SmallFree\<close> finds the bucket of a
  chunk from its offset in the page alone. The lemmas show that the two agree: the chunks of a
  page are disjoint, cover it, and go back to the bucket they were carved for.
\<close>

section \<open>State\<close>

record sheap =
  hk :: kmem
  hfirst :: "nat \<Rightarrow> nat option"
  hlast :: "nat \<Rightarrow> nat option"
  hnext :: "nat \<Rightarrow> nat option"
  hprev :: "nat \<Rightarrow> nat option"
  hmain :: "nat \<Rightarrow> nat option"

definition k_rt_small_bucket_sizes :: "nat list" where
  "k_rt_small_bucket_sizes = [8, 16, 32, 64, 128, 256, 512, 1024, 2048]"

section \<open>Page allocation\<close>

definition k_rt_BigBucketIndexFromSize :: "nat \<Rightarrow> nat" where
  "k_rt_BigBucketIndexFromSize sz =
     (if sz = 1 then 0
      else let sz = sz div 2 ^ 10 + 1 in if sz \<ge> 1024 then 1024 - 1 else sz)"

fun big_alloc_loop :: "nat \<Rightarrow> nat \<Rightarrow> mmu \<Rightarrow> (bool \<times> mmu) option" where
  "big_alloc_loop 0 virtual_page st = Some (True, st)"
| "big_alloc_loop (Suc n) virtual_page st = do {
     (page_address, ranges) \<leftarrow> k_mem_AllocPhysicalPage 0 (phys st);
     (status, st) \<leftarrow> k_mem_MapLinearAddress (st\<lparr>phys := ranges\<rparr>) (word_of_nat virtual_page)
       (word_of_nat page_address) (0x2 OR 0x4);
     if status = K_STATUS_OUT_OF_PHYSICAL_MEM then Some (False, st)
     else big_alloc_loop n (virtual_page + 0x1000) st
   }"

definition k_rt_BigAlloc :: "nat \<Rightarrow> kmem \<Rightarrow> (nat \<times> kmem) option" where
  "k_rt_BigAlloc sz k =
     (if sz \<noteq> 0 then do {
        (virtual_alloc, vl) \<leftarrow> k_mem_AllocVirtualRange sz (kvirt k);
        (ok, st) \<leftarrow> big_alloc_loop (pages_of_size sz) virtual_alloc (kmmu k);
        Some (if ok then virtual_alloc else 0, k\<lparr>kvirt := vl, kmmu := st\<rparr>)
      } else Some (0, k))"

definition k_rt_BigFree :: "nat \<Rightarrow> kmem \<Rightarrow> kmem option" where
  "k_rt_BigFree memory k =
     (if memory \<noteq> 0 then do {
        physical_page \<leftarrow> k_mem_LinearAddressPhysicalPage (kmmu k) (word_of_nat memory);
        (status, st) \<leftarrow> k_mem_UnmapLinearAddress (kmmu k) (word_of_nat memory);
        vl \<leftarrow> k_mem_FreeVirtualRange memory (kvirt k);
        ranges \<leftarrow> k_mem_FreePhysicalPages physical_page (phys st);
        Some (k\<lparr>kvirt := vl, kmmu := st\<lparr>phys := ranges\<rparr>\<rparr>)
      } else Some k)"

section \<open>Small chunks\<close>

fun small_bucket_loop :: "nat list \<Rightarrow> nat \<Rightarrow> nat \<Rightarrow> nat" where
  "small_bucket_loop [] bucket_index sz = 0xffffffff"
| "small_bucket_loop (s # sizes) bucket_index sz =
     (if sz \<le> s then bucket_index else small_bucket_loop sizes (bucket_index + 1) sz)"

definition k_rt_SmallBucketIndexFromSize :: "nat \<Rightarrow> nat" where
  "k_rt_SmallBucketIndexFromSize sz = small_bucket_loop k_rt_small_bucket_sizes 0 sz"

text \<open>
  The slots at which the chunks of a page start: those of the main bucket, in the order the
  loop visits them, and one for each smaller bucket.
\<close>

fun carve_main :: "nat \<Rightarrow> nat \<Rightarrow> nat \<Rightarrow> nat list \<times> nat" where
  "carve_main slots_per_chunk 0 cur_offset = ([], cur_offset)"
| "carve_main slots_per_chunk (Suc n) cur_offset =
     (let cur_offset = cur_offset - slots_per_chunk;
          (offsets, rest) = carve_main slots_per_chunk n cur_offset
      in (cur_offset # offsets, rest))"

fun carve_rest :: "nat \<Rightarrow> nat \<Rightarrow> nat \<Rightarrow> (nat \<times> nat) list option" where
  "carve_rest slots_per_chunk cur_offset 0 = (if cur_offset = 0 then Some [] else None)"
| "carve_rest slots_per_chunk cur_offset (Suc bucket_index) =
     (if cur_offset = 0 then Some []
      else let slots = slots_per_chunk div 2; cur_offset = cur_offset - slots
        in do {
          chunks \<leftarrow> carve_rest slots cur_offset bucket_index;
          Some ((bucket_index, cur_offset) # chunks)
        })"

text \<open>The address of the chunk at a slot; the header of the page has 8 bytes.\<close>

definition chunk_addr :: "nat \<Rightarrow> nat \<Rightarrow> nat" where
  "chunk_addr page slot = page + 8 + 8 * slot"

fun link_chunks :: "sheap \<Rightarrow> nat list \<Rightarrow> nat option \<Rightarrow> sheap \<times> nat option" where
  "link_chunks h [] next_chunk = (h, next_chunk)"
| "link_chunks h (chunk # chunks) next_chunk =
     link_chunks (h\<lparr>hnext := (hnext h)(chunk := next_chunk),
       hprev := (case next_chunk of None \<Rightarrow> hprev h | Some n \<Rightarrow> (hprev h)(n := Some chunk))\<rparr>)
       chunks (Some chunk)"

definition append_chunks :: "sheap \<Rightarrow> nat \<Rightarrow> nat option \<Rightarrow> nat option \<Rightarrow> sheap option" where
  "append_chunks h bucket first last_chunk =
     (case hlast h bucket of
        Some l \<Rightarrow> do {
          f \<leftarrow> first;
          Some (h\<lparr>hnext := (hnext h)(l := first), hprev := (hprev h)(f := Some l),
            hlast := (hlast h)(bucket := last_chunk)\<rparr>)
        }
      | None \<Rightarrow> Some (h\<lparr>hfirst := (hfirst h)(bucket := first),
          hlast := (hlast h)(bucket := last_chunk)\<rparr>))"

fun append_rest :: "sheap \<Rightarrow> nat \<Rightarrow> (nat \<times> nat) list \<Rightarrow> sheap option" where
  "append_rest h page [] = Some h"
| "append_rest h page ((bucket, slot) # chunks) = do {
     let chunk = chunk_addr page slot;
     h \<leftarrow> append_chunks (h\<lparr>hnext := (hnext h)(chunk := None)\<rparr>) bucket (Some chunk) (Some chunk);
     append_rest h page chunks
   }"

text \<open>What \<open>k_rt_InitChunkPage\<close> does with a page.\<close>

definition init_chunk_page_at :: "nat \<Rightarrow> nat \<Rightarrow> sheap \<Rightarrow> sheap option" where
  "init_chunk_page_at bucket_index page h = do {
     chunk_size \<leftarrow> rd k_rt_small_bucket_sizes bucket_index;
     let slots_per_chunk = chunk_size div 8;
     let chunk_count = 4088 div chunk_size;
     let (offsets, cur_offset) = carve_main slots_per_chunk chunk_count 511;
     let chunks = map (chunk_addr page) offsets;
     let (h, next_chunk) =
       link_chunks (h\<lparr>hmain := (hmain h)(page := Some bucket_index)\<rparr>) chunks None;
     h \<leftarrow> append_chunks h bucket_index next_chunk
       (case chunks of [] \<Rightarrow> None | c # _ \<Rightarrow> Some c);
     rest \<leftarrow> carve_rest slots_per_chunk cur_offset bucket_index;
     append_rest h page rest
   }"

definition k_rt_InitChunkPage :: "nat \<Rightarrow> sheap \<Rightarrow> sheap option" where
  "k_rt_InitChunkPage bucket_index h = do {
     (page, k) \<leftarrow> k_rt_BigAlloc 4096 (hk h);
     if page = 0 then None else init_chunk_page_at bucket_index page (h\<lparr>hk := k\<rparr>)
   }"

definition take_chunk :: "nat \<Rightarrow> sheap \<Rightarrow> (nat \<times> sheap) option" where
  "take_chunk bucket_index h = do {
     chunk \<leftarrow> hfirst h bucket_index;
     let rest = hnext h chunk;
     let h = h\<lparr>hfirst := (hfirst h)(bucket_index := rest)\<rparr>;
     Some (chunk, case rest of
         Some c \<Rightarrow> h\<lparr>hprev := (hprev h)(c := None)\<rparr>
       | None \<Rightarrow> h\<lparr>hlast := (hlast h)(bucket_index := None)\<rparr>)
   }"

definition k_rt_SmallAlloc :: "nat \<Rightarrow> sheap \<Rightarrow> (nat \<times> sheap) option" where
  "k_rt_SmallAlloc sz h =
     (let bucket_index = k_rt_SmallBucketIndexFromSize sz
      in if bucket_index \<noteq> 0xffffffff then do {
           h \<leftarrow> (if hfirst h bucket_index = None then k_rt_InitChunkPage bucket_index h else Some h);
           take_chunk bucket_index h
         }
         else Some (0, h))"

definition k_rt_SmallFree :: "nat \<Rightarrow> sheap \<Rightarrow> sheap option" where
  "k_rt_SmallFree memory h = do {
     let page = memory div 4096 * 4096;
     let index = k_rt_SmallBucketIndexFromSize (memory - page);
     main_bucket \<leftarrow> hmain h page;
     let bucket = (if index > main_bucket then main_bucket else index);
     let nxt = hfirst h bucket;
     let h = h\<lparr>hnext := (hnext h)(memory := nxt), hprev := (hprev h)(memory := None),
       hfirst := (hfirst h)(bucket := Some memory)\<rparr>;
     Some (case nxt of
         Some n \<Rightarrow> h\<lparr>hprev := (hprev h)(n := Some memory)\<rparr>
       | None \<Rightarrow> h\<lparr>hlast := (hlast h)(bucket := Some memory)\<rparr>)
   }"

definition k_rt_Malloc :: "nat \<Rightarrow> sheap \<Rightarrow> (nat \<times> sheap) option" where
  "k_rt_Malloc sz h =
     (if sz \<noteq> 0 then
        (if sz > 2048 then do {
           (memory, k) \<leftarrow> k_rt_BigAlloc sz (hk h);
           Some (memory, h\<lparr>hk := k\<rparr>)
         }
         else k_rt_SmallAlloc sz h)
      else Some (0, h))"

definition k_rt_Free :: "nat \<Rightarrow> sheap \<Rightarrow> sheap option" where
  "k_rt_Free memory h =
     (if memory mod 4096 \<noteq> 0 then k_rt_SmallFree memory h
      else do { k \<leftarrow> k_rt_BigFree memory (hk h); Some (h\<lparr>hk := k\<rparr>) })"

section \<open>The free lists\<close>

text \<open>The bucket \<open>k_rt_SmallFree\<close> puts a chunk into.\<close>

definition home :: "sheap \<Rightarrow> nat \<Rightarrow> nat option" where
  "home h a = (case hmain h (a div 4096 * 4096) of None \<Rightarrow> None
     | Some m \<Rightarrow> if a mod 4096 = 0 then None else Some (min m (k_rt_SmallBucketIndexFromSize (a mod 4096))))"

definition lists_disjoint :: "(nat \<Rightarrow> nat list) \<Rightarrow> bool" where
  "lists_disjoint L \<longleftrightarrow> (\<forall>b < 9. \<forall>c < 9. b \<noteq> c \<longrightarrow> set (L b) \<inter> set (L c) = {})"

lemma lists_disjoint_upd:
  "lists_disjoint L \<Longrightarrow> (\<And>c. c < 9 \<Longrightarrow> c \<noteq> b \<Longrightarrow> set xs \<inter> set (L c) = {}) \<Longrightarrow>
   lists_disjoint (L(b := xs))"
  by (simp add: lists_disjoint_def) blast

definition lists_rep :: "sheap \<Rightarrow> (nat \<Rightarrow> nat list) \<Rightarrow> bool" where
  "lists_rep h L \<longleftrightarrow>
     (\<forall>b < 9. chain (hnext h) (hfirst h b) (L b) \<and>
       hlast h b = (if L b = [] then None else Some (last (L b)))) \<and>
     lists_disjoint L"

text \<open>The heap holds the chunk lists \<open>L\<close>, one per bucket, each chunk in its own bucket.\<close>

definition heap_rep :: "sheap \<Rightarrow> (nat \<Rightarrow> nat list) \<Rightarrow> bool" where
  "heap_rep h L \<longleftrightarrow> lists_rep h L \<and> (\<forall>b < 9. \<forall>a \<in> set (L b). home h a = Some b)"

lemma heap_rep_not_elsewhere:
  "heap_rep h L \<Longrightarrow> home h a = Some b \<Longrightarrow> a \<notin> set (L b) \<Longrightarrow> c < 9 \<Longrightarrow> a \<notin> set (L c)"
  by (auto simp: heap_rep_def)

lemma take_chunk_rep:
  assumes r: "heap_rep h L" and b: "b < 9" "L b = a # as"
  shows "\<exists>h'. take_chunk b h = Some (a, h') \<and> heap_rep h' (L(b := as)) \<and> hmain h' = hmain h"
proof -
  have c: "hfirst h b = Some a" "chain (hnext h) (hnext h a) as" "hlast h b = Some (last (a # as))"
    using r b by (auto simp: heap_rep_def lists_rep_def)
  have n: "hnext h a = (if as = [] then None else Some (hd as))" using chain_hd [OF c(2)] .
  let ?h = "h\<lparr>hfirst := (hfirst h)(b := hnext h a)\<rparr>"
  define h' where "h' = (case hnext h a of
      Some c \<Rightarrow> ?h\<lparr>hprev := (hprev ?h)(c := None)\<rparr> | None \<Rightarrow> ?h\<lparr>hlast := (hlast ?h)(b := None)\<rparr>)"
  have run: "take_chunk b h = Some (a, h')" using c(1) by (simp add: take_chunk_def Let_def h'_def)
  have f: "hnext h' = hnext h" "hfirst h' = (hfirst h)(b := hnext h a)" "hmain h' = hmain h"
    "hlast h' = (if as = [] then (hlast h)(b := None) else hlast h)"
    using n by (auto simp: h'_def)
  have "set as \<inter> set (L c) = {}" if "c < 9" "c \<noteq> b" for c
  proof -
    have "set (L b) \<inter> set (L c) = {}"
      using r b(1) that unfolding heap_rep_def lists_rep_def lists_disjoint_def by metis
    then show ?thesis using b(2) by auto
  qed
  then have "lists_disjoint (L(b := as))"
    using r by (intro lists_disjoint_upd) (auto simp: heap_rep_def lists_rep_def)
  then have "lists_rep h' (L(b := as))"
    using r b c by (auto simp: heap_rep_def lists_rep_def f)
  then have "heap_rep h' (L(b := as))"
    using r b by (auto simp: heap_rep_def home_def f)
  with run f show ?thesis by blast
qed

lemma k_rt_SmallFree_rep:
  assumes r: "heap_rep h L" and a: "home h a = Some b" "b < 9" "a \<notin> set (L b)"
  shows "\<exists>h'. k_rt_SmallFree a h = Some h' \<and> heap_rep h' (L(b := a # L b)) \<and> hmain h' = hmain h"
proof -
  have notin: "a \<notin> set (L c)" if "c < 9" for c using heap_rep_not_elsewhere [OF r a(1,3) that] .
  obtain m where m: "hmain h (a div 4096 * 4096) = Some m" "a mod 4096 \<noteq> 0"
    "b = min m (k_rt_SmallBucketIndexFromSize (a mod 4096))"
    using a(1) by (auto simp: home_def split: option.splits if_splits)
  have "a - a div 4096 * 4096 = a mod 4096" by (simp add: minus_div_mult_eq_mod)
  then have bk: "(if k_rt_SmallBucketIndexFromSize (a - a div 4096 * 4096) > m then m
      else k_rt_SmallBucketIndexFromSize (a - a div 4096 * 4096)) = b"
    using m(3) by (simp add: min_def)
  have c: "chain (hnext h) (hfirst h b) (L b)" "hlast h b = (if L b = [] then None else Some (last (L b)))"
    using r a(2) by (auto simp: heap_rep_def lists_rep_def)
  let ?h = "h\<lparr>hnext := (hnext h)(a := hfirst h b), hprev := (hprev h)(a := None),
       hfirst := (hfirst h)(b := Some a)\<rparr>"
  define h' where "h' = (case hfirst h b of
         Some n \<Rightarrow> ?h\<lparr>hprev := (hprev ?h)(n := Some a)\<rparr>
       | None \<Rightarrow> ?h\<lparr>hlast := (hlast ?h)(b := Some a)\<rparr>)"
  have run: "k_rt_SmallFree a h = Some h'"
    unfolding k_rt_SmallFree_def Let_def m(1) bind.bind_lunit bk h'_def by simp
  have f: "hnext h' = (hnext h)(a := hfirst h b)" "hfirst h' = (hfirst h)(b := Some a)"
    "hlast h' = (if L b = [] then (hlast h)(b := Some a) else hlast h)" "hmain h' = hmain h"
    using chain_hd [OF c(1)] by (auto simp: h'_def)
  have "set (a # L b) \<inter> set (L c) = {}" if "c < 9" "c \<noteq> b" for c
  proof -
    have "set (L b) \<inter> set (L c) = {}"
      using r a(2) that unfolding heap_rep_def lists_rep_def lists_disjoint_def by metis
    then show ?thesis using notin [OF that(1)] by auto
  qed
  then have "lists_disjoint (L(b := a # L b))"
    using r by (intro lists_disjoint_upd) (auto simp: heap_rep_def lists_rep_def)
  then have "lists_rep h' (L(b := a # L b))"
    using r notin c by (auto simp: heap_rep_def lists_rep_def f)
  then have "heap_rep h' (L(b := a # L b))"
    using r a f(4) by (auto simp: heap_rep_def home_def)
  with run f show ?thesis by blast
qed

text \<open>
  C13: A small allocation from a bucket that has a free chunk, followed by the release of that
  chunk: the allocation takes the first chunk of the request's bucket, and the release finds
  the same bucket from the address alone and restores every free list exactly.
\<close>

theorem k_rt_Malloc_Free_roundtrip:
  assumes "heap_rep h L" "0 < sz" "sz \<le> 2048" "L (k_rt_SmallBucketIndexFromSize sz) = a # as"
  shows "\<exists>h1 h2. k_rt_Malloc sz h = Some (a, h1) \<and>
    heap_rep h1 (L(k_rt_SmallBucketIndexFromSize sz := as)) \<and>
    k_rt_Free a h1 = Some h2 \<and> heap_rep h2 L"
proof -
  let ?b = "k_rt_SmallBucketIndexFromSize sz"
  have b: "?b < 9" using assms(3)
    by (auto simp: k_rt_SmallBucketIndexFromSize_def k_rt_small_bucket_sizes_def)
  obtain h1 where h1: "take_chunk ?b h = Some (a, h1)" "heap_rep h1 (L(?b := as))" "hmain h1 = hmain h"
    using take_chunk_rep [OF assms(1) b assms(4)] by blast
  have first: "hfirst h ?b = Some a" using assms(1,4) b by (auto simp: heap_rep_def lists_rep_def)
  have m: "k_rt_Malloc sz h = Some (a, h1)"
    using assms(2,3) b first h1(1) by (simp add: k_rt_Malloc_def k_rt_SmallAlloc_def Let_def)
  have "home h a = Some ?b" using assms(1,4) b by (auto simp: heap_rep_def)
  then have hm: "home h1 a = Some ?b" using h1(3) by (simp add: home_def)
  have "distinct (a # as)" using assms(1,4) b chain_distinct by (fastforce simp: heap_rep_def lists_rep_def)
  then have "a \<notin> set ((L(?b := as)) ?b)" by simp
  moreover have eq: "(L(?b := as))(?b := a # (L(?b := as)) ?b) = L" using assms(4) by auto
  ultimately obtain h2 where h2: "k_rt_SmallFree a h1 = Some h2" "heap_rep h2 L"
    using k_rt_SmallFree_rep [OF h1(2) hm b] unfolding eq by blast
  have "a mod 4096 \<noteq> 0" using hm by (auto simp: home_def split: option.splits if_splits)
  then show ?thesis using m h1(2) h2 by (auto simp: k_rt_Free_def)
qed

section \<open>Carving a page\<close>

lemma carve_main_offsets:
  "s * n \<le> cur \<Longrightarrow> carve_main s n cur = (map (\<lambda>i. cur - s * (i + 1)) [0..<n], cur - s * n)"
proof (induction n arbitrary: cur)
  case (Suc n)
  then have "carve_main s n (cur - s) = (map (\<lambda>i. cur - s - s * (i + 1)) [0..<n], cur - s - s * n)"
    by simp
  moreover have "map (\<lambda>i. cur - s * (i + 1)) [0..<Suc n]
      = (cur - s) # map (\<lambda>i. cur - s - s * (i + 1)) [0..<n]"
    unfolding map_upt_Suc by (simp add: algebra_simps)
  ultimately show ?case by simp
qed simp

lemma carve_rest_chunks:
  "carve_rest (2 ^ b) (2 ^ b - 1) b = Some (map (\<lambda>j. (j, 2 ^ j - 1)) (rev [0..<b]))"
proof (induction b)
  case (Suc b)
  have "(1 :: nat) \<le> 2 ^ b" by simp
  then have "2 ^ Suc b - 1 \<noteq> (0 :: nat)" by (simp only: power_Suc)
  moreover have "2 ^ Suc b - 1 - 2 ^ b = (2 ^ b - 1 :: nat)" by simp
  ultimately show ?case using Suc by (simp add: Let_def)
qed simp

lemma bucket_cases: "b < 9 \<Longrightarrow> b \<in> {0, 1, 2, 3, 4, 5, 6, 7, 8 :: nat}"
  by auto

lemma bucket_size: "b < 9 \<Longrightarrow> rd k_rt_small_bucket_sizes b = Some (8 * 2 ^ b)"
  by (drule bucket_cases, elim insertE emptyE) (simp_all add: rd_def k_rt_small_bucket_sizes_def)

lemma bucket_index_small: "j < 9 \<Longrightarrow> k_rt_SmallBucketIndexFromSize (8 * 2 ^ j) = j"
  by (drule bucket_cases, elim insertE emptyE)
    (simp_all add: k_rt_SmallBucketIndexFromSize_def k_rt_small_bucket_sizes_def)

lemma bucket_index_large:
  "b < 9 \<Longrightarrow> 8 * 2 ^ b \<le> off \<Longrightarrow> b \<le> k_rt_SmallBucketIndexFromSize off"
  by (drule bucket_cases, elim insertE emptyE)
    (simp_all add: k_rt_SmallBucketIndexFromSize_def k_rt_small_bucket_sizes_def)

lemma slots_511: "b < 9 \<Longrightarrow> 511 div 2 ^ b = 2 ^ (9 - b) - (1 :: nat)"
  by (drule bucket_cases, elim insertE emptyE) simp_all

lemma count_4088: "b < 9 \<Longrightarrow> 4088 div (8 * 2 ^ b) = 2 ^ (9 - b) - (1 :: nat)"
  by (drule bucket_cases, elim insertE emptyE) simp_all

lemma slots_total: "b < 9 \<Longrightarrow> 2 ^ b * (2 ^ (9 - b) - 1) + (2 ^ b - 1) = (511 :: nat)"
  by (drule bucket_cases, elim insertE emptyE) simp_all

lemma link_chunks_chain:
  "chain (hnext h) nc rest \<Longrightarrow> distinct cs \<Longrightarrow> set cs \<inter> set rest = {} \<Longrightarrow>
   link_chunks h cs nc = (h', p) \<Longrightarrow>
   chain (hnext h') p (rev cs @ rest) \<and> (\<forall>x. x \<notin> set cs \<longrightarrow> hnext h' x = hnext h x) \<and>
   hfirst h' = hfirst h \<and> hlast h' = hlast h \<and> hmain h' = hmain h"
proof (induction cs arbitrary: h nc rest)
  case (Cons c cs)
  let ?h = "h\<lparr>hnext := (hnext h)(c := nc),
       hprev := (case nc of None \<Rightarrow> hprev h | Some n \<Rightarrow> (hprev h)(n := Some c))\<rparr>"
  have "chain (hnext ?h) (Some c) (c # rest)" using Cons.prems by auto
  moreover have "link_chunks ?h cs (Some c) = (h', p)" using Cons.prems(4) by simp
  ultimately show ?case
    using Cons.IH [of ?h "Some c" "c # rest"] Cons.prems(2,3) by auto
qed simp

lemma lists_rep_updI:
  "lists_disjoint (L(b := xs)) \<Longrightarrow> chain (hnext h) (hfirst h b) xs \<Longrightarrow>
   hlast h b = (if xs = [] then None else Some (last xs)) \<Longrightarrow>
   (\<And>c. c < 9 \<Longrightarrow> c \<noteq> b \<Longrightarrow> chain (hnext h) (hfirst h c) (L c)) \<Longrightarrow>
   (\<And>c. c < 9 \<Longrightarrow> c \<noteq> b \<Longrightarrow> hlast h c = (if L c = [] then None else Some (last (L c)))) \<Longrightarrow>
   lists_rep h (L(b := xs))"
  unfolding lists_rep_def
proof (intro conjI allI impI)
  fix c :: nat
  assume l: "chain (hnext h) (hfirst h b) xs" "hlast h b = (if xs = [] then None else Some (last xs))"
    "\<And>c. c < 9 \<Longrightarrow> c \<noteq> b \<Longrightarrow> chain (hnext h) (hfirst h c) (L c)"
    "\<And>c. c < 9 \<Longrightarrow> c \<noteq> b \<Longrightarrow> hlast h c = (if L c = [] then None else Some (last (L c)))"
    and c: "c < 9"
  show "chain (hnext h) (hfirst h c) ((L(b := xs)) c)" using l(1) l(3) [OF c] by (cases "c = b") auto
  show "hlast h c = (if (L(b := xs)) c = [] then None else Some (last ((L(b := xs)) c)))"
    using l(2) l(4) [OF c] by (cases "c = b") auto
qed

lemma append_chunks_rep:
  assumes r: "lists_rep h L" and b: "b < 9"
    and c: "chain (hnext h) (Some f) (f # fs)" and d: "\<And>c. c < 9 \<Longrightarrow> set (f # fs) \<inter> set (L c) = {}"
  shows "\<exists>h'. append_chunks h b (Some f) (Some (last (f # fs))) = Some h' \<and>
    lists_rep h' (L(b := L b @ f # fs)) \<and> hmain h' = hmain h"
proof -
  have lb: "chain (hnext h) (hfirst h b) (L b)" "hlast h b = (if L b = [] then None else Some (last (L b)))"
    using r b by (auto simp: lists_rep_def)
  have "set (L b @ f # fs) \<inter> set (L c) = {}" if "c < 9" "c \<noteq> b" for c
    using r d [OF that(1)] that b unfolding lists_rep_def lists_disjoint_def by fastforce
  then have ld: "lists_disjoint (L(b := L b @ f # fs))"
    using r by (intro lists_disjoint_upd) (auto simp: lists_rep_def)
  show ?thesis
  proof (cases "L b = []")
    case True
    then have "append_chunks h b (Some f) (Some (last (f # fs))) =
      Some (h\<lparr>hfirst := (hfirst h)(b := Some f), hlast := (hlast h)(b := Some (last (f # fs)))\<rparr>)"
      using lb by (simp add: append_chunks_def)
    then show ?thesis using r c True ld by (auto simp: lists_rep_def)
  next
    case False
    let ?l = "last (L b)"
    have run: "append_chunks h b (Some f) (Some (last (f # fs))) =
      Some (h\<lparr>hnext := (hnext h)(?l := Some f), hprev := (hprev h)(f := Some ?l),
        hlast := (hlast h)(b := Some (last (f # fs)))\<rparr>)"
      using lb False by (simp add: append_chunks_def)
    have "chain ((hnext h)(?l := Some f)) (hfirst h b) (L b @ f # fs)"
      by (rule chain_append [OF lb(1) False c]) (use d [OF b] in blast)
    moreover have "chain ((hnext h)(?l := Some f)) (hfirst h c) (L c)" if "c < 9" "c \<noteq> b" for c
    proof -
      have "?l \<notin> set (L c)"
        using r b that last_in_set [OF False] unfolding lists_rep_def lists_disjoint_def by blast
      moreover have "chain (hnext h) (hfirst h c) (L c)" using r that by (auto simp: lists_rep_def)
      ultimately show ?thesis by (simp del: fun_upd_apply)
    qed
    ultimately have "lists_rep (h\<lparr>hnext := (hnext h)(?l := Some f), hprev := (hprev h)(f := Some ?l),
        hlast := (hlast h)(b := Some (last (f # fs)))\<rparr>) (L(b := L b @ f # fs))"
      using r by (intro lists_rep_updI [OF ld]) (auto simp: lists_rep_def)
    then show ?thesis unfolding run by auto
  qed
qed

lemma append_rest_rep:
  "lists_rep h L \<Longrightarrow> \<forall>(j, s) \<in> set rest. j < 9 \<and> (\<forall>c < 9. chunk_addr page s \<notin> set (L c)) \<Longrightarrow>
   distinct (map fst rest) \<Longrightarrow> distinct (map snd rest) \<Longrightarrow>
   \<exists>h'. append_rest h page rest = Some h' \<and> hmain h' = hmain h \<and>
     lists_rep h' (\<lambda>j. L j @ (case map_of rest j of None \<Rightarrow> [] | Some s \<Rightarrow> [chunk_addr page s]))"
proof (induction rest arbitrary: h L)
  case Nil
  then show ?case by simp
next
  case (Cons js rest)
  obtain j s where js: "js = (j, s)" by (cases js)
  let ?a = "chunk_addr page s"
  let ?h = "h\<lparr>hnext := (hnext h)(?a := None)\<rparr>"
  have j: "j < 9" "\<And>c. c < 9 \<Longrightarrow> ?a \<notin> set (L c)" using Cons.prems(2) js by auto
  have r: "lists_rep ?h L" using Cons.prems(1) j(2) by (auto simp: lists_rep_def)
  obtain h1 where h1: "append_chunks ?h j (Some ?a) (Some ?a) = Some h1"
    "lists_rep h1 (L(j := L j @ [?a]))" "hmain h1 = hmain h"
    using append_chunks_rep [OF r j(1), of ?a "[]"] j(2) by auto
  have "\<forall>(i, t) \<in> set rest. i < 9 \<and> (\<forall>c < 9. chunk_addr page t \<notin> set ((L(j := L j @ [?a])) c))"
  proof
    fix it assume m: "it \<in> set rest"
    have "s \<notin> set (map snd rest)" "snd it \<in> set (map snd rest)" using Cons.prems(4) js m by auto
    then have "snd it \<noteq> s" by blast
    then have "chunk_addr page (snd it) \<noteq> ?a" by (simp add: chunk_addr_def)
    moreover have "fst it < 9 \<and> (\<forall>c < 9. chunk_addr page (snd it) \<notin> set (L c))"
      using Cons.prems(2) m by (auto simp: case_prod_beta)
    ultimately show "case it of (i, t) \<Rightarrow>
        i < 9 \<and> (\<forall>c < 9. chunk_addr page t \<notin> set ((L(j := L j @ [?a])) c))"
      by (auto simp: case_prod_beta)
  qed
  note step = this
  from Cons.IH [OF h1(2) step] obtain h' where h': "append_rest h1 page rest = Some h'"
    "hmain h' = hmain h1" "lists_rep h' (\<lambda>i. (L(j := L j @ [?a])) i @
      (case map_of rest i of None \<Rightarrow> [] | Some s \<Rightarrow> [chunk_addr page s]))"
    using Cons.prems(3,4) by auto
  have "map_of rest j = None" using Cons.prems(3) js by (auto simp: map_of_eq_None_iff)
  then have "(\<lambda>i. (L(j := L j @ [?a])) i @
      (case map_of rest i of None \<Rightarrow> [] | Some s \<Rightarrow> [chunk_addr page s]))
    = (\<lambda>i. L i @ (case map_of (js # rest) i of None \<Rightarrow> [] | Some s \<Rightarrow> [chunk_addr page s]))"
    by (auto simp: js)
  then show ?case using h1 h' by (simp add: js Let_def)
qed

text \<open>The chunks a page of the main bucket \<open>b\<close> gives to the bucket \<open>j\<close>.\<close>

definition carved :: "nat \<Rightarrow> nat \<Rightarrow> nat \<Rightarrow> nat list" where
  "carved b page j =
     (if j = b then map (\<lambda>i. page + 8 * 2 ^ b * (i + 1)) [0..<2 ^ (9 - b) - 1]
      else if j < b then [page + 8 * 2 ^ j] else [])"

lemma carved_main_slots:
  assumes "b < 9"
  shows "rev (map (chunk_addr page) (map (\<lambda>i. 511 - 2 ^ b * (i + 1)) [0..<2 ^ (9 - b) - 1]))
    = carved b page b"
proof (rule nth_equalityI)
  let ?n = "2 ^ (9 - b) - 1 :: nat"
  show "length (rev (map (chunk_addr page) (map (\<lambda>i. 511 - 2 ^ b * (i + 1)) [0..<?n]))) =
    length (carved b page b)" by (simp add: carved_def)
  fix i assume "i < length (rev (map (chunk_addr page) (map (\<lambda>i. 511 - 2 ^ b * (i + 1)) [0..<?n])))"
  then have i: "i < ?n" by simp
  have "?n = i + (?n - i)" using i by simp
  then have "2 ^ b * ?n = 2 ^ b * i + 2 ^ b * (?n - i)" by (metis add_mult_distrib2)
  then have e: "511 - 2 ^ b * (?n - i) = 2 ^ b * i + (2 ^ b - 1)"
    using slots_total [OF assms] by linarith
  have e2: "?n - Suc i + 1 = ?n - i" using i by simp
  obtain k where k: "(2::nat) ^ b = Suc k" by (metis Suc_pred' zero_less_power zero_less_numeral)
  have "chunk_addr page (511 - 2 ^ b * (?n - Suc i + 1)) = page + 8 * 2 ^ b * (i + 1)"
    unfolding e2 chunk_addr_def e unfolding k by (simp add: algebra_simps)
  then show "rev (map (chunk_addr page) (map (\<lambda>i. 511 - 2 ^ b * (i + 1)) [0..<?n])) ! i
      = carved b page b ! i"
    using i by (simp add: carved_def rev_nth)
qed

lemma carved_bound: "b < 9 \<Longrightarrow> a \<in> set (carved b page j) \<Longrightarrow> page + 8 \<le> a \<and> a + 8 * 2 ^ j \<le> page + 4096"
proof -
  assume b: "b < 9" and a: "a \<in> set (carved b page j)"
  show ?thesis
  proof (cases "j = b")
    case True
    then obtain i where i: "a = page + 8 * 2 ^ b * (i + 1)" "i + 1 \<le> 2 ^ (9 - b) - 1"
      using a by (auto simp: carved_def)
    have "2 ^ b * (i + 1) + 2 ^ b = 2 ^ b * (i + 2)" by simp
    also have "\<dots> \<le> 2 ^ b * 2 ^ (9 - b)" using i(2) by (intro mult_left_mono) auto
    also have "\<dots> = 2 ^ 9" using b by (simp flip: power_add)
    finally have "2 ^ b * (i + 1) + 2 ^ b \<le> (512::nat)" by simp
    moreover have "(0::nat) < 2 ^ b * (i + 1)" by simp
    moreover have "a = page + 8 * (2 ^ b * (i + 1))" using i(1) by simp
    moreover have "8 * (2::nat) ^ j = 8 * 2 ^ b" using True by simp
    ultimately show ?thesis by linarith
  next
    case False
    then have j: "j < b" "a = page + 8 * 2 ^ j" using a by (auto simp: carved_def split: if_splits)
    have "(2::nat) ^ Suc j \<le> 2 ^ 8" using j b by (intro power_increasing) auto
    moreover have "(1::nat) \<le> 2 ^ j" by simp
    ultimately show ?thesis using j(2) by simp
  qed
qed

lemma carved_page:
  assumes "b < 9" "page mod 4096 = 0" "a \<in> set (carved b page j)"
  shows "a div 4096 * 4096 = page"
proof -
  have bd: "page + 8 \<le> a" "a + 8 * 2 ^ j \<le> page + 4096" using carved_bound [OF assms(1,3)] by auto
  have "(1::nat) \<le> 2 ^ j" by simp
  then have lt: "a - page < 4096" "page \<le> a" using bd by linarith+
  obtain q where q: "page = 4096 * q" using assms(2) by (auto simp: mod_eq_0_iff_dvd)
  define r where "r = a - page"
  have "a = 4096 * q + r" "r < 4096" using lt q by (auto simp: r_def)
  then show ?thesis using q by auto
qed

lemma carved_home:
  assumes b: "b < 9" and p: "page mod 4096 = 0" and h: "hmain h page = Some b"
    and a: "a \<in> set (carved b page j)"
  shows "home h a = Some j"
proof -
  have bd: "page + 8 \<le> a" "a + 8 * 2 ^ j \<le> page + 4096" using carved_bound [OF b a] by auto
  have "(1::nat) \<le> 2 ^ j" by simp
  then have lt: "a - page < 4096" "page \<le> a" using bd by linarith+
  obtain q where q: "page = 4096 * q" using p by (auto simp: mod_eq_0_iff_dvd)
  define r where "r = a - page"
  have ar: "a = 4096 * q + r" "r < 4096" using lt q by (auto simp: r_def)
  then have d: "a div 4096 * 4096 = page" "a mod 4096 = r" using q by auto
  have r8: "r \<noteq> 0" using bd(1) by (simp add: r_def)
  have "min b (k_rt_SmallBucketIndexFromSize r) = j"
  proof (cases "j = b")
    case True
    then have "8 * 2 ^ b \<le> r" using a by (auto simp: r_def carved_def)
    then show ?thesis using bucket_index_large [OF b] True by (simp add: min_def)
  next
    case False
    then have "j < b" "r = 8 * 2 ^ j" using a by (auto simp: r_def carved_def split: if_splits)
    then show ?thesis using bucket_index_small [of j] b by simp
  qed
  then show ?thesis using d h r8 by (simp add: home_def)
qed

text \<open>The bytes of a chunk of bucket \<open>j\<close>.\<close>

definition chunk_bytes :: "nat \<Rightarrow> nat \<Rightarrow> nat set" where
  "chunk_bytes j a = {a ..< a + 8 * 2 ^ j}"

lemma log_interval: "0 < (n :: nat) \<Longrightarrow> n < 2 ^ b \<Longrightarrow> \<exists>j < b. 2 ^ j \<le> n \<and> n < 2 ^ Suc j"
proof (induction b)
  case (Suc b)
  then show ?case by (cases "n < 2 ^ b") (auto simp: not_less intro: less_SucI)
qed simp

lemma carved_cover:
  assumes b: "b < 9"
  shows "(\<Union>j < 9. \<Union>a \<in> set (carved b page j). chunk_bytes j a) = {page + 8 ..< page + 4096}"
proof (intro equalityI subsetI)
  fix x assume "x \<in> (\<Union>j < 9. \<Union>a \<in> set (carved b page j). chunk_bytes j a)"
  then obtain j a where "a \<in> set (carved b page j)" "x \<in> chunk_bytes j a" by blast
  with carved_bound [OF b] show "x \<in> {page + 8 ..< page + 4096}"
    by (fastforce simp: chunk_bytes_def)
next
  fix x assume x: "x \<in> {page + 8 ..< page + 4096}"
  define k where "k = (x - page) div 8"
  have k: "0 < k" "k < 512" "page + 8 * k \<le> x" "x < page + 8 * k + 8"
    using x by (auto simp: k_def div_less_iff_less_mult)
  show "x \<in> (\<Union>j < 9. \<Union>a \<in> set (carved b page j). chunk_bytes j a)"
  proof (cases "k < 2 ^ b")
    case True
    obtain j where j: "j < b" "2 ^ j \<le> k" "k < 2 ^ Suc j" using log_interval [OF k(1) True] by blast
    have "x \<in> chunk_bytes j (page + 8 * 2 ^ j)" using j k by (simp add: chunk_bytes_def)
    moreover have "page + 8 * 2 ^ j \<in> set (carved b page j)" using j by (simp add: carved_def)
    ultimately show ?thesis using j b by force
  next
    case False
    define i where "i = k div 2 ^ b - 1"
    have d: "0 < k div 2 ^ b" using False by (simp add: div_greater_zero_iff)
    have "k div 2 ^ b < 2 ^ (9 - b)"
      using k(2) b by (simp add: div_less_iff_less_mult flip: power_add)
    then have i: "i < 2 ^ (9 - b) - 1" "k div 2 ^ b = i + 1" using d by (auto simp: i_def)
    have e: "k = 2 ^ b * (i + 1) + k mod 2 ^ b" by (metis i(2) mult_div_mod_eq)
    moreover have "k mod 2 ^ b < 2 ^ b" by simp
    ultimately have "x \<in> chunk_bytes b (page + 8 * (2 ^ b * (i + 1)))"
      using k(3,4) unfolding chunk_bytes_def by (simp only: atLeastLessThan_iff) linarith
    moreover have "page + 8 * (2 ^ b * (i + 1)) \<in> set (carved b page b)"
      using i by (auto simp: carved_def mult.assoc)
    ultimately show ?thesis using b by force
  qed
qed

lemma carved_disjoint:
  assumes b: "b < 9" and a: "a \<in> set (carved b page j)" "c \<in> set (carved b page k)" "a \<noteq> c"
  shows "chunk_bytes j a \<inter> chunk_bytes k c = {}"
proof -
  have lt: "chunk_bytes j a \<inter> chunk_bytes k c = {}"
    if a: "a \<in> set (carved b page j)" "c \<in> set (carved b page k)" "a < c" for a c j k
  proof -
    have "a + 8 * 2 ^ j \<le> c"
    proof (cases "j = b")
      case jb: True
      then obtain i where i: "a = page + 8 * 2 ^ b * (i + 1)" using a by (auto simp: carved_def)
      show ?thesis
      proof (cases "k = b")
        case True
        then obtain i' where i': "c = page + 8 * 2 ^ b * (i' + 1)" using a by (auto simp: carved_def)
        then have "i < i'" using i a(3) by simp
        then have "8 * 2 ^ b * (i + 2) \<le> 8 * 2 ^ b * (i' + 1)" by (intro mult_left_mono) auto
        then show ?thesis using i i' jb by simp
      next
        case False
        then have "k < b" "c = page + 8 * 2 ^ k" using a by (auto simp: carved_def split: if_splits)
        moreover from this have "(2::nat) ^ k \<le> 2 ^ b" by (intro power_increasing) auto
        moreover have "8 * 2 ^ b * 1 \<le> 8 * 2 ^ b * (i + 1)" by (intro mult_left_mono) auto
        ultimately show ?thesis using i a(3) by linarith
      qed
    next
      case False
      then have j: "j < b" "a = page + 8 * 2 ^ j" using a by (auto simp: carved_def split: if_splits)
      show ?thesis
      proof (cases "k = b")
        case True
        then obtain i' where i': "c = page + 8 * 2 ^ b * (i' + 1)" using a by (auto simp: carved_def)
        have "(2::nat) ^ Suc j \<le> 2 ^ b" using j by (intro power_increasing) auto
        then show ?thesis using i' j by simp
      next
        case False
        then have c: "c = page + 8 * 2 ^ k" using a by (auto simp: carved_def split: if_splits)
        then have "j < k" using a(3) j by (simp add: power_strict_increasing_iff)
        then have "(2::nat) ^ Suc j \<le> 2 ^ k" by (intro power_increasing) auto
        then show ?thesis using c j by simp
      qed
    qed
    then show ?thesis by (auto simp: chunk_bytes_def)
  qed
  show ?thesis using lt [OF a(1,2)] lt [OF a(2,1)] a(3) by (cases "a < c") auto
qed

text \<open>
  C14: Carving a fresh page for bucket \<open>b\<close>: the chunks handed to the buckets are pairwise
  disjoint and cover every byte of the page behind its header; they are appended to the free
  lists of their buckets; and each of them is one that \<open>k_rt_SmallFree\<close> would put back into
  the very bucket it was carved for.
\<close>

theorem init_chunk_page_at_carves:
  assumes b: "b < 9" and p: "page mod 4096 = 0" and r: "heap_rep h L"
    and fresh: "\<And>c a. c < 9 \<Longrightarrow> a \<in> set (L c) \<Longrightarrow> a div 4096 * 4096 \<noteq> page"
  shows "(\<exists>h'. init_chunk_page_at b page h = Some h' \<and> heap_rep h' (\<lambda>j. L j @ carved b page j)) \<and>
    (\<Union>j < 9. \<Union>a \<in> set (carved b page j). chunk_bytes j a) = {page + 8 ..< page + 4096} \<and>
    (\<forall>j k. \<forall>a \<in> set (carved b page j). \<forall>c \<in> set (carved b page k).
      a \<noteq> c \<longrightarrow> chunk_bytes j a \<inter> chunk_bytes k c = {})"
proof -
  let ?n = "2 ^ (9 - b) - 1 :: nat"
  let ?offs = "map (\<lambda>i. 511 - 2 ^ b * (i + 1)) [0..<?n]"
  let ?cs = "map (chunk_addr page) ?offs"
  define h0 where "h0 = h\<lparr>hmain := (hmain h)(page := Some b)\<rparr>"
  have tot: "2 ^ b * ?n \<le> 511" "511 - 2 ^ b * ?n = 2 ^ b - 1" using slots_total [OF b] by linarith+
  have cm: "carve_main (2 ^ b) ?n 511 = (?offs, 2 ^ b - 1)"
    unfolding carve_main_offsets [OF tot(1)] tot(2) ..
  have rc: "rev ?cs = carved b page b" by (rule carved_main_slots [OF b])
  have "0 < ?n" using one_less_power [of "2::nat" "9 - b"] b by simp
  then have "carved b page b \<noteq> []" by (simp add: carved_def)
  then obtain f fs where f: "carved b page b = f # fs" by (cases "carved b page b") auto
  have new: "a \<notin> set (L c)" if "a \<in> set (carved b page j)" "c < 9" for a j c
    using fresh [OF that(2)] carved_page [OF b p that(1)] by blast
  have csf: "set ?cs = set (f # fs)" using rc f by (metis set_rev)
  have dcs: "distinct ?cs"
  proof -
    have "distinct (carved b page b)"
      by (auto simp: carved_def distinct_map inj_on_def)
    then show ?thesis using rc by (metis distinct_rev)
  qed
  obtain h1 nc where link: "link_chunks h0 ?cs None = (h1, nc)" by (cases "link_chunks h0 ?cs None")
  have l1: "chain (hnext h1) nc (f # fs)" "\<And>x. x \<notin> set ?cs \<Longrightarrow> hnext h1 x = hnext h0 x"
    "hfirst h1 = hfirst h0" "hlast h1 = hlast h0" "hmain h1 = hmain h0"
    using link_chunks_chain [of h0 None "[]" ?cs h1 nc] link dcs rc f by auto
  have nc: "nc = Some f" using l1(1) by simp
  have rep1: "lists_rep h1 L"
  proof -
    have "chain (hnext h1) p (L c) = chain (hnext h0) p (L c)" if "c < 9" for c p
      by (rule chain_cong) (use l1(2) csf new [of _ b, OF _ that] f in auto)
    then show ?thesis using r l1(3,4) by (simp add: heap_rep_def lists_rep_def h0_def)
  qed
  have lastc: "(case ?cs of [] \<Rightarrow> None | c # _ \<Rightarrow> Some c) = Some (last (f # fs))"
  proof -
    have "?cs = rev (f # fs)" using rc f by (metis rev_rev_ident)
    then show ?thesis by (cases fs rule: rev_cases) auto
  qed
  obtain h2 where h2: "append_chunks h1 b (Some f) (Some (last (f # fs))) = Some h2"
    "lists_rep h2 (L(b := L b @ f # fs))" "hmain h2 = hmain h1"
    using append_chunks_rep [OF rep1 b, of f fs] l1(1) nc new [of _ b] f by auto
  let ?rest = "map (\<lambda>j. (j, 2 ^ j - 1)) (rev [0..<b]) :: (nat \<times> nat) list"
  have ra: "chunk_addr page (2 ^ j - 1) = page + 8 * 2 ^ j" for j
  proof -
    have "(1::nat) \<le> 2 ^ j" by simp
    then show ?thesis unfolding chunk_addr_def by linarith
  qed
  have rest_new: "page + 8 * 2 ^ j \<notin> set ((L(b := L b @ f # fs)) c)" if j: "j < b" and c: "c < 9" for j c
  proof -
    have m: "page + 8 * 2 ^ j \<in> set (carved b page j)" using j by (simp add: carved_def)
    have "(2::nat) ^ j < 2 ^ b" using j by (simp add: power_strict_increasing_iff)
    then have "8 * 2 ^ j < 8 * 2 ^ b * (x + 1 :: nat)" for x
      using mult_le_mono2 [of 1 "x + 1" "8 * 2 ^ b :: nat"] by linarith
    then have "page + 8 * 2 ^ j \<noteq> page + 8 * 2 ^ b * (x + 1)" for x
      by (metis add_left_cancel less_irrefl)
    then have "page + 8 * 2 ^ j \<notin> set (f # fs)"
      unfolding f [symmetric] carved_def by auto
    then show ?thesis using new [OF m c] by auto
  qed
  then have "\<forall>(j, s) \<in> set ?rest. j < 9 \<and> (\<forall>c < 9. chunk_addr page s \<notin> set ((L(b := L b @ f # fs)) c))"
    using b ra by (auto simp del: fun_upd_apply)
  moreover have "distinct (map fst ?rest)" by (simp add: comp_def)
  moreover have "distinct (map snd ?rest)"
  proof -
    have "j = k" if "2 ^ j - 1 = (2 ^ k - 1 :: nat)" for j k :: nat
    proof -
      have "(2::nat) ^ j = 2 ^ k" using that by (metis Suc_diff_1 zero_less_numeral zero_less_power)
      then show ?thesis by simp
    qed
    then have "inj (\<lambda>j. 2 ^ j - 1 :: nat)" by (intro injI) blast
    then have "inj_on (\<lambda>j. 2 ^ j - 1 :: nat) (set (rev [0..<b]))" by (rule inj_on_subset) simp
    then have "distinct (map (\<lambda>j. 2 ^ j - 1 :: nat) (rev [0..<b]))" by (simp only: distinct_map distinct_rev distinct_upt)
    then show ?thesis by (simp only: map_map comp_def snd_conv)
  qed
  ultimately obtain h3 where h3: "append_rest h2 page ?rest = Some h3" "hmain h3 = hmain h2"
    "lists_rep h3 (\<lambda>j. (L(b := L b @ f # fs)) j @
      (case map_of ?rest j of None \<Rightarrow> [] | Some s \<Rightarrow> [chunk_addr page s]))"
    using append_rest_rep [OF h2(2)] by blast
  have "(\<lambda>j. (L(b := L b @ f # fs)) j @
      (case map_of ?rest j of None \<Rightarrow> [] | Some s \<Rightarrow> [chunk_addr page s])) = (\<lambda>j. L j @ carved b page j)"
  proof
    fix j
    have "map_of ?rest j = (if j < b then Some (2 ^ j - 1) else None)"
      by (simp add: map_of_map_restrict restrict_map_def)
    then show "(L(b := L b @ f # fs)) j @
      (case map_of ?rest j of None \<Rightarrow> [] | Some s \<Rightarrow> [chunk_addr page s]) = L j @ carved b page j"
      using f ra [of j] by (auto simp: carved_def)
  qed
  with h3(3) have rep3: "lists_rep h3 (\<lambda>j. L j @ carved b page j)" by simp
  have run: "init_chunk_page_at b page h = Some h3"
    using bucket_size [OF b] count_4088 [OF b] cm link lastc nc h2(1) carve_rest_chunks [of b] h3(1)
    by (simp add: init_chunk_page_at_def Let_def h0_def [symmetric])
  have hm: "hmain h3 = (hmain h)(page := Some b)" using h3(2) h2(3) l1(5) by (simp add: h0_def)
  have "home h3 a = Some c" if "c < 9" "a \<in> set (L c @ carved b page c)" for c a
  proof (cases "a \<in> set (L c)")
    case True
    then have "home h a = Some c" using r that(1) by (auto simp: heap_rep_def)
    then show ?thesis using fresh [OF that(1) True] by (simp add: home_def hm)
  next
    case False
    then have "a \<in> set (carved b page c)" using that(2) by simp
    then show ?thesis using carved_home [OF b p, of h3 a c] hm fun_upd_same by metis
  qed
  then have "heap_rep h3 (\<lambda>j. L j @ carved b page j)" using rep3 by (simp add: heap_rep_def)
  with run have "\<exists>h'. init_chunk_page_at b page h = Some h' \<and> heap_rep h' (\<lambda>j. L j @ carved b page j)"
    by (intro exI conjI)
  moreover have "\<forall>j k. \<forall>a \<in> set (carved b page j). \<forall>c \<in> set (carved b page k).
      a \<noteq> c \<longrightarrow> chunk_bytes j a \<inter> chunk_bytes k c = {}"
    by (intro allI ballI impI) (rule carved_disjoint [OF b])
  ultimately show ?thesis using carved_cover [OF b, of page] by (intro conjI)
qed

section \<open>A heap with one free chunk\<close>

definition sample_heap :: sheap where
  "sample_heap = \<lparr>hk = \<lparr>kvirt = \<lparr>vfree_count = 0, vrange_count = 0, vranges = []\<rparr>, kmmu = sample_mmu\<rparr>, hfirst = [0 \<mapsto> 0x5008], hlast = [0 \<mapsto> 0x5008],
     hnext = (\<lambda>_. None), hprev = (\<lambda>_. None), hmain = [0x5000 \<mapsto> 3]\<rparr>"

lemma bucket_index_8 [simp]: "k_rt_SmallBucketIndexFromSize 8 = 0"
  by (simp add: k_rt_SmallBucketIndexFromSize_def k_rt_small_bucket_sizes_def)

lemma sample_heap_rep: "heap_rep sample_heap ((\<lambda>_. [])(0 := [0x5008]))"
  by (auto simp: heap_rep_def lists_rep_def lists_disjoint_def home_def sample_heap_def)

theorem k_rt_Malloc_Free_roundtrip_witness:
  "\<exists>h1 h2. k_rt_Malloc 8 sample_heap = Some (0x5008, h1) \<and> heap_rep h1 ((\<lambda>_. [])(0 := [])) \<and>
    k_rt_Free 0x5008 h1 = Some h2 \<and> heap_rep h2 ((\<lambda>_. [])(0 := [0x5008]))"
  using k_rt_Malloc_Free_roundtrip [OF sample_heap_rep, of 8 "0x5008" "[]"] by simp

theorem init_chunk_page_at_carves_witness:
  "\<exists>h'. init_chunk_page_at 2 0x6000 sample_heap = Some h' \<and>
    heap_rep h' (\<lambda>j. ((\<lambda>_. [])(0 := [0x5008])) j @ carved 2 0x6000 j)"
  by (rule conjunct1 [OF init_chunk_page_at_carves [OF _ _ sample_heap_rep]]) (auto split: if_splits)

end
