(* ===== verification/Proc_Thread.thy ===== *)
theory Proc_Thread
  imports Rt_Alloc
begin

text \<open>
  Threads, \<open>kernel/proc/thread.c\<close>, and the context switch of \<open>kernel/proc/thread_a.asm\<close>.
  Thread objects are addresses; every field of \<open>struct k_proc_thread_t\<close> that the code uses is a
  map from addresses, so that the queues threaded through \<open>queue_next\<close> are chains of one map.
  The lists are those of the kernel: ready, waiting on a condition, to be deleted, and the pool
  of free thread objects. The lemmas give the effect of every queue operation on these lists.
\<close>

section \<open>Data\<close>

datatype k_proc_thread_state =
    COND_WAIT | SUSPENDED | TERMINATED | RUNNING | CREATED | READY | DETACHED | INVALID

record k_proc_core =
  state :: "nat \<Rightarrow> k_proc_thread_state"
  detached :: "nat \<Rightarrow> bool"
  start_sp :: "nat \<Rightarrow> nat"
  current_sp :: "nat \<Rightarrow> nat"
  current_pmap :: "nat \<Rightarrow> u32"
  kernel_stack_offset :: "nat \<Rightarrow> nat"
  return_data :: "nat \<Rightarrow> nat"
  process :: "nat \<Rightarrow> nat"
  wait_condition :: "nat \<Rightarrow> nat option"
  queue_next :: "nat \<Rightarrow> nat option"
  condition :: "nat \<Rightarrow> bool"
  kernel_stack :: "nat \<Rightarrow> u32 list"
  page_map :: "nat \<Rightarrow> u32"
  main_thread :: "nat \<Rightarrow> nat option"
  ready_threads :: "nat option"
  last_ready_thread :: "nat option"
  cond_wait_threads :: "nat option"
  cond_wait_last_thread :: "nat option"
  delete_list :: "nat option"
  pool_threads :: "nat option"
  pool_pages :: "nat list"
  current_thread :: nat
  scheduler_thread :: nat
  cleanup_thread :: "nat option"
  core_mem :: sheap

text \<open>The address of the field \<open>condition\<close> of a thread.\<close>

definition thread_condition :: "nat \<Rightarrow> nat" where
  "thread_condition t = t + 52"

definition K_PROC_THREAD_VALID :: "k_proc_core \<Rightarrow> nat option \<Rightarrow> bool" where
  "K_PROC_THREAD_VALID c thread = (case thread of None \<Rightarrow> False | Some t \<Rightarrow> state c t \<noteq> INVALID)"

definition set_state :: "nat \<Rightarrow> k_proc_thread_state \<Rightarrow> k_proc_core \<Rightarrow> k_proc_core" where
  "set_state t s c = c\<lparr>state := (state c)(t := s)\<rparr>"

definition k_rt_SignalCondition :: "nat \<Rightarrow> k_proc_core \<Rightarrow> k_proc_core" where
  "k_rt_SignalCondition a c = c\<lparr>condition := (condition c)(a := True)\<rparr>"

definition k_rt_ClearCondition :: "nat \<Rightarrow> k_proc_core \<Rightarrow> k_proc_core" where
  "k_rt_ClearCondition a c = c\<lparr>condition := (condition c)(a := False)\<rparr>"

section \<open>Queues\<close>

text \<open>The body of the loop of \<open>k_proc_QueueReadyThread\<close>, for one thread.\<close>

definition ready_one :: "nat \<Rightarrow> k_proc_core \<Rightarrow> k_proc_core option" where
  "ready_one t c = do {
     let c = set_state t READY c;
     c \<leftarrow> (if ready_threads c = None then Some (c\<lparr>ready_threads := Some t\<rparr>)
          else do {
            l \<leftarrow> last_ready_thread c;
            Some (c\<lparr>queue_next := (queue_next c)(l := Some t)\<rparr>)
          });
     Some (c\<lparr>last_ready_thread := Some t, queue_next := (queue_next c)(t := None)\<rparr>)
   }"

partial_function (option) ready_loop :: "nat option \<Rightarrow> k_proc_core \<Rightarrow> k_proc_core option" where
  "ready_loop thread c = (case thread of
      None \<Rightarrow> Some c
    | Some t \<Rightarrow> Option.bind (ready_one t c) (ready_loop (queue_next c t)))"

declare ready_loop.simps [code]

definition k_proc_QueueReadyThread :: "nat option \<Rightarrow> k_proc_core \<Rightarrow> k_proc_core option" where
  "k_proc_QueueReadyThread thread c =
     (if K_PROC_THREAD_VALID c thread then ready_loop thread c else Some c)"

definition k_proc_QueueWaitingThread :: "nat option \<Rightarrow> k_proc_core \<Rightarrow> k_proc_core option" where
  "k_proc_QueueWaitingThread thread c =
     (if K_PROC_THREAD_VALID c thread \<and> thread \<noteq> cleanup_thread c then do {
        t \<leftarrow> thread;
        c \<leftarrow> (if cond_wait_threads c = None then Some (c\<lparr>cond_wait_threads := Some t\<rparr>)
             else do {
               l \<leftarrow> cond_wait_last_thread c;
               Some (c\<lparr>queue_next := (queue_next c)(l := Some t)\<rparr>)
             });
        Some (c\<lparr>cond_wait_last_thread := Some t, queue_next := (queue_next c)(t := None)\<rparr>)
      }
      else Some c)"

definition k_proc_QueueDetachedThread :: "nat option \<Rightarrow> k_proc_core \<Rightarrow> k_proc_core" where
  "k_proc_QueueDetachedThread thread c = (case thread of
      None \<Rightarrow> c
    | Some t \<Rightarrow>
       if state c t \<noteq> INVALID \<and> state c t = DETACHED \<and> thread \<noteq> cleanup_thread c
       then c\<lparr>queue_next := (queue_next c)(t := delete_list c), delete_list := Some t\<rparr>
       else c)"

section \<open>What a running thread does\<close>

definition k_proc_DetachThread :: "nat option \<Rightarrow> k_proc_core \<Rightarrow> k_proc_core" where
  "k_proc_DetachThread thread c = (case thread of
      None \<Rightarrow> c
    | Some t \<Rightarrow>
       if \<not> detached c t then
         (let c = c\<lparr>detached := (detached c)(t := True)\<rparr>
          in if state c t = TERMINATED
             then k_proc_QueueDetachedThread thread (set_state t DETACHED c) else c)
       else c)"

text \<open>
  \<open>k_proc_TerminateThread\<close> is preemptible between its two effects, so it is given as both: the
  change of state, and the signal behind it. Then it yields.
\<close>

definition terminate_state :: "nat \<Rightarrow> k_proc_core \<Rightarrow> k_proc_core" where
  "terminate_state return_value c =
     (let t = current_thread c
      in if detached c t then set_state t DETACHED c
         else set_state t TERMINATED c\<lparr>return_data := (return_data c)(t := return_value)\<rparr>)"

definition terminate_signal :: "k_proc_core \<Rightarrow> k_proc_core" where
  "terminate_signal c = k_rt_SignalCondition (thread_condition (current_thread c)) c"

text \<open>
  \<open>k_proc_WaitCondition\<close> on a condition that is not set: the condition is stored, then the state
  changes, then it yields.
\<close>

definition wait_store :: "nat \<Rightarrow> k_proc_core \<Rightarrow> k_proc_core" where
  "wait_store a c = c\<lparr>wait_condition := (wait_condition c)(current_thread c := Some a)\<rparr>"

definition wait_state :: "k_proc_core \<Rightarrow> k_proc_core" where
  "wait_state c = set_state (current_thread c) COND_WAIT c"

text \<open>
  \<open>k_proc_WaitThread\<close>: what it does before it may wait (a status, or the condition to wait on
  when there is one), and what it does afterwards.
\<close>

definition wait_thread_begin :: "nat option \<Rightarrow> k_proc_core \<Rightarrow> k_status + nat option" where
  "wait_thread_begin thread c = (case thread of
      None \<Rightarrow> Inl K_STATUS_INVALID_THREAD
    | Some t \<Rightarrow>
       if state c t \<noteq> INVALID \<and> current_thread c \<noteq> t then
         (if detached c t then Inl K_STATUS_DETACHED_THREAD
          else if state c t \<noteq> TERMINATED then Inr (Some (thread_condition t)) else Inr None)
       else Inl K_STATUS_INVALID_THREAD)"

definition wait_thread_end :: "nat \<Rightarrow> k_proc_core \<Rightarrow> k_status \<times> nat \<times> k_proc_core" where
  "wait_thread_end t c =
     (let value = return_data c t;
          c = c\<lparr>wait_condition := (wait_condition c)(current_thread c := None)\<rparr>
      in (K_STATUS_OK, value, k_proc_DetachThread (Some t) c))"

section \<open>Creation and destruction\<close>

definition K_PROC_THREAD_PAGE_THREAD_COUNT :: nat where
  "K_PROC_THREAD_PAGE_THREAD_COUNT = (4096 - 8) div 144"

definition page_thread :: "nat \<Rightarrow> nat \<Rightarrow> nat" where
  "page_thread thread_page thread_index = thread_page + 8 + 144 * thread_index"

fun link_threads :: "nat \<Rightarrow> nat \<Rightarrow> nat \<Rightarrow> (nat \<Rightarrow> nat option) \<Rightarrow> (nat \<Rightarrow> nat option)" where
  "link_threads 0 thread_page thread_index nx = nx"
| "link_threads (Suc n) thread_page thread_index nx =
     link_threads n thread_page (thread_index + 1)
       (nx(page_thread thread_page thread_index := Some (page_thread thread_page (thread_index + 1))))"

definition add_thread_page :: "k_proc_core \<Rightarrow> k_proc_core option" where
  "add_thread_page c = do {
     (thread_page, h) \<leftarrow> k_rt_Malloc 4096 (core_mem c);
     if thread_page = 0 then None
     else do {
       let nx = link_threads (K_PROC_THREAD_PAGE_THREAD_COUNT - 1) thread_page 0 (queue_next c);
       let last_thread = page_thread thread_page (K_PROC_THREAD_PAGE_THREAD_COUNT - 1);
       Some (c\<lparr>core_mem := h, queue_next := nx(last_thread := None),
         pool_pages := thread_page # pool_pages c, pool_threads := Some (page_thread thread_page 0)\<rparr>)
     }
   }"

definition take_thread :: "k_proc_core \<Rightarrow> (nat \<times> k_proc_core) option" where
  "take_thread c = do {
     c \<leftarrow> (if pool_threads c = None then add_thread_page c else Some c);
     t \<leftarrow> pool_threads c;
     Some (t, c\<lparr>pool_threads := queue_next c t\<rparr>)
   }"

record k_proc_thread_init =
  init_entry_point :: nat
  init_process :: nat
  ring0_stack_page :: nat
  ring0_stack_base :: nat
  user_stack_base :: nat
  user_data :: nat

definition K_CPU_SEG_SEL :: "nat \<Rightarrow> nat \<Rightarrow> nat \<Rightarrow> u32" where
  "K_CPU_SEG_SEL index rpl ti = push_bit 3 (word_of_nat index) OR word_of_nat ti OR (word_of_nat rpl AND 3)"

text \<open>The words the creation leaves on the kernel stack of a thread, from the stack pointer up.\<close>

definition initial_frame :: "u32 \<Rightarrow> u32 \<Rightarrow> u32 \<Rightarrow> u32 \<Rightarrow> u32 \<Rightarrow> u32 list" where
  "initial_frame start_eip pmap ebp entry_point data =
     (let code_seg = K_CPU_SEG_SEL 2 0 0; data_seg = K_CPU_SEG_SEL 1 0 0
      in [pmap, data_seg, data_seg, data_seg, ebp, 0, 0, 0, 0, 0, 0, start_eip, code_seg,
          2 OR push_bit 9 1, 0, entry_point, data])"

definition kernel_stack_of :: "k_proc_thread_init \<Rightarrow> kmem \<Rightarrow> (nat \<times> kmem) option" where
  "kernel_stack_of init k =
     (if user_stack_base init \<noteq> 0 then do {
        (base, vl) \<leftarrow> k_mem_AllocVirtualRange 0x1000 (kvirt k);
        (status, st) \<leftarrow> k_mem_MapLinearAddress (kmmu k) (word_of_nat base)
          (word_of_nat (ring0_stack_page init)) 0x2;
        Some (base, k\<lparr>kvirt := vl, kmmu := st\<rparr>)
      } else Some (ring0_stack_base init, k))"

definition init_thread :: "u32 \<Rightarrow> k_proc_thread_init \<Rightarrow> nat \<Rightarrow> nat \<Rightarrow> k_proc_core \<Rightarrow> k_proc_core" where
  "init_thread start_eip init base t c =
     (let p = init_process init; sp = ring0_stack_base init + 0x1000
      in c\<lparr>process := (process c)(t := p), queue_next := (queue_next c)(t := None),
        state := (state c)(t := CREATED), detached := (detached c)(t := False),
        condition := (condition c)(thread_condition t := False),
        wait_condition := (wait_condition c)(t := None),
        kernel_stack_offset := (kernel_stack_offset c)(t := sub32 base (ring0_stack_base init)),
        start_sp := (start_sp c)(t := sp),
        kernel_stack := (kernel_stack c)(t := initial_frame start_eip (page_map c p)
          (word_of_nat sp - 4) (word_of_nat (init_entry_point init)) (word_of_nat (user_data init))),
        current_pmap := (current_pmap c)(t := page_map c p),
        current_sp := (current_sp c)(t := base + 0x1000 - 4 * 17),
        main_thread := (if main_thread c p = None then (main_thread c)(p := Some t)
          else main_thread c)\<rparr>)"

definition k_proc_CreateThread ::
    "u32 \<Rightarrow> k_proc_thread_init \<Rightarrow> k_proc_core \<Rightarrow> (nat option \<times> k_proc_core) option" where
  "k_proc_CreateThread start_eip init c =
     (if ring0_stack_page init = 0 \<or> ring0_stack_base init = 0 \<or> init_entry_point init = 0
      then Some (None, c)
      else do {
        (t, c) \<leftarrow> take_thread c;
        (base, k) \<leftarrow> kernel_stack_of init (hk (core_mem c));
        let c = init_thread start_eip init base t (c\<lparr>core_mem := (core_mem c)\<lparr>hk := k\<rparr>\<rparr>);
        c \<leftarrow> k_proc_QueueReadyThread (Some t) c;
        Some (Some t, c)
      })"

definition k_proc_CreateKernelThread ::
    "u32 \<Rightarrow> nat \<Rightarrow> nat \<Rightarrow> k_proc_core \<Rightarrow> (nat option \<times> k_proc_core) option" where
  "k_proc_CreateKernelThread start_eip entry_point data c = do {
     let k = hk (core_mem c);
     (base, vl) \<leftarrow> k_mem_AllocVirtualRange 0x1000 (kvirt k);
     (page, ranges) \<leftarrow> k_mem_AllocPhysicalPage 0 (phys (kmmu k));
     (status, st) \<leftarrow> k_mem_MapLinearAddress ((kmmu k)\<lparr>phys := ranges\<rparr>) (word_of_nat base)
       (word_of_nat page) 0x2;
     k_proc_CreateThread start_eip
       \<lparr>init_entry_point = entry_point, init_process = process c (current_thread c),
        ring0_stack_page = page, ring0_stack_base = base, user_stack_base = 0, user_data = data\<rparr>
       (c\<lparr>core_mem := (core_mem c)\<lparr>hk := k\<lparr>kvirt := vl, kmmu := st\<rparr>\<rparr>\<rparr>)
   }"

definition release_stack :: "nat \<Rightarrow> kmem \<Rightarrow> kmem option" where
  "release_stack kernel_stack_base k = do {
     page \<leftarrow> k_mem_LinearAddressPhysicalPage (kmmu k) (word_of_nat kernel_stack_base);
     (status, st) \<leftarrow> k_mem_UnmapLinearAddress (kmmu k) (word_of_nat kernel_stack_base);
     vl \<leftarrow> k_mem_FreeVirtualRange kernel_stack_base (kvirt k);
     ranges \<leftarrow> k_mem_FreePhysicalPages page (phys st);
     Some (k\<lparr>kvirt := vl, kmmu := st\<lparr>phys := ranges\<rparr>\<rparr>)
   }"

definition kernel_stack_base :: "k_proc_core \<Rightarrow> nat \<Rightarrow> nat" where
  "kernel_stack_base c t = sub32 ((start_sp c t + kernel_stack_offset c t) mod 2 ^ 32) 0x1000"

definition k_proc_DestroyThread :: "nat option \<Rightarrow> k_proc_core \<Rightarrow> k_proc_core option" where
  "k_proc_DestroyThread thread c =
     (if K_PROC_THREAD_VALID c thread then do {
        t \<leftarrow> thread;
        k \<leftarrow> release_stack (kernel_stack_base c t) (hk (core_mem c));
        Some ((set_state t INVALID c)\<lparr>core_mem := (core_mem c)\<lparr>hk := k\<rparr>,
          queue_next := (queue_next c)(t := pool_threads c), pool_threads := Some t\<rparr>)
      } else Some c)"

section \<open>Context switch\<close>

record cpu_regs =
  r_eax :: u32
  r_ebx :: u32
  r_ecx :: u32
  r_edx :: u32
  r_esi :: u32
  r_edi :: u32
  r_ebp :: u32
  seg_ds :: "16 word"
  seg_es :: "16 word"
  seg_fs :: "16 word"
  r_cr3 :: u32

text \<open>
  \<open>k_proc_ExitThreadContext\<close> pushes the registers below the interrupt frame, the stack being the
  list of its words; \<open>k_proc_EnterThreadContext\<close> pops them again and leaves the frame to \<open>iret\<close>.
\<close>

definition k_proc_ExitThreadContext :: "cpu_regs \<Rightarrow> u32 list \<Rightarrow> u32 list" where
  "k_proc_ExitThreadContext r stack =
     (let stack = [r_ebp r, r_esi r, r_edi r, r_edx r, r_ecx r, r_ebx r, r_eax r] @ stack;
          stack = [ucast (seg_fs r), ucast (seg_es r), ucast (seg_ds r)] @ stack
      in r_cr3 r # stack)"

fun k_proc_EnterThreadContext :: "u32 list \<Rightarrow> (cpu_regs \<times> u32 list) option" where
  "k_proc_EnterThreadContext (pmap # f # e # d # bp # si # di # dx # cx # bx # ax # stack) =
     Some (\<lparr>r_eax = ax, r_ebx = bx, r_ecx = cx, r_edx = dx, r_esi = si, r_edi = di, r_ebp = bp,
       seg_ds = ucast d, seg_es = ucast e, seg_fs = ucast f, r_cr3 = pmap\<rparr>, stack)"
| "k_proc_EnterThreadContext _ = None"

fun iret :: "u32 list \<Rightarrow> (u32 \<times> u32 \<times> u32 \<times> u32 list) option" where
  "iret (eip # cs # eflags # stack) = Some (eip, cs, eflags, stack)"
| "iret _ = None"

lemma ucast_16_32: "(ucast (ucast (w :: 16 word) :: u32) :: 16 word) = w"
  by (rule bit_word_eqI) (auto simp: bit_ucast_iff)

lemma initial_frame_enter:
  "\<exists>r. k_proc_EnterThreadContext (initial_frame start_eip pmap bp entry_point data) =
       Some (r, [start_eip, 0x10, 0x202, 0, entry_point, data]) \<and>
     r_cr3 r = pmap \<and> r_ebp r = bp \<and> seg_ds r = 8 \<and> seg_es r = 8 \<and> seg_fs r = 8"
  by (simp add: initial_frame_def K_CPU_SEG_SEL_def push_bit_eq_mult)

text \<open>
  Leaving and entering the context of a thread restores every register, the page map
  included, and the interrupt frame behind them. The frame a new thread is created with is such
  a context: entering it starts the thread's entry routine in ring 0 with interrupts enabled,
  on a stack that holds a null return address, the entry point and its argument.
\<close>

theorem thread_context_roundtrip:
  "k_proc_EnterThreadContext (k_proc_ExitThreadContext r stack) = Some (r, stack) \<and>
   (\<exists>r. k_proc_EnterThreadContext (initial_frame start_eip pmap bp entry_point data) =
       Some (r, [start_eip, 0x10, 0x202, 0, entry_point, data]) \<and>
     r_cr3 r = pmap \<and> r_ebp r = bp \<and> seg_ds r = 8 \<and> seg_es r = 8 \<and> seg_fs r = 8) \<and>
   iret [start_eip, 0x10, 0x202, 0, entry_point, data] =
     Some (start_eip, 0x10, 0x202, [0, entry_point, data])"
  using initial_frame_enter [of start_eip]
  by (simp add: k_proc_ExitThreadContext_def ucast_16_32)

section \<open>The thread lists\<close>

definition queue_list :: "(nat \<Rightarrow> nat option) \<Rightarrow> nat option \<Rightarrow> nat option \<Rightarrow> nat list \<Rightarrow> bool" where
  "queue_list nx first_t last_t ts \<longleftrightarrow>
     chain nx first_t ts \<and> (ts \<noteq> [] \<longrightarrow> last_t = Some (last ts))"

text \<open>
  The ready list, the waiting list, the delete list and the pool hold \<open>rs\<close>, \<open>ws\<close>, \<open>ds\<close> and \<open>ps\<close>,
  and no thread is on two of them.
\<close>

definition thread_lists :: "k_proc_core \<Rightarrow> nat list \<Rightarrow> nat list \<Rightarrow> nat list \<Rightarrow> nat list \<Rightarrow> bool" where
  "thread_lists c rs ws ds ps \<longleftrightarrow>
     queue_list (queue_next c) (ready_threads c) (last_ready_thread c) rs \<and>
     queue_list (queue_next c) (cond_wait_threads c) (cond_wait_last_thread c) ws \<and>
     chain (queue_next c) (delete_list c) ds \<and> chain (queue_next c) (pool_threads c) ps \<and>
     distinct (rs @ ws @ ds @ ps)"

lemma queue_list_frame:
  "(\<And>t. t \<in> set ts \<Longrightarrow> nx' t = nx t) \<Longrightarrow> queue_list nx f l ts \<Longrightarrow> queue_list nx' f l ts"
  unfolding queue_list_def using chain_cong [of ts nx' nx] by blast

lemma queue_list_first: "queue_list nx f l ts \<Longrightarrow> f = None \<longleftrightarrow> ts = []"
  by (cases ts) (auto simp: queue_list_def)

lemma queue_list_last: "queue_list nx f l ts \<Longrightarrow> ts \<noteq> [] \<Longrightarrow> l = Some (last ts)"
  by (simp add: queue_list_def)

text \<open>Every queue operation of the kernel links a thread behind the last one in this way.\<close>

lemma queue_list_append:
  assumes q: "queue_list nx f l ts" and t: "t \<notin> set ts"
  shows "queue_list ((if f = None then nx else nx(the l := Some t))(t := None))
    (if f = None then Some t else f) (Some t) (ts @ [t])"
proof (cases ts)
  case Nil
  then show ?thesis using q by (simp add: queue_list_def)
next
  case (Cons u us)
  then have ne: "ts \<noteq> []" by simp
  obtain g where "f = Some g" using queue_list_first [OF q] ne by blast
  moreover have "l = Some (last ts)" by (rule queue_list_last [OF q ne])
  moreover have "chain nx f ts" using q by (simp add: queue_list_def)
  ultimately show ?thesis
    using chain_snoc [OF _ ne t] by (simp add: queue_list_def del: fun_upd_apply)
qed

lemma thread_lists_disjoint:
  "thread_lists c rs ws ds ps \<Longrightarrow> set rs \<inter> set ws = {} \<and> set rs \<inter> set ds = {} \<and> set rs \<inter> set ps = {} \<and>
   set ws \<inter> set ds = {} \<and> set ws \<inter> set ps = {} \<and> set ds \<inter> set ps = {}"
  unfolding thread_lists_def by auto

text \<open>The fields the queue operations leave alone.\<close>

definition same_threads :: "k_proc_core \<Rightarrow> k_proc_core \<Rightarrow> bool" where
  "same_threads c c' \<longleftrightarrow> detached c' = detached c \<and> wait_condition c' = wait_condition c \<and>
     condition c' = condition c \<and> return_data c' = return_data c \<and> current_thread c' = current_thread c \<and>
     cleanup_thread c' = cleanup_thread c \<and> core_mem c' = core_mem c \<and> process c' = process c \<and>
     start_sp c' = start_sp c \<and> kernel_stack_offset c' = kernel_stack_offset c \<and>
     scheduler_thread c' = scheduler_thread c \<and> kernel_stack c' = kernel_stack c"

lemma same_threads_refl [simp]: "same_threads c c"
  by (simp add: same_threads_def)

lemma same_threads_trans: "same_threads a b \<Longrightarrow> same_threads b c \<Longrightarrow> same_threads a c"
  by (simp add: same_threads_def)

text \<open>One thread at the end of the ready list, with what this leaves unchanged.\<close>

definition readied :: "k_proc_core \<Rightarrow> nat list \<Rightarrow> nat set \<Rightarrow> k_proc_core \<Rightarrow> bool" where
  "readied c rs T c' \<longleftrightarrow> state c' = (\<lambda>u. if u \<in> T then READY else state c u) \<and> same_threads c c' \<and>
     (\<forall>u. u \<notin> T \<union> set rs \<longrightarrow> queue_next c' u = queue_next c u)"

lemma ready_one_lists:
  assumes l: "thread_lists c rs ws ds ps" and t: "t \<notin> set (rs @ ws @ ds @ ps)"
  shows "\<exists>c'. ready_one t c = Some c' \<and> thread_lists c' (rs @ [t]) ws ds ps \<and> readied c rs {t} c'"
proof -
  let ?f = "ready_threads c" and ?l = "last_ready_thread c"
  have q: "queue_list (queue_next c) ?f ?l rs" using l by (simp add: thread_lists_def)
  define nx where "nx = (if ?f = None then queue_next c else (queue_next c)(the ?l := Some t))(t := None)"
  define c' where "c' = c\<lparr>state := (state c)(t := READY), queue_next := nx,
    ready_threads := (if ?f = None then Some t else ?f), last_ready_thread := Some t\<rparr>"
  have last_rs: "?f \<noteq> None \<Longrightarrow> rs \<noteq> [] \<and> ?l = Some (last rs)"
    using queue_list_first [OF q] queue_list_last [OF q] by auto
  have run: "ready_one t c = Some c'"
    using last_rs by (auto simp: ready_one_def set_state_def c'_def nx_def)
  have same: "nx u = queue_next c u" if "u \<notin> set (t # rs)" for u
    using that last_rs by (auto simp: nx_def)
  have out: "nx u = queue_next c u" if "u \<in> set (ws @ ds @ ps)" for u
    by (rule same) (use l t that in \<open>auto simp: thread_lists_def\<close>)
  have "queue_list nx (ready_threads c') (last_ready_thread c') (rs @ [t])"
    using queue_list_append [OF q, of t] t by (simp add: c'_def nx_def)
  moreover have "queue_list nx (cond_wait_threads c) (cond_wait_last_thread c) ws"
    by (rule queue_list_frame [where nx = "queue_next c"]) (use l out in \<open>auto simp: thread_lists_def\<close>)
  moreover have "chain nx (delete_list c) ds = chain (queue_next c) (delete_list c) ds"
    by (rule chain_cong) (use out in auto)
  moreover have "chain nx (pool_threads c) ps = chain (queue_next c) (pool_threads c) ps"
    by (rule chain_cong) (use out in auto)
  ultimately have "thread_lists c' (rs @ [t]) ws ds ps"
    using l t by (auto simp: thread_lists_def c'_def)
  moreover have "readied c rs {t} c'"
    using same by (auto simp: readied_def same_threads_def c'_def)
  ultimately show ?thesis using run by blast
qed

lemma ready_loop_None [simp]: "ready_loop None c = Some c"
  by (subst ready_loop.simps) simp

lemma ready_loop_Some: "ready_loop (Some t) c = Option.bind (ready_one t c) (ready_loop (queue_next c t))"
  by (subst ready_loop.simps) simp

lemma ready_loop_lists:
  "thread_lists c rs ws ds ps \<Longrightarrow> chain (queue_next c) p ts \<Longrightarrow>
   set ts \<inter> set (rs @ ws @ ds @ ps) = {} \<Longrightarrow>
   \<exists>c'. ready_loop p c = Some c' \<and> thread_lists c' (rs @ ts) ws ds ps \<and> readied c rs (set ts) c'"
proof (induction ts arbitrary: p c rs)
  case Nil
  then show ?case by (auto simp: readied_def)
next
  case (Cons t ts)
  have p: "p = Some t" "chain (queue_next c) (queue_next c t) ts" using Cons.prems(2) by auto
  have d: "distinct (t # ts)" using Cons.prems(2) by (rule chain_distinct)
  obtain c1 where c1: "ready_one t c = Some c1" "thread_lists c1 (rs @ [t]) ws ds ps" "readied c rs {t} c1"
    using ready_one_lists [OF Cons.prems(1), of t] Cons.prems(3) by auto
  have "chain (queue_next c1) (queue_next c t) ts = chain (queue_next c) (queue_next c t) ts"
    by (rule chain_cong) (use c1(3) Cons.prems(3) d in \<open>auto simp: readied_def\<close>)
  then obtain c2 where c2: "ready_loop (queue_next c t) c1 = Some c2"
    "thread_lists c2 ((rs @ [t]) @ ts) ws ds ps" "readied c1 (rs @ [t]) (set ts) c2"
    using Cons.IH [OF c1(2), of "queue_next c t"] p(2) Cons.prems(3) d by auto
  have "readied c rs (set (t # ts)) c2"
    using c1(3) c2(3) by (auto simp: readied_def fun_eq_iff intro: same_threads_trans)
  then show ?case using c1(1) c2(1,2) p(1) by (auto simp: ready_loop_Some)
qed

lemma QueueReadyThread_lists:
  assumes "thread_lists c rs ws ds ps" "chain (queue_next c) (Some t) ts"
    "set ts \<inter> set (rs @ ws @ ds @ ps) = {}" "state c t \<noteq> INVALID"
  shows "\<exists>c'. k_proc_QueueReadyThread (Some t) c = Some c' \<and> thread_lists c' (rs @ ts) ws ds ps \<and>
    readied c rs (set ts) c'"
  using ready_loop_lists [OF assms(1-3)] assms(4)
  by (simp add: k_proc_QueueReadyThread_def K_PROC_THREAD_VALID_def)

text \<open>A thread behind which nothing is linked, as the running thread is queued again.\<close>

lemma QueueReadyThread_one:
  assumes "thread_lists c rs ws ds ps" "t \<notin> set (rs @ ws @ ds @ ps)" "queue_next c t = None" "state c t \<noteq> INVALID"
  shows "\<exists>c'. k_proc_QueueReadyThread (Some t) c = Some c' \<and> thread_lists c' (rs @ [t]) ws ds ps \<and>
    readied c rs {t} c'"
  using QueueReadyThread_lists [OF assms(1), of t "[t]"] assms(2-4) by auto

text \<open>One thread at the end of the waiting list.\<close>

definition queued_waiting :: "k_proc_core \<Rightarrow> nat list \<Rightarrow> nat \<Rightarrow> k_proc_core \<Rightarrow> bool" where
  "queued_waiting c ws t c' \<longleftrightarrow> state c' = state c \<and> same_threads c c' \<and>
     ready_threads c' = ready_threads c \<and> last_ready_thread c' = last_ready_thread c \<and>
     (\<forall>u. u \<notin> set (t # ws) \<longrightarrow> queue_next c' u = queue_next c u)"

lemma QueueWaitingThread_lists:
  assumes l: "thread_lists c rs ws ds ps" and t: "t \<notin> set (rs @ ws @ ds @ ps)"
    and v: "state c t \<noteq> INVALID" "cleanup_thread c \<noteq> Some t"
  shows "\<exists>c'. k_proc_QueueWaitingThread (Some t) c = Some c' \<and> thread_lists c' rs (ws @ [t]) ds ps \<and>
    queued_waiting c ws t c'"
proof -
  let ?f = "cond_wait_threads c" and ?l = "cond_wait_last_thread c"
  have q: "queue_list (queue_next c) ?f ?l ws" using l by (simp add: thread_lists_def)
  define nx where "nx = (if ?f = None then queue_next c else (queue_next c)(the ?l := Some t))(t := None)"
  define c' where "c' = c\<lparr>queue_next := nx,
    cond_wait_threads := (if ?f = None then Some t else ?f), cond_wait_last_thread := Some t\<rparr>"
  have last_ws: "?f \<noteq> None \<Longrightarrow> ws \<noteq> [] \<and> ?l = Some (last ws)"
    using queue_list_first [OF q] queue_list_last [OF q] by auto
  have run: "k_proc_QueueWaitingThread (Some t) c = Some c'"
    using last_ws v by (auto simp: k_proc_QueueWaitingThread_def K_PROC_THREAD_VALID_def c'_def nx_def)
  have same: "nx u = queue_next c u" if "u \<notin> set (t # ws)" for u
    using that last_ws by (auto simp: nx_def)
  have out: "nx u = queue_next c u" if "u \<in> set (rs @ ds @ ps)" for u
    by (rule same) (use l t that in \<open>auto simp: thread_lists_def\<close>)
  have "queue_list nx (cond_wait_threads c') (cond_wait_last_thread c') (ws @ [t])"
    using queue_list_append [OF q, of t] t by (simp add: c'_def nx_def)
  moreover have "queue_list nx (ready_threads c) (last_ready_thread c) rs"
    by (rule queue_list_frame [where nx = "queue_next c"]) (use l out in \<open>auto simp: thread_lists_def\<close>)
  moreover have "chain nx (delete_list c) ds = chain (queue_next c) (delete_list c) ds"
    by (rule chain_cong) (use out in auto)
  moreover have "chain nx (pool_threads c) ps = chain (queue_next c) (pool_threads c) ps"
    by (rule chain_cong) (use out in auto)
  ultimately have "thread_lists c' rs (ws @ [t]) ds ps"
    using l t by (auto simp: thread_lists_def c'_def)
  moreover have "queued_waiting c ws t c'"
    using same by (auto simp: queued_waiting_def same_threads_def c'_def)
  ultimately show ?thesis using run by blast
qed

lemma QueueDetachedThread_lists:
  assumes l: "thread_lists c rs ws ds ps" and t: "t \<notin> set (rs @ ws @ ds @ ps)"
    and v: "state c t = DETACHED" "cleanup_thread c \<noteq> Some t"
  shows "thread_lists (k_proc_QueueDetachedThread (Some t) c) rs ws (t # ds) ps"
proof -
  let ?c = "c\<lparr>queue_next := (queue_next c)(t := delete_list c), delete_list := Some t\<rparr>"
  have "k_proc_QueueDetachedThread (Some t) c = ?c"
    using v by (auto simp: k_proc_QueueDetachedThread_def)
  moreover have "thread_lists ?c rs ws (t # ds) ps"
    using l t by (auto simp: thread_lists_def queue_list_def fun_upd_same simp del: fun_upd_apply)
  ultimately show ?thesis by simp
qed

section \<open>Creation\<close>

lemma link_threads_nth:
  "link_threads n page i nx t = (if \<exists>j. i \<le> j \<and> j < i + n \<and> t = page_thread page j
     then Some (t + 144) else nx t)"
proof (induction n arbitrary: i nx)
  case 0
  then show ?case by auto
next
  case (Suc n)
  have "(\<exists>j. i \<le> j \<and> j < i + Suc n \<and> t = page_thread page j) \<longleftrightarrow>
    t = page_thread page i \<or> (\<exists>j. i + 1 \<le> j \<and> j < i + 1 + n \<and> t = page_thread page j)" (is "?l \<longleftrightarrow> ?r")
  proof
    assume ?l
    then obtain j where "i \<le> j" "j < i + Suc n" "t = page_thread page j" by blast
    then show ?r using Suc_leI [of i j] by (cases "j = i") (auto simp: le_less)
  next
    assume ?r
    then show ?l
      by (elim disjE exE conjE) (use le_refl [of i] in \<open>force\<close>, metis Suc_eq_plus1 Suc_leD add_Suc_shift)
  qed
  then show ?case by (auto simp: Suc.IH page_thread_def)
qed

text \<open>The threads of a page that was just allocated.\<close>

definition page_threads :: "nat \<Rightarrow> nat list" where
  "page_threads page = map (page_thread page) [0..<K_PROC_THREAD_PAGE_THREAD_COUNT]"

lemma page_threads_chain:
  "chain ((link_threads (K_PROC_THREAD_PAGE_THREAD_COUNT - 1) page 0 nx)
      (page_thread page (K_PROC_THREAD_PAGE_THREAD_COUNT - 1) := None))
    (Some (page_thread page 0)) (page_threads page)"
proof -
  have n: "K_PROC_THREAD_PAGE_THREAD_COUNT = 0 + Suc 27" by (simp add: K_PROC_THREAD_PAGE_THREAD_COUNT_def)
  show ?thesis unfolding page_threads_def n
    by (rule chain_stride) (auto simp: link_threads_nth page_thread_def)
qed

text \<open>
  The pool has a thread to give: it is not empty, or the heap yields a page that holds none of
  the threads of \<open>T\<close>.
\<close>

definition pool_supplied :: "k_proc_core \<Rightarrow> nat set \<Rightarrow> bool" where
  "pool_supplied c T \<longleftrightarrow> pool_threads c \<noteq> None \<or>
     (case k_rt_Malloc 4096 (core_mem c) of None \<Rightarrow> False
      | Some (page, h) \<Rightarrow> page \<noteq> 0 \<and> set (page_threads page) \<inter> T = {})"

lemma add_thread_page_lists:
  assumes l: "thread_lists c rs ws ds []" and s: "pool_supplied c T" "set (rs @ ws @ ds) \<subseteq> T"
  shows "\<exists>c' ps. add_thread_page c = Some c' \<and> thread_lists c' rs ws ds ps \<and> ps \<noteq> [] \<and> set ps \<inter> T = {} \<and>
    state c' = state c \<and> same_threads c (c'\<lparr>core_mem := core_mem c\<rparr>) \<and> page_map c' = page_map c \<and>
    (\<forall>t \<in> T. queue_next c' t = queue_next c t)"
proof -
  have e: "pool_threads c = None" using l by (simp add: thread_lists_def)
  obtain page h where h: "k_rt_Malloc 4096 (core_mem c) = Some (page, h)" "page \<noteq> 0"
    "set (page_threads page) \<inter> T = {}"
    using s(1) e by (auto simp: pool_supplied_def split: option.splits)
  define nx where "nx = (link_threads (K_PROC_THREAD_PAGE_THREAD_COUNT - 1) page 0 (queue_next c))
      (page_thread page (K_PROC_THREAD_PAGE_THREAD_COUNT - 1) := None)"
  define c' where "c' = c\<lparr>core_mem := h, queue_next := nx, pool_pages := page # pool_pages c,
    pool_threads := Some (page_thread page 0)\<rparr>"
  have run: "add_thread_page c = Some c'"
    using h(1,2) by (simp add: add_thread_page_def c'_def nx_def Let_def)
  have ch: "chain nx (Some (page_thread page 0)) (page_threads page)"
    unfolding nx_def by (rule page_threads_chain)
  have n: "K_PROC_THREAD_PAGE_THREAD_COUNT = 28" by (simp add: K_PROC_THREAD_PAGE_THREAD_COUNT_def)
  have old: "nx t = queue_next c t" if "t \<in> T" for t
  proof -
    have "t \<noteq> page_thread page j" if "j < 28" for j
      using h(3) \<open>t \<in> T\<close> that by (auto simp: page_threads_def n disjoint_iff)
    note ne = this
    have "\<not> (\<exists>j. 0 \<le> j \<and> j < 0 + 27 \<and> t = page_thread page j)" by (intro notI, elim exE conjE) (simp add: ne)
    moreover have "t \<noteq> page_thread page 27" using ne by simp
    ultimately show ?thesis by (auto simp add: nx_def link_threads_nth n)
  qed
  have old_t: "nx t = queue_next c t" if "t \<in> set (rs @ ws @ ds)" for t
    by (rule old) (use that s(2) in auto)
  have "queue_list nx (ready_threads c) (last_ready_thread c) rs"
    by (rule queue_list_frame [where nx = "queue_next c"]) (use l old_t in \<open>auto simp: thread_lists_def\<close>)
  moreover have "queue_list nx (cond_wait_threads c) (cond_wait_last_thread c) ws"
    by (rule queue_list_frame [where nx = "queue_next c"]) (use l old_t in \<open>auto simp: thread_lists_def\<close>)
  moreover have "chain nx (delete_list c) ds = chain (queue_next c) (delete_list c) ds"
    by (rule chain_cong) (use old_t in auto)
  ultimately have "thread_lists c' rs ws ds (page_threads page)"
    using l ch h(3) s(2) chain_distinct [OF ch] by (auto simp: thread_lists_def c'_def)
  moreover have "page_threads page \<noteq> []" by (simp add: page_threads_def n)
  ultimately show ?thesis
    using run h(3) old by (auto simp: c'_def same_threads_def)
qed

lemma take_thread_lists:
  assumes l: "thread_lists c rs ws ds ps" and s: "pool_supplied c T" "set (rs @ ws @ ds) \<subseteq> T"
  shows "\<exists>t c' ps'. take_thread c = Some (t, c') \<and> thread_lists c' rs ws ds ps' \<and>
    t \<notin> set (rs @ ws @ ds @ ps') \<and> (insert t (set ps') = set ps \<or> ps = [] \<and> insert t (set ps') \<inter> T = {}) \<and>
    state c' = state c \<and> same_threads c (c'\<lparr>core_mem := core_mem c\<rparr>) \<and> page_map c' = page_map c \<and>
    (\<forall>t \<in> T. queue_next c' t = queue_next c t)"
proof -
  obtain c1 ps1 where c1: "(if pool_threads c = None then add_thread_page c else Some c) = Some c1"
    "thread_lists c1 rs ws ds ps1" "ps1 \<noteq> []" "set ps1 = set ps \<or> ps = [] \<and> set ps1 \<inter> T = {}"
    "state c1 = state c" "same_threads c (c1\<lparr>core_mem := core_mem c\<rparr>)" "page_map c1 = page_map c"
    "\<forall>t \<in> T. queue_next c1 t = queue_next c t"
  proof (cases "pool_threads c")
    case None
    then have "ps = []" using l chain_hd by (fastforce simp: thread_lists_def)
    then obtain c1 ps1 where c1: "add_thread_page c = Some c1" "thread_lists c1 rs ws ds ps1" "ps1 \<noteq> []"
      "set ps1 \<inter> T = {}" "state c1 = state c" "same_threads c (c1\<lparr>core_mem := core_mem c\<rparr>)"
      "page_map c1 = page_map c" "\<forall>t \<in> T. queue_next c1 t = queue_next c t"
      using add_thread_page_lists [OF _ s] l by blast
    show thesis by (rule that [of c1 ps1]) (simp_all add: c1 None \<open>ps = []\<close>)
  next
    case (Some t)
    then have "ps \<noteq> []" using l by (auto simp: thread_lists_def)
    then show thesis by (intro that [of c ps]) (simp_all add: l Some same_threads_def)
  qed
  then obtain t ps' where ps: "ps1 = t # ps'" by (cases ps1) auto
  let ?c = "c1\<lparr>pool_threads := queue_next c1 t\<rparr>"
  have pt: "pool_threads c1 = Some t" using c1(2) by (simp add: thread_lists_def ps)
  have "take_thread c = Some (t, ?c)"
    unfolding take_thread_def c1(1) using pt by simp
  moreover have "thread_lists ?c rs ws ds ps'" "t \<notin> set (rs @ ws @ ds @ ps')"
    using c1(2) by (auto simp: thread_lists_def ps)
  ultimately show ?thesis using c1(4-8) ps by (auto simp: same_threads_def)
qed

text \<open>The fields a new thread starts with, its stack frame included.\<close>

definition new_thread :: "u32 \<Rightarrow> k_proc_thread_init \<Rightarrow> k_proc_core \<Rightarrow> nat \<Rightarrow> k_proc_core \<Rightarrow> bool" where
  "new_thread start_eip init c t c' \<longleftrightarrow> state c' = (state c)(t := READY) \<and>
     detached c' = (detached c)(t := False) \<and> wait_condition c' = (wait_condition c)(t := None) \<and>
     condition c' = (condition c)(thread_condition t := False) \<and> return_data c' = return_data c \<and>
     process c' = (process c)(t := init_process init) \<and>
     kernel_stack c' = (kernel_stack c)(t := initial_frame start_eip (page_map c (init_process init))
       (word_of_nat (ring0_stack_base init + 0x1000) - 4) (word_of_nat (init_entry_point init))
       (word_of_nat (user_data init))) \<and>
     current_thread c' = current_thread c \<and> cleanup_thread c' = cleanup_thread c \<and>
     scheduler_thread c' = scheduler_thread c"

lemma init_thread_lists:
  "t \<notin> set (rs @ ws @ ds @ ps) \<Longrightarrow> thread_lists c rs ws ds ps \<Longrightarrow>
   thread_lists (init_thread start_eip init base t c) rs ws ds ps"
  by (simp add: init_thread_def Let_def thread_lists_def queue_list_def del: fun_upd_apply)

lemma CreateThread_lists:
  assumes l: "thread_lists c rs ws ds ps" and s: "pool_supplied c T" "set (rs @ ws @ ds) \<subseteq> T"
    and run: "k_proc_CreateThread start_eip init c = Some (Some t, c')"
  shows "\<exists>ps'. thread_lists c' (rs @ [t]) ws ds ps' \<and>
    (insert t (set ps') = set ps \<or> ps = [] \<and> insert t (set ps') \<inter> T = {}) \<and> new_thread start_eip init c t c' \<and>
    (\<forall>q \<in> T. q \<noteq> t \<longrightarrow> q \<notin> set rs \<longrightarrow> queue_next c' q = queue_next c q)"
proof -
  obtain u c1 ps' where c1: "take_thread c = Some (u, c1)" "thread_lists c1 rs ws ds ps'"
    "u \<notin> set (rs @ ws @ ds @ ps')" "insert u (set ps') = set ps \<or> ps = [] \<and> insert u (set ps') \<inter> T = {}"
    "state c1 = state c" "same_threads c (c1\<lparr>core_mem := core_mem c\<rparr>)" "page_map c1 = page_map c"
    "\<forall>t \<in> T. queue_next c1 t = queue_next c t"
    using take_thread_lists [OF l s] by blast
  obtain base k where k: "kernel_stack_of init (hk (core_mem c1)) = Some (base, k)"
    using run c1(1) by (auto simp: k_proc_CreateThread_def bind_eq_Some_conv split: if_splits)
  define c2 where "c2 = init_thread start_eip init base u (c1\<lparr>core_mem := (core_mem c1)\<lparr>hk := k\<rparr>\<rparr>)"
  have l2: "thread_lists c2 rs ws ds ps'"
    unfolding c2_def by (rule init_thread_lists [OF c1(3)]) (use c1(2) in \<open>simp add: thread_lists_def\<close>)
  have "chain (queue_next c2) (Some u) [u]" "state c2 u \<noteq> INVALID" "set [u] \<inter> set (rs @ ws @ ds @ ps') = {}"
    using c1(3) by (auto simp: c2_def init_thread_def Let_def)
  then obtain c3 where c3: "k_proc_QueueReadyThread (Some u) c2 = Some c3"
    "thread_lists c3 (rs @ [u]) ws ds ps'" "readied c2 rs (set [u]) c3"
    using QueueReadyThread_lists [OF l2] by blast
  have tc: "t = u" "c' = c3"
    using run c1(1) k c3(1) by (auto simp: k_proc_CreateThread_def c2_def [symmetric] Let_def split: if_splits)
  have "new_thread start_eip init c u c3"
    using c3(3) c1(5-7)
    by (auto simp: new_thread_def readied_def same_threads_def c2_def init_thread_def Let_def fun_eq_iff)
  moreover have "\<forall>q \<in> T. q \<noteq> u \<longrightarrow> q \<notin> set rs \<longrightarrow> queue_next c3 q = queue_next c q"
    using c3(3) c1(8) by (auto simp: readied_def c2_def init_thread_def Let_def)
  ultimately show ?thesis using c3(2) c1(4) tc by blast
qed

end
