(* ===== verification/Proc_Sched.thy ===== *)
theory Proc_Sched
  imports Proc_Thread
begin

text \<open>
  The scheduler of \<open>kernel/proc/proc.c\<close> and the thread switch of \<open>kernel/proc/thread.c\<close>. The
  scheduler runs with interrupts off: it wakes the threads whose condition is set, lets the
  cleanup thread free the detached ones, and runs the first ready thread until that yields or is
  preempted. The lemmas give the exact effect of these passes on the lists. A step relation
  interleaves them with what the running threads do, and its invariant says where every thread
  is at any time.
\<close>

section \<open>Switching\<close>

text \<open>\<open>k_proc_SwitchToThread\<close> raises the interrupt that makes the named thread, or the scheduler, current.\<close>

definition k_proc_SwitchToThread :: "nat option \<Rightarrow> k_proc_core \<Rightarrow> k_proc_core" where
  "k_proc_SwitchToThread thread c =
     c\<lparr>current_thread := (case thread of None \<Rightarrow> scheduler_thread c | Some t \<Rightarrow> t)\<rparr>"

definition k_proc_YieldThread :: "k_proc_core \<Rightarrow> k_proc_core" where
  "k_proc_YieldThread c = k_proc_SwitchToThread None c"

text \<open>\<open>k_proc_RunThread\<close>, before the switch to the thread and after the switch back.\<close>

definition run_begin :: "nat \<Rightarrow> k_proc_core \<Rightarrow> k_proc_core" where
  "run_begin t c = k_proc_SwitchToThread (Some t) (set_state t RUNNING c)"

definition run_end :: "nat \<Rightarrow> k_proc_core \<Rightarrow> k_proc_core option" where
  "run_end t c =
     (if Some t \<noteq> cleanup_thread c then
        (case state c t of
           DETACHED \<Rightarrow> Some (k_proc_QueueDetachedThread (Some t) c)
         | COND_WAIT \<Rightarrow> k_proc_QueueWaitingThread (Some t) c
         | RUNNING \<Rightarrow> k_proc_QueueReadyThread (Some t) c
         | _ \<Rightarrow> Some c)
      else Some (set_state t READY c))"

section \<open>The scheduler\<close>

partial_function (option) wake_loop ::
    "nat option \<Rightarrow> nat option \<Rightarrow> k_proc_core \<Rightarrow> (nat option \<times> k_proc_core) option" where
  "wake_loop waiting_thread resume_thread c = (case waiting_thread of
      None \<Rightarrow> Some (resume_thread, c)
    | Some w \<Rightarrow> Option.bind (wait_condition c w) (\<lambda>a.
        if condition c a
        then wake_loop (queue_next c w) (Some w)
          (c\<lparr>queue_next := (queue_next c)(w := resume_thread)\<rparr>)
        else Option.bind (k_proc_QueueWaitingThread (Some w) c)
          (wake_loop (queue_next c w) resume_thread)))"

declare wake_loop.simps [code]

definition wake_waiting :: "k_proc_core \<Rightarrow> k_proc_core option" where
  "wake_waiting c = do {
     let waiting_thread = cond_wait_threads c;
     (resume_thread, c) \<leftarrow> wake_loop waiting_thread None
       (c\<lparr>cond_wait_threads := None, cond_wait_last_thread := None\<rparr>);
     if resume_thread \<noteq> None then k_proc_QueueReadyThread resume_thread c else Some c
   }"

definition next_ready :: "k_proc_core \<Rightarrow> nat option \<times> k_proc_core" where
  "next_ready c = (case ready_threads c of
      Some t \<Rightarrow> (Some t, c\<lparr>ready_threads := queue_next c t, queue_next := (queue_next c)(t := None)\<rparr>)
    | None \<Rightarrow> (None, c\<lparr>last_ready_thread := None\<rparr>))"

partial_function (option) destroy_loop :: "nat option \<Rightarrow> k_proc_core \<Rightarrow> k_proc_core option" where
  "destroy_loop deleted_thread c = (case deleted_thread of
      None \<Rightarrow> Some c
    | Some t \<Rightarrow> Option.bind (k_proc_DestroyThread (Some t) c) (destroy_loop (queue_next c t)))"

declare destroy_loop.simps [code]

text \<open>One round of the cleanup thread; \<open>got_lock\<close> is the result of \<open>k_rt_TrySpinLock\<close>.\<close>

definition k_proc_CleanupThread :: "bool \<Rightarrow> k_proc_core \<Rightarrow> k_proc_core option" where
  "k_proc_CleanupThread got_lock c =
     (if got_lock then destroy_loop (delete_list c) (c\<lparr>delete_list := None\<rparr>) else Some c)"

text \<open>
  One iteration of \<open>k_proc_RunScheduler\<close> up to the thread it runs: the thread, if there is one.
\<close>

definition scheduler_pass :: "bool \<Rightarrow> k_proc_core \<Rightarrow> (nat option \<times> k_proc_core) option" where
  "scheduler_pass got_lock c = do {
     c \<leftarrow> wake_waiting c;
     k \<leftarrow> cleanup_thread c;
     c \<leftarrow> k_proc_CleanupThread got_lock (run_begin k c);
     c \<leftarrow> run_end k (k_proc_YieldThread c);
     let (next_thread, c) = next_ready c;
     Some (case next_thread of None \<Rightarrow> (None, c) | Some t \<Rightarrow> (Some t, run_begin t c))
   }"

section \<open>Waking\<close>

definition woken :: "k_proc_core \<Rightarrow> nat \<Rightarrow> bool" where
  "woken c t = condition c (the (wait_condition c t))"

text \<open>The threads of \<open>ts\<close> can be on the waiting list.\<close>

definition can_wait :: "k_proc_core \<Rightarrow> nat list \<Rightarrow> bool" where
  "can_wait c ts \<longleftrightarrow> (\<forall>t \<in> set ts. wait_condition c t \<noteq> None \<and> state c t \<noteq> INVALID \<and> cleanup_thread c \<noteq> Some t)"

lemma wake_loop_None [simp]: "wake_loop None r c = Some (r, c)"
  by (subst wake_loop.simps) simp

lemma wake_loop_Some:
  "wake_loop (Some w) r c = Option.bind (wait_condition c w) (\<lambda>a. if condition c a
     then wake_loop (queue_next c w) (Some w) (c\<lparr>queue_next := (queue_next c)(w := r)\<rparr>)
     else Option.bind (k_proc_QueueWaitingThread (Some w) c) (wake_loop (queue_next c w) r))"
  by (subst wake_loop.simps) simp

lemma same_threads_woken: "same_threads c c' \<Longrightarrow> woken c' = woken c"
  by (simp add: same_threads_def woken_def fun_eq_iff)

lemma same_threads_can_wait: "same_threads c c' \<Longrightarrow> state c' = state c \<Longrightarrow> can_wait c' = can_wait c"
  by (simp add: same_threads_def can_wait_def fun_eq_iff)

lemma thread_lists_upd:
  "t \<notin> set (rs @ ws @ ds @ ps) \<Longrightarrow> thread_lists c rs ws ds ps \<Longrightarrow>
   thread_lists (c\<lparr>queue_next := (queue_next c)(t := q)\<rparr>) rs ws ds ps"
  by (simp add: thread_lists_def queue_list_def del: fun_upd_apply)

lemma wake_loop_lists:
  "thread_lists c rs ws ds ps \<Longrightarrow> chain (queue_next c) p us \<Longrightarrow> chain (queue_next c) r vs \<Longrightarrow>
   set us \<inter> set vs = {} \<Longrightarrow> (set us \<union> set vs) \<inter> set (rs @ ws @ ds @ ps) = {} \<Longrightarrow> can_wait c us \<Longrightarrow>
   \<exists>r' c'. wake_loop p r c = Some (r', c') \<and>
     thread_lists c' rs (ws @ filter (Not \<circ> woken c) us) ds ps \<and>
     chain (queue_next c') r' (rev (filter (woken c) us) @ vs) \<and> state c' = state c \<and> same_threads c c'"
proof (induction us arbitrary: p r vs c ws)
  case Nil
  then show ?case by auto
next
  case (Cons t us)
  have p: "p = Some t" "chain (queue_next c) (queue_next c t) us" using Cons.prems(2) by auto
  have d: "t \<notin> set us" using chain_distinct [OF Cons.prems(2)] by simp
  obtain a where a: "wait_condition c t = Some a" using Cons.prems(6) by (auto simp: can_wait_def)
  have wk: "woken c t \<longleftrightarrow> condition c a" using a by (simp add: woken_def)
  show ?case
  proof (cases "woken c t")
    case True
    let ?c = "c\<lparr>queue_next := (queue_next c)(t := r)\<rparr>"
    have same: "same_threads c ?c" by (simp add: same_threads_def)
    have l: "thread_lists ?c rs ws ds ps"
      by (rule thread_lists_upd) (use Cons.prems(1,5) in auto)
    have u: "chain (queue_next ?c) (queue_next c t) us" using p(2) d by (simp del: fun_upd_apply)
    have v: "chain (queue_next ?c) (Some t) (t # vs)"
      using Cons.prems(3,4) by (simp del: fun_upd_apply add: fun_upd_same)
    have w: "can_wait ?c us"
      using Cons.prems(6) same_threads_can_wait [OF same] by (simp add: can_wait_def)
    have s1: "set us \<inter> set (t # vs) = {}" using Cons.prems(4) d by auto
    have s2: "(set us \<union> set (t # vs)) \<inter> set (rs @ ws @ ds @ ps) = {}" using Cons.prems(5) by auto
    obtain r' c' where r': "wake_loop (queue_next c t) (Some t) ?c = Some (r', c')"
      "thread_lists c' rs (ws @ filter (Not \<circ> woken ?c) us) ds ps"
      "chain (queue_next c') r' (rev (filter (woken ?c) us) @ t # vs)" "state c' = state ?c" "same_threads ?c c'"
      using Cons.IH [OF l u v s1 s2 w] by blast
    have run: "wake_loop p r c = Some (r', c')" using p(1) a True wk r'(1) by (simp add: wake_loop_Some)
    have s3: "same_threads c c'" using same r'(5) by (rule same_threads_trans)
    have wke: "woken ?c = woken c" by (rule same_threads_woken [OF same])
    show ?thesis using run s3 r'(2-4) [unfolded wke] True by (simp add: comp_def)
  next
    case False
    have nv: "state c t \<noteq> INVALID" "cleanup_thread c \<noteq> Some t" using Cons.prems(6) by (auto simp: can_wait_def)
    have "t \<notin> set (rs @ ws @ ds @ ps)" using Cons.prems(5) by auto
    then obtain c1 where c1: "k_proc_QueueWaitingThread (Some t) c = Some c1"
      "thread_lists c1 rs (ws @ [t]) ds ps" "queued_waiting c ws t c1"
      using QueueWaitingThread_lists [OF Cons.prems(1) _ nv] by blast
    have s: "state c1 = state c" "same_threads c c1"
      and nx: "\<And>u. u \<notin> set (t # ws) \<Longrightarrow> queue_next c1 u = queue_next c u"
      using c1(3) by (auto simp: queued_waiting_def)
    have "chain (queue_next c1) (queue_next c t) us = chain (queue_next c) (queue_next c t) us"
      by (rule chain_cong, rule nx) (use d Cons.prems(5) in auto)
    then have u: "chain (queue_next c1) (queue_next c t) us" using p(2) by simp
    have "chain (queue_next c1) r vs = chain (queue_next c) r vs"
      by (rule chain_cong, rule nx) (use Cons.prems(4,5) in auto)
    then have v: "chain (queue_next c1) r vs" using Cons.prems(3) by simp
    have w: "can_wait c1 us"
      using Cons.prems(6) same_threads_can_wait [OF s(2,1)] by (simp add: can_wait_def)
    have s1: "set us \<inter> set vs = {}" using Cons.prems(4) by auto
    have s2: "(set us \<union> set vs) \<inter> set (rs @ (ws @ [t]) @ ds @ ps) = {}"
      using Cons.prems(4,5) d by auto
    obtain r' c' where r': "wake_loop (queue_next c t) r c1 = Some (r', c')"
      "thread_lists c' rs ((ws @ [t]) @ filter (Not \<circ> woken c1) us) ds ps"
      "chain (queue_next c') r' (rev (filter (woken c1) us) @ vs)" "state c' = state c1" "same_threads c1 c'"
      using Cons.IH [OF c1(2) u v s1 s2 w] by blast
    have "wake_loop p r c = Some (r', c')" using p(1) a False wk c1(1) r'(1) by (simp add: wake_loop_Some)
    moreover have "same_threads c c'" using s(2) r'(5) by (rule same_threads_trans)
    moreover have "woken c1 = woken c" by (rule same_threads_woken [OF s(2)])
    ultimately show ?thesis using r'(2-4) False s(1) by (simp add: comp_def)
  qed
qed

lemma wake_waiting_lists:
  assumes l: "thread_lists c rs ws ds ps" and w: "can_wait c ws"
  shows "\<exists>c'. wake_waiting c = Some c' \<and>
    thread_lists c' (rs @ rev (filter (woken c) ws)) (filter (Not \<circ> woken c) ws) ds ps \<and>
    state c' = (\<lambda>t. if t \<in> set ws \<and> woken c t then READY else state c t) \<and> same_threads c c'"
proof -
  let ?c = "c\<lparr>cond_wait_threads := None, cond_wait_last_thread := None\<rparr>"
  let ?us = "rev (filter (woken c) ws)"
  have same: "same_threads c ?c" by (simp add: same_threads_def)
  have "thread_lists ?c rs [] ds ps" "chain (queue_next ?c) (cond_wait_threads c) ws"
    "(set ws \<union> set []) \<inter> set (rs @ [] @ ds @ ps) = {}" "can_wait ?c ws"
    using l w by (auto simp: thread_lists_def queue_list_def can_wait_def)
  then obtain r c1 where c1: "wake_loop (cond_wait_threads c) None ?c = Some (r, c1)"
    "thread_lists c1 rs (filter (Not \<circ> woken c) ws) ds ps" "chain (queue_next c1) r ?us"
    "state c1 = state c" "same_threads c c1"
    using wake_loop_lists [of ?c rs "[]" ds ps "cond_wait_threads c" ws None "[]"]
      same_threads_woken [OF same] same_threads_trans [OF same] by auto
  show ?thesis
  proof (cases ?us)
    case Nil
    then have "r = None" using c1(3) by simp
    moreover have "filter (woken c) ws = []" using Nil by simp
    moreover have "state c = (\<lambda>t. if t \<in> set ws \<and> woken c t then READY else state c t)"
      using Nil by (auto simp: filter_empty_conv fun_eq_iff)
    ultimately show ?thesis using c1 Nil by (auto simp: wake_waiting_def Let_def)
  next
    case (Cons t ts)
    then have t: "t \<in> set ?us" "r = Some t" using c1(3) by (auto simp: Cons)
    then have "state c1 t \<noteq> INVALID" using w c1(4) by (auto simp: can_wait_def)
    moreover have "set ?us \<inter> set (rs @ filter (Not \<circ> woken c) ws @ ds @ ps) = {}"
      using l by (auto simp: thread_lists_def)
    ultimately obtain c2 where c2: "k_proc_QueueReadyThread (Some t) c1 = Some c2"
      "thread_lists c2 (rs @ ?us) (filter (Not \<circ> woken c) ws) ds ps" "readied c1 rs (set ?us) c2"
      using QueueReadyThread_lists [OF c1(2), of t ?us] c1(3) t(2) by auto
    have "wake_waiting c = Some c2" using c1(1) c2(1) t(2) by (simp add: wake_waiting_def Let_def)
    moreover have "state c2 = (\<lambda>t. if t \<in> set ws \<and> woken c t then READY else state c t)"
      using c2(3) unfolding readied_def c1(4) by auto
    moreover have "same_threads c c2"
      using c2(3) c1(5) by (auto simp: readied_def intro: same_threads_trans)
    ultimately show ?thesis using c2(2) by blast
  qed
qed

section \<open>Cleanup\<close>

primrec release_stacks :: "k_proc_core \<Rightarrow> nat list \<Rightarrow> kmem \<Rightarrow> kmem option" where
  "release_stacks c [] k = Some k"
| "release_stacks c (t # ts) k = Option.bind (release_stack (kernel_stack_base c t) k) (release_stacks c ts)"

text \<open>What the cleanup leaves alone, the memory apart.\<close>

definition same_but_mem :: "k_proc_core \<Rightarrow> k_proc_core \<Rightarrow> bool" where
  "same_but_mem c c' \<longleftrightarrow> same_threads c (c'\<lparr>core_mem := core_mem c\<rparr>)"

lemma same_but_mem_refl [simp]: "same_but_mem c c"
  by (simp add: same_but_mem_def same_threads_def)

lemma same_but_mem_trans: "same_but_mem a b \<Longrightarrow> same_but_mem b c \<Longrightarrow> same_but_mem a c"
  by (simp add: same_but_mem_def same_threads_def)

lemma same_but_mem_I: "same_threads c c' \<Longrightarrow> same_but_mem c c'"
  by (simp add: same_but_mem_def same_threads_def)

lemma same_but_mem_fields:
  "same_but_mem c c' \<Longrightarrow> detached c' = detached c \<and> wait_condition c' = wait_condition c \<and>
   condition c' = condition c \<and> return_data c' = return_data c \<and> current_thread c' = current_thread c \<and>
   cleanup_thread c' = cleanup_thread c \<and> start_sp c' = start_sp c \<and>
   kernel_stack_offset c' = kernel_stack_offset c \<and> scheduler_thread c' = scheduler_thread c"
  by (simp add: same_but_mem_def same_threads_def)

lemma release_stacks_cong:
  assumes "start_sp c' = start_sp c" "kernel_stack_offset c' = kernel_stack_offset c"
  shows "release_stacks c' ts = release_stacks c ts"
  by (induction ts; rule ext) (simp_all add: kernel_stack_base_def assms)

lemma destroy_loop_None [simp]: "destroy_loop None c = Some c"
  by (subst destroy_loop.simps) simp

lemma destroy_loop_Some:
  "destroy_loop (Some t) c = Option.bind (k_proc_DestroyThread (Some t) c) (destroy_loop (queue_next c t))"
  by (subst destroy_loop.simps) simp

lemma DestroyThread_lists:
  assumes l: "thread_lists c rs ws ds ps" and t: "t \<notin> set (rs @ ws @ ds @ ps)" and v: "state c t \<noteq> INVALID"
    and m: "release_stack (kernel_stack_base c t) (hk (core_mem c)) = Some k"
  shows "\<exists>c'. k_proc_DestroyThread (Some t) c = Some c' \<and> thread_lists c' rs ws ds (t # ps) \<and>
    state c' = (state c)(t := INVALID) \<and> hk (core_mem c') = k \<and> same_but_mem c c' \<and>
    queue_next c' = (queue_next c)(t := pool_threads c)"
proof -
  let ?c = "(set_state t INVALID c)\<lparr>core_mem := (core_mem c)\<lparr>hk := k\<rparr>,
    queue_next := (queue_next c)(t := pool_threads c), pool_threads := Some t\<rparr>"
  have "k_proc_DestroyThread (Some t) c = Some ?c"
    using v m by (simp add: k_proc_DestroyThread_def K_PROC_THREAD_VALID_def)
  moreover have "thread_lists ?c rs ws ds (t # ps)"
    using l t by (auto simp: thread_lists_def queue_list_def set_state_def fun_upd_same simp del: fun_upd_apply)
  moreover have "same_but_mem c ?c" by (simp add: same_but_mem_def same_threads_def set_state_def)
  ultimately show ?thesis by (auto simp: set_state_def)
qed

lemma destroy_loop_lists:
  "thread_lists c rs ws ds ps \<Longrightarrow> chain (queue_next c) p us \<Longrightarrow> set us \<inter> set (rs @ ws @ ds @ ps) = {} \<Longrightarrow>
   \<forall>t \<in> set us. state c t \<noteq> INVALID \<Longrightarrow> release_stacks c us (hk (core_mem c)) = Some k \<Longrightarrow>
   \<exists>c'. destroy_loop p c = Some c' \<and> thread_lists c' rs ws ds (rev us @ ps) \<and>
     state c' = (\<lambda>t. if t \<in> set us then INVALID else state c t) \<and> hk (core_mem c') = k \<and> same_but_mem c c'"
proof (induction us arbitrary: p c ps)
  case Nil
  then show ?case by auto
next
  case (Cons t us)
  have p: "p = Some t" "chain (queue_next c) (queue_next c t) us" using Cons.prems(2) by auto
  have d: "t \<notin> set us" using chain_distinct [OF Cons.prems(2)] by simp
  obtain k1 where k1: "release_stack (kernel_stack_base c t) (hk (core_mem c)) = Some k1"
    "release_stacks c us k1 = Some k"
    using Cons.prems(5) by (auto simp: bind_eq_Some_conv)
  have nt: "t \<notin> set (rs @ ws @ ds @ ps)" "state c t \<noteq> INVALID" using Cons.prems(3,4) by auto
  obtain c1 where c1: "k_proc_DestroyThread (Some t) c = Some c1" "thread_lists c1 rs ws ds (t # ps)"
    "state c1 = (state c)(t := INVALID)" "hk (core_mem c1) = k1" "same_but_mem c c1"
    "queue_next c1 = (queue_next c)(t := pool_threads c)"
    using DestroyThread_lists [OF Cons.prems(1) nt k1(1)] by blast
  have u: "chain (queue_next c1) (queue_next c t) us" using p(2) d c1(6) by (simp del: fun_upd_apply)
  have s: "set us \<inter> set (rs @ ws @ ds @ t # ps) = {}" using Cons.prems(3) d by auto
  have v: "\<forall>t \<in> set us. state c1 t \<noteq> INVALID" using Cons.prems(4) d c1(3) by auto
  have r: "release_stacks c1 us (hk (core_mem c1)) = Some k"
    using k1(2) c1(4) release_stacks_cong [of c1 c] same_but_mem_fields [OF c1(5)] by simp
  obtain c2 where c2: "destroy_loop (queue_next c t) c1 = Some c2" "thread_lists c2 rs ws ds (rev us @ t # ps)"
    "state c2 = (\<lambda>t. if t \<in> set us then INVALID else state c1 t)" "hk (core_mem c2) = k" "same_but_mem c1 c2"
    using Cons.IH [OF c1(2) u s v r] by blast
  have "same_but_mem c c2" using c1(5) c2(5) by (rule same_but_mem_trans)
  moreover have "state c2 = (\<lambda>u. if u \<in> set (t # us) then INVALID else state c u)"
    using c2(3) c1(3) by (auto simp: fun_eq_iff)
  ultimately show ?case using p(1) c1(1) c2(1,2,4) by (simp add: destroy_loop_Some)
qed

section \<open>A scheduler pass\<close>

lemma next_ready_lists:
  assumes "thread_lists c rs ws ds ps"
  shows "fst (next_ready c) = (case rs of [] \<Rightarrow> None | t # _ \<Rightarrow> Some t) \<and>
    thread_lists (snd (next_ready c)) (tl rs) ws ds ps \<and> state (snd (next_ready c)) = state c \<and>
    same_threads c (snd (next_ready c)) \<and> (rs \<noteq> [] \<longrightarrow> queue_next (snd (next_ready c)) (hd rs) = None)"
proof (cases rs)
  case Nil
  then show ?thesis using assms
    by (auto simp: next_ready_def thread_lists_def queue_list_def same_threads_def)
next
  case (Cons t ts)
  then show ?thesis using assms
    by (auto simp: next_ready_def thread_lists_def queue_list_def same_threads_def fun_upd_same simp del: fun_upd_apply)
qed

lemma thread_lists_cong:
  "queue_next c' = queue_next c \<Longrightarrow> ready_threads c' = ready_threads c \<Longrightarrow>
   last_ready_thread c' = last_ready_thread c \<Longrightarrow> cond_wait_threads c' = cond_wait_threads c \<Longrightarrow>
   cond_wait_last_thread c' = cond_wait_last_thread c \<Longrightarrow> delete_list c' = delete_list c \<Longrightarrow>
   pool_threads c' = pool_threads c \<Longrightarrow> thread_lists c' rs ws ds ps = thread_lists c rs ws ds ps"
  by (simp add: thread_lists_def)

lemma thread_lists_run_begin [simp]: "thread_lists (run_begin t c) rs ws ds ps = thread_lists c rs ws ds ps"
  by (rule thread_lists_cong) (simp_all add: run_begin_def k_proc_SwitchToThread_def set_state_def)

lemma thread_lists_set_state [simp]: "thread_lists (set_state t s c) rs ws ds ps = thread_lists c rs ws ds ps"
  by (rule thread_lists_cong) (simp_all add: set_state_def)

lemma thread_lists_yield [simp]: "thread_lists (k_proc_YieldThread c) rs ws ds ps = thread_lists c rs ws ds ps"
  by (rule thread_lists_cong) (simp_all add: k_proc_YieldThread_def k_proc_SwitchToThread_def)

lemma scheduler_pass_lists:
  assumes l: "thread_lists c rs ws ds ps" and w: "can_wait c ws"
    and k: "cleanup_thread c = Some k" "k \<notin> set (rs @ ws @ ds @ ps)"
    and d: "\<forall>t \<in> set ds. state c t \<noteq> INVALID" and m: "release_stacks c ds (hk (core_mem c)) = Some mem"
    and R: "R = rs @ rev (filter (woken c) ws)"
  shows "\<exists>c'. scheduler_pass True c = Some (case R of [] \<Rightarrow> None | t # _ \<Rightarrow> Some t, c') \<and>
    thread_lists c' (tl R) (filter (Not \<circ> woken c) ws) [] (rev ds @ ps) \<and>
    state c' = (\<lambda>t. if R \<noteq> [] \<and> t = hd R then RUNNING else if t = k then READY
      else if t \<in> set ds then INVALID else if t \<in> set ws \<and> woken c t then READY else state c t) \<and>
    current_thread c' = (case R of [] \<Rightarrow> scheduler_thread c | t # _ \<Rightarrow> t) \<and> hk (core_mem c') = mem \<and>
    (R \<noteq> [] \<longrightarrow> queue_next c' (hd R) = None) \<and>
    same_but_mem (c\<lparr>current_thread := current_thread c'\<rparr>) c'"
proof -
  let ?W = "filter (Not \<circ> woken c) ws"
  obtain c1 where c1: "wake_waiting c = Some c1" "thread_lists c1 R ?W ds ps"
    "state c1 = (\<lambda>t. if t \<in> set ws \<and> woken c t then READY else state c t)" "same_threads c c1"
    using wake_waiting_lists [OF l w] unfolding R by blast
  define c2 where "c2 = (run_begin k c1)\<lparr>delete_list := None\<rparr>"
  have l2: "thread_lists c2 R ?W [] ps" and ch: "chain (queue_next c2) (delete_list c1) ds"
    using c1(2) by (auto simp: c2_def thread_lists_def run_begin_def k_proc_SwitchToThread_def set_state_def)
  have f2: "start_sp c2 = start_sp c" "kernel_stack_offset c2 = kernel_stack_offset c" "core_mem c2 = core_mem c"
    "state c2 = (state c1)(k := RUNNING)" "scheduler_thread c2 = scheduler_thread c"
    "same_but_mem (c\<lparr>current_thread := k\<rparr>) c2"
    using c1(4) by (simp_all add: same_but_mem_def same_threads_def c2_def run_begin_def
      k_proc_SwitchToThread_def set_state_def)
  have wd: "set ws \<inter> set ds = {}" using l by (auto simp: thread_lists_def)
  have s2: "set ds \<inter> set (R @ ?W @ [] @ ps) = {}" using c1(2) by (auto simp: thread_lists_def)
  have v2: "\<forall>t \<in> set ds. state c2 t \<noteq> INVALID" using d k(2) wd f2(4) c1(3) by auto
  have r2: "release_stacks c2 ds (hk (core_mem c2)) = Some mem"
    using m release_stacks_cong [OF f2(1,2)] f2(3) by simp
  obtain c3 where c3: "destroy_loop (delete_list c1) c2 = Some c3" "thread_lists c3 R ?W [] (rev ds @ ps)"
    "state c3 = (\<lambda>t. if t \<in> set ds then INVALID else state c2 t)" "hk (core_mem c3) = mem" "same_but_mem c2 c3"
    using destroy_loop_lists [OF l2 ch s2 v2 r2] by blast
  have cl: "k_proc_CleanupThread True (run_begin k c1) = Some c3"
    using c3(1) by (simp add: k_proc_CleanupThread_def c2_def run_begin_def k_proc_SwitchToThread_def set_state_def)
  define c4 where "c4 = set_state k READY (k_proc_YieldThread c3)"
  have k3: "cleanup_thread c3 = Some k" "scheduler_thread c3 = scheduler_thread c"
    using k(1) f2(5,6) c3(5) by (auto simp: same_but_mem_def same_threads_def)
  then have re: "run_end k (k_proc_YieldThread c3) = Some c4"
    by (simp add: run_end_def c4_def k_proc_YieldThread_def k_proc_SwitchToThread_def)
  have l4: "thread_lists c4 R ?W [] (rev ds @ ps)" using c3(2) by (simp add: c4_def)
  obtain nt c5 where n: "next_ready c4 = (nt, c5)" by (cases "next_ready c4")
  have c5: "nt = (case R of [] \<Rightarrow> None | t # _ \<Rightarrow> Some t)" "thread_lists c5 (tl R) ?W [] (rev ds @ ps)"
    "state c5 = state c4" "same_threads c4 c5" "R \<noteq> [] \<longrightarrow> queue_next c5 (hd R) = None"
    using next_ready_lists [OF l4] n by auto
  define c' where "c' = (case nt of None \<Rightarrow> c5 | Some t \<Rightarrow> run_begin t c5)"
  have run: "scheduler_pass True c = Some (nt, c')"
    using c1(1,4) k(1) cl re n by (auto simp: scheduler_pass_def same_threads_def c'_def split: option.split)
  have "thread_lists c' (tl R) ?W [] (rev ds @ ps)"
    using c5(2) by (simp add: c'_def split: option.split)
  moreover have "state c' = (\<lambda>t. if R \<noteq> [] \<and> t = hd R then RUNNING else if t = k then READY
      else if t \<in> set ds then INVALID else if t \<in> set ws \<and> woken c t then READY else state c t)"
    using c5(1,3) c3(3) f2(4) c1(3) k(2)
    by (auto simp: c'_def c4_def fun_eq_iff run_begin_def k_proc_SwitchToThread_def set_state_def
      k_proc_YieldThread_def split: option.split list.split)
  moreover have "current_thread c' = (case R of [] \<Rightarrow> scheduler_thread c | t # _ \<Rightarrow> t)"
    using c5(1,4) k3(2) by (auto simp: c'_def c4_def run_begin_def k_proc_SwitchToThread_def set_state_def
      k_proc_YieldThread_def same_threads_def split: option.split list.split)
  moreover have "hk (core_mem c') = mem \<and> same_but_mem (c\<lparr>current_thread := current_thread c'\<rparr>) c'"
    using c5(4) c3(4,5) f2(6) by (auto simp: c'_def c4_def run_begin_def k_proc_SwitchToThread_def set_state_def
      k_proc_YieldThread_def same_threads_def same_but_mem_def split: option.split)
  moreover have "R \<noteq> [] \<longrightarrow> queue_next c' (hd R) = None"
    using c5(5) by (auto simp: c'_def run_begin_def k_proc_SwitchToThread_def set_state_def split: option.split)
  ultimately show ?thesis using run c5(1) by blast
qed

end
