(* ===== verification/Proc_Step.thy ===== *)
theory Proc_Step
  imports Proc_Sched
begin

text \<open>
  The scheduler and the threads as one transition system on a single core. A running thread
  makes the kernel calls that its position in the code allows, and can be switched away at any
  point by the timer; the scheduler pass is one step, since it runs with interrupts off. A
  configuration is the core, the position of every thread and the set of threads ever created.
  The invariant says on which list every thread is, by its state and position.
\<close>

section \<open>Positions and steps\<close>

text \<open>
  \<open>Waiting\<close>: in \<open>k_proc_WaitCondition\<close>, condition stored. \<open>Blocked\<close>: state changed, about to yield.
  \<open>Dying\<close>: in \<open>k_proc_TerminateThread\<close>, state changed. \<open>Dead\<close>: condition signalled, about to yield.
\<close>

datatype position = User | Waiting | Blocked | Dying | Dead

type_synonym config = "k_proc_core \<times> (nat \<Rightarrow> position) \<times> nat set"

inductive core_step :: "config \<Rightarrow> config \<Rightarrow> bool" where
  pass: "current_thread c = scheduler_thread c \<Longrightarrow> scheduler_pass True c = Some (nt, c') \<Longrightarrow>
    core_step (c, pc, T) (c', pc, T)"
| switch_back: "current_thread c = t \<Longrightarrow> t \<noteq> scheduler_thread c \<Longrightarrow>
    run_end t (k_proc_YieldThread c) = Some c' \<Longrightarrow> core_step (c, pc, T) (c', pc, T)"
| signal: "current_thread c = t \<Longrightarrow> t \<noteq> scheduler_thread c \<Longrightarrow> pc t = User \<Longrightarrow>
    core_step (c, pc, T) (k_rt_SignalCondition a c, pc, T)"
| clear: "current_thread c = t \<Longrightarrow> t \<noteq> scheduler_thread c \<Longrightarrow> pc t = User \<Longrightarrow>
    core_step (c, pc, T) (k_rt_ClearCondition a c, pc, T)"
| detach: "current_thread c = t \<Longrightarrow> t \<noteq> scheduler_thread c \<Longrightarrow> pc t = User \<Longrightarrow> u \<in> T \<Longrightarrow>
    core_step (c, pc, T) (k_proc_DetachThread (Some u) c, pc, T)"
| join: "current_thread c = t \<Longrightarrow> t \<noteq> scheduler_thread c \<Longrightarrow> pc t = User \<Longrightarrow> u \<in> T \<Longrightarrow>
    wait_thread_end u c = (status, v, c') \<Longrightarrow> core_step (c, pc, T) (c', pc, T)"
| wait_store: "current_thread c = t \<Longrightarrow> t \<noteq> scheduler_thread c \<Longrightarrow> pc t = User \<Longrightarrow> \<not> condition c a \<Longrightarrow>
    core_step (c, pc, T) (wait_store a c, pc(t := Waiting), T)"
| wait_state: "current_thread c = t \<Longrightarrow> t \<noteq> scheduler_thread c \<Longrightarrow> pc t = Waiting \<Longrightarrow>
    core_step (c, pc, T) (wait_state c, pc(t := Blocked), T)"
| wait_return: "current_thread c = t \<Longrightarrow> t \<noteq> scheduler_thread c \<Longrightarrow> pc t = Blocked \<Longrightarrow> state c t = RUNNING \<Longrightarrow>
    core_step (c, pc, T) (c, pc(t := User), T)"
| terminate_state: "current_thread c = t \<Longrightarrow> t \<noteq> scheduler_thread c \<Longrightarrow> pc t = User \<Longrightarrow>
    core_step (c, pc, T) (terminate_state v c, pc(t := Dying), T)"
| terminate_signal: "current_thread c = t \<Longrightarrow> t \<noteq> scheduler_thread c \<Longrightarrow> pc t = Dying \<Longrightarrow>
    core_step (c, pc, T) (terminate_signal c, pc(t := Dead), T)"
| create: "current_thread c = t \<Longrightarrow> t \<noteq> scheduler_thread c \<Longrightarrow> pc t = User \<Longrightarrow>
    pool_supplied c (insert (scheduler_thread c) (T \<union> set_option (cleanup_thread c))) \<Longrightarrow>
    k_proc_CreateThread start_eip init c = Some (Some u, c') \<Longrightarrow>
    core_step (c, pc, T) (c', pc(u := User), insert u T)"

text \<open>The core after its initialization: only the cleanup thread exists, outside every list.\<close>

definition initial_core :: "k_proc_core \<Rightarrow> bool" where
  "initial_core c \<longleftrightarrow> ready_threads c = None \<and> cond_wait_threads c = None \<and> delete_list c = None \<and>
     (\<exists>ps k. chain (queue_next c) (pool_threads c) ps \<and> cleanup_thread c = Some k \<and> k \<notin> set ps \<and>
       k \<noteq> scheduler_thread c \<and> scheduler_thread c \<notin> set ps) \<and>
     current_thread c = scheduler_thread c"

section \<open>The invariant\<close>

definition current_ok :: "k_proc_core \<Rightarrow> (nat \<Rightarrow> position) \<Rightarrow> nat \<Rightarrow> bool" where
  "current_ok c pc t = (case pc t of
      User \<Rightarrow> state c t = RUNNING
    | Waiting \<Rightarrow> state c t = RUNNING
    | Blocked \<Rightarrow> state c t = RUNNING \<or> state c t = COND_WAIT
    | _ \<Rightarrow> state c t = TERMINATED \<or> state c t = DETACHED)"

text \<open>The states and positions of the threads on the lists.\<close>

definition states_ok ::
    "k_proc_core \<Rightarrow> (nat \<Rightarrow> position) \<Rightarrow> nat set \<Rightarrow> nat list \<Rightarrow> nat list \<Rightarrow> nat list \<Rightarrow> nat list \<Rightarrow> bool" where
  "states_ok c pc T rs ws ds ps \<longleftrightarrow>
     (\<forall>t \<in> set rs. state c t = READY \<and> pc t \<in> {User, Waiting, Blocked}) \<and>
     (\<forall>t \<in> set ws. state c t = COND_WAIT \<and> pc t = Blocked) \<and>
     (\<forall>t \<in> set ds. state c t = DETACHED) \<and>
     (\<forall>t \<in> set ps \<inter> T. state c t = INVALID) \<and>
     (\<forall>t \<in> T. pc t \<in> {Waiting, Blocked} \<longrightarrow> wait_condition c t \<noteq> None)"

definition core_rep ::
    "k_proc_core \<Rightarrow> (nat \<Rightarrow> position) \<Rightarrow> nat set \<Rightarrow> nat list \<Rightarrow> nat list \<Rightarrow> nat list \<Rightarrow> nat list \<Rightarrow> nat \<Rightarrow> bool" where
  "core_rep c pc T rs ws ds ps k \<longleftrightarrow> thread_lists c rs ws ds ps \<and> states_ok c pc T rs ws ds ps \<and>
     set (rs @ ws @ ds) \<subseteq> T \<and> scheduler_thread c \<notin> T \<union> set ps \<and>
     cleanup_thread c = Some k \<and> k \<notin> insert (scheduler_thread c) (T \<union> set ps) \<and>
     (\<forall>t \<in> T. t \<in> set (rs @ ws @ ds @ ps) \<or> t = current_thread c \<or> state c t = TERMINATED) \<and>
     (current_thread c \<noteq> scheduler_thread c \<longrightarrow> current_thread c \<in> T \<and>
       current_thread c \<notin> set (rs @ ws @ ds @ ps) \<and> current_ok c pc (current_thread c) \<and>
       queue_next c (current_thread c) = None)"

definition core_ok :: "config \<Rightarrow> bool" where
  "core_ok = (\<lambda>(c, pc, T). \<exists>rs ws ds ps k. core_rep c pc T rs ws ds ps k)"

lemma core_repD:
  assumes "core_rep c pc T rs ws ds ps k"
  shows "thread_lists c rs ws ds ps" "states_ok c pc T rs ws ds ps" "set (rs @ ws @ ds) \<subseteq> T"
    "scheduler_thread c \<notin> T" "scheduler_thread c \<notin> set ps" "cleanup_thread c = Some k" "k \<notin> T" "k \<notin> set ps"
    "k \<noteq> scheduler_thread c"
    "t \<in> T \<Longrightarrow> t \<in> set (rs @ ws @ ds @ ps) \<or> t = current_thread c \<or> state c t = TERMINATED"
    "current_thread c \<noteq> scheduler_thread c \<Longrightarrow> current_thread c \<in> T"
    "current_thread c \<noteq> scheduler_thread c \<Longrightarrow> current_thread c \<notin> set (rs @ ws @ ds @ ps)"
    "current_thread c \<noteq> scheduler_thread c \<Longrightarrow> current_ok c pc (current_thread c)"
    "current_thread c \<noteq> scheduler_thread c \<Longrightarrow> queue_next c (current_thread c) = None"
  using assms unfolding core_rep_def by blast+

lemma core_repI:
  assumes "thread_lists c rs ws ds ps" "states_ok c pc T rs ws ds ps" "set (rs @ ws @ ds) \<subseteq> T"
    "scheduler_thread c \<notin> T" "scheduler_thread c \<notin> set ps" "cleanup_thread c = Some k" "k \<notin> T" "k \<notin> set ps"
    "k \<noteq> scheduler_thread c"
    "\<And>t. t \<in> T \<Longrightarrow> t \<in> set (rs @ ws @ ds @ ps) \<or> t = current_thread c \<or> state c t = TERMINATED"
    "current_thread c \<noteq> scheduler_thread c \<Longrightarrow> current_thread c \<in> T \<and>
       current_thread c \<notin> set (rs @ ws @ ds @ ps) \<and> current_ok c pc (current_thread c) \<and>
       queue_next c (current_thread c) = None"
  shows "core_ok (c, pc, T)"
  unfolding core_ok_def prod.case core_rep_def
  by (intro exI [of _ rs] exI [of _ ws] exI [of _ ds] exI [of _ ps] exI [of _ k] conjI)
    (use assms in simp_all)

text \<open>A pass that returns has released every stack it had to.\<close>

lemma destroy_loop_release:
  "thread_lists c rs ws ds ps \<Longrightarrow> chain (queue_next c) p us \<Longrightarrow> set us \<inter> set (rs @ ws @ ds @ ps) = {} \<Longrightarrow>
   \<forall>t \<in> set us. state c t \<noteq> INVALID \<Longrightarrow> destroy_loop p c = Some c' \<Longrightarrow>
   \<exists>k. release_stacks c us (hk (core_mem c)) = Some k"
proof (induction us arbitrary: p c ps)
  case Nil
  then show ?case by simp
next
  case (Cons t us)
  have p: "p = Some t" "chain (queue_next c) (queue_next c t) us" using Cons.prems(2) by auto
  have d: "t \<notin> set us" using chain_distinct [OF Cons.prems(2)] by simp
  have nt: "t \<notin> set (rs @ ws @ ds @ ps)" "state c t \<noteq> INVALID" using Cons.prems(3,4) by auto
  obtain c1 where c1: "k_proc_DestroyThread (Some t) c = Some c1" "destroy_loop (queue_next c t) c1 = Some c'"
    using Cons.prems(5) p(1) by (auto simp: destroy_loop_Some bind_eq_Some_conv)
  obtain k1 where k1: "release_stack (kernel_stack_base c t) (hk (core_mem c)) = Some k1"
    using c1(1) nt(2) by (auto simp: k_proc_DestroyThread_def K_PROC_THREAD_VALID_def bind_eq_Some_conv)
  have c1': "thread_lists c1 rs ws ds (t # ps)" "state c1 = (state c)(t := INVALID)" "hk (core_mem c1) = k1"
    "same_but_mem c c1" "queue_next c1 = (queue_next c)(t := pool_threads c)"
    using DestroyThread_lists [OF Cons.prems(1) nt k1] c1(1) by auto
  have u: "chain (queue_next c1) (queue_next c t) us" using p(2) d c1'(5) by (simp del: fun_upd_apply)
  have s: "set us \<inter> set (rs @ ws @ ds @ t # ps) = {}" using Cons.prems(3) d by auto
  have v: "\<forall>t \<in> set us. state c1 t \<noteq> INVALID" using Cons.prems(4) d c1'(2) by auto
  obtain k where "release_stacks c1 us (hk (core_mem c1)) = Some k"
    using Cons.IH [OF c1'(1) u s v c1(2)] by blast
  then show ?case
    using k1 c1'(3) release_stacks_cong [of c1 c] same_but_mem_fields [OF c1'(4)] by simp
qed

lemma pass_release:
  assumes l: "thread_lists c rs ws ds ps" and w: "can_wait c ws"
    and k: "cleanup_thread c = Some k" "k \<notin> set (rs @ ws @ ds @ ps)"
    and d: "\<forall>t \<in> set ds. state c t \<noteq> INVALID" and run: "scheduler_pass True c = Some x"
  shows "\<exists>mem. release_stacks c ds (hk (core_mem c)) = Some mem"
proof -
  let ?W = "filter (Not \<circ> woken c) ws" and ?R = "rs @ rev (filter (woken c) ws)"
  obtain c1 where c1: "wake_waiting c = Some c1" "thread_lists c1 ?R ?W ds ps"
    "state c1 = (\<lambda>t. if t \<in> set ws \<and> woken c t then READY else state c t)" "same_threads c c1"
    using wake_waiting_lists [OF l w] by blast
  define c2 where "c2 = (run_begin k c1)\<lparr>delete_list := None\<rparr>"
  have l2: "thread_lists c2 ?R ?W [] ps" and ch: "chain (queue_next c2) (delete_list c1) ds"
    using c1(2) by (auto simp: c2_def thread_lists_def run_begin_def k_proc_SwitchToThread_def set_state_def)
  have f2: "start_sp c2 = start_sp c" "kernel_stack_offset c2 = kernel_stack_offset c" "core_mem c2 = core_mem c"
    "state c2 = (state c1)(k := RUNNING)"
    using c1(4) by (simp_all add: same_threads_def c2_def run_begin_def k_proc_SwitchToThread_def set_state_def)
  have wd: "set ws \<inter> set ds = {}" using l by (auto simp: thread_lists_def)
  have s2: "set ds \<inter> set (?R @ ?W @ [] @ ps) = {}" using c1(2) by (auto simp: thread_lists_def)
  have v2: "\<forall>t \<in> set ds. state c2 t \<noteq> INVALID" using d k(2) wd f2(4) c1(3) by auto
  have kc: "cleanup_thread c1 = Some k" using c1(4) k(1) by (simp add: same_threads_def)
  have cl: "k_proc_CleanupThread True (run_begin k c1) = destroy_loop (delete_list c1) c2"
    by (simp add: k_proc_CleanupThread_def c2_def run_begin_def k_proc_SwitchToThread_def set_state_def)
  obtain c3 where "destroy_loop (delete_list c1) c2 = Some c3"
    using run unfolding scheduler_pass_def c1(1) by (auto simp: kc cl bind_eq_Some_conv)
  from destroy_loop_release [OF l2 ch s2 v2 this] show ?thesis
    using release_stacks_cong [OF f2(1,2)] f2(3) by simp
qed

section \<open>Every step keeps the invariant\<close>

lemma states_okD:
  assumes "states_ok c pc T rs ws ds ps"
  shows "t \<in> set rs \<Longrightarrow> state c t = READY" "t \<in> set rs \<Longrightarrow> pc t \<in> {User, Waiting, Blocked}"
    "t \<in> set ws \<Longrightarrow> state c t = COND_WAIT" "t \<in> set ws \<Longrightarrow> pc t = Blocked"
    "t \<in> set ds \<Longrightarrow> state c t = DETACHED" "t \<in> set ps \<Longrightarrow> t \<in> T \<Longrightarrow> state c t = INVALID"
    "t \<in> T \<Longrightarrow> pc t \<in> {Waiting, Blocked} \<Longrightarrow> wait_condition c t \<noteq> None"
  using assms unfolding states_ok_def by blast+

lemma states_okI:
  assumes "\<And>t. t \<in> set rs \<Longrightarrow> state c t = READY \<and> pc t \<in> {User, Waiting, Blocked}"
    "\<And>t. t \<in> set ws \<Longrightarrow> state c t = COND_WAIT \<and> pc t = Blocked"
    "\<And>t. t \<in> set ds \<Longrightarrow> state c t = DETACHED"
    "\<And>t. t \<in> set ps \<Longrightarrow> t \<in> T \<Longrightarrow> state c t = INVALID"
    "\<And>t. t \<in> T \<Longrightarrow> pc t \<in> {Waiting, Blocked} \<Longrightarrow> wait_condition c t \<noteq> None"
  shows "states_ok c pc T rs ws ds ps"
  using assms unfolding states_ok_def by blast

lemma states_ok_can_wait:
  assumes "states_ok c pc T rs ws ds ps" "set ws \<subseteq> T" "cleanup_thread c = Some k" "k \<notin> T"
  shows "can_wait c ws"
  unfolding can_wait_def
proof
  fix t assume t: "t \<in> set ws"
  then have "state c t = COND_WAIT" "pc t = Blocked" "t \<in> T" using states_okD(3,4) [OF assms(1)] assms(2) by auto
  moreover from this have "wait_condition c t \<noteq> None" using states_okD(7) [OF assms(1)] by blast
  ultimately show "wait_condition c t \<noteq> None \<and> state c t \<noteq> INVALID \<and> cleanup_thread c \<noteq> Some t"
    using assms(3,4) by auto
qed

lemma pass_ok:
  assumes ok: "core_ok (c, pc, T)" and cur: "current_thread c = scheduler_thread c"
    and run: "scheduler_pass True c = Some (nt, c')"
  shows "core_ok (c', pc, T)"
proof -
  obtain rs ws ds ps k where rep: "core_rep c pc T rs ws ds ps k"
    using ok unfolding core_ok_def by blast
  note l = core_repD(1) [OF rep] and st = core_repD(2) [OF rep] and T = core_repD(3-5) [OF rep]
    and k = core_repD(6-9) [OF rep] and all = core_repD(10) [OF rep]
  define R where "R = rs @ rev (filter (woken c) ws)"
  let ?W = "filter (Not \<circ> woken c) ws"
  have w: "can_wait c ws" by (rule states_ok_can_wait [OF st _ k(1,2)]) (use T in auto)
  have kn: "k \<notin> set (rs @ ws @ ds @ ps)" using T k by auto
  have dv: "\<forall>t \<in> set ds. state c t \<noteq> INVALID" using states_okD(5) [OF st] by simp
  obtain mem where m: "release_stacks c ds (hk (core_mem c)) = Some mem"
    using pass_release [OF l w k(1) kn dv run] by blast
  have res: "thread_lists c' (tl R) ?W [] (rev ds @ ps)"
    "state c' = (\<lambda>t. if R \<noteq> [] \<and> t = hd R then RUNNING else if t = k then READY
      else if t \<in> set ds then INVALID else if t \<in> set ws \<and> woken c t then READY else state c t)"
    "current_thread c' = (case R of [] \<Rightarrow> scheduler_thread c | t # _ \<Rightarrow> t)"
    "same_but_mem (c\<lparr>current_thread := current_thread c'\<rparr>) c'" "R \<noteq> [] \<longrightarrow> queue_next c' (hd R) = None"
    using scheduler_pass_lists [OF l w k(1) kn dv m R_def] run by auto
  have f: "wait_condition c' = wait_condition c" "scheduler_thread c' = scheduler_thread c" "cleanup_thread c' = Some k"
    using res(4) k(1) by (simp_all add: same_but_mem_def same_threads_def)
  have dist: "distinct (rs @ ws @ ds @ ps)" using l by (simp add: thread_lists_def)
  have Rset: "set R \<subseteq> set rs \<union> set ws" "set R \<subseteq> T" using T(1) by (auto simp: R_def)
  have dR: "distinct R" using dist by (auto simp: R_def)
  have wW: "t \<in> set ws \<Longrightarrow> t \<in> set R \<or> t \<in> set ?W" for t by (auto simp: R_def)
  have tlR: "t \<in> set R \<Longrightarrow> t \<in> set (tl R) \<or> t = hd R" for t by (cases R) auto
  have tlR': "t \<in> set (tl R) \<Longrightarrow> t \<in> set R \<and> t \<noteq> hd R" for t using dR by (cases R) auto
  have Rin: "t \<in> set rs \<or> t \<in> set ws \<and> woken c t" if "t \<in> set R" for t using that by (auto simp: R_def)
  have Rdis: "t \<notin> set ds \<and> t \<notin> set ps \<and> t \<notin> set ?W" if "t \<in> set R" for t using that dist by (auto simp: R_def)
  have Rpc: "pc t \<in> {User, Waiting, Blocked}" if "t \<in> set R" for t
    using Rin [OF that] states_okD(2,4) [OF st] by auto
  have Rst: "state c' t = READY" if "t \<in> set R" "t \<noteq> hd R" for t
    using Rin [OF that(1)] Rdis [OF that(1)] that states_okD(1) [OF st] unfolding res(2) by auto
  have stR: "state c' t = READY \<and> pc t \<in> {User, Waiting, Blocked}" if "t \<in> set (tl R)" for t
    using tlR' [OF that] Rst Rpc by blast
  have hdR: "R \<noteq> [] \<Longrightarrow> pc (hd R) \<in> {User, Waiting, Blocked} \<and> state c' (hd R) = RUNNING"
    using Rpc hd_in_set unfolding res(2) by simp
  have nR: "t \<notin> set R \<Longrightarrow> \<not> (R \<noteq> [] \<and> t = hd R)" for t using hd_in_set by blast
  have W: "state c' t = COND_WAIT \<and> pc t = Blocked" if "t \<in> set ?W" for t
  proof -
    have t: "t \<in> set ws" "\<not> woken c t" "t \<notin> set ds" "t \<noteq> k" "t \<notin> set R"
      using that dist T(1) k(2) by (auto simp: R_def)
    then show ?thesis using states_okD(3,4) [OF st t(1)] nR [OF t(5)] unfolding res(2) by simp
  qed
  have I: "state c' t = INVALID" if "t \<in> set (rev ds @ ps)" "t \<in> T" for t
  proof -
    have t: "t \<notin> set ws" "t \<noteq> k" "t \<notin> set R" using that dist k(2) by (auto simp: R_def)
    then show ?thesis using that states_okD(6) [OF st] nR [OF t(3)] unfolding res(2) by auto
  qed
  show ?thesis
  proof (rule core_repI [where k = k, OF res(1)])
    show "states_ok c' pc T (tl R) ?W [] (rev ds @ ps)"
      by (rule states_okI) (use stR W I states_okD(7) [OF st] f(1) in simp_all)
    show "set (tl R @ ?W @ []) \<subseteq> T" using Rset(2) tlR' T(1) by auto
  next
    fix t assume t: "t \<in> T"
    consider "t \<in> set rs \<union> set ws" | "t \<in> set (ds @ ps)" | "state c t = TERMINATED" "t \<notin> set (rs @ ws @ ds @ ps)"
      using all [OF t] cur t T(2) by auto
    then show "t \<in> set (tl R @ ?W @ [] @ rev ds @ ps) \<or> t = current_thread c' \<or> state c' t = TERMINATED"
    proof cases
      case 1
      then have "t \<in> set R \<or> t \<in> set ?W" by (auto simp: R_def)
      then show ?thesis using tlR [of t] res(3) by (cases R) auto
    next
      case 3
      then have "t \<notin> set R" "t \<noteq> k" using t k(2) by (auto simp: R_def)
      then have "state c' t = TERMINATED" using 3 nR [of t] unfolding res(2) by auto
      then show ?thesis by simp
    qed auto
  next
    assume n: "current_thread c' \<noteq> scheduler_thread c'"
    show "current_thread c' \<in> T \<and> current_thread c' \<notin> set (tl R @ ?W @ [] @ rev ds @ ps) \<and>
      current_ok c' pc (current_thread c') \<and> queue_next c' (current_thread c') = None"
    proof (cases R)
      case Nil
      then show ?thesis using res(3) f(2) n by simp
    next
      case (Cons t ts)
      have t: "current_thread c' = t" using res(3) Cons by simp
      have "t \<in> T" using Rset(2) Cons by auto
      moreover have "t \<notin> set (tl R @ ?W @ [] @ rev ds @ ps)" using Rdis [of t] dR Cons by auto
      moreover have "current_ok c' pc t" using hdR Cons by (auto simp: current_ok_def)
      moreover have "queue_next c' t = None" using res(5) Cons by simp
      ultimately show ?thesis unfolding t by simp
    qed
  qed (use f T k in auto)
qed

text \<open>A thread that is switched away goes where its state says.\<close>

lemma switch_back_ok:
  assumes ok: "core_ok (c, pc, T)" and cur: "current_thread c \<noteq> scheduler_thread c"
    and run: "run_end (current_thread c) (k_proc_YieldThread c) = Some c'"
  shows "core_ok (c', pc, T)"
proof -
  let ?t = "current_thread c" and ?c = "k_proc_YieldThread c"
  obtain rs ws ds ps k where rep: "core_rep c pc T rs ws ds ps k"
    using ok unfolding core_ok_def by blast
  note st = core_repD(2) [OF rep] and T = core_repD(3-5) [OF rep] and k = core_repD(6-9) [OF rep]
    and all = core_repD(10) [OF rep] and t = core_repD(11-14) [OF rep cur]
  have l: "thread_lists ?c rs ws ds ps" using core_repD(1) [OF rep] by simp
  have y: "state ?c = state c" "cleanup_thread ?c = Some k" "scheduler_thread ?c = scheduler_thread c"
    "current_thread ?c = scheduler_thread c" "wait_condition ?c = wait_condition c"
    using k(1) by (simp_all add: k_proc_YieldThread_def k_proc_SwitchToThread_def)
  have nk: "?t \<noteq> k" using t(1) k(2) by blast
  have pcW: "t \<in> T \<Longrightarrow> pc t \<in> {Waiting, Blocked} \<Longrightarrow> wait_condition c t \<noteq> None" for t
    using states_okD(7) [OF st] .
  consider (is_running) "state c ?t = RUNNING" "pc ?t \<in> {User, Waiting, Blocked}"
    | (is_waiting) "state c ?t = COND_WAIT" "pc ?t = Blocked" | (is_detached) "state c ?t = DETACHED"
    | (is_terminated) "state c ?t = TERMINATED"
    using t(3) by (auto simp: current_ok_def split: position.splits)
  then show ?thesis
  proof cases
    case is_running
    have q: "queue_next ?c ?t = None" "state ?c ?t \<noteq> INVALID"
      using t(4) is_running y(1) by (simp_all add: k_proc_YieldThread_def k_proc_SwitchToThread_def)
    obtain c1 where c1: "k_proc_QueueReadyThread (Some ?t) ?c = Some c1"
      "thread_lists c1 (rs @ [?t]) ws ds ps" "readied ?c rs {?t} c1"
      using QueueReadyThread_one [OF l t(2) q] by blast
    have s: "state c1 = (state c)(?t := READY)" "same_threads ?c c1"
      using c1(3) y(1) by (auto simp: readied_def)
    have "c' = c1" using run is_running c1(1) nk y(1,2) by (simp add: run_end_def)
    show ?thesis unfolding \<open>c' = c1\<close>
    proof (rule core_repI [where k = k, OF c1(2)])
      show "states_ok c1 pc T (rs @ [?t]) ws ds ps"
        by (rule states_okI) (use s t(2) is_running states_okD [OF st] y(5) in \<open>auto simp: same_threads_def\<close>)
    qed (use s y t T k all in \<open>auto simp: same_threads_def\<close>)
  next
    case is_waiting
    have v: "state ?c ?t \<noteq> INVALID" "cleanup_thread ?c \<noteq> Some ?t" using is_waiting y nk by auto
    obtain c1 where c1: "k_proc_QueueWaitingThread (Some ?t) ?c = Some c1"
      "thread_lists c1 rs (ws @ [?t]) ds ps" "queued_waiting ?c ws ?t c1"
      using QueueWaitingThread_lists [OF l t(2) v] by blast
    have s: "state c1 = state c" "same_threads ?c c1" using c1(3) y(1) by (auto simp: queued_waiting_def)
    have "c' = c1" using run c1(1) nk y(1,2) is_waiting by (simp add: run_end_def)
    show ?thesis unfolding \<open>c' = c1\<close>
    proof (rule core_repI [where k = k, OF c1(2)])
      show "states_ok c1 pc T rs (ws @ [?t]) ds ps"
        by (rule states_okI) (use s t(2) is_waiting states_okD [OF st] y(5) in \<open>auto simp: same_threads_def\<close>)
    qed (use s y t T k all in \<open>auto simp: same_threads_def\<close>)
  next
    case is_detached
    have v: "state ?c ?t = DETACHED" "cleanup_thread ?c \<noteq> Some ?t" using is_detached y nk by auto
    let ?c1 = "k_proc_QueueDetachedThread (Some ?t) ?c"
    have l1: "thread_lists ?c1 rs ws (?t # ds) ps" by (rule QueueDetachedThread_lists [OF l t(2) v])
    have s: "state ?c1 = state c" "same_threads ?c ?c1"
      using y(1) by (auto simp: k_proc_QueueDetachedThread_def same_threads_def)
    have "c' = ?c1" using run nk y(1,2) is_detached by (simp add: run_end_def)
    show ?thesis unfolding \<open>c' = ?c1\<close>
    proof (rule core_repI [where k = k, OF l1])
      show "states_ok ?c1 pc T rs ws (?t # ds) ps"
        by (rule states_okI) (use s t(2) is_detached states_okD [OF st] y(5) in \<open>auto simp: same_threads_def\<close>)
    qed (use s y t T k all in \<open>auto simp: same_threads_def\<close>)
  next
    case is_terminated
    then have "c' = ?c" using run nk y(1,2) by (simp add: run_end_def)
    show ?thesis unfolding \<open>c' = ?c\<close>
    proof (rule core_repI [where k = k, OF l])
      show "states_ok ?c pc T rs ws ds ps"
        by (rule states_okI) (use states_okD [OF st] y in auto)
    qed (use is_terminated y t T k all in auto)
  qed
qed

text \<open>Changes that touch neither the lists nor the states.\<close>

lemma core_ok_cong:
  assumes "core_ok (c, pc, T)"
    and "queue_next c' = queue_next c" "ready_threads c' = ready_threads c" "last_ready_thread c' = last_ready_thread c"
      "cond_wait_threads c' = cond_wait_threads c" "cond_wait_last_thread c' = cond_wait_last_thread c"
      "delete_list c' = delete_list c" "pool_threads c' = pool_threads c"
      "state c' = state c" "wait_condition c' = wait_condition c" "current_thread c' = current_thread c"
      "scheduler_thread c' = scheduler_thread c" "cleanup_thread c' = cleanup_thread c"
  shows "core_ok (c', pc, T)"
proof -
  have "thread_lists c' = thread_lists c" by (intro ext thread_lists_cong) (simp_all add: assms)
  moreover have "states_ok c' = states_ok c" by (simp add: fun_eq_iff states_ok_def assms)
  moreover have "current_ok c' = current_ok c" unfolding fun_eq_iff current_ok_def assms by simp
  ultimately have "core_rep c' = core_rep c" unfolding fun_eq_iff core_rep_def assms by simp
  then show ?thesis using assms(1) by (simp add: core_ok_def)
qed

lemma condition_ok: "core_ok (c, pc, T) \<Longrightarrow> core_ok (c\<lparr>condition := x\<rparr>, pc, T)"
  by (erule core_ok_cong) simp_all

lemma current_upd_ok:
  assumes rep: "core_rep c pc T rs ws ds ps k" and cur: "current_thread c \<noteq> scheduler_thread c"
    and c': "c' = c\<lparr>state := (state c)(current_thread c := s), wait_condition := w, return_data := r\<rparr>"
    and pc': "pc' = pc(current_thread c := p)" and cok: "current_ok c' pc' (current_thread c)"
    and w: "\<And>t. t \<in> T \<Longrightarrow> pc' t \<in> {Waiting, Blocked} \<Longrightarrow> w t \<noteq> None"
  shows "core_ok (c', pc', T)"
proof -
  let ?t = "current_thread c"
  note st = core_repD(2) [OF rep] and T = core_repD(3-5) [OF rep] and k = core_repD(6-9) [OF rep]
    and all = core_repD(10) [OF rep] and t = core_repD(11-14) [OF rep cur]
  have l: "thread_lists c' rs ws ds ps"
    using core_repD(1) [OF rep] unfolding c' by (simp add: thread_lists_def)
  show ?thesis
  proof (rule core_repI [where k = k, OF l])
    show "states_ok c' pc' T rs ws ds ps"
      by (rule states_okI) (use t(2) states_okD [OF st] w in \<open>auto simp: c' pc'\<close>)
  qed (use t cok T k all in \<open>auto simp: c'\<close>)
qed

lemma current_ok_upd: "state c' t = state c t \<Longrightarrow> pc' t = pc t \<Longrightarrow> current_ok c' pc' t = current_ok c pc t"
  by (cases "pc t") (simp_all add: current_ok_def)

lemma detach_ok:
  assumes ok: "core_ok (c, pc, T)" and cur: "current_thread c \<noteq> scheduler_thread c" "pc (current_thread c) = User"
    and u: "u \<in> T"
  shows "core_ok (k_proc_DetachThread (Some u) c, pc, T)"
proof -
  obtain rs ws ds ps k where rep: "core_rep c pc T rs ws ds ps k"
    using ok unfolding core_ok_def by blast
  note st = core_repD(2) [OF rep] and T = core_repD(3-5) [OF rep] and k = core_repD(6-9) [OF rep]
    and all = core_repD(10) [OF rep] and t = core_repD(11-14) [OF rep cur(1)]
  have run: "state c (current_thread c) = RUNNING" using t(3) cur(2) by (simp add: current_ok_def)
  let ?c = "c\<lparr>detached := (detached c)(u := True)\<rparr>"
  show ?thesis
  proof (cases "\<not> detached c u \<and> state c u = TERMINATED")
    case True
    let ?c1 = "set_state u DETACHED ?c"
    have un: "u \<notin> set (rs @ ws @ ds @ ps)" "u \<noteq> current_thread c"
      using True u states_okD(1,3,5,6) [OF st] run by auto
    have "thread_lists ?c1 rs ws ds ps = thread_lists c rs ws ds ps"
      by (rule thread_lists_cong) (simp_all add: set_state_def)
    then have l: "thread_lists ?c1 rs ws ds ps" using core_repD(1) [OF rep] by simp
    have v: "state ?c1 u = DETACHED" "cleanup_thread ?c1 \<noteq> Some u"
      using k(1,2) u by (auto simp: set_state_def)
    let ?c2 = "k_proc_QueueDetachedThread (Some u) ?c1"
    have l2: "thread_lists ?c2 rs ws (u # ds) ps" by (rule QueueDetachedThread_lists [OF l un(1) v])
    have s: "state ?c2 = (state c)(u := DETACHED)" "same_threads ?c ?c2"
      "queue_next ?c2 (current_thread c) = queue_next c (current_thread c)"
      using un(2) by (auto simp: k_proc_QueueDetachedThread_def same_threads_def set_state_def)
    have "k_proc_DetachThread (Some u) c = ?c2" using True by (simp add: k_proc_DetachThread_def)
    show ?thesis unfolding \<open>k_proc_DetachThread (Some u) c = ?c2\<close>
    proof (rule core_repI [where k = k, OF l2])
      show "states_ok ?c2 pc T rs ws (u # ds) ps"
        by (rule states_okI) (use s un states_okD [OF st] in \<open>auto simp: same_threads_def\<close>)
    next
      show "current_thread ?c2 \<in> T \<and> current_thread ?c2 \<notin> set (rs @ ws @ (u # ds) @ ps) \<and>
        current_ok ?c2 pc (current_thread ?c2) \<and> queue_next ?c2 (current_thread ?c2) = None"
        using s t un current_ok_upd [of ?c2 "current_thread c" c pc pc] by (auto simp: same_threads_def)
    qed (use s u un T k all in \<open>auto simp: same_threads_def\<close>)
  next
    case False
    have "core_ok (?c, pc, T)" using ok by (rule core_ok_cong) simp_all
    then show ?thesis using ok False by (auto simp: k_proc_DetachThread_def)
  qed
qed

lemma wait_condition_ok:
  assumes ok: "core_ok (c, pc, T)" and cur: "current_thread c \<noteq> scheduler_thread c" "pc (current_thread c) = User"
  shows "core_ok (c\<lparr>wait_condition := (wait_condition c)(current_thread c := w)\<rparr>, pc, T)"
proof -
  obtain rs ws ds ps k where rep: "core_rep c pc T rs ws ds ps k"
    using ok unfolding core_ok_def by blast
  note t = core_repD(11-14) [OF rep cur(1)] and st = core_repD(2) [OF rep]
  show ?thesis
    by (rule current_upd_ok [OF rep cur(1), where s = "state c (current_thread c)" and r = "return_data c" and p = User])
      (use cur t states_okD(7) [OF st] in \<open>auto simp: fun_upd_idem current_ok_def\<close>)
qed

lemma create_ok:
  assumes ok: "core_ok (c, pc, T)" and cur: "current_thread c \<noteq> scheduler_thread c"
    and s: "pool_supplied c (insert (scheduler_thread c) (T \<union> set_option (cleanup_thread c)))"
    and run: "k_proc_CreateThread start_eip init c = Some (Some u, c')"
  shows "core_ok (c', pc(u := User), insert u T)"
proof -
  obtain rs ws ds ps k where rep: "core_rep c pc T rs ws ds ps k"
    using ok unfolding core_ok_def by blast
  note st = core_repD(2) [OF rep] and T = core_repD(3-5) [OF rep] and k = core_repD(6-9) [OF rep]
    and all = core_repD(10) [OF rep] and t = core_repD(11-14) [OF rep cur]
  let ?T = "insert (scheduler_thread c) (T \<union> set_option (cleanup_thread c))"
  have sub: "set (rs @ ws @ ds) \<subseteq> ?T" using T(1) by auto
  obtain ps' where ps': "thread_lists c' (rs @ [u]) ws ds ps'"
    "insert u (set ps') = set ps \<or> ps = [] \<and> insert u (set ps') \<inter> ?T = {}" "new_thread start_eip init c u c'"
    "\<forall>q \<in> ?T. q \<noteq> u \<longrightarrow> q \<notin> set rs \<longrightarrow> queue_next c' q = queue_next c q"
    using CreateThread_lists [OF core_repD(1) [OF rep] s sub run] by blast
  have un: "u \<noteq> current_thread c" "u \<noteq> scheduler_thread c" "u \<noteq> k"
    using ps'(2) t(1,2) k T by auto
  have ud: "u \<notin> set (rs @ ws @ ds @ ps')" using ps'(1) by (auto simp: thread_lists_def)
  have nf: "state c' = (state c)(u := READY)" "wait_condition c' = (wait_condition c)(u := None)"
    "current_thread c' = current_thread c" "scheduler_thread c' = scheduler_thread c" "cleanup_thread c' = Some k"
    using ps'(3) k(1) by (simp_all add: new_thread_def)
  have psT: "set ps' \<inter> T \<subseteq> set ps" using ps'(2) by auto
  have ps_in: "set ps \<inter> T \<subseteq> insert u (set ps')" using ps'(2) by auto
  show ?thesis
  proof (rule core_repI [where k = k, OF ps'(1)])
    show "states_ok c' (pc(u := User)) (insert u T) (rs @ [u]) ws ds ps'"
      by (rule states_okI) (use nf ud psT states_okD [OF st] in auto)
  next
    fix q assume "q \<in> insert u T"
    then show "q \<in> set ((rs @ [u]) @ ws @ ds @ ps') \<or> q = current_thread c' \<or> state c' q = TERMINATED"
      using all [of q] ps_in nf by auto
  next
    show "current_thread c' \<in> insert u T \<and> current_thread c' \<notin> set ((rs @ [u]) @ ws @ ds @ ps') \<and>
      current_ok c' (pc(u := User)) (current_thread c') \<and> queue_next c' (current_thread c') = None"
      using t un nf ps'(2,4) current_ok_upd [of c' "current_thread c" c "pc(u := User)" pc] by auto
  qed (use nf T k un ps'(2) in auto)
qed

lemma waits_upd:
  "states_ok c pc T rs ws ds ps \<Longrightarrow> p \<in> {User, Dying, Dead} \<or> pc a = Waiting \<Longrightarrow> t \<in> T \<Longrightarrow>
   (pc(a := p)) t \<in> {Waiting, Blocked} \<Longrightarrow> wait_condition c t \<noteq> None"
  using states_okD(7) [of c pc T rs ws ds ps t] by (cases "t = a") auto

lemma core_step_ok: "core_step x y \<Longrightarrow> core_ok x \<Longrightarrow> core_ok y"
proof (induction rule: core_step.induct)
  case (pass c nt c' pc T)
  then show ?case by (blast intro: pass_ok)
next
  case (switch_back c t c' pc T)
  then show ?case by (blast intro: switch_back_ok)
next
  case (signal c t pc T a)
  then show ?case by (simp add: k_rt_SignalCondition_def condition_ok)
next
  case (clear c t pc T a)
  then show ?case by (simp add: k_rt_ClearCondition_def condition_ok)
next
  case (detach c t pc u T)
  then show ?case by (blast intro: detach_ok)
next
  case (join c t pc u T status v c')
  let ?c = "c\<lparr>wait_condition := (wait_condition c)(current_thread c := None)\<rparr>"
  have "core_ok (?c, pc, T)" by (rule wait_condition_ok) (use join in auto)
  then have "core_ok (k_proc_DetachThread (Some u) ?c, pc, T)" by (rule detach_ok) (use join in auto)
  then show ?case using join(5) by (auto simp: wait_thread_end_def Let_def)
next
  case (wait_store c t pc a T)
  then obtain rs ws ds ps k where rep: "core_rep c pc T rs ws ds ps k" unfolding core_ok_def by blast
  have cur: "current_thread c \<noteq> scheduler_thread c" using wait_store by simp
  have "core_ok (wait_store a c, pc(current_thread c := Waiting), T)"
    by (rule current_upd_ok [OF rep cur, where s = "state c (current_thread c)" and r = "return_data c" and p = Waiting
        and w = "(wait_condition c)(current_thread c := Some a)"])
      (use wait_store core_repD(13) [OF rep cur] states_okD(7) [OF core_repD(2) [OF rep]] in
        \<open>auto simp: wait_store_def current_ok_def fun_upd_idem\<close>)
  then show ?case using wait_store by simp
next
  case (wait_state c t pc T)
  then obtain rs ws ds ps k where rep: "core_rep c pc T rs ws ds ps k" unfolding core_ok_def by blast
  have cur: "current_thread c \<noteq> scheduler_thread c" using wait_state by simp
  have "core_ok (wait_state c, pc(current_thread c := Blocked), T)"
    by (rule current_upd_ok [OF rep cur, where s = COND_WAIT and r = "return_data c" and p = Blocked
        and w = "wait_condition c"])
      (simp add: wait_state_def set_state_def, simp, simp add: wait_state_def set_state_def current_ok_def,
       rule waits_upd [OF core_repD(2) [OF rep], of Blocked "current_thread c"], use wait_state in simp_all)
  then show ?case using wait_state by simp
next
  case (wait_return c t pc T)
  then obtain rs ws ds ps k where rep: "core_rep c pc T rs ws ds ps k" unfolding core_ok_def by blast
  have cur: "current_thread c \<noteq> scheduler_thread c" using wait_return by simp
  have "core_ok (c, pc(current_thread c := User), T)"
    by (rule current_upd_ok [OF rep cur, where s = RUNNING and r = "return_data c" and p = User
        and w = "wait_condition c"])
      (use wait_return in \<open>simp add: fun_upd_idem\<close>, simp, use wait_return in \<open>simp add: current_ok_def\<close>,
       rule waits_upd [OF core_repD(2) [OF rep], of User "current_thread c"], simp_all)
  then show ?case using wait_return by simp
next
  case (terminate_state c t pc T v)
  then obtain rs ws ds ps k where rep: "core_rep c pc T rs ws ds ps k" unfolding core_ok_def by blast
  have cur: "current_thread c \<noteq> scheduler_thread c" using terminate_state by simp
  let ?d = "detached c (current_thread c)"
  have "core_ok (terminate_state v c, pc(current_thread c := Dying), T)"
    by (rule current_upd_ok [OF rep cur, where s = "if ?d then DETACHED else TERMINATED" and p = Dying
        and r = "if ?d then return_data c else (return_data c)(current_thread c := v)" and w = "wait_condition c"])
      (simp add: terminate_state_def set_state_def Let_def, simp,
       simp add: terminate_state_def set_state_def current_ok_def Let_def,
       rule waits_upd [OF core_repD(2) [OF rep], of Dying "current_thread c"], simp_all)
  then show ?case using terminate_state by simp
next
  case (terminate_signal c t pc T)
  then obtain rs ws ds ps k where rep: "core_rep c pc T rs ws ds ps k" unfolding core_ok_def by blast
  have cur: "current_thread c \<noteq> scheduler_thread c" using terminate_signal by simp
  have "core_ok (c, pc(current_thread c := Dead), T)"
    by (rule current_upd_ok [OF rep cur, where s = "state c (current_thread c)" and p = Dead
        and r = "return_data c" and w = "wait_condition c"])
      (simp, simp, use terminate_signal core_repD(13) [OF rep cur] in \<open>simp add: current_ok_def\<close>,
       rule waits_upd [OF core_repD(2) [OF rep], of Dead "current_thread c"], simp_all)
  then show ?case
    using terminate_signal by (simp add: terminate_signal_def k_rt_SignalCondition_def condition_ok)
next
  case (create c t pc T start_eip init u c')
  then show ?case using create_ok by blast
qed

lemma initial_core_ok: "initial_core c \<Longrightarrow> core_ok (c, pc, {})"
proof -
  assume i: "initial_core c"
  then obtain ps k where ps: "chain (queue_next c) (pool_threads c) ps" "cleanup_thread c = Some k" "k \<notin> set ps"
    "k \<noteq> scheduler_thread c" "scheduler_thread c \<notin> set ps" by (auto simp: initial_core_def)
  show "core_ok (c, pc, {})"
    by (rule core_repI [where k = k and rs = "[]" and ws = "[]" and ds = "[]" and ps = ps])
      (use i ps chain_distinct [OF ps(1)] in
        \<open>auto simp: initial_core_def thread_lists_def queue_list_def intro!: states_okI\<close>)
qed

section \<open>Properties\<close>




text \<open>
  Termination is not safe against the timer. A thread that is preempted between the two
  effects of \<open>k_proc_TerminateThread\<close> is in no list afterwards, so that it never runs again, and
  its condition was never signalled: whoever waits for it is not woken by it.
\<close>

theorem terminate_preempted_loses_signal:
  assumes rep: "core_rep c pc T rs ws ds ps k" and cur: "current_thread c = t" "t \<noteq> scheduler_thread c"
    and nd: "\<not> detached c t" "\<not> condition c (thread_condition t)"
  shows "\<exists>c'. run_end t (k_proc_YieldThread (terminate_state v c)) = Some c' \<and>
    thread_lists c' rs ws ds ps \<and> t \<notin> set (rs @ ws @ ds @ ps) \<and> state c' t = TERMINATED \<and>
    \<not> condition c' (thread_condition t)"
proof -
  let ?c = "k_proc_YieldThread (terminate_state v c)"
  have t: "t \<in> T" "t \<notin> set (rs @ ws @ ds @ ps)" using core_repD(11,12) [OF rep] cur by auto
  have f: "state ?c t = TERMINATED" "cleanup_thread ?c = Some k" "condition ?c = condition c"
    using nd cur core_repD(6) [OF rep] by (auto simp: terminate_state_def k_proc_YieldThread_def
      k_proc_SwitchToThread_def set_state_def Let_def)
  have "thread_lists ?c rs ws ds ps = thread_lists c rs ws ds ps"
    by (rule thread_lists_cong) (use nd cur in \<open>auto simp: terminate_state_def k_proc_YieldThread_def
      k_proc_SwitchToThread_def set_state_def Let_def\<close>)
  then have "thread_lists ?c rs ws ds ps" using core_repD(1) [OF rep] by simp
  moreover have "t \<noteq> k" using t(1) core_repD(7) [OF rep] by blast
  then have "run_end t ?c = Some ?c" using f(1,2) by (simp add: run_end_def)
  ultimately show ?thesis using f nd(2) t(2) by auto
qed

text \<open>
  C19: A new kernel thread gets an object that is on no list, ends at the back of the ready list
  and starts, when it is switched to, in its entry routine with its argument.
\<close>

theorem k_proc_CreateThread_ok:
  assumes "thread_lists c rs ws ds (t # ps)" "ring0_stack_page init \<noteq> 0" "ring0_stack_base init \<noteq> 0"
    "init_entry_point init \<noteq> 0" "user_stack_base init = 0"
  shows "\<exists>c'. k_proc_CreateThread start_eip init c = Some (Some t, c') \<and>
    thread_lists c' (rs @ [t]) ws ds ps \<and> state c' t = READY \<and> \<not> condition c' (thread_condition t) \<and>
    (\<exists>r. k_proc_EnterThreadContext (kernel_stack c' t) = Some (r, [start_eip, 0x10, 0x202, 0,
       word_of_nat (init_entry_point init), word_of_nat (user_data init)]) \<and>
     r_cr3 r = page_map c (init_process init))"
proof -
  let ?c1 = "c\<lparr>pool_threads := queue_next c t\<rparr>"
  have p: "pool_threads c = Some t" using assms(1) by (simp add: thread_lists_def)
  then have tk: "take_thread c = Some (t, ?c1)" by (simp add: take_thread_def)
  have l1: "thread_lists ?c1 rs ws ds ps" and t: "t \<notin> set (rs @ ws @ ds @ ps)"
    using assms(1) by (auto simp: thread_lists_def)
  define c2 where "c2 = init_thread start_eip init (ring0_stack_base init) t ?c1"
  have l2: "thread_lists c2 rs ws ds ps" unfolding c2_def by (rule init_thread_lists [OF t l1])
  have q: "queue_next c2 t = None" "state c2 t \<noteq> INVALID" by (simp_all add: c2_def init_thread_def Let_def)
  obtain c3 where c3: "k_proc_QueueReadyThread (Some t) c2 = Some c3" "thread_lists c3 (rs @ [t]) ws ds ps"
    "readied c2 rs {t} c3"
    using QueueReadyThread_one [OF l2 t q] by blast
  have run: "k_proc_CreateThread start_eip init c = Some (Some t, c3)"
    using assms(2-5) tk c3(1) by (simp add: k_proc_CreateThread_def kernel_stack_of_def c2_def)
  have "kernel_stack c3 t = initial_frame start_eip (page_map c (init_process init))
      (word_of_nat (ring0_stack_base init + 0x1000) - 4) (word_of_nat (init_entry_point init))
      (word_of_nat (user_data init))" "\<not> condition c3 (thread_condition t)" "state c3 t = READY"
    using c3(3) by (simp_all add: readied_def same_threads_def c2_def init_thread_def Let_def)
  then show ?thesis using run c3(2)
      initial_frame_enter [of start_eip "page_map c (init_process init)"
        "word_of_nat (ring0_stack_base init + 0x1000) - 4" "word_of_nat (init_entry_point init)"
        "word_of_nat (user_data init)"] by auto
qed

section \<open>A running core\<close>

text \<open>
  Thread 1000 runs, 2000 waits for its end, 6000 is ready, 5000 is free; 3000 cleans up and 4000
  is the scheduler.
\<close>

definition sample_core :: k_proc_core where
  "sample_core = \<lparr>state = (\<lambda>_. INVALID)(1000 := RUNNING, 2000 := COND_WAIT, 3000 := READY, 6000 := READY),
     detached = (\<lambda>_. False), start_sp = (\<lambda>_. 0), current_sp = (\<lambda>_. 0), current_pmap = (\<lambda>_. 0),
     kernel_stack_offset = (\<lambda>_. 0), return_data = (\<lambda>_. 0), process = (\<lambda>_. 0), wait_condition = [2000 \<mapsto> 1052],
     queue_next = (\<lambda>_. None), condition = (\<lambda>_. False), kernel_stack = (\<lambda>_. []), page_map = (\<lambda>_. 0x7000),
     main_thread = (\<lambda>_. None), ready_threads = Some 6000, last_ready_thread = Some 6000,
     cond_wait_threads = Some 2000, cond_wait_last_thread = Some 2000, delete_list = None,
     pool_threads = Some 5000, pool_pages = [], current_thread = 1000, scheduler_thread = 4000,
     cleanup_thread = Some 3000, core_mem = sample_heap\<rparr>"

definition sample_pc :: "nat \<Rightarrow> position" where
  "sample_pc = (\<lambda>_. User)(2000 := Blocked)"

definition sample_init :: k_proc_core where
  "sample_init = sample_core\<lparr>ready_threads := None, cond_wait_threads := None, current_thread := 4000\<rparr>"

lemma sample_core_lists: "thread_lists sample_core [6000] [2000] [] [5000]"
  by (simp add: thread_lists_def queue_list_def sample_core_def)

lemma sample_core_rep: "core_rep sample_core sample_pc {1000, 2000, 6000} [6000] [2000] [] [5000] 3000"
proof -
  have "states_ok sample_core sample_pc {1000, 2000, 6000} [6000] [2000] [] [5000]"
    by (rule states_okI) (auto simp: sample_core_def sample_pc_def split: if_splits)
  then show ?thesis using sample_core_lists unfolding core_rep_def
    by (simp add: sample_core_def sample_pc_def current_ok_def)
qed

lemma sample_core_fields: "current_thread sample_core = 1000" "scheduler_thread sample_core = 4000"
  "\<not> detached sample_core 1000" "wait_condition sample_core 2000 = Some (thread_condition 1000)"
  "\<not> condition sample_core (thread_condition 1000)" "cleanup_thread sample_core = Some 3000"
  by (simp_all add: sample_core_def thread_condition_def)




theorem terminate_preempted_loses_signal_witness:
  "\<exists>c'. run_end 1000 (k_proc_YieldThread (terminate_state 7 sample_core)) = Some c' \<and>
    thread_lists c' [6000] [2000] [] [5000] \<and> state c' 1000 = TERMINATED \<and> \<not> condition c' (thread_condition 1000)"
  using terminate_preempted_loses_signal [OF sample_core_rep sample_core_fields(1), of 7] sample_core_fields by auto

theorem k_proc_CreateThread_ok_witness:
  "\<exists>c'. k_proc_CreateThread 0x1234 \<lparr>init_entry_point = 0x8000, init_process = 0, ring0_stack_page = 0x9000,
      ring0_stack_base = 0xa000, user_stack_base = 0, user_data = 5\<rparr> sample_core = Some (Some 5000, c') \<and>
    thread_lists c' [6000, 5000] [2000] [] [] \<and> state c' 5000 = READY"
  using k_proc_CreateThread_ok [OF sample_core_lists, of "\<lparr>init_entry_point = 0x8000, init_process = 0,
      ring0_stack_page = 0x9000, ring0_stack_base = 0xa000, user_stack_base = 0, user_data = 5\<rparr>" "0x1234"]
  by auto

end
