(* ===== verification/Rt_Queue.thy ===== *)
theory Rt_Queue
  imports Rt_Alloc
begin

text \<open>
  The linked queue of \<open>kernel/rt/queue.c\<close>. The head is a dummy node whose successor holds the
  first element; nodes come from a free list that is refilled a page at a time. The operations
  are given as the code runs them alone, where every compare-and-exchange succeeds; the push is
  also split at its two exchanges, so that another processor's operations can be put between
  them. The lemmas show that the queue is first-in first-out when operations do not overlap,
  and that the split push is not safe when they do.
\<close>

section \<open>Data\<close>

record k_rt_queue_t =
  free_items :: "nat option"
  prev_head :: "nat option"
  tail :: "nat option"
  item_next :: "nat \<Rightarrow> nat option"
  item_prev :: "nat \<Rightarrow> nat option"
  item_item :: "nat \<Rightarrow> nat"
  queue_mem :: kmem

section \<open>Nodes\<close>

definition K_RT_QUEUE_PAGE_ITEM_COUNT :: nat where
  "K_RT_QUEUE_PAGE_ITEM_COUNT = 4096 div 12"

fun link_items :: "nat \<Rightarrow> nat \<Rightarrow> nat \<Rightarrow> (nat \<Rightarrow> nat option) \<Rightarrow> (nat \<Rightarrow> nat option)" where
  "link_items 0 items item_index nx = nx"
| "link_items (Suc n) items item_index nx =
     link_items n items (item_index + 1)
       (nx(items + 12 * item_index := Some (items + 12 * (item_index + 1))))"

definition k_rt_AllocQueuePage :: "k_rt_queue_t \<Rightarrow> k_rt_queue_t option" where
  "k_rt_AllocQueuePage queue = do {
     (new_page, k) \<leftarrow> k_rt_BigAlloc 4096 (queue_mem queue);
     if new_page = 0 then None
     else do {
       let nx = link_items K_RT_QUEUE_PAGE_ITEM_COUNT new_page 0 (item_next queue);
       let last_item = new_page + 12 * (K_RT_QUEUE_PAGE_ITEM_COUNT - 1);
       Some (queue\<lparr>queue_mem := k, item_next := nx(last_item := free_items queue),
         free_items := Some new_page\<rparr>)
     }
   }"

definition k_rt_AllocQueueItem :: "k_rt_queue_t \<Rightarrow> (nat \<times> k_rt_queue_t) option" where
  "k_rt_AllocQueueItem queue = do {
     queue \<leftarrow> (if free_items queue = None then k_rt_AllocQueuePage queue else Some queue);
     item \<leftarrow> free_items queue;
     Some (item, queue\<lparr>free_items := item_next queue item,
       item_next := (item_next queue)(item := None),
       item_prev := (item_prev queue)(item := None),
       item_item := (item_item queue)(item := 0)\<rparr>)
   }"

definition k_rt_FreeQueueItem :: "k_rt_queue_t \<Rightarrow> nat option \<Rightarrow> k_rt_queue_t" where
  "k_rt_FreeQueueItem queue item = (case item of
      None \<Rightarrow> queue
    | Some i \<Rightarrow> queue\<lparr>item_next := (item_next queue)(i := free_items queue), free_items := Some i\<rparr>)"

definition k_rt_QueueCreate :: "k_rt_queue_t \<Rightarrow> k_rt_queue_t option" where
  "k_rt_QueueCreate memory = do {
     (item, queue) \<leftarrow> k_rt_AllocQueueItem (memory\<lparr>free_items := None, prev_head := None, tail := None\<rparr>);
     Some (queue\<lparr>prev_head := Some item, tail := Some item\<rparr>)
   }"

section \<open>Push and pop\<close>

text \<open>The walk from the tail to the node without a successor.\<close>

partial_function (option) find_last :: "(nat \<Rightarrow> nat option) \<Rightarrow> nat \<Rightarrow> nat option" where
  "find_last nx t = (case nx t of None \<Rightarrow> Some t | Some t' \<Rightarrow> find_last nx t')"

declare find_last.simps [code]

text \<open>
  The push up to the exchange that links the new item behind the last one; it yields the item
  and the tail it read first. The second exchange moves the tail if nobody else did.
\<close>

definition push_link :: "k_rt_queue_t \<Rightarrow> nat \<Rightarrow> (nat \<times> nat option \<times> k_rt_queue_t) option" where
  "push_link queue element = do {
     (item, queue) \<leftarrow> k_rt_AllocQueueItem queue;
     let old_tail = tail queue;
     let queue = queue\<lparr>item_item := (item_item queue)(item := element)\<rparr>;
     t \<leftarrow> old_tail;
     t \<leftarrow> find_last (item_next queue) t;
     Some (item, old_tail, queue\<lparr>item_next := (item_next queue)(t := Some item)\<rparr>)
   }"

definition push_swing :: "k_rt_queue_t \<Rightarrow> nat \<Rightarrow> nat option \<Rightarrow> k_rt_queue_t" where
  "push_swing queue item old_tail =
     (if tail queue = old_tail then queue\<lparr>tail := Some item\<rparr> else queue)"

definition k_rt_QueuePush :: "k_rt_queue_t \<Rightarrow> nat \<Rightarrow> k_rt_queue_t option" where
  "k_rt_QueuePush queue element =
     (if element \<noteq> 0 then do {
        (item, old_tail, queue) \<leftarrow> push_link queue element;
        Some (push_swing queue item old_tail)
      } else Some queue)"

definition k_rt_QueuePop :: "k_rt_queue_t \<Rightarrow> (nat \<times> k_rt_queue_t) option" where
  "k_rt_QueuePop queue = do {
     p \<leftarrow> prev_head queue;
     case item_next queue p of
       None \<Rightarrow> Some (0, queue)
     | Some n \<Rightarrow> Some (item_item queue n,
         k_rt_FreeQueueItem (queue\<lparr>prev_head := Some n\<rparr>) (Some p))
   }"

section \<open>The elements of a queue\<close>

text \<open>
  \<open>ns\<close> are the nodes from the dummy on and \<open>fs\<close> the free ones; no element is null.
\<close>

definition queue_rep :: "k_rt_queue_t \<Rightarrow> nat list \<Rightarrow> nat list \<Rightarrow> bool" where
  "queue_rep q ns fs \<longleftrightarrow> chain (item_next q) (prev_head q) ns \<and> ns \<noteq> [] \<and> tail q = Some (last ns) \<and>
     chain (item_next q) (free_items q) fs \<and> set ns \<inter> set fs = {} \<and>
     (\<forall>n \<in> set (tl ns). item_item q n \<noteq> 0)"

definition queue_ok :: "k_rt_queue_t \<Rightarrow> bool" where
  "queue_ok q \<longleftrightarrow> (\<exists>ns fs. queue_rep q ns fs)"

definition elements :: "k_rt_queue_t \<Rightarrow> nat list" where
  "elements q = map (item_item q) (tl (nodes (item_next q) (prev_head q)))"

lemma elements_eq: "queue_rep q ns fs \<Longrightarrow> elements q = map (item_item q) (tl ns)"
  unfolding queue_rep_def elements_def by (auto simp: nodes_eq [of "item_next q" "prev_head q" ns])

lemma chain_last_None: "chain nx p as \<Longrightarrow> as \<noteq> [] \<Longrightarrow> nx (last as) = None"
  by (induction as arbitrary: p) auto

lemma find_last_end: "nx t = None \<Longrightarrow> find_last nx t = Some t"
  by (subst find_last.simps) simp

lemma find_last_step: "nx t = Some u \<Longrightarrow> find_last nx t = find_last nx u"
  by (subst find_last.simps) simp

lemma find_last_chain: "chain nx (Some t) as \<Longrightarrow> find_last nx t = Some (last as)"
proof (induction as arbitrary: t)
  case (Cons a as)
  then show ?case
    by (cases "nx a") (auto simp: find_last_end find_last_step)
qed simp

lemma push_alone:
  assumes r: "queue_rep q ns (f # fs)" and x: "x \<noteq> 0"
  shows "\<exists>q'. k_rt_QueuePush q x = Some q' \<and> queue_rep q' (ns @ [f]) fs \<and>
    elements q' = elements q @ [x]"
proof -
  have c: "chain (item_next q) (prev_head q) ns" "ns \<noteq> []" "tail q = Some (last ns)"
    "free_items q = Some f" "chain (item_next q) (item_next q f) fs" "f \<notin> set ns" "set ns \<inter> set fs = {}"
    using r by (auto simp: queue_rep_def)
  have d: "distinct (f # fs)" using r chain_distinct unfolding queue_rep_def by blast
  obtain m ms where ns: "ns = m # ms" using c(2) by (cases ns) auto
  let ?nx = "(item_next q)(f := None)"
  have l: "find_last ?nx (last ns) = Some (last ns)"
    using chain_last_None [OF c(1,2)] by (intro find_last_end) simp
  define q' where "q' = q\<lparr>free_items := item_next q f, item_prev := (item_prev q)(f := None),
    item_item := (item_item q)(f := x), item_next := ?nx(last ns := Some f), tail := Some f\<rparr>"
  have run: "k_rt_QueuePush q x = Some q'"
    using x c l by (simp add: k_rt_QueuePush_def push_link_def push_swing_def k_rt_AllocQueueItem_def q'_def)
  have "last ns \<noteq> f" "last ns \<notin> set fs" using c(2,6,7) last_in_set by blast+
  then have nx: "?nx(last ns := Some f) = (item_next q)(last ns := Some f, f := None)"
    by (simp add: fun_upd_twist)
  have "chain (item_next q') (prev_head q) (ns @ [f])"
    using chain_snoc [OF c(1,2,6)] by (simp add: q'_def nx del: fun_upd_apply)
  moreover have "chain (item_next q') (free_items q') fs"
    using c(5) d \<open>last ns \<notin> set fs\<close> by (simp add: q'_def nx del: fun_upd_apply)
  moreover have "\<forall>n \<in> set (tl (ns @ [f])). item_item q' n \<noteq> 0"
    using r x c(6) by (auto simp: q'_def queue_rep_def ns)
  ultimately have rep: "queue_rep q' (ns @ [f]) fs"
    using c(7) d by (auto simp: queue_rep_def q'_def)
  have "elements q' = elements q @ [x]"
    unfolding elements_eq [OF rep] elements_eq [OF r] using c(6) by (simp add: ns q'_def)
  then show ?thesis using run rep by blast
qed

lemma pop_alone:
  assumes r: "queue_rep q ns fs"
  shows "\<exists>q' ns' fs'. k_rt_QueuePop q = Some (case elements q of [] \<Rightarrow> 0 | x # _ \<Rightarrow> x, q') \<and>
    queue_rep q' ns' fs' \<and> elements q' = tl (elements q)"
proof (cases "tl ns")
  case Nil
  then obtain n where n: "ns = [n]" using r by (cases ns) (auto simp: queue_rep_def)
  then have "k_rt_QueuePop q = Some (0, q)"
    using r by (simp add: k_rt_QueuePop_def queue_rep_def)
  then show ?thesis using r elements_eq [OF r] n by auto
next
  case (Cons n ms)
  then obtain d where ns: "ns = d # n # ms" using r by (cases ns) (auto simp: queue_rep_def)
  have c: "prev_head q = Some d" "item_next q d = Some n" "chain (item_next q) (Some n) (n # ms)"
    "chain (item_next q) (free_items q) fs" "d \<notin> set fs"
    using r by (auto simp: queue_rep_def ns)
  have dist: "distinct ns" using r chain_distinct unfolding queue_rep_def by blast
  define q' where "q' = k_rt_FreeQueueItem (q\<lparr>prev_head := Some n\<rparr>) (Some d)"
  have run: "k_rt_QueuePop q = Some (item_item q n, q')"
    using c by (simp add: k_rt_QueuePop_def q'_def)
  have f: "item_next q' = (item_next q)(d := free_items q)" "free_items q' = Some d"
    "prev_head q' = Some n" "tail q' = tail q" "item_item q' = item_item q"
    by (simp_all add: q'_def k_rt_FreeQueueItem_def)
  have "chain (item_next q') (Some n) (n # ms)" "chain (item_next q') (Some d) (d # fs)"
    using c dist by (simp_all add: f ns del: fun_upd_apply add: fun_upd_other fun_upd_same)
  then have rep: "queue_rep q' (n # ms) (d # fs)"
    using r dist by (auto simp: queue_rep_def f ns)
  show ?thesis
    using run rep elements_eq [OF rep] elements_eq [OF r] by (auto simp: ns f)
qed

section \<open>The queue as a first-in first-out container\<close>

definition push_fresh :: "k_rt_queue_t \<Rightarrow> nat \<Rightarrow> bool" where
  "push_fresh q x \<longleftrightarrow> x \<noteq> 0 \<and> free_items q \<noteq> None"

definition push :: "k_rt_queue_t \<Rightarrow> nat \<Rightarrow> k_rt_queue_t" where
  "push q x = (case k_rt_QueuePush q x of None \<Rightarrow> q | Some q' \<Rightarrow> q')"

definition pop :: "k_rt_queue_t \<Rightarrow> nat option \<times> k_rt_queue_t" where
  "pop q = (case k_rt_QueuePop q of None \<Rightarrow> (None, q)
     | Some (x, q') \<Rightarrow> (if x = 0 then None else Some x, q'))"

lemma push_ok:
  assumes "queue_ok q" "push_fresh q x"
  shows "queue_ok (push q x) \<and> elements (push q x) = elements q @ [x]"
proof -
  obtain ns fs where r: "queue_rep q ns fs" using assms(1) by (auto simp: queue_ok_def)
  then obtain f fs' where "fs = f # fs'"
    using assms(2) by (cases fs) (auto simp: push_fresh_def queue_rep_def)
  with push_alone r assms(2) obtain q' where "k_rt_QueuePush q x = Some q'"
    "queue_rep q' (ns @ [f]) fs'" "elements q' = elements q @ [x]"
    unfolding push_fresh_def by metis
  then show ?thesis by (auto simp: push_def queue_ok_def)
qed

lemma pop_ok:
  assumes "queue_ok q"
  shows "queue_ok (snd (pop q)) \<and> elements (snd (pop q)) = tl (elements q) \<and>
    fst (pop q) = (case elements q of [] \<Rightarrow> None | x # _ \<Rightarrow> Some x)"
proof -
  obtain ns fs where r: "queue_rep q ns fs" using assms(1) by (auto simp: queue_ok_def)
  have nz: "0 \<notin> set (elements q)"
    using r elements_eq [OF r] by (auto simp: queue_rep_def)
  obtain q' ns' fs' where q': "k_rt_QueuePop q = Some (case elements q of [] \<Rightarrow> 0 | x # _ \<Rightarrow> x, q')"
    "queue_rep q' ns' fs'" "elements q' = tl (elements q)"
    using pop_alone [OF r] by blast
  then show ?thesis using nz by (cases "elements q") (auto simp: pop_def queue_ok_def)
qed

interpretation rq: fifo queue_ok elements push_fresh push pop
  by unfold_locales (simp_all add: push_ok pop_ok)

section \<open>Properties\<close>

text \<open>
  C15: Elements pushed onto an empty queue come out in the order they went in, whatever the number
  of pops, as long as every push finds a free node.
\<close>

theorem k_rt_Queue_fifo:
  assumes "queue_ok q" "elements q = []" "fill_ok push_fresh push q xs"
  shows "fst (drain pop n (fill push q xs)) = take n xs"
  using assms by (rule rq.fill_drain)

text \<open>
  The push is not safe against a pop and a push that run between its two exchanges, on a
  queue that was empty: the pop frees the node the tail still names, the other push takes this
  very node, links it behind itself, and its element is lost.
\<close>

theorem k_rt_QueuePush_overlap:
  assumes r: "queue_rep q [d] (f # fs)" and x: "x \<noteq> 0" and y: "y \<noteq> 0"
  shows "\<exists>q1 q2 q3. push_link q x = Some (f, Some d, q1) \<and>
    k_rt_QueuePop q1 = Some (x, q2) \<and>
    k_rt_QueuePush q2 y = Some q3 \<and>
    elements (push_swing q3 f (Some d)) = [] \<and>
    k_rt_QueuePop (push_swing q3 f (Some d)) = Some (0, push_swing q3 f (Some d))"
proof -
  have c: "prev_head q = Some d" "item_next q d = None" "tail q = Some d" "free_items q = Some f" "f \<noteq> d"
    "chain (item_next q) (item_next q f) fs" "d \<notin> set fs"
    using r by (auto simp: queue_rep_def)
  define q1 where "q1 = q\<lparr>free_items := item_next q f, item_prev := (item_prev q)(f := None),
    item_item := (item_item q)(f := x), item_next := (item_next q)(f := None, d := Some f)\<rparr>"
  have link: "push_link q x = Some (f, Some d, q1)"
    using c by (simp add: push_link_def k_rt_AllocQueueItem_def q1_def find_last_end)
  define q2 where "q2 = q1\<lparr>prev_head := Some f, item_next := (item_next q1)(d := free_items q1),
    free_items := Some d\<rparr>"
  have pop: "k_rt_QueuePop q1 = Some (x, q2)"
    using c by (simp add: k_rt_QueuePop_def k_rt_FreeQueueItem_def q1_def q2_def)
  define q3 where "q3 = q2\<lparr>free_items := free_items q1, item_prev := (item_prev q2)(d := None),
    item_item := (item_item q2)(d := y), item_next := (item_next q2)(d := Some d)\<rparr>"
  have push: "k_rt_QueuePush q2 y = Some q3"
    using c y by (simp add: k_rt_QueuePush_def push_link_def push_swing_def k_rt_AllocQueueItem_def
      find_last_end Let_def q1_def q2_def q3_def)
  define q4 where "q4 = push_swing q3 f (Some d)"
  have q4: "prev_head q4 = Some f" "item_next q4 f = None"
    using c by (auto simp: q4_def push_swing_def q1_def q2_def q3_def)
  then have "nodes (item_next q4) (prev_head q4) = [f]" by (intro nodes_eq) simp
  then have "elements q4 = []" by (simp add: elements_def)
  moreover have "k_rt_QueuePop q4 = Some (0, q4)" using q4 by (simp add: k_rt_QueuePop_def)
  ultimately show ?thesis using link pop push unfolding q4_def by blast
qed

text \<open>A queue with a dummy at 1 and free nodes at 2 and 3.\<close>

definition sample_queue :: k_rt_queue_t where
  "sample_queue = \<lparr>free_items = Some 2, prev_head = Some 1, tail = Some 1, item_next = [2 \<mapsto> 3],
     item_prev = (\<lambda>_. None), item_item = (\<lambda>_. 0),
     queue_mem = \<lparr>kvirt = \<lparr>vfree_count = 0, vrange_count = 0, vranges = []\<rparr>, kmmu = sample_mmu\<rparr>\<rparr>"

lemma sample_queue_rep: "queue_rep sample_queue [1] [2, 3]"
  by (simp add: queue_rep_def sample_queue_def)

theorem k_rt_Queue_fifo_witness: "fst (drain pop 2 (fill push sample_queue [7, 9])) = [7, 9]"
proof -
  have "fill_ok push_fresh push sample_queue [7, 9]"
    by (simp add: push_fresh_def push_def k_rt_QueuePush_def push_link_def push_swing_def
      k_rt_AllocQueueItem_def find_last_end Let_def sample_queue_def)
  moreover have "queue_ok sample_queue" using sample_queue_rep by (auto simp: queue_ok_def)
  moreover have "elements sample_queue = []" using elements_eq [OF sample_queue_rep] by simp
  ultimately show ?thesis using k_rt_Queue_fifo [of sample_queue "[7, 9]" 2] by simp
qed

theorem k_rt_QueuePush_overlap_witness:
  "\<exists>q1 q2 q3. push_link sample_queue 7 = Some (2, Some 1, q1) \<and> k_rt_QueuePop q1 = Some (7, q2) \<and>
    k_rt_QueuePush q2 9 = Some q3 \<and> elements (push_swing q3 2 (Some 1)) = [] \<and>
    k_rt_QueuePop (push_swing q3 2 (Some 1)) = Some (0, push_swing q3 2 (Some 1))"
  by (rule k_rt_QueuePush_overlap [OF sample_queue_rep]) simp_all

end
