(* ===== verification/Rt_Lock.thy ===== *)
theory Rt_Lock
  imports Prelude
begin

text \<open>
  The spin locks and the compare-and-exchange of \<open>kernel/rt/atm_a.asm\<close>, at the level of their memory
  accesses: a lock word that any number of threads load and exchange, in any order. The low bit of
  the word says that the lock is held; the other bits are kept. The lemmas show mutual exclusion in
  every interleaving, and that an uncontended thread gets a free lock after two exchanges.
\<close>

section \<open>The instructions\<close>

text \<open>
  \<open>lock cmpxchg\<close>: whether the location held the expected value, the value it held, and the value it
  holds afterwards.
\<close>

definition k_rt_CmpXchg32 :: "u32 \<Rightarrow> u32 \<Rightarrow> u32 \<Rightarrow> bool \<times> u32 \<times> u32" where
  "k_rt_CmpXchg32 location cmp new = (if location = cmp then (True, location, new) else (False, location, location))"

text \<open>The exchange at the head of the loop of \<open>k_rt_SpinLock\<close>, given the value in \<open>eax\<close>.\<close>

definition lock_exchange :: "u32 \<Rightarrow> u32 \<Rightarrow> bool \<times> u32 \<times> u32" where
  "lock_exchange spinlock eax = (
     let eax = eax AND 0xfffffffe; ebx = eax + 1
     in k_rt_CmpXchg32 spinlock eax ebx)"

definition unlock_value :: "u32 \<Rightarrow> u32" where
  "unlock_value eax = eax AND 0xfffffffe"

text \<open>The loop of \<open>k_rt_SpinWait\<close> ends when the low bit is clear.\<close>

definition spin_wait_done :: "u32 \<Rightarrow> bool" where
  "spin_wait_done spinlock \<longleftrightarrow> spinlock AND 1 = 0"

section \<open>Threads at a lock\<close>

text \<open>
  Where a thread is: outside, at the exchange of \<open>k_rt_SpinLock\<close> or of \<open>k_rt_TrySpinLock\<close> with a loaded
  value, inside the section that the lock protects, or at the exchange of \<open>k_rt_SpinUnlock\<close>. The
  critical variants make the same accesses to the word; what \<open>k_rt_TrySpinLockCritical\<close> does to the
  interrupt flag besides is in \<open>Rt_Atomic\<close>.
\<close>

datatype spin_pc =
    Outside
  | Locking u32
  | Trying u32
  | Inside
  | Unlocking u32

type_synonym spin_state = "u32 \<times> (nat \<Rightarrow> spin_pc)"

text \<open>One access of thread \<open>t\<close>.\<close>

inductive spin_step :: "nat \<Rightarrow> spin_state \<Rightarrow> spin_state \<Rightarrow> bool" where
  lock_load: "pc t = Outside \<Longrightarrow> spin_step t (w, pc) (w, pc(t := Locking w))"
| lock_taken: "pc t = Locking eax \<Longrightarrow> lock_exchange w eax = (True, old, w') \<Longrightarrow>
    spin_step t (w, pc) (w', pc(t := Inside))"
| lock_again: "pc t = Locking eax \<Longrightarrow> lock_exchange w eax = (False, old, w') \<Longrightarrow>
    spin_step t (w, pc) (w', pc(t := Locking old))"
| try_load: "pc t = Outside \<Longrightarrow> spin_step t (w, pc) (w, pc(t := Trying w))"
| try_taken: "pc t = Trying eax \<Longrightarrow> lock_exchange w eax = (True, old, w') \<Longrightarrow>
    spin_step t (w, pc) (w', pc(t := Inside))"
| try_failed: "pc t = Trying eax \<Longrightarrow> lock_exchange w eax = (False, old, w') \<Longrightarrow>
    spin_step t (w, pc) (w', pc(t := Outside))"
| unlock_load: "pc t = Inside \<Longrightarrow> spin_step t (w, pc) (w, pc(t := Unlocking w))"
| unlock_store: "pc t = Unlocking eax \<Longrightarrow> spin_step t (w, pc) (unlock_value eax, pc(t := Outside))"

code_pred (modes: i \<Rightarrow> i \<Rightarrow> o \<Rightarrow> bool as run_step) spin_step .

inductive_cases spin_stepE: "spin_step t (w, pc) s"

inductive spin_reach :: "u32 \<Rightarrow> spin_state \<Rightarrow> bool" for w0 where
  start: "\<not> bit w0 0 \<Longrightarrow> spin_reach w0 (w0, \<lambda>_. Outside)"
| step: "spin_reach w0 s \<Longrightarrow> spin_step t s s' \<Longrightarrow> spin_reach w0 s'"

definition holds_lock :: "spin_pc \<Rightarrow> bool" where
  "holds_lock p \<longleftrightarrow> p = Inside \<or> (\<exists>eax. p = Unlocking eax)"

lemma holds_lock_simps [simp]:
  "holds_lock Inside" "holds_lock (Unlocking e)" "\<not> holds_lock Outside" "\<not> holds_lock (Locking e)" "\<not> holds_lock (Trying e)"
  by (simp_all add: holds_lock_def)

section \<open>Invariant\<close>

lemma bit_unlock_value: "bit (unlock_value w) n \<longleftrightarrow> n \<noteq> 0 \<and> bit w n"
proof -
  have m: "(0xfffffffe :: u32) = NOT 1" by simp
  show ?thesis unfolding unlock_value_def m bit_and_iff bit_not_iff bit_1_iff
    by (auto simp: possible_bit_word dest: bit_imp_le_length)
qed

lemma unlock_value_free: "\<not> bit w 0 \<Longrightarrow> unlock_value w = w"
  by (rule bit_eqI) (metis bit_unlock_value)

lemma unlock_value_set: "unlock_value (w OR 1) = unlock_value w"
  by (rule bit_eqI) (auto simp: bit_unlock_value bit_simps)

lemma low_bit: "(w :: u32) AND 1 = (if bit w 0 then 1 else 0)"
  by (simp add: and_one_eq mod_2_eq_odd bit_0 of_bool_def)

lemma set_low: "\<not> bit (w :: u32) 0 \<Longrightarrow> w + 1 = w OR 1"
  by (rule disjunctive_add) (metis bit_1_iff)

text \<open>An exchange succeeds only on a free lock, and then sets its low bit and nothing else.\<close>

lemma lock_exchange_iff:
  "lock_exchange w eax = (True, old, w') \<longleftrightarrow> w = unlock_value eax \<and> \<not> bit w 0 \<and> old = w \<and> w' = w OR 1"
  "lock_exchange w eax = (False, old, w') \<longleftrightarrow> w \<noteq> unlock_value eax \<and> old = w \<and> w' = w"
  using bit_unlock_value [of eax 0]
  by (auto simp: lock_exchange_def k_rt_CmpXchg32_def unlock_value_def [symmetric] Let_def set_low)

text \<open>
  At most one thread holds the lock, the low bit says whether one does, the other bits never change,
  and a thread about to unlock has loaded the value that the word still has.
\<close>

definition spin_ok :: "u32 \<Rightarrow> spin_state \<Rightarrow> bool" where
  "spin_ok w0 s \<longleftrightarrow> (case s of (w, pc) \<Rightarrow>
     (\<forall>t u. holds_lock (pc t) \<longrightarrow> holds_lock (pc u) \<longrightarrow> t = u) \<and>
     (bit w 0 \<longleftrightarrow> (\<exists>t. holds_lock (pc t))) \<and> unlock_value w = unlock_value w0 \<and>
     (\<forall>t eax. pc t = Unlocking eax \<longrightarrow> eax = w))"

text \<open>The ways in which a step changes the set of holders: not at all, by taking or by giving up the lock.\<close>

lemma spin_ok_same:
  assumes "spin_ok w0 (w, pc)" "holds_lock p = holds_lock (pc t)" "\<And>e. p = Unlocking e \<Longrightarrow> e = w"
  shows "spin_ok w0 (w, pc(t := p))"
proof -
  have h: "holds_lock ((pc(t := p)) u) = holds_lock (pc u)" for u using assms(2) by simp
  show ?thesis using assms(1,3) unfolding spin_ok_def prod.case h by (auto simp: fun_upd_apply split: if_splits)
qed

lemma spin_ok_take:
  assumes "spin_ok w0 (w, pc)" "\<not> bit w 0"
  shows "spin_ok w0 (w OR 1, pc(t := Inside))"
proof -
  have free: "\<not> holds_lock (pc u)" for u using assms by (auto simp: spin_ok_def)
  then have "pc u \<noteq> Unlocking e" for u e by (metis holds_lock_simps(2))
  moreover have "bit (w OR 1) 0" by (simp add: bit_simps)
  ultimately show ?thesis using assms free by (auto simp: spin_ok_def unlock_value_set)
qed

lemma spin_ok_release:
  assumes "spin_ok w0 (w, pc)" "pc t = Unlocking e"
  shows "spin_ok w0 (unlock_value e, pc(t := Outside))"
proof -
  have "e = w" using assms by (auto simp: spin_ok_def)
  moreover have "\<not> holds_lock (pc u)" if "u \<noteq> t" for u
    using assms that by (auto simp: spin_ok_def)
  moreover from this have "pc u \<noteq> Unlocking x" if "u \<noteq> t" for u x using that by (metis holds_lock_simps(2))
  ultimately show ?thesis using assms(1) bit_unlock_value [of w 0] unlock_value_free [of "unlock_value w"]
    by (auto simp: spin_ok_def)
qed

lemma spin_ok_step: "spin_step t s s' \<Longrightarrow> spin_ok w0 s \<Longrightarrow> spin_ok w0 s'"
proof (induction rule: spin_step.induct)
  case (unlock_store pc t eax w)
  then show ?case by (simp add: spin_ok_release del: fun_upd_apply)
next
  case (lock_taken pc t eax w old w')
  then show ?case by (auto simp: lock_exchange_iff simp del: fun_upd_apply intro: spin_ok_take)
next
  case (try_taken pc t eax w old w')
  then show ?case by (auto simp: lock_exchange_iff simp del: fun_upd_apply intro: spin_ok_take)
qed (auto simp: lock_exchange_iff simp del: fun_upd_apply intro!: spin_ok_same)

lemma spin_reach_ok: "spin_reach w0 s \<Longrightarrow> spin_ok w0 s"
proof (induction rule: spin_reach.induct)
  case start
  then show ?case by (simp add: spin_ok_def)
next
  case (step s t s')
  then show ?case by (blast intro: spin_ok_step)
qed

section \<open>Progress\<close>

text \<open>On a lock that is free, a thread that executes its accesses without a step of another gets it.\<close>

lemma free_lock_taken:
  assumes "\<not> bit w 0" "pc t = Outside"
  shows "\<exists>pc1 pc2. spin_step t (w, pc) (w, pc1) \<and> spin_step t (w, pc1) (w OR 1, pc2) \<and> pc2 t = Inside"
proof -
  have "lock_exchange w w = (True, w, w OR 1)" using assms(1) unlock_value_free by (simp add: lock_exchange_iff)
  then have "spin_step t (w, pc(t := Locking w)) (w OR 1, pc(t := Locking w, t := Inside))"
    by (intro lock_taken [of _ _ w]) simp_all
  moreover have "spin_step t (w, pc) (w, pc(t := Locking w))" using assms(2) by (rule lock_load)
  ultimately show ?thesis by (metis fun_upd_same)
qed

text \<open>A waiting thread that lost an exchange has the current value of the word for the next one.\<close>

lemma lost_exchange_retries:
  assumes "\<not> bit w 0" "pc t = Locking eax"
  shows "\<exists>pc'. spin_step t (w, pc) (w OR 1, pc') \<and> pc' t = Inside \<or>
    (\<exists>pc''. spin_step t (w, pc) (w, pc') \<and> spin_step t (w, pc') (w OR 1, pc'') \<and> pc'' t = Inside)"
proof (cases "w = unlock_value eax")
  case True
  then have "lock_exchange w eax = (True, w, w OR 1)" using assms(1) by (simp add: lock_exchange_iff)
  then show ?thesis using lock_taken [of pc t eax w w "w OR 1"] assms(2) by (metis fun_upd_same)
next
  case False
  then have l: "lock_exchange w eax = (False, w, w)" by (simp add: lock_exchange_iff)
  have "lock_exchange w w = (True, w, w OR 1)" using assms(1) unlock_value_free by (simp add: lock_exchange_iff)
  then have "spin_step t (w, pc(t := Locking w)) (w OR 1, pc(t := Locking w, t := Inside))"
    by (intro lock_taken [of _ _ w]) simp_all
  then show ?thesis using lock_again [of pc t eax w w w] assms(2) l by (metis fun_upd_same)
qed

section \<open>Properties\<close>

text \<open>
  C28: The spin lock excludes: in every interleaving of the loads and exchanges of any number of
  threads that lock, try and unlock, at most one of them is between taking the lock and releasing
  it, the low bit of the word is set exactly while one is, and its other bits keep their value. A
  thread at the exchange of \<open>k_rt_SpinLock\<close> on a free lock gets it with at most two exchanges of its own.
\<close>

theorem k_rt_SpinLock_excludes:
  assumes "spin_reach w0 (w, pc)"
  shows "(\<forall>t u. holds_lock (pc t) \<longrightarrow> holds_lock (pc u) \<longrightarrow> t = u) \<and>
    (spin_wait_done w \<longleftrightarrow> \<not> (\<exists>t. holds_lock (pc t))) \<and> unlock_value w = unlock_value w0 \<and>
    (\<forall>t eax. spin_wait_done w \<longrightarrow> pc t = Locking eax \<longrightarrow>
      (\<exists>pc'. spin_step t (w, pc) (w OR 1, pc') \<and> pc' t = Inside \<or>
        (\<exists>pc''. spin_step t (w, pc) (w, pc') \<and> spin_step t (w, pc') (w OR 1, pc'') \<and> pc'' t = Inside)))"
  using spin_reach_ok [OF assms] lost_exchange_retries [of w pc]
  by (auto simp: spin_ok_def spin_wait_done_def low_bit split: if_splits)

theorem k_rt_SpinLock_excludes_witness:
  "\<exists>pc. spin_reach 4 (5, pc) \<and> pc 1 = Inside \<and> pc 2 = Locking 5 \<and>
    (\<forall>t u. holds_lock (pc t) \<longrightarrow> holds_lock (pc u) \<longrightarrow> t = u)"
proof -
  have nb: "\<not> bit (4 :: u32) 0" by (simp add: bit_0)
  have x: "lock_exchange 4 4 = (True, 4, 5)" "lock_exchange 5 4 = (False, 5, 5)"
    by (simp_all add: lock_exchange_def k_rt_CmpXchg32_def)
  let ?pc = "(\<lambda>_. Outside)(1 :: nat := Locking 4, 2 := Locking 4, 1 := Inside, 2 := Locking (5 :: u32))"
  have "spin_reach 4 (4, (\<lambda>_. Outside)(1 :: nat := Locking 4))"
    by (rule spin_reach.step [OF spin_reach.start [OF nb] lock_load]) simp
  then have "spin_reach 4 (4, (\<lambda>_. Outside)(1 :: nat := Locking 4, 2 := Locking 4))"
    by (rule spin_reach.step [OF _ lock_load]) simp
  then have "spin_reach 4 (5, (\<lambda>_. Outside)(1 :: nat := Locking 4, 2 := Locking 4, 1 := Inside))"
    by (rule spin_reach.step [OF _ lock_taken [OF _ x(1)]]) simp
  then have r: "spin_reach 4 (5, ?pc)"
    by (rule spin_reach.step [OF _ lock_again [OF _ x(2)]]) simp
  have p: "?pc 1 = Inside" "?pc 2 = Locking 5" by simp_all
  show ?thesis
    by (rule exI [of _ ?pc], intro conjI) (use r p k_rt_SpinLock_excludes [OF r] in \<open>simp_all del: fun_upd_apply\<close>)
qed

end
