(* ===== verification/Cpu_Seg.thy ===== *)
theory Cpu_Seg
  imports Prelude
begin

text \<open>
  The segment descriptors of \<open>cpu/defs.h\<close> and the descriptor table that \<open>k_proc_Init\<close> of
  \<open>proc/proc.c\<close> writes. A descriptor scatters its base, limit, type and privilege over four words;
  the processor's reading of it is written out beside it, and the table is shown to say what the
  calls meant.
\<close>

section \<open>Descriptors\<close>

record k_cpu_seg_desc_t =
  seg_w0 :: u16
  seg_w1 :: u16
  seg_w2 :: u16
  seg_w3 :: u16

definition K_CPU_SEG_DESC_DPL :: "u32 \<Rightarrow> u32" where
  "K_CPU_SEG_DESC_DPL level = push_bit 13 level"

definition K_CPU_SEG_DESC :: "u32 \<Rightarrow> u32 \<Rightarrow> u32 \<Rightarrow> u32 \<Rightarrow> u32 \<Rightarrow> u32 \<Rightarrow> u32 \<Rightarrow> k_cpu_seg_desc_t" where
  "K_CPU_SEG_DESC base limit seg_type dpl gran op_size present = \<lparr>
     seg_w0 = ucast limit,
     seg_w1 = ucast base,
     seg_w2 = ucast (ucast (drop_bit 16 base AND 0xff :: u32) OR ucast (ucast seg_type :: u16) OR K_CPU_SEG_DESC_DPL dpl
       OR ucast (ucast (push_bit 15 present) :: u16) :: u32),
     seg_w3 = ucast (drop_bit 16 limit AND 0xf) OR ucast op_size OR ucast gran OR ucast (drop_bit 16 base AND 0xff00)\<rparr>"

definition K_CPU_SEG_SEL :: "u32 \<Rightarrow> u32 \<Rightarrow> u32 \<Rightarrow> u32" where
  "K_CPU_SEG_SEL index rpl ti = push_bit 3 index OR ti OR (rpl AND 0x3)"

definition K_CPU_SEG_DESC_TYPE_CODE_DATA :: u32 where "K_CPU_SEG_DESC_TYPE_CODE_DATA = 0x1000"
definition K_CPU_SEG_GRAN_BYTE :: u32 where "K_CPU_SEG_GRAN_BYTE = 0"
definition K_CPU_SEG_GRAN_4KB :: u32 where "K_CPU_SEG_GRAN_4KB = 0x80"
definition K_CPU_SEG_OP_SIZE_16 :: u32 where "K_CPU_SEG_OP_SIZE_16 = 0"
definition K_CPU_SEG_OP_SIZE_32 :: u32 where "K_CPU_SEG_OP_SIZE_32 = 0x40"
definition K_CPU_SEG_FLAG_C :: u32 where "K_CPU_SEG_FLAG_C = 0x800"
definition K_CPU_DSEG_FLAG_RW :: u32 where "K_CPU_DSEG_FLAG_RW = 0x200"
definition K_CPU_CSEG_FLAG_ER :: u32 where "K_CPU_CSEG_FLAG_ER = 0x200"
definition K_CPU_CSEG_FLAG_C :: u32 where "K_CPU_CSEG_FLAG_C = 0x400"

definition K_CPU_DSEG_TYPE_RW :: u32 where
  "K_CPU_DSEG_TYPE_RW = K_CPU_DSEG_FLAG_RW OR K_CPU_SEG_DESC_TYPE_CODE_DATA"
definition K_CPU_CSEG_TYPE_EO :: u32 where
  "K_CPU_CSEG_TYPE_EO = K_CPU_SEG_FLAG_C OR K_CPU_SEG_DESC_TYPE_CODE_DATA"
definition K_CPU_CSEG_TYPE_ER :: u32 where
  "K_CPU_CSEG_TYPE_ER = K_CPU_SEG_FLAG_C OR K_CPU_CSEG_FLAG_ER OR K_CPU_SEG_DESC_TYPE_CODE_DATA"
definition K_CPU_CSEG_TYPE_EOC :: u32 where
  "K_CPU_CSEG_TYPE_EOC = K_CPU_CSEG_TYPE_EO OR K_CPU_CSEG_FLAG_C OR K_CPU_SEG_DESC_TYPE_CODE_DATA"
definition K_CPU_SSEG_TYPE_TSS32_AVAL :: u32 where
  "K_CPU_SSEG_TYPE_TSS32_AVAL = 0x900"

lemmas seg_flags = K_CPU_SEG_DESC_TYPE_CODE_DATA_def K_CPU_SEG_GRAN_BYTE_def K_CPU_SEG_GRAN_4KB_def
  K_CPU_SEG_OP_SIZE_16_def K_CPU_SEG_OP_SIZE_32_def K_CPU_SEG_FLAG_C_def K_CPU_DSEG_FLAG_RW_def
  K_CPU_CSEG_FLAG_ER_def K_CPU_CSEG_FLAG_C_def K_CPU_DSEG_TYPE_RW_def K_CPU_CSEG_TYPE_EO_def
  K_CPU_CSEG_TYPE_ER_def K_CPU_CSEG_TYPE_EOC_def K_CPU_SSEG_TYPE_TSS32_AVAL_def

section \<open>The processor's reading\<close>

text \<open>The fields of a descriptor as the processor takes them from its eight bytes.\<close>

definition seg_base :: "k_cpu_seg_desc_t \<Rightarrow> u32" where
  "seg_base d = ucast (seg_w1 d) OR push_bit 16 (ucast (seg_w2 d AND 0xff)) OR push_bit 16 (ucast (seg_w3 d AND 0xff00))"

definition seg_limit :: "k_cpu_seg_desc_t \<Rightarrow> u32" where
  "seg_limit d = ucast (seg_w0 d) OR push_bit 16 (ucast (seg_w3 d AND 0xf))"

definition seg_type_of :: "k_cpu_seg_desc_t \<Rightarrow> u32" where
  "seg_type_of d = ucast (seg_w2 d AND 0x1f00)"

definition seg_dpl :: "k_cpu_seg_desc_t \<Rightarrow> u32" where
  "seg_dpl d = drop_bit 13 (ucast (seg_w2 d AND 0x6000))"

definition seg_present :: "k_cpu_seg_desc_t \<Rightarrow> bool" where
  "seg_present d = bit (seg_w2 d) 15"

definition seg_code :: "k_cpu_seg_desc_t \<Rightarrow> bool" where
  "seg_code d \<longleftrightarrow> bit (seg_w2 d) 12 \<and> bit (seg_w2 d) 11"

text \<open>The last address of a segment: with 4 KB granularity the limit counts pages.\<close>

definition seg_last :: "k_cpu_seg_desc_t \<Rightarrow> u32" where
  "seg_last d = (if bit (seg_w3 d) 7 then push_bit 12 (seg_limit d) OR 0xfff else seg_limit d)"

lemma low_bits_mask: "(0xff :: u32) = mask 8" "(0xff :: u16) = mask 8" "(0xf :: u32) = mask 4" "(0xf :: u16) = mask 4"
    "(0xfff :: u32) = mask 12" "(0xffff :: u32) = mask 16" "(0x3 :: u32) = mask 2"
  by (simp_all add: mask_eq_exp_minus_1)

lemma high_bits_mask: "(0xff00 :: u16) = push_bit 8 (mask 8)" "(0xff00 :: u32) = push_bit 8 (mask 8)"
    "(0x1f00 :: u16) = push_bit 8 (mask 5)" "(0x6000 :: u16) = push_bit 13 (mask 2)" "(0xffff0000 :: u32) = push_bit 16 (mask 16)"
  by (simp_all add: mask_eq_exp_minus_1 push_bit_of_1 push_bit_eq_mult)

text \<open>The bits that the descriptor's flags may use.\<close>

definition seg_args :: "u32 \<Rightarrow> u32 \<Rightarrow> u32 \<Rightarrow> u32 \<Rightarrow> bool" where
  "seg_args ty dpl gran op_size \<longleftrightarrow> ty AND NOT 0x1f00 = 0 \<and> dpl AND NOT 0x3 = 0 \<and> gran AND NOT 0x80 = 0 \<and> op_size AND NOT 0x40 = 0"

lemma seg_argsD:
  assumes "seg_args ty dpl gran op_size"
  shows "bit ty n \<Longrightarrow> 8 \<le> n \<and> n < 13" "bit dpl n \<Longrightarrow> n < 2" "bit gran n \<Longrightarrow> n = 7" "bit op_size n \<Longrightarrow> n = 6"
proof -
  have m: "(0x1f00 :: u32) = push_bit 8 (mask 5)" "(0x3 :: u32) = mask 2"
    by (simp_all add: mask_eq_exp_minus_1 push_bit_eq_mult)
  have out: "bit x k \<Longrightarrow> bit y k" if "x AND NOT y = 0" "k < 32" for x y :: u32 and k
  proof -
    have "\<not> bit (x AND NOT y) k" unfolding that(1) by simp
    then show "bit x k \<Longrightarrow> bit y k" using that(2) by (simp add: bit_and_iff bit_not_iff)
  qed
  have a: "ty AND NOT (push_bit 8 (mask 5)) = 0" "dpl AND NOT (mask 2) = 0" "gran AND NOT 0x80 = 0" "op_size AND NOT 0x40 = 0"
    using assms unfolding seg_args_def m by simp_all
  show "bit ty n \<Longrightarrow> 8 \<le> n \<and> n < 13" "bit dpl n \<Longrightarrow> n < 2" "bit gran n \<Longrightarrow> n = 7" "bit op_size n \<Longrightarrow> n = 6"
    using out [OF a(1), of n] out [OF a(2), of n] out [OF a(3), of n] out [OF a(4), of n] bit_imp_le_length [of ty n]
      bit_imp_le_length [of dpl n] bit_imp_le_length [of gran n] bit_imp_le_length [of op_size n]
      bit_exp_iff [where ?'a = u32, of 7 n] bit_exp_iff [where ?'a = u32, of 6 n]
    by (auto simp: bit_simps)
qed

lemma seg_words:
  "bit (seg_w0 (K_CPU_SEG_DESC base limit ty dpl gran op_size p)) n \<longleftrightarrow> n < 16 \<and> bit limit n"
  "bit (seg_w1 (K_CPU_SEG_DESC base limit ty dpl gran op_size p)) n \<longleftrightarrow> n < 16 \<and> bit base n"
  "bit (seg_w2 (K_CPU_SEG_DESC base limit ty dpl gran op_size p)) n \<longleftrightarrow> n < 16 \<and>
     (n < 8 \<and> bit base (n + 16) \<or> bit ty n \<or> 13 \<le> n \<and> bit dpl (n - 13) \<or> 15 \<le> n \<and> bit p (n - 15))"
  "bit (seg_w3 (K_CPU_SEG_DESC base limit ty dpl gran op_size p)) n \<longleftrightarrow> n < 16 \<and>
     (n < 4 \<and> bit limit (n + 16) \<or> bit op_size n \<or> bit gran n \<or> 8 \<le> n \<and> bit base (n + 16))"
  by (auto simp: K_CPU_SEG_DESC_def K_CPU_SEG_DESC_DPL_def bit_simps low_bits_mask high_bits_mask add.commute)

lemma seg_base_desc:
  assumes "seg_args ty dpl gran op_size"
  shows "seg_base (K_CPU_SEG_DESC base limit ty dpl gran op_size p) = base"
proof (rule bit_word_eqI)
  fix n assume n: "n < LENGTH(32)"
  note D = seg_argsD [OF assms]
  show "bit (seg_base (K_CPU_SEG_DESC base limit ty dpl gran op_size p)) n = bit base n"
    using n D(1) [of "n - 16"] D(3) [of "n - 16"] D(4) [of "n - 16"]
    by (auto simp: seg_base_def bit_simps low_bits_mask high_bits_mask seg_words)
qed

lemma seg_limit_desc:
  assumes "seg_args ty dpl gran op_size"
  shows "seg_limit (K_CPU_SEG_DESC base limit ty dpl gran op_size p) = limit AND 0xfffff"
proof (rule bit_word_eqI)
  fix n assume n: "n < LENGTH(32)"
  have m: "(0xfffff :: u32) = mask 20" by (simp add: mask_eq_exp_minus_1)
  note D = seg_argsD [OF assms]
  show "bit (seg_limit (K_CPU_SEG_DESC base limit ty dpl gran op_size p)) n = bit (limit AND 0xfffff) n"
    using n D(3) [of "n - 16"] D(4) [of "n - 16"]
    by (auto simp: seg_limit_def m bit_simps low_bits_mask seg_words)
qed

lemma seg_type_desc:
  assumes "seg_args ty dpl gran op_size"
  shows "seg_type_of (K_CPU_SEG_DESC base limit ty dpl gran op_size p) = ty"
proof (rule bit_word_eqI)
  fix n assume n: "n < LENGTH(32)"
  note D = seg_argsD [OF assms]
  show "bit (seg_type_of (K_CPU_SEG_DESC base limit ty dpl gran op_size p)) n = bit ty n"
    using n D(1) [of n] by (auto simp: seg_type_of_def bit_simps high_bits_mask seg_words)
qed

lemma seg_dpl_desc:
  assumes "seg_args ty dpl gran op_size"
  shows "seg_dpl (K_CPU_SEG_DESC base limit ty dpl gran op_size p) = dpl"
proof (rule bit_word_eqI)
  fix n assume n: "n < LENGTH(32)"
  note D = seg_argsD [OF assms]
  show "bit (seg_dpl (K_CPU_SEG_DESC base limit ty dpl gran op_size p)) n = bit dpl n"
    using n D(1) [of "n + 13"] D(2) [of n] by (auto simp: seg_dpl_def bit_simps high_bits_mask seg_words add.commute)
qed

lemma seg_present_desc:
  assumes "seg_args ty dpl gran op_size"
  shows "seg_present (K_CPU_SEG_DESC base limit ty dpl gran op_size p) = bit p 0"
  using seg_argsD(1,3,4) [OF assms, of 15] seg_argsD(2) [OF assms, of 2] by (auto simp: seg_present_def seg_words)

lemma seg_gran_desc:
  assumes "seg_args ty dpl gran op_size"
  shows "bit (seg_w3 (K_CPU_SEG_DESC base limit ty dpl gran op_size p)) 7 = bit gran 7"
  using seg_argsD(1,3,4) [OF assms, of 7] by (auto simp: seg_words)

section \<open>The table\<close>

definition K_PROC_NULL_SEG :: nat where "K_PROC_NULL_SEG = 0"
definition K_PROC_R0_DATA_SEG :: nat where "K_PROC_R0_DATA_SEG = 1"
definition K_PROC_R0_CODE_SEG :: nat where "K_PROC_R0_CODE_SEG = 2"
definition K_PROC_R3_DATA_SEG :: nat where "K_PROC_R3_DATA_SEG = 3"
definition K_PROC_R3_CODE_SEG :: nat where "K_PROC_R3_CODE_SEG = 4"
definition K_PROC_REAL_MODE_CODE_SEG :: nat where "K_PROC_REAL_MODE_CODE_SEG = 5"
definition K_PROC_TSS_SEG :: nat where "K_PROC_TSS_SEG = 6"
definition K_PROC_R0_C_CODE_SEG :: nat where "K_PROC_R0_C_CODE_SEG = 7"

lemmas seg_index = K_PROC_NULL_SEG_def K_PROC_R0_DATA_SEG_def K_PROC_R0_CODE_SEG_def K_PROC_R3_DATA_SEG_def
  K_PROC_R3_CODE_SEG_def K_PROC_REAL_MODE_CODE_SEG_def K_PROC_TSS_SEG_def K_PROC_R0_C_CODE_SEG_def

text \<open>The descriptor table after \<open>k_proc_Init\<close>; \<open>tss\<close> is the address of the task state segment it allocates.\<close>

definition init_gdt :: "u32 \<Rightarrow> k_cpu_seg_desc_t list" where
  "init_gdt tss = [
     K_CPU_SEG_DESC 0 0 0 0 0 0 0,
     K_CPU_SEG_DESC 0 0xffffff K_CPU_DSEG_TYPE_RW 0 K_CPU_SEG_GRAN_4KB K_CPU_SEG_OP_SIZE_32 1,
     K_CPU_SEG_DESC 0 0xffffff K_CPU_CSEG_TYPE_EO 0 K_CPU_SEG_GRAN_4KB K_CPU_SEG_OP_SIZE_32 1,
     K_CPU_SEG_DESC 0 0xffffff K_CPU_DSEG_TYPE_RW 3 K_CPU_SEG_GRAN_4KB K_CPU_SEG_OP_SIZE_32 1,
     K_CPU_SEG_DESC 0 0xffffff K_CPU_CSEG_TYPE_EO 3 K_CPU_SEG_GRAN_4KB K_CPU_SEG_OP_SIZE_32 1,
     K_CPU_SEG_DESC 0 0xffff K_CPU_CSEG_TYPE_ER 0 K_CPU_SEG_GRAN_BYTE K_CPU_SEG_OP_SIZE_16 1,
     K_CPU_SEG_DESC 0 0x67 K_CPU_SSEG_TYPE_TSS32_AVAL 0 K_CPU_SEG_GRAN_BYTE 0 1,
     K_CPU_SEG_DESC 0 0xffffff K_CPU_CSEG_TYPE_EOC 0 K_CPU_SEG_GRAN_4KB K_CPU_SEG_OP_SIZE_32 1
   ][K_PROC_TSS_SEG := K_CPU_SEG_DESC tss 0x67 K_CPU_SSEG_TYPE_TSS32_AVAL 0 K_CPU_SEG_GRAN_BYTE 0 1]"

lemma seg_args_const:
  "seg_args K_CPU_DSEG_TYPE_RW 0 K_CPU_SEG_GRAN_4KB K_CPU_SEG_OP_SIZE_32"
  "seg_args K_CPU_CSEG_TYPE_EO 0 K_CPU_SEG_GRAN_4KB K_CPU_SEG_OP_SIZE_32"
  "seg_args K_CPU_DSEG_TYPE_RW 3 K_CPU_SEG_GRAN_4KB K_CPU_SEG_OP_SIZE_32"
  "seg_args K_CPU_CSEG_TYPE_EO 3 K_CPU_SEG_GRAN_4KB K_CPU_SEG_OP_SIZE_32"
  "seg_args K_CPU_CSEG_TYPE_ER 0 K_CPU_SEG_GRAN_BYTE K_CPU_SEG_OP_SIZE_16"
  "seg_args K_CPU_SSEG_TYPE_TSS32_AVAL 0 K_CPU_SEG_GRAN_BYTE 0"
  "seg_args K_CPU_CSEG_TYPE_EOC 0 K_CPU_SEG_GRAN_4KB K_CPU_SEG_OP_SIZE_32"
  by (simp_all add: seg_args_def seg_flags)

lemmas seg_desc = seg_base_desc seg_limit_desc seg_type_desc seg_dpl_desc seg_present_desc seg_gran_desc

text \<open>
  The descriptor table of \<open>k_proc_Init\<close>, as the processor reads it. Kernel and user segments
  start at 0 and end at the last address of the machine, writable data or executable code at rings 0
  and 3; the real mode segment ends at \<open>0xffff\<close>; the task state segment is \<open>tss\<close>, whatever its
  address, with a limit of 104 bytes; and of the eight selectors exactly 2, 4, 5 and 7 name code.
\<close>

theorem init_gdt_segments:
  "length (init_gdt tss) = 8 \<and>
   map seg_present (init_gdt tss) = [False, True, True, True, True, True, True, True] \<and>
   map seg_base (init_gdt tss) = [0, 0, 0, 0, 0, 0, tss, 0] \<and>
   map seg_last (tl (init_gdt tss)) = [0xffffffff, 0xffffffff, 0xffffffff, 0xffffffff, 0xffff, 0x67, 0xffffffff] \<and>
   map seg_dpl (init_gdt tss) = [0, 0, 0, 3, 3, 0, 0, 0] \<and>
   map seg_type_of (tl (init_gdt tss)) = [0x1200, 0x1800, 0x1200, 0x1800, 0x1a00, 0x900, 0x1c00] \<and>
   map seg_code (init_gdt tss) = [False, False, True, False, True, True, False, True]"
proof -
  note d = seg_args_const [THEN seg_base_desc] seg_args_const [THEN seg_limit_desc] seg_args_const [THEN seg_type_desc]
    seg_args_const [THEN seg_dpl_desc] seg_args_const [THEN seg_present_desc] seg_args_const [THEN seg_gran_desc]
  have null: "K_CPU_SEG_DESC 0 0 0 0 0 0 0 = \<lparr>seg_w0 = 0, seg_w1 = 0, seg_w2 = 0, seg_w3 = 0\<rparr>"
    by (simp add: K_CPU_SEG_DESC_def K_CPU_SEG_DESC_DPL_def)
  have code: "seg_code x \<longleftrightarrow> bit (seg_type_of x) 12 \<and> bit (seg_type_of x) 11" for x
    by (auto simp: seg_code_def seg_type_of_def high_bits_mask bit_simps)
  show ?thesis
    by (simp add: init_gdt_def seg_index null d code seg_last_def)
      (simp add: seg_flags seg_base_def seg_limit_def seg_dpl_def seg_present_def seg_type_of_def)
qed

end
