(* ===== verification/Irq_Table.thy ===== *)
theory Irq_Table
  imports Cpu_Seg
begin

text \<open>
  Interrupts: the descriptor table and the handler table of \<open>irq/irq.c\<close> and the table of entry stubs
  of \<open>irq/share_a.asm\<close>. Handlers are addresses; \<open>jt\<close> is the address of the first stub and
  \<open>int_entry v\<close> the address of the entry routine of exception \<open>v\<close>.
\<close>

section \<open>Gates\<close>

record k_irq_desc_t =
  irq_dw0 :: u32
  irq_dw1 :: u32

definition K_IRQ_DESC_TYPE_INT_GATE :: u32 where "K_IRQ_DESC_TYPE_INT_GATE = 0x600"
definition K_IRQ_DESC_TYPE_TRAP_GATE :: u32 where "K_IRQ_DESC_TYPE_TRAP_GATE = 0x700"
definition K_IRQ_DESC_FLAG_PRESENT :: u32 where "K_IRQ_DESC_FLAG_PRESENT = 0x8000"
definition K_IRQ_DESC_FLAG_32BIT :: u32 where "K_IRQ_DESC_FLAG_32BIT = 0x800"
definition K_IRQ_HANDLER_LAST :: nat where "K_IRQ_HANDLER_LAST = 256"

definition K_IRQ_DESCRIPTOR :: "u32 \<Rightarrow> u32 \<Rightarrow> u32 \<Rightarrow> u32 \<Rightarrow> u32 \<Rightarrow> k_irq_desc_t" where
  "K_IRQ_DESCRIPTOR offset segment dpl ty fl = \<lparr>
     irq_dw0 = (offset AND 0x0000ffff) OR push_bit 16 segment,
     irq_dw1 = (offset AND 0xffff0000) OR ty OR K_IRQ_DESC_FLAG_PRESENT OR fl OR K_CPU_SEG_DESC_DPL dpl\<rparr>"

text \<open>What the processor takes from a gate: the routine it enters and the selector of its segment.\<close>

definition gate_offset :: "k_irq_desc_t \<Rightarrow> u32" where
  "gate_offset d = (irq_dw0 d AND 0xffff) OR (irq_dw1 d AND 0xffff0000)"

definition gate_selector :: "k_irq_desc_t \<Rightarrow> u32" where
  "gate_selector d = drop_bit 16 (irq_dw0 d)"

definition gate_present :: "k_irq_desc_t \<Rightarrow> bool" where
  "gate_present d = bit (irq_dw1 d) 15"

definition gate_dpl :: "k_irq_desc_t \<Rightarrow> u32" where
  "gate_dpl d = drop_bit 13 (irq_dw1 d) AND 0x3"

section \<open>The tables\<close>

record k_irq_handler_t =
  irq_handler :: "nat option"
  irq_data :: nat

record irq_tables =
  irq_idt :: "k_irq_desc_t list"
  irq_handler_table :: "k_irq_handler_t list"

definition irq_stub :: "u32 \<Rightarrow> nat \<Rightarrow> u32" where
  "irq_stub jt vector = jt + word_of_nat ((vector - 32) * 16)"

definition stub_desc :: "u32 \<Rightarrow> nat \<Rightarrow> k_irq_desc_t" where
  "stub_desc jt vector = K_IRQ_DESCRIPTOR (irq_stub jt vector) (K_CPU_SEG_SEL (word_of_nat K_PROC_R0_C_CODE_SEG) 3 0) 3
     K_IRQ_DESC_TYPE_INT_GATE K_IRQ_DESC_FLAG_32BIT"

definition exception_gates :: "(nat \<Rightarrow> u32) \<Rightarrow> (nat \<times> k_irq_desc_t) list" where
  "exception_gates int_entry =
     map (\<lambda>(v, seg, ty). (v, K_IRQ_DESCRIPTOR (int_entry v) (K_CPU_SEG_SEL seg 3 0) 3 ty K_IRQ_DESC_FLAG_32BIT))
       [(0, 6, K_IRQ_DESC_TYPE_INT_GATE), (2, 6, K_IRQ_DESC_TYPE_INT_GATE), (3, 6, K_IRQ_DESC_TYPE_TRAP_GATE),
        (4, 6, K_IRQ_DESC_TYPE_TRAP_GATE), (5, 6, K_IRQ_DESC_TYPE_INT_GATE), (6, 6, K_IRQ_DESC_TYPE_INT_GATE),
        (7, 6, K_IRQ_DESC_TYPE_INT_GATE), (8, 6, K_IRQ_DESC_TYPE_INT_GATE), (10, 6, K_IRQ_DESC_TYPE_INT_GATE),
        (13, 6, K_IRQ_DESC_TYPE_INT_GATE), (14, 2, K_IRQ_DESC_TYPE_INT_GATE)]"

text \<open>The loop of \<open>k_int_Init\<close> over the vectors from \<open>index\<close>, and the whole of it.\<close>

fun init_stubs :: "u32 \<Rightarrow> nat \<Rightarrow> nat \<Rightarrow> irq_tables \<Rightarrow> irq_tables option" where
  "init_stubs jt 0 index st = Some st"
| "init_stubs jt (Suc n) index st = do {
     d \<leftarrow> wr (irq_idt st) index (stub_desc jt index);
     h \<leftarrow> wr (irq_handler_table st) index \<lparr>irq_handler = None, irq_data = 0\<rparr>;
     init_stubs jt n (index + 1) (st\<lparr>irq_idt := d, irq_handler_table := h\<rparr>)
   }"

definition k_int_Init :: "u32 \<Rightarrow> (nat \<Rightarrow> u32) \<Rightarrow> irq_tables \<Rightarrow> irq_tables option" where
  "k_int_Init jt int_entry st =
     init_stubs jt (K_IRQ_HANDLER_LAST - 32) 32
       (st\<lparr>irq_idt := foldl (\<lambda>t (v, d). t[v := d]) (irq_idt st) (exception_gates int_entry)\<rparr>)"

definition k_irq_SetIDTEntry :: "nat \<Rightarrow> u32 \<Rightarrow> u32 \<Rightarrow> u32 \<Rightarrow> irq_tables \<Rightarrow> irq_tables option" where
  "k_irq_SetIDTEntry vector handler seg_sel gate_pl st = do {
     d \<leftarrow> wr (irq_idt st) vector (K_IRQ_DESCRIPTOR handler seg_sel gate_pl K_IRQ_DESC_TYPE_INT_GATE K_IRQ_DESC_FLAG_32BIT);
     Some (st\<lparr>irq_idt := d\<rparr>)
   }"

text \<open>The message that a handler was not installed goes to the terminal and is left out.\<close>

definition k_irq_SetInterruptHandler :: "u32 \<Rightarrow> nat \<Rightarrow> nat option \<Rightarrow> nat \<Rightarrow> irq_tables \<Rightarrow> irq_tables option" where
  "k_irq_SetInterruptHandler jt vector handler data st =
     (if 32 \<le> vector \<and> vector < K_IRQ_HANDLER_LAST then do {
        d \<leftarrow> rd (irq_idt st) vector;
        if irq_dw0 d = irq_dw0 (stub_desc jt vector) \<and> irq_dw1 d = irq_dw1 (stub_desc jt vector) then do {
          h \<leftarrow> wr (irq_handler_table st) vector \<lparr>irq_handler = handler, irq_data = data\<rparr>;
          Some (st\<lparr>irq_handler_table := h\<rparr>)
        }
        else Some st
      }
      else Some st)"

text \<open>The handler that is called, with its data, if there is one.\<close>

definition k_irq_DispatchIRQ :: "nat \<Rightarrow> irq_tables \<Rightarrow> (nat \<times> nat) option option" where
  "k_irq_DispatchIRQ vector st = do {
     h \<leftarrow> rd (irq_handler_table st) vector;
     Some (map_option (\<lambda>f. (f, irq_data h)) (irq_handler h))
   }"

section \<open>Raising an interrupt\<close>

text \<open>The processor enters the routine of the gate; stub number \<open>v - 32\<close> dispatches vector \<open>v\<close>.\<close>

datatype irq_entry = Direct u32 | Dispatched "(nat \<times> nat) option"

definition stub_vectors :: "nat list" where
  "stub_vectors = [32..<257]"

definition raise_irq :: "u32 \<Rightarrow> irq_tables \<Rightarrow> nat \<Rightarrow> irq_entry option" where
  "raise_irq jt st vector = do {
     d \<leftarrow> rd (irq_idt st) vector;
     case find (\<lambda>v. irq_stub jt v = gate_offset d) stub_vectors of
       None \<Rightarrow> Some (Direct (gate_offset d))
     | Some v \<Rightarrow> do { c \<leftarrow> k_irq_DispatchIRQ v st; Some (Dispatched c) }
   }"

lemma gate_offset_desc:
  assumes "dpl AND NOT 0x3 = 0" "ty \<in> {K_IRQ_DESC_TYPE_INT_GATE, K_IRQ_DESC_TYPE_TRAP_GATE}"
  shows "gate_offset (K_IRQ_DESCRIPTOR offset segment dpl ty K_IRQ_DESC_FLAG_32BIT) = offset"
proof (rule bit_word_eqI)
  fix n assume n: "n < LENGTH(32)"
  have "bit dpl k \<Longrightarrow> k < 2" for k
  proof -
    have "\<not> bit (dpl AND NOT (mask 2)) k" using assms(1) unfolding low_bits_mask by simp
    then show "bit dpl k \<Longrightarrow> k < 2" using bit_imp_le_length [of dpl k] by (auto simp: bit_simps)
  qed
  note d = this [of "n - 13"]
  define fl where "fl = ty OR K_IRQ_DESC_FLAG_PRESENT OR K_IRQ_DESC_FLAG_32BIT"
  have "drop_bit 16 fl = 0"
    using assms(2) by (auto simp: fl_def K_IRQ_DESC_TYPE_INT_GATE_def K_IRQ_DESC_TYPE_TRAP_GATE_def K_IRQ_DESC_FLAG_PRESENT_def
      K_IRQ_DESC_FLAG_32BIT_def)
  then have "\<not> bit (drop_bit 16 fl) (n - 16)" by simp
  then have f: "16 \<le> n \<Longrightarrow> \<not> bit fl n" by (simp add: bit_drop_bit_eq)
  have dw1: "irq_dw1 (K_IRQ_DESCRIPTOR offset segment dpl ty K_IRQ_DESC_FLAG_32BIT) =
      (offset AND 0xffff0000) OR fl OR K_CPU_SEG_DESC_DPL dpl"
    by (simp add: K_IRQ_DESCRIPTOR_def fl_def or.assoc)
  have dw0: "irq_dw0 (K_IRQ_DESCRIPTOR offset segment dpl ty K_IRQ_DESC_FLAG_32BIT) = (offset AND 0xffff) OR push_bit 16 segment"
    by (simp add: K_IRQ_DESCRIPTOR_def)
  show "bit (gate_offset (K_IRQ_DESCRIPTOR offset segment dpl ty K_IRQ_DESC_FLAG_32BIT)) n = bit offset n"
    unfolding gate_offset_def dw0 dw1 using n d f
    by (auto simp: K_CPU_SEG_DESC_DPL_def low_bits_mask high_bits_mask bit_simps)
qed

section \<open>Routing\<close>

text \<open>
  The abstract view of the two tables: where each vector goes. Entering a routine in the descriptor
  table directs its vector there; installing a handler takes effect on vectors that go to their stub.
\<close>

datatype irq_op = SetEntry nat u32 u32 u32 | SetHandler nat "nat option" nat

fun irq_run :: "u32 \<Rightarrow> irq_op list \<Rightarrow> irq_tables \<Rightarrow> irq_tables option" where
  "irq_run jt [] st = Some st"
| "irq_run jt (SetEntry v h s g # ops) st = do { st \<leftarrow> k_irq_SetIDTEntry v h s g st; irq_run jt ops st }"
| "irq_run jt (SetHandler v h d # ops) st = do { st \<leftarrow> k_irq_SetInterruptHandler jt v h d st; irq_run jt ops st }"

fun route_step :: "irq_op \<Rightarrow> (nat \<Rightarrow> irq_entry) \<Rightarrow> nat \<Rightarrow> irq_entry" where
  "route_step (SetEntry v h s g) r = r(v := Direct h)"
| "route_step (SetHandler v h d) r = (case r v of Direct _ \<Rightarrow> r | Dispatched _ \<Rightarrow> r(v := Dispatched (map_option (\<lambda>f. (f, d)) h)))"

definition route_init :: "(nat \<Rightarrow> u32) \<Rightarrow> nat \<Rightarrow> irq_entry" where
  "route_init int_entry v =
     (if 32 \<le> v then Dispatched None else Direct (if v \<in> {0, 2, 3, 4, 5, 6, 7, 8, 10, 13, 14} then int_entry v else 0))"

definition is_stub :: "u32 \<Rightarrow> u32 \<Rightarrow> bool" where
  "is_stub jt h \<longleftrightarrow> (\<exists>v \<in> {32..<257}. irq_stub jt v = h)"

fun irq_op_ok :: "u32 \<Rightarrow> irq_op \<Rightarrow> bool" where
  "irq_op_ok jt (SetEntry v h s g) \<longleftrightarrow> v < 256 \<and> \<not> is_stub jt h \<and> g AND NOT 0x3 = 0"
| "irq_op_ok jt (SetHandler v h d) \<longleftrightarrow> True"

definition stubs_ok :: "u32 \<Rightarrow> bool" where
  "stubs_ok jt \<longleftrightarrow> 0 < jt \<and> unat jt + 16 * 224 < 2 ^ 32"

definition vector_ok :: "u32 \<Rightarrow> irq_entry \<Rightarrow> irq_tables \<Rightarrow> nat \<Rightarrow> bool" where
  "vector_ok jt e st v = (case e of
      Direct h \<Rightarrow> gate_offset (irq_idt st ! v) = h \<and> \<not> is_stub jt h
    | Dispatched c \<Rightarrow> 32 \<le> v \<and> irq_idt st ! v = stub_desc jt v \<and>
        map_option (\<lambda>f. (f, irq_data (irq_handler_table st ! v))) (irq_handler (irq_handler_table st ! v)) = c)"

definition tables_rep :: "u32 \<Rightarrow> (nat \<Rightarrow> irq_entry) \<Rightarrow> irq_tables \<Rightarrow> bool" where
  "tables_rep jt r st \<longleftrightarrow> length (irq_idt st) = 256 \<and> length (irq_handler_table st) = 256 \<and>
     (\<forall>v < 256. vector_ok jt (r v) st v)"

lemma irq_stub_unat:
  assumes "stubs_ok jt" "32 \<le> v" "v < 257"
  shows "unat (irq_stub jt v) = unat jt + 16 * (v - 32)"
proof -
  have "16 * (v - 32) \<le> 16 * 224" using assms(3) by simp
  then have "unat jt + 16 * (v - 32) < 2 ^ 32" using assms(1) unfolding stubs_ok_def by linarith
  moreover have "irq_stub jt v = word_of_nat (unat jt + 16 * (v - 32))" by (simp add: irq_stub_def mult.commute)
  ultimately show ?thesis by (simp only: unat_of_nat) simp
qed

lemma irq_stub_inj: "stubs_ok jt \<Longrightarrow> v \<in> {32..<257} \<Longrightarrow> w \<in> {32..<257} \<Longrightarrow> irq_stub jt v = irq_stub jt w \<Longrightarrow> v = w"
  using irq_stub_unat [of jt v] irq_stub_unat [of jt w] by auto

lemma stub_zero: "stubs_ok jt \<Longrightarrow> \<not> is_stub jt 0"
proof
  assume s: "stubs_ok jt" and "is_stub jt 0"
  then obtain v where v: "32 \<le> v" "v < 257" "irq_stub jt v = 0" by (auto simp: is_stub_def)
  then have "unat jt = 0" using irq_stub_unat [OF s v(1,2)] by simp
  then show False using s by (simp add: stubs_ok_def unat_eq_0)
qed

lemma gate_offset_stub: "gate_offset (stub_desc jt v) = irq_stub jt v"
  unfolding stub_desc_def by (rule gate_offset_desc) simp_all

lemma find_skip: "(\<And>x. x \<in> set xs \<Longrightarrow> \<not> P x) \<Longrightarrow> find P (xs @ ys) = find P ys"
  by (induction xs) simp_all

lemma set_stub_vectors: "v \<in> set stub_vectors \<longleftrightarrow> 32 \<le> v \<and> v < 257"
  unfolding stub_vectors_def set_upt by auto

lemma find_stub:
  assumes "32 \<le> v" "v < 257" "P v" "\<And>w. 32 \<le> w \<Longrightarrow> w < 257 \<Longrightarrow> P w \<Longrightarrow> w = v"
  shows "find P stub_vectors = Some v"
proof -
  have "stub_vectors = [32..<v] @ [v..<257]"
    unfolding stub_vectors_def using upt_add_eq_append [of 32 v "257 - v"] assms(1,2) by simp
  also have "[v..<257] = v # [Suc v..<257]" using assms(2) by (rule upt_conv_Cons)
  finally have e: "stub_vectors = [32..<v] @ v # [Suc v..<257]" .
  have "\<not> P w" if "w \<in> set [32..<v]" for w using that assms(2,4) by force
  then show ?thesis unfolding e using assms(3) find_skip by (metis find.simps(2))
qed

lemma raise_irq_rep:
  assumes "stubs_ok jt" "tables_rep jt r st" "v < 256"
  shows "raise_irq jt st v = Some (r v)"
proof -
  have l: "length (irq_idt st) = 256" "length (irq_handler_table st) = 256" "vector_ok jt (r v) st v"
    using assms by (simp_all add: tables_rep_def)
  show ?thesis
  proof (cases "r v")
    case (Direct h)
    then have "gate_offset (irq_idt st ! v) = h" "find (\<lambda>w. irq_stub jt w = h) stub_vectors = None"
      using l(3) by (auto simp: vector_ok_def is_stub_def find_None_iff set_stub_vectors)
    then show ?thesis using Direct l(1) assms(3) by (simp add: raise_irq_def rd_def)
  next
    case (Dispatched c)
    then have d: "32 \<le> v" "irq_idt st ! v = stub_desc jt v"
        "map_option (\<lambda>f. (f, irq_data (irq_handler_table st ! v))) (irq_handler (irq_handler_table st ! v)) = c"
      using l(3) by (simp_all add: vector_ok_def)
    have "find (\<lambda>w. irq_stub jt w = irq_stub jt v) stub_vectors = Some v"
      using d(1) assms(3) irq_stub_inj [OF assms(1), of _ v] by (intro find_stub) auto
    then show ?thesis using Dispatched d l(1,2) assms(3)
      by (simp add: raise_irq_def rd_def gate_offset_stub k_irq_DispatchIRQ_def)
  qed
qed

lemma not_stub_desc: "gate_offset d = h \<Longrightarrow> \<not> is_stub jt h \<Longrightarrow> 32 \<le> v \<Longrightarrow> v < 256 \<Longrightarrow>
    irq_dw0 d = irq_dw0 (stub_desc jt v) \<Longrightarrow> irq_dw1 d \<noteq> irq_dw1 (stub_desc jt v)"
  using gate_offset_stub [of jt v] by (auto simp: is_stub_def gate_offset_def)

lemma vector_ok_other:
  "w \<noteq> v \<Longrightarrow> vector_ok jt e (st\<lparr>irq_idt := (irq_idt st)[v := d]\<rparr>) w = vector_ok jt e st w"
  "w \<noteq> v \<Longrightarrow> vector_ok jt e (st\<lparr>irq_handler_table := (irq_handler_table st)[v := h]\<rparr>) w = vector_ok jt e st w"
  by (simp_all add: vector_ok_def split: irq_entry.split)

lemma tables_rep_upd:
  assumes "tables_rep jt r st" "length (irq_idt st') = 256" "length (irq_handler_table st') = 256"
    and "\<And>w e. w \<noteq> v \<Longrightarrow> vector_ok jt e st' w = vector_ok jt e st w" "vector_ok jt e st' v"
  shows "tables_rep jt (r(v := e)) st'"
  using assms by (auto simp: tables_rep_def)

lemma irq_step_rep:
  assumes "tables_rep jt r st" "irq_op_ok jt op"
  shows "\<exists>st'. irq_run jt (op # ops) st = irq_run jt ops st' \<and> tables_rep jt (route_step op r) st'"
proof -
  have l: "length (irq_idt st) = 256" "length (irq_handler_table st) = 256" "\<And>v. v < 256 \<Longrightarrow> vector_ok jt (r v) st v"
    using assms(1) by (simp_all add: tables_rep_def)
  show ?thesis
  proof (cases op)
    case (SetEntry v h s g)
    let ?d = "K_IRQ_DESCRIPTOR h s g K_IRQ_DESC_TYPE_INT_GATE K_IRQ_DESC_FLAG_32BIT"
    let ?st = "st\<lparr>irq_idt := (irq_idt st)[v := ?d]\<rparr>"
    have o: "v < 256" "\<not> is_stub jt h" "g AND NOT 0x3 = 0" using assms(2) SetEntry by simp_all
    have "gate_offset ?d = h" by (rule gate_offset_desc [OF o(3)]) simp
    then have "vector_ok jt (Direct h) ?st v" using l(1) o by (simp add: vector_ok_def)
    then have "tables_rep jt (r(v := Direct h)) ?st"
      using l(1,2) by (intro tables_rep_upd [OF assms(1)]) (simp_all add: vector_ok_other)
    moreover have "k_irq_SetIDTEntry v h s g st = Some ?st" using l(1) o(1) by (simp add: k_irq_SetIDTEntry_def wr_def)
    ultimately show ?thesis using SetEntry by (intro exI [of _ ?st]) simp
  next
    case (SetHandler v h d)
    show ?thesis
    proof (cases "32 \<le> v \<and> v < 256 \<and> (\<exists>c. r v = Dispatched c)")
      case True
      then obtain c where c: "r v = Dispatched c" and v: "32 \<le> v" "v < 256" by blast
      let ?st = "st\<lparr>irq_handler_table := (irq_handler_table st)[v := \<lparr>irq_handler = h, irq_data = d\<rparr>]\<rparr>"
      have "irq_idt st ! v = stub_desc jt v" using l(3) [OF v(2)] c by (simp add: vector_ok_def)
      then have "k_irq_SetInterruptHandler jt v h d st = Some ?st"
        using l v by (simp add: k_irq_SetInterruptHandler_def K_IRQ_HANDLER_LAST_def rd_def wr_def)
      moreover have "vector_ok jt (Dispatched (map_option (\<lambda>f. (f, d)) h)) ?st v"
        using l(2) v \<open>irq_idt st ! v = stub_desc jt v\<close> by (simp add: vector_ok_def)
      then have "tables_rep jt (r(v := Dispatched (map_option (\<lambda>f. (f, d)) h))) ?st"
        using l(1,2) by (intro tables_rep_upd [OF assms(1)]) (simp_all add: vector_ok_other)
      ultimately show ?thesis using SetHandler c by (intro exI [of _ ?st]) simp
    next
      case False
      have "k_irq_SetInterruptHandler jt v h d st = Some st"
      proof (cases "32 \<le> v \<and> v < 256")
        case v: True
        then obtain e where e: "r v = Direct e" using False by (cases "r v") auto
        then have "gate_offset (irq_idt st ! v) = e" "\<not> is_stub jt e" using l(3) [of v] v by (simp_all add: vector_ok_def)
        then show ?thesis using v l not_stub_desc [of "irq_idt st ! v" e jt v]
          by (auto simp: k_irq_SetInterruptHandler_def K_IRQ_HANDLER_LAST_def rd_def)
      qed (auto simp: k_irq_SetInterruptHandler_def K_IRQ_HANDLER_LAST_def)
      moreover have "tables_rep jt (route_step op r) st"
      proof -
        have "vector_ok jt (route_step op r w) st w" if "w < 256" for w
        proof (cases "w = v")
          case True
          have "32 \<le> v" if "r v = Dispatched c" for c using l(3) [of v] that \<open>w < 256\<close> True by (simp add: vector_ok_def)
          then show ?thesis using SetHandler True False \<open>w < 256\<close> l(3) [of w] by (auto split: irq_entry.splits)
        qed (use SetHandler l(3) [OF that] in \<open>auto split: irq_entry.splits\<close>)
        then show ?thesis using l by (simp add: tables_rep_def)
      qed
      ultimately show ?thesis using SetHandler by (intro exI [of _ st]) simp
    qed
  qed
qed

lemma irq_run_rep:
  "tables_rep jt r st \<Longrightarrow> \<forall>op \<in> set ops. irq_op_ok jt op \<Longrightarrow>
   \<exists>st'. irq_run jt ops st = Some st' \<and> tables_rep jt (fold route_step ops r) st'"
proof (induction ops arbitrary: r st)
  case (Cons op ops)
  obtain st1 where "irq_run jt (op # ops) st = irq_run jt ops st1" "tables_rep jt (route_step op r) st1"
    using irq_step_rep [OF Cons.prems(1), of op ops] Cons.prems(2) by auto
  then show ?case using Cons.IH [of "route_step op r" st1] Cons.prems(2) by auto
qed simp

lemma init_stubs_ok:
  "length (irq_idt st) = 256 \<Longrightarrow> length (irq_handler_table st) = 256 \<Longrightarrow> i + n \<le> 256 \<Longrightarrow>
   \<exists>st'. init_stubs jt n i st = Some st' \<and> length (irq_idt st') = 256 \<and> length (irq_handler_table st') = 256 \<and>
     (\<forall>v. i \<le> v \<longrightarrow> v < i + n \<longrightarrow> irq_idt st' ! v = stub_desc jt v \<and> irq_handler_table st' ! v = \<lparr>irq_handler = None, irq_data = 0\<rparr>) \<and>
     (\<forall>v. v < i \<longrightarrow> irq_idt st' ! v = irq_idt st ! v \<and> irq_handler_table st' ! v = irq_handler_table st ! v)"
proof (induction n arbitrary: i st)
  case (Suc n)
  let ?st = "st\<lparr>irq_idt := (irq_idt st)[i := stub_desc jt i],
    irq_handler_table := (irq_handler_table st)[i := \<lparr>irq_handler = None, irq_data = 0\<rparr>]\<rparr>"
  have le: "i < 256" "i + 1 + n \<le> 256" using Suc.prems(3) by simp_all
  obtain st' where st': "init_stubs jt n (i + 1) ?st = Some st'" "length (irq_idt st') = 256" "length (irq_handler_table st') = 256"
      "\<And>v. i + 1 \<le> v \<Longrightarrow> v < i + 1 + n \<Longrightarrow>
        irq_idt st' ! v = stub_desc jt v \<and> irq_handler_table st' ! v = \<lparr>irq_handler = None, irq_data = 0\<rparr>"
      "\<And>v. v < i + 1 \<Longrightarrow> irq_idt st' ! v = irq_idt ?st ! v \<and> irq_handler_table st' ! v = irq_handler_table ?st ! v"
    using Suc.IH [of ?st "i + 1"] Suc.prems le by auto
  have "init_stubs jt (Suc n) i st = Some st'" using st'(1) le Suc.prems by (simp add: wr_def)
  moreover have "irq_idt st' ! v = stub_desc jt v \<and> irq_handler_table st' ! v = \<lparr>irq_handler = None, irq_data = 0\<rparr>"
    if "i \<le> v" "v < i + Suc n" for v
    using st'(4) [of v] st'(5) [of v] that le Suc.prems by (cases "v = i") auto
  moreover have "irq_idt st' ! v = irq_idt st ! v \<and> irq_handler_table st' ! v = irq_handler_table st ! v" if "v < i" for v
    using st'(5) [of v] that by simp
  ultimately show ?case using st'(2,3) by (intro exI [of _ st']) blast
qed simp

definition exceptions :: "nat set" where
  "exceptions = {0, 2, 3, 4, 5, 6, 7, 8, 10, 13, 14}"

lemma exception_table:
  assumes "length t = 256" "v < 32"
  shows "gate_offset (foldl (\<lambda>t (v, d). t[v := d]) t (exception_gates int_entry) ! v) =
    (if v \<in> exceptions then int_entry v else gate_offset (t ! v))"
proof -
  have g: "gate_offset (K_IRQ_DESCRIPTOR off seg 3 K_IRQ_DESC_TYPE_INT_GATE K_IRQ_DESC_FLAG_32BIT) = off"
      "gate_offset (K_IRQ_DESCRIPTOR off seg 3 K_IRQ_DESC_TYPE_TRAP_GATE K_IRQ_DESC_FLAG_32BIT) = off" for off seg
    by (rule gate_offset_desc, simp, simp)+
  show ?thesis
    using assms unfolding exception_gates_def by (auto simp: nth_list_update g exceptions_def)
qed

lemma k_int_Init_rep:
  assumes jt: "stubs_ok jt" and z: "irq_idt st = replicate 256 \<lparr>irq_dw0 = 0, irq_dw1 = 0\<rparr>" "length (irq_handler_table st) = 256"
    and e: "\<forall>v \<in> exceptions. \<not> is_stub jt (int_entry v)"
  shows "\<exists>st'. k_int_Init jt int_entry st = Some st' \<and> tables_rep jt (route_init int_entry) st'"
proof -
  let ?t = "foldl (\<lambda>t (v, d). t[v := d]) (irq_idt st) (exception_gates int_entry)"
  let ?st = "st\<lparr>irq_idt := ?t\<rparr>"
  have l: "length ?t = 256" using z(1) by (simp add: exception_gates_def)
  obtain st' where st': "init_stubs jt 224 32 ?st = Some st'" "length (irq_idt st') = 256" "length (irq_handler_table st') = 256"
      "\<And>v. 32 \<le> v \<Longrightarrow> v < 256 \<Longrightarrow> irq_idt st' ! v = stub_desc jt v \<and> irq_handler_table st' ! v = \<lparr>irq_handler = None, irq_data = 0\<rparr>"
      "\<And>v. v < 32 \<Longrightarrow> irq_idt st' ! v = ?t ! v"
    using init_stubs_ok [of ?st 32 224 jt] l z(2) by auto
  have "vector_ok jt (route_init int_entry v) st' v" if v: "v < 256" for v
  proof (cases "32 \<le> v")
    case True
    then show ?thesis using st'(4) [OF True v] by (simp add: route_init_def vector_ok_def)
  next
    case False
    have "gate_offset (irq_idt st ! v) = 0" using z(1) v by (simp add: gate_offset_def)
    then have "gate_offset (irq_idt st' ! v) = (if v \<in> exceptions then int_entry v else 0)"
      using exception_table [of "irq_idt st" v int_entry] st'(5) [of v] False z(1) by simp
    then show ?thesis using False e stub_zero [OF jt] by (simp add: route_init_def vector_ok_def exceptions_def [symmetric])
  qed
  then show ?thesis using st' by (simp add: k_int_Init_def K_IRQ_HANDLER_LAST_def tables_rep_def)
qed


text \<open>The gates of all exceptions but the page fault name segment 6, which is the task state segment.\<close>

lemma exception_gates_name_tss:
  "\<forall>(v, d) \<in> set (exception_gates int_entry). v \<noteq> 14 \<longrightarrow>
     drop_bit 3 (gate_selector d AND 0xffff) = word_of_nat K_PROC_TSS_SEG"
  by (simp add: exception_gates_def gate_selector_def K_IRQ_DESCRIPTOR_def K_CPU_SEG_SEL_def K_PROC_TSS_SEG_def)

lemma outside_stubs:
  assumes "stubs_ok jt" "unat h < unat jt \<or> unat jt + 16 * 224 < unat h"
  shows "\<not> is_stub jt h"
proof
  assume "is_stub jt h"
  then obtain v where v: "32 \<le> v" "v < 257" "irq_stub jt v = h" by (auto simp: is_stub_def)
  have "unat h = unat jt + 16 * (v - 32)" using irq_stub_unat [OF assms(1) v(1,2)] v(3) by simp
  moreover have "16 * (v - 32) \<le> 16 * 224" using v(2) by simp
  ultimately show False using assms(2) by linarith
qed

text \<open>The vectors of the kernel: system call, preemption, start of a user thread; timer, disk and keyboard.\<close>

definition boot_irqs :: "irq_op list" where
  "boot_irqs = [SetEntry 69 0x300000 0x10 3, SetEntry 38 0x300100 0x10 3, SetEntry 39 0x300200 0x10 0,
     SetHandler 128 (Some 0x301000) 0, SetHandler 142 (Some 0x301100) 0x400000, SetHandler 129 (Some 0x301200) 0x400100,
     SetHandler 69 (Some 0x301300) 0]"

definition blank_tables :: irq_tables where
  "blank_tables = \<lparr>irq_idt = replicate 256 \<lparr>irq_dw0 = 0, irq_dw1 = 0\<rparr>,
     irq_handler_table = replicate 256 \<lparr>irq_handler = None, irq_data = 0\<rparr>\<rparr>"


section \<open>The local interrupt controller\<close>

text \<open>Its registers, by their offset.\<close>

type_synonym apic = "u32 \<Rightarrow> u32"

definition K_APIC_REG_EOI :: u32 where "K_APIC_REG_EOI = 0xb0"
definition K_APIC_REG_INT_CMD0 :: u32 where "K_APIC_REG_INT_CMD0 = 0x300"
definition K_APIC_REG_INT_CMD1 :: u32 where "K_APIC_REG_INT_CMD1 = 0x310"
definition K_APIC_REG_INIT_COUNT :: u32 where "K_APIC_REG_INIT_COUNT = 0x380"
definition K_APIC_INT_DEST_SELF :: u16 where "K_APIC_INT_DEST_SELF = 0xffff"
definition K_APIC_INT_DELIVERY_MODE_LAST :: u32 where "K_APIC_INT_DELIVERY_MODE_LAST = 0x700"
definition K_APIC_INT_TRIGGER_MODE_LAST :: u32 where "K_APIC_INT_TRIGGER_MODE_LAST = 0x8000"
definition K_APIC_INT_DEST_MODE_LAST :: u32 where "K_APIC_INT_DEST_MODE_LAST = 0x800"
definition K_APIC_INT_DEST_SHORTHAND_SELF :: u32 where "K_APIC_INT_DEST_SHORTHAND_SELF = 0x40000"
definition K_APIC_INT_DEST_SHORTHAND_LAST :: u32 where "K_APIC_INT_DEST_SHORTHAND_LAST = 0xc0000"

definition k_apic_WriteReg :: "u32 \<Rightarrow> u32 \<Rightarrow> apic \<Rightarrow> apic" where
  "k_apic_WriteReg reg value a = a(reg := value)"

definition k_apic_AndReg :: "u32 \<Rightarrow> u32 \<Rightarrow> apic \<Rightarrow> apic" where
  "k_apic_AndReg reg value a = a(reg := a reg AND value)"

definition k_apic_OrReg :: "u32 \<Rightarrow> u32 \<Rightarrow> apic \<Rightarrow> apic" where
  "k_apic_OrReg reg value a = a(reg := a reg OR value)"

definition k_apic_ReadReg :: "u32 \<Rightarrow> apic \<Rightarrow> u32" where
  "k_apic_ReadReg reg a = a reg"

definition k_apic_EndOfInterrupt :: "apic \<Rightarrow> apic" where
  "k_apic_EndOfInterrupt = k_apic_WriteReg K_APIC_REG_EOI 0"

definition k_apic_FireIPInterrupt :: "u16 \<Rightarrow> u8 \<Rightarrow> apic \<Rightarrow> apic" where
  "k_apic_FireIPInterrupt destination interrupt a =
     (let high_value = k_apic_ReadReg K_APIC_REG_INT_CMD1 a;
          low_value = k_apic_ReadReg K_APIC_REG_INT_CMD0 a;
          (high_value, low_value) =
            (if destination \<noteq> K_APIC_INT_DEST_SELF then (high_value OR push_bit 24 (ucast (destination AND 0xff)), low_value)
             else (high_value AND 0x00ffffff,
               (low_value AND NOT K_APIC_INT_DEST_SHORTHAND_LAST) OR K_APIC_INT_DEST_SHORTHAND_SELF));
          low_value = low_value AND NOT K_APIC_INT_DEST_MODE_LAST;
          low_value = low_value AND NOT K_APIC_INT_DELIVERY_MODE_LAST;
          low_value = low_value OR 0x4000;
          low_value = low_value AND NOT K_APIC_INT_TRIGGER_MODE_LAST;
          low_value = (low_value AND 0xffffff00) OR ucast interrupt
      in k_apic_WriteReg K_APIC_REG_INT_CMD0 low_value (k_apic_WriteReg K_APIC_REG_INT_CMD1 high_value a))"

definition k_apic_StartTimer :: "u32 \<Rightarrow> apic \<Rightarrow> apic" where
  "k_apic_StartTimer count = k_apic_WriteReg K_APIC_REG_INIT_COUNT count"

definition k_apic_StopTimer :: "apic \<Rightarrow> apic" where
  "k_apic_StopTimer = k_apic_WriteReg K_APIC_REG_INIT_COUNT 0"

text \<open>
  An interrupt to another processor keeps the shorthand of the one before it and adds its destination to
  the one before it: after an interrupt to itself the processor interrupts itself again.
\<close>

lemma fire_shorthand:
  "k_apic_FireIPInterrupt d v a K_APIC_REG_INT_CMD0 AND 0xc0000 =
     (if d = K_APIC_INT_DEST_SELF then 0x40000 else a K_APIC_REG_INT_CMD0 AND 0xc0000)"
proof -
  have "(ucast v :: u32) AND mask 8 = ucast v"
    by (rule bit_word_eqI) (auto simp: bit_simps dest: bit_imp_le_length)
  then have "(ucast v :: u32) AND 0xc0000 = (ucast v AND mask 8) AND 0xc0000" by simp
  also have "\<dots> = 0" by (simp add: and.assoc mask_eq_exp_minus_1)
  finally have i: "(ucast v :: u32) AND 0xc0000 = 0" .
  show ?thesis
    by (simp add: k_apic_FireIPInterrupt_def k_apic_WriteReg_def k_apic_ReadReg_def Let_def K_APIC_INT_DEST_SHORTHAND_LAST_def
      K_APIC_INT_DEST_SHORTHAND_SELF_def K_APIC_INT_DEST_MODE_LAST_def K_APIC_INT_DELIVERY_MODE_LAST_def
      K_APIC_INT_TRIGGER_MODE_LAST_def and.assoc bit.conj_disj_distrib2 i)
qed

end
