(* ===== verification/Dev_Pci.thy ===== *)
theory Dev_Pci
  imports Prelude
begin

text \<open>
  The PCI bus: \<open>dev/pci.c\<close> and \<open>dev/pci.h\<close>. The two ports of the configuration mechanism are the
  register that selects a dword of configuration space and the window on that dword; the dwords keep
  what is written to them.
\<close>

section \<open>Configuration space\<close>

record pci_ports =
  config_select :: u32
  config_space :: "u32 \<Rightarrow> u32"

definition K_PCI_INVALID_VENDOR_ID :: u32 where "K_PCI_INVALID_VENDOR_ID = 0xffff"
definition K_PCI_MAX_BUS_DEVICES :: nat where "K_PCI_MAX_BUS_DEVICES = 32"

definition K_PCI_DEVICE_CONFIG_ADDRESS :: "u32 \<Rightarrow> u32 \<Rightarrow> u32 \<Rightarrow> u32 \<Rightarrow> u32" where
  "K_PCI_DEVICE_CONFIG_ADDRESS bus device function offset =
     0x80000000 OR push_bit 16 (bus AND 0xff) OR push_bit 11 (device AND 0x1f) OR push_bit 8 (function AND 0x7) OR (offset AND 0xfc)"

text \<open>\<open>k_cpu_OutD\<close> and \<open>k_cpu_InD\<close> on the two ports.\<close>

definition select_config :: "u32 \<Rightarrow> pci_ports \<Rightarrow> pci_ports" where
  "select_config a p = p\<lparr>config_select := a\<rparr>"

definition read_config :: "pci_ports \<Rightarrow> u32" where
  "read_config p = config_space p (config_select p)"

definition write_config :: "u32 \<Rightarrow> pci_ports \<Rightarrow> pci_ports" where
  "write_config v p = p\<lparr>config_space := (config_space p)(config_select p := v)\<rparr>"

definition k_pci_ReadDword :: "u32 \<Rightarrow> u32 \<Rightarrow> pci_ports \<Rightarrow> u32 \<times> pci_ports" where
  "k_pci_ReadDword base_address offset p =
     (let p = select_config (base_address + (offset AND 0xfffffffc)) p in (read_config p, p))"

definition k_pci_WriteDword :: "u32 \<Rightarrow> u32 \<Rightarrow> u32 \<Rightarrow> pci_ports \<Rightarrow> pci_ports" where
  "k_pci_WriteDword base_address offset value p =
     write_config value (select_config (base_address + (offset AND 0xffffffc)) p)"

definition k_pci_ReadWord :: "u32 \<Rightarrow> u32 \<Rightarrow> pci_ports \<Rightarrow> u16 \<times> pci_ports" where
  "k_pci_ReadWord base_address offset p =
     (let (value, p) = k_pci_ReadDword base_address offset p;
          value = (if offset AND 2 \<noteq> 0 then drop_bit 16 value else value)
      in (ucast value, p))"

definition k_pci_WriteWord :: "u32 \<Rightarrow> u32 \<Rightarrow> u16 \<Rightarrow> pci_ports \<Rightarrow> pci_ports" where
  "k_pci_WriteWord base_address offset value p =
     (let (dword, p) = k_pci_ReadDword base_address offset p;
          dword = (if offset AND 0x2 \<noteq> 0 then push_bit 16 (ucast value) OR (dword AND 0x0000ffff)
            else (dword AND 0xffff0000) OR ucast value)
      in k_pci_WriteDword base_address offset dword p)"

section \<open>Headers and the scan\<close>

text \<open>The loop of \<open>k_pci_ReadHeader\<close> from dword \<open>dword_index\<close>, and the function; a header is its 64 dwords.\<close>

fun read_header_loop :: "nat \<Rightarrow> nat \<Rightarrow> u32 \<Rightarrow> u32 list \<Rightarrow> pci_ports \<Rightarrow> u32 list \<times> pci_ports" where
  "read_header_loop 0 dword_index config_address header p = (header, p)"
| "read_header_loop (Suc n) dword_index config_address header p =
     (let config_address = config_address + 4;
          p = select_config config_address p
      in read_header_loop n (dword_index + 1) config_address (header[dword_index := read_config p]) p)"

definition vendor_id :: "u32 list \<Rightarrow> u32" where
  "vendor_id header = header ! 0 AND 0xffff"

definition device_id :: "u32 list \<Rightarrow> u32" where
  "device_id header = drop_bit 16 (header ! 0)"

definition k_pci_ReadHeader :: "u32 \<Rightarrow> u32 \<Rightarrow> u32 \<Rightarrow> u32 list \<Rightarrow> pci_ports \<Rightarrow> bool \<times> u32 list \<times> pci_ports" where
  "k_pci_ReadHeader bus device function header p =
     (let config_address = K_PCI_DEVICE_CONFIG_ADDRESS bus device function 0x0;
          p = select_config config_address p;
          header = header[0 := read_config p]
      in if vendor_id header = K_PCI_INVALID_VENDOR_ID then (False, header, p)
         else (True, read_header_loop 63 1 config_address header p))"

datatype pci_init = PIIX3 | FX440

record k_pci_device_info_t =
  info_vendor_id :: u32
  info_device_id :: u32
  info_init :: "pci_init option"

definition k_pci_devices :: "k_pci_device_info_t list" where
  "k_pci_devices = [
     \<lparr>info_vendor_id = 0x8086, info_device_id = 0x7000, info_init = Some PIIX3\<rparr>,
     \<lparr>info_vendor_id = 0x8086, info_device_id = 0x1237, info_init = Some FX440\<rparr>,
     \<lparr>info_vendor_id = K_PCI_INVALID_VENDOR_ID, info_device_id = 0, info_init = None\<rparr>]"

text \<open>The walk over the table, which ends at the entry with the invalid vendor.\<close>

fun find_device_info :: "u32 list \<Rightarrow> k_pci_device_info_t list \<Rightarrow> k_pci_device_info_t option" where
  "find_device_info header [] = None"
| "find_device_info header (info # infos) =
     (if info_vendor_id info = K_PCI_INVALID_VENDOR_ID then Some info
      else if vendor_id header = info_vendor_id info \<and> device_id header = info_device_id info then Some info
      else find_device_info header infos)"

text \<open>
  The scan. \<open>init\<close> is what the drivers' init functions do to the rest of the kernel \<open>s\<close>, given the
  slot and the header; the messages on the terminal are left out.
\<close>

definition scan_slot ::
    "(pci_init \<Rightarrow> nat \<Rightarrow> u32 list \<Rightarrow> 's \<Rightarrow> 's option) \<Rightarrow> nat \<Rightarrow> pci_ports \<times> 's \<Rightarrow> (pci_ports \<times> 's) option" where
  "scan_slot init device_index = (\<lambda>(p, s).
     let (_, header, p) = k_pci_ReadHeader 0 (word_of_nat device_index) 0 (replicate 64 0) p
     in if vendor_id header \<noteq> K_PCI_INVALID_VENDOR_ID then do {
          info \<leftarrow> find_device_info header k_pci_devices;
          if info_vendor_id info = K_PCI_INVALID_VENDOR_ID then Some (p, s)
          else do {
            f \<leftarrow> info_init info;
            s \<leftarrow> init f device_index header s;
            Some (p, s)
          }
        }
        else Some (p, s))"

fun pci_scan ::
    "(pci_init \<Rightarrow> nat \<Rightarrow> u32 list \<Rightarrow> 's \<Rightarrow> 's option) \<Rightarrow> nat \<Rightarrow> nat \<Rightarrow> pci_ports \<times> 's \<Rightarrow> (pci_ports \<times> 's) option" where
  "pci_scan init 0 device_index ps = Some ps"
| "pci_scan init (Suc n) device_index ps = do {
     ps \<leftarrow> scan_slot init device_index ps;
     pci_scan init n (device_index + 1) ps
   }"

definition k_pci_Init ::
    "(pci_init \<Rightarrow> nat \<Rightarrow> u32 list \<Rightarrow> 's \<Rightarrow> 's option) \<Rightarrow> pci_ports \<times> 's \<Rightarrow> (pci_ports \<times> 's) option" where
  "k_pci_Init init ps = pci_scan init K_PCI_MAX_BUS_DEVICES 0 ps"

section \<open>Addresses\<close>

lemma pci_masks: "(0xff :: u32) = mask 8" "(0x1f :: u32) = mask 5" "(0x7 :: u32) = mask 3" "(0xfc :: u32) = push_bit 2 (mask 6)"
    "(0x80000000 :: u32) = push_bit 31 1" "(0xffff :: u32) = mask 16" "(0xffff0000 :: u32) = push_bit 16 (mask 16)"
    "(0xfffffffc :: u32) = push_bit 2 (mask 30)" "(0xffffffc :: u32) = push_bit 2 (mask 26)"
  by (simp_all add: mask_eq_exp_minus_1 push_bit_eq_mult)

lemma config_address_bit:
  "bit (K_PCI_DEVICE_CONFIG_ADDRESS bus device function offset) n \<longleftrightarrow>
     n = 31 \<or> 16 \<le> n \<and> n < 24 \<and> bit bus (n - 16) \<or> 11 \<le> n \<and> n < 16 \<and> bit device (n - 11) \<or>
     8 \<le> n \<and> n < 11 \<and> bit function (n - 8) \<or> 2 \<le> n \<and> n < 8 \<and> bit offset n"
proof -
  have b: "bit (push_bit k (x AND mask m)) n \<longleftrightarrow> k \<le> n \<and> n < k + m \<and> bit x (n - k)" if "k + m \<le> 32" for k m and x :: u32
    using that by (auto simp: bit_push_bit_iff bit_and_iff bit_mask_iff)
  have o: "bit (offset AND push_bit 2 (mask 6)) n \<longleftrightarrow> 2 \<le> n \<and> n < 8 \<and> bit offset n"
    by (auto simp: bit_push_bit_iff bit_and_iff bit_mask_iff)
  have t: "bit (push_bit 31 (1 :: u32)) n \<longleftrightarrow> n = 31" unfolding bit_push_bit_iff bit_1_iff by auto
  show ?thesis
    unfolding K_PCI_DEVICE_CONFIG_ADDRESS_def pci_masks bit_or_iff o t
    by (subst b, simp)+ auto
qed

text \<open>Two configuration addresses are equal only when bus, device, function and dword are.\<close>

lemma and_mask_eqI:
  fixes x y :: u32
  assumes "\<And>n. n < k \<Longrightarrow> bit x n = bit y n"
  shows "x AND mask k = y AND mask k"
  by (rule bit_word_eqI) (use assms in \<open>auto simp: bit_and_iff bit_mask_iff\<close>)

lemma config_address_inj:
  "K_PCI_DEVICE_CONFIG_ADDRESS b d f k = K_PCI_DEVICE_CONFIG_ADDRESS b' d' f' k' \<longleftrightarrow>
     b AND 0xff = b' AND 0xff \<and> d AND 0x1f = d' AND 0x1f \<and> f AND 0x7 = f' AND 0x7 \<and> k AND 0xfc = k' AND 0xfc"
proof
  assume e: "K_PCI_DEVICE_CONFIG_ADDRESS b d f k = K_PCI_DEVICE_CONFIG_ADDRESS b' d' f' k'"
  note eb = arg_cong [OF e, of "\<lambda>w. bit w n" for n, unfolded config_address_bit]
  have "b AND mask 8 = b' AND mask 8"
  proof (rule and_mask_eqI)
    show "bit b n = bit b' n" if "n < 8" for n using eb [of "n + 16"] that by simp
  qed
  moreover have "d AND mask 5 = d' AND mask 5"
  proof (rule and_mask_eqI)
    show "bit d n = bit d' n" if "n < 5" for n using eb [of "n + 11"] that by simp
  qed
  moreover have "f AND mask 3 = f' AND mask 3"
  proof (rule and_mask_eqI)
    show "bit f n = bit f' n" if "n < 3" for n using eb [of "n + 8"] that by simp
  qed
  moreover have "k AND push_bit 2 (mask 6) = k' AND push_bit 2 (mask 6)"
  proof (rule bit_word_eqI)
    show "bit (k AND push_bit 2 (mask 6)) n = bit (k' AND push_bit 2 (mask 6)) n" for n
    proof -
      have w: "bit (x AND push_bit 2 (mask 6)) n \<longleftrightarrow> 2 \<le> n \<and> n < 8 \<and> bit x n" for x :: u32
        unfolding bit_and_iff bit_push_bit_iff bit_mask_iff by auto
      have "bit k n = bit k' n" if "2 \<le> n" "n < 8" using eb [of n] that by simp
      then show ?thesis unfolding w by blast
    qed
  qed
  ultimately show "b AND 0xff = b' AND 0xff \<and> d AND 0x1f = d' AND 0x1f \<and> f AND 0x7 = f' AND 0x7 \<and> k AND 0xfc = k' AND 0xfc"
    unfolding pci_masks by blast
qed (simp add: K_PCI_DEVICE_CONFIG_ADDRESS_def)

section \<open>Words\<close>

lemma ucast_halves:
  fixes x :: u16 and y :: u32
  shows "ucast (drop_bit 16 (push_bit 16 (ucast x) OR (y AND 0xffff)) :: u32) = x"
    "ucast ((y AND 0xffff0000) OR ucast x :: u32) = x"
    "ucast (push_bit 16 (ucast x) OR (y AND 0xffff) :: u32) = (ucast y :: u16)"
    "ucast (drop_bit 16 ((y AND 0xffff0000) OR ucast x) :: u32) = (ucast (drop_bit 16 y) :: u16)"
    "ucast (drop_bit 16 y AND 0xffff OR drop_bit 16 (ucast x) :: u32) = (ucast (drop_bit 16 y) :: u16)"
    "ucast (drop_bit 16 (push_bit 16 (ucast x)) :: u32) = x"
  unfolding pci_masks by (rule bit_word_eqI, auto simp: bit_simps dest: bit_imp_le_length)+



section \<open>Scanning\<close>

text \<open>What a slot holds and the driver it selects, read off configuration space.\<close>

definition slot_address :: "nat \<Rightarrow> u32" where
  "slot_address d = K_PCI_DEVICE_CONFIG_ADDRESS 0 (word_of_nat d) 0 0"

definition slot_header :: "(u32 \<Rightarrow> u32) \<Rightarrow> nat \<Rightarrow> u32 list" where
  "slot_header space d = map (\<lambda>i. space (slot_address d + 4 * word_of_nat i)) [0..<64]"

definition slot_driver :: "(u32 \<Rightarrow> u32) \<Rightarrow> nat \<Rightarrow> pci_init option" where
  "slot_driver space d =
     (let w = space (slot_address d) in if w = 0x70008086 then Some PIIX3 else if w = 0x12378086 then Some FX440 else None)"

fun init_slots ::
    "(pci_init \<Rightarrow> nat \<Rightarrow> u32 list \<Rightarrow> 's \<Rightarrow> 's option) \<Rightarrow> (u32 \<Rightarrow> u32) \<Rightarrow> nat list \<Rightarrow> 's \<Rightarrow> 's option" where
  "init_slots init space [] s = Some s"
| "init_slots init space (d # ds) s = (case slot_driver space d of
      None \<Rightarrow> init_slots init space ds s
    | Some f \<Rightarrow> do { s \<leftarrow> init f d (slot_header space d) s; init_slots init space ds s })"

lemma select_config_simps [simp]:
  "config_space (select_config a p) = config_space p"
  "read_config (select_config a p) = config_space p a"
  by (simp_all add: select_config_def read_config_def)

lemma read_header_loop_ok:
  "i + n = length h \<Longrightarrow> 0 < i \<Longrightarrow>
   fst (read_header_loop n i ca h p) = take i h @ map (\<lambda>j. config_space p (ca + 4 * word_of_nat (j + 1 - i))) [i..<length h] \<and>
   config_space (snd (read_header_loop n i ca h p)) = config_space p"
proof (induction n arbitrary: i ca h p)
  case (Suc n)
  let ?a = "ca + 4" and ?h = "h[i := config_space p (ca + 4)]"
  have i: "i < length h" using Suc.prems by simp
  have ih: "fst (read_header_loop n (i + 1) ?a ?h (select_config ?a p)) = take (i + 1) ?h @
      map (\<lambda>j. config_space p (?a + 4 * word_of_nat (j + 1 - (i + 1)))) [i + 1..<length h] \<and>
    config_space (snd (read_header_loop n (i + 1) ?a ?h (select_config ?a p))) = config_space p"
    using Suc.IH [of "i + 1" ?h ?a "select_config ?a p"] Suc.prems by simp
  have "take (i + 1) ?h = take i h @ [config_space p ?a]"
    using i by (simp add: take_Suc_conv_app_nth)
  moreover have "[i..<length h] = i # [i + 1..<length h]" using i by (simp add: upt_conv_Cons)
  moreover have "map (\<lambda>j. config_space p (?a + 4 * word_of_nat (j + 1 - (i + 1)))) [i + 1..<length h] =
      map (\<lambda>j. config_space p (ca + 4 * word_of_nat (j + 1 - i))) [i + 1..<length h]"
    by (rule map_cong) (auto simp: of_nat_diff algebra_simps Suc_diff_le)
  ultimately show ?case using ih by (simp add: Let_def)
qed simp

lemma split_vendor: "x AND 0xffff = v \<Longrightarrow> drop_bit 16 x = d \<Longrightarrow> x = push_bit 16 d OR v" for x v d :: u32
proof -
  have "x = push_bit 16 (drop_bit 16 x) OR (x AND 0xffff)"
    unfolding pci_masks by (rule bit_word_eqI) (auto simp: bit_simps)
  then show "x AND 0xffff = v \<Longrightarrow> drop_bit 16 x = d \<Longrightarrow> x = push_bit 16 d OR v" by simp
qed

lemma device_word:
  "x = 0x70008086 \<longleftrightarrow> x AND 0xffff = 0x8086 \<and> drop_bit 16 x = 0x7000"
  "x = 0x12378086 \<longleftrightarrow> x AND 0xffff = 0x8086 \<and> drop_bit 16 x = 0x1237" for x :: u32
proof -
  have "x = 0x70008086" if "x AND 0xffff = 0x8086" "drop_bit 16 x = 0x7000"
    using split_vendor [OF that] by simp
  then show "x = 0x70008086 \<longleftrightarrow> x AND 0xffff = 0x8086 \<and> drop_bit 16 x = 0x7000" by force
  have "x = 0x12378086" if "x AND 0xffff = 0x8086" "drop_bit 16 x = 0x1237"
    using split_vendor [OF that] by simp
  then show "x = 0x12378086 \<longleftrightarrow> x AND 0xffff = 0x8086 \<and> drop_bit 16 x = 0x1237" by force
qed

lemma scan_slot_ok:
  "map_option (\<lambda>(p, s). (config_space p, s)) (scan_slot init d (p, s)) =
     map_option (Pair (config_space p)) (case slot_driver (config_space p) d of
       None \<Rightarrow> Some s | Some f \<Rightarrow> init f d (slot_header (config_space p) d) s)"
proof -
  let ?ca = "slot_address d" and ?w = "config_space p (slot_address d)"
  let ?h = "(replicate 64 (0 :: u32))[0 := ?w]"
  obtain p1 h1 where r: "read_header_loop 63 1 ?ca ?h (select_config ?ca p) = (h1, p1)" by fastforce
  have loop: "fst (read_header_loop 63 1 ?ca ?h (select_config ?ca p)) = take 1 ?h @ map (\<lambda>j. config_space p (?ca + 4 * word_of_nat j)) [1..<64] \<and>
      config_space (snd (read_header_loop 63 1 ?ca ?h (select_config ?ca p))) = config_space p"
    using read_header_loop_ok [of 1 63 ?h ?ca "select_config ?ca p"] by simp
  have t1: "take 1 ?h = [?w]" by (simp add: numeral_eq_Suc)
  from loop t1 have h1: "h1 = ?w # map (\<lambda>j. config_space p (?ca + 4 * word_of_nat j)) [1..<64]" and p1: "config_space p1 = config_space p"
    using r by simp_all
  have hd: "h1 = slot_header (config_space p) d"
    unfolding h1 slot_header_def by (simp add: upt_conv_Cons [of 0 64] del: upt_conv_Cons)
  have w: "vendor_id (?w # t) = ?w AND 0xffff" "device_id (?w # t) = drop_bit 16 ?w" "vendor_id ?h = ?w AND 0xffff" for t
    by (simp_all add: vendor_id_def device_id_def)
  have v: "vendor_id h1 = ?w AND 0xffff" "device_id h1 = drop_bit 16 ?w" "vendor_id ?h = ?w AND 0xffff"
    using w unfolding h1 by simp_all
  have drv: "slot_driver (config_space p) d = (if ?w = 0x70008086 then Some PIIX3 else if ?w = 0x12378086 then Some FX440 else None)"
    by (simp add: slot_driver_def Let_def)
  have ids: "?w = 0x70008086 \<longleftrightarrow> ?w AND 0xffff = 0x8086 \<and> drop_bit 16 ?w = 0x7000"
      "?w = 0x12378086 \<longleftrightarrow> ?w AND 0xffff = 0x8086 \<and> drop_bit 16 ?w = 0x1237"
    by (rule device_word)+
  have rh: "k_pci_ReadHeader 0 (word_of_nat d) 0 (replicate 64 0) p =
      (if ?w AND 0xffff = 0xffff then (False, ?h, select_config ?ca p) else (True, h1, p1))"
    using r v(3) by (simp add: k_pci_ReadHeader_def Let_def slot_address_def K_PCI_INVALID_VENDOR_ID_def)
  show ?thesis
  proof (cases "?w AND 0xffff = 0xffff")
    case True
    then show ?thesis unfolding drv ids by (simp add: scan_slot_def rh v K_PCI_INVALID_VENDOR_ID_def)
  next
    case False
    then have "scan_slot init d (p, s) = do {
        info \<leftarrow> find_device_info h1 k_pci_devices;
        if info_vendor_id info = K_PCI_INVALID_VENDOR_ID then Some (p1, s)
        else do { f \<leftarrow> info_init info; s \<leftarrow> init f d h1 s; Some (p1, s) } }"
      by (simp add: scan_slot_def rh v K_PCI_INVALID_VENDOR_ID_def)
    moreover have "find_device_info h1 k_pci_devices = Some (if ?w = 0x70008086 then k_pci_devices ! 0
        else if ?w = 0x12378086 then k_pci_devices ! 1 else k_pci_devices ! 2)"
      unfolding ids by (simp add: k_pci_devices_def K_PCI_INVALID_VENDOR_ID_def v)
    ultimately have "scan_slot init d (p, s) = map_option (Pair p1) (case slot_driver (config_space p) d of
        None \<Rightarrow> Some s | Some f \<Rightarrow> init f d h1 s)"
      unfolding drv by (simp add: k_pci_devices_def K_PCI_INVALID_VENDOR_ID_def map_option_bind split: Option.bind_split)
    then show ?thesis unfolding hd by (simp add: option.map_comp comp_def p1)
  qed
qed

lemma pci_scan_ok:
  "map_option (\<lambda>(p, s). (config_space p, s)) (pci_scan init n d (p, s)) =
     map_option (Pair (config_space p)) (init_slots init (config_space p) [d..<d + n] s)"
proof (induction n arbitrary: d p s)
  case (Suc n)
  let ?c = "config_space p"
  have u: "[d..<d + Suc n] = d # [d + 1..<d + 1 + n]" by (simp add: upt_conv_Cons del: upt_Suc)
  let ?r = "case slot_driver ?c d of None \<Rightarrow> Some s | Some f \<Rightarrow> init f d (slot_header ?c d) s"
  have i: "init_slots init ?c [d..<d + Suc n] s = Option.bind ?r (init_slots init ?c [d + 1..<d + 1 + n])"
    unfolding u by (simp split: option.split)
  show ?case
  proof (cases "scan_slot init d (p, s)")
    case None
    then have "?r = None" using scan_slot_ok [of init d p s] by (cases ?r) simp_all
    then show ?thesis unfolding i using None by simp
  next
    case (Some ps)
    obtain p1 s1 where ps: "ps = (p1, s1)" by fastforce
    then have "?r = Some s1" "config_space p1 = ?c" using scan_slot_ok [of init d p s] Some by (cases ?r; simp)+
    then show ?thesis unfolding i using Some ps Suc.IH [of "d + 1" p1 s1] by simp
  qed
qed simp

text \<open>
  C35: \<open>k_pci_Init\<close> initialises exactly the known devices: in the order of the 32 slots of the bus, for
  every slot whose vendor and device are in the table it calls that entry's init function, once, with the
  slot and the 64 dwords of its configuration space, it leaves configuration space alone, and it passes over
  empty slots and unknown devices.
\<close>

theorem k_pci_Init_slots:
  "map_option (\<lambda>(p, s). (config_space p, s)) (k_pci_Init init (p, s)) =
     map_option (Pair (config_space p)) (init_slots init (config_space p) [0..<32] s)"
  using pci_scan_ok [of init 32 0 p s] by (simp add: k_pci_Init_def K_PCI_MAX_BUS_DEVICES_def)

end
