(* ===== verification/Dsk_Disk.thy ===== *)
theory Dsk_Disk
  imports Rt_Mem
begin

text \<open>
  Disks: the command pool and the request queue of \<open>kernel/dev/dsk.c\<close>, the disk thread that
  serves the queue, and the disk in memory of \<open>kernel/dsk/ram.c\<close>. Commands and command pages are
  named by their addresses; the buffer of a command is the address and the bytes of the object
  it points to. The lemmas show that commands are taken from and given back to the free list of
  their page, that requests are served in the order in which they were queued, and that the
  memory disk is a byte store.
\<close>

section \<open>Data\<close>

datatype k_dev_dsk_cmd_type =
    K_DEV_DSK_CMD_TYPE_READ
  | K_DEV_DSK_CMD_TYPE_WRITE
  | K_DEV_DSK_CMD_TYPE_CLEAR
  | K_DEV_DSK_CMD_TYPE_IDENTIFY
  | K_DEV_DSK_CMD_TYPE_LAST

record k_dev_dsk_cmd_t =
  condition :: bool
  cmd_next :: "nat option"
  cmd_page :: nat
  cmd_type :: k_dev_dsk_cmd_type
  cmd_status :: nat
  cmd_address :: nat
  cmd_size :: nat
  cmd_buffer :: "(nat \<times> bytes) option"

record k_dev_dsk_cmd_page_t =
  page_next :: "nat option"
  page_prev :: "nat option"
  next_free :: "nat option"
  used_count :: nat
  page_index :: nat

datatype k_dev_dsk_type =
    K_DEV_DSK_TYPE_RAM
  | K_DEV_DSK_TYPE_DISK
  | K_DEV_DSK_TYPE_USB
  | K_DEV_DSK_TYPE_CDROM
  | K_DEV_DSK_TYPE_BOOT
  | K_DEV_DSK_TYPE_LAST

text \<open>
  A driver function works on the medium that starts at the given address and on a command; it
  is called with both and returns both, changed.
\<close>

type_synonym k_dev_disk_func_t =
  "nat \<Rightarrow> k_dev_dsk_cmd_t \<Rightarrow> bytes \<Rightarrow> (k_dev_dsk_cmd_t \<times> bytes) option"

record k_dev_disk_t =
  cmds :: "nat option"
  last_cmd :: "nat option"
  cmd_pages :: "nat option"
  last_cmd_page :: "nat option"
  cur_cmd_page :: "nat option"
  freeable_cmd_pages :: "nat option"
  cmd_page_index :: nat
  cmd_page_count :: nat
  disk_read :: "k_dev_disk_func_t option"
  disk_write :: "k_dev_disk_func_t option"
  disk_clear :: "k_dev_disk_func_t option"
  start_address :: nat
  disk_block_size :: nat
  disk_cmd_size :: nat
  disk_cmd_align :: nat
  disk_type :: k_dev_dsk_type
  cmd_at :: "nat \<Rightarrow> k_dev_dsk_cmd_t"
  page_at :: "nat \<Rightarrow> k_dev_dsk_cmd_page_t"
  medium :: bytes

text \<open>Stores through a command or page pointer.\<close>

definition upd_cmd :: "nat \<Rightarrow> (k_dev_dsk_cmd_t \<Rightarrow> k_dev_dsk_cmd_t) \<Rightarrow> k_dev_disk_t \<Rightarrow> k_dev_disk_t" where
  "upd_cmd cmd f disk = disk\<lparr>cmd_at := (cmd_at disk)(cmd := f (cmd_at disk cmd))\<rparr>"

definition upd_page ::
    "nat \<Rightarrow> (k_dev_dsk_cmd_page_t \<Rightarrow> k_dev_dsk_cmd_page_t) \<Rightarrow> k_dev_disk_t \<Rightarrow> k_dev_disk_t" where
  "upd_page p f disk = disk\<lparr>page_at := (page_at disk)(p := f (page_at disk p))\<rparr>"

section \<open>Command pages\<close>

text \<open>The page header takes 20 bytes of the 4096; commands start at the next aligned address.\<close>

definition cmd_data :: "nat \<Rightarrow> nat" where
  "cmd_data p = p + 20"

definition cmd_data_size :: nat where
  "cmd_data_size = 4096 - 20"

definition aligned_cmd_start :: "nat \<Rightarrow> nat \<Rightarrow> nat" where
  "aligned_cmd_start align p =
     unat ((word_of_nat (cmd_data p) + word_of_nat (align - 1)) AND NOT (word_of_nat (align - 1)) :: u32)"

definition page_cmd_count :: "nat \<Rightarrow> nat \<Rightarrow> nat \<Rightarrow> nat" where
  "page_cmd_count csize align p = (cmd_data_size - (aligned_cmd_start align p - cmd_data p)) div csize"

fun init_cmds :: "nat \<Rightarrow> nat \<Rightarrow> nat \<Rightarrow> nat \<Rightarrow> k_dev_disk_t \<Rightarrow> k_dev_disk_t" where
  "init_cmds 0 csize p cmd disk = disk"
| "init_cmds (Suc n) csize p cmd disk =
     init_cmds n csize p (cmd + csize)
       (upd_cmd cmd (\<lambda>c. c\<lparr>cmd_next := Some (cmd + csize), cmd_page := p,
          cmd_type := K_DEV_DSK_CMD_TYPE_LAST, cmd_buffer := None\<rparr>) disk)"

definition k_dev_InitDiskCmdPage :: "nat \<Rightarrow> k_dev_disk_t \<Rightarrow> k_dev_disk_t option" where
  "k_dev_InitDiskCmdPage p disk = (
     let start = aligned_cmd_start (disk_cmd_align disk) p;
       count = page_cmd_count (disk_cmd_size disk) (disk_cmd_align disk) p;
       disk = upd_page p (\<lambda>q. q\<lparr>used_count := 0, page_index := cmd_page_index disk,
         next_free := Some start\<rparr>) disk;
       disk = disk\<lparr>cmd_page_index := cmd_page_index disk + 1\<rparr>;
       disk = init_cmds count (disk_cmd_size disk) p start disk
     in if count = 0 then None
     else do {
       let disk = upd_cmd (start + (count - 1) * disk_cmd_size disk) (\<lambda>c. c\<lparr>cmd_next := None\<rparr>) disk;
       disk \<leftarrow> (if cmd_pages disk = None then Some (disk\<lparr>cmd_pages := Some p\<rparr>)
         else do {
           l \<leftarrow> last_cmd_page disk;
           Some (upd_page p (\<lambda>q. q\<lparr>page_prev := Some l\<rparr>) (upd_page l (\<lambda>q. q\<lparr>page_next := Some p\<rparr>) disk))
         });
       Some (disk\<lparr>last_cmd_page := Some p\<rparr>)
     })"

section \<open>Taking and returning commands\<close>

text \<open>The search for a page with a free command; it does not return on a cyclic page list.\<close>

partial_function (option) scan_pages :: "k_dev_disk_t \<Rightarrow> nat option \<Rightarrow> nat option option" where
  "scan_pages disk p = (case p of
       None \<Rightarrow> Some None
     | Some a \<Rightarrow>
         if next_free (page_at disk a) = None then scan_pages disk (page_next (page_at disk a))
         else Some (Some a))"

text \<open>\<open>fresh\<close> is what \<open>k_rt_Malloc\<close> returns for a page; a null page raises an exception.\<close>

definition k_dev_AllocDiskCmd :: "nat option \<Rightarrow> k_dev_disk_t \<Rightarrow> (nat \<times> k_dev_disk_t) option" where
  "k_dev_AllocDiskCmd fresh disk = do {
     cur \<leftarrow> cur_cmd_page disk;
     disk \<leftarrow> (if next_free (page_at disk cur) = None then do {
         found \<leftarrow> scan_pages disk (Some cur);
         (p, disk) \<leftarrow> (case found of
             Some p \<Rightarrow> Some (p, disk)
           | None \<Rightarrow> do {
               (p, disk) \<leftarrow> (case freeable_cmd_pages disk of
                   Some p \<Rightarrow> Some (p, disk\<lparr>freeable_cmd_pages := page_next (page_at disk p)\<rparr>)
                 | None \<Rightarrow> map_option (\<lambda>p. (p, disk)) fresh);
               disk \<leftarrow> k_dev_InitDiskCmdPage p disk;
               Some (p, disk)
             });
         Some (disk\<lparr>cur_cmd_page := Some p\<rparr>)
       }
       else Some disk);
     cur \<leftarrow> cur_cmd_page disk;
     cmd \<leftarrow> next_free (page_at disk cur);
     let disk = upd_page cur (\<lambda>q. q\<lparr>next_free := cmd_next (cmd_at disk cmd),
         used_count := used_count q + 1\<rparr>) disk;
     Some (cmd, upd_cmd cmd (\<lambda>c. c\<lparr>cmd_buffer := None, condition := False, cmd_next := None,
       cmd_address := 0, cmd_type := K_DEV_DSK_CMD_TYPE_LAST, cmd_size := 0, cmd_status := 0\<rparr>) disk)
   }"

definition unlink_page :: "nat \<Rightarrow> k_dev_disk_t \<Rightarrow> k_dev_disk_t option" where
  "unlink_page p disk = do {
     disk \<leftarrow> (if cmd_pages disk = Some p then do {
         n \<leftarrow> page_next (page_at disk p);
         Some (upd_page n (\<lambda>q. q\<lparr>page_prev := None\<rparr>) (disk\<lparr>cmd_pages := Some n\<rparr>))
       }
       else do {
         v \<leftarrow> page_prev (page_at disk p);
         Some (upd_page v (\<lambda>q. q\<lparr>page_next := page_next (page_at disk p)\<rparr>) disk)
       });
     disk \<leftarrow> (if last_cmd_page disk = Some p then do {
         v \<leftarrow> page_prev (page_at disk p);
         Some (upd_page v (\<lambda>q. q\<lparr>page_next := None\<rparr>) (disk\<lparr>last_cmd_page := Some v\<rparr>))
       }
       else do {
         n \<leftarrow> page_next (page_at disk p);
         Some (upd_page n (\<lambda>q. q\<lparr>page_prev := page_prev (page_at disk p)\<rparr>) disk)
       });
     Some ((upd_page p (\<lambda>q. q\<lparr>page_next := freeable_cmd_pages disk\<rparr>) disk)
       \<lparr>freeable_cmd_pages := Some p, cmd_page_count := cmd_page_count disk - 1\<rparr>)
   }"

definition k_dev_FreeDiskCmd :: "nat option \<Rightarrow> k_dev_disk_t \<Rightarrow> k_dev_disk_t option" where
  "k_dev_FreeDiskCmd cmd disk = (case cmd of
      None \<Rightarrow> Some disk
    | Some cmd \<Rightarrow> do {
        let p = cmd_page (cmd_at disk cmd);
        let disk = upd_cmd cmd (\<lambda>c. c\<lparr>cmd_next := next_free (page_at disk p)\<rparr>) disk;
        let disk = upd_page p (\<lambda>q. q\<lparr>next_free := Some cmd, used_count := sub32 (used_count q) 1\<rparr>) disk;
        if used_count (page_at disk p) = 0 \<and> 1 < cmd_page_count disk then unlink_page p disk
        else do {
          cur \<leftarrow> cur_cmd_page disk;
          if page_index (page_at disk p) < page_index (page_at disk cur)
          then Some (disk\<lparr>cur_cmd_page := Some p\<rparr>)
          else Some disk
        }
      })"

section \<open>The request queue and the disk thread\<close>

definition k_dev_EnqueueDiskCmd :: "nat \<Rightarrow> k_dev_disk_t \<Rightarrow> k_dev_disk_t option" where
  "k_dev_EnqueueDiskCmd cmd disk =
     (if cmd_type (cmd_at disk cmd) \<noteq> K_DEV_DSK_CMD_TYPE_LAST then do {
        disk \<leftarrow> (if cmds disk = None then Some (disk\<lparr>cmds := Some cmd\<rparr>)
          else do {
            l \<leftarrow> last_cmd disk;
            Some (upd_cmd l (\<lambda>c. c\<lparr>cmd_next := Some cmd\<rparr>) disk)
          });
        Some (disk\<lparr>last_cmd := Some cmd\<rparr>)
      }
      else Some disk)"

text \<open>The two halves of the body of \<open>k_dev_DiskThread\<close>: taking a request and serving it.\<close>

definition take_request :: "k_dev_disk_t \<Rightarrow> nat option \<times> k_dev_disk_t" where
  "take_request disk = (case cmds disk of
      None \<Rightarrow> (None, disk)
    | Some cmd \<Rightarrow>
        let disk = disk\<lparr>cmds := cmd_next (cmd_at disk cmd)\<rparr>
        in (Some cmd, if cmds disk = None then disk\<lparr>last_cmd := None\<rparr> else disk))"

definition call_driver ::
    "k_dev_disk_func_t option \<Rightarrow> k_dev_dsk_cmd_t \<Rightarrow> k_dev_disk_t \<Rightarrow> (k_dev_dsk_cmd_t \<times> k_dev_disk_t) option" where
  "call_driver func cmd disk = do {
     f \<leftarrow> func;
     (cmd, m) \<leftarrow> f (start_address disk) cmd (medium disk);
     Some (cmd, disk\<lparr>medium := m\<rparr>)
   }"

definition serve_request :: "nat \<Rightarrow> k_dev_disk_t \<Rightarrow> k_dev_disk_t option" where
  "serve_request cmd disk = (
     let run = (\<lambda>func. do {
       (c, disk) \<leftarrow> call_driver func (cmd_at disk cmd) disk;
       Some (upd_cmd cmd (\<lambda>_. c) disk) })
     in case cmd_type (cmd_at disk cmd) of
       K_DEV_DSK_CMD_TYPE_READ \<Rightarrow> run (disk_read disk)
     | K_DEV_DSK_CMD_TYPE_CLEAR \<Rightarrow> run (disk_clear disk)
     | K_DEV_DSK_CMD_TYPE_WRITE \<Rightarrow> run (disk_write disk)
     | _ \<Rightarrow> Some disk)"

definition disk_thread_pass :: "k_dev_disk_t \<Rightarrow> k_dev_disk_t option" where
  "disk_thread_pass disk = (case take_request disk of
      (None, disk) \<Rightarrow> Some disk
    | (Some cmd, disk) \<Rightarrow> serve_request cmd disk)"

section \<open>Requests\<close>

text \<open>
  A request on a queued disk: a command is taken, filled in and queued. The caller then waits for
  the condition of the command and returns it to its page.
\<close>

definition submit_request ::
    "nat option \<Rightarrow> k_dev_dsk_cmd_type \<Rightarrow> (nat \<times> bytes) option \<Rightarrow> nat \<Rightarrow> nat \<Rightarrow> k_dev_disk_t \<Rightarrow>
     (nat \<times> k_dev_disk_t) option" where
  "submit_request fresh ty buf start count disk = do {
     (cmd, disk) \<leftarrow> k_dev_AllocDiskCmd fresh disk;
     let disk = upd_cmd cmd (\<lambda>c. c\<lparr>cmd_type := ty, cmd_buffer := buf,
       cmd_address := start mod 2 ^ 32, cmd_size := count mod 2 ^ 32\<rparr>) disk;
     disk \<leftarrow> k_dev_EnqueueDiskCmd cmd disk;
     Some (cmd, disk)
   }"

definition finish_request :: "nat \<Rightarrow> k_dev_disk_t \<Rightarrow> ((nat \<times> bytes) option \<times> k_dev_disk_t) option" where
  "finish_request cmd disk = do {
     let buf = cmd_buffer (cmd_at disk cmd);
     disk \<leftarrow> k_dev_FreeDiskCmd (Some cmd) disk;
     Some (buf, disk)
   }"

text \<open>A request on a disk without a queue: the command lives on the stack of the caller.\<close>

definition local_cmd :: "(nat \<times> bytes) option \<Rightarrow> nat \<Rightarrow> nat \<Rightarrow> k_dev_dsk_cmd_t" where
  "local_cmd buf start count = \<lparr>condition = False, cmd_next = None, cmd_page = 0,
     cmd_type = K_DEV_DSK_CMD_TYPE_READ, cmd_status = 0, cmd_address = start mod 2 ^ 32,
     cmd_size = count mod 2 ^ 32, cmd_buffer = buf\<rparr>"

text \<open>
  The three entry points, given the behaviour \<open>wait\<close> of the other threads while the caller
  waits for its command. The result is the status, the caller's buffer and the disk.
\<close>

definition queued_request ::
    "(nat \<Rightarrow> k_dev_disk_t \<Rightarrow> k_dev_disk_t option) \<Rightarrow> nat option \<Rightarrow> k_dev_dsk_cmd_type \<Rightarrow>
     (nat \<times> bytes) option \<Rightarrow> nat \<Rightarrow> nat \<Rightarrow> k_dev_disk_t \<Rightarrow> (nat \<times> (nat \<times> bytes) option \<times> k_dev_disk_t) option" where
  "queued_request wait fresh ty buf start count disk = do {
     (cmd, disk) \<leftarrow> submit_request fresh ty buf start count disk;
     disk \<leftarrow> wait cmd disk;
     (buf, disk) \<leftarrow> finish_request cmd disk;
     Some (0, buf, disk)
   }"

definition k_dev_DiskRead ::
    "(nat \<Rightarrow> k_dev_disk_t \<Rightarrow> k_dev_disk_t option) \<Rightarrow> nat option \<Rightarrow> nat \<Rightarrow> nat \<Rightarrow> (nat \<times> bytes) option \<Rightarrow>
     k_dev_disk_t \<Rightarrow> (nat \<times> (nat \<times> bytes) option \<times> k_dev_disk_t) option" where
  "k_dev_DiskRead wait fresh start count data disk =
     (if disk_type disk \<in> {K_DEV_DSK_TYPE_RAM, K_DEV_DSK_TYPE_BOOT} then do {
        (cmd, disk) \<leftarrow> call_driver (disk_read disk) (local_cmd data start count) disk;
        Some (0, cmd_buffer cmd, disk)
      }
      else if disk_type disk = K_DEV_DSK_TYPE_DISK then
        queued_request wait fresh K_DEV_DSK_CMD_TYPE_READ data start count disk
      else Some (0, data, disk))"

definition k_dev_DiskWrite ::
    "(nat \<Rightarrow> k_dev_disk_t \<Rightarrow> k_dev_disk_t option) \<Rightarrow> nat option \<Rightarrow> nat \<Rightarrow> nat \<Rightarrow> (nat \<times> bytes) option \<Rightarrow>
     k_dev_disk_t \<Rightarrow> (nat \<times> (nat \<times> bytes) option \<times> k_dev_disk_t) option" where
  "k_dev_DiskWrite wait fresh start count data disk =
     (if disk_type disk = K_DEV_DSK_TYPE_RAM then do {
        (cmd, disk) \<leftarrow> call_driver (disk_write disk) (local_cmd data start count) disk;
        Some (0, cmd_buffer cmd, disk)
      }
      else if disk_type disk = K_DEV_DSK_TYPE_DISK then
        queued_request wait fresh K_DEV_DSK_CMD_TYPE_WRITE data start count disk
      else Some (0, data, disk))"

definition k_dev_DiskClear ::
    "(nat \<Rightarrow> k_dev_disk_t \<Rightarrow> k_dev_disk_t option) \<Rightarrow> nat option \<Rightarrow> nat \<Rightarrow> nat \<Rightarrow>
     k_dev_disk_t \<Rightarrow> (nat \<times> k_dev_disk_t) option" where
  "k_dev_DiskClear wait fresh start count disk =
     (if disk_type disk = K_DEV_DSK_TYPE_RAM then do {
        (cmd, disk) \<leftarrow> call_driver (disk_clear disk) (local_cmd None start count) disk;
        Some (0, disk)
      }
      else if disk_type disk = K_DEV_DSK_TYPE_DISK then do {
        (r, _, disk) \<leftarrow> queued_request wait fresh K_DEV_DSK_CMD_TYPE_CLEAR None start count disk;
        Some (r, disk)
      }
      else Some (0, disk))"

section \<open>The memory disk\<close>

definition k_dsk_RamRead :: k_dev_disk_func_t where
  "k_dsk_RamRead base cmd m = do {
     (a, buf) \<leftarrow> cmd_buffer cmd;
     buf \<leftarrow> k_rt_CopyBytes a (base + cmd_address cmd) buf 0 m (cmd_address cmd) (cmd_size cmd);
     Some (cmd\<lparr>cmd_buffer := Some (a, buf)\<rparr>, m)
   }"

definition k_dsk_RamWrite :: k_dev_disk_func_t where
  "k_dsk_RamWrite base cmd m = do {
     (a, buf) \<leftarrow> cmd_buffer cmd;
     m \<leftarrow> k_rt_CopyBytes (base + cmd_address cmd) a m (cmd_address cmd) buf 0 (cmd_size cmd);
     Some (cmd, m)
   }"

fun ram_clear :: "nat \<Rightarrow> nat \<Rightarrow> bytes \<Rightarrow> bytes option" where
  "ram_clear i 0 m = Some m"
| "ram_clear i (Suc n) m = Option.bind (wr m i 0) (ram_clear (i + 1) n)"

definition k_dsk_RamClear :: k_dev_disk_func_t where
  "k_dsk_RamClear base cmd m =
     map_option (\<lambda>m. (cmd, m)) (ram_clear (cmd_address cmd) (cmd_size cmd) m)"


lemma ram_clear_blit: "i + n \<le> length m \<Longrightarrow> ram_clear i n m = Some (blit m i (replicate n 0))"
proof (induction n arbitrary: i m)
  case 0
  then show ?case by simp
next
  case (Suc n)
  have "m[i := 0] = blit m i [0]" using Suc.prems by (simp add: blit_def upd_conv_take_nth_drop)
  then show ?case
    using Suc.prems blit_blit [of i "[0]" "replicate n 0" m] by (simp add: Suc.IH wr_in)
qed

text \<open>A disk in memory: what the driver of such a disk sets up.\<close>

definition ram_ok :: "k_dev_disk_t \<Rightarrow> bool" where
  "ram_ok disk \<longleftrightarrow> disk_type disk = K_DEV_DSK_TYPE_RAM \<and> disk_read disk = Some k_dsk_RamRead \<and>
     disk_write disk = Some k_dsk_RamWrite \<and> disk_clear disk = Some k_dsk_RamClear \<and>
     0 < start_address disk \<and> length (medium disk) < 2 ^ 32"

lemma ram_disk_read:
  assumes "ram_ok disk" "0 < a" "start + count \<le> length (medium disk)" "count \<le> length buf"
  shows "k_dev_DiskRead wait fresh start count (Some (a, buf)) disk =
    Some (0, Some (a, blit buf 0 (take count (drop start (medium disk)))), disk)"
  using assms
  by (simp add: k_dev_DiskRead_def ram_ok_def call_driver_def local_cmd_def k_dsk_RamRead_def
      copy_bytes_exec copy_bytes_in)

lemma ram_disk_write:
  assumes "ram_ok disk" "0 < a" "start + count \<le> length (medium disk)" "count \<le> length buf"
  shows "k_dev_DiskWrite wait fresh start count (Some (a, buf)) disk =
    Some (0, Some (a, buf), disk\<lparr>medium := blit (medium disk) start (take count buf)\<rparr>)"
  using assms
  by (simp add: k_dev_DiskWrite_def ram_ok_def call_driver_def local_cmd_def k_dsk_RamWrite_def
      copy_bytes_exec copy_bytes_in)

lemma ram_disk_clear:
  assumes "ram_ok disk" "start + count \<le> length (medium disk)"
  shows "k_dev_DiskClear wait fresh start count disk =
    Some (0, disk\<lparr>medium := blit (medium disk) start (replicate count 0)\<rparr>)"
  using assms
  by (simp add: k_dev_DiskClear_def ram_ok_def call_driver_def local_cmd_def k_dsk_RamClear_def
      ram_clear_blit)

text \<open>The memory disk as a byte store, through the entry points of the disk layer.\<close>

definition ram_read :: "nat \<Rightarrow> k_dev_disk_t \<Rightarrow> nat \<Rightarrow> nat \<Rightarrow> bytes option" where
  "ram_read a disk start count =
     Option.bind (k_dev_DiskRead (\<lambda>_. Some) None start count (Some (Suc a, replicate count 0)) disk)
       (\<lambda>(_, buf, _). map_option snd buf)"

definition ram_write :: "nat \<Rightarrow> k_dev_disk_t \<Rightarrow> nat \<Rightarrow> bytes \<Rightarrow> k_dev_disk_t option" where
  "ram_write a disk start bs =
     map_option (\<lambda>(_, _, d). d) (k_dev_DiskWrite (\<lambda>_. Some) None start (length bs) (Some (Suc a, bs)) disk)"

interpretation ram: byte_store ram_ok medium "ram_read a" "ram_write a"
proof
  fix d s n
  assume "ram_ok d" "s + n \<le> length (medium d)"
  then show "ram_read a d s n = Some (take n (drop s (medium d)))"
    by (simp add: ram_read_def ram_disk_read blit_def)
next
  fix d s and bs :: bytes
  assume d: "ram_ok d" "s + length bs \<le> length (medium d)"
  then show "\<exists>d'. ram_write a d s bs = Some d' \<and> ram_ok d' \<and> medium d' = blit (medium d) s bs"
    by (simp add: ram_write_def ram_disk_write) (auto simp: ram_ok_def)
qed


section \<open>The request queue is first-in first-out\<close>

definition requests :: "k_dev_disk_t \<Rightarrow> nat list" where
  "requests disk = nodes (\<lambda>a. cmd_next (cmd_at disk a)) (cmds disk)"

definition requests_rep :: "k_dev_disk_t \<Rightarrow> nat list \<Rightarrow> bool" where
  "requests_rep disk cs \<longleftrightarrow> chain (\<lambda>a. cmd_next (cmd_at disk a)) (cmds disk) cs \<and>
     (cs \<noteq> [] \<longrightarrow> last_cmd disk = Some (last cs))"

definition requests_ok :: "k_dev_disk_t \<Rightarrow> bool" where
  "requests_ok disk \<longleftrightarrow> requests_rep disk (requests disk)"

text \<open>A command that may be queued: just taken from its page and given a type.\<close>

definition queueable :: "k_dev_disk_t \<Rightarrow> nat \<Rightarrow> bool" where
  "queueable disk cmd \<longleftrightarrow> cmd \<notin> set (requests disk) \<and> cmd_next (cmd_at disk cmd) = None \<and>
     cmd_type (cmd_at disk cmd) \<noteq> K_DEV_DSK_CMD_TYPE_LAST"

definition enqueue :: "k_dev_disk_t \<Rightarrow> nat \<Rightarrow> k_dev_disk_t" where
  "enqueue disk cmd = the (k_dev_EnqueueDiskCmd cmd disk)"

lemma requests_eq: "requests_rep disk cs \<Longrightarrow> requests disk = cs"
  by (auto simp: requests_def requests_rep_def intro: nodes_eq)

lemma requests_okD: "requests_ok disk \<Longrightarrow> requests_rep disk (requests disk)"
  by (simp add: requests_ok_def)

lemma requests_rep_ok: "requests_rep disk cs \<Longrightarrow> requests_ok disk \<and> requests disk = cs"
  using requests_eq by (auto simp: requests_ok_def)

lemma enqueue_rep:
  assumes r: "requests_rep disk cs" and q: "queueable disk cmd"
  shows "\<exists>d. k_dev_EnqueueDiskCmd cmd disk = Some d \<and> requests_rep d (cs @ [cmd])"
proof -
  let ?nx = "\<lambda>a. cmd_next (cmd_at disk a)"
  have c: "chain ?nx (cmds disk) cs" "cmd \<notin> set cs" "?nx cmd = None"
    "cmd_type (cmd_at disk cmd) \<noteq> K_DEV_DSK_CMD_TYPE_LAST"
    using r q requests_eq [OF r] by (auto simp: requests_rep_def queueable_def)
  show ?thesis
  proof (cases "cs = []")
    case True
    then show ?thesis using c r
      by (auto simp: k_dev_EnqueueDiskCmd_def requests_rep_def chain_Some)
  next
    case False
    then have l: "last_cmd disk = Some (last cs)" "cmds disk \<noteq> None" using r chain_hd [OF c(1)]
      by (auto simp: requests_rep_def)
    have u: "(\<lambda>a. cmd_next (cmd_at (upd_cmd (last cs) (\<lambda>c. c\<lparr>cmd_next := Some cmd\<rparr>) disk) a)) =
        ?nx(last cs := Some cmd)"
      by (auto simp: upd_cmd_def)
    have "?nx(last cs := Some cmd, cmd := None) = ?nx(last cs := Some cmd)"
      by (rule ext) (use c False last_in_set [of cs] in auto)
    with chain_snoc [OF c(1) False c(2)]
    have "chain (?nx(last cs := Some cmd)) (cmds disk) (cs @ [cmd])" by metis
    then show ?thesis using l c(4) u
      by (auto simp: k_dev_EnqueueDiskCmd_def requests_rep_def upd_cmd_def)
  qed
qed

lemma take_request_rep:
  assumes r: "requests_rep disk cs"
  shows "requests_rep (snd (take_request disk)) (tl cs) \<and>
    fst (take_request disk) = (case cs of [] \<Rightarrow> None | c # _ \<Rightarrow> Some c)"
proof (cases cs)
  case Nil
  then show ?thesis using r by (auto simp: take_request_def requests_rep_def split: option.splits)
next
  case (Cons c as)
  then have "cmds disk = Some c" "chain (\<lambda>a. cmd_next (cmd_at disk a)) (cmd_next (cmd_at disk c)) as"
    using r by (auto simp: requests_rep_def chain_Some split: option.splits dest: chain_hd)
  then show ?thesis using Cons r
    by (auto simp: take_request_def requests_rep_def Let_def split: list.splits dest: chain_hd)
qed

lemma enqueue_ok:
  assumes "requests_ok disk" "queueable disk cmd"
  shows "requests_ok (enqueue disk cmd) \<and> requests (enqueue disk cmd) = requests disk @ [cmd]"
  using enqueue_rep [OF requests_okD [OF assms(1)] assms(2)] requests_rep_ok
  by (fastforce simp: enqueue_def)

lemma take_request_ok:
  assumes "requests_ok disk"
  shows "requests_ok (snd (take_request disk)) \<and> requests (snd (take_request disk)) = tl (requests disk) \<and>
    fst (take_request disk) = (case requests disk of [] \<Rightarrow> None | c # _ \<Rightarrow> Some c)"
  using take_request_rep [OF requests_okD [OF assms]] requests_rep_ok by blast

interpretation rqs: fifo requests_ok requests queueable enqueue take_request
  by unfold_locales (simp_all add: enqueue_ok take_request_ok)


section \<open>The command pool\<close>

text \<open>Page \<open>p\<close> has the free commands \<open>fs\<close>.\<close>

definition page_free :: "k_dev_disk_t \<Rightarrow> nat \<Rightarrow> nat list \<Rightarrow> bool" where
  "page_free disk p fs \<longleftrightarrow> chain (\<lambda>a. cmd_next (cmd_at disk a)) (next_free (page_at disk p)) fs \<and>
     (\<forall>c \<in> set fs. cmd_page (cmd_at disk c) = p)"

lemma page_free_cong:
  assumes "next_free (page_at d p) = next_free (page_at e p)"
    and "\<And>c. c \<in> set fs \<Longrightarrow> cmd_next (cmd_at d c) = cmd_next (cmd_at e c) \<and>
      cmd_page (cmd_at d c) = cmd_page (cmd_at e c)"
  shows "page_free d p fs = page_free e p fs"
  unfolding page_free_def assms(1)
  by (intro arg_cong2 [of _ _ _ _ "(\<and>)"] chain_cong ball_cong) (use assms(2) in auto)

lemma page_free_ConsD:
  "page_free disk p (c # fs) \<Longrightarrow> next_free (page_at disk p) = Some c \<and> cmd_page (cmd_at disk c) = p \<and>
     c \<notin> set fs \<and> chain (\<lambda>a. cmd_next (cmd_at disk a)) (cmd_next (cmd_at disk c)) fs \<and>
     (\<forall>a \<in> set fs. cmd_page (cmd_at disk a) = p)"
  using chain_not_in_tail [of "\<lambda>a. cmd_next (cmd_at disk a)" c fs]
  by (auto simp: page_free_def chain_Some)

definition taken_cmd :: "nat \<Rightarrow> k_dev_dsk_cmd_t" where
  "taken_cmd p = \<lparr>condition = False, cmd_next = None, cmd_page = p,
     cmd_type = K_DEV_DSK_CMD_TYPE_LAST, cmd_status = 0, cmd_address = 0, cmd_size = 0, cmd_buffer = None\<rparr>"

lemma reset_cmd:
  "cmd_page c = p \<Longrightarrow> c\<lparr>cmd_buffer := None, condition := False, cmd_next := None, cmd_address := 0,
     cmd_type := K_DEV_DSK_CMD_TYPE_LAST, cmd_size := 0, cmd_status := 0\<rparr> = taken_cmd p"
  by (cases c) (simp add: taken_cmd_def)

lemma AllocDiskCmd_free:
  assumes cur: "cur_cmd_page disk = Some p" and f: "page_free disk p (c # fs)"
  shows "k_dev_AllocDiskCmd fresh disk = Some (c, disk
    \<lparr>page_at := (page_at disk)(p := (page_at disk p)\<lparr>next_free := cmd_next (cmd_at disk c),
       used_count := used_count (page_at disk p) + 1\<rparr>),
     cmd_at := (cmd_at disk)(c := taken_cmd p)\<rparr>)"
  using page_free_ConsD [OF f] cur
  by (simp add: k_dev_AllocDiskCmd_def upd_page_def upd_cmd_def reset_cmd Let_def)

lemma FreeDiskCmd_page:
  assumes f: "page_free disk p fs" and c: "c \<notin> set fs" "cmd_page (cmd_at disk c) = p"
    and u: "used_count (page_at disk p) = Suc u" "u < 2 ^ 32 - 1"
    and k: "cmd_page_count disk \<le> 1" "cur_cmd_page disk = Some p"
  shows "k_dev_FreeDiskCmd (Some c) disk = Some (disk
    \<lparr>cmd_at := (cmd_at disk)(c := (cmd_at disk c)\<lparr>cmd_next := next_free (page_at disk p)\<rparr>),
     page_at := (page_at disk)(p := (page_at disk p)\<lparr>next_free := Some c, used_count := u\<rparr>)\<rparr>)"
  using assms sub32_small [of 1 "Suc u"]
  by (simp add: k_dev_FreeDiskCmd_def upd_page_def upd_cmd_def Let_def)

lemma init_cmds_at:
  "0 < csize \<Longrightarrow> cmd_at (init_cmds n csize p s disk) a =
    (if \<exists>j < n. a = s + j * csize
     then (cmd_at disk a)\<lparr>cmd_next := Some (a + csize), cmd_page := p,
       cmd_type := K_DEV_DSK_CMD_TYPE_LAST, cmd_buffer := None\<rparr>
     else cmd_at disk a)"
proof (induction n arbitrary: s disk)
  case 0
  then show ?case by simp
next
  case (Suc n)
  have e: "(\<exists>j < Suc n. a = s + j * csize) \<longleftrightarrow> a = s \<or> (\<exists>j < n. a = s + csize + j * csize)"
    by (auto simp: less_Suc_eq_0_disj)
  have "\<not> (\<exists>j < n. s = s + csize + j * csize)" using Suc.prems by simp
  then show ?case unfolding init_cmds.simps Suc.IH [OF Suc.prems] e
    by (auto simp: upd_cmd_def)
qed

lemma init_cmds_fun:
  "0 < csize \<Longrightarrow> cmd_at (init_cmds n csize p s disk) = (\<lambda>a.
    if \<exists>j < n. a = s + j * csize
    then (cmd_at disk a)\<lparr>cmd_next := Some (a + csize), cmd_page := p,
      cmd_type := K_DEV_DSK_CMD_TYPE_LAST, cmd_buffer := None\<rparr>
    else cmd_at disk a)"
  by (rule ext) (rule init_cmds_at)

lemma init_cmds_rest:
  "page_at (init_cmds n csize p s disk) = page_at disk \<and>
   cmd_pages (init_cmds n csize p s disk) = cmd_pages disk \<and>
   last_cmd_page (init_cmds n csize p s disk) = last_cmd_page disk \<and>
   cmd_page_count (init_cmds n csize p s disk) = cmd_page_count disk \<and>
   disk_cmd_size (init_cmds n csize p s disk) = disk_cmd_size disk"
  by (induction n arbitrary: s disk) (auto simp: upd_cmd_def)

text \<open>The commands of a page.\<close>

definition page_cmds :: "nat \<Rightarrow> nat \<Rightarrow> nat \<Rightarrow> nat list" where
  "page_cmds csize align p =
     map (\<lambda>i. aligned_cmd_start align p + i * csize) [0..<page_cmd_count csize align p]"

lemma InitDiskCmdPage_free:
  assumes s: "0 < disk_cmd_size disk" "page_cmd_count (disk_cmd_size disk) (disk_cmd_align disk) p = Suc n"
    and l: "cmd_pages disk = None"
  shows "\<exists>d. k_dev_InitDiskCmdPage p disk = Some d \<and>
    page_free d p (page_cmds (disk_cmd_size disk) (disk_cmd_align disk) p) \<and> used_count (page_at d p) = 0 \<and>
    cmd_pages d = Some p \<and> last_cmd_page d = Some p \<and> cmd_page_count d = cmd_page_count disk"
proof -
  let ?z = "disk_cmd_size disk" and ?s = "aligned_cmd_start (disk_cmd_align disk) p"
  let ?f = "\<lambda>i. ?s + i * ?z"
  let ?c = "\<lambda>a. if \<exists>j < Suc n. a = ?f j
     then (cmd_at disk a)\<lparr>cmd_next := Some (a + ?z), cmd_page := p,
       cmd_type := K_DEV_DSK_CMD_TYPE_LAST, cmd_buffer := None\<rparr>
     else cmd_at disk a"
  obtain d where d: "k_dev_InitDiskCmdPage p disk = Some d" "used_count (page_at d p) = 0"
      "cmd_pages d = Some p" "last_cmd_page d = Some p" "cmd_page_count d = cmd_page_count disk"
      "next_free (page_at d p) = Some (?f 0)"
    and at: "cmd_at d = ?c(?f n := (?c (?f n))\<lparr>cmd_next := None\<rparr>)"
    using s l
    by (simp add: k_dev_InitDiskCmdPage_def Let_def init_cmds_rest upd_page_def upd_cmd_def
        init_cmds_fun cong: if_cong del: init_cmds.simps)
  have "chain (\<lambda>a. cmd_next (cmd_at d a)) (Some (?f 0)) (map ?f [0..<0 + Suc n])"
    by (rule chain_stride) (use s(1) in \<open>auto simp: at\<close>)
  moreover have "cmd_page (cmd_at d (?f i)) = p" if "i < Suc n" for i
    using that s(1) by (auto simp: at)
  ultimately have "page_free d p (map ?f [0..<Suc n])"
    using d(6) by (auto simp: page_free_def simp del: upt_Suc)
  then show ?thesis using d s(2) by (auto simp: page_cmds_def)
qed


section \<open>A request on a queued disk\<close>

text \<open>The pool has the free commands \<open>c # fs\<close> on its current page and no request is queued.\<close>

definition pool_ready :: "k_dev_disk_t \<Rightarrow> nat \<Rightarrow> nat \<Rightarrow> nat list \<Rightarrow> bool" where
  "pool_ready disk p c fs \<longleftrightarrow> disk_type disk = K_DEV_DSK_TYPE_DISK \<and> cur_cmd_page disk = Some p \<and>
     page_free disk p (c # fs) \<and> cmds disk = None \<and> cmd_page_count disk \<le> 1 \<and>
     used_count (page_at disk p) < 2 ^ 32 - 1"

text \<open>The command as the driver gets it.\<close>

definition request_cmd ::
    "nat \<Rightarrow> k_dev_dsk_cmd_type \<Rightarrow> (nat \<times> bytes) option \<Rightarrow> nat \<Rightarrow> nat \<Rightarrow> k_dev_dsk_cmd_t" where
  "request_cmd p ty buf start count = (taken_cmd p)\<lparr>cmd_type := ty, cmd_buffer := buf,
     cmd_address := start mod 2 ^ 32, cmd_size := count mod 2 ^ 32\<rparr>"

text \<open>
  The wait of a caller whose request is the only one: one pass of the disk thread, after which
  the driver has set the condition of the command; otherwise the caller never returns.
\<close>

definition wait_served :: "nat \<Rightarrow> k_dev_disk_t \<Rightarrow> k_dev_disk_t option" where
  "wait_served cmd disk = do {
     disk \<leftarrow> disk_thread_pass disk;
     if condition (cmd_at disk cmd) then Some disk else None
   }"

lemma submit_free:
  assumes r: "pool_ready disk p c fs" and ty: "ty \<noteq> K_DEV_DSK_CMD_TYPE_LAST"
  shows "submit_request fresh ty buf start count disk = Some (c, disk
    \<lparr>page_at := (page_at disk)(p := (page_at disk p)\<lparr>next_free := cmd_next (cmd_at disk c),
       used_count := used_count (page_at disk p) + 1\<rparr>),
     cmd_at := (cmd_at disk)(c := request_cmd p ty buf start count),
     cmds := Some c, last_cmd := Some c\<rparr>)"
proof -
  have "cur_cmd_page disk = Some p" "page_free disk p (c # fs)" "cmds disk = None"
    using r by (simp_all add: pool_ready_def)
  then show ?thesis using ty AllocDiskCmd_free [of disk p c fs fresh]
    by (simp add: submit_request_def k_dev_EnqueueDiskCmd_def upd_cmd_def request_cmd_def Let_def)
qed

lemma free_chain_upd [simp]:
  "c \<notin> set fs \<Longrightarrow> chain (\<lambda>a. cmd_next ((at(c := x)) a)) q fs = chain (\<lambda>a. cmd_next (at a)) q fs"
  by (rule chain_cong) auto

lemma finish_ready:
  assumes d: "disk_type d = K_DEV_DSK_TYPE_DISK" "cur_cmd_page d = Some p" "cmds d = None"
      "cmd_page_count d \<le> 1" "used_count (page_at d p) = Suc u" "u < 2 ^ 32 - 1"
    and f: "page_free d p fs" "c \<notin> set fs" "cmd_page (cmd_at d c) = p"
  shows "\<exists>e. finish_request c d = Some (cmd_buffer (cmd_at d c), e) \<and> pool_ready e p c fs \<and>
    medium e = medium d \<and> used_count (page_at e p) = u \<and> disk_read e = disk_read d \<and>
    start_address e = start_address d \<and> disk_block_size e = disk_block_size d"
proof -
  let ?e = "d\<lparr>cmd_at := (cmd_at d)(c := (cmd_at d c)\<lparr>cmd_next := next_free (page_at d p)\<rparr>),
    page_at := (page_at d)(p := (page_at d p)\<lparr>next_free := Some c, used_count := u\<rparr>)\<rparr>"
  have run: "finish_request c d = Some (cmd_buffer (cmd_at d c), ?e)"
    using FreeDiskCmd_page [OF f d(5,6,4,2)] by (simp add: finish_request_def Let_def)
  have "chain (\<lambda>a. cmd_next (cmd_at ?e a)) (next_free (page_at d p)) fs"
    using f by (simp add: page_free_def del: fun_upd_apply)
  then have "page_free ?e p (c # fs)" using f by (auto simp: page_free_def)
  with d have "pool_ready ?e p c fs" by (simp add: pool_ready_def)
  then have "pool_ready ?e p c fs \<and> medium ?e = medium d \<and> used_count (page_at ?e p) = u \<and>
      disk_read ?e = disk_read d \<and> start_address ?e = start_address d \<and>
      disk_block_size ?e = disk_block_size d" by simp
  with run show ?thesis by blast
qed

lemma DiskRead_queued:
  assumes r: "pool_ready disk p c fs" and f: "disk_read disk = Some f"
    and run: "f (start_address disk) (request_cmd p K_DEV_DSK_CMD_TYPE_READ data start count) (medium disk)
      = Some (cmd, m)" "cmd_page cmd = p" "condition cmd"
  shows "\<exists>d. k_dev_DiskRead wait_served fresh start count data disk = Some (0, cmd_buffer cmd, d) \<and>
    pool_ready d p c fs \<and> medium d = m \<and> disk_read d = Some f \<and> start_address d = start_address disk \<and>
    disk_block_size d = disk_block_size disk"
proof -
  define d where "d = disk\<lparr>page_at := (page_at disk)(p := (page_at disk p)\<lparr>next_free := cmd_next (cmd_at disk c),
       used_count := used_count (page_at disk p) + 1\<rparr>),
     cmd_at := (cmd_at disk)(c := cmd), cmds := None, last_cmd := None, medium := m\<rparr>"
  have s: "submit_request fresh K_DEV_DSK_CMD_TYPE_READ data start count disk = Some (c, disk
    \<lparr>page_at := (page_at disk)(p := (page_at disk p)\<lparr>next_free := cmd_next (cmd_at disk c),
       used_count := used_count (page_at disk p) + 1\<rparr>),
     cmd_at := (cmd_at disk)(c := request_cmd p K_DEV_DSK_CMD_TYPE_READ data start count),
     cmds := Some c, last_cmd := Some c\<rparr>)" (is "_ = Some (c, ?s)")
    using submit_free [OF r] by simp
  have c: "cmd_at ?s c = request_cmd p K_DEV_DSK_CMD_TYPE_READ data start count"
    "cmd_next (cmd_at ?s c) = None" "cmd_type (cmd_at ?s c) = K_DEV_DSK_CMD_TYPE_READ"
    by (simp_all add: request_cmd_def taken_cmd_def)
  have "disk_thread_pass ?s = Some d"
    using f run(1) c
    by (simp add: disk_thread_pass_def take_request_def serve_request_def call_driver_def d_def upd_cmd_def Let_def)
  then have t: "wait_served c ?s = Some d" using run(3) by (simp add: wait_served_def d_def)
  have free: "c \<notin> set fs" "chain (\<lambda>a. cmd_next (cmd_at disk a)) (cmd_next (cmd_at disk c)) fs"
    "\<forall>a \<in> set fs. cmd_page (cmd_at disk a) = p"
    using r page_free_ConsD [of disk p c fs] by (auto simp only: pool_ready_def)
  then have "page_free d p fs"
    by (auto simp: page_free_def d_def simp del: fun_upd_apply)
      (auto simp: fun_upd_def)
  with free run(2,3) have "page_free d p fs" "c \<notin> set fs" "cmd_page (cmd_at d c) = p"
    by (simp_all add: d_def)
  then obtain e where e: "finish_request c d = Some (cmd_buffer (cmd_at d c), e)" "pool_ready e p c fs"
      "medium e = medium d" "disk_read e = disk_read d" "start_address e = start_address d"
      "disk_block_size e = disk_block_size d"
    using finish_ready [of d p "used_count (page_at disk p)" fs c] r by (auto simp: d_def pool_ready_def)
  have "k_dev_DiskRead wait_served fresh start count data disk = Some (0, cmd_buffer cmd, e)"
    using r s t e(1) by (simp add: k_dev_DiskRead_def queued_request_def pool_ready_def d_def)
  then show ?thesis using e f by (auto simp: d_def)
qed


section \<open>Properties\<close>

text \<open>
  C20: On a disk in memory, what \<open>k_dev_DiskWrite\<close> wrote is what \<open>k_dev_DiskRead\<close> reads back,
  whatever the alignment of the buffers, and a range that the write does not meet still reads as
  before.
\<close>

theorem ram_disk_roundtrip:
  assumes "ram_ok disk" "start + length bs \<le> length (medium disk)" "c + n \<le> length (medium disk)"
    and "c + n \<le> start \<or> start + length bs \<le> c"
  shows "\<exists>d. ram_write a disk start bs = Some d \<and> ram_read a d start (length bs) = Some bs \<and>
    ram_read a d c n = ram_read a disk c n"
  using ram.write_read [OF assms(1,2), of a] ram.write_read_elsewhere [OF assms, of a] by force

definition sample_ram :: k_dev_disk_t where
  "sample_ram = \<lparr>cmds = None, last_cmd = None, cmd_pages = None, last_cmd_page = None,
     cur_cmd_page = None, freeable_cmd_pages = None, cmd_page_index = 0, cmd_page_count = 0,
     disk_read = Some k_dsk_RamRead, disk_write = Some k_dsk_RamWrite, disk_clear = Some k_dsk_RamClear,
     start_address = 4096, disk_block_size = 512, disk_cmd_size = 32, disk_cmd_align = 4, disk_type = K_DEV_DSK_TYPE_RAM,
     cmd_at = (\<lambda>_. \<lparr>condition = False, cmd_next = None, cmd_page = 0, cmd_type = K_DEV_DSK_CMD_TYPE_READ,
       cmd_status = 0, cmd_address = 0, cmd_size = 0, cmd_buffer = None\<rparr>),
     page_at = (\<lambda>_. \<lparr>page_next = None, page_prev = None, next_free = None, used_count = 0, page_index = 0\<rparr>),
     medium = [1, 2, 3, 4, 5, 6]\<rparr>"

theorem ram_disk_roundtrip_witness:
  "\<exists>d. ram_write 99 sample_ram 1 [7, 8, 9] = Some d \<and> ram_read 99 d 1 (length [7, 8, 9 :: u8]) = Some [7, 8, 9] \<and>
    ram_read 99 d 4 2 = ram_read 99 sample_ram 4 2"
  by (rule ram_disk_roundtrip) (simp_all add: ram_ok_def sample_ram_def)

text \<open>
  The disk thread takes the requests of a disk in the order in which they were queued: from
  an empty queue, \<open>n\<close> passes take the first \<open>n\<close> of the commands that were queued.
\<close>

theorem disk_requests_in_order:
  assumes "requests_ok disk" "requests disk = []" "fill_ok queueable enqueue disk reqs"
  shows "fst (drain take_request n (fill enqueue disk reqs)) = take n reqs"
  using assms by (rule rqs.fill_drain)

lemma sample_requests: "requests_rep sample_ram []"
  by (simp add: requests_rep_def sample_ram_def)

lemma sample_queueable: "queueable sample_ram 64"
  using requests_eq [OF sample_requests] by (simp add: queueable_def sample_ram_def)

theorem disk_requests_in_order_witness:
  "fst (drain take_request 2 (fill enqueue sample_ram [64, 96])) = [64, 96]"
proof -
  have r: "requests_ok sample_ram" "requests sample_ram = []"
    using requests_rep_ok [OF sample_requests] by auto
  have e: "requests (enqueue sample_ram 64) = [64]"
    using enqueue_ok [OF r(1) sample_queueable] r(2) by simp
  have "queueable (enqueue sample_ram 64) 96"
    unfolding queueable_def e
    by (simp add: enqueue_def k_dev_EnqueueDiskCmd_def sample_ram_def)
  then show ?thesis
    using disk_requests_in_order [OF r, of "[64, 96]" 2] sample_queueable by simp
qed

end
