(* ===== verification/Dsk_Ide.thy ===== *)
theory Dsk_Ide
  imports Dsk_Disk
begin

text \<open>
  The programmed-input driver of \<open>kernel/dev/ide.c\<close>: \<open>k_IDE_Read\<close> issues commands of at most 256
  sectors, and the interrupt handler moves each sector from the data register into the caller's
  buffer. The controller is a parameter of the model where the code reads it: the words the data
  register yields between two interrupts, and the sectors that a command addresses, as the AT
  attachment defines the command block. The lemmas show when a read returns the bytes of the
  medium, and when it overruns the buffer.
\<close>

section \<open>Commands and the data register\<close>

record k_dev_dsk_ide_cmd_t = k_dev_dsk_cmd_t +
  transfer_condition :: bool
  skip_count :: nat
  sector_count :: nat

definition K_IDE_STATUS_FLAG_ERROR :: u8 where "K_IDE_STATUS_FLAG_ERROR = 1"

definition K_IDE_CMD_REG_SEC_COUNT :: nat where "K_IDE_CMD_REG_SEC_COUNT = 2"
definition K_IDE_CMD_REG_SEC_NUMBER :: nat where "K_IDE_CMD_REG_SEC_NUMBER = 3"
definition K_IDE_CMD_REG_CYL_LOW :: nat where "K_IDE_CMD_REG_CYL_LOW = 4"
definition K_IDE_CMD_REG_CYL_HI :: nat where "K_IDE_CMD_REG_CYL_HI = 5"
definition K_IDE_CMD_REG_DRV_HEAD :: nat where "K_IDE_CMD_REG_DRV_HEAD = 6"
definition K_IDE_CMD_REG_CMD :: nat where "K_IDE_CMD_REG_CMD = 7"
definition K_IDE_CMD_READ_SEC_NR :: u8 where "K_IDE_CMD_READ_SEC_NR = 0x21"
definition K_DEV_IDE_MAX_SECTORS_PER_CMD :: nat where "K_DEV_IDE_MAX_SECTORS_PER_CMD = 256"

text \<open>\<open>ReadReg16\<close> and \<open>ReadReg16S\<close> on the data register: the words the controller still holds.\<close>

definition read_word :: "u16 list \<Rightarrow> (u16 \<times> u16 list) option" where
  "read_word port = (case port of [] \<Rightarrow> None | w # ws \<Rightarrow> Some (w, ws))"

fun discard_words :: "nat \<Rightarrow> u16 list \<Rightarrow> u16 list option" where
  "discard_words 0 port = Some port"
| "discard_words (Suc n) port = do { (_, port) \<leftarrow> read_word port; discard_words n port }"

definition low_byte :: "u16 \<Rightarrow> u8" where "low_byte w = ucast w"
definition high_byte :: "u16 \<Rightarrow> u8" where "high_byte w = ucast (drop_bit 8 w)"

text \<open>A store at the running address of the command.\<close>

definition put_byte :: "u8 \<Rightarrow> k_dev_dsk_ide_cmd_t \<Rightarrow> k_dev_dsk_ide_cmd_t option" where
  "put_byte v cmd = do {
     (a, buf) \<leftarrow> cmd_buffer cmd;
     buf \<leftarrow> wr buf (cmd_address cmd) v;
     Some (cmd\<lparr>cmd_buffer := Some (a, buf), cmd_address := cmd_address cmd + 1\<rparr>)
   }"

fun copy_words ::
    "nat \<Rightarrow> k_dev_dsk_ide_cmd_t \<times> u16 list \<Rightarrow> (k_dev_dsk_ide_cmd_t \<times> u16 list) option" where
  "copy_words 0 s = Some s"
| "copy_words (Suc n) (cmd, port) = do {
     (w, port) \<leftarrow> read_word port;
     cmd \<leftarrow> put_byte (low_byte w) cmd;
     cmd \<leftarrow> put_byte (high_byte w) cmd;
     copy_words n (cmd, port)
   }"

definition word_bytes :: "u16 list \<Rightarrow> bytes" where
  "word_bytes ws = concat (map (\<lambda>w. [low_byte w, high_byte w]) ws)"

definition read_string ::
    "nat \<Rightarrow> k_dev_dsk_ide_cmd_t \<times> u16 list \<Rightarrow> (k_dev_dsk_ide_cmd_t \<times> u16 list) option" where
  "read_string n s = (case s of (cmd, port) \<Rightarrow>
     if length port < n then None
     else do {
       (a, buf) \<leftarrow> cmd_buffer cmd;
       buf \<leftarrow> copy_bytes buf (cmd_address cmd) (word_bytes (take n port)) 0 (2 * n);
       Some (cmd\<lparr>cmd_buffer := Some (a, buf), cmd_address := cmd_address cmd + 2 * n\<rparr>, drop n port)
     })"

section \<open>The interrupt handler\<close>

text \<open>
  The stages of a read interrupt. Each takes and returns the command, the rest of the words and
  the number of bytes the sector still has.
\<close>

definition skip_stage ::
    "k_dev_dsk_ide_cmd_t \<times> u16 list \<times> nat \<Rightarrow> (k_dev_dsk_ide_cmd_t \<times> u16 list \<times> nat) option" where
  "skip_stage s = (case s of (cmd, port, available) \<Rightarrow>
     if skip_count cmd = 0 then Some s
     else do {
       port \<leftarrow> discard_words (skip_count cmd div 2) port;
       let available = sub32 available (skip_count cmd div 2 * 2);
       (cmd, port, available) \<leftarrow> (if odd (skip_count cmd) then do {
           (w, port) \<leftarrow> read_word port;
           cmd \<leftarrow> put_byte (high_byte w) cmd;
           Some (cmd, port, sub32 available 2)
         }
         else Some (cmd, port, available));
       Some (cmd\<lparr>skip_count := 0\<rparr>, port, available)
     })"

definition bulk_stage ::
    "k_dev_dsk_ide_cmd_t \<times> u16 list \<times> nat \<Rightarrow> (k_dev_dsk_ide_cmd_t \<times> u16 list \<times> nat) option" where
  "bulk_stage s = (case s of (cmd, port, available) \<Rightarrow>
     if 1 < available then do {
       let copy_size = min (available div 2) (cmd_size cmd div 2);
       (cmd, port) \<leftarrow> (if odd (cmd_address cmd) then copy_words copy_size (cmd, port)
         else read_string copy_size (cmd, port));
       Some (cmd, port, sub32 available (copy_size * 2))
     }
     else Some s)"

definition tail_stage ::
    "k_dev_dsk_ide_cmd_t \<times> u16 list \<times> nat \<Rightarrow> (k_dev_dsk_ide_cmd_t \<times> u16 list \<times> nat) option" where
  "tail_stage s = (case s of (cmd, port, available) \<Rightarrow>
     if available = 1 then do {
       (w, port) \<leftarrow> read_word port;
       cmd \<leftarrow> put_byte (low_byte w) cmd;
       Some (cmd, port, available)
     }
     else do {
       port \<leftarrow> discard_words (available div 2) port;
       Some (cmd, port, available)
     })"

definition ide_read_interrupt ::
    "nat \<Rightarrow> k_dev_dsk_ide_cmd_t \<Rightarrow> u16 list \<Rightarrow> k_dev_dsk_ide_cmd_t option" where
  "ide_read_interrupt block_size cmd port = do {
     s \<leftarrow> skip_stage (cmd, port, block_size);
     s \<leftarrow> (if skip_count cmd \<noteq> 0 \<and> snd (snd s) = 0 then Some s
       else Option.bind (bulk_stage s) tail_stage);
     Some (fst s)
   }"

definition ide_count_sector :: "k_dev_dsk_ide_cmd_t \<Rightarrow> k_dev_dsk_ide_cmd_t" where
  "ide_count_sector cmd = (
     let cmd = cmd\<lparr>sector_count := (sector_count cmd + 2 ^ 16 - 1) mod 2 ^ 16\<rparr>;
       cmd = (if cmd_address cmd = cmd_size cmd then cmd\<lparr>condition := True\<rparr> else cmd)
     in if sector_count cmd = 0 then cmd\<lparr>transfer_condition := True\<rparr> else cmd)"

definition k_IDE_InterruptHandler ::
    "nat \<Rightarrow> u8 \<Rightarrow> u16 list \<Rightarrow> k_dev_dsk_ide_cmd_t \<Rightarrow> k_dev_dsk_ide_cmd_t option" where
  "k_IDE_InterruptHandler block_size status port cmd =
     (if status AND K_IDE_STATUS_FLAG_ERROR \<noteq> 0 then Some (cmd\<lparr>condition := True\<rparr>)
      else map_option ide_count_sector
        (if cmd_type cmd \<in> {K_DEV_DSK_CMD_TYPE_READ, K_DEV_DSK_CMD_TYPE_IDENTIFY}
         then ide_read_interrupt block_size cmd port else Some cmd))"

section \<open>Reading\<close>

text \<open>The register writes that issue one read command.\<close>

definition ide_issue_read :: "u32 \<Rightarrow> nat \<Rightarrow> (nat \<times> u8) list" where
  "ide_issue_read first_block count =
     [(K_IDE_CMD_REG_SEC_NUMBER, ucast (first_block AND 0xff)),
      (K_IDE_CMD_REG_CYL_LOW, ucast (drop_bit 8 first_block AND 0xff)),
      (K_IDE_CMD_REG_CYL_HI, ucast (drop_bit 16 first_block AND 0xff)),
      (K_IDE_CMD_REG_DRV_HEAD, ucast ((drop_bit 24 first_block AND 0x0f) OR 0xe0)),
      (K_IDE_CMD_REG_SEC_COUNT, word_of_nat count),
      (K_IDE_CMD_REG_CMD, K_IDE_CMD_READ_SEC_NR)]"

text \<open>
  The loop over the commands of a request. \<open>controller\<close> is what the controller and the interrupt
  handler do to the command from the issue to the last interrupt; the thread then waits for the
  transfer condition, which nobody sets if the handler did not.
\<close>

function ide_read_loop ::
    "((nat \<times> u8) list \<Rightarrow> k_dev_dsk_ide_cmd_t \<Rightarrow> k_dev_dsk_ide_cmd_t option) \<Rightarrow> nat \<Rightarrow> nat \<Rightarrow>
     k_dev_dsk_ide_cmd_t \<Rightarrow> k_dev_dsk_ide_cmd_t option" where
  "ide_read_loop controller first_block block_count cmd =
     (if block_count = 0 then Some cmd
      else do {
        let n = min block_count K_DEV_IDE_MAX_SECTORS_PER_CMD;
        cmd \<leftarrow> controller (ide_issue_read (word_of_nat first_block) n)
          (cmd\<lparr>transfer_condition := False, sector_count := n\<rparr>);
        if transfer_condition cmd then ide_read_loop controller (first_block + n) (block_count - n) cmd
        else None
      })"
  by auto
termination
  by (relation "measure (\<lambda>(_, _, n, _). n)") (auto simp: K_DEV_IDE_MAX_SECTORS_PER_CMD_def)

declare ide_read_loop.simps [simp del]

definition ide_last_block :: "nat \<Rightarrow> nat \<Rightarrow> nat" where
  "ide_last_block block_size e =
     unat ((word_of_nat e + word_of_nat block_size - 1) AND NOT (word_of_nat block_size - 1) :: u32) div block_size"

definition k_IDE_Read ::
    "((nat \<times> u8) list \<Rightarrow> k_dev_dsk_ide_cmd_t \<Rightarrow> k_dev_dsk_ide_cmd_t option) \<Rightarrow> nat \<Rightarrow>
     k_dev_dsk_ide_cmd_t \<Rightarrow> k_dev_dsk_ide_cmd_t option" where
  "k_IDE_Read controller block_size cmd = (
     let first_block = cmd_address cmd div block_size;
       last_block = ide_last_block block_size (cmd_address cmd + cmd_size cmd);
       block_count = sub32 last_block first_block
     in if block_count \<noteq> 0 then
          ide_read_loop controller first_block block_count
            (cmd\<lparr>skip_count := cmd_address cmd mod 512, cmd_address := 0\<rparr>)
        else Some (cmd\<lparr>condition := True\<rparr>))"

section \<open>The controller\<close>

text \<open>
  The addressed sector and the sector count of a read command in the command block: 28 bits of
  logical block address, and a count of zero for 256 sectors. The controller raises an
  interrupt per sector, with the sector's words in the data register and no error.
\<close>

definition ata_lba :: "(nat \<times> u8) list \<Rightarrow> nat option" where
  "ata_lba regs = do {
     s \<leftarrow> map_of regs K_IDE_CMD_REG_SEC_NUMBER;
     l \<leftarrow> map_of regs K_IDE_CMD_REG_CYL_LOW;
     h \<leftarrow> map_of regs K_IDE_CMD_REG_CYL_HI;
     d \<leftarrow> map_of regs K_IDE_CMD_REG_DRV_HEAD;
     Some (unat s + 2 ^ 8 * unat l + 2 ^ 16 * unat h + 2 ^ 24 * (unat d mod 16))
   }"

definition ata_count :: "(nat \<times> u8) list \<Rightarrow> nat option" where
  "ata_count regs = map_option (\<lambda>n. if n = 0 then 256 else unat n) (map_of regs K_IDE_CMD_REG_SEC_COUNT)"

fun words_of :: "bytes \<Rightarrow> u16 list" where
  "words_of (l # h # bs) = (ucast l OR push_bit 8 (ucast h)) # words_of bs"
| "words_of bs = []"

definition sector_words :: "bytes \<Rightarrow> nat \<Rightarrow> u16 list option" where
  "sector_words m b = (if 512 * b + 512 \<le> length m then Some (words_of (take 512 (drop (512 * b) m))) else None)"

fun run_sectors :: "bytes \<Rightarrow> nat \<Rightarrow> nat \<Rightarrow> k_dev_dsk_ide_cmd_t \<Rightarrow> k_dev_dsk_ide_cmd_t option" where
  "run_sectors m b 0 cmd = Some cmd"
| "run_sectors m b (Suc n) cmd = do {
     port \<leftarrow> sector_words m b;
     cmd \<leftarrow> k_IDE_InterruptHandler 512 0x58 port cmd;
     run_sectors m (b + 1) n cmd
   }"

definition ata_controller ::
    "bytes \<Rightarrow> (nat \<times> u8) list \<Rightarrow> k_dev_dsk_ide_cmd_t \<Rightarrow> k_dev_dsk_ide_cmd_t option" where
  "ata_controller m regs cmd = do {
     b \<leftarrow> ata_lba regs;
     n \<leftarrow> ata_count regs;
     run_sectors m b n cmd
   }"

text \<open>The driver as the disk layer calls it.\<close>

definition ide_cmd_of :: "k_dev_dsk_cmd_t \<Rightarrow> k_dev_dsk_ide_cmd_t" where
  "ide_cmd_of cmd =
     k_dev_dsk_cmd_t.extend cmd \<lparr>transfer_condition = False, skip_count = 0, sector_count = 0\<rparr>"

definition ide_disk_read :: k_dev_disk_func_t where
  "ide_disk_read start cmd m =
     map_option (\<lambda>c. (k_dev_dsk_cmd_t.truncate c, m))
       (k_IDE_Read (ata_controller m) 512 (ide_cmd_of cmd))"


section \<open>One sector\<close>

lemma discard_words_drop:
  "discard_words n port = (if n \<le> length port then Some (drop n port) else None)"
proof (induction n arbitrary: port)
  case 0
  then show ?case by simp
next
  case (Suc n)
  then show ?case by (cases port) (simp_all add: read_word_def)
qed

lemma low_high:
  "low_byte (ucast l OR push_bit 8 (ucast h)) = l" "high_byte (ucast l OR push_bit 8 (ucast h)) = h"
  by (auto simp: low_byte_def high_byte_def bit_eq_iff bit_simps not_bit_byte dest: bit_imp_le_length)

lemma words_of_append:
  "even (length xs) \<Longrightarrow> words_of (xs @ ys) = words_of xs @ words_of ys"
  by (induction xs rule: words_of.induct) auto

lemma length_words_of: "length (words_of bs) = length bs div 2"
  by (induction bs rule: words_of.induct) auto

lemma word_bytes_words_of: "even (length bs) \<Longrightarrow> word_bytes (words_of bs) = bs"
  by (induction bs rule: words_of.induct) (auto simp: word_bytes_def low_high)

lemma words_of_split:
  assumes "even n" "n \<le> length bs"
  shows "take (n div 2) (words_of bs) = words_of (take n bs) \<and>
    drop (n div 2) (words_of bs) = words_of (drop n bs)"
proof -
  have "words_of bs = words_of (take n bs) @ words_of (drop n bs)"
    using words_of_append [of "take n bs" "drop n bs"] assms by simp
  then show ?thesis using assms by (simp add: length_words_of)
qed

lemma read_string_words:
  assumes "cmd_buffer cmd = Some (a, buf)" "even n" "n \<le> length bs" "even (length bs)"
  shows "read_string (n div 2) (cmd, words_of bs) =
    (if cmd_address cmd + n \<le> length buf
     then Some (cmd\<lparr>cmd_buffer := Some (a, blit buf (cmd_address cmd) (take n bs)),
       cmd_address := cmd_address cmd + n\<rparr>, words_of (drop n bs))
     else None)"
  using assms words_of_split [OF assms(2,3)] word_bytes_words_of [of "take n bs"]
  by (auto simp: read_string_def length_words_of copy_bytes_def div_le_mono)

lemma ide_interrupt_even:
  assumes b: "cmd_buffer cmd = Some (a, buf)" "length sec = 512"
    and e: "even (skip_count cmd)" "skip_count cmd < 512" "even (cmd_address cmd)" "even (cmd_size cmd)"
    and n: "n = min (512 - skip_count cmd) (cmd_size cmd)"
  shows "ide_read_interrupt 512 cmd (words_of sec) =
    (if cmd_address cmd + n \<le> length buf
     then Some (cmd\<lparr>skip_count := 0, cmd_buffer := Some (a, blit buf (cmd_address cmd) (take n (drop (skip_count cmd) sec))),
       cmd_address := cmd_address cmd + n\<rparr>)
     else None)"
proof -
  let ?s = "skip_count cmd" and ?rest = "drop (skip_count cmd) sec"
  let ?c = "cmd\<lparr>skip_count := 0\<rparr>"
  have s: "?s div 2 * 2 = ?s" "512 - ?s \<noteq> 0" "1 < 512 - ?s" "even (512 - ?s)" using e by presburger+
  have sk: "skip_stage (cmd, words_of sec, 512) = Some (?c, words_of ?rest, 512 - ?s)"
    using e s words_of_split [of ?s sec] b
    by (cases "?s = 0") (simp_all add: skip_stage_def discard_words_drop length_words_of sub32_le)
  have m: "min ((512 - ?s) div 2) (cmd_size cmd div 2) = n div 2" "even n" "n \<le> 512 - ?s"
    using e s(4) unfolding n by (auto simp: min_def elim!: evenE)
  have bulk: "bulk_stage (?c, words_of ?rest, 512 - ?s) =
     (if cmd_address cmd + n \<le> length buf
      then Some (?c\<lparr>cmd_buffer := Some (a, blit buf (cmd_address cmd) (take n ?rest)),
        cmd_address := cmd_address cmd + n\<rparr>, words_of (drop n ?rest), 512 - ?s - n) else None)"
    using read_string_words [of ?c a buf n ?rest] s m b e
    by (auto simp: bulk_stage_def sub32_le)
  have "even (512 - ?s - n)" using s(4) m(2) by (rule dvd_diff_nat)
  then have t: "512 - ?s - n \<noteq> 1" by (metis odd_one)
  have "(512 - ?s - n) div 2 \<le> length (words_of (drop n ?rest))"
    unfolding length_words_of length_drop b(2) by simp
  note t = t this
  have tail: "tail_stage (x, words_of (drop n ?rest), 512 - ?s - n) =
      Some (x, drop ((512 - ?s - n) div 2) (words_of (drop n ?rest)), 512 - ?s - n)" for x
    using t by (simp add: tail_stage_def discard_words_drop)
  show ?thesis
    using s(2) by (simp add: ide_read_interrupt_def sk bulk tail del: drop_drop diff_diff_left)
qed


section \<open>Identification\<close>

text \<open>
  The words of \<open>struct k_ide_info_t\<close> that \<open>k_IDE_Identify\<close> reads back from its buffer; the result is
  the block size and the block count of the disk. The driver spins until the handler has set the
  condition, which is the value \<open>None\<close> when it does not.
\<close>

definition ide_info_word :: "bytes \<Rightarrow> nat \<Rightarrow> u16" where
  "ide_info_word buf i = ucast (buf ! (2 * i)) OR push_bit 8 (ucast (buf ! (2 * i + 1)))"

definition k_IDE_Identify :: "u16 list \<Rightarrow> nat \<Rightarrow> (nat \<times> u32) option" where
  "k_IDE_Identify port id_addr = do {
     let id_cmd = (ide_cmd_of (local_cmd (Some (id_addr, replicate 512 0)) 0 512))
       \<lparr>cmd_type := K_DEV_DSK_CMD_TYPE_IDENTIFY, sector_count := 1\<rparr>;
     cmd \<leftarrow> k_IDE_InterruptHandler 512 0x58 port id_cmd;
     (_, ide_info) \<leftarrow> cmd_buffer cmd;
     if \<not> condition cmd then None
     else Some (unat (ide_info_word ide_info 5),
       push_bit 16 (ucast (ide_info_word ide_info 59)) OR ucast (ide_info_word ide_info 60))
   }"

lemma words_of_word_bytes: "words_of (word_bytes ws) = ws"
proof (induction ws)
  case Nil
  then show ?case by (simp add: word_bytes_def)
next
  case (Cons w ws)
  have "ucast (low_byte w) OR push_bit 8 (ucast (high_byte w)) = w"
    by (rule bit_eqI) (auto simp: low_byte_def high_byte_def bit_simps not_bit_byte)
  with Cons show ?case by (simp add: word_bytes_def)
qed

lemma length_word_bytes: "length (word_bytes ws) = 2 * length ws"
  by (induction ws) (simp_all add: word_bytes_def)

lemma nth_words_of: "2 * i + 1 < length bs \<Longrightarrow> words_of bs ! i = ide_info_word bs i"
proof (induction bs arbitrary: i rule: words_of.induct)
  case (1 l h bs)
  then show ?case by (cases i) (auto simp: ide_info_word_def)
qed (auto simp: ide_info_word_def)

lemma k_IDE_Identify_words:
  assumes "length ws = 256"
  shows "k_IDE_Identify ws a = Some (unat (ws ! 5), push_bit 16 (ucast (ws ! 59)) OR ucast (ws ! 60))"
proof -
  let ?c = "(ide_cmd_of (local_cmd (Some (a, replicate 512 0)) 0 512))
       \<lparr>cmd_type := K_DEV_DSK_CMD_TYPE_IDENTIFY, sector_count := 1\<rparr>"
  have f: "cmd_buffer ?c = Some (a, replicate 512 0)" "skip_count ?c = 0" "cmd_address ?c = 0" "cmd_size ?c = 512"
      "cmd_type ?c = K_DEV_DSK_CMD_TYPE_IDENTIFY"
    by (simp_all add: ide_cmd_of_def k_dev_dsk_cmd_t.defs local_cmd_def)
  have l: "length (word_bytes ws) = 512" using assms by (simp add: length_word_bytes)
  have ev: "even (skip_count ?c)" "skip_count ?c < 512" "even (cmd_address ?c)" "even (cmd_size ?c)"
    unfolding f by simp_all
  have "ide_read_interrupt 512 ?c ws = Some (?c\<lparr>skip_count := 0,
      cmd_buffer := Some (a, word_bytes ws), cmd_address := 512\<rparr>)"
    using ide_interrupt_even [OF f(1) l ev refl] unfolding f words_of_word_bytes
    by (simp add: l blit_def)
  then have run: "k_IDE_InterruptHandler 512 0x58 ws ?c = Some (ide_count_sector (?c\<lparr>skip_count := 0,
      cmd_buffer := Some (a, word_bytes ws), cmd_address := 512\<rparr>))"
    using f(5) by (simp add: k_IDE_InterruptHandler_def K_IDE_STATUS_FLAG_ERROR_def)
  have w: "ide_info_word (word_bytes ws) i = ws ! i" if "i < 256" for i
    using nth_words_of [of i "word_bytes ws"] that l by (simp add: words_of_word_bytes)
  show ?thesis using run f(4) by (simp add: k_IDE_Identify_def Let_def w ide_count_sector_def)
qed

section \<open>A run of sectors\<close>

text \<open>
  The command on its way through the medium \<open>m\<close>, about to receive sector \<open>b\<close>: from the first
  byte \<open>A\<close> of the request, everything before the sector is in the buffer.
\<close>

definition ide_at ::
    "bytes \<Rightarrow> nat \<Rightarrow> k_dev_dsk_ide_cmd_t \<Rightarrow> nat \<Rightarrow> bytes \<Rightarrow> nat \<Rightarrow> k_dev_dsk_ide_cmd_t \<Rightarrow> bool" where
  "ide_at m A cmd0 a buf b cmd \<longleftrightarrow>
     cmd_buffer cmd = Some (a, blit buf 0 (take (512 * b - A) (drop A m))) \<and>
     cmd_address cmd = 512 * b - A \<and> skip_count cmd = A - 512 * b \<and>
     cmd_size cmd = cmd_size cmd0 \<and> cmd_type cmd = cmd_type cmd0 \<and> cmd_page cmd = cmd_page cmd0"

lemma blit_extend:
  assumes "i = length xs" "i + length ys \<le> length buf"
  shows "blit (blit buf 0 xs) i ys = blit buf 0 (xs @ ys)"
  using blit_blit [of 0 xs ys buf] assms by simp

lemma slice_extend:
  "take i xs @ take j (drop i xs) = take (i + j) xs"
  by (simp add: take_add)

lemma slice_sector:
  assumes "s + n \<le> 512"
  shows "take n (drop s (take 512 (drop (512 * b) m))) = take n (drop (512 * b + s) m)"
  using assms by (simp add: drop_take take_take min_def add.commute)

lemma ide_sector_step:
  assumes at: "ide_at m A cmd0 a buf b cmd" and ty: "cmd_type cmd0 = K_DEV_DSK_CMD_TYPE_READ"
    and e: "even A" "even (cmd_size cmd0)" "A < 512 * b + 512"
    and m: "512 * b + 512 \<le> length m"
    and n: "n = min (512 - (A - 512 * b)) (cmd_size cmd0)"
    and fit: "512 * b - A + n \<le> length buf"
  shows "k_IDE_InterruptHandler 512 0x58 (words_of (take 512 (drop (512 * b) m))) cmd =
    Some (ide_count_sector (cmd\<lparr>skip_count := 0,
      cmd_buffer := Some (a, blit buf 0 (take (512 * b - A + n) (drop A m))), cmd_address := 512 * b - A + n\<rparr>))"
proof -
  let ?d = "512 * b - A" and ?s = "A - 512 * b" and ?sec = "take 512 (drop (512 * b) m)"
  have len: "length ?sec = 512" using m by simp
  have i: "cmd_buffer cmd = Some (a, blit buf 0 (take ?d (drop A m)))" "cmd_address cmd = ?d"
    "skip_count cmd = ?s" "cmd_size cmd = cmd_size cmd0" "cmd_type cmd = K_DEV_DSK_CMD_TYPE_READ"
    using at ty by (simp_all add: ide_at_def)
  have l: "length (take ?d (drop A m)) = ?d" using m by simp
  have lb: "length (blit buf 0 (take ?d (drop A m))) = length buf" using fit l by (intro length_blit) simp
  have sn: "?s + n \<le> 512" "512 * b + ?s = A + ?d" using n e(3) by (auto simp: min_def)
  then have sl: "take n (drop ?s ?sec) = take n (drop ?d (drop A m))"
    using slice_sector [OF sn(1), of b m] by (simp add: add.commute)
  have ln: "length (take n (drop ?s ?sec)) = n" using len sn by simp
  have "blit (blit buf 0 (take ?d (drop A m))) ?d (take n (drop ?s ?sec)) =
      blit buf 0 (take ?d (drop A m) @ take n (drop ?s ?sec))"
    by (rule blit_extend) (use l ln fit in simp_all)
  then have full: "blit (blit buf 0 (take ?d (drop A m))) ?d (take n (drop ?s ?sec)) =
      blit buf 0 (take (?d + n) (drop A m))"
    by (simp only: sl slice_extend)
  have ev: "even (skip_count cmd)" "skip_count cmd < 512" "even (cmd_address cmd)" "even (cmd_size cmd)"
    unfolding i(2-4) using e by auto
  have n': "n = min (512 - skip_count cmd) (cmd_size cmd)" unfolding i(3,4) by (rule n)
  have "cmd_address cmd + n \<le> length (blit buf 0 (take ?d (drop A m)))"
    unfolding lb i(2) by (rule fit)
  then have "ide_read_interrupt 512 cmd (words_of ?sec) = Some (cmd\<lparr>skip_count := 0,
      cmd_buffer := Some (a, blit buf 0 (take (?d + n) (drop A m))), cmd_address := ?d + n\<rparr>)"
    using ide_interrupt_even [OF i(1) len ev n'] full by (simp only: if_True i(2,3))
  then show ?thesis using i(5) by (simp add: k_IDE_InterruptHandler_def K_IDE_STATUS_FLAG_ERROR_def)
qed


lemma ide_full_step:
  assumes at: "ide_at m A cmd0 a buf b cmd" and ty: "cmd_type cmd0 = K_DEV_DSK_CMD_TYPE_READ"
    and e: "even A" "even (cmd_size cmd0)" "A < 512 * b + 512"
    and m: "512 * b + 512 \<le> length m" "512 * b + 512 \<le> A + cmd_size cmd0"
      "512 * b + 512 - A \<le> length buf"
    and k: "sector_count cmd = Suc k" "k < 2 ^ 16 - 1"
  shows "\<exists>c. k_IDE_InterruptHandler 512 0x58 (words_of (take 512 (drop (512 * b) m))) cmd = Some c \<and>
    ide_at m A cmd0 a buf (b + 1) c \<and> sector_count c = k \<and>
    transfer_condition c = (transfer_condition cmd \<or> k = 0) \<and>
    condition c = (condition cmd \<or> 512 * b + 512 = A + cmd_size cmd0)"
proof -
  let ?n = "512 - (A - 512 * b)"
  have n: "?n = min (512 - (A - 512 * b)) (cmd_size cmd0)" "512 * b - A + ?n = 512 * b + 512 - A"
    using m(2) e(3) by (auto simp: min_def)
  let ?c = "cmd\<lparr>skip_count := 0, cmd_buffer := Some (a, blit buf 0 (take (512 * b + 512 - A) (drop A m))),
    cmd_address := 512 * b + 512 - A\<rparr>"
  have run: "k_IDE_InterruptHandler 512 0x58 (words_of (take 512 (drop (512 * b) m))) cmd =
      Some (ide_count_sector ?c)"
    using ide_sector_step [OF at ty e m(1) n(1)] m(3) unfolding n(2) by simp
  have size: "cmd_size ?c = cmd_size cmd0" "cmd_type ?c = cmd_type cmd0" "cmd_page ?c = cmd_page cmd0"
    using at by (simp_all add: ide_at_def)
  have f: "512 * b + 512 - A = cmd_size cmd0 \<longleftrightarrow> 512 * b + 512 = A + cmd_size cmd0"
    using e(3) by auto
  have sc: "(sector_count ?c + 2 ^ 16 - 1) mod 2 ^ 16 = k" using k by simp
  have cs: "ide_count_sector ?c = ?c\<lparr>sector_count := k,
      condition := condition cmd \<or> 512 * b + 512 = A + cmd_size cmd0,
      transfer_condition := transfer_condition cmd \<or> k = 0\<rparr>"
    unfolding ide_count_sector_def Let_def sc using size(1) f by auto
  have e1: "512 * (b + 1) - A = 512 * b + 512 - A" "A - 512 * (b + 1) = 0" using e(3) by auto
  have "ide_at m A cmd0 a buf (b + 1) (ide_count_sector ?c)"
    unfolding ide_at_def cs e1 using size by simp
  then show ?thesis using run cs by simp
qed

lemma run_sectors_append:
  "run_sectors m b (i + j) cmd = Option.bind (run_sectors m b i cmd) (run_sectors m (b + i) j)"
  by (induction i arbitrary: b cmd) (auto split: Option.bind_split)

lemma run_sectors_full:
  assumes "ide_at m A cmd0 a buf b cmd" "cmd_type cmd0 = K_DEV_DSK_CMD_TYPE_READ"
    and "even A" "even (cmd_size cmd0)" "A < 512 * b + 512"
    and "512 * (b + n) \<le> length m" "512 * (b + n) \<le> A + cmd_size cmd0" "512 * (b + n) - A \<le> length buf"
    and "sector_count cmd = n + k" "n + k < 2 ^ 16"
  shows "\<exists>c. run_sectors m b n cmd = Some c \<and> ide_at m A cmd0 a buf (b + n) c \<and> sector_count c = k \<and>
    transfer_condition c = (transfer_condition cmd \<or> 0 < n \<and> k = 0) \<and>
    condition c = (condition cmd \<or> 0 < n \<and> 512 * (b + n) = A + cmd_size cmd0)"
  using assms
proof (induction n arbitrary: b cmd)
  case 0
  then show ?case by simp
next
  case (Suc n)
  have le: "512 * b + 512 \<le> length m" "512 * b + 512 \<le> A + cmd_size cmd0" "512 * b + 512 - A \<le> length buf"
    using Suc.prems(6-8) by auto
  have sc: "sector_count cmd = Suc (n + k)" "n + k < 2 ^ 16 - 1" using Suc.prems(9,10) by auto
  obtain c where c: "k_IDE_InterruptHandler 512 0x58 (words_of (take 512 (drop (512 * b) m))) cmd = Some c"
      "ide_at m A cmd0 a buf (b + 1) c" "sector_count c = n + k"
      "transfer_condition c = (transfer_condition cmd \<or> n + k = 0)"
      "condition c = (condition cmd \<or> 512 * b + 512 = A + cmd_size cmd0)"
    using ide_full_step [OF Suc.prems(1-5) le sc] by blast
  have "sector_words m b = Some (words_of (take 512 (drop (512 * b) m)))"
    using le(1) by (simp add: sector_words_def)
  then have run: "run_sectors m b (Suc n) cmd = run_sectors m (b + 1) n c" using c(1) by simp
  have "\<exists>d. run_sectors m (b + 1) n c = Some d \<and> ide_at m A cmd0 a buf (b + 1 + n) d \<and> sector_count d = k \<and>
    transfer_condition d = (transfer_condition c \<or> 0 < n \<and> k = 0) \<and>
    condition d = (condition c \<or> 0 < n \<and> 512 * (b + 1 + n) = A + cmd_size cmd0)"
    by (rule Suc.IH [OF c(2) Suc.prems(2-4)]) (use Suc.prems c(3) in auto)
  moreover have "512 * b + 512 = A + cmd_size cmd0 \<longleftrightarrow> n = 0 \<and> 512 * (b + Suc n) = A + cmd_size cmd0"
    using Suc.prems(7) by auto
  ultimately show ?case unfolding run using c(4,5) by (cases "n = 0") auto
qed

section \<open>A request\<close>

lemma len8: "LENGTH(8) = 8"
  by simp

lemma u32_take: "take_bit LENGTH(32) (unat (w :: u32)) = unat w"
  using unsigned_less [of w] by (intro take_bit_nat_eq_self) simp

lemma digits_sum:
  "b = r0 + 256 * q1 \<Longrightarrow> q1 = r1 + 256 * q2 \<Longrightarrow> q2 = r2 + 256 * q3 \<Longrightarrow>
   r0 + 2 ^ 8 * r1 + 2 ^ 16 * r2 + 2 ^ 24 * q3 = (b :: nat)"
  by simp

lemma byte_of_word: "unat (ucast (drop_bit k w AND 0xff :: u32) :: u8) = unat w div 2 ^ k mod 256"
proof -
  have m: "(0xff :: u32) = mask 8" by (simp add: mask_eq_exp_minus_1)
  have "unat (ucast (drop_bit k w AND 0xff :: u32) :: u8) = take_bit 8 (take_bit 8 (drop_bit k (unat w)))"
    by (simp only: m take_bit_eq_mask [symmetric] unsigned_ucast_eq unsigned_take_bit_eq
        unsigned_drop_bit_eq u32_take len8)
  then show ?thesis by (simp add: drop_bit_eq_div take_bit_eq_mod)
qed

lemma head_of_word:
  "unat (ucast ((drop_bit 24 w AND 0x0f) OR 0xe0 :: u32) :: u8) mod 16 = unat w div 2 ^ 24 mod 16"
proof -
  have m: "(0x0f :: u32) = mask 4" by (simp add: mask_eq_exp_minus_1)
  have "unat (ucast ((drop_bit 24 w AND 0x0f) OR 0xe0 :: u32) :: u8) =
      take_bit 8 (take_bit 4 (drop_bit 24 (unat w)) OR 0xe0)"
    by (simp only: m take_bit_eq_mask [symmetric] unsigned_ucast_eq unsigned_take_bit_eq
        unsigned_drop_bit_eq unsigned_or_eq u32_take len8) simp
  moreover have "take_bit 4 (take_bit 8 (take_bit 4 x OR 0xe0)) = take_bit 4 (x :: nat)" for x
    by (simp only: take_bit_take_bit take_bit_or) simp
  ultimately have "take_bit 4 (unat (ucast ((drop_bit 24 w AND 0x0f) OR 0xe0 :: u32) :: u8)) =
      take_bit 4 (drop_bit 24 (unat w))" by (simp only:)
  then show ?thesis by (simp add: drop_bit_eq_div take_bit_eq_mod)
qed

lemma lba_digits:
  assumes "b < 2 ^ 28"
  shows "b mod 256 + 2 ^ 8 * (b div 2 ^ 8 mod 256) + 2 ^ 16 * (b div 2 ^ 16 mod 256) +
    2 ^ 24 * (b div 2 ^ 24 mod 16) = (b :: nat)"
proof -
  have d: "b div 2 ^ 8 = b div 256" "b div 2 ^ 16 = b div 256 div 256" "b div 2 ^ 24 = b div 256 div 256 div 256"
    by (simp_all add: div_mult2_eq [symmetric])
  have "b div 2 ^ 24 mod 16 = b div 2 ^ 24" using assms by simp
  then show ?thesis unfolding d by (simp only:) (rule digits_sum; rule mod_mult_div_eq [symmetric])
qed

lemma ata_issue_read:
  assumes "b < 2 ^ 28" "0 < n" "n \<le> 256"
  shows "ata_lba (ide_issue_read (word_of_nat b) n) = Some b" "ata_count (ide_issue_read (word_of_nat b) n) = Some n"
proof -
  have "unat (word_of_nat b :: u32) = b" using assms(1) by (simp add: unat_of_nat)
  then show "ata_lba (ide_issue_read (word_of_nat b) n) = Some b"
    using lba_digits [OF assms(1)] byte_of_word [of 0 "word_of_nat b"] byte_of_word [of 8 "word_of_nat b"]
      byte_of_word [of 16 "word_of_nat b"] head_of_word [of "word_of_nat b"]
    by (simp add: ata_lba_def ide_issue_read_def K_IDE_CMD_REG_SEC_NUMBER_def K_IDE_CMD_REG_CYL_LOW_def
        K_IDE_CMD_REG_CYL_HI_def K_IDE_CMD_REG_DRV_HEAD_def)
  have "(word_of_nat n :: u8) = 0 \<longleftrightarrow> n = 256" using assms(2,3)
    by (auto simp: word_of_nat_eq_0_iff)
  moreover have "n < 256 \<Longrightarrow> unat (word_of_nat n :: u8) = n" by (simp add: unat_of_nat)
  ultimately show "ata_count (ide_issue_read (word_of_nat b) n) = Some n" using assms(3)
    by (auto simp: ata_count_def ide_issue_read_def K_IDE_CMD_REG_SEC_NUMBER_def K_IDE_CMD_REG_CYL_LOW_def
        K_IDE_CMD_REG_CYL_HI_def K_IDE_CMD_REG_DRV_HEAD_def K_IDE_CMD_REG_SEC_COUNT_def)
qed


lemma ide_read_loop_0: "ide_read_loop f b 0 cmd = Some cmd"
  by (simp add: ide_read_loop.simps)

lemma ide_read_loop_step:
  assumes "0 < n" "b < 2 ^ 28" "k = min n 256"
  shows "ide_read_loop (ata_controller m) b n cmd =
    Option.bind (run_sectors m b k (cmd\<lparr>transfer_condition := False, sector_count := k\<rparr>))
      (\<lambda>c. if transfer_condition c then ide_read_loop (ata_controller m) (b + k) (n - k) c else None)"
  using assms(1,2) ata_issue_read [OF assms(2), of k] unfolding assms(3)
  by (subst ide_read_loop.simps)
    (simp add: K_DEV_IDE_MAX_SECTORS_PER_CMD_def ata_controller_def Let_def)

lemma ide_at_counts:
  "ide_at m A cmd0 a buf b (cmd\<lparr>transfer_condition := t, sector_count := k\<rparr>) = ide_at m A cmd0 a buf b cmd"
  by (simp add: ide_at_def)

lemma ide_read_loop_full:
  assumes "ide_at m A cmd0 a buf b cmd" "cmd_type cmd0 = K_DEV_DSK_CMD_TYPE_READ"
    and "even A" "even (cmd_size cmd0)" "A < 512 * b + 512"
    and "512 * (b + n) \<le> length m" "512 * (b + n) \<le> A + cmd_size cmd0" "512 * (b + n) - A \<le> length buf"
    and "b + n \<le> 2 ^ 28"
  shows "\<exists>c. ide_read_loop (ata_controller m) b n cmd = Some c \<and> ide_at m A cmd0 a buf (b + n) c \<and>
    condition c = (condition cmd \<or> 0 < n \<and> 512 * (b + n) = A + cmd_size cmd0)"
  using assms
proof (induction n arbitrary: b cmd rule: less_induct)
  case (less n)
  show ?case
  proof (cases "n = 0")
    case True
    then show ?thesis using less.prems(1) by (simp add: ide_read_loop_0)
  next
    case False
    define k where "k = min n 256"
    have k: "0 < k" "k \<le> n" "k \<le> 256" "n - k < n" "b + k + (n - k) = b + n" using False by (auto simp: k_def)
    let ?cmd = "cmd\<lparr>transfer_condition := False, sector_count := k\<rparr>"
    have "\<exists>c. run_sectors m b k ?cmd = Some c \<and> ide_at m A cmd0 a buf (b + k) c \<and> sector_count c = 0 \<and>
      transfer_condition c = (transfer_condition ?cmd \<or> 0 < k \<and> (0::nat) = 0) \<and>
      condition c = (condition ?cmd \<or> 0 < k \<and> 512 * (b + k) = A + cmd_size cmd0)"
      by (rule run_sectors_full) (use less.prems k in \<open>auto simp: ide_at_counts\<close>)
    then obtain c where c: "run_sectors m b k ?cmd = Some c" "ide_at m A cmd0 a buf (b + k) c"
        "transfer_condition c" "condition c = (condition cmd \<or> 512 * (b + k) = A + cmd_size cmd0)"
      using k(1) by auto
    have run: "ide_read_loop (ata_controller m) b n cmd = ide_read_loop (ata_controller m) (b + k) (n - k) c"
      using ide_read_loop_step [of n b k m cmd] False less.prems(9) k c(1,3)
      by (simp add: k_def)
    have "\<exists>d. ide_read_loop (ata_controller m) (b + k) (n - k) c = Some d \<and>
      ide_at m A cmd0 a buf (b + k + (n - k)) d \<and>
      condition d = (condition c \<or> 0 < n - k \<and> 512 * (b + k + (n - k)) = A + cmd_size cmd0)"
      by (rule less.IH [OF k(4) c(2)]) (use less.prems k in \<open>auto\<close>)
    moreover have "512 * (b + k) = A + cmd_size cmd0 \<longleftrightarrow> n - k = 0 \<and> 512 * (b + n) = A + cmd_size cmd0"
      using less.prems(7) k by auto
    ultimately show ?thesis unfolding run k(5) using c(4) False k by (cases "n = k") auto
  qed
qed


section \<open>Reads that succeed and reads that overrun\<close>

lemma ide_last_block_up:
  assumes "e + 511 < 2 ^ 32"
  shows "ide_last_block 512 e = (e + 511) div 512"
proof -
  have m: "(word_of_nat 512 - 1 :: u32) = mask 9" by (simp add: mask_eq_exp_minus_1)
  have w: "word_of_nat e + word_of_nat 512 - 1 = (word_of_nat (e + 511) :: u32)" by simp
  have u: "unat (word_of_nat (e + 511) :: u32) = e + 511" using assms by (simp add: unat_of_nat del: of_nat_add)
  have "unat (word_of_nat (e + 511) AND NOT (mask 9) :: u32) = take_bit 32 (push_bit 9 (drop_bit 9 (e + 511)))"
    using take_bit_nat_eq_self [of "e + 511" 32] assms
    by (simp only: and_not_mask unsigned_push_bit_eq unsigned_drop_bit_eq u u32_take) simp
  moreover have "push_bit 9 (drop_bit 9 (e + 511)) = (e + 511) div 512 * 512"
    by (simp add: push_bit_eq_mult drop_bit_eq_div)
  moreover have "(e + 511) div 512 * 512 < 2 ^ 32" using assms by simp
  ultimately show ?thesis unfolding ide_last_block_def m w by (simp add: take_bit_nat_eq_self)
qed

text \<open>The sectors of a request of \<open>S\<close> bytes at \<open>A\<close>.\<close>

lemma k_IDE_Read_start:
  assumes c: "cmd_address cmd = A" "cmd_size cmd = S" "cmd_buffer cmd = Some (a, buf)"
    and s: "0 < S" "A + S + 511 < 2 ^ 32"
  shows "k_IDE_Read f 512 cmd = ide_read_loop f (A div 512) ((A + S + 511) div 512 - A div 512)
      (cmd\<lparr>skip_count := A mod 512, cmd_address := 0\<rparr>)"
    and "ide_at m A cmd a buf (A div 512) (cmd\<lparr>skip_count := A mod 512, cmd_address := 0\<rparr>)"
proof -
  have "(A + 512) div 512 \<le> (A + S + 511) div 512" using s(1) by (intro div_le_mono) simp
  then have lt: "A div 512 < (A + S + 511) div 512" by simp
  have "(A + S + 511) div 512 < 2 ^ 32" using s(2) by simp
  then have sub: "sub32 ((A + S + 511) div 512) (A div 512) = (A + S + 511) div 512 - A div 512"
    using lt by (intro sub32_le) auto
  have ne: "(A + S + 511) div 512 - A div 512 \<noteq> 0" using lt by (rule zero_less_diff [THEN iffD2, THEN gr_implies_not0])
  show "k_IDE_Read f 512 cmd = ide_read_loop f (A div 512) ((A + S + 511) div 512 - A div 512)
      (cmd\<lparr>skip_count := A mod 512, cmd_address := 0\<rparr>)"
    by (simp only: k_IDE_Read_def Let_def c ide_last_block_up [OF s(2)] sub ne not_False_eq_True if_True)
  have "512 * (A div 512) - A = 0" "A - 512 * (A div 512) = A mod 512"
    by (simp_all add: minus_mult_div_eq_mod)
  then show "ide_at m A cmd a buf (A div 512) (cmd\<lparr>skip_count := A mod 512, cmd_address := 0\<rparr>)"
    using c by (simp add: ide_at_def)
qed

lemma k_IDE_Read_aligned:
  assumes c: "cmd_address cmd = A" "cmd_size cmd = S" "cmd_buffer cmd = Some (a, buf)"
      "cmd_type cmd = K_DEV_DSK_CMD_TYPE_READ"
    and e: "even A" "0 < S" "512 dvd A + S" "A + S \<le> length m" "A + S + 511 < 2 ^ 32" "S \<le> length buf"
  shows "\<exists>d. k_IDE_Read (ata_controller m) 512 cmd = Some d \<and>
    cmd_buffer d = Some (a, blit buf 0 (take S (drop A m))) \<and> condition d \<and> cmd_page d = cmd_page cmd"
proof -
  let ?b = "A div 512" and ?c = "cmd\<lparr>skip_count := A mod 512, cmd_address := 0\<rparr>"
  obtain l where l: "A + S = 512 * l" using e(3) by auto
  have n: "(A + S + 511) div 512 = l" "?b < l" using l e(2) by (simp_all add: less_mult_imp_div_less)
  have bl: "?b + (l - ?b) = l" using n(2) by simp
  have "even (A + S)" unfolding l by simp
  then have ev: "even S" using e(1) by simp
  have lim: "l \<le> 2 ^ 28" using l e(5) by simp
  have g: "even (cmd_size cmd)" "A < 512 * ?b + 512" "512 * (?b + (l - ?b)) \<le> length m"
    "512 * (?b + (l - ?b)) \<le> A + cmd_size cmd" "512 * (?b + (l - ?b)) - A \<le> length buf" "?b + (l - ?b) \<le> 2 ^ 28"
    unfolding bl c(2) using ev e(4,6) l lim by simp_all
  obtain d where d: "ide_read_loop (ata_controller m) ?b (l - ?b) ?c = Some d" "ide_at m A cmd a buf l d"
      "condition d = (condition ?c \<or> 0 < l - ?b \<and> 512 * l = A + cmd_size cmd)"
    using ide_read_loop_full [OF k_IDE_Read_start(2) [OF c(1-3) e(2,5)] c(4) e(1) g] unfolding bl by blast
  have "condition d" unfolding d(3) c(2) using n(2) l by simp
  have "512 * l - A = S" using l by simp
  then show ?thesis
    using d(1,2) \<open>condition d\<close> unfolding k_IDE_Read_start(1) [OF c(1-3) e(2,5)] n(1) by (simp only: ide_at_def) blast
qed

lemma k_IDE_Read_one_sector:
  assumes c: "cmd_address cmd = A" "cmd_size cmd = S" "cmd_buffer cmd = Some (a, buf)"
      "cmd_type cmd = K_DEV_DSK_CMD_TYPE_READ"
    and e: "even A" "even S" "0 < S" "A + S \<le> 512 * (A div 512) + 512" "512 * (A div 512) + 512 \<le> length m"
      "A + S + 511 < 2 ^ 32" "S \<le> length buf"
  shows "\<exists>d. k_IDE_Read (ata_controller m) 512 cmd = Some d \<and>
    cmd_buffer d = Some (a, blit buf 0 (take S (drop A m))) \<and> condition d \<and> cmd_page d = cmd_page cmd"
proof -
  let ?b = "A div 512" and ?c = "cmd\<lparr>skip_count := A mod 512, cmd_address := 0\<rparr>"
  let ?d = "?c\<lparr>transfer_condition := False, sector_count := 1\<rparr>"
  have q: "512 * ?b \<le> A" by simp
  have "(A + S + 511) div 512 = ?b + 1" by (rule div_nat_eqI) (use e(3,4) q in simp_all)
  then have n: "(A + S + 511) div 512 - ?b = 1" by simp
  have at: "ide_at m A cmd a buf ?b ?d"
    using k_IDE_Read_start(2) [OF c(1-3) e(3,6), of m] unfolding ide_at_counts .
  have z: "512 * ?b - A = 0" "A - 512 * ?b = A mod 512" by (simp_all add: minus_mult_div_eq_mod)
  have m: "S = min (512 - (A - 512 * ?b)) (cmd_size cmd)" using e(4) c(2) by simp
  have g: "even (cmd_size cmd)" "A < 512 * ?b + 512" "512 * ?b - A + S \<le> length buf"
    unfolding c(2) z using e(2,7) by simp_all
  let ?e = "ide_count_sector (?d\<lparr>skip_count := 0, cmd_buffer := Some (a, blit buf 0 (take S (drop A m))),
        cmd_address := S\<rparr>)"
  have "k_IDE_InterruptHandler 512 0x58 (words_of (take 512 (drop (512 * ?b) m))) ?d = Some ?e"
    using ide_sector_step [OF at c(4) e(1) g(1,2) e(5) m g(3)] unfolding z by simp
  then have run: "run_sectors m ?b 1 ?d = Some ?e"
    using e(5) by (simp add: sector_words_def)
  have b: "?b < 2 ^ 28" using e(6) by simp
  have x: "transfer_condition ?e" "condition ?e" "cmd_page ?e = cmd_page cmd"
      "cmd_buffer ?e = Some (a, blit buf 0 (take S (drop A m)))"
    using c(2) by (simp_all add: ide_count_sector_def)
  have "ide_read_loop (ata_controller m) ?b 1 ?c = Option.bind (run_sectors m ?b 1 ?d)
      (\<lambda>c. if transfer_condition c then ide_read_loop (ata_controller m) (?b + 1) (1 - 1) c else None)"
    by (rule ide_read_loop_step [OF zero_less_one b]) simp
  then have "ide_read_loop (ata_controller m) ?b 1 ?c = Some ?e"
    unfolding run using x(1) by (simp add: ide_read_loop_0)
  then show ?thesis unfolding k_IDE_Read_start(1) [OF c(1-3) e(3,6)] n using x by blast
qed


lemma ide_sector_overrun:
  assumes at: "ide_at m A cmd0 a buf b cmd" and ty: "cmd_type cmd0 = K_DEV_DSK_CMD_TYPE_READ"
    and e: "even A" "even (cmd_size cmd0)" "A < 512 * b"
    and m: "512 * b + 512 \<le> length m" "512 * b - A \<le> length buf"
    and fit: "length buf < 512 * b - A + min 512 (cmd_size cmd0)"
  shows "k_IDE_InterruptHandler 512 0x58 (words_of (take 512 (drop (512 * b) m))) cmd = None"
proof -
  let ?d = "512 * b - A" and ?sec = "take 512 (drop (512 * b) m)"
  have z: "A - 512 * b = 0" using e(3) by simp
  have i: "cmd_buffer cmd = Some (a, blit buf 0 (take ?d (drop A m)))" "cmd_address cmd = ?d"
    "skip_count cmd = 0" "cmd_size cmd = cmd_size cmd0" "cmd_type cmd = K_DEV_DSK_CMD_TYPE_READ"
    using at ty z by (simp_all add: ide_at_def)
  have len: "length ?sec = 512" using m by simp
  have lb: "length (blit buf 0 (take ?d (drop A m))) = length buf" using m by (intro length_blit) simp
  have ev: "even (skip_count cmd)" "skip_count cmd < 512" "even (cmd_address cmd)" "even (cmd_size cmd)"
    unfolding i(2-4) using e by auto
  have "\<not> cmd_address cmd + min (512 - skip_count cmd) (cmd_size cmd) \<le> length (blit buf 0 (take ?d (drop A m)))"
    unfolding lb i(2-4) using fit by simp
  then have "ide_read_interrupt 512 cmd (words_of ?sec) = None"
    using ide_interrupt_even [OF i(1) len ev refl] by (simp only: if_False)
  then show ?thesis using i(5) by (simp add: k_IDE_InterruptHandler_def K_IDE_STATUS_FLAG_ERROR_def)
qed

lemma ide_read_loop_overrun:
  assumes "ide_at m A cmd0 a buf b cmd" "cmd_type cmd0 = K_DEV_DSK_CMD_TYPE_READ"
    and "even A" "even (cmd_size cmd0)" "A < 512 * b + 512" "b + n = L + 1" "b \<le> L" "A < 512 * L"
    and "512 * (L + 1) \<le> length m" "512 * L \<le> A + cmd_size cmd0" "512 * L - A \<le> length buf"
      "length buf < 512 * L - A + min 512 (cmd_size cmd0)" "L < 2 ^ 28"
  shows "ide_read_loop (ata_controller m) b n cmd = None"
  using assms
proof (induction n arbitrary: b cmd rule: less_induct)
  case (less n)
  let ?cmd = "\<lambda>k. cmd\<lparr>transfer_condition := False, sector_count := k\<rparr>"
  have at: "ide_at m A cmd0 a buf b (?cmd k)" for k using less.prems(1) by (simp only: ide_at_counts)
  have n: "0 < n" "b < 2 ^ 28" using less.prems(6,7,13) by simp_all
  show ?case
  proof (cases "n \<le> 256")
    case True
    have k: "min n 256 = L - b + 1" using True less.prems(6,7) by simp
    have "\<exists>c. run_sectors m b (L - b) (?cmd (L - b + 1)) = Some c \<and> ide_at m A cmd0 a buf (b + (L - b)) c \<and>
      sector_count c = 1 \<and> transfer_condition c = (transfer_condition (?cmd (L - b + 1)) \<or> 0 < L - b \<and> (1::nat) = 0) \<and>
      condition c = (condition (?cmd (L - b + 1)) \<or> 0 < L - b \<and> 512 * (b + (L - b)) = A + cmd_size cmd0)"
      by (rule run_sectors_full [OF at]) (use less.prems True in auto)
    then obtain c where c: "run_sectors m b (L - b) (?cmd (L - b + 1)) = Some c" "ide_at m A cmd0 a buf L c"
      using less.prems(7) by auto
    have "k_IDE_InterruptHandler 512 0x58 (words_of (take 512 (drop (512 * L) m))) c = None"
      by (rule ide_sector_overrun [OF c(2)]) (use less.prems in auto)
    then have "run_sectors m b (L - b + 1) (?cmd (L - b + 1)) = None"
      using less.prems(7,9) unfolding run_sectors_append c(1) by (simp add: sector_words_def)
    then show ?thesis using ide_read_loop_step [OF n refl, of m cmd] unfolding k by simp
  next
    case False
    then have k: "min n 256 = 256" by simp
    have "\<exists>c. run_sectors m b 256 (?cmd 256) = Some c \<and> ide_at m A cmd0 a buf (b + 256) c \<and>
      sector_count c = 0 \<and> transfer_condition c = (transfer_condition (?cmd 256) \<or> 0 < (256::nat) \<and> (0::nat) = 0) \<and>
      condition c = (condition (?cmd 256) \<or> 0 < (256::nat) \<and> 512 * (b + 256) = A + cmd_size cmd0)"
      by (rule run_sectors_full [OF at]) (use less.prems False in auto)
    then obtain c where c: "run_sectors m b 256 (?cmd 256) = Some c" "ide_at m A cmd0 a buf (b + 256) c"
      "transfer_condition c" by auto
    have "ide_read_loop (ata_controller m) (b + 256) (n - 256) c = None"
      by (rule less.IH [OF _ c(2)]) (use less.prems False in auto)
    then show ?thesis using ide_read_loop_step [OF n refl, of m cmd] c(1,3) unfolding k by simp
  qed
qed

lemma k_IDE_Read_overrun:
  assumes c: "cmd_address cmd = A" "cmd_size cmd = S" "cmd_buffer cmd = Some (a, buf)"
      "cmd_type cmd = K_DEV_DSK_CMD_TYPE_READ"
    and e: "even A" "even S" "A + S = 512 * L + r" "0 < r" "r < 512" "A < 512 * L"
      "512 * (L + 1) \<le> length m" "A + S + 511 < 2 ^ 32" "length buf = S"
  shows "k_IDE_Read (ata_controller m) 512 cmd = None"
proof -
  have s: "0 < S" using e(3,4,6) by simp
  have l: "(A + S + 511) div 512 = L + 1" unfolding e(3) using e(4,5) by (intro div_nat_eqI) simp_all
  have b: "A div 512 \<le> L" "A < 512 * (A div 512) + 512" "L < 2 ^ 28" using e(3,6,8) by simp_all
  have g: "even (cmd_size cmd)" "A div 512 + (L + 1 - A div 512) = L + 1" "512 * L \<le> A + cmd_size cmd"
    "512 * L - A \<le> length buf" "length buf < 512 * L - A + min 512 (cmd_size cmd)"
    unfolding c(2) e(9) using e(2,3,4,5,6) b(1) by simp_all
  show ?thesis unfolding k_IDE_Read_start(1) [OF c(1-3) s e(8)] l
    by (rule ide_read_loop_overrun [OF k_IDE_Read_start(2) [OF c(1-3) s e(8)] c(4) e(1) g(1) b(2) g(2) b(1)
          e(6,7) g(3,4,5) b(3)])
qed


section \<open>Properties\<close>

lemma truncate_cmd:
  fixes d :: k_dev_dsk_ide_cmd_t
  shows "cmd_buffer (k_dev_dsk_cmd_t.truncate d) = cmd_buffer d"
    "condition (k_dev_dsk_cmd_t.truncate d) = condition d"
    "cmd_page (k_dev_dsk_cmd_t.truncate d) = cmd_page d"
  by (simp_all add: k_dev_dsk_cmd_t.defs)

lemma request_fields:
  assumes "A + S + 511 < 2 ^ 32"
  shows "cmd_address (ide_cmd_of (request_cmd p ty buf A S)) = A"
    "cmd_size (ide_cmd_of (request_cmd p ty buf A S)) = S"
    "cmd_buffer (ide_cmd_of (request_cmd p ty buf A S)) = buf"
    "cmd_type (ide_cmd_of (request_cmd p ty buf A S)) = ty"
    "cmd_page (ide_cmd_of (request_cmd p ty buf A S)) = p"
  using assms by (simp_all add: ide_cmd_of_def k_dev_dsk_cmd_t.defs request_cmd_def taken_cmd_def)

lemma DiskRead_ide:
  assumes "pool_ready disk p c fs" "disk_read disk = Some ide_disk_read"
    and "even A" "even S" "0 < S" "A + S + 511 < 2 ^ 32" "S \<le> length buf"
    and "A + S \<le> length (medium disk)" "512 dvd length (medium disk)"
    and "512 dvd A + S \<or> A + S \<le> 512 * (A div 512) + 512"
  shows "\<exists>d. k_dev_DiskRead wait_served fresh A S (Some (a, buf)) disk =
      Some (0, Some (a, blit buf 0 (take S (drop A (medium disk)))), d) \<and>
    pool_ready d p c fs \<and> medium d = medium disk \<and> disk_read d = Some ide_disk_read \<and>
    disk_block_size d = disk_block_size disk"
proof -
  let ?m = "medium disk"
  let ?req = "request_cmd p K_DEV_DSK_CMD_TYPE_READ (Some (a, buf)) A S"
  note c = request_fields [OF assms(6), of p K_DEV_DSK_CMD_TYPE_READ "Some (a, buf)"]
  have "\<exists>d. k_IDE_Read (ata_controller ?m) 512 (ide_cmd_of ?req) = Some d \<and>
    cmd_buffer d = Some (a, blit buf 0 (take S (drop A ?m))) \<and> condition d \<and> cmd_page d = p"
  proof (cases "512 dvd A + S")
    case True
    show ?thesis
      using k_IDE_Read_aligned [OF c(1-4) assms(3,5) True assms(8,6,7)] unfolding c(5) .
  next
    case False
    have "512 * (A div 512) < length ?m" using assms(5,8) times_div_less_eq_dividend [of 512 A] by linarith
    then have "512 * (A div 512) + 512 \<le> length ?m" using assms(9) by (auto elim!: dvdE)
    then show ?thesis
      using k_IDE_Read_one_sector [OF c(1-4) assms(3,4,5) _ _ assms(6,7)] False assms(10) unfolding c(5) by blast
  qed
  then obtain d where d: "k_IDE_Read (ata_controller ?m) 512 (ide_cmd_of ?req) = Some d"
      "cmd_buffer d = Some (a, blit buf 0 (take S (drop A ?m)))" "condition d" "cmd_page d = p"
    by blast
  then have "ide_disk_read (start_address disk) ?req ?m = Some (k_dev_dsk_cmd_t.truncate d, ?m)"
    by (simp add: ide_disk_read_def)
  then show ?thesis
    using DiskRead_queued [OF assms(1,2)] d(2-4) by (fastforce simp: truncate_cmd)
qed

text \<open>
  A read of an even number of bytes at an even address returns through the whole stack,
  from \<open>k_dev_DiskRead\<close> over the request queue, the disk thread, \<open>k_IDE_Read\<close> and the interrupt
  handler, with exactly the bytes of the medium in the caller's buffer and the command back in
  its page, when the request lies in one sector or ends on a sector boundary; any number of
  sectors is split into commands of at most 256.
\<close>

theorem k_dev_DiskRead_ide:
  assumes "pool_ready disk p c fs" "disk_read disk = Some ide_disk_read"
    and "even A" "even S" "0 < S" "A + S + 511 < 2 ^ 32" "S \<le> length buf"
    and "A + S \<le> length (medium disk)" "512 dvd length (medium disk)"
    and "512 dvd A + S \<or> A + S \<le> 512 * (A div 512) + 512"
  shows "\<exists>d. k_dev_DiskRead wait_served fresh A S (Some (a, buf)) disk =
      Some (0, Some (a, blit buf 0 (take S (drop A (medium disk)))), d) \<and>
    pool_ready d p c fs \<and> medium d = medium disk"
  using DiskRead_ide [OF assms] by blast

definition sample_ide :: k_dev_disk_t where
  "sample_ide = sample_ram\<lparr>disk_type := K_DEV_DSK_TYPE_DISK, disk_read := Some ide_disk_read,
     cur_cmd_page := Some 4096, medium := replicate 1024 7,
     page_at := (\<lambda>_. \<lparr>page_next = None, page_prev = None, next_free = Some 4116, used_count = 0, page_index = 0\<rparr>),
     cmd_at := (\<lambda>_. \<lparr>condition = False, cmd_next = None, cmd_page = 4096, cmd_type = K_DEV_DSK_CMD_TYPE_LAST,
       cmd_status = 0, cmd_address = 0, cmd_size = 0, cmd_buffer = None\<rparr>)\<rparr>"

lemma sample_ide_ready: "pool_ready sample_ide 4096 4116 []"
  by (simp add: pool_ready_def page_free_def chain_Some sample_ide_def sample_ram_def)

lemma sample_ide_fields: "disk_read sample_ide = Some ide_disk_read" "medium sample_ide = replicate 1024 7"
  by (simp_all add: sample_ide_def sample_ram_def)

theorem k_dev_DiskRead_ide_witness:
  "\<exists>d. k_dev_DiskRead wait_served None 510 2 (Some (8192, [0, 0, 0])) sample_ide =
      Some (0, Some (8192, [7, 7, 0]), d) \<and> pool_ready d 4096 4116 [] \<and> medium d = medium sample_ide"
proof -
  have b: "blit [0, 0, 0] 0 (take 2 (drop 510 (replicate 1024 (7 :: u8)))) = [7, 7, 0]"
    by (simp add: blit_def numeral_2_eq_2)
  show ?thesis
    using k_dev_DiskRead_ide [OF sample_ide_ready, of 510 2 "[0, 0, 0]" None 8192] b
    by (simp add: sample_ide_fields)
qed

text \<open>
  A read that spans sectors and ends inside one overruns the caller's buffer: the handler
  limits each sector by the size of the whole request instead of by what is left of it, so the
  last sector is stored past the end.
\<close>

theorem ide_disk_read_overrun:
  assumes "even A" "even S" "A + S = 512 * L + r" "0 < r" "r < 512" "A < 512 * L"
    and "512 * (L + 1) \<le> length m" "A + S + 511 < 2 ^ 32" "length buf = S"
  shows "ide_disk_read start (request_cmd p K_DEV_DSK_CMD_TYPE_READ (Some (a, buf)) A S) m = None"
  using k_IDE_Read_overrun [OF request_fields(1-4) [OF assms(8)] assms] by (simp add: ide_disk_read_def)

theorem ide_disk_read_overrun_witness:
  "ide_disk_read 0 (request_cmd 4096 K_DEV_DSK_CMD_TYPE_READ (Some (8192, replicate 600 0)) 0 600) (replicate 1024 7)
    = None"
  using ide_disk_read_overrun [of 0 600 1 88 "replicate 1024 7" "replicate 600 0"] by simp

end
