(* ===== verification/Io_Stream.thy ===== *)
theory Io_Stream
  imports Mem_Pmap
begin

text \<open>
  The streams of \<open>kernel/io.c\<close>: bytes in a list of buffers of 4088 bytes, with a read and a write
  position counted from the start of the first buffer. Buffers are named by their addresses;
  \<open>heap_bufs\<close> is what \<open>k_rt_Malloc\<close> returns for new ones, one after the other, with the contents that
  \<open>buf_at\<close> gives. Copies are the plain copies that \<open>k_rt_CopyBytes\<close> equals. The lemmas show that a
  stream is a queue of bytes.
\<close>

section \<open>Data\<close>

definition K_IO_STREAM_BUF_DATA_SIZE :: nat where
  "K_IO_STREAM_BUF_DATA_SIZE = 4096 - 4 * 2"

definition K_IO_STREAM_FLAG_READ :: u32 where "K_IO_STREAM_FLAG_READ = 2"
definition K_IO_STREAM_FLAG_WRITE :: u32 where "K_IO_STREAM_FLAG_WRITE = 4"
definition K_IO_STREAM_FLAG_BLOCKED :: u32 where "K_IO_STREAM_FLAG_BLOCKED = 8"
definition K_IO_STREAM_FLAG_CLEAR_READ :: u32 where "K_IO_STREAM_FLAG_CLEAR_READ = 16"

record k_io_stream_buf_t =
  buf_next :: "nat option"
  buf_prev :: "nat option"
  buf_data :: bytes

record k_io_stream_t =
  read_offset :: nat
  write_offset :: nat
  available_count :: nat
  stream_flags :: u32
  stream_condition :: bool
  stream_buffers :: "nat option"
  last_buffer :: "nat option"
  read_buffer :: "nat option"
  write_buffer :: "nat option"
  free_buffers :: "nat option"
  buf_at :: "nat \<Rightarrow> k_io_stream_buf_t"
  heap_bufs :: "nat list"

definition upd_buf :: "nat \<Rightarrow> (k_io_stream_buf_t \<Rightarrow> k_io_stream_buf_t) \<Rightarrow> k_io_stream_t \<Rightarrow> k_io_stream_t" where
  "upd_buf b f s = s\<lparr>buf_at := (buf_at s)(b := f (buf_at s b))\<rparr>"

section \<open>Operations\<close>

definition k_io_AllocStreamBuffer :: "k_io_stream_t \<Rightarrow> k_io_stream_t option" where
  "k_io_AllocStreamBuffer s = do {
     (b, s) \<leftarrow> (case free_buffers s of
         Some b \<Rightarrow> Some (b, s\<lparr>free_buffers := buf_next (buf_at s b)\<rparr>)
       | None \<Rightarrow> (case heap_bufs s of [] \<Rightarrow> None | b # bs \<Rightarrow> Some (b, s\<lparr>heap_bufs := bs\<rparr>)));
     s \<leftarrow> (if stream_buffers s = None then Some (s\<lparr>stream_buffers := Some b\<rparr>)
       else do {
         l \<leftarrow> last_buffer s;
         Some (upd_buf l (\<lambda>x. x\<lparr>buf_next := Some b\<rparr>) s)
       });
     let s = upd_buf b (\<lambda>x. x\<lparr>buf_prev := last_buffer s\<rparr>) s;
     Some (s\<lparr>last_buffer := Some b\<rparr>)
   }"

definition k_io_AllocStream :: "u32 \<Rightarrow> (nat \<Rightarrow> k_io_stream_buf_t) \<Rightarrow> nat list \<Rightarrow> k_io_stream_t option" where
  "k_io_AllocStream flags bufs heap = do {
     let s = \<lparr>read_offset = 0, write_offset = 0, available_count = 0,
       stream_flags = flags AND (K_IO_STREAM_FLAG_READ OR K_IO_STREAM_FLAG_WRITE), stream_condition = False,
       stream_buffers = None, last_buffer = None, read_buffer = None, write_buffer = None, free_buffers = None,
       buf_at = bufs, heap_bufs = heap\<rparr>;
     s \<leftarrow> k_io_AllocStreamBuffer s;
     Some (s\<lparr>read_buffer := stream_buffers s, write_buffer := stream_buffers s\<rparr>)
   }"

text \<open>The buffers that \<open>k_io_FreeStream\<close> returns to the heap, in order; it does not return on a cycle.\<close>

partial_function (option) free_stream_buffers :: "k_io_stream_t \<Rightarrow> nat option \<Rightarrow> nat list option" where
  "free_stream_buffers s buffer = (case buffer of
       None \<Rightarrow> Some []
     | Some b \<Rightarrow> do {
         bs \<leftarrow> free_stream_buffers s (buf_next (buf_at s b));
         Some (b # bs)
       })"

definition k_io_FreeStream :: "k_io_stream_t option \<Rightarrow> nat list option" where
  "k_io_FreeStream stream = (case stream of None \<Rightarrow> Some [] | Some s \<Rightarrow> free_stream_buffers s (stream_buffers s))"

text \<open>
  The copy loop of a read: the rest of the count, the position in the caller's buffer, the last buffer
  that was read to its end, the caller's buffer and the stream.
\<close>

lemma buffer_room: "0 < K_IO_STREAM_BUF_DATA_SIZE - x mod K_IO_STREAM_BUF_DATA_SIZE"
  by (simp add: K_IO_STREAM_BUF_DATA_SIZE_def)

function read_stream_loop ::
    "nat \<Rightarrow> nat \<Rightarrow> nat option \<Rightarrow> bytes \<Rightarrow> k_io_stream_t \<Rightarrow> (nat \<times> nat option \<times> bytes \<times> k_io_stream_t) option" where
  "read_stream_loop count data_offset last_freed data s =
     (if count = 0 then Some (data_offset, last_freed, data, s)
      else do {
        let buffer_offset = read_offset s mod K_IO_STREAM_BUF_DATA_SIZE;
        let room = K_IO_STREAM_BUF_DATA_SIZE - buffer_offset;
        b \<leftarrow> read_buffer s;
        let copy_size = min room count;
        data \<leftarrow> copy_bytes data data_offset (buf_data (buf_at s b)) buffer_offset copy_size;
        read_stream_loop (count - copy_size) (data_offset + copy_size)
          (if room \<le> count then Some b else last_freed) data
          (s\<lparr>read_buffer := if room \<le> count then buf_next (buf_at s b) else Some b,
            read_offset := (read_offset s + copy_size) mod 2 ^ 32\<rparr>)
      })"
  by auto
termination
  by (relation "measure fst") (use buffer_room in auto)

declare read_stream_loop.simps [simp del]

text \<open>The buffers read to their end go to the free list, when the stream is set to do so.\<close>

definition clear_read_buffers :: "nat option \<Rightarrow> nat option \<Rightarrow> k_io_stream_t \<Rightarrow> k_io_stream_t option" where
  "clear_read_buffers first_freed last_freed s =
     (if stream_flags s AND K_IO_STREAM_FLAG_CLEAR_READ \<noteq> 0 \<and> last_freed \<noteq> None then do {
        l \<leftarrow> last_freed;
        f \<leftarrow> first_freed;
        s \<leftarrow> (if first_freed = stream_buffers s then Some (s\<lparr>stream_buffers := buf_next (buf_at s l)\<rparr>)
          else do {
            p \<leftarrow> buf_prev (buf_at s f);
            Some (upd_buf p (\<lambda>x. x\<lparr>buf_next := buf_next (buf_at s l)\<rparr>) s)
          });
        s \<leftarrow> (if last_freed = last_buffer s then Some (s\<lparr>last_buffer := buf_prev (buf_at s f)\<rparr>)
          else do {
            n \<leftarrow> buf_next (buf_at s l);
            Some (upd_buf n (\<lambda>x. x\<lparr>buf_prev := buf_prev (buf_at s f)\<rparr>) s)
          });
        let s = upd_buf l (\<lambda>x. x\<lparr>buf_next := free_buffers s\<rparr>) s;
        Some (s\<lparr>free_buffers := Some f\<rparr>)
      }
      else Some s)"

definition read_stream_data ::
    "k_io_stream_t \<Rightarrow> bytes option \<Rightarrow> nat \<Rightarrow> (k_status \<times> bytes option \<times> k_io_stream_t) option" where
  "read_stream_data s data count =
     (if stream_flags s AND K_IO_STREAM_FLAG_BLOCKED \<noteq> 0 then Some (K_STATUS_BLOCKED_STREAM, data, s)
      else case data of
        None \<Rightarrow> Some (K_STATUS_INVALID_DATA, data, s)
      | Some d \<Rightarrow>
          if count = 0 then Some (K_STATUS_INVALID_DATA, data, s)
          else if stream_buffers s = None \<or> read_offset s = write_offset s then Some (K_STATUS_EMPTY_STREAM, data, s)
          else do {
            let first_freed = read_buffer s;
            (n, last_freed, d, s) \<leftarrow> read_stream_loop (min count (available_count s)) 0 None d s;
            let s = s\<lparr>available_count := available_count s - n\<rparr>;
            s \<leftarrow> clear_read_buffers first_freed last_freed s;
            Some (K_STATUS_OK, Some d, s)
          })"

definition k_io_ReadStreamData ::
    "k_io_stream_t option \<Rightarrow> bytes option \<Rightarrow> nat \<Rightarrow> (k_status \<times> bytes option \<times> k_io_stream_t option) option" where
  "k_io_ReadStreamData stream data count = (case stream of
      None \<Rightarrow> Some (K_STATUS_INVALID_STREAM, data, None)
    | Some s \<Rightarrow> map_option (\<lambda>(r, data, s). (r, data, Some s)) (read_stream_data s data count))"

function write_stream_loop :: "nat \<Rightarrow> nat \<Rightarrow> bytes \<Rightarrow> k_io_stream_t \<Rightarrow> (nat \<times> k_io_stream_t) option" where
  "write_stream_loop count data_offset data s =
     (if count = 0 then Some (data_offset, s)
      else do {
        let buffer_offset = write_offset s mod K_IO_STREAM_BUF_DATA_SIZE;
        let room = K_IO_STREAM_BUF_DATA_SIZE - buffer_offset;
        b \<leftarrow> write_buffer s;
        s \<leftarrow> (if room \<le> count then do {
            s \<leftarrow> (if buf_next (buf_at s b) = None then k_io_AllocStreamBuffer s else Some s);
            Some (s\<lparr>write_buffer := buf_next (buf_at s b)\<rparr>)
          }
          else Some s);
        let copy_size = min room count;
        d \<leftarrow> copy_bytes (buf_data (buf_at s b)) buffer_offset data data_offset copy_size;
        let s = upd_buf b (\<lambda>x. x\<lparr>buf_data := d\<rparr>) s;
        write_stream_loop (count - copy_size) (data_offset + copy_size) data
          (s\<lparr>write_offset := (write_offset s + copy_size) mod 2 ^ 32\<rparr>)
      })"
  by auto
termination
  by (relation "measure fst") (use buffer_room in auto)

declare write_stream_loop.simps [simp del]

definition write_stream_data :: "k_io_stream_t \<Rightarrow> bytes option \<Rightarrow> nat \<Rightarrow> (k_status \<times> k_io_stream_t) option" where
  "write_stream_data s data count = (case data of
      None \<Rightarrow> Some (K_STATUS_INVALID_DATA, s)
    | Some d \<Rightarrow>
        if count = 0 then Some (K_STATUS_INVALID_DATA, s)
        else if stream_flags s AND K_IO_STREAM_FLAG_BLOCKED \<noteq> 0 then Some (K_STATUS_BLOCKED_STREAM, s)
        else do {
          let cur_write_buffer = write_buffer s;
          (n, s) \<leftarrow> write_stream_loop count 0 d s;
          let s = s\<lparr>available_count := (available_count s + n) mod 2 ^ 32\<rparr>;
          Some (K_STATUS_OK, if read_buffer s = None then s\<lparr>read_buffer := cur_write_buffer\<rparr> else s)
        })"

definition k_io_WriteStreamData ::
    "k_io_stream_t option \<Rightarrow> bytes option \<Rightarrow> nat \<Rightarrow> (k_status \<times> k_io_stream_t option) option" where
  "k_io_WriteStreamData stream data count = (case stream of
      None \<Rightarrow> Some (K_STATUS_INVALID_STREAM, None)
    | Some s \<Rightarrow> map_option (\<lambda>(r, s). (r, Some s)) (write_stream_data s data count))"

text \<open>
  A read through the stream's callback, when it has one: the wait ends when another thread has
  signalled the stream, \<open>wait\<close> being what the others do to it until then.
\<close>

definition k_io_ReadStream ::
    "(k_io_stream_t \<Rightarrow> k_io_stream_t option) \<Rightarrow> (nat \<Rightarrow> nat \<Rightarrow> k_io_stream_t \<Rightarrow> k_io_stream_t option) option \<Rightarrow>
     k_io_stream_t \<Rightarrow> nat \<Rightarrow> bytes option \<Rightarrow> nat \<Rightarrow> (k_status \<times> bytes option \<times> k_io_stream_t option) option" where
  "k_io_ReadStream wait read s offset data count = do {
     s \<leftarrow> (case read of None \<Rightarrow> Some s | Some f \<Rightarrow> f offset count s);
     s \<leftarrow> (if stream_condition s then Some s else wait s);
     if \<not> stream_condition s then None
     else do {
       (r, data, s) \<leftarrow> k_io_ReadStreamData (Some s) data count;
       Some (r, data, map_option (\<lambda>s. s\<lparr>stream_condition := False\<rparr>) s)
     }
   }"

definition k_io_WriteStream ::
    "k_io_stream_t option \<Rightarrow> nat \<Rightarrow> bytes option \<Rightarrow> nat \<Rightarrow> (k_status \<times> k_io_stream_t option) option" where
  "k_io_WriteStream s offset data count = k_io_WriteStreamData s data count"

definition k_io_UnblockStream :: "k_io_stream_t option \<Rightarrow> k_io_stream_t option" where
  "k_io_UnblockStream stream = map_option (\<lambda>s. s\<lparr>stream_flags := stream_flags s AND NOT K_IO_STREAM_FLAG_BLOCKED\<rparr>) stream"

definition k_io_BlockStream :: "k_io_stream_t option \<Rightarrow> k_io_stream_t option" where
  "k_io_BlockStream stream = map_option (\<lambda>s. s\<lparr>stream_flags := stream_flags s OR K_IO_STREAM_FLAG_BLOCKED\<rparr>) stream"

definition k_io_SignalStream :: "k_io_stream_t option \<Rightarrow> k_io_stream_t option" where
  "k_io_SignalStream stream = map_option (\<lambda>s. s\<lparr>stream_condition := True\<rparr>) stream"

definition k_io_UnsignalStream :: "k_io_stream_t option \<Rightarrow> k_io_stream_t option" where
  "k_io_UnsignalStream stream = map_option (\<lambda>s. s\<lparr>stream_condition := False\<rparr>) stream"

section \<open>A stream is a queue of bytes\<close>

text \<open>The bytes between the two positions of a stream.\<close>

definition next_of :: "k_io_stream_t \<Rightarrow> nat \<Rightarrow> nat option" where
  "next_of s b = buf_next (buf_at s b)"

definition stream_flat :: "k_io_stream_t \<Rightarrow> nat list \<Rightarrow> bytes" where
  "stream_flat s bs = concat (map (\<lambda>b. buf_data (buf_at s b)) bs)"

definition stream_bytes :: "k_io_stream_t \<Rightarrow> bytes" where
  "stream_bytes s = drop (read_offset s) (take (write_offset s)
     (stream_flat s (walk (write_offset s div K_IO_STREAM_BUF_DATA_SIZE + 1) (next_of s) (stream_buffers s))))"

text \<open>
  The buffers \<open>bs\<close> of a stream that keeps what was read: the write position lies in the last one.
  New buffers of the heap have no successor yet.
\<close>

definition stream_rep :: "k_io_stream_t \<Rightarrow> nat list \<Rightarrow> bool" where
  "stream_rep s bs \<longleftrightarrow> chain (next_of s) (stream_buffers s) bs \<and>
     length bs = write_offset s div K_IO_STREAM_BUF_DATA_SIZE + 1 \<and>
     last_buffer s = Some (last bs) \<and> write_buffer s = Some (last bs) \<and>
     read_offset s \<le> write_offset s \<and> write_offset s < 2 ^ 32 \<and>
     read_buffer s = Some (bs ! (read_offset s div K_IO_STREAM_BUF_DATA_SIZE)) \<and> free_buffers s = None \<and>
     stream_flags s AND K_IO_STREAM_FLAG_BLOCKED = 0 \<and> stream_flags s AND K_IO_STREAM_FLAG_CLEAR_READ = 0 \<and>
     (\<forall>b \<in> set bs \<union> set (heap_bufs s). length (buf_data (buf_at s b)) = K_IO_STREAM_BUF_DATA_SIZE) \<and>
     (\<forall>h \<in> set (heap_bufs s). next_of s h = None) \<and> distinct (bs @ heap_bufs s)"

definition stream_ok :: "k_io_stream_t \<Rightarrow> bool" where
  "stream_ok s \<longleftrightarrow> (\<exists>bs. stream_rep s bs) \<and> available_count s = write_offset s - read_offset s"

lemma stream_bytes_rep:
  "stream_rep s bs \<Longrightarrow> stream_bytes s = drop (read_offset s) (take (write_offset s) (stream_flat s bs))"
proof -
  assume "stream_rep s bs"
  then have "walk (write_offset s div K_IO_STREAM_BUF_DATA_SIZE + 1) (next_of s) (stream_buffers s) = bs"
    by (intro walk_chain) (simp_all add: stream_rep_def)
  then show ?thesis unfolding stream_bytes_def by simp
qed

lemma length_concat_same: "\<forall>x \<in> set xs. length x = d \<Longrightarrow> length (concat xs) = length xs * d"
  by (induction xs) simp_all

lemma length_stream_flat:
  "\<forall>b \<in> set bs. length (buf_data (buf_at s b)) = K_IO_STREAM_BUF_DATA_SIZE \<Longrightarrow>
   length (stream_flat s bs) = length bs * K_IO_STREAM_BUF_DATA_SIZE"
  unfolding stream_flat_def by (subst length_concat_same) auto

lemma concat_block:
  assumes "\<forall>x \<in> set xs. length x = d" "i < length xs" "off + n \<le> d"
  shows "take n (drop (i * d + off) (concat xs)) = take n (drop off (xs ! i))"
  using assms
proof (induction xs arbitrary: i)
  case Nil
  then show ?case by simp
next
  case (Cons x xs)
  show ?case
  proof (cases i)
    case 0
    then show ?thesis using Cons.prems by simp
  next
    case (Suc j)
    have "drop (i * d + off) (concat (x # xs)) = drop (j * d + off) (concat xs)"
      using Cons.prems(1) by (simp add: Suc add.assoc)
    then show ?thesis using Cons.IH [of j] Cons.prems Suc by simp
  qed
qed

lemma chain_nth: "chain nx p as \<Longrightarrow> Suc i < length as \<Longrightarrow> nx (as ! i) = Some (as ! Suc i)"
proof (induction as arbitrary: p i)
  case Nil
  then show ?case by simp
next
  case (Cons a as)
  then show ?case by (cases i; cases as) auto
qed

lemma div_step:
  assumes "0 < (d :: nat)"
  shows "(x + (d - x mod d)) div d = x div d + 1" "c < d - x mod d \<Longrightarrow> (x + c) div d = x div d"
proof -
  have m: "x mod d < d" using assms by simp
  have "x + (d - x mod d) = (x div d + 1) * d" using m by (simp add: minus_mod_eq_div_mult [symmetric])
  then show "(x + (d - x mod d)) div d = x div d + 1" using assms by simp
  assume "c < d - x mod d"
  moreover have "x + c = x div d * d + (x mod d + c)" by simp
  ultimately show "(x + c) div d = x div d" using assms by (metis add.commute div_less div_mult_self1 add_0 less_diff_conv nat_neq_iff)
qed

lemma data_size_pos [simp]: "0 < K_IO_STREAM_BUF_DATA_SIZE"
  by (simp add: K_IO_STREAM_BUF_DATA_SIZE_def)

section \<open>Reading\<close>

lemma read_stream_loop_ok:
  assumes "chain (next_of s) p bs" "read_offset s + n < length bs * K_IO_STREAM_BUF_DATA_SIZE" "read_offset s + n < 2 ^ 32"
    and "read_buffer s = Some (bs ! (read_offset s div K_IO_STREAM_BUF_DATA_SIZE))"
    and "\<forall>b \<in> set bs. length (buf_data (buf_at s b)) = K_IO_STREAM_BUF_DATA_SIZE" "k + n \<le> length d"
  shows "\<exists>lf'. read_stream_loop n k lf d s = Some (k + n, lf',
    blit d k (take n (drop (read_offset s) (stream_flat s bs))),
    s\<lparr>read_buffer := Some (bs ! ((read_offset s + n) div K_IO_STREAM_BUF_DATA_SIZE)), read_offset := read_offset s + n\<rparr>)"
  using assms
proof (induction n k lf d s rule: read_stream_loop.induct)
  case (1 n k lf d s)
  let ?D = K_IO_STREAM_BUF_DATA_SIZE and ?r = "read_offset s"
  show ?case
  proof (cases "n = 0")
    case True
    then show ?thesis using "1.prems"(4) by (simp add: read_stream_loop.simps)
  next
    case False
    define i off room c where d: "i = ?r div ?D" "off = ?r mod ?D" "room = ?D - off" "c = min room n"
    let ?b = "bs ! i"
    have ri: "?r = i * ?D + off" by (simp add: d)
    have off: "off < ?D" by (simp add: d)
    have ib: "i < length bs"
    proof -
      have "i * ?D < length bs * ?D" using "1.prems"(2) ri by linarith
      then show ?thesis by simp
    qed
    have lb: "length (buf_data (buf_at s ?b)) = ?D" using "1.prems"(5) ib by simp
    have c: "c \<le> n" "off + c \<le> ?D" "0 < c" using off False by (auto simp: d(3,4))
    have chunk: "take c (drop off (buf_data (buf_at s ?b))) = take c (drop ?r (stream_flat s bs))"
      unfolding stream_flat_def ri
      using concat_block [of "map (\<lambda>b. buf_data (buf_at s b)) bs" ?D i off c] "1.prems"(5) ib c(2) by simp
    let ?d = "blit d k (take c (drop ?r (stream_flat s bs)))"
    have fl: "length (stream_flat s bs) = length bs * ?D" using "1.prems"(5) by (rule length_stream_flat)
    have copy: "copy_bytes d k (buf_data (buf_at s ?b)) off c = Some ?d"
      using "1.prems"(6) c lb chunk by (simp add: copy_bytes_def)
    define s' where "s' = s\<lparr>read_buffer := if room \<le> n then buf_next (buf_at s ?b) else Some ?b,
      read_offset := (?r + c) mod 2 ^ 32\<rparr>"
    have o': "read_offset s' = ?r + c" using "1.prems"(3) c(1) by (simp add: s'_def)
    have rb: "read_buffer s' = Some (bs ! ((?r + c) div ?D))"
    proof (cases "room \<le> n")
      case True
      then have q: "(?r + c) div ?D = i + 1" using div_step(1) [of ?D ?r] by (simp add: d)
      have "(i + 1) * ?D = ?r + c" using True off by (simp add: d(3,4) ri)
      then have "(i + 1) * ?D < length bs * ?D" using "1.prems"(2) c(1) by linarith
      then have "Suc i < length bs" unfolding mult_less_cancel2 by simp
      then show ?thesis using chain_nth [OF "1.prems"(1)] True q by (simp add: s'_def next_of_def)
    next
      case False
      then have "(?r + c) div ?D = i" using div_step(2) [of ?D c ?r] by (simp add: d)
      then show ?thesis using False by (simp add: s'_def)
    qed
    have same: "next_of s' = next_of s" "buf_at s' = buf_at s" by (auto simp: s'_def next_of_def)
    have sf: "stream_flat s' bs = stream_flat s bs" by (simp add: stream_flat_def same)
    have run: "read_stream_loop n k lf d s =
        read_stream_loop (n - c) (k + c) (if room \<le> n then Some ?b else lf) ?d s'"
      using False "1.prems"(4) copy
      by (subst read_stream_loop.simps) (simp add: Let_def d(1) [symmetric] d(2) [symmetric] d(3) [symmetric] d(4) [symmetric] s'_def)
    have lc: "length (take c (drop ?r (stream_flat s bs))) = c" using fl "1.prems"(2) c(1) by simp
    have "\<exists>lf'. read_stream_loop (n - c) (k + c) (if room \<le> n then Some ?b else lf) ?d s' = Some (k + c + (n - c), lf',
        blit ?d (k + c) (take (n - c) (drop (read_offset s') (stream_flat s' bs))),
        s'\<lparr>read_buffer := Some (bs ! ((read_offset s' + (n - c)) div ?D)), read_offset := read_offset s' + (n - c)\<rparr>)"
      by (rule "1.IH" [OF False refl refl "1.prems"(4) refl, folded d, folded s'_def, OF copy])
        (use "1.prems" c rb same o' lc in simp_all)
    then obtain lf' where ih: "read_stream_loop (n - c) (k + c) (if room \<le> n then Some ?b else lf) ?d s' = Some (k + c + (n - c), lf',
        blit ?d (k + c) (take (n - c) (drop (read_offset s') (stream_flat s' bs))),
        s'\<lparr>read_buffer := Some (bs ! ((read_offset s' + (n - c)) div ?D)), read_offset := read_offset s' + (n - c)\<rparr>)" by blast
    have "blit ?d (k + c) (take (n - c) (drop (?r + c) (stream_flat s bs))) =
        blit d k (take c (drop ?r (stream_flat s bs)) @ take (n - c) (drop (?r + c) (stream_flat s bs)))"
      using blit_blit [of k "take c (drop ?r (stream_flat s bs))" "take (n - c) (drop (?r + c) (stream_flat s bs))" d]
        lc "1.prems"(6) c(1) by simp
    moreover have "take c (drop ?r (stream_flat s bs)) @ take (n - c) (drop (?r + c) (stream_flat s bs)) =
        take n (drop ?r (stream_flat s bs))"
      using take_add [of c "n - c" "drop ?r (stream_flat s bs)"] c(1) by (simp add: add.commute)
    ultimately show ?thesis using run ih c(1) o' sf by (simp add: s'_def)
  qed
qed

section \<open>Writing\<close>

text \<open>The write position in the last buffer.\<close>

lemma stream_last:
  assumes "stream_rep s bs"
  shows "\<exists>cs b. bs = cs @ [b] \<and> length cs = write_offset s div K_IO_STREAM_BUF_DATA_SIZE \<and> next_of s b = None \<and>
    write_buffer s = Some b \<and> last_buffer s = Some b \<and>
    take (write_offset s) (stream_flat s bs) =
      stream_flat s cs @ take (write_offset s mod K_IO_STREAM_BUF_DATA_SIZE) (buf_data (buf_at s b))"
proof -
  have l: "length bs = write_offset s div K_IO_STREAM_BUF_DATA_SIZE + 1" "bs \<noteq> []"
    using assms by (auto simp: stream_rep_def)
  then obtain cs b where bs: "bs = cs @ [b]" by (metis rev_exhaust)
  have lc: "length cs = write_offset s div K_IO_STREAM_BUF_DATA_SIZE" using l(1) bs by simp
  have "length (stream_flat s cs) = length cs * K_IO_STREAM_BUF_DATA_SIZE"
    using assms bs by (intro length_stream_flat) (simp add: stream_rep_def)
  moreover have "write_offset s - length cs * K_IO_STREAM_BUF_DATA_SIZE = write_offset s mod K_IO_STREAM_BUF_DATA_SIZE"
      "length cs * K_IO_STREAM_BUF_DATA_SIZE \<le> write_offset s"
    unfolding lc by (simp_all add: minus_div_mult_eq_mod)
  ultimately have "take (write_offset s) (stream_flat s bs) =
      stream_flat s cs @ take (write_offset s mod K_IO_STREAM_BUF_DATA_SIZE) (buf_data (buf_at s b))"
    unfolding bs by (simp add: stream_flat_def)
  moreover have "next_of s b = None"
  proof -
    obtain q where "chain (next_of s) q [b]" using assms bs chain_suffix by (fastforce simp: stream_rep_def)
    then show ?thesis by simp
  qed
  ultimately show ?thesis using assms bs lc by (intro exI [of _ cs] exI [of _ b]) (simp add: stream_rep_def)
qed

lemma stream_flat_upd:
  "b \<notin> set cs \<Longrightarrow> stream_flat (upd_buf b f s) cs = stream_flat s cs"
  unfolding stream_flat_def by (rule arg_cong [of _ _ concat], rule map_cong) (auto simp: upd_buf_def)

text \<open>Storing a chunk that fits the last buffer.\<close>

lemma stream_store:
  assumes r: "stream_rep s bs" and c: "length chunk \<le> K_IO_STREAM_BUF_DATA_SIZE - write_offset s mod K_IO_STREAM_BUF_DATA_SIZE"
    and b: "write_buffer s = Some b"
  defines "s' \<equiv> upd_buf b (\<lambda>x. x\<lparr>buf_data := blit (buf_data x) (write_offset s mod K_IO_STREAM_BUF_DATA_SIZE) chunk\<rparr>) s"
  shows "take (write_offset s + length chunk) (stream_flat s' bs) = take (write_offset s) (stream_flat s bs) @ chunk"
    "length chunk < K_IO_STREAM_BUF_DATA_SIZE - write_offset s mod K_IO_STREAM_BUF_DATA_SIZE \<Longrightarrow>
     write_offset s + length chunk < 2 ^ 32 \<Longrightarrow> stream_rep (s'\<lparr>write_offset := write_offset s + length chunk\<rparr>) bs"
proof -
  let ?D = K_IO_STREAM_BUF_DATA_SIZE and ?o = "write_offset s mod K_IO_STREAM_BUF_DATA_SIZE"
  obtain cs where cs: "bs = cs @ [b]" "length cs = write_offset s div ?D"
      "take (write_offset s) (stream_flat s bs) = stream_flat s cs @ take ?o (buf_data (buf_at s b))"
    using stream_last [OF r] b by auto
  have lb: "length (buf_data (buf_at s b)) = ?D" and nb: "b \<notin> set cs"
    using r cs(1) by (auto simp: stream_rep_def)
  have lcs: "length (stream_flat s cs) = length cs * ?D"
    by (rule length_stream_flat) (use r cs(1) in \<open>simp add: stream_rep_def\<close>)
  have "?o < ?D" by simp
  then have oc: "?o + length chunk \<le> ?D" using c by linarith
  have w: "write_offset s + length chunk = length cs * ?D + (?o + length chunk)" using cs(2) by simp
  have "stream_flat s' bs = stream_flat s cs @ blit (buf_data (buf_at s b)) ?o chunk"
    using stream_flat_upd [OF nb, of "\<lambda>x. x\<lparr>buf_data := blit (buf_data x) ?o chunk\<rparr>" s]
    by (simp add: cs(1) s'_def stream_flat_def) (simp add: upd_buf_def)
  moreover have "take (?o + length chunk) (blit (buf_data (buf_at s b)) ?o chunk) = take ?o (buf_data (buf_at s b)) @ chunk"
    using oc lb by (simp add: blit_def)
  ultimately show "take (write_offset s + length chunk) (stream_flat s' bs) = take (write_offset s) (stream_flat s bs) @ chunk"
    unfolding cs(3) w by (simp add: lcs)
  assume "length chunk < ?D - ?o" "write_offset s + length chunk < 2 ^ 32"
  moreover have "next_of (s'\<lparr>write_offset := w'\<rparr>) = next_of s" for w'
    by (auto simp: next_of_def s'_def upd_buf_def)
  ultimately show "stream_rep (s'\<lparr>write_offset := write_offset s + length chunk\<rparr>) bs"
    using r oc lb div_step(2) [of ?D "length chunk" "write_offset s"]
    by (simp add: stream_rep_def s'_def upd_buf_def)
qed

text \<open>The last buffer is filled up and a new one is linked behind it.\<close>

definition grow_stream :: "nat \<Rightarrow> nat \<Rightarrow> bytes \<Rightarrow> k_io_stream_t \<Rightarrow> k_io_stream_t" where
  "grow_stream b h chunk s = s\<lparr>heap_bufs := tl (heap_bufs s), last_buffer := Some h, write_buffer := Some h,
     buf_at := (buf_at s)(b := (buf_at s b)\<lparr>buf_next := Some h,
         buf_data := blit (buf_data (buf_at s b)) (write_offset s mod K_IO_STREAM_BUF_DATA_SIZE) chunk\<rparr>,
       h := (buf_at s h)\<lparr>buf_prev := Some b\<rparr>),
     write_offset := write_offset s + length chunk\<rparr>"

lemma stream_grow:
  assumes r: "stream_rep s bs" and c: "length chunk = K_IO_STREAM_BUF_DATA_SIZE - write_offset s mod K_IO_STREAM_BUF_DATA_SIZE"
    and b: "write_buffer s = Some b" and h: "heap_bufs s = h # hs" and w: "write_offset s + length chunk < 2 ^ 32"
  shows "take (write_offset s + length chunk) (stream_flat (grow_stream b h chunk s) (bs @ [h])) =
      take (write_offset s) (stream_flat s bs) @ chunk"
    "stream_rep (grow_stream b h chunk s) (bs @ [h])"
proof -
  let ?D = K_IO_STREAM_BUF_DATA_SIZE and ?s = "grow_stream b h chunk s"
  let ?s1 = "upd_buf b (\<lambda>x. x\<lparr>buf_data := blit (buf_data x) (write_offset s mod ?D) chunk\<rparr>) s"
  have lw: "last bs = b" "bs \<noteq> []" "h \<notin> set bs" "distinct (bs @ h # hs)"
      "length bs = write_offset s div ?D + 1"
    using r b h by (auto simp: stream_rep_def)
  have bm: "b \<in> set bs" using lw(1,2) last_in_set by blast
  have hb: "h \<noteq> b" using lw(3) bm by blast
  have data: "buf_data (buf_at ?s x) = buf_data (buf_at ?s1 x)" for x
    using hb by (simp add: grow_stream_def upd_buf_def)
  have off: "write_offset s mod ?D < ?D" by simp
  have len: "length (buf_data (buf_at ?s1 x)) = ?D" if "x \<in> set bs \<union> set (heap_bufs s)" for x
    using that r c bm off by (auto simp: stream_rep_def upd_buf_def)
  have q: "(write_offset s + length chunk) div ?D = write_offset s div ?D + 1" using c div_step(1) [of ?D "write_offset s"] by simp
  have "write_offset s + length chunk = (write_offset s div ?D + 1) * ?D"
    unfolding c using off by (simp add: minus_mod_eq_div_mult [symmetric])
  then have wl: "write_offset s + length chunk = length bs * ?D" unfolding lw(5) .
  have fl: "stream_flat ?s (bs @ [h]) = stream_flat ?s1 bs @ buf_data (buf_at ?s1 h)"
    unfolding stream_flat_def by (simp add: data)
  have "length (stream_flat ?s1 bs) = length bs * ?D" by (rule length_stream_flat) (use len in blast)
  then have "take (write_offset s + length chunk) (stream_flat ?s (bs @ [h])) = take (write_offset s + length chunk) (stream_flat ?s1 bs)"
    unfolding fl wl by simp
  then show "take (write_offset s + length chunk) (stream_flat ?s (bs @ [h])) = take (write_offset s) (stream_flat s bs) @ chunk"
    using stream_store(1) [OF r _ b, of chunk] c by simp
  have nx: "next_of ?s = (next_of s)(b := Some h)"
    using hb by (auto simp: next_of_def grow_stream_def fun_eq_iff)
  have nh: "next_of s h = None" using r h by (simp add: stream_rep_def)
  have ch: "chain ((next_of s)(last bs := Some h, h := None)) (stream_buffers s) (bs @ [h])"
    using r lw(2,3) by (intro chain_snoc) (simp_all add: stream_rep_def)
  have "(next_of s)(b := Some h, h := None) = (next_of s)(b := Some h)" using nh hb by auto
  then have chain: "chain (next_of ?s) (stream_buffers ?s) (bs @ [h])"
    using ch lw(1) nx by (simp add: grow_stream_def)
  have rb: "read_offset s div ?D < length bs" using r lw(5) by (simp add: stream_rep_def div_le_mono le_imp_less_Suc)
  have heap: "\<forall>x \<in> set hs. next_of ?s x = None"
    using r h lw(4) bm unfolding nx by (auto simp: stream_rep_def)
  have "\<forall>x \<in> set (bs @ [h]) \<union> set hs. length (buf_data (buf_at ?s x)) = ?D"
    unfolding data using len h by auto
  then show "stream_rep ?s (bs @ [h])"
    using r chain heap h q w lw rb
    by (simp add: stream_rep_def grow_stream_def nth_append)
qed

text \<open>The new buffers that a write of \<open>n\<close> bytes takes from the heap.\<close>

definition new_buffers :: "k_io_stream_t \<Rightarrow> nat \<Rightarrow> nat" where
  "new_buffers s n = (write_offset s + n) div K_IO_STREAM_BUF_DATA_SIZE - write_offset s div K_IO_STREAM_BUF_DATA_SIZE"

definition stream_room :: "k_io_stream_t \<Rightarrow> nat \<Rightarrow> bool" where
  "stream_room s n \<longleftrightarrow> write_offset s + n < 2 ^ 32 \<and> new_buffers s n \<le> length (heap_bufs s)"

text \<open>One round of the copy loop.\<close>

lemma write_stream_loop_step:
  assumes r: "stream_rep s bs" and n: "n \<noteq> 0" "k + n \<le> length d" "write_offset s + n < 2 ^ 32"
    and heap: "new_buffers s (n + m) \<le> length (heap_bufs s)"
  defines "c \<equiv> min (K_IO_STREAM_BUF_DATA_SIZE - write_offset s mod K_IO_STREAM_BUF_DATA_SIZE) n"
  shows "\<exists>s' bs'. write_stream_loop n k d s = write_stream_loop (n - c) (k + c) d s' \<and> stream_rep s' bs' \<and>
    write_offset s' = write_offset s + c \<and> read_offset s' = read_offset s \<and> available_count s' = available_count s \<and>
    read_buffer s' = read_buffer s \<and> new_buffers s' (n - c + m) \<le> length (heap_bufs s') \<and>
    take (write_offset s') (stream_flat s' bs') = take (write_offset s) (stream_flat s bs) @ take c (drop k d)"
proof -
  let ?D = K_IO_STREAM_BUF_DATA_SIZE and ?o = "write_offset s mod K_IO_STREAM_BUF_DATA_SIZE" and ?ch = "take c (drop k d)"
  obtain b where b: "write_buffer s = Some b" "next_of s b = None" "last_buffer s = Some b" "b = last bs" "b \<in> set bs"
    using stream_last [OF r] by force
  have o: "?o < ?D" by simp
  have c: "0 < c" "c \<le> n" "?o + c \<le> ?D"
    using o n(1) unfolding c_def by linarith+
  have lb: "length (buf_data (buf_at s b)) = ?D" using r b(5) by (simp add: stream_rep_def)
  have lch: "length ?ch = c" using n(2) c(2) by simp
  have copy: "copy_bytes (buf_data (buf_at s b)) ?o d k c = Some (blit (buf_data (buf_at s b)) ?o ?ch)"
    using lb c n(2) by (simp add: copy_bytes_def)
  have w: "(write_offset s + c) mod 2 ^ 32 = write_offset s + c" using n(3) c(2) by simp
  have nb: "write_offset s' = write_offset s + c \<Longrightarrow> new_buffers s (n + m) = new_buffers s' (n - c + m) +
      ((write_offset s + c) div ?D - write_offset s div ?D)" for s' :: k_io_stream_t
    using c(2) div_le_mono [of "write_offset s" "write_offset s + c" ?D] div_le_mono [of "write_offset s + c" "write_offset s + (n + m)" ?D]
    by (simp add: new_buffers_def)
  show ?thesis
  proof (cases "?D - ?o \<le> n")
    case False
    let ?s = "upd_buf b (\<lambda>x. x\<lparr>buf_data := blit (buf_data x) ?o ?ch\<rparr>) s\<lparr>write_offset := write_offset s + c\<rparr>"
    have run: "write_stream_loop n k d s = write_stream_loop (n - c) (k + c) d ?s"
      using False n(1) b(1) copy w
      by (subst write_stream_loop.simps) (simp add: Let_def c_def [symmetric] upd_buf_def)
    have "length ?ch < ?D - ?o" using False lch c(2) by linarith
    then have rep: "stream_rep ?s bs" using stream_store(2) [OF r _ b(1), of ?ch] lch n(3) c(2) by simp
    have flat: "take (write_offset s + c) (stream_flat ?s bs) = take (write_offset s) (stream_flat s bs) @ ?ch"
      using stream_store(1) [OF r _ b(1), of ?ch] lch c(3) by (simp add: stream_flat_def)
    have "new_buffers ?s (n - c + m) \<le> length (heap_bufs s)" using nb [of ?s] heap by simp
    then show ?thesis
      by (intro exI [of _ ?s] exI [of _ bs]) (use run rep flat in \<open>simp add: upd_buf_def\<close>)
  next
    case True
    then have cD: "c = ?D - ?o" by (simp add: c_def)
    then have q: "(write_offset s + c) div ?D = write_offset s div ?D + 1" using div_step(1) [of ?D "write_offset s"] by simp
    then obtain h hs where h: "heap_bufs s = h # hs" using heap nb [of "s\<lparr>write_offset := write_offset s + c\<rparr>"] by (cases "heap_bufs s") auto
    let ?s = "grow_stream b h ?ch s"
    have hb: "h \<noteq> b" using r h b(5) by (auto simp: stream_rep_def)
    obtain f where st: "stream_buffers s = Some f" "free_buffers s = None"
      using r b(5) by (cases "stream_buffers s") (simp_all add: stream_rep_def)
    have nn: "buf_next (buf_at s b) = None" using b(2) by (simp add: next_of_def)
    have run: "write_stream_loop n k d s = write_stream_loop (n - c) (k + c) d ?s"
      using True n(1) b(1,3) copy w h hb st nn lch
      by (subst write_stream_loop.simps)
        (simp add: Let_def c_def [symmetric] upd_buf_def k_io_AllocStreamBuffer_def grow_stream_def fun_upd_twist)
    have lr: "length ?ch = ?D - ?o" using lch cD by simp
    have wl: "write_offset s + length ?ch < 2 ^ 32" using lch n(3) c(2) by simp
    have "new_buffers ?s (n - c + m) \<le> length hs"
      using nb [of ?s] heap q h lch by (simp add: grow_stream_def)
    then show ?thesis
      using run stream_grow [OF r lr b(1) h wl] lch h
      by (intro exI [of _ ?s] exI [of _ "bs @ [h]"]) (simp add: grow_stream_def)
  qed
qed

lemma write_stream_loop_ok:
  assumes "stream_rep s bs" "k + n \<le> length d" "write_offset s + n < 2 ^ 32" "new_buffers s (n + e) \<le> length (heap_bufs s)"
  shows "\<exists>s' bs'. write_stream_loop n k d s = Some (k + n, s') \<and> stream_rep s' bs' \<and>
    write_offset s' = write_offset s + n \<and> read_offset s' = read_offset s \<and> available_count s' = available_count s \<and>
    new_buffers s' e \<le> length (heap_bufs s') \<and>
    take (write_offset s') (stream_flat s' bs') = take (write_offset s) (stream_flat s bs) @ take n (drop k d)"
  using assms
proof (induction n arbitrary: s bs k rule: less_induct)
  case (less n)
  let ?c = "min (K_IO_STREAM_BUF_DATA_SIZE - write_offset s mod K_IO_STREAM_BUF_DATA_SIZE) n"
  show ?case
  proof (cases "n = 0")
    case True
    then show ?thesis using less.prems
      by (intro exI [of _ s] exI [of _ bs]) (simp add: write_stream_loop.simps)
  next
    case False
    obtain s1 bs1 where step: "write_stream_loop n k d s = write_stream_loop (n - ?c) (k + ?c) d s1" "stream_rep s1 bs1"
        "write_offset s1 = write_offset s + ?c" "read_offset s1 = read_offset s" "available_count s1 = available_count s"
        "new_buffers s1 (n - ?c + e) \<le> length (heap_bufs s1)"
        "take (write_offset s1) (stream_flat s1 bs1) = take (write_offset s) (stream_flat s bs) @ take ?c (drop k d)"
      using write_stream_loop_step [OF less.prems(1) False less.prems(2,3,4)] by blast
    have c: "?c \<le> n" "0 < ?c" using False buffer_room by auto
    define m where "m = n - ?c"
    have m: "m < n" "n = ?c + m" using c unfolding m_def by linarith+
    have p: "k + ?c + m \<le> length d" "write_offset s1 + m < 2 ^ 32"
      using less.prems(2,3) step(3) m(2) by linarith+
    obtain s2 bs2 where ih: "write_stream_loop m (k + ?c) d s1 = Some (k + ?c + m, s2)" "stream_rep s2 bs2"
        "write_offset s2 = write_offset s1 + m" "read_offset s2 = read_offset s1" "available_count s2 = available_count s1"
        "new_buffers s2 e \<le> length (heap_bufs s2)"
        "take (write_offset s2) (stream_flat s2 bs2) = take (write_offset s1) (stream_flat s1 bs1) @ take m (drop (k + ?c) d)"
      using less.IH [OF m(1) step(2) p step(6) [folded m_def]] by blast
    have "take ?c (drop k d) @ take m (drop (k + ?c) d) = take n (drop k d)"
      using take_add [of ?c m "drop k d"] unfolding m(2) [symmetric] by (simp add: add.commute)
    then have "take (write_offset s2) (stream_flat s2 bs2) = take (write_offset s) (stream_flat s bs) @ take n (drop k d)"
      unfolding ih(7) step(7) by simp
    moreover have "k + ?c + m = k + n" "write_offset s2 = write_offset s + n"
      using m(2) ih(3) step(3) by linarith+
    ultimately show ?thesis
      using ih(1,2,4,5,6) step(1,4,5) unfolding m_def [symmetric] by (intro exI [of _ s2] exI [of _ bs2]) simp
  qed
qed

section \<open>The operations on whole streams\<close>

lemma write_in_last: "stream_rep s bs \<Longrightarrow> write_offset s < length bs * K_IO_STREAM_BUF_DATA_SIZE"
  using dividend_less_div_times [OF data_size_pos, of "write_offset s"] by (simp add: stream_rep_def)

lemma stream_bytes_length:
  assumes "stream_ok s"
  shows "length (stream_bytes s) = available_count s"
proof -
  obtain bs where r: "stream_rep s bs" and a: "available_count s = write_offset s - read_offset s"
    using assms by (auto simp: stream_ok_def)
  have "write_offset s < length bs * K_IO_STREAM_BUF_DATA_SIZE"
    using r by (rule write_in_last)
  moreover have "length (stream_flat s bs) = length bs * K_IO_STREAM_BUF_DATA_SIZE"
    by (rule length_stream_flat) (use r in \<open>simp add: stream_rep_def\<close>)
  ultimately show ?thesis using stream_bytes_rep [OF r] a by simp
qed

lemma write_stream_ok:
  assumes ok: "stream_ok s" and d0: "d \<noteq> []" and room: "stream_room s (length d + e)"
  shows "\<exists>s'. k_io_WriteStreamData (Some s) (Some d) (length d) = Some (K_STATUS_OK, Some s') \<and>
    stream_ok s' \<and> stream_bytes s' = stream_bytes s @ d \<and> stream_room s' e"
proof -
  have d: "d \<noteq> []" "write_offset s + length d < 2 ^ 32" and re: "write_offset s + length d + e < 2 ^ 32"
    and heap: "new_buffers s (length d + e) \<le> length (heap_bufs s)"
    using d0 room by (auto simp: stream_room_def)
  obtain bs where r: "stream_rep s bs" and a: "available_count s = write_offset s - read_offset s"
    using ok by (auto simp: stream_ok_def)
  obtain s1 bs1 where w: "write_stream_loop (length d) 0 d s = Some (length d, s1)" "stream_rep s1 bs1"
      "write_offset s1 = write_offset s + length d" "read_offset s1 = read_offset s" "available_count s1 = available_count s"
      "new_buffers s1 e \<le> length (heap_bufs s1)"
      "take (write_offset s1) (stream_flat s1 bs1) = take (write_offset s) (stream_flat s bs) @ d"
    using write_stream_loop_ok [OF r _ d(2) heap, of 0 d] by auto
  let ?s = "s1\<lparr>available_count := (available_count s1 + length d) mod 2 ^ 32\<rparr>"
  obtain b where nb: "stream_flags s AND K_IO_STREAM_FLAG_BLOCKED = 0" "read_buffer s1 = Some b" "read_offset s \<le> write_offset s"
    using r w(2) by (auto simp: stream_rep_def)
  have run: "k_io_WriteStreamData (Some s) (Some d) (length d) = Some (K_STATUS_OK, Some ?s)"
    using nb(1,2) d(1) w(1) by (simp add: k_io_WriteStreamData_def write_stream_data_def Let_def)
  have "next_of ?s = next_of s1" by (auto simp: next_of_def)
  then have rep: "stream_rep ?s bs1" using w(2) by (simp add: stream_rep_def)
  have len: "length (stream_bytes s) = write_offset s - read_offset s" using stream_bytes_length [OF ok] a by simp
  have "stream_flat ?s bs1 = stream_flat s1 bs1" by (simp add: stream_flat_def)
  moreover have "length (stream_flat s bs) = length bs * K_IO_STREAM_BUF_DATA_SIZE"
    by (rule length_stream_flat) (use r in \<open>simp add: stream_rep_def\<close>)
  then have "length (take (write_offset s) (stream_flat s bs)) = write_offset s" using write_in_last [OF r] by simp
  ultimately have "stream_bytes ?s = stream_bytes s @ d"
    unfolding stream_bytes_rep [OF rep] stream_bytes_rep [OF r] using w(4,7) nb(3)
    by (simp del: length_take take_append)
  moreover have "stream_ok ?s" using rep a w(3,4,5) d(2) nb(3) by (auto simp: stream_ok_def)
  moreover have "stream_room ?s e" using w(3,6) re by (simp add: stream_room_def new_buffers_def)
  ultimately show ?thesis using run by blast
qed

lemma read_stream_ok:
  assumes ok: "stream_ok s" and n: "0 < n" "stream_bytes s \<noteq> []" "min n (length (stream_bytes s)) \<le> length d"
  shows "\<exists>s'. k_io_ReadStreamData (Some s) (Some d) n = Some (K_STATUS_OK, Some (blit d 0 (take n (stream_bytes s))), Some s') \<and>
    stream_ok s' \<and> stream_bytes s' = drop n (stream_bytes s)"
proof -
  obtain bs where r: "stream_rep s bs" and a: "available_count s = write_offset s - read_offset s"
    using ok by (auto simp: stream_ok_def)
  let ?n = "min n (available_count s)"
  have len: "length (stream_bytes s) = write_offset s - read_offset s" using stream_bytes_length [OF ok] a by simp
  have wo: "write_offset s < length bs * K_IO_STREAM_BUF_DATA_SIZE"
    using r by (rule write_in_last)
  have ro: "read_offset s < write_offset s" "read_offset s + ?n \<le> write_offset s"
    using n(2) len a by (auto simp flip: length_greater_0_conv)
  let ?s1 = "s\<lparr>read_buffer := Some (bs ! ((read_offset s + ?n) div K_IO_STREAM_BUF_DATA_SIZE)), read_offset := read_offset s + ?n\<rparr>"
  let ?s2 = "?s1\<lparr>available_count := available_count s - ?n\<rparr>"
  obtain lf where loop: "read_stream_loop ?n 0 None d s = Some (?n, lf,
      blit d 0 (take ?n (drop (read_offset s) (stream_flat s bs))), ?s1)"
    using read_stream_loop_ok [of s "stream_buffers s" bs ?n 0 d None] r wo ro n(3) len a
    by (auto simp: stream_rep_def)
  have t: "take ?n (drop (read_offset s) (stream_flat s bs)) = take n (stream_bytes s)"
    unfolding stream_bytes_rep [OF r] using a ro by (simp add: min_def drop_take)
  have f: "stream_flags s AND K_IO_STREAM_FLAG_BLOCKED = 0" "stream_flags s AND K_IO_STREAM_FLAG_CLEAR_READ = 0"
      "stream_buffers s \<noteq> None"
    using r by (auto simp: stream_rep_def)
  have run: "k_io_ReadStreamData (Some s) (Some d) n = Some (K_STATUS_OK, Some (blit d 0 (take n (stream_bytes s))), Some ?s2)"
    using f n(1) ro(1) loop unfolding t by (simp add: k_io_ReadStreamData_def read_stream_data_def clear_read_buffers_def)
  have "next_of ?s2 = next_of s" by (auto simp: next_of_def)
  then have rep: "stream_rep ?s2 bs" using r ro by (simp add: stream_rep_def)
  have "stream_bytes ?s2 = drop n (stream_bytes s)"
  proof (cases "n \<le> available_count s")
    case True
    then show ?thesis unfolding stream_bytes_rep [OF rep] stream_bytes_rep [OF r] by (simp add: stream_flat_def add.commute)
  next
    case False
    then have "?n = available_count s" by simp
    then show ?thesis using False len a ro unfolding stream_bytes_rep [OF rep] by simp
  qed
  moreover have "stream_ok ?s2" using rep a ro by (auto simp: stream_ok_def)
  ultimately show ?thesis using run by blast
qed

lemma alloc_stream_ok:
  assumes "distinct (h # hs)" "\<forall>b \<in> set (h # hs). length (buf_data (bufs b)) = K_IO_STREAM_BUF_DATA_SIZE \<and> buf_next (bufs b) = None"
  shows "\<exists>s. k_io_AllocStream flags bufs (h # hs) = Some s \<and> stream_ok s \<and> stream_bytes s = [] \<and>
    write_offset s = 0 \<and> heap_bufs s = hs"
proof -
  obtain s where s: "k_io_AllocStream flags bufs (h # hs) = Some s"
      "s = \<lparr>read_offset = 0, write_offset = 0, available_count = 0,
        stream_flags = flags AND (K_IO_STREAM_FLAG_READ OR K_IO_STREAM_FLAG_WRITE), stream_condition = False,
        stream_buffers = Some h, last_buffer = Some h, read_buffer = Some h, write_buffer = Some h, free_buffers = None,
        buf_at = bufs(h := (bufs h)\<lparr>buf_prev := None\<rparr>), heap_bufs = hs\<rparr>"
    by (simp add: k_io_AllocStream_def k_io_AllocStreamBuffer_def upd_buf_def Let_def)
  have "(K_IO_STREAM_FLAG_READ OR K_IO_STREAM_FLAG_WRITE) AND K_IO_STREAM_FLAG_BLOCKED = 0"
      "(K_IO_STREAM_FLAG_READ OR K_IO_STREAM_FLAG_WRITE) AND K_IO_STREAM_FLAG_CLEAR_READ = 0"
    by (simp_all add: K_IO_STREAM_FLAG_READ_def K_IO_STREAM_FLAG_WRITE_def K_IO_STREAM_FLAG_BLOCKED_def K_IO_STREAM_FLAG_CLEAR_READ_def)
  then have "stream_rep s [h]"
    using assms by (auto simp: s(2) stream_rep_def next_of_def and.assoc)
  then show ?thesis using s stream_bytes_rep [of s "[h]"] by (auto simp: stream_ok_def)
qed



section \<open>A stream as a queue\<close>

definition stream_fresh :: "k_io_stream_t \<Rightarrow> u8 \<Rightarrow> bool" where
  "stream_fresh s v \<longleftrightarrow> stream_room s 1"

definition stream_put :: "k_io_stream_t \<Rightarrow> u8 \<Rightarrow> k_io_stream_t" where
  "stream_put s v = (case k_io_WriteStreamData (Some s) (Some [v]) 1 of Some (r, Some s') \<Rightarrow> s' | _ \<Rightarrow> s)"

definition stream_get :: "k_io_stream_t \<Rightarrow> u8 option \<times> k_io_stream_t" where
  "stream_get s = (case k_io_ReadStreamData (Some s) (Some [0]) 1 of
     Some (r, Some d, Some s') \<Rightarrow> (if r = K_STATUS_OK then (Some (hd d), s') else (None, s)) | _ \<Rightarrow> (None, s))"

lemma stream_put_ok:
  "stream_ok s \<Longrightarrow> stream_fresh s v \<Longrightarrow> stream_ok (stream_put s v) \<and> stream_bytes (stream_put s v) = stream_bytes s @ [v]"
  using write_stream_ok [of s "[v]" 0] by (auto simp: stream_put_def stream_fresh_def)

lemma stream_get_ok:
  assumes "stream_ok s"
  shows "stream_ok (snd (stream_get s)) \<and> stream_bytes (snd (stream_get s)) = tl (stream_bytes s) \<and>
    fst (stream_get s) = (case stream_bytes s of [] \<Rightarrow> None | x # _ \<Rightarrow> Some x)"
proof (cases "stream_bytes s")
  case Nil
  then have "read_offset s = write_offset s" "stream_flags s AND K_IO_STREAM_FLAG_BLOCKED = 0"
    using assms stream_bytes_length [OF assms] by (auto simp: stream_ok_def stream_rep_def)
  then have "stream_get s = (None, s)"
    by (simp add: stream_get_def k_io_ReadStreamData_def read_stream_data_def)
  then show ?thesis using Nil assms by simp
next
  case (Cons x xs)
  then show ?thesis using read_stream_ok [OF assms, of 1 "[0]"] by (auto simp: stream_get_def blit_def drop_Suc)
qed

interpretation io: fifo stream_ok stream_bytes stream_fresh stream_put stream_get
  by unfold_locales (simp_all add: stream_put_ok stream_get_ok)

lemma k_io_AllocStream_fill_drain:
  assumes "distinct (h # hs)" "\<forall>b \<in> set (h # hs). length (buf_data (bufs b)) = K_IO_STREAM_BUF_DATA_SIZE \<and> buf_next (bufs b) = None"
    and "k_io_AllocStream flags bufs (h # hs) = Some s" "fill_ok stream_fresh stream_put s xs"
  shows "fst (drain stream_get n (fill stream_put s xs)) = take n xs"
  using alloc_stream_ok [OF assms(1,2), of flags] assms(3,4) by (intro io.fill_drain) auto

end
