(* ===== verification/Sys_Term.thy ===== *)
theory Sys_Term
  imports Prelude "HOL-Library.Signed_Division"
begin

text \<open>
  The terminal of \<open>kernel/sys/term.c\<close> and the text mode output of \<open>kernel/gfx/k_vga.c\<close> that it uses:
  a ring of lines in memory, of which the display shows as many as it has rows. The cursors and
  sizes are the signed integers of the source; the state also holds the video memory and the
  cursor position of the controller. The lemmas show that the cursors stay inside the ring and
  the display, which texts overrun the ring, and what a line read from the keyboard holds.
\<close>

section \<open>State\<close>

record terminal =
  output_buffer :: "u16 list"
  term_width :: int
  term_height :: int
  term_color :: u8
  cursor_x :: int
  buffer_cursor_y :: int
  display_cursor_y :: int
  scroll_y :: int
  vga_width :: nat
  vga_height :: nat
  vga_mem :: "u16 list"
  vga_cursor :: u16

definition K_SYS_TERM_OUTPUT_BUFFER_LINES :: int where
  "K_SYS_TERM_OUTPUT_BUFFER_LINES = 8192"

definition K_SYS_TERM_COLOR_BLACK :: u8 where "K_SYS_TERM_COLOR_BLACK = 0"
definition K_SYS_TERM_COLOR_WHITE :: u8 where "K_SYS_TERM_COLOR_WHITE = 15"

text \<open>Accesses to the ring with a signed index.\<close>

definition rdi :: "'a list \<Rightarrow> int \<Rightarrow> 'a option" where
  "rdi xs i = (if 0 \<le> i then rd xs (nat i) else None)"

definition wri :: "'a list \<Rightarrow> int \<Rightarrow> 'a \<Rightarrow> 'a list option" where
  "wri xs i v = (if 0 \<le> i then wr xs (nat i) v else None)"

definition put_cell :: "int \<Rightarrow> u16 \<Rightarrow> terminal \<Rightarrow> terminal option" where
  "put_cell i c t = do { b \<leftarrow> wri (output_buffer t) i c; Some (t\<lparr>output_buffer := b\<rparr>) }"

definition k_sys_TerminalChar :: "u8 \<Rightarrow> u8 \<Rightarrow> u16" where
  "k_sys_TerminalChar ch color = push_bit 8 (ucast color) OR ucast ch"

section \<open>Display\<close>

definition k_gfx_SetVgaCursorPos :: "u32 \<Rightarrow> u32 \<Rightarrow> terminal \<Rightarrow> terminal" where
  "k_gfx_SetVgaCursorPos x y t = t\<lparr>vga_cursor := ucast (x + y * word_of_nat (vga_width t))\<rparr>"

text \<open>\<open>text\<close> is the offset of the text in the ring; the counts have 16 bits.\<close>

definition k_gfx_BlitTextBuffer :: "int \<Rightarrow> u16 \<Rightarrow> u16 \<Rightarrow> u16 \<Rightarrow> terminal \<Rightarrow> terminal option" where
  "k_gfx_BlitTextBuffer text_start start_x start_y count t =
     (if unat start_x < vga_width t \<and> unat start_y < vga_height t then
        if text_start < 0 then None
        else do {
          m \<leftarrow> copy_bytes (vga_mem t) (unat start_x + unat start_y * vga_width t) (output_buffer t) (nat text_start) (unat count);
          Some (t\<lparr>vga_mem := m\<rparr>)
        }
      else Some t)"

definition k_sys_TerminalSetCursorPos :: "int \<Rightarrow> int \<Rightarrow> terminal \<Rightarrow> terminal" where
  "k_sys_TerminalSetCursorPos x y t =
     k_gfx_SetVgaCursorPos (word_of_int x) (word_of_int y) (t\<lparr>cursor_x := x, display_cursor_y := y\<rparr>)"

definition k_sys_TerminalUpdate :: "terminal \<Rightarrow> terminal option" where
  "k_sys_TerminalUpdate t = do {
     let buffer_rows_count = (word_of_int (term_height t - scroll_y t) :: u32);
     let w = (word_of_int (term_width t) :: u32);
     t \<leftarrow> (if unat buffer_rows_count < vga_height t then do {
         t \<leftarrow> k_gfx_BlitTextBuffer (scroll_y t * term_width t) 0 0 (ucast (buffer_rows_count * w)) t;
         k_gfx_BlitTextBuffer 0 0 (ucast buffer_rows_count)
           (ucast ((word_of_nat (vga_height t) - buffer_rows_count) * w)) t
       }
       else k_gfx_BlitTextBuffer (scroll_y t * term_width t) 0 0 (ucast (word_of_nat (vga_height t) * w)) t);
     Some (k_sys_TerminalSetCursorPos (cursor_x t) (display_cursor_y t) t)
   }"

definition k_sys_TerminalScroll :: "int \<Rightarrow> terminal \<Rightarrow> terminal option" where
  "k_sys_TerminalScroll lines t = do {
     t \<leftarrow> (if lines \<noteq> 0 then do {
         s \<leftarrow> int32 (scroll_y t + lines);
         d \<leftarrow> int32 (display_cursor_y t - lines);
         Some (t\<lparr>scroll_y := if s < 0 then s + term_height t
             else if s \<ge> term_height t then s smod term_height t else s,
           display_cursor_y := d\<rparr>)
       }
       else Some t);
     k_sys_TerminalUpdate t
   }"

definition k_sys_TerminalSetColor :: "u8 \<Rightarrow> u8 \<Rightarrow> terminal \<Rightarrow> terminal" where
  "k_sys_TerminalSetColor text_color back_color t =
     t\<lparr>term_color := push_bit 4 back_color OR (text_color AND 0x0f)\<rparr>"

section \<open>Writing\<close>

definition k_sys_TerminalCarriageReturn :: "terminal \<Rightarrow> terminal" where
  "k_sys_TerminalCarriageReturn t = t\<lparr>cursor_x := 0\<rparr>"

definition k_sys_TerminalPrevLine :: "terminal \<Rightarrow> terminal option" where
  "k_sys_TerminalPrevLine t = do {
     d \<leftarrow> int32 (display_cursor_y t - 1);
     let y = buffer_cursor_y t - 1;
     Some (t\<lparr>cursor_x := term_width t - 1, buffer_cursor_y := if y < 0 then y + term_height t else y,
       display_cursor_y := d\<rparr>)
   }"

definition k_sys_TerminalNewLine :: "terminal \<Rightarrow> terminal option" where
  "k_sys_TerminalNewLine t = do {
     d \<leftarrow> int32 (display_cursor_y t + 1);
     Some (t\<lparr>cursor_x := 0, buffer_cursor_y := (buffer_cursor_y t + 1) smod term_height t, display_cursor_y := d\<rparr>)
   }"

text \<open>The search for the end of the previous line, from the cursor to the left.\<close>

fun find_newline :: "nat \<Rightarrow> terminal \<Rightarrow> terminal option" where
  "find_newline 0 t = Some t"
| "find_newline (Suc cursor) t = do {
     c \<leftarrow> rdi (output_buffer t) (int cursor + buffer_cursor_y t * term_width t);
     if c AND 0xff = 10 then Some (t\<lparr>cursor_x := if cursor = 0 then 0 else int cursor - 1\<rparr>)
     else find_newline cursor t
   }"

definition k_sys_TerminalBackSpace :: "terminal \<Rightarrow> terminal option" where
  "k_sys_TerminalBackSpace t = do {
     t \<leftarrow> (if cursor_x t \<noteq> 0 then Some (t\<lparr>cursor_x := cursor_x t - 1\<rparr>)
       else do {
         t \<leftarrow> k_sys_TerminalPrevLine t;
         find_newline (nat (cursor_x t + 1)) t
       });
     put_cell (cursor_x t + buffer_cursor_y t * term_width t) (k_sys_TerminalChar 32 (term_color t)) t
   }"

definition k_sys_TerminalPutSingleChar :: "u8 \<Rightarrow> terminal \<Rightarrow> terminal option" where
  "k_sys_TerminalPutSingleChar c t =
     (if c = 10 then k_sys_TerminalNewLine t
      else if c = 0x10 then k_sys_TerminalBackSpace t
      else if c = 13 then Some (k_sys_TerminalCarriageReturn t)
      else do {
        t \<leftarrow> put_cell (cursor_x t + buffer_cursor_y t * term_width t) (k_sys_TerminalChar c (term_color t)) t;
        let t = t\<lparr>cursor_x := cursor_x t + 1\<rparr>;
        if cursor_x t \<ge> term_width t then k_sys_TerminalNewLine t else Some t
      })"

fun put_chars :: "bytes \<Rightarrow> terminal \<Rightarrow> terminal option" where
  "put_chars [] t = None"
| "put_chars (c # str) t = (if c = 0 then Some t else Option.bind (k_sys_TerminalPutSingleChar c t) (put_chars str))"

fun fill_cells :: "nat \<Rightarrow> int \<Rightarrow> u16 \<Rightarrow> terminal \<Rightarrow> terminal option" where
  "fill_cells 0 i c t = Some t"
| "fill_cells (Suc n) i c t = Option.bind (put_cell i c t) (fill_cells n (i + 1) c)"

fun clear_rows :: "nat \<Rightarrow> int \<Rightarrow> u16 \<Rightarrow> terminal \<Rightarrow> terminal option" where
  "clear_rows 0 clear_start c t = Some t"
| "clear_rows (Suc n) clear_start c t =
     Option.bind (fill_cells (nat (term_width t)) (clear_start * term_width t) c t) (clear_rows n (clear_start + 1) c)"

definition puts_scroll :: "terminal \<Rightarrow> int" where
  "puts_scroll t = (if display_cursor_y t < 0 then display_cursor_y t
     else if display_cursor_y t \<ge> int (vga_height t) then 1 + (display_cursor_y t - int (vga_height t)) else 0)"

definition k_sys_TerminalPuts :: "bytes \<Rightarrow> terminal \<Rightarrow> terminal option" where
  "k_sys_TerminalPuts str t = do {
     t \<leftarrow> put_chars str t;
     let scroll = puts_scroll t;
     t \<leftarrow> (if 0 < scroll
       then clear_rows (nat scroll) ((buffer_cursor_y t + 1) smod term_height t) (k_sys_TerminalChar 32 (term_color t)) t
       else Some t);
     k_sys_TerminalScroll scroll t
   }"

definition k_sys_TerminalPutChar :: "u8 \<Rightarrow> terminal \<Rightarrow> terminal option" where
  "k_sys_TerminalPutChar ch t = k_sys_TerminalPuts [ch, 0] t"

text \<open>Clearing the whole ring, and the state at start: \<open>garbage\<close> is what the heap memory of the ring holds.\<close>

definition k_sys_TerminalClear :: "terminal \<Rightarrow> terminal option" where
  "k_sys_TerminalClear t = do {
     t \<leftarrow> clear_rows (nat (term_height t)) 0 (k_sys_TerminalChar 32 (term_color t)) t;
     k_sys_TerminalUpdate (k_sys_TerminalSetCursorPos 0 0 (t\<lparr>buffer_cursor_y := 0, scroll_y := 0\<rparr>))
   }"

definition k_sys_TerminalInit :: "u16 list \<Rightarrow> terminal \<Rightarrow> terminal option" where
  "k_sys_TerminalInit garbage t = do {
     let t = t\<lparr>term_width := int (vga_width t), term_height := K_SYS_TERM_OUTPUT_BUFFER_LINES,
       output_buffer := garbage, cursor_x := 0, display_cursor_y := 0, buffer_cursor_y := 0, scroll_y := 0\<rparr>;
     let t = k_sys_TerminalSetColor K_SYS_TERM_COLOR_WHITE K_SYS_TERM_COLOR_BLACK t;
     let t = k_gfx_SetVgaCursorPos (word_of_int (cursor_x t)) (word_of_int (display_cursor_y t)) t;
     clear_rows (nat (term_height t)) 0 (k_sys_TerminalChar 32 (term_color t)) t
   }"

section \<open>Reading a line\<close>

text \<open>
  \<open>keys\<close> are the characters that the reads of the terminal stream deliver, in order; without a
  further character the read does not return.
\<close>

fun read_line_loop :: "bytes \<Rightarrow> nat \<Rightarrow> nat \<Rightarrow> bytes \<Rightarrow> terminal \<Rightarrow> (nat \<times> bytes \<times> terminal) option" where
  "read_line_loop [] buffer_size data_cursor output t = None"
| "read_line_loop (ch # keys) buffer_size data_cursor output t =
     (if ch = 0x10 then do {
        (data_cursor, output, t) \<leftarrow> (if data_cursor \<noteq> 0 then do {
            t \<leftarrow> k_sys_TerminalPutChar ch t;
            output \<leftarrow> wr output (data_cursor - 1) 0;
            Some (data_cursor - 1, output, t)
          }
          else Some (data_cursor, output, t));
        if data_cursor < buffer_size - 1 then read_line_loop keys buffer_size data_cursor output t
        else Some (data_cursor, output, t)
      }
      else do {
        t \<leftarrow> k_sys_TerminalPutChar ch t;
        if ch = 10 then Some (data_cursor, output, t)
        else do {
          output \<leftarrow> wr output data_cursor ch;
          if data_cursor + 1 < buffer_size - 1 then read_line_loop keys buffer_size (data_cursor + 1) output t
          else Some (data_cursor + 1, output, t)
        }
      })"

definition k_sys_TerminalReadLine ::
    "bytes \<Rightarrow> bytes option \<Rightarrow> nat \<Rightarrow> terminal \<Rightarrow> (nat \<times> bytes option \<times> terminal) option" where
  "k_sys_TerminalReadLine keys output buffer_size t = (case output of
      None \<Rightarrow> Some (0, None, t)
    | Some out \<Rightarrow>
        if buffer_size = 0 then Some (0, Some out, t)
        else do {
          (data_cursor, out, t) \<leftarrow> read_line_loop keys buffer_size 0 out t;
          out \<leftarrow> wr out data_cursor 0;
          Some (1, Some out, t)
        })"

section \<open>The cursors stay in the ring\<close>

text \<open>
  The ring holds \<open>term_height\<close> lines; the display starts at line \<open>scroll_y\<close> of it, and the line of
  the cursor is the same in the ring and on the display.
\<close>

definition term_ok :: "terminal \<Rightarrow> bool" where
  "term_ok t \<longleftrightarrow> 0 < vga_width t \<and> 0 < vga_height t \<and> vga_height t * vga_width t < 2 ^ 16 \<and>
     term_width t = int (vga_width t) \<and> int (vga_height t) \<le> term_height t \<and>
     term_height t * term_width t < 2 ^ 29 \<and> int (length (output_buffer t)) = term_height t * term_width t \<and>
     length (vga_mem t) = vga_height t * vga_width t \<and>
     0 \<le> cursor_x t \<and> cursor_x t < term_width t \<and> 0 \<le> buffer_cursor_y t \<and> buffer_cursor_y t < term_height t \<and>
     0 \<le> scroll_y t \<and> scroll_y t < term_height t \<and>
     (scroll_y t + display_cursor_y t) mod term_height t = buffer_cursor_y t"

lemma term_okD:
  assumes "term_ok t"
  shows "0 < vga_width t" "0 < vga_height t" "vga_height t * vga_width t < 2 ^ 16"
    "int (length (output_buffer t)) = term_height t * term_width t" "length (vga_mem t) = vga_height t * vga_width t"
    "0 \<le> buffer_cursor_y t" "buffer_cursor_y t < term_height t"
    "0 \<le> scroll_y t" "scroll_y t < term_height t"
    "(scroll_y t + display_cursor_y t) mod term_height t = buffer_cursor_y t"
    "int (vga_height t) \<le> term_height t" "term_width t = int (vga_width t)"
  by (insert assms, simp_all only: term_ok_def)

lemma ring_lines:
  assumes "term_ok t" "0 \<le> k" "k \<le> term_height t"
  shows "nat k * vga_width t \<le> length (output_buffer t)"
proof -
  have "int (nat k * vga_width t) = k * term_width t"
    using assms(2) by (simp add: term_okD(12) [OF assms(1)])
  also have "\<dots> \<le> term_height t * term_width t"
    using assms(3) by (intro mult_right_mono) (simp_all add: term_okD(12) [OF assms(1)])
  finally show ?thesis unfolding term_okD(4) [OF assms(1), symmetric] of_nat_le_iff .
qed

lemma term_ok_scroll:
  "term_ok t \<Longrightarrow> 0 \<le> s \<Longrightarrow> s < term_height t \<Longrightarrow> (s + d) mod term_height t = buffer_cursor_y t \<Longrightarrow>
   term_ok (t\<lparr>scroll_y := s, display_cursor_y := d\<rparr>)"
  unfolding term_ok_def by (elim conjE, intro conjI; simp)

lemma term_ok_display:
  "term_ok t \<Longrightarrow> length m = vga_height t * vga_width t \<Longrightarrow> term_ok (t\<lparr>vga_mem := m, vga_cursor := c\<rparr>)"
  unfolding term_ok_def by (elim conjE, intro conjI; simp)

text \<open>The cursor is on the display.\<close>

definition displayed :: "terminal \<Rightarrow> bool" where
  "displayed t \<longleftrightarrow> 0 \<le> display_cursor_y t \<and> display_cursor_y t < int (vga_height t)"

text \<open>The part of the state that output never changes.\<close>

definition same_sizes :: "terminal \<Rightarrow> terminal \<Rightarrow> bool" where
  "same_sizes t u \<longleftrightarrow> term_width u = term_width t \<and> term_height u = term_height t \<and> vga_width u = vga_width t \<and>
     vga_height u = vga_height t \<and> scroll_y u = scroll_y t \<and> vga_mem u = vga_mem t \<and> term_color u = term_color t"

lemma same_sizes_trans: "same_sizes t u \<Longrightarrow> same_sizes u v \<Longrightarrow> same_sizes t v"
  by (simp add: same_sizes_def)

lemma same_sizes_refl [simp]: "same_sizes t t"
  by (simp add: same_sizes_def)

lemma term_sizes:
  assumes "term_ok t"
  shows "0 < term_width t" "0 < term_height t" "term_height t < 2 ^ 29" "term_width t < 2 ^ 29"
proof -
  show p: "0 < term_width t" "0 < term_height t" using assms by (auto simp: term_ok_def)
  have "term_height t * 1 \<le> term_height t * term_width t" "1 * term_width t \<le> term_height t * term_width t"
    using p by (auto intro!: mult_left_mono mult_right_mono)
  moreover have "term_height t * term_width t < 2 ^ 29" using assms unfolding term_ok_def by (elim conjE)
  ultimately show "term_height t < 2 ^ 29" "term_width t < 2 ^ 29" by simp_all
qed

lemma cursor_line: "(s + d) mod h = y \<Longrightarrow> (s + (d + k)) mod h = (y + k) mod (h :: int)"
  by (metis add.assoc mod_add_left_eq)

lemma cell_in_ring:
  assumes "0 \<le> x" "x < w" "0 \<le> y" "y < (h :: int)"
  shows "0 \<le> x + y * w \<and> x + y * w < h * w"
proof -
  have "(y + 1) * w \<le> h * w" using assms by (intro mult_right_mono) auto
  then show ?thesis using assms by (simp add: distrib_right)
qed

lemma put_cell_ok:
  assumes "0 \<le> i" "i < int (length (output_buffer t))"
  shows "put_cell i c t = Some (t\<lparr>output_buffer := (output_buffer t)[nat i := c]\<rparr>)"
  using assms by (simp add: put_cell_def wri_def wr_in nat_less_iff)

lemma put_cell_out:
  assumes "int (length (output_buffer t)) \<le> i"
  shows "put_cell i c t = None"
  using assms by (simp add: put_cell_def wri_def wr_def le_nat_iff not_less)

lemma ring_cell:
  assumes "term_ok t" "0 \<le> x" "x < term_width t" "0 \<le> y" "y < term_height t"
  shows "0 \<le> x + y * term_width t \<and> x + y * term_width t < int (length (output_buffer t))"
  using cell_in_ring [OF assms(2-5)] assms(1) by (simp add: term_ok_def)

lemma int32_in: "- (2 ^ 31) \<le> i \<Longrightarrow> i < 2 ^ 31 \<Longrightarrow> int32 i = Some i"
  by (simp add: int32_def)

lemma smod_pos: "0 \<le> (a :: int) \<Longrightarrow> 0 < b \<Longrightarrow> a smod b = a mod b"
  by (cases "a = 0") (simp_all add: smod_int_alt_def)

lemma NewLine_ok:
  assumes "term_ok t" "\<bar>display_cursor_y t\<bar> < 2 ^ 30"
  shows "\<exists>u. k_sys_TerminalNewLine t = Some u \<and> term_ok u \<and> same_sizes t u \<and>
    display_cursor_y u = display_cursor_y t + 1"
proof -
  have h: "0 < term_height t" using term_sizes [OF assms(1)] by simp
  have "(buffer_cursor_y t + 1) mod term_height t = (scroll_y t + (display_cursor_y t + 1)) mod term_height t"
    by (rule cursor_line [symmetric]) (use assms(1) in \<open>simp add: term_ok_def\<close>)
  then show ?thesis using assms h
    by (auto simp: k_sys_TerminalNewLine_def int32_in term_ok_def same_sizes_def smod_pos)
qed

lemma PrevLine_ok:
  assumes "term_ok t" "\<bar>display_cursor_y t\<bar> < 2 ^ 30"
  shows "\<exists>u. k_sys_TerminalPrevLine t = Some u \<and> term_ok u \<and> same_sizes t u \<and>
    display_cursor_y u = display_cursor_y t - 1"
proof -
  let ?h = "term_height t" and ?y = "buffer_cursor_y t"
  have h: "0 < ?h" using term_sizes [OF assms(1)] by simp
  have y: "0 \<le> ?y" "?y < ?h" using assms(1) by (simp_all add: term_ok_def)
  have "(scroll_y t + (display_cursor_y t + - 1)) mod ?h = (?y + - 1) mod ?h"
    by (rule cursor_line) (use assms(1) in \<open>simp add: term_ok_def\<close>)
  then have "(scroll_y t + (display_cursor_y t - 1)) mod ?h = (?y - 1) mod ?h" by simp
  also have "\<dots> = (if ?y - 1 < 0 then ?y - 1 + ?h else ?y - 1)"
    using y h by (cases "?y = 0") (auto simp: zmod_minus1)
  finally show ?thesis using assms h y
    by (auto simp: k_sys_TerminalPrevLine_def int32_in term_ok_def same_sizes_def Let_def)
qed

lemma term_ok_cursor:
  "term_ok t \<Longrightarrow> 0 \<le> x \<Longrightarrow> x < term_width t \<Longrightarrow> term_ok (t\<lparr>cursor_x := x\<rparr>)"
  by (auto simp: term_ok_def)

lemma term_ok_buffer [simp]:
  "length b = length (output_buffer t) \<Longrightarrow> term_ok (t\<lparr>output_buffer := b\<rparr>) = term_ok t"
  by (simp add: term_ok_def)

lemma find_newline_ok:
  assumes "term_ok t" "int n \<le> term_width t"
  shows "\<exists>u. find_newline n t = Some u \<and> term_ok u \<and> same_sizes t u \<and> display_cursor_y u = display_cursor_y t"
  using assms
proof (induction n)
  case 0
  then show ?case by simp
next
  case (Suc n)
  have y: "0 \<le> buffer_cursor_y t" "buffer_cursor_y t < term_height t" "0 < term_width t"
    using Suc.prems term_sizes by (auto simp: term_ok_def)
  obtain v where v: "rdi (output_buffer t) (int n + buffer_cursor_y t * term_width t) = Some v"
    using ring_cell [OF Suc.prems(1) _ _ y(1,2), of "int n"] Suc.prems(2)
    by (auto simp: rdi_def rd_in nat_less_iff)
  show ?case
  proof (cases "v AND 0xff = 10")
    case True
    have "term_ok (t\<lparr>cursor_x := if n = 0 then 0 else int n - 1\<rparr>)"
      using Suc.prems y by (intro term_ok_cursor) auto
    then show ?thesis using v True by (simp add: same_sizes_def)
  next
    case False
    then show ?thesis using v Suc by simp
  qed
qed

lemma put_cell_cursor:
  assumes "term_ok t"
  shows "\<exists>u. put_cell (cursor_x t + buffer_cursor_y t * term_width t) c t = Some u \<and> term_ok u \<and> same_sizes t u \<and>
    display_cursor_y u = display_cursor_y t \<and> cursor_x u = cursor_x t \<and> buffer_cursor_y u = buffer_cursor_y t"
proof -
  have "0 \<le> cursor_x t + buffer_cursor_y t * term_width t \<and>
      cursor_x t + buffer_cursor_y t * term_width t < int (length (output_buffer t))"
    by (rule ring_cell) (use assms in \<open>auto simp: term_ok_def\<close>)
  then show ?thesis using assms by (simp add: put_cell_ok same_sizes_def)
qed

lemma BackSpace_ok:
  assumes "term_ok t" "\<bar>display_cursor_y t\<bar> < 2 ^ 30"
  shows "\<exists>u. k_sys_TerminalBackSpace t = Some u \<and> term_ok u \<and> same_sizes t u \<and>
    display_cursor_y u \<in> {display_cursor_y t - 1, display_cursor_y t}"
proof (cases "cursor_x t = 0")
  case True
  obtain p where p: "k_sys_TerminalPrevLine t = Some p" "term_ok p" "same_sizes t p"
      "display_cursor_y p = display_cursor_y t - 1"
    using PrevLine_ok [OF assms] by blast
  have "int (nat (cursor_x p + 1)) \<le> term_width p" using p(2) by (auto simp: term_ok_def)
  then obtain f where f: "find_newline (nat (cursor_x p + 1)) p = Some f" "term_ok f" "same_sizes p f"
      "display_cursor_y f = display_cursor_y p"
    using find_newline_ok [OF p(2)] by blast
  show ?thesis
    using True p f put_cell_cursor [OF f(2), of "k_sys_TerminalChar 32 (term_color f)"]
      same_sizes_trans [OF p(3) f(3)] same_sizes_trans [of t f] by (auto simp: k_sys_TerminalBackSpace_def)
next
  case False
  let ?l = "t\<lparr>cursor_x := cursor_x t - 1\<rparr>"
  have l: "term_ok ?l" by (rule term_ok_cursor) (use assms False in \<open>auto simp: term_ok_def\<close>)
  have "same_sizes t ?l" by (simp add: same_sizes_def)
  then show ?thesis
    using False put_cell_cursor [OF l, of "k_sys_TerminalChar 32 (term_color t)"] same_sizes_trans [of t ?l]
    by (auto simp: k_sys_TerminalBackSpace_def)
qed

lemma PutSingleChar_ok:
  assumes "term_ok t" "\<bar>display_cursor_y t\<bar> < 2 ^ 30"
  shows "\<exists>u. k_sys_TerminalPutSingleChar c t = Some u \<and> term_ok u \<and> same_sizes t u \<and>
    \<bar>display_cursor_y u - display_cursor_y t\<bar> \<le> 1"
proof -
  consider "c = 10" | "c = 0x10" | "c = 13" | "c \<notin> {10, 0x10, 13}" by blast
  then show ?thesis
  proof cases
    case 1
    then show ?thesis using NewLine_ok [OF assms] by (auto simp: k_sys_TerminalPutSingleChar_def)
  next
    case 2
    then show ?thesis using BackSpace_ok [OF assms] by (auto simp: k_sys_TerminalPutSingleChar_def)
  next
    case 3
    have "term_ok (t\<lparr>cursor_x := 0\<rparr>)" using assms term_sizes [OF assms(1)] by (intro term_ok_cursor) auto
    then show ?thesis
      using 3 by (simp add: k_sys_TerminalPutSingleChar_def k_sys_TerminalCarriageReturn_def same_sizes_def)
  next
    case 4
    obtain u where u: "put_cell (cursor_x t + buffer_cursor_y t * term_width t) (k_sys_TerminalChar c (term_color t)) t = Some u"
        "term_ok u" "same_sizes t u" "display_cursor_y u = display_cursor_y t" "cursor_x u = cursor_x t"
      using put_cell_cursor [OF assms(1)] by blast
    let ?v = "u\<lparr>cursor_x := cursor_x u + 1\<rparr>"
    have run: "k_sys_TerminalPutSingleChar c t =
        (if cursor_x u + 1 \<ge> term_width u then k_sys_TerminalNewLine ?v else Some ?v)"
      using 4 u(1) by (simp add: k_sys_TerminalPutSingleChar_def)
    show ?thesis
    proof (cases "cursor_x u + 1 \<ge> term_width u")
      case True
      have "k_sys_TerminalNewLine ?v = k_sys_TerminalNewLine u" by (simp add: k_sys_TerminalNewLine_def)
      then show ?thesis
        using run True NewLine_ok [OF u(2)] u(3,4) assms(2) same_sizes_trans [OF u(3)] by auto
    next
      case False
      have "term_ok ?v" using u(2) False by (intro term_ok_cursor) (auto simp: term_ok_def)
      then show ?thesis using run False u(3,4) by (simp add: same_sizes_def)
    qed
  qed
qed

lemma put_chars_ok:
  assumes "term_ok t" "0 \<in> set str" "\<bar>display_cursor_y t\<bar> + int (length str) < 2 ^ 30"
  shows "\<exists>u. put_chars str t = Some u \<and> term_ok u \<and> same_sizes t u \<and>
    \<bar>display_cursor_y u - display_cursor_y t\<bar> < int (length str)"
  using assms
proof (induction str arbitrary: t)
  case Nil
  then show ?case by simp
next
  case (Cons c str)
  show ?case
  proof (cases "c = 0")
    case True
    then show ?thesis using Cons.prems by simp
  next
    case False
    have "\<bar>display_cursor_y t\<bar> < 2 ^ 30" using Cons.prems(3) by simp
    then obtain u where u: "k_sys_TerminalPutSingleChar c t = Some u" "term_ok u" "same_sizes t u"
        "\<bar>display_cursor_y u - display_cursor_y t\<bar> \<le> 1"
      using PutSingleChar_ok [OF Cons.prems(1)] by blast
    have "\<bar>display_cursor_y u\<bar> + int (length str) < 2 ^ 30" "0 \<in> set str"
      using u(4) Cons.prems(2,3) False by auto
    then obtain v where "put_chars str u = Some v" "term_ok v" "same_sizes u v"
        "\<bar>display_cursor_y v - display_cursor_y u\<bar> < int (length str)"
      using Cons.IH [OF u(2)] by blast
    then show ?thesis using False u same_sizes_trans by (auto intro: exI [of _ v])
  qed
qed

section \<open>Clearing and scrolling\<close>

lemma fill_cells_ok:
  assumes "0 \<le> i" "i + int n \<le> int (length (output_buffer t))"
  shows "\<exists>b. fill_cells n i c t = Some (t\<lparr>output_buffer := b\<rparr>) \<and> length b = length (output_buffer t)"
  using assms
proof (induction n arbitrary: i t)
  case 0
  then show ?case by (intro exI [of _ "output_buffer t"]) simp
next
  case (Suc n)
  let ?t = "t\<lparr>output_buffer := (output_buffer t)[nat i := c]\<rparr>"
  have "\<exists>b. fill_cells n (i + 1) c ?t = Some (?t\<lparr>output_buffer := b\<rparr>) \<and> length b = length (output_buffer ?t)"
    by (rule Suc.IH) (use Suc.prems in auto)
  then show ?case using Suc.prems by (auto simp: put_cell_ok)
qed

lemma fill_cells_out:
  "int (length (output_buffer t)) \<le> i \<Longrightarrow> 0 < n \<Longrightarrow> fill_cells n i c t = None"
  by (cases n) (simp_all add: put_cell_out)

lemma clear_rows_ok:
  assumes "0 \<le> y" "0 < term_width t" "int (length (output_buffer t)) = h * term_width t"
  shows "if y + int n \<le> h then \<exists>b. clear_rows n y c t = Some (t\<lparr>output_buffer := b\<rparr>) \<and> length b = length (output_buffer t)
    else y \<le> h \<longrightarrow> clear_rows n y c t = None"
  using assms
proof (induction n arbitrary: y t)
  case 0
  then show ?case by (auto intro: exI [of _ "output_buffer t"])
next
  case (Suc n)
  show ?case
  proof (cases "y < h")
    case True
    have "0 + y * term_width t + term_width t \<le> h * term_width t"
      using mult_right_mono [of "y + 1" h "term_width t"] True Suc.prems(2) by (simp add: distrib_right)
    then obtain b where b: "fill_cells (nat (term_width t)) (y * term_width t) c t = Some (t\<lparr>output_buffer := b\<rparr>)"
        "length b = length (output_buffer t)"
      using fill_cells_ok [of "y * term_width t" "nat (term_width t)" t c] Suc.prems by auto
    show ?thesis
      using Suc.IH [of "y + 1" "t\<lparr>output_buffer := b\<rparr>"] Suc.prems b True by auto
  next
    case False
    then have "fill_cells (nat (term_width t)) (y * term_width t) c t = None" if "y = h"
      using that Suc.prems by (intro fill_cells_out) auto
    then show ?thesis using False by auto
  qed
qed

section \<open>The display\<close>

lemma count_word:
  "n < 2 ^ 16 \<Longrightarrow> unat (ucast (word_of_nat n :: u32) :: u16) = n"
  by (simp add: unsigned_ucast_eq unsigned_of_nat take_bit_nat_eq_self)

lemma mult_split: "a \<le> b \<Longrightarrow> b * w = a * w + (b - a) * (w :: nat)"
  by (metis add_mult_distrib le_add_diff_inverse)

lemma BlitTextBuffer_in:
  assumes "unat sx < vga_width t" "unat sy < vga_height t"
    and "unat sx + unat sy * vga_width t + unat n \<le> length (vga_mem t)" "a + unat n \<le> length (output_buffer t)"
  shows "k_gfx_BlitTextBuffer (int a) sx sy n t = Some (t\<lparr>vga_mem :=
    blit (vga_mem t) (unat sx + unat sy * vga_width t) (take (unat n) (drop a (output_buffer t)))\<rparr>)"
  using assms by (simp add: k_gfx_BlitTextBuffer_def copy_bytes_in)

text \<open>The lines that the display shows: those of the ring from \<open>scroll_y\<close> on, around its end.\<close>

definition shown :: "terminal \<Rightarrow> u16 list" where
  "shown t = take (vga_height t * vga_width t)
     (drop (nat (scroll_y t) * vga_width t) (output_buffer t @ output_buffer t))"

lemma Update_ok:
  assumes ok: "term_ok t"
  shows "\<exists>c. k_sys_TerminalUpdate t = Some (t\<lparr>vga_mem := shown t, vga_cursor := c\<rparr>)"
proof -
  define h s w v where d: "h = nat (term_height t)" "s = nat (scroll_y t)" "w = vga_width t" "v = vga_height t"
  have i: "term_height t = int h" "scroll_y t = int s" "term_width t = int w"
    using ok by (auto simp: d term_ok_def)
  have "0 < w" "0 < v" "v * w < 2 ^ 16" unfolding d by (rule term_okD [OF ok])+
  moreover have "int v \<le> int h" "int s < int h" "int h < int (2 ^ 29)"
    using ok term_sizes(3) [OF ok] unfolding i [symmetric] d(4) by (simp_all add: term_ok_def)
  ultimately have z: "0 < w" "0 < v" "v \<le> h" "s < h" "v * w < 2 ^ 16" "h < 2 ^ 29"
    unfolding of_nat_le_iff of_nat_less_iff by simp_all
  have "int (length (output_buffer t)) = int h * int w" using ok i by (simp add: term_ok_def)
  then have lb: "length (output_buffer t) = h * w" unfolding of_nat_mult [symmetric] of_nat_eq_iff .
  have lm: "length (vga_mem t) = v * w" using ok by (simp add: term_ok_def d)
  have dv: "vga_width t = w" "vga_height t = v" by (simp_all add: d)
  define r where "r = h - s"
  have hs2: "(word_of_nat h - word_of_nat s :: u32) = word_of_nat r"
    using z(4) by (simp add: of_nat_diff r_def)
  have hw: "h * w = s * w + r * w" using z(4) unfolding r_def by (intro mult_split) simp
  have sh: "shown t = take (v * w) (drop (s * w) (output_buffer t @ output_buffer t))"
    by (simp add: shown_def d)
  have lr: "length (drop (s * w) (output_buffer t)) = r * w" using hw lb by simp
  have rb: "r < 2 ^ 32" "s \<le> h" using z(4,6) by (simp_all add: r_def)
  have u: "unat (word_of_nat r :: u32) = r" using rb by (simp add: unat_of_nat)
  note D = k_sys_TerminalUpdate_def Let_def k_sys_TerminalSetCursorPos_def k_gfx_SetVgaCursorPos_def
  show ?thesis
  proof (cases "r < v")
    case True
    let ?m1 = "blit (vga_mem t) 0 (drop (s * w) (output_buffer t))"
    let ?x1 = "ucast (word_of_nat r * word_of_nat w :: u32) :: u16"
    let ?x2 = "ucast ((word_of_nat v - word_of_nat r) * word_of_nat w :: u32) :: u16"
    let ?y = "ucast (word_of_nat r :: u32) :: u16"
    have vw: "v * w = r * w + (v - r) * w" using True by (intro mult_split) simp
    have x1: "unat ?x1 = r * w" using count_word [of "r * w"] vw z(5) by simp
    have "(word_of_nat v - word_of_nat r :: u32) = word_of_nat (v - r)" using True by (simp add: of_nat_diff)
    then have x2: "unat ?x2 = (v - r) * w" using count_word [of "(v - r) * w"] vw z(5) by simp
    have "v \<le> v * w" using z(1) by simp
    then have "r < 2 ^ 16" using True z(5) by linarith
    then have y: "unat ?y = r" by (rule count_word)
    have hv: "(v - r) * w \<le> h * w" using z(3) by (intro mult_le_mono) auto
    have b1: "k_gfx_BlitTextBuffer (int (s * w)) 0 0 ?x1 t = Some (t\<lparr>vga_mem := ?m1\<rparr>)"
      using BlitTextBuffer_in [of 0 t 0 ?x1 "s * w"] unfolding x1 dv lb lm vw
      using z(1,2) lr hw by simp
    have lm1: "length ?m1 = v * w" using lm lr vw by simp
    have b2: "k_gfx_BlitTextBuffer (int 0) 0 ?y ?x2 (t\<lparr>vga_mem := ?m1\<rparr>) =
        Some (t\<lparr>vga_mem := blit ?m1 (r * w) (take ((v - r) * w) (output_buffer t))\<rparr>)"
      using BlitTextBuffer_in [of 0 "t\<lparr>vga_mem := ?m1\<rparr>" ?y ?x2 0] z(1) True hv lm1 vw
      by (simp add: x2 y dv lb)
    have "blit ?m1 (r * w) (take ((v - r) * w) (output_buffer t)) =
        blit (vga_mem t) 0 (drop (s * w) (output_buffer t) @ take ((v - r) * w) (output_buffer t))"
      using blit_blit [of 0 "drop (s * w) (output_buffer t)" "take ((v - r) * w) (output_buffer t)" "vga_mem t"]
        lr lm vw hv lb by simp
    also have "\<dots> = drop (s * w) (output_buffer t) @ take ((v - r) * w) (output_buffer t)"
      using lr lm vw hv lb by (intro blit_all) simp
    also have "\<dots> = shown t" unfolding sh using hw lb vw by simp
    finally have m: "blit ?m1 (r * w) (take ((v - r) * w) (output_buffer t)) = shown t" .
    show ?thesis using True b1 b2 unfolding m by (simp add: D i u dv hs2) blast
  next
    case False
    let ?x = "ucast (word_of_nat v * word_of_nat w :: u32) :: u16"
    have x: "unat ?x = v * w" using count_word [of "v * w"] z(5) by simp
    have le: "s * w + v * w \<le> h * w" using mult_le_mono1 [of v r w] False hw by simp
    have b: "k_gfx_BlitTextBuffer (int (s * w)) 0 0 ?x t =
        Some (t\<lparr>vga_mem := blit (vga_mem t) 0 (take (v * w) (drop (s * w) (output_buffer t)))\<rparr>)"
      using BlitTextBuffer_in [of 0 t 0 ?x "s * w"] unfolding x dv lb lm using z(1,2) le by simp
    have "blit (vga_mem t) 0 (take (v * w) (drop (s * w) (output_buffer t))) = take (v * w) (drop (s * w) (output_buffer t))"
      using lb lm le by (intro blit_all) simp
    also have "\<dots> = shown t" unfolding sh using le lb by simp
    finally have m: "blit (vga_mem t) 0 (take (v * w) (drop (s * w) (output_buffer t))) = shown t" .
    show ?thesis using False b unfolding m by (simp add: D i u dv hs2) blast
  qed
qed

text \<open>Scrolling moves the start of the display and the cursor on it against each other.\<close>

lemma Scroll_ok:
  assumes ok: "term_ok t" and l: "- term_height t \<le> lines" "\<bar>lines\<bar> < 2 ^ 30" "\<bar>display_cursor_y t\<bar> < 2 ^ 30"
  shows "\<exists>u. k_sys_TerminalScroll lines t = Some u \<and> term_ok u \<and> display_cursor_y u = display_cursor_y t - lines \<and>
    output_buffer u = output_buffer t \<and> term_height u = term_height t \<and> term_width u = term_width t \<and>
    vga_height u = vga_height t \<and> vga_mem u = shown u"
proof -
  let ?h = "term_height t" and ?s = "scroll_y t + lines"
  have h: "0 < ?h" "?h < 2 ^ 29" using term_sizes [OF ok] by simp_all
  define s where "s = ?s mod ?h"
  let ?t = "t\<lparr>scroll_y := s, display_cursor_y := display_cursor_y t - lines\<rparr>"
  have s: "0 \<le> s" "s < ?h" using h by (simp_all add: s_def)
  have "(?s mod ?h + (display_cursor_y t - lines)) mod ?h = buffer_cursor_y t"
    using term_okD(10) [OF ok] by (simp add: mod_add_left_eq)
  then have ok': "term_ok ?t" using s by (intro term_ok_scroll [OF ok]) (simp_all add: s_def)
  have sc: "(if ?s < 0 then ?s + ?h else if ?s \<ge> ?h then ?s smod ?h else ?s) = s"
  proof -
    have "?s mod ?h = ?s + ?h" if "?s < 0"
      using mod_pos_pos_trivial [of "?s + ?h" ?h] that term_okD(8) [OF ok] l(1) by simp
    then show ?thesis using h by (auto simp: smod_pos s_def)
  qed
  obtain c where u: "k_sys_TerminalUpdate ?t = Some (?t\<lparr>vga_mem := shown ?t, vga_cursor := c\<rparr>)"
    using Update_ok [OF ok'] by blast
  let ?u = "?t\<lparr>vga_mem := shown ?t, vga_cursor := c\<rparr>"
  have len: "length (shown ?t) = vga_height t * vga_width t"
  proof -
    have "vga_height t * vga_width t \<le> length (output_buffer t)"
      using ring_lines [OF ok, of "int (vga_height t)"] term_okD(11) [OF ok] by simp
    moreover have "nat s * vga_width t \<le> length (output_buffer t)"
      using ring_lines [OF ok, of s] s by simp
    ultimately show ?thesis by (simp add: shown_def)
  qed
  have "k_sys_TerminalScroll lines t = Some ?u"
  proof (cases "lines = 0")
    case True
    then have "?t = t" using term_okD(8,9) [OF ok] by (simp add: s_def)
    then show ?thesis using True u by (simp add: k_sys_TerminalScroll_def)
  next
    case False
    have "int32 ?s = Some ?s" "int32 (display_cursor_y t - lines) = Some (display_cursor_y t - lines)"
      using l term_okD(8,9) [OF ok] h by (auto intro!: int32_in)
    then show ?thesis using False u sc by (simp add: k_sys_TerminalScroll_def)
  qed
  moreover have "term_ok ?u" using len by (intro term_ok_display [OF ok']) simp
  moreover have "shown ?u = shown ?t" by (simp add: shown_def)
  ultimately show ?thesis by auto
qed

text \<open>Whether a text overruns the ring: the lines cleared below the cursor do not wrap around.\<close>

definition overruns :: "terminal \<Rightarrow> bool" where
  "overruns t \<longleftrightarrow> 0 < puts_scroll t \<and> term_height t < (buffer_cursor_y t + 1) mod term_height t + puts_scroll t"

lemma Puts_ok:
  assumes ok: "term_ok t" "displayed t" and str: "0 \<in> set str" "int (length str) \<le> term_height t"
  shows "\<exists>u. put_chars str t = Some u \<and> term_ok u \<and> same_sizes t u \<and>
    \<bar>display_cursor_y u - display_cursor_y t\<bar> < int (length str) \<and>
    (if overruns u then k_sys_TerminalPuts str t = None
     else \<exists>v. k_sys_TerminalPuts str t = Some v \<and> term_ok v \<and> displayed v \<and> vga_mem v = shown v \<and>
       term_height v = term_height t \<and> term_width v = term_width t)"
proof -
  have vh: "int (vga_height t) \<le> term_height t" using ok(1) unfolding term_ok_def by (elim conjE)
  have h: "0 < term_height t" "term_height t < 2 ^ 29" "0 < term_width t" using term_sizes [OF ok(1)] by simp_all
  have dt: "0 \<le> display_cursor_y t" "display_cursor_y t < term_height t" using ok(2) vh by (simp_all add: displayed_def)
  obtain u where u: "put_chars str t = Some u" "term_ok u" "same_sizes t u"
      "\<bar>display_cursor_y u - display_cursor_y t\<bar> < int (length str)"
    using put_chars_ok [OF ok(1) str(1)] dt h str(2) by auto
  let ?n = "puts_scroll u" and ?y = "(buffer_cursor_y u + 1) smod term_height u"
  have su: "term_height u = term_height t" "term_width u = term_width t" "vga_height u = vga_height t"
    using u(3) by (simp_all add: same_sizes_def)
  have y: "?y = (buffer_cursor_y u + 1) mod term_height u" "0 \<le> ?y" "?y < term_height u"
    using term_okD(6) [OF u(2)] h(1) su(1) by (simp_all add: smod_pos)
  have n: "- term_height u \<le> ?n" "\<bar>?n\<bar> < 2 ^ 30" "\<bar>display_cursor_y u\<bar> < 2 ^ 30"
      "0 \<le> display_cursor_y u - ?n \<and> display_cursor_y u - ?n < int (vga_height u)"
    using u(4) dt h(2) str(2) vh su term_okD(2) [OF u(2)] by (auto simp: puts_scroll_def)
  have cl: "if ?y + ?n \<le> term_height u then \<exists>b. clear_rows (nat ?n) ?y c u = Some (u\<lparr>output_buffer := b\<rparr>) \<and> length b = length (output_buffer u)
      else clear_rows (nat ?n) ?y c u = None" if "0 < ?n" for c
    using clear_rows_ok [of ?y u "term_height u" "nat ?n" c] that y h(3) su(2) term_okD(4) [OF u(2)] by auto
  show ?thesis
  proof (cases "overruns u")
    case True
    then have "k_sys_TerminalPuts str t = None"
      using u(1) cl y by (simp add: k_sys_TerminalPuts_def overruns_def)
    with True u show ?thesis by auto
  next
    case False
    have "\<exists>b. (if 0 < ?n then clear_rows (nat ?n) ?y (k_sys_TerminalChar 32 (term_color u)) u else Some u) =
        Some (u\<lparr>output_buffer := b\<rparr>) \<and> length b = length (output_buffer u)"
      using cl [of "k_sys_TerminalChar 32 (term_color u)"] False y
      by (auto simp: overruns_def intro: exI [of _ "output_buffer u"])
    then obtain b where b: "(if 0 < ?n then clear_rows (nat ?n) ?y (k_sys_TerminalChar 32 (term_color u)) u else Some u) =
        Some (u\<lparr>output_buffer := b\<rparr>)" "length b = length (output_buffer u)" by blast
    have "term_ok (u\<lparr>output_buffer := b\<rparr>)" using u(2) b(2) by simp
    then obtain v where "k_sys_TerminalScroll ?n (u\<lparr>output_buffer := b\<rparr>) = Some v" "term_ok v"
        "display_cursor_y v = display_cursor_y u - ?n" "term_height v = term_height u" "term_width v = term_width u"
        "vga_height v = vga_height u" "vga_mem v = shown v"
      using Scroll_ok [of "u\<lparr>output_buffer := b\<rparr>" ?n] n by auto
    then show ?thesis using False u b(1) n(4) su by (auto simp: k_sys_TerminalPuts_def displayed_def)
  qed
qed

text \<open>A single character never overruns the ring: it moves the cursor by at most one line.\<close>

lemma PutChar_ok:
  assumes ok: "term_ok t" "displayed t" and h: "2 \<le> term_height t"
  shows "\<exists>v. k_sys_TerminalPutChar ch t = Some v \<and> term_ok v \<and> displayed v \<and> term_height v = term_height t"
proof -
  obtain u where u: "term_ok u" "same_sizes t u" "\<bar>display_cursor_y u - display_cursor_y t\<bar> < 2"
      "if overruns u then k_sys_TerminalPuts [ch, 0] t = None
       else \<exists>v. k_sys_TerminalPuts [ch, 0] t = Some v \<and> term_ok v \<and> displayed v \<and> term_height v = term_height t"
    using Puts_ok [OF ok, of "[ch, 0]"] h by (auto split: if_splits)
  have "puts_scroll u \<le> 1" using u(2,3) ok(2) by (auto simp: puts_scroll_def displayed_def same_sizes_def)
  moreover have "(buffer_cursor_y u + 1) mod term_height u < term_height u" using term_sizes [OF u(1)] by simp
  ultimately have "\<not> overruns u" by (simp add: overruns_def)
  with u(4) show ?thesis by (simp add: k_sys_TerminalPutChar_def)
qed

section \<open>The line editor\<close>

text \<open>
  The line that the keys up to the end of the line leave, with room for \<open>n\<close> characters: a backspace
  takes the last character back, and a full line ends.
\<close>

fun edit_line :: "bytes \<Rightarrow> nat \<Rightarrow> bytes \<Rightarrow> bytes option" where
  "edit_line [] n line = None"
| "edit_line (ch # keys) n line =
     (if ch = 10 then Some line
      else (let line = (if ch = 0x10 then butlast line else line @ [ch])
        in if length line < n then edit_line keys n line else Some line))"

lemma take_Suc_update:
  "k < length xs \<Longrightarrow> take (Suc k) (xs[k := x]) = take k xs @ [x]"
  by (simp add: take_Suc_conv_app_nth)

lemma read_line_loop_edit:
  assumes "term_ok t" "displayed t" "2 \<le> term_height t" "2 \<le> n" "n \<le> length out"
    and "edit_line keys (n - 1) line = Some l" "take (length line) out = line" "length line < n - 1"
  shows "\<exists>out' u. read_line_loop keys n (length line) out t = Some (length l, out', u) \<and>
    take (length l) out' = l \<and> length l < n \<and> length out' = length out \<and> term_ok u \<and> displayed u"
  using assms
proof (induction keys arbitrary: t line out)
  case Nil
  then show ?case by simp
next
  case (Cons ch keys)
  obtain v where v: "k_sys_TerminalPutChar ch t = Some v" "term_ok v" "displayed v" "2 \<le> term_height v"
    using PutChar_ok [OF Cons.prems(1-3), of ch] Cons.prems(3) by auto
  have lo: "length line < length out" using Cons.prems(5,8) by simp
  consider "ch = 10" | "ch = 0x10" "line = []" | "ch = 0x10" "line \<noteq> []" | "ch \<notin> {10, 0x10}" by blast
  then show ?case
  proof cases
    case 1
    then show ?thesis using Cons.prems v by auto
  next
    case 2
    then show ?thesis using Cons.IH [OF Cons.prems(1-5), of "[]"] Cons.prems(4,6) by simp
  next
    case 3
    let ?l = "butlast line" and ?o = "out[length line - 1 := 0]"
    have "take (length ?l) ?o = take (length ?l) out" by simp
    also have "\<dots> = ?l" using butlast_take [of "length line" out] lo Cons.prems(7) by simp
    finally have t: "take (length ?l) ?o = ?l" .
    have lt: "length ?l < n - 1" using Cons.prems(8) by simp
    have e: "edit_line keys (n - 1) ?l = Some l" using Cons.prems(6,8) 3 by (auto simp: Let_def split: if_splits)
    obtain out' u where "read_line_loop keys n (length ?l) ?o v = Some (length l, out', u)"
        "take (length l) out' = l" "length l < n" "length out' = length ?o" "term_ok u" "displayed u"
      using Cons.IH [OF v(2-4) Cons.prems(4) _ e t lt] Cons.prems(5) by auto
    then show ?thesis using 3 v(1) lo lt by (simp add: wr_in)
  next
    case 4
    let ?l = "line @ [ch]" and ?o = "out[length line := ch]"
    have t: "take (length ?l) ?o = ?l" using Cons.prems(7) take_Suc_update [OF lo] by simp
    show ?thesis
    proof (cases "length ?l < n - 1")
      case True
      have e: "edit_line keys (n - 1) ?l = Some l" using Cons.prems(6) 4 True by simp
      obtain out' u where "read_line_loop keys n (length ?l) ?o v = Some (length l, out', u)"
          "take (length l) out' = l" "length l < n" "length out' = length ?o" "term_ok u" "displayed u"
        using Cons.IH [OF v(2-4) Cons.prems(4) _ e t True] Cons.prems(5) by auto
      then show ?thesis using 4 v(1) lo True by (simp add: wr_in)
    next
      case False
      then have "l = ?l" using Cons.prems(6) 4 by simp
      then show ?thesis using 4 v lo False t Cons.prems(8) by (simp add: wr_in)
    qed
  qed
qed

text \<open>A buffer of one byte has no room for the first character: it is stored, and the end after it.\<close>

lemma ReadLine_single_byte:
  assumes "term_ok t" "displayed t" "2 \<le> term_height t" "ch \<notin> {10, 0x10}"
  shows "k_sys_TerminalReadLine (ch # keys) (Some [b]) 1 t = None"
  using PutChar_ok [OF assms(1-3), of ch] assms(4)
  by (auto simp: k_sys_TerminalReadLine_def wr_def)

section \<open>Properties\<close>

text \<open>
  C26: Output keeps the terminal well formed. From a terminal whose cursors lie in its ring of lines
  and on its display, every terminated text no longer than the ring is written without leaving the
  ring, with the cursor of the ring and that of the display on the same line; the text then either
  ends on the display, with the cursor on it and the video memory equal to the lines shown, or
  (when the lines to clear would pass the end of the ring) \<open>k_sys_TerminalPuts\<close> stores outside it.
\<close>

theorem k_sys_TerminalPuts_display:
  assumes "term_ok t" "displayed t" "0 \<in> set str" "int (length str) \<le> term_height t"
  shows "\<exists>u. put_chars str t = Some u \<and> term_ok u \<and>
    (if overruns u then k_sys_TerminalPuts str t = None
     else \<exists>v. k_sys_TerminalPuts str t = Some v \<and> term_ok v \<and> displayed v \<and> vga_mem v = shown v)"
  using Puts_ok [OF assms] by (auto split: if_splits)

definition sample_terminal :: terminal where
  "sample_terminal = \<lparr>output_buffer = replicate 12 32, term_width = 3, term_height = 4, term_color = 7,
     cursor_x = 2, buffer_cursor_y = 3, display_cursor_y = 1, scroll_y = 2, vga_width = 3, vga_height = 2,
     vga_mem = replicate 6 0, vga_cursor = 0\<rparr>"

lemma sample_terminal_ok: "term_ok sample_terminal" "displayed sample_terminal"
  by (simp_all add: term_ok_def displayed_def sample_terminal_def)

theorem k_sys_TerminalPuts_display_witness:
  "\<exists>u. put_chars [65, 66, 0] sample_terminal = Some u \<and> term_ok u \<and>
    (if overruns u then k_sys_TerminalPuts [65, 66, 0] sample_terminal = None
     else \<exists>v. k_sys_TerminalPuts [65, 66, 0] sample_terminal = Some v \<and> term_ok v \<and> displayed v \<and> vga_mem v = shown v)"
  by (rule k_sys_TerminalPuts_display) (simp_all add: sample_terminal_ok, simp add: sample_terminal_def)

text \<open>
  C27: \<open>k_sys_TerminalReadLine\<close> is a line editor: for a buffer of at least two bytes, the keys up to
  the end of the line (a newline, or a full buffer) leave the typed characters less those taken back
  by backspaces, terminated, inside the buffer, and the echo keeps the terminal well formed.
\<close>

theorem k_sys_TerminalReadLine_edits:
  assumes "term_ok t" "displayed t" "2 \<le> term_height t" "2 \<le> n" "n \<le> length out"
    and "edit_line keys (n - 1) [] = Some l"
  shows "\<exists>out' u. k_sys_TerminalReadLine keys (Some out) n t = Some (1, Some out', u) \<and>
    take (length l + 1) out' = l @ [0] \<and> length l < n \<and> length out' = length out \<and> term_ok u \<and> displayed u"
proof -
  obtain o' u where o': "read_line_loop keys n 0 out t = Some (length l, o', u)" "take (length l) o' = l"
      "length l < n" "length o' = length out" "term_ok u" "displayed u"
    using read_line_loop_edit [OF assms(1-6)] assms(4) by auto
  then show ?thesis
    using assms(4,5) take_Suc_update [of "length l" o' 0]
    by (simp add: k_sys_TerminalReadLine_def wr_in)
qed

theorem k_sys_TerminalReadLine_edits_witness:
  "\<exists>out' u. k_sys_TerminalReadLine [65, 66, 0x10, 67, 10] (Some (replicate 8 9)) 8 sample_terminal = Some (1, Some out', u) \<and>
    take 3 out' = [65, 67, 0] \<and> term_ok u \<and> displayed u"
proof -
  have "edit_line [65, 66, 0x10, 67, 10] (8 - 1) [] = Some [65, 67 :: u8]" by simp
  moreover have "2 \<le> term_height sample_terminal" by (simp add: sample_terminal_def)
  ultimately show ?thesis
    using k_sys_TerminalReadLine_edits [OF sample_terminal_ok, of 8 "replicate 8 9" "[65, 66, 0x10, 67, 10]" "[65, 67]"]
    by (auto simp: numeral_3_eq_3)
qed

end
