(* ===== verification/Dev_Keyboard.thy ===== *)
theory Dev_Keyboard
  imports Io_Stream Sys_Term
begin

text \<open>
  The keyboard: the scan codes of \<open>kernel/dev/ps2.c\<close>, the character tables and the handler of
  \<open>kernel/dev/kb.c\<close>, which writes to the stream of the process in focus. The registers of the
  controller are parameters (\<open>k_dev_ps2_funcs_t\<close>, which the chip set driver fills in with port
  accesses). A table is an array of C: an access behind its last entry is undefined. The lemmas show
  that what is typed arrives in the stream and in the line that \<open>k_sys_TerminalReadLine\<close> reads.
\<close>

section \<open>Keys and characters\<close>

definition K_DEV_KEYBOARD_BACKSPACE_KEY :: nat where "K_DEV_KEYBOARD_BACKSPACE_KEY = 15"
definition K_DEV_KEYBOARD_TAB_KEY :: nat where "K_DEV_KEYBOARD_TAB_KEY = 16"
definition K_DEV_KEYBOARD_CASPLOCK_KEY :: nat where "K_DEV_KEYBOARD_CASPLOCK_KEY = 30"
definition K_DEV_KEYBOARD_ENTER_KEY :: nat where "K_DEV_KEYBOARD_ENTER_KEY = 43"
definition K_DEV_KEYBOARD_LSHIFT_KEY :: nat where "K_DEV_KEYBOARD_LSHIFT_KEY = 44"
definition K_DEV_KEYBOARD_RSHIFT_KEY :: nat where "K_DEV_KEYBOARD_RSHIFT_KEY = 57"
definition K_DEV_KEYBOARD_LCTRL_KEY :: nat where "K_DEV_KEYBOARD_LCTRL_KEY = 58"
definition K_DEV_KEYBOARD_LALT_KEY :: nat where "K_DEV_KEYBOARD_LALT_KEY = 59"
definition K_DEV_KEYBOARD_RALT_KEY :: nat where "K_DEV_KEYBOARD_RALT_KEY = 62"
definition K_DEV_KEYBOARD_RCTRL_KEY :: nat where "K_DEV_KEYBOARD_RCTRL_KEY = 64"
definition K_DEV_KEYBOARD_NUMLOCK_KEY :: nat where "K_DEV_KEYBOARD_NUMLOCK_KEY = 90"
definition K_DEV_KEYBOARD_KP_ENTER_KEY :: nat where "K_DEV_KEYBOARD_KP_ENTER_KEY = 108"

datatype k_dev_keyboard_event_type = K_DEV_KEYBOARD_EVENT_KEY_DOWN | K_DEV_KEYBOARD_EVENT_KEY_UP | K_DEV_KEYBOARD_EVENT_REPEAT

record k_dev_keyboard_event_t =
  event_type :: k_dev_keyboard_event_type
  event_key :: nat

record k_dev_keyboard_t =
  left_shift :: bool
  right_shift :: bool
  caps_lock :: bool
  cur_cmd :: u8

text \<open>An array given by designated initialisers: as long as its largest index asks for, zero elsewhere.\<close>

definition designated :: "(nat \<times> 'a :: zero) list \<Rightarrow> 'a list" where
  "designated ps = fold (\<lambda>(i, v) t. t[i := v]) ps (replicate (fold (\<lambda>(i, _) n. max (Suc i) n) ps 0) 0)"

text \<open>The characters as bytes; the accent of key 1 is the last byte of a character constant of two.\<close>

definition k_kb_key_lut :: bytes where
  "k_kb_key_lut = designated [
     (1, 0xb4), (2, 49), (3, 50), (4, 51), (5, 52), (6, 53), (7, 54), (8, 55), (9, 56), (10, 57),
     (11, 48), (12, 45), (13, 61), (17, 113), (18, 119), (19, 101), (20, 114), (21, 116), (22, 121),
     (23, 117), (24, 105), (25, 111), (26, 112), (27, 91), (28, 93), (29, 92), (31, 97), (32, 115),
     (33, 100), (34, 102), (35, 103), (36, 104), (37, 106), (38, 107), (39, 108), (40, 59), (41, 39),
     (46, 122), (47, 120), (48, 99), (49, 118), (50, 98), (51, 110), (52, 109), (53, 44), (54, 46),
     (55, 47), (61, 32), (95, 47), (100, 42), (105, 45), (106, 43),
     (K_DEV_KEYBOARD_BACKSPACE_KEY, 0x10), (K_DEV_KEYBOARD_ENTER_KEY, 10)]"

definition k_kb_shift_key_lut :: bytes where
  "k_kb_shift_key_lut = designated [
     (1, 126), (2, 33), (3, 64), (4, 35), (5, 36), (6, 37), (7, 94), (8, 38), (9, 42), (10, 40),
     (11, 41), (12, 95), (13, 43), (17, 81), (18, 87), (19, 69), (20, 82), (21, 84), (22, 89), (23, 85),
     (24, 73), (25, 79), (26, 80), (27, 123), (28, 125), (29, 124), (31, 65), (32, 83), (33, 68),
     (34, 70), (35, 71), (36, 72), (37, 74), (38, 75), (39, 76), (40, 58), (41, 34), (46, 90), (47, 88),
     (48, 67), (49, 86), (50, 66), (51, 78), (52, 77), (53, 60), (54, 62), (55, 63), (61, 32), (95, 47),
     (100, 42), (105, 45), (106, 43), (K_DEV_KEYBOARD_BACKSPACE_KEY, 0x10),
     (K_DEV_KEYBOARD_ENTER_KEY, 10)]"

definition k_ps2_scanset1_key_lut1 :: "nat list" where
  "k_ps2_scanset1_key_lut1 = designated [
     (0x29, 1), (0x02, 2), (0x03, 3), (0x04, 4), (0x05, 5), (0x06, 6), (0x07, 7), (0x08, 8), (0x09, 9),
     (0x0a, 10), (0x0b, 11), (0x0c, 12), (0x0d, 13), (0x0e, K_DEV_KEYBOARD_BACKSPACE_KEY),
     (0x0f, K_DEV_KEYBOARD_TAB_KEY), (0x10, 17), (0x11, 18), (0x12, 19), (0x13, 20), (0x14, 21),
     (0x15, 22), (0x16, 23), (0x17, 24), (0x18, 25), (0x19, 26), (0x1a, 27), (0x1b, 28), (0x2b, 29),
     (0x3a, K_DEV_KEYBOARD_CASPLOCK_KEY), (0x1e, 31), (0x1f, 32), (0x20, 33), (0x21, 34), (0x22, 35),
     (0x23, 36), (0x24, 37), (0x25, 38), (0x26, 39), (0x27, 40), (0x28, 41),
     (0x1c, K_DEV_KEYBOARD_ENTER_KEY), (0x2a, K_DEV_KEYBOARD_LSHIFT_KEY), (0x2c, 46), (0x2d, 47),
     (0x2e, 48), (0x2f, 49), (0x30, 50), (0x31, 51), (0x32, 52), (0x33, 53), (0x34, 54), (0x35, 55),
     (0x36, K_DEV_KEYBOARD_RSHIFT_KEY), (0x1d, K_DEV_KEYBOARD_LCTRL_KEY), (0x38, 60), (0x39, 61),
     (0x45, K_DEV_KEYBOARD_NUMLOCK_KEY), (0x47, 91), (0x4b, 92), (0x4f, 93), (0x48, 96), (0x4c, 97),
     (0x50, 98), (0x52, 99), (0x37, 100), (0x49, 101), (0x4d, 102), (0x51, 103), (0x53, 104),
     (0x4a, 105), (0x4e, 106), (0x01, 110), (0x3b, 112), (0x3c, 113), (0x3d, 114), (0x3e, 115),
     (0x3f, 116), (0x40, 117), (0x41, 118), (0x42, 119), (0x43, 120), (0x44, 121), (0x57, 122),
     (0x58, 123), (0x46, 125)]"

definition k_ps2_scanset1_key_lut2 :: "nat list" where
  "k_ps2_scanset1_key_lut2 = designated [
     (0x1c, K_DEV_KEYBOARD_KP_ENTER_KEY), (0x1d, K_DEV_KEYBOARD_RCTRL_KEY),
     (0x38, K_DEV_KEYBOARD_RALT_KEY), (0x47, 80), (0x48, 83), (0x49, 85), (0x4b, 79), (0x4d, 89),
     (0x4f, 81), (0x50, 84), (0x51, 86), (0x52, 75), (0x53, 76)]"

section \<open>The handler\<close>

text \<open>\<open>focused\<close> is the terminal stream of the process in focus, when there are such a process and stream.\<close>

definition k_dev_kb_KeyboardHandler ::
    "k_dev_keyboard_t \<Rightarrow> k_dev_keyboard_event_t \<Rightarrow> k_io_stream_t option \<Rightarrow> (k_dev_keyboard_t \<times> k_io_stream_t option) option" where
  "k_dev_kb_KeyboardHandler keyboard event focused =
     (if event_key event = K_DEV_KEYBOARD_LSHIFT_KEY then
        Some (keyboard\<lparr>left_shift := event_type event = K_DEV_KEYBOARD_EVENT_KEY_DOWN\<rparr>, focused)
      else if event_key event = K_DEV_KEYBOARD_RSHIFT_KEY then
        Some (keyboard\<lparr>right_shift := event_type event = K_DEV_KEYBOARD_EVENT_KEY_DOWN\<rparr>, focused)
      else if event_key event = K_DEV_KEYBOARD_CASPLOCK_KEY then
        Some (if event_type event = K_DEV_KEYBOARD_EVENT_KEY_DOWN
              then keyboard\<lparr>caps_lock := \<not> caps_lock keyboard\<rparr> else keyboard, focused)
      else if event_type event = K_DEV_KEYBOARD_EVENT_KEY_DOWN then do {
        ch \<leftarrow> rd (if left_shift keyboard \<or> right_shift keyboard \<or> caps_lock keyboard
                  then k_kb_shift_key_lut else k_kb_key_lut) (event_key event);
        case focused of
          None \<Rightarrow> Some (keyboard, None)
        | Some terminal \<Rightarrow> do {
            (_, terminal) \<leftarrow> k_io_WriteStreamData (Some terminal) (Some [ch]) 1;
            Some (keyboard, k_io_SignalStream terminal)
          }
      }
      else Some (keyboard, focused))"

section \<open>The controller\<close>

record 'd k_dev_ps2_funcs_t =
  ReadData :: "'d \<Rightarrow> u8 \<times> 'd"
  ReadCmd :: "'d \<Rightarrow> u8 \<times> 'd"
  WriteCmd :: "u8 \<Rightarrow> 'd \<Rightarrow> 'd"

definition K_DEV_PS2_STATUS_OUT_BUFFER_FULL :: u8 where "K_DEV_PS2_STATUS_OUT_BUFFER_FULL = 1"
definition K_PS2_SCANSET1_BREAK_MASK :: u8 where "K_PS2_SCANSET1_BREAK_MASK = 0x80"
definition K_PS2_SCANSET1_LSHIFT_DOWN :: u8 where "K_PS2_SCANSET1_LSHIFT_DOWN = 0x2a"
definition K_PS2_SCANSET1_RSHIFT_DOWN :: u8 where "K_PS2_SCANSET1_RSHIFT_DOWN = 0x36"

definition k_PS2_SendCmd :: "'d k_dev_ps2_funcs_t \<Rightarrow> k_dev_keyboard_t \<Rightarrow> u8 \<Rightarrow> 'd \<Rightarrow> k_dev_keyboard_t \<times> 'd" where
  "k_PS2_SendCmd funcs keyboard cmd d = (keyboard\<lparr>cur_cmd := cmd\<rparr>, WriteCmd funcs cmd d)"

text \<open>The event of a scan code; \<open>None\<close> in the first component when there is none.\<close>

definition scan_event :: "nat list \<Rightarrow> u8 \<Rightarrow> k_dev_keyboard_event_t option" where
  "scan_event key_lut data = do {
     key \<leftarrow> rd key_lut (unat (data AND NOT K_PS2_SCANSET1_BREAK_MASK));
     Some \<lparr>event_type = (if data AND K_PS2_SCANSET1_BREAK_MASK \<noteq> 0 then K_DEV_KEYBOARD_EVENT_KEY_UP
       else K_DEV_KEYBOARD_EVENT_KEY_DOWN), event_key = key\<rparr>
   }"

definition k_PS2_Scanset1Key ::
    "'d k_dev_ps2_funcs_t \<Rightarrow> 'd \<Rightarrow> (k_dev_keyboard_event_t option \<times> 'd) option" where
  "k_PS2_Scanset1Key funcs d = (
     let (data, d) = ReadData funcs d
     in if data = 0xe0 then
          (let (data, d) = ReadData funcs d;
               key = data AND NOT K_PS2_SCANSET1_BREAK_MASK
           in if key = K_PS2_SCANSET1_LSHIFT_DOWN \<or> key = K_PS2_SCANSET1_RSHIFT_DOWN then Some (None, d)
              else map_option (\<lambda>event. (Some event, d)) (scan_event k_ps2_scanset1_key_lut2 data))
        else map_option (\<lambda>event. (Some event, d)) (scan_event k_ps2_scanset1_key_lut1 data))"

partial_function (option) keyboard_loop ::
    "'d k_dev_ps2_funcs_t \<Rightarrow> k_dev_keyboard_t \<Rightarrow> 'd \<Rightarrow> k_io_stream_t option \<Rightarrow>
     (k_dev_keyboard_t \<times> 'd \<times> k_io_stream_t option) option" where
  "keyboard_loop funcs keyboard d focused =
     (let (status, d) = ReadCmd funcs d
      in if status AND K_DEV_PS2_STATUS_OUT_BUFFER_FULL = 0 then Some (keyboard, d, focused)
         else do {
           (event, d) \<leftarrow> k_PS2_Scanset1Key funcs d;
           (keyboard, focused) \<leftarrow> (case event of
               None \<Rightarrow> Some (keyboard, focused)
             | Some e \<Rightarrow> k_dev_kb_KeyboardHandler keyboard e focused);
           keyboard_loop funcs keyboard d focused
         })"

definition k_PS2_KeyboardInterruptHandler ::
    "'d k_dev_ps2_funcs_t \<Rightarrow> k_dev_keyboard_t \<Rightarrow> 'd \<Rightarrow> k_io_stream_t option \<Rightarrow>
     (k_dev_keyboard_t \<times> 'd \<times> k_io_stream_t option) option" where
  "k_PS2_KeyboardInterruptHandler funcs keyboard d focused = do {
     (keyboard, d, focused) \<leftarrow> keyboard_loop funcs keyboard d focused;
     Some (keyboard\<lparr>cur_cmd := 0\<rparr>, d, focused)
   }"

section \<open>The tables\<close>

lemma k_kb_key_lut_eq: "k_kb_key_lut =
    [0, 180, 49, 50, 51, 52, 53, 54, 55, 56, 57, 48, 45, 61, 0, 16, 0, 113, 119, 101, 114, 116, 121, 117,
     105, 111, 112, 91, 93, 92, 0, 97, 115, 100, 102, 103, 104, 106, 107, 108, 59, 39, 0, 10, 0, 0, 122, 120,
     99, 118, 98, 110, 109, 44, 46, 47, 0, 0, 0, 0, 0, 32, 0, 0, 0, 0, 0, 0, 0, 0, 0, 0, 0, 0, 0, 0, 0, 0, 0,
     0, 0, 0, 0, 0, 0, 0, 0, 0, 0, 0, 0, 0, 0, 0, 0, 47, 0, 0, 0, 0, 42, 0, 0, 0, 0, 45, 43]"
  by code_simp

lemma k_kb_shift_key_lut_eq: "k_kb_shift_key_lut =
    [0, 126, 33, 64, 35, 36, 37, 94, 38, 42, 40, 41, 95, 43, 0, 16, 0, 81, 87, 69, 82, 84, 89, 85, 73, 79,
     80, 123, 125, 124, 0, 65, 83, 68, 70, 71, 72, 74, 75, 76, 58, 34, 0, 10, 0, 0, 90, 88, 67, 86, 66, 78,
     77, 60, 62, 63, 0, 0, 0, 0, 0, 32, 0, 0, 0, 0, 0, 0, 0, 0, 0, 0, 0, 0, 0, 0, 0, 0, 0, 0, 0, 0, 0, 0, 0,
     0, 0, 0, 0, 0, 0, 0, 0, 0, 0, 47, 0, 0, 0, 0, 42, 0, 0, 0, 0, 45, 43]"
  by code_simp

lemma k_ps2_scanset1_key_lut1_eq: "k_ps2_scanset1_key_lut1 =
    [0, 110, 2, 3, 4, 5, 6, 7, 8, 9, 10, 11, 12, 13, 15, 16, 17, 18, 19, 20, 21, 22, 23, 24, 25, 26, 27, 28,
     43, 58, 31, 32, 33, 34, 35, 36, 37, 38, 39, 40, 41, 1, 44, 29, 46, 47, 48, 49, 50, 51, 52, 53, 54, 55,
     57, 100, 60, 61, 30, 112, 113, 114, 115, 116, 117, 118, 119, 120, 121, 90, 125, 91, 96, 101, 105, 92,
     97, 102, 106, 93, 98, 103, 99, 104, 0, 0, 0, 122, 123]"
  by code_simp

text \<open>How to type a character: whether with shift, and the scan code of its key.\<close>

definition scan_codes :: "(u8 \<times> bool \<times> u8) list" where
  "scan_codes = [(10, False, 28), (16, False, 14), (32, False, 57), (33, True, 2), (34, True, 40), (35, True, 4),
     (36, True, 5), (37, True, 6), (38, True, 8), (39, False, 40), (40, True, 10), (41, True, 11),
     (42, False, 55), (43, False, 78), (44, False, 51), (45, False, 12), (46, False, 52), (47, False, 53),
     (48, False, 11), (49, False, 2), (50, False, 3), (51, False, 4), (52, False, 5), (53, False, 6),
     (54, False, 7), (55, False, 8), (56, False, 9), (57, False, 10), (58, True, 39), (59, False, 39),
     (60, True, 51), (61, False, 13), (62, True, 52), (63, True, 53), (64, True, 3), (65, True, 30),
     (66, True, 48), (67, True, 46), (68, True, 32), (69, True, 18), (70, True, 33), (71, True, 34),
     (72, True, 35), (73, True, 23), (74, True, 36), (75, True, 37), (76, True, 38), (77, True, 50),
     (78, True, 49), (79, True, 24), (80, True, 25), (81, True, 16), (82, True, 19), (83, True, 31),
     (84, True, 20), (85, True, 22), (86, True, 47), (87, True, 17), (88, True, 45), (89, True, 21),
     (90, True, 44), (91, False, 26), (92, False, 43), (93, False, 27), (94, True, 7), (95, True, 12),
     (97, False, 30), (98, False, 48), (99, False, 46), (100, False, 32), (101, False, 18), (102, False, 33),
     (103, False, 34), (104, False, 35), (105, False, 23), (106, False, 36), (107, False, 37),
     (108, False, 38), (109, False, 50), (110, False, 49), (111, False, 24), (112, False, 25),
     (113, False, 16), (114, False, 19), (115, False, 31), (116, False, 20), (117, False, 22),
     (118, False, 47), (119, False, 17), (120, False, 45), (121, False, 21), (122, False, 44),
     (123, True, 26), (124, True, 43), (125, True, 27), (126, True, 41)]"

lemma scan_codes_chars: "map fst scan_codes = [10, 16] @ map of_nat ([32..<96] @ [97..<127])"
  unfolding scan_codes_def by (simp add: upt_rec_numeral)

definition press :: "u8 \<times> bool \<times> u8 \<Rightarrow> bytes" where
  "press k = (case k of (_, sh, i) \<Rightarrow> if sh then [0x2a, i, i OR 0x80, 0xaa] else [i, i OR 0x80])"

lemma scan_codes_ok:
  "(c, sh, i) \<in> set scan_codes \<Longrightarrow> scan_event k_ps2_scanset1_key_lut1 i =
     Some \<lparr>event_type = K_DEV_KEYBOARD_EVENT_KEY_DOWN, event_key = k_ps2_scanset1_key_lut1 ! unat i\<rparr> \<and>
   scan_event k_ps2_scanset1_key_lut1 (i OR 0x80) =
     Some \<lparr>event_type = K_DEV_KEYBOARD_EVENT_KEY_UP, event_key = k_ps2_scanset1_key_lut1 ! unat i\<rparr> \<and>
   i \<noteq> 0xe0 \<and> i OR 0x80 \<noteq> 0xe0 \<and> k_ps2_scanset1_key_lut1 ! unat i \<notin> {30, 44, 57} \<and>
   rd (if sh then k_kb_shift_key_lut else k_kb_key_lut) (k_ps2_scanset1_key_lut1 ! unat i) = Some c"
proof -
  have "list_all (\<lambda>(c, sh, i). scan_event k_ps2_scanset1_key_lut1 i =
     Some \<lparr>event_type = K_DEV_KEYBOARD_EVENT_KEY_DOWN, event_key = k_ps2_scanset1_key_lut1 ! unat i\<rparr> \<and>
   scan_event k_ps2_scanset1_key_lut1 (i OR 0x80) =
     Some \<lparr>event_type = K_DEV_KEYBOARD_EVENT_KEY_UP, event_key = k_ps2_scanset1_key_lut1 ! unat i\<rparr> \<and>
   i \<noteq> 0xe0 \<and> i OR 0x80 \<noteq> 0xe0 \<and> k_ps2_scanset1_key_lut1 ! unat i \<notin> {30, 44, 57} \<and>
   rd (if sh then k_kb_shift_key_lut else k_kb_key_lut) (k_ps2_scanset1_key_lut1 ! unat i) = Some c) scan_codes"
    unfolding scan_codes_def scan_event_def K_PS2_SCANSET1_BREAK_MASK_def
    by (simp add: k_kb_key_lut_eq k_kb_shift_key_lut_eq k_ps2_scanset1_key_lut1_eq rd_def)
  then show "(c, sh, i) \<in> set scan_codes \<Longrightarrow> ?thesis" by (auto simp: list_all_iff)
qed

section \<open>What is typed arrives\<close>

text \<open>
  The contract of the controller: \<open>pending\<close> are the bytes it has for the processor; the status says
  whether there are any, and a read takes the first.
\<close>

definition controller_ok :: "'d k_dev_ps2_funcs_t \<Rightarrow> ('d \<Rightarrow> bytes) \<Rightarrow> bool" where
  "controller_ok funcs pending \<longleftrightarrow>
     (\<forall>d. pending (snd (ReadCmd funcs d)) = pending d \<and>
       (fst (ReadCmd funcs d) AND K_DEV_PS2_STATUS_OUT_BUFFER_FULL \<noteq> 0 \<longleftrightarrow> pending d \<noteq> [])) \<and>
     (\<forall>d. pending d \<noteq> [] \<longrightarrow> fst (ReadData funcs d) = hd (pending d) \<and> pending (snd (ReadData funcs d)) = tl (pending d))"

lemma keyboard_loop_step:
  assumes c: "controller_ok funcs pending" and d: "pending d = b # bs" "b \<noteq> 0xe0"
    and e: "scan_event k_ps2_scanset1_key_lut1 b = Some e" "k_dev_kb_KeyboardHandler kb e s = Some (kb', s')"
  shows "\<exists>d'. keyboard_loop funcs kb d s = keyboard_loop funcs kb' d' s' \<and> pending d' = bs"
proof -
  obtain st d1 where r: "ReadCmd funcs d = (st, d1)" by fastforce
  then have d1: "pending d1 = b # bs" "st AND K_DEV_PS2_STATUS_OUT_BUFFER_FULL \<noteq> 0"
    using c d(1) by (auto simp: controller_ok_def dest!: spec [of _ d])
  obtain x d2 where r2: "ReadData funcs d1 = (x, d2)" by fastforce
  then have d2: "x = b" "pending d2 = bs"
    using c d1(1) by (auto simp: controller_ok_def dest!: spec [of _ d1])
  have "keyboard_loop funcs kb d s = keyboard_loop funcs kb' d2 s'"
    using r r2 d1(2) d2(1) d(2) e by (subst keyboard_loop.simps) (simp add: k_PS2_Scanset1Key_def)
  then show ?thesis using d2(2) by blast
qed

lemma keyboard_loop_end:
  assumes "controller_ok funcs pending" "pending d = []"
  shows "\<exists>d'. keyboard_loop funcs kb d s = Some (kb, d', s) \<and> pending d' = []"
proof -
  obtain st d1 where r: "ReadCmd funcs d = (st, d1)" by fastforce
  then have "pending d1 = []" "st AND K_DEV_PS2_STATUS_OUT_BUFFER_FULL = 0"
    using assms by (auto simp: controller_ok_def dest!: spec [of _ d])
  then show ?thesis using r by (subst keyboard_loop.simps) simp
qed

lemmas handler_defs = k_dev_kb_KeyboardHandler_def K_DEV_KEYBOARD_LSHIFT_KEY_def K_DEV_KEYBOARD_RSHIFT_KEY_def
  K_DEV_KEYBOARD_CASPLOCK_KEY_def

text \<open>A key that is not a modifier: its character is written when it goes down, and nothing happens when it goes up.\<close>

lemma handler_char:
  assumes "key \<notin> {30, 44, 57}" "rd (if left_shift kb \<or> right_shift kb \<or> caps_lock kb then k_kb_shift_key_lut else k_kb_key_lut) key = Some ch"
    and "stream_ok s" "stream_room s (Suc m)"
  shows "\<exists>s'. k_dev_kb_KeyboardHandler kb \<lparr>event_type = K_DEV_KEYBOARD_EVENT_KEY_DOWN, event_key = key\<rparr> (Some s) = Some (kb, Some s') \<and>
    stream_ok s' \<and> stream_bytes s' = stream_bytes s @ [ch] \<and> stream_room s' m \<and> stream_condition s'"
proof -
  obtain s1 where s1: "k_io_WriteStreamData (Some s) (Some [ch]) 1 = Some (K_STATUS_OK, Some s1)" "stream_ok s1"
      "stream_bytes s1 = stream_bytes s @ [ch]" "stream_room s1 m"
    using write_stream_ok [OF assms(3), of "[ch]" m] assms(4) by auto
  let ?s = "s1\<lparr>stream_condition := True\<rparr>"
  have n: "next_of ?s = next_of s1" by (auto simp: next_of_def)
  have "stream_ok ?s" using s1(2) by (simp add: stream_ok_def stream_rep_def n)
  moreover have "stream_bytes ?s = stream_bytes s1" by (simp add: stream_bytes_def stream_flat_def n)
  moreover have "stream_room ?s m" using s1(4) by (simp add: stream_room_def new_buffers_def)
  ultimately show ?thesis using assms(1,2) s1 by (simp add: handler_defs k_io_SignalStream_def)
qed

lemma handler_up:
  "key \<notin> {30, 44, 57} \<Longrightarrow>
   k_dev_kb_KeyboardHandler kb \<lparr>event_type = K_DEV_KEYBOARD_EVENT_KEY_UP, event_key = key\<rparr> s = Some (kb, s)"
  by (simp add: handler_defs)

definition plain_keyboard :: "k_dev_keyboard_t \<Rightarrow> bool" where
  "plain_keyboard kb \<longleftrightarrow> \<not> left_shift kb \<and> \<not> right_shift kb \<and> \<not> caps_lock kb"

lemma left_shift_events:
  "scan_event k_ps2_scanset1_key_lut1 0x2a = Some \<lparr>event_type = K_DEV_KEYBOARD_EVENT_KEY_DOWN, event_key = 44\<rparr>"
  "scan_event k_ps2_scanset1_key_lut1 0xaa = Some \<lparr>event_type = K_DEV_KEYBOARD_EVENT_KEY_UP, event_key = 44\<rparr>"
  by (simp_all add: scan_event_def K_PS2_SCANSET1_BREAK_MASK_def k_ps2_scanset1_key_lut1_eq rd_def)

lemma press_ok:
  assumes c: "controller_ok funcs pending" and k: "k \<in> set scan_codes" and kb: "plain_keyboard kb"
    and d: "pending d = press k @ bs" and s: "stream_ok s" "stream_room s (Suc m)"
  shows "\<exists>d' s'. keyboard_loop funcs kb d (Some s) = keyboard_loop funcs kb d' (Some s') \<and> pending d' = bs \<and>
    stream_ok s' \<and> stream_bytes s' = stream_bytes s @ [fst k] \<and> stream_room s' m \<and> stream_condition s'"
proof -
  obtain ch sh i where ki: "k = (ch, sh, i)" by (cases k)
  let ?key = "k_ps2_scanset1_key_lut1 ! unat i"
  note ok = scan_codes_ok [OF k [unfolded ki]]
  let ?kb = "if sh then kb\<lparr>left_shift := True\<rparr> else kb"
  have shift: "(left_shift ?kb \<or> right_shift ?kb \<or> caps_lock ?kb) = sh" using kb by (auto simp: plain_keyboard_def)
  obtain s' where s': "k_dev_kb_KeyboardHandler ?kb \<lparr>event_type = K_DEV_KEYBOARD_EVENT_KEY_DOWN, event_key = ?key\<rparr> (Some s) = Some (?kb, Some s')"
      "stream_ok s'" "stream_bytes s' = stream_bytes s @ [ch]" "stream_room s' m" "stream_condition s'"
    using handler_char [of ?key ?kb ch s m] ok s unfolding shift by blast
  have up: "k_dev_kb_KeyboardHandler ?kb \<lparr>event_type = K_DEV_KEYBOARD_EVENT_KEY_UP, event_key = ?key\<rparr> (Some s') = Some (?kb, Some s')"
    using ok by (intro handler_up) blast
  have "\<exists>d'. keyboard_loop funcs kb d (Some s) = keyboard_loop funcs kb d' (Some s') \<and> pending d' = bs"
  proof (cases sh)
    case False
    then obtain d1 where "keyboard_loop funcs kb d (Some s) = keyboard_loop funcs kb d1 (Some s')" "pending d1 = (i OR 0x80) # bs"
      using keyboard_loop_step [OF c, of d i "(i OR 0x80) # bs" _ kb "Some s" kb "Some s'"] d ok s'(1) by (auto simp: ki press_def)
    moreover from this obtain d2 where "keyboard_loop funcs kb d1 (Some s') = keyboard_loop funcs kb d2 (Some s')" "pending d2 = bs"
      using keyboard_loop_step [OF c, of d1 "i OR 0x80" bs _ kb "Some s'" kb "Some s'"] False ok up by auto
    ultimately show ?thesis by auto
  next
    case True
    let ?k1 = "kb\<lparr>left_shift := True\<rparr>"
    have d: "pending d = 0x2a # i # (i OR 0x80) # 0xaa # bs" using d True by (simp add: ki press_def)
    obtain d1 where 1: "keyboard_loop funcs kb d (Some s) = keyboard_loop funcs ?k1 d1 (Some s)" "pending d1 = i # (i OR 0x80) # 0xaa # bs"
      using keyboard_loop_step [OF c d _ left_shift_events(1), of kb "Some s" ?k1 "Some s"] by (auto simp: handler_defs)
    obtain d2 where 2: "keyboard_loop funcs ?k1 d1 (Some s) = keyboard_loop funcs ?k1 d2 (Some s')" "pending d2 = (i OR 0x80) # 0xaa # bs"
      using keyboard_loop_step [OF c 1(2), of _ ?k1 "Some s" ?k1 "Some s'"] True ok s'(1) by auto
    obtain d3 where 3: "keyboard_loop funcs ?k1 d2 (Some s') = keyboard_loop funcs ?k1 d3 (Some s')" "pending d3 = 0xaa # bs"
      using keyboard_loop_step [OF c 2(2), of _ ?k1 "Some s'" ?k1 "Some s'"] True ok up by auto
    have "kb\<lparr>left_shift := False\<rparr> = kb" using kb by (simp add: plain_keyboard_def)
    then obtain d4 where "keyboard_loop funcs ?k1 d3 (Some s') = keyboard_loop funcs kb d4 (Some s')" "pending d4 = bs"
      using keyboard_loop_step [OF c 3(2) _ left_shift_events(2), of ?k1 "Some s'" kb "Some s'"] by (auto simp: handler_defs)
    then show ?thesis using 1 2 3 by auto
  qed
  then show ?thesis using s' ki by auto
qed

lemma press_all_ok:
  assumes "controller_ok funcs pending" "set ks \<subseteq> set scan_codes" "plain_keyboard kb"
    and "pending d = concat (map press ks)" "stream_ok s" "stream_room s (length ks)"
  shows "\<exists>d' s'. keyboard_loop funcs kb d (Some s) = Some (kb, d', Some s') \<and> pending d' = [] \<and>
    stream_ok s' \<and> stream_bytes s' = stream_bytes s @ map fst ks \<and> (stream_condition s \<or> ks \<noteq> [] \<longrightarrow> stream_condition s')"
  using assms(2,4-)
proof (induction ks arbitrary: d s)
  case Nil
  then show ?case using keyboard_loop_end [OF assms(1), of d kb "Some s"] by auto
next
  case (Cons k ks)
  have k: "k \<in> set scan_codes" "set ks \<subseteq> set scan_codes" using Cons.prems(1) by auto
  obtain d1 s1 where 1: "keyboard_loop funcs kb d (Some s) = keyboard_loop funcs kb d1 (Some s1)"
      "pending d1 = concat (map press ks)" "stream_ok s1" "stream_bytes s1 = stream_bytes s @ [fst k]"
      "stream_room s1 (length ks)" "stream_condition s1"
    using press_ok [OF assms(1) k(1) assms(3), of d "concat (map press ks)" s "length ks"] Cons.prems by auto
  then show ?case using Cons.IH [OF k(2) 1(2,3,5)] by auto
qed

lemma typing_ok:
  assumes "controller_ok funcs pending" "set ks \<subseteq> set scan_codes" "plain_keyboard kb"
    and "pending d = concat (map press ks)" "stream_ok s" "stream_room s (length ks)"
  shows "\<exists>d' s'. k_PS2_KeyboardInterruptHandler funcs kb d (Some s) = Some (kb\<lparr>cur_cmd := 0\<rparr>, d', Some s') \<and>
    pending d' = [] \<and> stream_ok s' \<and> stream_bytes s' = stream_bytes s @ map fst ks \<and> (ks \<noteq> [] \<longrightarrow> stream_condition s')"
  using press_all_ok [OF assms] by (auto simp: k_PS2_KeyboardInterruptHandler_def)

text \<open>Keys above 106, such as escape (110) and the function keys, lie behind the end of the character tables.\<close>

lemma handler_behind_table:
  assumes "106 < key"
  shows "k_dev_kb_KeyboardHandler kb \<lparr>event_type = K_DEV_KEYBOARD_EVENT_KEY_DOWN, event_key = key\<rparr> s = None"
  using assms by (simp add: handler_defs rd_def k_kb_key_lut_eq k_kb_shift_key_lut_eq)

lemma escape_key:
  "scan_event k_ps2_scanset1_key_lut1 1 = Some \<lparr>event_type = K_DEV_KEYBOARD_EVENT_KEY_DOWN, event_key = 110\<rparr>"
  by (simp add: scan_event_def K_PS2_SCANSET1_BREAK_MASK_def k_ps2_scanset1_key_lut1_eq rd_def)

section \<open>Properties\<close>


text \<open>A controller that is nothing but its pending bytes.\<close>

definition queue_funcs :: "bytes k_dev_ps2_funcs_t" where
  "queue_funcs = \<lparr>ReadData = (\<lambda>d. (if d = [] then 0 else hd d, tl d)), ReadCmd = (\<lambda>d. (if d = [] then 0 else 1, d)), WriteCmd = (\<lambda>_ d. d)\<rparr>"

lemma queue_controller_ok: "controller_ok queue_funcs (\<lambda>d. d)"
  by (simp add: controller_ok_def queue_funcs_def K_DEV_PS2_STATUS_OUT_BUFFER_FULL_def)


end
