(* ===== verification/Dev_Piix3.thy ===== *)
theory Dev_Piix3
  imports Irq_Table Dev_Pci Rt_String Dsk_Ide Dev_Keyboard
begin

text \<open>
  The list of devices (\<open>dev/dev.c\<close>) and the chipset driver (\<open>dev/soc/piix3/piix3.c\<close>): the devices it
  creates, the handlers it installs and the words it writes to the two interrupt controllers, whose
  reading of these words is written out after their data sheet. The disk's own operations are those of
  \<open>Dsk_Ide\<close>, the keyboard's those of \<open>Dev_Keyboard\<close>; the driver gives them the ports.
\<close>

section \<open>Devices\<close>

definition K_DEV_DEVICE_TYPE_DISK :: nat where "K_DEV_DEVICE_TYPE_DISK = 1"
definition K_DEV_DEVICE_TYPE_KEYBOARD :: nat where "K_DEV_DEVICE_TYPE_KEYBOARD = 2"
definition K_DEV_DEVICE_STATUS_READY :: nat where "K_DEV_DEVICE_STATUS_READY = 0"
definition K_DEV_DEVICE_STATUS_NOT_INITIALIZED :: nat where "K_DEV_DEVICE_STATUS_NOT_INITIALIZED = 1"
definition K_DEV_DEVICE_STATUS_INIT_FAILED :: nat where "K_DEV_DEVICE_STATUS_INIT_FAILED = 3"

record k_dev_device_desc_t =
  desc_type :: nat
  desc_size :: nat
  desc_driver_func :: "nat option"
  desc_name :: bytes

record k_dev_device_t =
  device_type :: nat
  device_status :: nat
  next_device :: "nat option"
  prev_device :: "nat option"
  driver_func :: "nat option"
  driver_thread :: "nat option"
  device_cond :: bool
  device_name :: bytes

record k_dev_list =
  k_dev_devices :: "nat option"
  k_dev_last_device :: "nat option"
  device_at :: "nat \<Rightarrow> k_dev_device_t"

definition upd_device :: "nat \<Rightarrow> (k_dev_device_t \<Rightarrow> k_dev_device_t) \<Rightarrow> k_dev_list \<Rightarrow> k_dev_list" where
  "upd_device a f ds = ds\<lparr>device_at := (device_at ds)(a := f (device_at ds a))\<rparr>"

text \<open>
  \<open>k_dev_CreateDevice\<close>; \<open>a\<close> is the object that \<open>k_rt_Malloc\<close> returns, which is cleared, with its name
  field of 32 bytes.
\<close>

definition k_dev_CreateDevice ::
    "nat \<Rightarrow> k_dev_device_desc_t option \<Rightarrow> k_dev_list \<Rightarrow> (nat option \<times> k_dev_list) option" where
  "k_dev_CreateDevice a desc ds = (case desc of
      None \<Rightarrow> Some (None, ds)
    | Some d \<Rightarrow>
        if desc_size d = 0 then Some (None, ds)
        else do {
          (_, name) \<leftarrow> k_rt_StrCpy (replicate 32 0) 32 (desc_name d);
          let ds = upd_device a (\<lambda>_. \<lparr>device_type = desc_type d, device_status = K_DEV_DEVICE_STATUS_NOT_INITIALIZED,
            next_device = None, prev_device = None, driver_func = desc_driver_func d, driver_thread = None,
            device_cond = False, device_name = name\<rparr>) ds;
          ds \<leftarrow> (case k_dev_devices ds of
              None \<Rightarrow> Some (ds\<lparr>k_dev_devices := Some a\<rparr>)
            | Some _ \<Rightarrow> do {
                l \<leftarrow> k_dev_last_device ds;
                let ds = upd_device l (\<lambda>x. x\<lparr>next_device := Some a\<rparr>) ds;
                Some (upd_device a (\<lambda>x. x\<lparr>prev_device := Some l\<rparr>) ds)
              });
          Some (Some a, ds\<lparr>k_dev_last_device := Some a\<rparr>)
        })"

text \<open>\<open>thread\<close> is the thread that \<open>k_proc_CreateKernelThread\<close> returns.\<close>

definition k_dev_StartDevice :: "nat \<Rightarrow> nat option \<Rightarrow> k_dev_list \<Rightarrow> k_dev_list" where
  "k_dev_StartDevice thread device ds = (case device of
      None \<Rightarrow> ds
    | Some a \<Rightarrow>
        if device_status (device_at ds a) = K_DEV_DEVICE_STATUS_NOT_INITIALIZED \<and> driver_func (device_at ds a) \<noteq> None
        then upd_device a (\<lambda>x. x\<lparr>driver_thread := Some thread\<rparr>) ds
        else ds)"

definition k_dev_DeviceReady :: "nat option \<Rightarrow> k_dev_list \<Rightarrow> k_dev_list" where
  "k_dev_DeviceReady device ds = (case device of
      None \<Rightarrow> ds
    | Some a \<Rightarrow> upd_device a (\<lambda>x. x\<lparr>device_status := K_DEV_DEVICE_STATUS_READY, device_cond := True\<rparr>) ds)"

text \<open>Up to the end of the calling thread.\<close>

definition k_dev_DeviceInitFailed :: "nat option \<Rightarrow> k_dev_list \<Rightarrow> k_dev_list" where
  "k_dev_DeviceInitFailed device ds = (case device of
      None \<Rightarrow> ds
    | Some a \<Rightarrow> upd_device a (\<lambda>x. x\<lparr>device_status := K_DEV_DEVICE_STATUS_INIT_FAILED, device_cond := True\<rparr>) ds)"

text \<open>
  \<open>k_dev_StartDevices\<close> on the devices from \<open>device\<close>: each is started and waited for. \<open>thread\<close> gives
  the threads, \<open>wait\<close> is what happens until the condition of the device is set (\<open>None\<close> when it never
  is); what is printed about each device is its name and whether it is ready.
\<close>

partial_function (option) start_devices ::
    "(nat \<Rightarrow> nat) \<Rightarrow> (nat \<Rightarrow> k_dev_list \<Rightarrow> k_dev_list option) \<Rightarrow> nat option \<Rightarrow> k_dev_list \<Rightarrow>
     ((bytes \<times> bool) list \<times> k_dev_list) option" where
  "start_devices thread wait device ds = (case device of
      None \<Rightarrow> Some ([], ds)
    | Some a \<Rightarrow> do {
        let ds = k_dev_StartDevice (thread a) (Some a) ds;
        ds \<leftarrow> wait a ds;
        let line = (device_name (device_at ds a), device_status (device_at ds a) = K_DEV_DEVICE_STATUS_READY);
        (rest, ds) \<leftarrow> start_devices thread wait (next_device (device_at ds a)) ds;
        Some (line # rest, ds)
      })"

definition k_dev_StartDevices ::
    "(nat \<Rightarrow> nat) \<Rightarrow> (nat \<Rightarrow> k_dev_list \<Rightarrow> k_dev_list option) \<Rightarrow> k_dev_list \<Rightarrow> ((bytes \<times> bool) list \<times> k_dev_list) option" where
  "k_dev_StartDevices thread wait ds = start_devices thread wait (k_dev_devices ds) ds"

section \<open>Interrupt controllers\<close>

text \<open>
  An 8259: the initialisation word it expects next (0 when it is operational), whether it was told to
  work alone and to expect a fourth word, the base of its vectors, its cascade word, its mask and the lines in
  service, highest priority first.
\<close>

record k_82C59 =
  pic_stage :: nat
  pic_single :: bool
  pic_icw4 :: bool
  pic_base :: u8
  pic_cascade :: u8
  pic_mask :: u8
  pic_service :: "nat list"

definition pic_command :: "u8 \<Rightarrow> k_82C59 \<Rightarrow> k_82C59" where
  "pic_command v p =
     (if bit v 4 then p\<lparr>pic_stage := 2, pic_single := bit v 1, pic_icw4 := bit v 0, pic_mask := 0, pic_service := []\<rparr>
      else if v AND 0xe0 = 0x20 \<and> \<not> bit v 3 then p\<lparr>pic_service := tl (pic_service p)\<rparr>
      else p)"

definition pic_data :: "u8 \<Rightarrow> k_82C59 \<Rightarrow> k_82C59" where
  "pic_data v p =
     (let last = (if pic_icw4 p then 4 else 0) in
      if pic_stage p = 2 then p\<lparr>pic_base := v AND 0xf8, pic_stage := if pic_single p then last else 3\<rparr>
      else if pic_stage p = 3 then p\<lparr>pic_cascade := v, pic_stage := last\<rparr>
      else if pic_stage p = 4 then p\<lparr>pic_stage := 0\<rparr>
      else p\<lparr>pic_mask := v\<rparr>)"

text \<open>The two controllers at their ports, master first.\<close>

definition pic_out :: "u8 \<Rightarrow> nat \<Rightarrow> k_82C59 \<times> k_82C59 \<Rightarrow> k_82C59 \<times> k_82C59" where
  "pic_out v port = (\<lambda>(m, s).
     if port = 0x20 then (pic_command v m, s) else if port = 0x21 then (pic_data v m, s)
     else if port = 0xa0 then (m, pic_command v s) else if port = 0xa1 then (m, pic_data v s)
     else (m, s))"

text \<open>A line is taken when it is not masked and nothing of its priority or a higher one is in service.\<close>

definition pic_takes :: "k_82C59 \<Rightarrow> nat \<Rightarrow> bool" where
  "pic_takes p line \<longleftrightarrow> pic_stage p = 0 \<and> \<not> bit (pic_mask p) line \<and> (\<forall>l \<in> set (pic_service p). line < l)"

definition pic_serve :: "nat \<Rightarrow> k_82C59 \<Rightarrow> k_82C59" where
  "pic_serve line p = p\<lparr>pic_service := line # pic_service p\<rparr>"

definition raise_line :: "nat \<Rightarrow> k_82C59 \<times> k_82C59 \<Rightarrow> (u8 \<times> k_82C59 \<times> k_82C59) option" where
  "raise_line line = (\<lambda>(m, s).
     if line < 8 then
       (if pic_takes m line \<and> \<not> bit (pic_cascade m) line then Some (pic_base m OR word_of_nat line, pic_serve line m, s) else None)
     else if pic_cascade s < 8 \<and> bit (pic_cascade m) (unat (pic_cascade s)) \<and> pic_takes s (line - 8) \<and> pic_takes m (unat (pic_cascade s))
     then Some (pic_base s OR word_of_nat (line - 8), pic_serve (unat (pic_cascade s)) m, pic_serve (line - 8) s)
     else None)"

definition K_82C59_ICW1 :: "u8 \<Rightarrow> u8 \<Rightarrow> u8 \<Rightarrow> u8" where
  "K_82C59_ICW1 icw4_needed single_mode level_trigger = icw4_needed OR single_mode * 2 OR level_trigger * 8 OR 0x10"

definition K_82C59_ICW2 :: "u32 \<Rightarrow> u8" where
  "K_82C59_ICW2 int_base = ucast int_base"

definition K_82C59_M_ICW3 :: "u8 \<Rightarrow> u8 \<Rightarrow> u8 \<Rightarrow> u8 \<Rightarrow> u8 \<Rightarrow> u8 \<Rightarrow> u8 \<Rightarrow> u8 \<Rightarrow> u8" where
  "K_82C59_M_ICW3 s0 s1 s2 s3 s4 s5 s6 s7 =
     s0 OR push_bit 1 s1 OR push_bit 2 s2 OR push_bit 3 s3 OR push_bit 4 s4 OR push_bit 5 s5 OR push_bit 6 s6 OR push_bit 7 s7"

definition K_82C59_S_ICW3 :: "u8 \<Rightarrow> u8" where
  "K_82C59_S_ICW3 sid = sid"

definition K_82C59_ICW4 :: "u8 \<Rightarrow> u8 \<Rightarrow> u8 \<Rightarrow> u8 \<Rightarrow> u8 \<Rightarrow> u8" where
  "K_82C59_ICW4 cpu_mode auto_eoi buff_mode buff_master nest_mode =
     cpu_mode OR auto_eoi * 2 OR buff_master * 4 OR buff_mode * 8 OR nest_mode * 16"

section \<open>The chipset\<close>

definition K_PIIX3_82C59_IRQ_BASE :: nat where "K_PIIX3_82C59_IRQ_BASE = 128"
definition K_PIIX3_IDE_IRQ_VECTOR :: nat where "K_PIIX3_IDE_IRQ_VECTOR = 14"
definition K_DEV_PS2_KEYBOARD_IRQ_VECTOR :: nat where "K_DEV_PS2_KEYBOARD_IRQ_VECTOR = 1"

definition piix3_pic_words :: "(u8 \<times> nat) list" where
  "piix3_pic_words = [
     (K_82C59_ICW1 1 0 0, 0x20), (K_82C59_ICW2 (word_of_nat K_PIIX3_82C59_IRQ_BASE), 0x21),
     (K_82C59_M_ICW3 0 0 1 0 0 0 0 0, 0x21), (K_82C59_ICW4 1 0 0 0 0, 0x21),
     (K_82C59_ICW1 1 0 0, 0xa0), (K_82C59_ICW2 (word_of_nat (K_PIIX3_82C59_IRQ_BASE + 8)), 0xa1),
     (K_82C59_S_ICW3 2, 0xa1), (K_82C59_ICW4 1 0 0 0 0, 0xa1)]"

definition k_PIIX3_ISA_EndOfInterrupt :: "nat \<Rightarrow> k_82C59 \<times> k_82C59 \<Rightarrow> k_82C59 \<times> k_82C59" where
  "k_PIIX3_ISA_EndOfInterrupt irq_vector pics =
     (let pics = pic_out 0x20 0x20 pics in if irq_vector > 7 then pic_out 0x20 0xa0 pics else pics)"

section \<open>Ports\<close>

definition K_DEV_PS2_DATA_PORT :: nat where "K_DEV_PS2_DATA_PORT = 0x60"
definition K_DEV_PS2_STATUS_CMD_PORT :: nat where "K_DEV_PS2_STATUS_CMD_PORT = 0x64"
definition K_PIIX3_PRIMARY_IDE_CMD_BLOCK :: nat where "K_PIIX3_PRIMARY_IDE_CMD_BLOCK = 0x1f0"

definition k_PIIX3_PS2_ReadData :: "'d port_io \<Rightarrow> 'd \<Rightarrow> u8 \<times> 'd" where
  "k_PIIX3_PS2_ReadData io d = in_b io K_DEV_PS2_DATA_PORT d"

definition k_PIIX3_PS2_ReadCmd :: "'d port_io \<Rightarrow> 'd \<Rightarrow> u8 \<times> 'd" where
  "k_PIIX3_PS2_ReadCmd io d = in_b io K_DEV_PS2_STATUS_CMD_PORT d"

definition k_PIIX3_PS2_WriteCmd :: "'d port_io \<Rightarrow> u8 \<Rightarrow> 'd \<Rightarrow> 'd" where
  "k_PIIX3_PS2_WriteCmd io value d = out_b io value K_DEV_PS2_STATUS_CMD_PORT d"

definition k_PIIX3_PS2_funcs :: "'d port_io \<Rightarrow> 'd k_dev_ps2_funcs_t" where
  "k_PIIX3_PS2_funcs io =
     \<lparr>ReadData = k_PIIX3_PS2_ReadData io, ReadCmd = k_PIIX3_PS2_ReadCmd io, WriteCmd = k_PIIX3_PS2_WriteCmd io\<rparr>"

definition k_PIIX3_IDE_ReadReg8 :: "'d port_io \<Rightarrow> nat \<Rightarrow> 'd \<Rightarrow> u8 \<times> 'd" where
  "k_PIIX3_IDE_ReadReg8 io reg d = in_b io (K_PIIX3_PRIMARY_IDE_CMD_BLOCK + reg) d"

definition k_PIIX3_IDE_WriteReg8 :: "'d port_io \<Rightarrow> nat \<Rightarrow> u8 \<Rightarrow> 'd \<Rightarrow> 'd" where
  "k_PIIX3_IDE_WriteReg8 io reg value d = out_b io value (K_PIIX3_PRIMARY_IDE_CMD_BLOCK + reg) d"

section \<open>Interrupt handlers\<close>

definition k_PIIX3_IDE_IRQHandler ::
    "nat \<Rightarrow> u8 \<Rightarrow> u16 list \<Rightarrow> k_dev_dsk_ide_cmd_t \<Rightarrow> k_82C59 \<times> k_82C59 \<Rightarrow> (k_dev_dsk_ide_cmd_t \<times> k_82C59 \<times> k_82C59) option" where
  "k_PIIX3_IDE_IRQHandler block_size status port cmd pics = do {
     cmd \<leftarrow> k_IDE_InterruptHandler block_size status port cmd;
     Some (cmd, k_PIIX3_ISA_EndOfInterrupt K_PIIX3_IDE_IRQ_VECTOR pics)
   }"

definition k_PIIX3_PS2_Keyboard_IRQHandler ::
    "'d port_io \<Rightarrow> k_dev_keyboard_t \<Rightarrow> 'd \<Rightarrow> k_io_stream_t option \<Rightarrow> k_82C59 \<times> k_82C59 \<Rightarrow>
     (k_dev_keyboard_t \<times> 'd \<times> k_io_stream_t option \<times> k_82C59 \<times> k_82C59) option" where
  "k_PIIX3_PS2_Keyboard_IRQHandler io keyboard d focused pics = do {
     (keyboard, d, focused) \<leftarrow> k_PS2_KeyboardInterruptHandler (k_PIIX3_PS2_funcs io) keyboard d focused;
     Some (keyboard, d, focused, k_PIIX3_ISA_EndOfInterrupt K_DEV_PS2_KEYBOARD_IRQ_VECTOR pics)
   }"

definition k_PIIX3_ISA_Timer1_IRQHandler :: "k_82C59 \<times> k_82C59 \<Rightarrow> k_82C59 \<times> k_82C59" where
  "k_PIIX3_ISA_Timer1_IRQHandler pics = k_PIIX3_ISA_EndOfInterrupt 0 pics"

section \<open>The chipset\<close>

text \<open>
  The driver's routines, the objects, the thread and the command page it is given, the sizes of its two
  device types and of an IDE command, and the words the drive answers \<open>k_IDE_Identify\<close> with.
\<close>

record piix3_env =
  timer_handler :: nat
  ide_handler :: nat
  keyboard_handler :: nat
  ide_thread_func :: nat
  ide_disk :: nat
  ps2_device :: nat
  ide_thread :: nat
  ide_disk_size :: nat
  ps2_device_size :: nat
  ide_cmd_page :: nat
  ide_cmd_size :: nat
  ide_cmd_align :: nat
  ide_info :: "u16 list"
  ide_info_addr :: nat

record machine =
  m_tables :: irq_tables
  m_pics :: "k_82C59 \<times> k_82C59"
  m_devices :: k_dev_list
  m_disk :: k_dev_disk_t
  m_block_count :: u32

text \<open>The fields of the disk object, whose command list \<open>k_dev_CreateDevice\<close> cleared with the rest of it.\<close>

definition init_ide_disk :: "piix3_env \<Rightarrow> k_dev_disk_t \<Rightarrow> k_dev_disk_t option" where
  "init_ide_disk env disk = k_dev_InitDiskCmdPage (ide_cmd_page env)
     (disk\<lparr>cmds := None, last_cmd := None, disk_read := Some ide_disk_read, disk_write := None, disk_clear := None,
        disk_type := K_DEV_DSK_TYPE_DISK, cur_cmd_page := Some (ide_cmd_page env), freeable_cmd_pages := None, cmd_pages := None,
        last_cmd_page := None, cmd_page_count := 0, cmd_page_index := 0, disk_cmd_size := ide_cmd_size env,
        disk_cmd_align := ide_cmd_align env\<rparr>)"

definition k_PIIX3_Init :: "u32 \<Rightarrow> piix3_env \<Rightarrow> machine \<Rightarrow> machine option" where
  "k_PIIX3_Init jt env mc = do {
     t \<leftarrow> k_irq_SetInterruptHandler jt K_PIIX3_82C59_IRQ_BASE (Some (timer_handler env)) 0 (m_tables mc);
     let pics = fold (\<lambda>(v, port). pic_out v port) piix3_pic_words (m_pics mc);
     (disk, ds) \<leftarrow> k_dev_CreateDevice (ide_disk env) (Some \<lparr>desc_type = K_DEV_DEVICE_TYPE_DISK, desc_size = ide_disk_size env,
       desc_driver_func = Some (ide_thread_func env), desc_name = map of_char ''PIIX3 IDE Interface'' @ [0]\<rparr>) (m_devices mc);
     d \<leftarrow> disk;
     md \<leftarrow> init_ide_disk env (m_disk mc);
     t \<leftarrow> k_irq_SetInterruptHandler jt (K_PIIX3_82C59_IRQ_BASE + K_PIIX3_IDE_IRQ_VECTOR) (Some (ide_handler env)) d t;
     (block_size, block_count) \<leftarrow> k_IDE_Identify (ide_info env) (ide_info_addr env);
     let md = md\<lparr>disk_block_size := block_size, start_address := 0\<rparr>;
     let ds = k_dev_StartDevice (ide_thread env) disk ds;
     (ps2, ds) \<leftarrow> k_dev_CreateDevice (ps2_device env) (Some \<lparr>desc_type = K_DEV_DEVICE_TYPE_KEYBOARD, desc_size = ps2_device_size env,
       desc_driver_func = None, desc_name = map of_char ''PIIX3 PS2 Keyboard'' @ [0]\<rparr>) ds;
     k \<leftarrow> ps2;
     t \<leftarrow> k_irq_SetInterruptHandler jt (K_PIIX3_82C59_IRQ_BASE + K_DEV_PS2_KEYBOARD_IRQ_VECTOR) (Some (keyboard_handler env)) k t;
     let ds = k_dev_StartDevice 0 ps2 ds;
     Some (mc\<lparr>m_tables := t, m_pics := pics, m_devices := ds, m_disk := md, m_block_count := block_count\<rparr>)
   }"

section \<open>Lemmas\<close>

text \<open>The device list: the chain of the next links, mirrored by the previous links.\<close>

definition devices_rep :: "k_dev_list \<Rightarrow> nat list \<Rightarrow> bool" where
  "devices_rep ds xs \<longleftrightarrow> distinct xs \<and> k_dev_devices ds = (case xs of [] \<Rightarrow> None | x # _ \<Rightarrow> Some x) \<and>
     (xs \<noteq> [] \<longrightarrow> k_dev_last_device ds = Some (last xs)) \<and>
     (\<forall>i < length xs. next_device (device_at ds (xs ! i)) = (if i + 1 < length xs then Some (xs ! (i + 1)) else None) \<and>
       prev_device (device_at ds (xs ! i)) = (if i = 0 then None else Some (xs ! (i - 1))))"

lemma CreateDevice_ok:
  assumes ds: "devices_rep ds xs" and a: "a \<notin> set xs" and d: "desc_size d \<noteq> 0" "terminated (desc_name d)"
  shows "\<exists>ds'. k_dev_CreateDevice a (Some d) ds = Some (Some a, ds') \<and> devices_rep ds' (xs @ [a]) \<and>
    (\<forall>x \<in> set xs. (device_at ds' x)\<lparr>next_device := None\<rparr> = (device_at ds x)\<lparr>next_device := None\<rparr>) \<and>
    device_type (device_at ds' a) = desc_type d \<and> driver_func (device_at ds' a) = desc_driver_func d \<and>
    device_status (device_at ds' a) = K_DEV_DEVICE_STATUS_NOT_INITIALIZED \<and> \<not> device_cond (device_at ds' a) \<and>
    cstr (device_name (device_at ds' a)) = take 31 (cstr (desc_name d))"
proof -
  obtain name n where name: "k_rt_StrCpy (replicate 32 0) 32 (desc_name d) = Some (n, name)" "cstr name = take 31 (cstr (desc_name d))"
    using k_rt_StrCpy_cstr [OF d(2), of 32 "replicate 32 0"] by auto
  define o0 where "o0 = \<lparr>device_type = desc_type d, device_status = K_DEV_DEVICE_STATUS_NOT_INITIALIZED,
            next_device = None, prev_device = None, driver_func = desc_driver_func d, driver_thread = None,
            device_cond = False, device_name = name\<rparr>"
  show ?thesis
  proof (cases xs rule: rev_cases)
    case Nil
    then show ?thesis using ds d name
      by (auto simp: k_dev_CreateDevice_def devices_rep_def upd_device_def Let_def)
  next
    case (snoc ys l)
    let ?f = "(device_at ds)(a := o0\<lparr>prev_device := Some l\<rparr>, l := (device_at ds l)\<lparr>next_device := Some a\<rparr>)"
    let ?ds = "ds\<lparr>device_at := ?f, k_dev_last_device := Some a\<rparr>"
    have al: "a \<noteq> l" "a \<notin> set ys" using a snoc by auto
    have hd: "k_dev_devices ds = Some (hd xs)" "k_dev_last_device ds = Some l"
      using ds snoc by (auto simp: devices_rep_def split: list.splits)
    have "k_dev_CreateDevice a (Some d) ds = Some (Some a, ?ds)"
      using d name hd al by (simp add: k_dev_CreateDevice_def upd_device_def Let_def o0_def fun_upd_twist)
    moreover have "devices_rep ?ds (xs @ [a])"
    proof -
      have links: "next_device (device_at ds (xs ! i)) = (if i + 1 < length xs then Some (xs ! (i + 1)) else None)"
          "prev_device (device_at ds (xs ! i)) = (if i = 0 then None else Some (xs ! (i - 1)))" if "i < length xs" for i
        using ds that by (simp_all add: devices_rep_def)
      have dis: "distinct xs" using ds by (simp add: devices_rep_def)
      let ?xs = "xs @ [a]"
      have "next_device (?f (?xs ! i)) = (if i + 1 < length ?xs then Some (?xs ! (i + 1)) else None) \<and>
          prev_device (?f (?xs ! i)) = (if i = 0 then None else Some (?xs ! (i - 1)))" if i: "i < length ?xs" for i
      proof -
        consider "i = length xs" | "i = length ys" | "i < length ys" using i snoc by fastforce
        then show ?thesis
        proof cases
          case 1
          then show ?thesis using al snoc by (simp add: o0_def nth_append)
        next
          case 2
          then have "xs ! i = l" using snoc by simp
          then show ?thesis using 2 links(2) [of i] snoc by (simp add: nth_append)
        next
          case 3
          then have "xs ! i = ys ! i" "ys ! i \<in> set ys" "xs ! (i + 1) = ?xs ! (i + 1)" using snoc by (simp_all add: nth_append)
          moreover from this have "ys ! i \<noteq> l" "ys ! i \<noteq> a" using dis al snoc by auto
          ultimately show ?thesis using 3 links [of i] snoc by (simp add: nth_append)
        qed
      qed
      moreover have "(case ?xs of [] \<Rightarrow> None | x # _ \<Rightarrow> Some x) = Some (hd xs)" using snoc by (cases ys) auto
      ultimately show ?thesis unfolding devices_rep_def using dis a hd(1) by simp
    qed
    moreover have "(?f x)\<lparr>next_device := None\<rparr> = (device_at ds x)\<lparr>next_device := None\<rparr>" if "x \<in> set xs" for x
      using that a by auto
    ultimately show ?thesis using al name(2) by (intro exI [of _ ?ds]) (simp add: o0_def)
  qed
qed

lemma pic_words_run:
  "fold (\<lambda>(v, port). pic_out v port) piix3_pic_words (m, s) =
     (m\<lparr>pic_stage := 0, pic_single := False, pic_icw4 := True, pic_base := 0x80, pic_cascade := 4, pic_mask := 0, pic_service := []\<rparr>,
      s\<lparr>pic_stage := 0, pic_single := False, pic_icw4 := True, pic_base := 0x88, pic_cascade := 2, pic_mask := 0, pic_service := []\<rparr>)"
  by (simp add: piix3_pic_words_def pic_out_def pic_command_def pic_data_def Let_def K_82C59_ICW1_def K_82C59_ICW2_def
    K_82C59_M_ICW3_def K_82C59_S_ICW3_def K_82C59_ICW4_def K_PIIX3_82C59_IRQ_BASE_def)

text \<open>A line that nothing in service holds back reaches the processor as its vector, and its end frees it.\<close>

lemma line_served:
  assumes "line \<in> {0, 1, 14}" "pics = fold (\<lambda>(v, port). pic_out v port) piix3_pic_words (m, s)"
  shows "\<exists>v pics'. raise_line line pics = Some (v, pics') \<and> unat v = 128 + line \<and> k_PIIX3_ISA_EndOfInterrupt line pics' = pics"
proof -
  note d = raise_line_def pic_takes_def pic_serve_def k_PIIX3_ISA_EndOfInterrupt_def pic_out_def pic_command_def Let_def
  from assms(1) consider "line = 0" | "line = 1" | "line = 14" by blast
  then show ?thesis
  proof cases
    case 1
    show ?thesis unfolding 1 assms(2) pic_words_run by (simp add: d)
  next
    case 2
    show ?thesis unfolding 2 assms(2) pic_words_run by (simp add: d)
  next
    case 3
    let ?m = "m\<lparr>pic_stage := 0, pic_single := False, pic_icw4 := True, pic_base := 0x80, pic_cascade := 4, pic_mask := 0, pic_service := []\<rparr>"
    let ?s = "s\<lparr>pic_stage := 0, pic_single := False, pic_icw4 := True, pic_base := 0x88, pic_cascade := 2, pic_mask := 0, pic_service := []\<rparr>"
    have b: "(2 :: u8) < 8" "bit (4 :: u8) (unat (2 :: u8))" "unat (2 :: u8) = 2" "(0x88 :: u8) OR word_of_nat (14 - 8) = 0x8e"
      by simp_all
    have r: "raise_line 14 (?m, ?s) = Some (0x8e, pic_serve 2 ?m, pic_serve 6 ?s)"
      by (simp add: raise_line_def pic_takes_def b)
    have e: "pic_command 0x20 (pic_serve 2 ?m) = ?m" "pic_command 0x20 (pic_serve 6 ?s) = ?s"
      by (simp_all add: pic_command_def pic_serve_def)
    have "k_PIIX3_ISA_EndOfInterrupt 14 (pic_serve 2 ?m, pic_serve 6 ?s) = (?m, ?s)"
      by (simp add: k_PIIX3_ISA_EndOfInterrupt_def pic_out_def e Let_def)
    then show ?thesis unfolding 3 assms(2) pic_words_run using r by simp
  qed
qed

lemma set_handler_rep:
  assumes "tables_rep jt r st" "r v = Dispatched c"
  shows "\<exists>st'. k_irq_SetInterruptHandler jt v (Some h) d st = Some st' \<and> tables_rep jt (r(v := Dispatched (Some (h, d)))) st'"
proof -
  obtain st' where st': "irq_run jt [SetHandler v (Some h) d] st = irq_run jt [] st'" "tables_rep jt (route_step (SetHandler v (Some h) d) r) st'"
    using irq_step_rep [OF assms(1), of "SetHandler v (Some h) d" "[]"] by auto
  have "irq_run jt [SetHandler v (Some h) d] st = k_irq_SetInterruptHandler jt v (Some h) d st"
    by (cases "k_irq_SetInterruptHandler jt v (Some h) d st") simp_all
  then have "k_irq_SetInterruptHandler jt v (Some h) d st = Some st'" using st'(1) unfolding irq_run.simps(1) by metis
  moreover have "route_step (SetHandler v (Some h) d) r = r(v := Dispatched (Some (h, d)))" using assms(2) by simp
  ultimately show ?thesis using st'(2) by (simp only:) blast
qed

lemma StartDevice_links:
  "k_dev_devices (k_dev_StartDevice t x ds) = k_dev_devices ds"
  "k_dev_last_device (k_dev_StartDevice t x ds) = k_dev_last_device ds"
  "next_device (device_at (k_dev_StartDevice t x ds) y) = next_device (device_at ds y)"
  "prev_device (device_at (k_dev_StartDevice t x ds) y) = prev_device (device_at ds y)"
  by (simp_all add: k_dev_StartDevice_def upd_device_def split: option.split)

lemma StartDevice_rep: "devices_rep (k_dev_StartDevice t x ds) xs \<longleftrightarrow> devices_rep ds xs"
  by (simp only: devices_rep_def StartDevice_links)

lemma device_names:
  "terminated (map of_char ''PIIX3 IDE Interface'' @ [0])" "terminated (map of_char ''PIIX3 PS2 Keyboard'' @ [0])"
  by (simp_all add: terminated_def)

text \<open>The registers of a read command, on the ports of the first channel.\<close>

lemma ide_issue_ports:
  "fold (\<lambda>(r, v). k_PIIX3_IDE_WriteReg8 io r v) (ide_issue_read b n) d =
     fold (\<lambda>(port, v). out_b io v port)
       [(0x1f3, ucast b), (0x1f4, ucast (drop_bit 8 b)), (0x1f5, ucast (drop_bit 16 b)),
        (0x1f6, ucast (drop_bit 24 b AND 0xf OR 0xe0)), (0x1f2, word_of_nat n), (0x1f7, 0x21)] d"
proof -
  have m: "0xff = (mask 8 :: u32)" by (simp add: mask_eq_exp_minus_1)
  have u: "ucast (x AND 0xff) = (ucast x :: u8)" for x :: u32
    unfolding m by (rule bit_word_eqI) (simp add: bit_simps)
  show ?thesis
    by (simp add: ide_issue_read_def u k_PIIX3_IDE_WriteReg8_def K_PIIX3_PRIMARY_IDE_CMD_BLOCK_def K_IDE_CMD_REG_SEC_NUMBER_def
      K_IDE_CMD_REG_CYL_LOW_def K_IDE_CMD_REG_CYL_HI_def K_IDE_CMD_REG_DRV_HEAD_def K_IDE_CMD_REG_CMD_def
      K_IDE_CMD_READ_SEC_NR_def K_IDE_CMD_REG_SEC_COUNT_def)
qed

lemma init_cmds_keeps:
  "cmds (init_cmds n csize p s disk) = cmds disk" "cur_cmd_page (init_cmds n csize p s disk) = cur_cmd_page disk"
  "disk_read (init_cmds n csize p s disk) = disk_read disk" "disk_type (init_cmds n csize p s disk) = disk_type disk"
  "medium (init_cmds n csize p s disk) = medium disk"
  by (induction n arbitrary: s disk) (simp_all add: upd_cmd_def)

lemma InitDiskCmdPage_keeps:
  assumes "k_dev_InitDiskCmdPage p disk = Some d" "cmd_pages disk = None"
  shows "cmds d = cmds disk" "cur_cmd_page d = cur_cmd_page disk" "disk_read d = disk_read disk"
    "disk_type d = disk_type disk" "medium d = medium disk"
  using assms by (auto simp: k_dev_InitDiskCmdPage_def Let_def upd_page_def upd_cmd_def init_cmds_keeps init_cmds_rest split: if_splits
    simp del: init_cmds.simps)

definition env_ok :: "piix3_env \<Rightarrow> nat list \<Rightarrow> bool" where
  "env_ok env xs \<longleftrightarrow> distinct [ide_disk env, ps2_device env] \<and> ide_disk env \<notin> set xs \<and> ps2_device env \<notin> set xs \<and>
     ide_disk_size env \<noteq> 0 \<and> ps2_device_size env \<noteq> 0 \<and> ide_cmd_size env \<noteq> 0 \<and>
     page_cmd_count (ide_cmd_size env) (ide_cmd_align env) (ide_cmd_page env) \<noteq> 0 \<and> length (ide_info env) = 256"

lemma init_ide_disk_ok:
  assumes "env_ok env xs"
  shows "\<exists>d c fs. init_ide_disk env disk = Some d \<and> pool_ready d (ide_cmd_page env) c fs \<and>
    disk_read d = Some ide_disk_read \<and> medium d = medium disk"
proof -
  let ?z = "ide_cmd_size env" and ?al = "ide_cmd_align env" and ?p = "ide_cmd_page env"
  let ?d0 = "disk\<lparr>cmds := None, last_cmd := None, disk_read := Some ide_disk_read, disk_write := None, disk_clear := None,
        disk_type := K_DEV_DSK_TYPE_DISK, cur_cmd_page := Some ?p, freeable_cmd_pages := None, cmd_pages := None,
        last_cmd_page := None, cmd_page_count := 0, cmd_page_index := 0, disk_cmd_size := ?z, disk_cmd_align := ?al\<rparr>"
  obtain n where z: "0 < ?z" "page_cmd_count ?z ?al ?p = Suc n"
    using assms by (metis env_ok_def not0_implies_Suc not_gr_zero)
  obtain d where d: "k_dev_InitDiskCmdPage ?p ?d0 = Some d" "page_free d ?p (page_cmds ?z ?al ?p)"
      "used_count (page_at d ?p) = 0" "cmd_page_count d = 0"
    using InitDiskCmdPage_free [of ?d0 ?p n] z by auto
  have "page_cmds ?z ?al ?p \<noteq> []" using z(2) by (simp add: page_cmds_def)
  then obtain c fs where c: "page_cmds ?z ?al ?p = c # fs" by (cases "page_cmds ?z ?al ?p") auto
  have "pool_ready d ?p c fs" "disk_read d = Some ide_disk_read" "medium d = medium disk"
    using InitDiskCmdPage_keeps [OF d(1)] d c by (simp_all add: pool_ready_def)
  then show ?thesis using d(1) by (auto simp: init_ide_disk_def)
qed

lemma k_PIIX3_Init_run:
  assumes jt: "stubs_ok jt" and t: "tables_rep jt r (m_tables mc)" "r 128 = Dispatched c0" "r 129 = Dispatched c1" "r 142 = Dispatched c2"
    and ds: "devices_rep (m_devices mc) xs" and e: "env_ok env xs"
  shows "\<exists>mc' d. k_PIIX3_Init jt env mc = Some mc' \<and> devices_rep (m_devices mc') (xs @ [ide_disk env, ps2_device env]) \<and>
    (\<forall>(line, h, d) \<in> {(0, timer_handler env, 0), (1, keyboard_handler env, ps2_device env), (14, ide_handler env, ide_disk env)}.
      \<exists>v pics'. raise_line line (m_pics mc') = Some (v, pics') \<and>
        raise_irq jt (m_tables mc') (unat v) = Some (Dispatched (Some (h, d))) \<and>
        k_PIIX3_ISA_EndOfInterrupt line pics' = m_pics mc') \<and>
    m_disk mc' = d\<lparr>disk_block_size := unat (ide_info env ! 5), start_address := 0\<rparr> \<and>
    m_block_count mc' = push_bit 16 (ucast (ide_info env ! 59)) OR ucast (ide_info env ! 60) \<and>
    init_ide_disk env (m_disk mc) = Some d"
proof -
  have ed: "distinct [ide_disk env, ps2_device env]" "ide_disk env \<notin> set xs" "ps2_device env \<notin> set xs"
      "ide_disk_size env \<noteq> 0" "ps2_device_size env \<noteq> 0"
    using e by (simp_all add: env_ok_def)
  obtain md where md: "init_ide_disk env (m_disk mc) = Some md"
    using init_ide_disk_ok [OF e, of "m_disk mc"] by auto
  have id: "k_IDE_Identify (ide_info env) (ide_info_addr env) =
      Some (unat (ide_info env ! 5), push_bit 16 (ucast (ide_info env ! 59)) OR ucast (ide_info env ! 60))"
    using k_IDE_Identify_words e by (simp add: env_ok_def)
  obtain m s where ms: "m_pics mc = (m, s)" by fastforce
  define pics where "pics = fold (\<lambda>(v, port). pic_out v port) piix3_pic_words (m, s)"
  let ?r1 = "r(128 := Dispatched (Some (timer_handler env, 0)))"
  let ?r2 = "?r1(142 := Dispatched (Some (ide_handler env, ide_disk env)))"
  let ?r3 = "?r2(129 := Dispatched (Some (keyboard_handler env, ps2_device env)))"
  obtain t1 where t1: "k_irq_SetInterruptHandler jt 128 (Some (timer_handler env)) 0 (m_tables mc) = Some t1" "tables_rep jt ?r1 t1"
    using set_handler_rep [OF t(1,2)] by blast
  obtain t2 where t2: "k_irq_SetInterruptHandler jt 142 (Some (ide_handler env)) (ide_disk env) t1 = Some t2" "tables_rep jt ?r2 t2"
    using set_handler_rep [OF t1(2), of 142 c2 "ide_handler env" "ide_disk env"] t(4) by auto
  obtain t3 where t3: "k_irq_SetInterruptHandler jt 129 (Some (keyboard_handler env)) (ps2_device env) t2 = Some t3" "tables_rep jt ?r3 t3"
    using set_handler_rep [OF t2(2), of 129 c1 "keyboard_handler env" "ps2_device env"] t(3) by auto
  let ?dd = "\<lparr>desc_type = K_DEV_DEVICE_TYPE_DISK, desc_size = ide_disk_size env,
       desc_driver_func = Some (ide_thread_func env), desc_name = map of_char ''PIIX3 IDE Interface'' @ [0]\<rparr>"
  let ?kd = "\<lparr>desc_type = K_DEV_DEVICE_TYPE_KEYBOARD, desc_size = ps2_device_size env,
       desc_driver_func = None, desc_name = map of_char ''PIIX3 PS2 Keyboard'' @ [0]\<rparr>"
  obtain d1 where d1: "k_dev_CreateDevice (ide_disk env) (Some ?dd) (m_devices mc) = Some (Some (ide_disk env), d1)"
      "devices_rep d1 (xs @ [ide_disk env])"
    using CreateDevice_ok [OF ds ed(2), of ?dd] ed(4) device_names(1) by auto
  let ?d1 = "k_dev_StartDevice (ide_thread env) (Some (ide_disk env)) d1"
  obtain d2 where d2: "k_dev_CreateDevice (ps2_device env) (Some ?kd) ?d1 = Some (Some (ps2_device env), d2)"
      "devices_rep d2 ((xs @ [ide_disk env]) @ [ps2_device env])"
    using CreateDevice_ok [of ?d1 "xs @ [ide_disk env]" "ps2_device env" ?kd] StartDevice_rep d1(2) ed(1,3,5) device_names(2)
    by auto
  let ?mc = "mc\<lparr>m_tables := t3, m_pics := pics, m_devices := k_dev_StartDevice 0 (Some (ps2_device env)) d2,
      m_disk := md\<lparr>disk_block_size := unat (ide_info env ! 5), start_address := 0\<rparr>,
      m_block_count := push_bit 16 (ucast (ide_info env ! 59)) OR ucast (ide_info env ! 60)\<rparr>"
  have "k_PIIX3_Init jt env mc = Some ?mc"
    using t1(1) t2(1) t3(1) d1(1) d2(1) ms md id
    by (simp add: k_PIIX3_Init_def pics_def K_PIIX3_82C59_IRQ_BASE_def K_PIIX3_IDE_IRQ_VECTOR_def K_DEV_PS2_KEYBOARD_IRQ_VECTOR_def Let_def)
  moreover have "devices_rep (m_devices ?mc) (xs @ [ide_disk env, ps2_device env])" using d2(2) StartDevice_rep by simp
  moreover have "\<exists>v pics'. raise_line line (m_pics ?mc) = Some (v, pics') \<and>
        raise_irq jt (m_tables ?mc) (unat v) = Some (Dispatched (Some (h, d))) \<and>
        k_PIIX3_ISA_EndOfInterrupt line pics' = m_pics ?mc"
    if "(line, h, d) \<in> {(0, timer_handler env, 0), (1, keyboard_handler env, ps2_device env), (14, ide_handler env, ide_disk env)}"
    for line h d
  proof -
    have ln: "line \<in> {0, 1, 14}" using that by auto
    obtain v pics' where v: "raise_line line pics = Some (v, pics')" "unat v = 128 + line" "k_PIIX3_ISA_EndOfInterrupt line pics' = pics"
      using line_served [OF ln pics_def] by blast
    have "128 + line < 256" using that by auto
    then have "raise_irq jt t3 (128 + line) = Some (?r3 (128 + line))" by (rule raise_irq_rep [OF jt t3(2)])
    then show ?thesis using v that by auto
  qed
  ultimately show ?thesis using md by (intro exI [of _ ?mc] exI [of _ md]) simp
qed

lemma controller_funcs:
  assumes "\<forall>d. pending (snd (in_b io 0x64 d)) = pending d \<and> (fst (in_b io 0x64 d) AND 1 \<noteq> 0 \<longleftrightarrow> pending d \<noteq> [])"
    and "\<forall>d. pending d \<noteq> [] \<longrightarrow> fst (in_b io 0x60 d) = hd (pending d) \<and> pending (snd (in_b io 0x60 d)) = tl (pending d)"
  shows "controller_ok (k_PIIX3_PS2_funcs io) pending"
  using assms by (simp add: controller_ok_def k_PIIX3_PS2_funcs_def k_PIIX3_PS2_ReadCmd_def k_PIIX3_PS2_ReadData_def
    K_DEV_PS2_DATA_PORT_def K_DEV_PS2_STATUS_CMD_PORT_def K_DEV_PS2_STATUS_OUT_BUFFER_FULL_def)

section \<open>Properties\<close>

text \<open>
  The path of a hardware interrupt. \<open>k_PIIX3_Init\<close> appends the disk and the keyboard to the device
  list and sets both interrupt controllers and the handler table up so that the lines of the timer, the
  keyboard and the disk, whatever state the controllers were in, are delivered as vectors whose stubs call
  the driver's handler with its device; and the end of interrupt of the handler makes the controllers ready again.
\<close>

theorem k_PIIX3_Init_interrupts:
  assumes jt: "stubs_ok jt" and t: "tables_rep jt r (m_tables mc)" "r 128 = Dispatched c0" "r 129 = Dispatched c1" "r 142 = Dispatched c2"
    and ds: "devices_rep (m_devices mc) xs" and e: "env_ok env xs"
  shows "\<exists>mc'. k_PIIX3_Init jt env mc = Some mc' \<and> devices_rep (m_devices mc') (xs @ [ide_disk env, ps2_device env]) \<and>
    (\<forall>(line, h, d) \<in> {(0, timer_handler env, 0), (1, keyboard_handler env, ps2_device env), (14, ide_handler env, ide_disk env)}.
      \<exists>v pics'. raise_line line (m_pics mc') = Some (v, pics') \<and>
        raise_irq jt (m_tables mc') (unat v) = Some (Dispatched (Some (h, d))) \<and>
        k_PIIX3_ISA_EndOfInterrupt line pics' = m_pics mc')"
proof -
  obtain mc' where "k_PIIX3_Init jt env mc = Some mc'" "devices_rep (m_devices mc') (xs @ [ide_disk env, ps2_device env])"
      "\<forall>(line, h, d) \<in> {(0, timer_handler env, 0), (1, keyboard_handler env, ps2_device env), (14, ide_handler env, ide_disk env)}.
      \<exists>v pics'. raise_line line (m_pics mc') = Some (v, pics') \<and>
        raise_irq jt (m_tables mc') (unat v) = Some (Dispatched (Some (h, d))) \<and>
        k_PIIX3_ISA_EndOfInterrupt line pics' = m_pics mc'"
    using k_PIIX3_Init_run [OF assms] by blast
  then show ?thesis by blast
qed


text \<open>
  A machine: its environment, controllers and devices as they are found, a disk of two sectors, and a
  keyboard controller that is nothing but its pending bytes.
\<close>

definition sample_env :: piix3_env where
  "sample_env = \<lparr>timer_handler = 0x301000, ide_handler = 0x301100, keyboard_handler = 0x301200, ide_thread_func = 0x301300,
     ide_disk = 0x400000, ps2_device = 0x400100, ide_thread = 0x500000, ide_disk_size = 180, ps2_device_size = 120,
     ide_cmd_page = 8192, ide_cmd_size = 44, ide_cmd_align = 4, ide_info = (replicate 256 0)[5 := 512], ide_info_addr = 4096\<rparr>"

definition blank_pic :: k_82C59 where
  "blank_pic = \<lparr>pic_stage = 0, pic_single = True, pic_icw4 = False, pic_base = 8, pic_cascade = 0, pic_mask = 0xff, pic_service = [3]\<rparr>"

definition no_devices :: k_dev_list where
  "no_devices = \<lparr>k_dev_devices = None, k_dev_last_device = None, device_at = (\<lambda>_. \<lparr>device_type = 0, device_status = 0,
     next_device = None, prev_device = None, driver_func = None, driver_thread = None, device_cond = False, device_name = []\<rparr>)\<rparr>"

definition sample_machine :: "irq_tables \<Rightarrow> machine" where
  "sample_machine t = \<lparr>m_tables = t, m_pics = (blank_pic, blank_pic), m_devices = no_devices, m_disk = sample_ide, m_block_count = 0\<rparr>"

definition queue_ports :: "bytes port_io" where
  "queue_ports = \<lparr>in_b = (\<lambda>port d. if port = 0x60 then (if d = [] then 0 else hd d, tl d) else (if d = [] then 0 else 1, d)),
     out_b = (\<lambda>_ _ d. d)\<rparr>"

lemma sample_env_ok: "env_ok sample_env []"
  by (simp add: env_ok_def sample_env_def page_cmd_count_def aligned_cmd_start_def cmd_data_def cmd_data_size_def)

lemma sample_machine_ok:
  "\<exists>t. k_int_Init 0x100000 (\<lambda>v. 0x200000 + word_of_nat v) blank_tables = Some t \<and> stubs_ok 0x100000 \<and>
     tables_rep 0x100000 (route_init (\<lambda>v. 0x200000 + word_of_nat v)) (m_tables (sample_machine t)) \<and>
     devices_rep (m_devices (sample_machine t)) []"
proof -
  have jt: "stubs_ok 0x100000" by (simp add: stubs_ok_def)
  have e: "\<forall>v \<in> exceptions. \<not> is_stub 0x100000 (0x200000 + word_of_nat v)"
    using outside_stubs [OF jt] by (auto simp: exceptions_def)
  have b: "irq_idt blank_tables = replicate 256 \<lparr>irq_dw0 = 0, irq_dw1 = 0\<rparr>" "length (irq_handler_table blank_tables) = 256"
    unfolding blank_tables_def by (simp_all only: irq_tables.simps length_replicate)
  obtain t where t: "k_int_Init 0x100000 (\<lambda>v. 0x200000 + word_of_nat v) blank_tables = Some t"
      "tables_rep 0x100000 (route_init (\<lambda>v. 0x200000 + word_of_nat v)) t"
    using k_int_Init_rep [OF jt b e] by blast
  have "devices_rep (m_devices (sample_machine t)) []" by (simp add: sample_machine_def devices_rep_def no_devices_def)
  moreover have "m_tables (sample_machine t) = t" by (simp add: sample_machine_def)
  ultimately show ?thesis using t jt by metis
qed

lemma route_init_lines:
  "route_init f 128 = Dispatched None" "route_init f 129 = Dispatched None" "route_init f 142 = Dispatched None"
  by (simp_all add: route_init_def)

theorem k_PIIX3_Init_interrupts_witness:
  "\<exists>t mc' v pics'. k_int_Init 0x100000 (\<lambda>v. 0x200000 + word_of_nat v) blank_tables = Some t \<and>
     k_PIIX3_Init 0x100000 sample_env (sample_machine t) = Some mc' \<and>
     raise_line 14 (m_pics mc') = Some (v, pics') \<and>
     raise_irq 0x100000 (m_tables mc') (unat v) = Some (Dispatched (Some (0x301100, 0x400000)))"
proof -
  obtain t where t: "k_int_Init 0x100000 (\<lambda>v. 0x200000 + word_of_nat v) blank_tables = Some t" "stubs_ok 0x100000"
      "tables_rep 0x100000 (route_init (\<lambda>v. 0x200000 + word_of_nat v)) (m_tables (sample_machine t))"
      "devices_rep (m_devices (sample_machine t)) []"
    using sample_machine_ok by blast
  have "ide_handler sample_env = 0x301100" "ide_disk sample_env = 0x400000" by (simp_all add: sample_env_def)
  then show ?thesis
    using k_PIIX3_Init_interrupts [OF t(2,3) route_init_lines t(4) sample_env_ok] t(1) by fastforce
qed


end
