(* ===== verification/Proc_Load.thy ===== *)
theory Proc_Load
  imports Proc_Thread Io_Stream
begin

text \<open>
  Creating and ending processes, the rest of \<open>kernel/proc/proc.c\<close>. A process is loaded from an ELF
  image into an address space of its own, which the kernel builds through three windows of its own
  address space: one on the process's page directory, one on one of its page tables and one on one
  of its pages. Every access through a window is a processor access (\<open>translate\<close>) to the kernel's
  mappings, so that what the code writes goes where the paging structures take it. The lemmas show
  that mapping an address of the process extends the process's own translation by exactly that page,
  and what a loaded segment leaves in the process's memory.
\<close>

section \<open>Accesses of the kernel to its address space\<close>

definition vframe :: "mmu \<Rightarrow> u32 \<Rightarrow> (nat \<times> nat \<times> u32 list) option" where
  "vframe st la = do {
     pa \<leftarrow> translate st la;
     t \<leftarrow> frames st (entry_addr pa);
     Some (entry_addr pa, unat (pa AND 0xfff), t)
   }"

definition vload :: "mmu \<Rightarrow> u32 \<Rightarrow> u32 option" where
  "vload st la = do { (_, off, t) \<leftarrow> vframe st la; rd t (off div 4) }"

definition vstore :: "mmu \<Rightarrow> u32 \<Rightarrow> u32 \<Rightarrow> mmu option" where
  "vstore st la v = do {
     (p, off, t) \<leftarrow> vframe st la;
     t \<leftarrow> wr t (off div 4) v;
     Some (st\<lparr>frames := (frames st)(p \<mapsto> t)\<rparr>)
   }"

definition get_byte :: "u32 \<Rightarrow> nat \<Rightarrow> u8" where
  "get_byte w i = ucast (drop_bit (8 * i) w)"

definition set_byte :: "u32 \<Rightarrow> nat \<Rightarrow> u8 \<Rightarrow> u32" where
  "set_byte w i b = (w AND NOT (push_bit (8 * i) 0xff)) OR push_bit (8 * i) (ucast b)"

definition vstore_byte :: "mmu \<Rightarrow> u32 \<Rightarrow> u8 \<Rightarrow> mmu option" where
  "vstore_byte st la b = do {
     (p, off, t) \<leftarrow> vframe st la;
     w \<leftarrow> rd t (off div 4);
     t \<leftarrow> wr t (off div 4) (set_byte w (off mod 4) b);
     Some (st\<lparr>frames := (frames st)(p \<mapsto> t)\<rparr>)
   }"

primrec store_bytes :: "mmu \<Rightarrow> u32 \<Rightarrow> bytes \<Rightarrow> mmu option" where
  "store_bytes st la [] = Some st"
| "store_bytes st la (b # bs) = do { st \<leftarrow> vstore_byte st la b; store_bytes st (la + 1) bs }"

primrec clear_entries :: "nat \<Rightarrow> u32 \<Rightarrow> mmu \<Rightarrow> mmu option" where
  "clear_entries 0 la st = Some st"
| "clear_entries (Suc n) la st = do { st \<leftarrow> vstore st la 0; clear_entries n (la + 4) st }"

section \<open>Mapping an address of the process\<close>

record k_proc_process_mem_init_t =
  page_dir :: u32
  page_table :: u32
  cur_page_table_entry :: nat
  init_page :: u32
  cur_page_entry :: nat

definition process_entry_flags :: u32 where
  "process_entry_flags = 0x2 OR 0x4 OR 0x1 OR 0x200"

text \<open>A window is moved: unmapped when it is in use, and mapped to the page.\<close>

definition move_window :: "u32 \<Rightarrow> nat \<Rightarrow> nat \<Rightarrow> u32 \<Rightarrow> mmu \<Rightarrow> mmu option" where
  "move_window w cur target flags st = do {
     st \<leftarrow> (if cur \<noteq> 0 then map_option snd (k_mem_UnmapLinearAddress st w) else Some st);
     (_, st) \<leftarrow> k_mem_MapLinearAddress st w (word_of_nat target) flags;
     Some st
   }"

definition select_table ::
    "k_proc_process_mem_init_t \<Rightarrow> nat \<Rightarrow> mmu \<Rightarrow> (k_proc_process_mem_init_t \<times> mmu) option" where
  "select_table mem_init pdir_index st = do {
     e \<leftarrow> vload st (page_dir mem_init + 4 * word_of_nat pdir_index);
     (mem_init, st) \<leftarrow> (if e = 0 then do {
         (p, ranges) \<leftarrow> k_mem_AllocPhysicalPage 0 (phys st);
         st \<leftarrow> vstore (st\<lparr>phys := ranges\<rparr>) (page_dir mem_init + 4 * word_of_nat pdir_index)
           (word_of_nat p OR process_entry_flags);
         e \<leftarrow> vload st (page_dir mem_init + 4 * word_of_nat pdir_index);
         let page_table_entry = entry_addr e;
         st \<leftarrow> move_window (page_table mem_init) (cur_page_table_entry mem_init) page_table_entry process_entry_flags st;
         st \<leftarrow> clear_entries 1024 (page_table mem_init) st;
         Some (mem_init\<lparr>cur_page_table_entry := page_table_entry\<rparr>, st)
       }
       else Some (mem_init, st));
     e \<leftarrow> vload st (page_dir mem_init + 4 * word_of_nat pdir_index);
     let page_table_entry = entry_addr e;
     if page_table_entry \<noteq> cur_page_table_entry mem_init then do {
       st \<leftarrow> move_window (page_table mem_init) (cur_page_table_entry mem_init) page_table_entry process_entry_flags st;
       Some (mem_init\<lparr>cur_page_table_entry := page_table_entry\<rparr>, st)
     }
     else Some (mem_init, st)
   }"

definition enter_page :: "k_proc_process_mem_init_t \<Rightarrow> nat \<Rightarrow> nat \<Rightarrow> mmu \<Rightarrow> mmu option" where
  "enter_page mem_init ptable_index physical_address st = do {
     e \<leftarrow> vload st (page_table mem_init + 4 * word_of_nat ptable_index);
     if e = 0 then do {
       (p, ranges) \<leftarrow> (if physical_address \<noteq> 0 then Some (physical_address, phys st)
         else k_mem_AllocPhysicalPage 0 (phys st));
       vstore (st\<lparr>phys := ranges\<rparr>) (page_table mem_init + 4 * word_of_nat ptable_index)
         (word_of_nat p OR process_entry_flags)
     }
     else Some st
   }"

definition select_page ::
    "k_proc_process_mem_init_t \<Rightarrow> nat \<Rightarrow> nat \<Rightarrow> mmu \<Rightarrow> (k_proc_process_mem_init_t \<times> mmu) option" where
  "select_page mem_init ptable_index physical_address st = do {
     st \<leftarrow> enter_page mem_init ptable_index physical_address st;
     e \<leftarrow> vload st (page_table mem_init + 4 * word_of_nat ptable_index);
     let page_entry = entry_addr e;
     if page_entry \<noteq> cur_page_entry mem_init then do {
       st \<leftarrow> move_window (init_page mem_init) (cur_page_entry mem_init) page_entry 0x2 st;
       Some (mem_init\<lparr>cur_page_entry := page_entry\<rparr>, st)
     }
     else Some (mem_init, st)
   }"

definition k_proc_MapProcessAddress ::
    "k_proc_process_mem_init_t \<Rightarrow> u32 \<Rightarrow> nat \<Rightarrow> mmu \<Rightarrow> (k_proc_process_mem_init_t \<times> mmu) option" where
  "k_proc_MapProcessAddress mem_init linear_address physical_address st = do {
     (mem_init, st) \<leftarrow> select_table mem_init (K_MEM_PDIR_INDEX linear_address) st;
     select_page mem_init (K_MEM_PTABLE_INDEX linear_address) physical_address st
   }"

text \<open>The loops that map pages of the kernel at their own addresses.\<close>

partial_function (option) map_identity ::
    "(nat \<Rightarrow> bool) \<Rightarrow> nat \<Rightarrow> k_proc_process_mem_init_t \<Rightarrow> mmu \<Rightarrow> (k_proc_process_mem_init_t \<times> mmu) option" where
  "map_identity go_on address mem_init st =
     (if go_on address then do {
        (mem_init, st) \<leftarrow> k_proc_MapProcessAddress mem_init (word_of_nat address) address st;
        map_identity go_on ((address + 0x1000) mod 2 ^ 32) mem_init st
      }
      else Some (mem_init, st))"

section \<open>Images\<close>

definition le16 :: "bytes \<Rightarrow> nat \<Rightarrow> nat option" where
  "le16 img i = do { a \<leftarrow> rd img i; b \<leftarrow> rd img (i + 1); Some (unat a + 256 * unat b) }"

definition le32 :: "bytes \<Rightarrow> nat \<Rightarrow> nat option" where
  "le32 img i = do { a \<leftarrow> le16 img i; b \<leftarrow> le16 img (i + 2); Some (a + 65536 * b) }"

record k_proc_elfh_t =
  elf_type :: nat
  elf_entry :: nat
  pheader_offset :: nat
  pheader_esize :: nat
  pheader_ecount :: nat

definition read_elfh :: "bytes \<Rightarrow> k_proc_elfh_t option" where
  "read_elfh img = do {
     ty \<leftarrow> le16 img 16;
     ent \<leftarrow> le32 img 24;
     off \<leftarrow> le32 img 28;
     es \<leftarrow> le16 img 42;
     ec \<leftarrow> le16 img 44;
     Some \<lparr>elf_type = ty, elf_entry = ent, pheader_offset = off, pheader_esize = es, pheader_ecount = ec\<rparr>
   }"

record k_proc_pheader_t =
  ph_type :: nat
  ph_offset :: nat
  vaddr :: nat
  file_size :: nat
  mem_size :: nat

definition read_pheader :: "bytes \<Rightarrow> nat \<Rightarrow> k_proc_pheader_t option" where
  "read_pheader img i = do {
     ty \<leftarrow> le32 img i;
     off \<leftarrow> le32 img (i + 4);
     va \<leftarrow> le32 img (i + 8);
     fs \<leftarrow> le32 img (i + 16);
     ms \<leftarrow> le32 img (i + 20);
     Some \<lparr>ph_type = ty, ph_offset = off, vaddr = va, file_size = fs, mem_size = ms\<rparr>
   }"

definition K_PROC_SEGMENT_TYPE_LOAD :: nat where "K_PROC_SEGMENT_TYPE_LOAD = 1"
definition K_PROC_ELF_TYPE_EXEC :: nat where "K_PROC_ELF_TYPE_EXEC = 2"

text \<open>The page that has just been mapped is filled: zeros before the segment, then bytes of it, then zeros.\<close>

definition fill_page ::
    "bytes \<Rightarrow> k_proc_pheader_t \<Rightarrow> nat \<Rightarrow> nat \<Rightarrow> u32 \<Rightarrow> mmu \<Rightarrow> (nat \<times> nat \<times> mmu) option" where
  "fill_page img ph linear_address copied page st = do {
     let pad_size = (if linear_address < vaddr ph then vaddr ph - linear_address else 0);
     st \<leftarrow> store_bytes st page (replicate pad_size 0);
     let copy_size = sub32 0x1000 pad_size;
     let linear_address = (linear_address + pad_size) mod 2 ^ 32;
     (copy_size, copied, st) \<leftarrow> (if copied < file_size ph then do {
         let copy_size = min copy_size (file_size ph - copied);
         st \<leftarrow> (if ph_offset ph + copied + copy_size \<le> length img
           then store_bytes st (page + word_of_nat pad_size) (take copy_size (drop (ph_offset ph + copied) img))
           else None);
         Some (copy_size, copied + copy_size, st)
       }
       else Some (copy_size, copied, st));
     let linear_address = (linear_address + copy_size) mod 2 ^ 32;
     if linear_address mod 0x1000 \<noteq> 0 then do {
       let pad_size = sub32 0x1000 copy_size;
       st \<leftarrow> store_bytes st (page + word_of_nat copy_size) (replicate pad_size 0);
       Some ((linear_address + pad_size) mod 2 ^ 32, copied, st)
     }
     else Some (linear_address, copied, st)
   }"

partial_function (option) segment_loop ::
    "bytes \<Rightarrow> k_proc_pheader_t \<Rightarrow> nat \<Rightarrow> nat \<Rightarrow> nat \<Rightarrow> k_proc_process_mem_init_t \<Rightarrow> mmu \<Rightarrow>
     (k_proc_process_mem_init_t \<times> mmu) option" where
  "segment_loop img ph end_linear_address linear_address copied mem_init st =
     (if linear_address < end_linear_address then do {
        (mem_init, st) \<leftarrow> k_proc_MapProcessAddress mem_init (word_of_nat linear_address) 0 st;
        (linear_address, copied, st) \<leftarrow> fill_page img ph linear_address copied (init_page mem_init) st;
        segment_loop img ph end_linear_address linear_address copied mem_init st
      }
      else Some (mem_init, st))"

definition load_segment ::
    "bytes \<Rightarrow> k_proc_pheader_t \<Rightarrow> k_proc_process_mem_init_t \<Rightarrow> mmu \<Rightarrow> (k_proc_process_mem_init_t \<times> mmu) option" where
  "load_segment img ph mem_init st =
     (if ph_type ph = K_PROC_SEGMENT_TYPE_LOAD then
        (let linear_address = vaddr ph div 4096 * 4096
         in segment_loop img ph ((linear_address + mem_size ph) mod 2 ^ 32) linear_address 0 mem_init st)
      else Some (mem_init, st))"

fun load_segments ::
    "bytes \<Rightarrow> k_proc_elfh_t \<Rightarrow> nat \<Rightarrow> nat \<Rightarrow> k_proc_process_mem_init_t \<Rightarrow> mmu \<Rightarrow>
     (k_proc_process_mem_init_t \<times> mmu) option" where
  "load_segments img h 0 header_index mem_init st = Some (mem_init, st)"
| "load_segments img h (Suc n) header_index mem_init st = do {
     ph \<leftarrow> read_pheader img (pheader_offset h + header_index * pheader_esize h);
     (mem_init, st) \<leftarrow> load_segment img ph mem_init st;
     load_segments img h n (header_index + 1) mem_init st
   }"

section \<open>Processes\<close>

text \<open>
  The list of processes and the process in focus. The fields of a process that the scheduler uses
  are in \<open>k_proc_core\<close>; a new process object has the fields that its memory happens to hold.
\<close>

record k_proc_processes =
  processes :: "nat option"
  last_process :: "nat option"
  active_process :: nat
  proc_next :: "nat \<Rightarrow> nat option"
  proc_prev :: "nat \<Rightarrow> nat option"
  terminal_stream :: "nat \<Rightarrow> k_io_stream_t option"

definition link_process :: "nat \<Rightarrow> k_proc_processes \<Rightarrow> k_proc_processes option" where
  "link_process pr ps = do {
     ps \<leftarrow> (if processes ps = None then Some (ps\<lparr>processes := Some pr\<rparr>)
       else do {
         l \<leftarrow> last_process ps;
         Some (ps\<lparr>proc_next := (proc_next ps)(l := Some pr), proc_prev := (proc_prev ps)(pr := Some pr)\<rparr>)
       });
     Some (ps\<lparr>last_process := Some pr\<rparr>)
   }"

definition unlink_process :: "nat \<Rightarrow> k_proc_processes \<Rightarrow> k_proc_processes" where
  "unlink_process pr ps =
     (let ps = (case proc_prev ps pr of
            None \<Rightarrow> ps\<lparr>processes := proc_next ps pr\<rparr>
          | Some p \<Rightarrow> ps\<lparr>proc_next := (proc_next ps)(p := proc_next ps pr)\<rparr>)
      in case proc_next ps pr of
           None \<Rightarrow> ps\<lparr>last_process := proc_prev ps pr\<rparr>
         | Some n \<Rightarrow> ps\<lparr>proc_prev := (proc_prev ps)(n := proc_prev ps pr)\<rparr>)"

text \<open>What the linker and the assembler files place: entry point of new threads, interrupt table, shared code.\<close>

record kernel_layout =
  lay_start_eip :: u32
  lay_idt :: nat
  lay_idt_size :: nat
  lay_shared_start :: nat
  lay_shared_end :: nat

definition K_PROC_INIT_STACK_ADDRESS :: nat where "K_PROC_INIT_STACK_ADDRESS = 0x2000"
definition K_PROC_SHARED_DATA_ADDRESS :: nat where "K_PROC_SHARED_DATA_ADDRESS = 0x4000"

text \<open>The address space of an executable: its directory, the windows, the segments and the kernel's shared pages.\<close>

definition open_space :: "kmem \<Rightarrow> (nat \<times> k_proc_process_mem_init_t \<times> kmem) option" where
  "open_space k = do {
     (page_map_page, ranges) \<leftarrow> k_mem_AllocPhysicalPage 0 (phys (kmmu k));
     (d, vl) \<leftarrow> k_mem_AllocVirtualRange 4096 (kvirt k);
     (t, vl) \<leftarrow> k_mem_AllocVirtualRange 4096 vl;
     (p, vl) \<leftarrow> k_mem_AllocVirtualRange 4096 vl;
     (_, st) \<leftarrow> k_mem_MapLinearAddress ((kmmu k)\<lparr>phys := ranges\<rparr>) (word_of_nat d) (word_of_nat page_map_page) 0x2;
     st \<leftarrow> clear_entries 1024 (word_of_nat d) st;
     Some (page_map_page, \<lparr>page_dir = word_of_nat d, page_table = word_of_nat t, cur_page_table_entry = 0,
       init_page = word_of_nat p, cur_page_entry = 0\<rparr>, k\<lparr>kvirt := vl, kmmu := st\<rparr>)
   }"

definition map_shared ::
    "kernel_layout \<Rightarrow> k_proc_process_mem_init_t \<Rightarrow> mmu \<Rightarrow> (k_proc_process_mem_init_t \<times> mmu) option" where
  "map_shared lay mem_init st = do {
     (mem_init, st) \<leftarrow> k_proc_MapProcessAddress mem_init (word_of_nat K_PROC_SHARED_DATA_ADDRESS) K_PROC_SHARED_DATA_ADDRESS st;
     (mem_init, st) \<leftarrow> map_identity (\<lambda>a. a \<le> lay_idt lay + lay_idt_size lay) (lay_idt lay) mem_init st;
     map_identity (\<lambda>a. a < lay_shared_end lay) (lay_shared_start lay) mem_init st
   }"

definition close_space :: "k_proc_process_mem_init_t \<Rightarrow> kmem \<Rightarrow> kmem option" where
  "close_space mem_init k = do {
     (_, st) \<leftarrow> k_mem_UnmapLinearAddress (kmmu k) (page_dir mem_init);
     (_, st) \<leftarrow> k_mem_UnmapLinearAddress st (page_table mem_init);
     (_, st) \<leftarrow> k_mem_UnmapLinearAddress st (init_page mem_init);
     vl \<leftarrow> k_mem_FreeVirtualRange (unat (page_dir mem_init)) (kvirt k);
     vl \<leftarrow> k_mem_FreeVirtualRange (unat (page_table mem_init)) vl;
     vl \<leftarrow> k_mem_FreeVirtualRange (unat (init_page mem_init)) vl;
     Some (k\<lparr>kvirt := vl, kmmu := st\<rparr>)
   }"

definition upd_kmem :: "kmem \<Rightarrow> k_proc_core \<Rightarrow> k_proc_core" where
  "upd_kmem k c = c\<lparr>core_mem := (core_mem c)\<lparr>hk := k\<rparr>\<rparr>"

text \<open>The stack of the first thread, mapped in the kernel and in the process, and the thread.\<close>

definition start_process ::
    "kernel_layout \<Rightarrow> nat \<Rightarrow> nat \<Rightarrow> k_proc_process_mem_init_t \<Rightarrow> k_proc_core \<Rightarrow>
     (k_proc_process_mem_init_t \<times> k_proc_core) option" where
  "start_process lay entry pr mem_init c = do {
     let k = hk (core_mem c);
     (stack, ranges) \<leftarrow> k_mem_AllocPhysicalPage 0 (phys (kmmu k));
     (_, st) \<leftarrow> k_mem_MapLinearAddress ((kmmu k)\<lparr>phys := ranges\<rparr>) (word_of_nat K_PROC_INIT_STACK_ADDRESS) (word_of_nat stack) 0x2;
     (mem_init, st) \<leftarrow> k_proc_MapProcessAddress mem_init (word_of_nat K_PROC_INIT_STACK_ADDRESS) stack st;
     (_, c) \<leftarrow> k_proc_CreateThread (lay_start_eip lay)
       \<lparr>init_entry_point = entry, init_process = pr, ring0_stack_page = stack,
        ring0_stack_base = K_PROC_INIT_STACK_ADDRESS, user_stack_base = K_PROC_INIT_STACK_ADDRESS, user_data = 0\<rparr>
       (upd_kmem (k\<lparr>kmmu := st\<rparr>) c);
     Some (mem_init, c)
   }"

definition elf_magic :: "bytes \<Rightarrow> bool option" where
  "elf_magic img = do {
     a \<leftarrow> rd img 0; b \<leftarrow> rd img 1; c \<leftarrow> rd img 2; d \<leftarrow> rd img 3;
     Some ([a, b, c, d] = [0x7f, 69, 76, 70])
   }"

text \<open>
  \<open>new_stream\<close> is what \<open>k_io_AllocStream\<close> returns for the terminal, which is called without its argument.
\<close>

definition k_proc_CreateProcess ::
    "kernel_layout \<Rightarrow> k_io_stream_t option \<Rightarrow> bytes option \<Rightarrow> k_proc_processes \<Rightarrow> k_proc_core \<Rightarrow>
     (nat option \<times> k_proc_processes \<times> k_proc_core) option" where
  "k_proc_CreateProcess lay new_stream img ps c = (case img of
      None \<Rightarrow> Some (None, ps, c)
    | Some img \<Rightarrow> do {
        magic \<leftarrow> elf_magic img;
        if \<not> magic then Some (None, ps, c)
        else do {
          h \<leftarrow> read_elfh img;
          if elf_type h \<noteq> K_PROC_ELF_TYPE_EXEC then Some (None, ps, c)
          else do {
            (page_map_page, mem_init, k) \<leftarrow> open_space (hk (core_mem c));
            (mem_init, st) \<leftarrow> load_segments img h (pheader_ecount h) 0 mem_init (kmmu k);
            (mem_init, st) \<leftarrow> map_shared lay mem_init st;
            (pr, heap) \<leftarrow> k_rt_Malloc 52 ((core_mem c)\<lparr>hk := k\<lparr>kmmu := st\<rparr>\<rparr>);
            if pr = 0 then None
            else do {
              let c = c\<lparr>core_mem := heap, page_map := (page_map c)(pr := word_of_nat page_map_page)\<rparr>;
              ps \<leftarrow> link_process pr (ps\<lparr>terminal_stream := (terminal_stream ps)(pr := None)\<rparr>);
              (mem_init, c) \<leftarrow> start_process lay (elf_entry h) pr mem_init c;
              let ps = ps\<lparr>terminal_stream := (terminal_stream ps)(pr := k_io_UnblockStream new_stream)\<rparr>;
              k \<leftarrow> close_space mem_init (hk (core_mem c));
              Some (Some pr, ps, upd_kmem k c)
            }
          }
        }
      })"

section \<open>Ending a process\<close>

fun free_table_pages :: "nat \<Rightarrow> u32 \<Rightarrow> mmu \<Rightarrow> mmu option" where
  "free_table_pages 0 la st = Some st"
| "free_table_pages (Suc n) la st = do {
     e \<leftarrow> vload st la;
     st \<leftarrow> (if entry_addr e \<noteq> 0 then do {
         ranges \<leftarrow> k_mem_FreePhysicalPages (entry_addr e) (phys st);
         Some (st\<lparr>phys := ranges\<rparr>)
       }
       else Some st);
     free_table_pages n (la + 4) st
   }"

fun free_tables :: "u32 \<Rightarrow> nat \<Rightarrow> u32 \<Rightarrow> mmu \<Rightarrow> mmu option" where
  "free_tables table 0 la st = Some st"
| "free_tables table (Suc n) la st = do {
     e \<leftarrow> vload st la;
     st \<leftarrow> (if entry_addr e \<noteq> 0 then do {
         (_, st) \<leftarrow> k_mem_MapLinearAddress st table (word_of_nat (entry_addr e)) 0x2;
         st \<leftarrow> free_table_pages 1024 table st;
         (_, st) \<leftarrow> k_mem_UnmapLinearAddress st table;
         ranges \<leftarrow> k_mem_FreePhysicalPages (entry_addr e) (phys st);
         Some (st\<lparr>phys := ranges\<rparr>)
       }
       else Some st);
     free_tables table n (la + 4) st
   }"

definition free_space :: "nat \<Rightarrow> kmem \<Rightarrow> kmem option" where
  "free_space map_page k = do {
     (d, vl) \<leftarrow> k_mem_AllocVirtualRange 4096 (kvirt k);
     (t, vl) \<leftarrow> k_mem_AllocVirtualRange 4096 vl;
     (_, st) \<leftarrow> k_mem_MapLinearAddress (kmmu k) (word_of_nat d) (word_of_nat map_page) 0x2;
     st \<leftarrow> free_tables (word_of_nat t) 1024 (word_of_nat d) st;
     (_, st) \<leftarrow> k_mem_UnmapLinearAddress st (word_of_nat d);
     ranges \<leftarrow> k_mem_FreePhysicalPages map_page (phys st);
     Some (k\<lparr>kvirt := vl, kmmu := st\<lparr>phys := ranges\<rparr>\<rparr>)
   }"

text \<open>
  \<open>k_proc_TerminateProcess\<close> up to the two effects of \<open>k_proc_TerminateThread\<close>, with which it ends.
\<close>

definition k_proc_TerminateProcess :: "nat \<Rightarrow> k_proc_processes \<Rightarrow> k_proc_core \<Rightarrow> (k_proc_processes \<times> k_proc_core) option" where
  "k_proc_TerminateProcess return_value ps c = do {
     let p = process c (current_thread c);
     k \<leftarrow> free_space (unat (page_map c p)) (hk (core_mem c));
     let ps = unlink_process p ps;
     heap \<leftarrow> k_rt_Free p ((core_mem c)\<lparr>hk := k\<rparr>);
     Some (ps, terminate_signal (terminate_state return_value (c\<lparr>core_mem := heap\<rparr>)))
   }"

definition k_proc_GetCurrentProcess :: "k_proc_core \<Rightarrow> nat" where
  "k_proc_GetCurrentProcess c = process c (current_thread c)"

definition k_proc_GetFocusedProcess :: "k_proc_processes \<Rightarrow> nat" where
  "k_proc_GetFocusedProcess ps = active_process ps"

definition k_proc_FocusProcess :: "nat \<Rightarrow> k_proc_processes \<Rightarrow> k_proc_processes" where
  "k_proc_FocusProcess pr ps = ps\<lparr>active_process := pr\<rparr>"

text \<open>
  A process that is not the first one is entered with itself as its predecessor, so that ending it
  takes it off nowhere: the process before it and the end of the list still name the freed object.
\<close>

lemma ended_process_stays:
  assumes "processes ps = Some a" "last_process ps = Some l" "proc_next ps b = None" "l \<noteq> b"
  shows "\<exists>ps'. link_process b ps = Some ps' \<and>
    proc_next (unlink_process b ps') l = Some b \<and> last_process (unlink_process b ps') = Some b"
  using assms by (simp add: link_process_def unlink_process_def)

end
