(* ===== verification/Proc_Space.thy ===== *)
theory Proc_Space
  imports Proc_Load
begin

text \<open>
  What the loader of \<open>Proc_Load\<close> does to memory. The first part is about the windows of the kernel:
  an access through a window reads or writes the page behind it and nothing else. The second part
  is about the address space under construction, whose own translation is \<open>translate\<close> with the
  process's directory in place of the kernel's. The third part is about segments.
\<close>

section \<open>Windows\<close>

definition paging :: "mmu \<Rightarrow> u32 list \<Rightarrow> nat set" where
  "paging st pd = {cr3 st, entry_addr (pd ! 1023)} \<union> (\<lambda>i. entry_addr (pd ! i)) ` tables pd"

lemma frame_upd:
  assumes ok: "pmap_ok st pd pt" and p: "p \<notin> paging st pd" "length t = 1024"
  shows "pmap_ok (st\<lparr>frames := (frames st)(p \<mapsto> t)\<rparr>) pd pt"
proof -
  have "table_ok (st\<lparr>frames := (frames st)(p \<mapsto> t)\<rparr>) pd pt i" if "i \<in> tables pd" for i
  proof -
    have "table_ok st pd pt i" "entry_addr (pd ! i) \<noteq> p" using ok p that by (auto simp: pmap_ok_def paging_def)
    then show ?thesis by (auto simp: table_ok_def)
  qed
  moreover have "fresh_page (st\<lparr>frames := (frames st)(p \<mapsto> t)\<rparr>) pd q" if "q \<in> free_set (phys st)" for q
  proof -
    have "fresh_page st pd q" using ok that by (simp add: pmap_ok_def)
    then show ?thesis using p(2) by (auto simp: fresh_page_def)
  qed
  ultimately show ?thesis using ok p by (auto simp: pmap_ok_def paging_def)
qed

lemma translate_same_tables:
  assumes "pmap_ok st pd pt" "pmap_ok st' pd pt" "K_MEM_PDIR_INDEX la < 1022"
    and "\<And>i. i \<in> tables pd \<Longrightarrow> frames st' (entry_addr (pd ! i)) = frames st (entry_addr (pd ! i))"
  shows "translate st' la = translate st la"
proof (cases "entry_used (pd ! K_MEM_PDIR_INDEX la) \<and> \<not> entry_big (pd ! K_MEM_PDIR_INDEX la)")
  case True
  then have "K_MEM_PDIR_INDEX la \<in> tables pd" using assms(3) by (simp add: tables_def)
  then show ?thesis
    unfolding translate_dir [OF assms(1)] translate_dir [OF assms(2)] using assms(4) by (simp add: Let_def)
next
  case False
  then show ?thesis unfolding translate_dir [OF assms(1)] translate_dir [OF assms(2)]
    using table_entry_present [OF assms(1,3)] by (auto simp: Let_def)
qed

lemma translate_frame_upd:
  assumes "pmap_ok st pd pt" "p \<notin> paging st pd" "length t = 1024" "K_MEM_PDIR_INDEX la < 1022"
  shows "translate (st\<lparr>frames := (frames st)(p \<mapsto> t)\<rparr>) la = translate st la"
  by (rule translate_same_tables [OF assms(1) frame_upd [OF assms(1-3)] assms(4)])
    (use assms(2) in \<open>auto simp: paging_def\<close>)

lemma phys_upd:
  "pmap_ok st pd pt \<Longrightarrow> prlist_ok r \<Longrightarrow> free_set r \<subseteq> free_set (phys st) \<Longrightarrow> pmap_ok (st\<lparr>phys := r\<rparr>) pd pt"
  by (auto simp: pmap_ok_def table_ok_def fresh_page_def subset_iff)

lemma translate_phys [simp]: "translate (st\<lparr>phys := r\<rparr>) la = translate st la"
  by (simp add: translate_def cong: if_cong)

lemma aligned_or: "(a :: u32) AND 0xfff = 0 \<Longrightarrow> k < 4096 \<Longrightarrow> a + word_of_nat k = a OR word_of_nat k \<and>
   (a OR word_of_nat k) AND 0xfff = word_of_nat k \<and> (a OR word_of_nat k) AND 0xfffff000 = a \<and> unat (word_of_nat k :: u32) = k"
proof -
  assume a: "a AND 0xfff = 0" and k: "k < 4096"
  have u: "unat (word_of_nat k :: u32) = k" using k by (simp add: unat_of_nat)
  have m: "(0xfff :: u32) = mask 12" "(0xfffff000 :: u32) = NOT (mask 12)" by (simp_all add: mask_eq_exp_minus_1)
  have "take_bit 12 (word_of_nat k :: u32) = word_of_nat k"
    using k take_bit_of_nat [of 12 k, where ?'a = u32] by (simp add: take_bit_nat_eq_self)
  then have t: "(word_of_nat k :: u32) AND mask 12 = word_of_nat k" by (simp add: take_bit_eq_mask)
  have kb: "bit (word_of_nat k :: u32) n \<Longrightarrow> n < 12" for n
    by (subst (asm) t [symmetric]) (simp add: bit_and_iff bit_mask_iff)
  have ab: "bit a n \<Longrightarrow> \<not> n < 12" for n using low_bits [OF a] by blast
  have "a + word_of_nat k = a OR word_of_nat k" by (rule disjunctive_add) (metis ab kb)
  moreover have "(a OR word_of_nat k) AND 0xfff = word_of_nat k"
    unfolding m using a t unfolding m by (simp add: bit.conj_disj_distrib2)
  moreover have "(a OR word_of_nat k) AND 0xfffff000 = a"
    unfolding m by (rule bit_word_eqI) (use ab kb in \<open>auto simp: bit_simps\<close>)
  ultimately show ?thesis using u by blast
qed

lemma index_offset:
  assumes "(w :: u32) AND 0xfff = 0" "k < 4096"
  shows "K_MEM_PDIR_INDEX (w + word_of_nat k) = K_MEM_PDIR_INDEX w" "K_MEM_PTABLE_INDEX (w + word_of_nat k) = K_MEM_PTABLE_INDEX w"
proof -
  note o = aligned_or [OF assms]
  have "drop_bit 12 (w + word_of_nat k) = drop_bit 12 w"
  proof -
    have d: "drop_bit 12 x = drop_bit 12 (x AND 0xfffff000)" for x :: u32
      unfolding page_mask by (rule bit_word_eqI) (auto simp: bit_simps dest: bit_imp_le_length)
    have "(w + word_of_nat k) AND 0xfffff000 = w AND 0xfffff000"
      using o and_or_page [OF assms(1), of 0] by simp
    then show ?thesis using d [of "w + word_of_nat k"] d [of w] by metis
  qed
  moreover from arg_cong [OF this, of "drop_bit 10"] have "drop_bit 22 (w + word_of_nat k) = drop_bit 22 w" by simp
  ultimately show "K_MEM_PDIR_INDEX (w + word_of_nat k) = K_MEM_PDIR_INDEX w" "K_MEM_PTABLE_INDEX (w + word_of_nat k) = K_MEM_PTABLE_INDEX w"
    by (simp_all add: K_MEM_PDIR_INDEX_def K_MEM_PTABLE_INDEX_def)
qed

definition page_aligned :: "nat \<Rightarrow> bool" where
  "page_aligned p \<longleftrightarrow> p mod 4096 = 0 \<and> p < 2 ^ 32"

text \<open>The kernel has a page table for the window \<open>w\<close>.\<close>

definition window_addr :: "u32 list \<Rightarrow> u32 \<Rightarrow> bool" where
  "window_addr pd w \<longleftrightarrow> K_MEM_PDIR_INDEX w \<in> tables pd \<and> w AND 0xfff = 0 \<and> \<not> forbidden w"

lemma window_addr_index: "window_addr pd w \<Longrightarrow> K_MEM_PDIR_INDEX w < 1022"
  by (simp add: window_addr_def tables_def)

lemma translate_offset:
  assumes ok: "pmap_ok st pd pt" and w: "window_addr pd w" and k: "k < 4096" and p: "translate st w = Some (word_of_nat p)" "page_aligned p"
  shows "translate st (w + word_of_nat k) = Some (word_of_nat p OR word_of_nat k)"
proof -
  have w0: "w AND 0xfff = 0" using w by (simp add: window_addr_def)
  note o = aligned_or [OF w0 k] index_offset [OF w0 k]
  have pr: "entry_present (pd ! K_MEM_PDIR_INDEX w)" "\<not> entry_big (pd ! K_MEM_PDIR_INDEX w)"
    using w table_entry_present [OF ok window_addr_index [OF w]] by (auto simp: window_addr_def tables_def)
  obtain t pte where t: "frames st (entry_addr (pd ! K_MEM_PDIR_INDEX w)) = Some t" "rd t (K_MEM_PTABLE_INDEX w) = Some pte"
      "entry_present pte" "pte AND 0xfffff000 = word_of_nat p"
    using p pr w0 unfolding translate_dir [OF ok]
    by (auto simp: Let_def bind_eq_Some_conv split: if_splits)
  show ?thesis unfolding translate_dir [OF ok] o(2,3) using pr t o(1) by (simp add: Let_def)
qed

lemma vframe_window:
  assumes "pmap_ok st pd pt" "window_addr pd w" "k < 4096" "translate st w = Some (word_of_nat p)" "page_aligned p"
    and "frames st p = Some t"
  shows "vframe st (w + word_of_nat k) = Some (p, k, t)"
proof -
  have pw: "(word_of_nat p :: u32) AND 0xfff = 0" "unat (word_of_nat p :: u32) = p"
    using assms(5) page_word by (auto simp: page_aligned_def)
  note o = aligned_or [OF pw(1) assms(3)]
  have "entry_addr (word_of_nat p OR word_of_nat k) = p" using o pw(2) by (simp add: entry_addr_def)
  then show ?thesis using translate_offset [OF assms(1-5)] o assms(6) by (simp add: vframe_def)
qed

text \<open>A window on the page \<open>p\<close>, which holds \<open>t\<close> and is not one of the kernel's paging structures.\<close>

definition window_on :: "mmu \<Rightarrow> u32 list \<Rightarrow> u32 list \<Rightarrow> u32 \<Rightarrow> nat \<Rightarrow> u32 list \<Rightarrow> bool" where
  "window_on st pd pt w p t \<longleftrightarrow> pmap_ok st pd pt \<and> window_addr pd w \<and> translate st w = Some (word_of_nat p) \<and>
     page_aligned p \<and> p \<notin> paging st pd \<and> frames st p = Some t \<and> length t = 1024"

lemma window_on_upd:
  assumes "window_on st pd pt w p t" "length t' = 1024"
  shows "window_on (st\<lparr>frames := (frames st)(p \<mapsto> t')\<rparr>) pd pt w p t'"
  using assms frame_upd [of st pd pt p t'] translate_frame_upd [of st pd pt p t' w] window_addr_index [of pd w]
  by (simp add: window_on_def paging_def)

lemma window_vframe:
  "window_on st pd pt w p t \<Longrightarrow> k < 4096 \<Longrightarrow> vframe st (w + word_of_nat k) = Some (p, k, t)"
  unfolding window_on_def by (intro vframe_window) auto

lemma entry_offset: "4 * word_of_nat i = (word_of_nat (4 * i) :: u32)"
  by simp

lemma window_load:
  "window_on st pd pt w p t \<Longrightarrow> i < 1024 \<Longrightarrow> vload st (w + 4 * word_of_nat i) = Some (t ! i)"
  using window_vframe [of st pd pt w p t "4 * i"] by (simp add: vload_def window_on_def rd_def)

lemma window_store:
  "window_on st pd pt w p t \<Longrightarrow> i < 1024 \<Longrightarrow>
   vstore st (w + 4 * word_of_nat i) v = Some (st\<lparr>frames := (frames st)(p \<mapsto> t[i := v])\<rparr>)"
  using window_vframe [of st pd pt w p t "4 * i"] by (simp add: vstore_def window_on_def wr_def)

lemma clear_entries_run:
  "window_on st pd pt w p t \<Longrightarrow> i + n \<le> 1024 \<Longrightarrow>
   clear_entries n (w + 4 * word_of_nat i) st =
     Some (st\<lparr>frames := (frames st)(p \<mapsto> take i t @ replicate n 0 @ drop (i + n) t)\<rparr>)"
proof (induction n arbitrary: i st t)
  case 0
  then have "frames st = (frames st)(p \<mapsto> t)" by (auto simp: window_on_def)
  then have "st\<lparr>frames := (frames st)(p \<mapsto> t)\<rparr> = st" by (cases st) auto
  then show ?case by (simp del: fun_upd_apply)
next
  case (Suc n)
  let ?st = "st\<lparr>frames := (frames st)(p \<mapsto> t[i := 0])\<rparr>"
  have l: "length t = 1024" using Suc.prems(1) by (simp add: window_on_def)
  have "w + 4 * word_of_nat i + 4 = w + 4 * word_of_nat (i + 1)" by (simp add: algebra_simps)
  moreover have "clear_entries n (w + 4 * word_of_nat (i + 1)) ?st = Some (?st\<lparr>frames := (frames ?st)(p \<mapsto>
      take (i + 1) (t[i := 0]) @ replicate n 0 @ drop (i + 1 + n) (t[i := 0]))\<rparr>)"
    by (rule Suc.IH) (use Suc.prems l window_on_upd [OF Suc.prems(1)] in auto)
  moreover have "take (i + 1) (t[i := 0]) @ replicate n 0 @ drop (i + 1 + n) (t[i := 0])
      = take i t @ replicate (Suc n) 0 @ drop (i + Suc n) t"
    using Suc.prems(2) l by (simp add: take_Suc_conv_app_nth)
  ultimately show ?case using window_store [OF Suc.prems(1), of i 0] Suc.prems(2) by (simp add: ac_simps del: fun_upd_apply)
qed

lemma clear_entries_page:
  "window_on st pd pt w p t \<Longrightarrow> clear_entries 1024 w st = Some (st\<lparr>frames := (frames st)(p \<mapsto> replicate 1024 0)\<rparr>)"
  using clear_entries_run [of st pd pt w p t 0 1024] by (simp add: window_on_def)

text \<open>The bytes of a page.\<close>

definition frame_bytes :: "u32 list \<Rightarrow> bytes" where
  "frame_bytes t = concat (map (\<lambda>w. map (get_byte w) [0..<4]) t)"

lemma length_frame_bytes: "length (frame_bytes t) = 4 * length t"
  by (induction t) (simp_all add: frame_bytes_def)

lemma nth_frame_bytes: "k < 4 * length t \<Longrightarrow> frame_bytes t ! k = get_byte (t ! (k div 4)) (k mod 4)"
proof (induction t arbitrary: k)
  case Nil
  then show ?case by simp
next
  case (Cons w t)
  have c: "frame_bytes (w # t) = map (get_byte w) [0..<4] @ frame_bytes t" by (simp add: frame_bytes_def)
  show ?case
  proof (cases "k < 4")
    case True
    then show ?thesis unfolding c by (simp add: nth_append)
  next
    case False
    then have "(k - 4) div 4 = k div 4 - 1" "(k - 4) mod 4 = k mod 4" "0 < k div 4" by (simp_all add: le_div_geq le_mod_geq)
    then show ?thesis using Cons.IH [of "k - 4"] Cons.prems False unfolding c by (simp add: nth_append nth_Cons')
  qed
qed

lemma get_set_byte:
  assumes "i < 4" "j < 4"
  shows "get_byte (set_byte w i b) j = (if i = j then b else get_byte w j)"
proof (rule bit_word_eqI)
  fix n assume n: "n < LENGTH(8)"
  have m: "bit (0xff :: int) k \<longleftrightarrow> k < 8" for k
  proof -
    have "(0xff :: int) = mask 8" by (simp add: mask_eq_exp_minus_1)
    then have "bit (0xff :: int) k = bit (mask 8 :: int) k" by (rule arg_cong [of _ _ "\<lambda>w. bit w k"])
    also have "\<dots> \<longleftrightarrow> k < 8" by (simp add: bit_mask_iff)
    finally show ?thesis .
  qed
  have "bit (set_byte w i b) (8 * j + n) \<longleftrightarrow> (if i = j then bit b n else bit w (8 * j + n))"
    using assms n bit_imp_le_length [of b "8 * j + n - 8 * i"]
    by (auto simp: set_byte_def bit_simps m)
  then show "bit (get_byte (set_byte w i b) j) n = bit (if i = j then b else get_byte w j) n"
    using n assms by (auto simp: get_byte_def bit_simps)
qed

lemma frame_bytes_set:
  assumes "k < 4 * length t"
  shows "frame_bytes (t[k div 4 := set_byte (t ! (k div 4)) (k mod 4) b]) = (frame_bytes t)[k := b]"
proof (rule nth_equalityI)
  show "length (frame_bytes (t[k div 4 := set_byte (t ! (k div 4)) (k mod 4) b])) = length ((frame_bytes t)[k := b])"
    by (simp add: length_frame_bytes)
  fix i assume "i < length (frame_bytes (t[k div 4 := set_byte (t ! (k div 4)) (k mod 4) b]))"
  then have i: "i < 4 * length t" by (simp add: length_frame_bytes)
  have kd: "k div 4 < length t" "i div 4 < length t" using assms i by (simp_all add: less_mult_imp_div_less mult.commute)
  have e: "i = k \<longleftrightarrow> i div 4 = k div 4 \<and> i mod 4 = k mod 4" by (metis div_mult_mod_eq)
  show "frame_bytes (t[k div 4 := set_byte (t ! (k div 4)) (k mod 4) b]) ! i = (frame_bytes t)[k := b] ! i"
    using i kd assms e get_set_byte [of "k mod 4" "i mod 4" "t ! (k div 4)" b]
    by (auto simp: nth_frame_bytes length_frame_bytes nth_list_update)
qed

lemma store_bytes_run:
  "window_on st pd pt w p t \<Longrightarrow> k + length bs \<le> 4096 \<Longrightarrow>
   \<exists>t'. store_bytes st (w + word_of_nat k) bs = Some (st\<lparr>frames := (frames st)(p \<mapsto> t')\<rparr>) \<and>
     length t' = 1024 \<and> frame_bytes t' = blit (frame_bytes t) k bs"
proof (induction bs arbitrary: k st t)
  case Nil
  then have "frames st = (frames st)(p \<mapsto> t)" by (auto simp: window_on_def)
  then have "st\<lparr>frames := (frames st)(p \<mapsto> t)\<rparr> = st" by (cases st) auto
  then show ?case using Nil by (intro exI [of _ t]) (simp add: blit_def window_on_def del: fun_upd_apply)
next
  case (Cons b bs)
  let ?t = "t[k div 4 := set_byte (t ! (k div 4)) (k mod 4) b]"
  let ?st = "st\<lparr>frames := (frames st)(p \<mapsto> ?t)\<rparr>"
  have l: "length t = 1024" using Cons.prems(1) by (simp add: window_on_def)
  have k: "k < 4096" "k div 4 < 1024" using Cons.prems(2) by auto
  have s: "vstore_byte st (w + word_of_nat k) b = Some ?st"
    using window_vframe [OF Cons.prems(1) k(1)] k l by (simp add: vstore_byte_def rd_def wr_def)
  have w: "window_on ?st pd pt w p ?t" using window_on_upd [OF Cons.prems(1)] l by simp
  obtain t' where t': "store_bytes ?st (w + word_of_nat (k + 1)) bs = Some (?st\<lparr>frames := (frames ?st)(p \<mapsto> t')\<rparr>)"
      "length t' = 1024" "frame_bytes t' = blit (frame_bytes ?t) (k + 1) bs"
    using Cons.IH [OF w, of "k + 1"] Cons.prems(2) by (auto simp del: fun_upd_apply)
  have f: "frame_bytes ?t = (frame_bytes t)[k := b]" using k l by (intro frame_bytes_set) simp
  have "blit ((frame_bytes t)[k := b]) (k + 1) bs = blit (frame_bytes t) k (b # bs)"
    using k l by (simp add: blit_def length_frame_bytes take_Suc_conv_app_nth)
  moreover have "store_bytes st (w + word_of_nat k) (b # bs) = store_bytes ?st (w + word_of_nat (k + 1)) bs"
    using s by (simp add: ac_simps del: fun_upd_apply)
  moreover have "?st\<lparr>frames := (frames ?st)(p \<mapsto> t')\<rparr> = st\<lparr>frames := (frames st)(p \<mapsto> t')\<rparr>" by simp
  ultimately show ?case using t' f by (intro exI [of _ t']) (simp only: simp_thms)
qed

text \<open>Moving a window.\<close>

lemma map_window:
  assumes ok: "pmap_ok st pd pt" and w: "window_addr pd w" and pa: "pa AND 0xfff = 0"
    and fl: "flags AND 0xfffff000 = 0" "\<not> entry_big flags" and n: "translate st w = None"
  shows "\<exists>st'. k_mem_MapLinearAddress st w pa flags = Some (K_STATUS_OK, st') \<and> pmap_ok st' pd pt \<and>
    (\<forall>lb. K_MEM_PDIR_INDEX lb < 1022 \<longrightarrow> translate st' lb =
      (if same_page w lb then Some (pa OR (lb AND 0xfff)) else translate st lb)) \<and> same_but_table st st' pd w"
proof -
  let ?i = "K_MEM_PDIR_INDEX w"
  have i: "?i \<in> tables pd" "\<not> forbidden w" using w by (auto simp: window_addr_def)
  have "read_entry st 0x3ff ?i = Some (pd ! ?i)" using read_dir [OF ok, of ?i] window_addr_index [OF w] by simp
  then have "k_mem_MapLinearAddress st w pa flags = set_mapping st w pa (flags OR 0x203)"
    using i flags_with [OF fl] by (simp add: k_mem_MapLinearAddress_def Let_def tables_def)
  then show ?thesis using set_mapping_table [OF ok i(1) _ _ _ _ pa, of "flags OR 0x203"] flags_with [OF fl] n by simp
qed

lemma same_page_refl: "same_page w w"
  by (simp add: same_page_def)

lemma move_window_ok:
  assumes ok: "pmap_ok st pd pt" and w: "window_addr pd w" and p: "page_aligned p"
    and fl: "flags AND 0xfffff000 = 0" "\<not> entry_big flags" and cur: "cur = 0 \<longleftrightarrow> translate st w = None"
  shows "\<exists>st'. move_window w cur p flags st = Some st' \<and> pmap_ok st' pd pt \<and> same_but_table st st' pd w \<and>
    translate st' w = Some (word_of_nat p) \<and>
    (\<forall>lb. K_MEM_PDIR_INDEX lb < 1022 \<longrightarrow> \<not> same_page w lb \<longrightarrow> translate st' lb = translate st lb)"
proof -
  have i: "K_MEM_PDIR_INDEX w \<in> tables pd" "\<not> forbidden w" "w AND 0xfff = 0" using w by (auto simp: window_addr_def)
  note lt = window_addr_index [OF w]
  have pw: "(word_of_nat p :: u32) AND 0xfff = 0" using p page_word by (auto simp: page_aligned_def)
  have se: "same_entry pd w lb = same_page w lb" for lb
    using i(1) by (auto simp: same_entry_def same_page_def tables_def)
  obtain st1 where st1: "(if cur \<noteq> 0 then map_option snd (k_mem_UnmapLinearAddress st w) else Some st) = Some st1"
      "pmap_ok st1 pd pt" "same_but_table st st1 pd w" "translate st1 w = None"
      "\<And>lb. K_MEM_PDIR_INDEX lb < 1022 \<Longrightarrow> \<not> same_page w lb \<Longrightarrow> translate st1 lb = translate st lb"
  proof (cases "cur = 0")
    case True
    then show thesis using that [of st] ok cur by (simp add: same_but_table_def)
  next
    case False
    then have nn: "(translate st w = None) = False" using cur by simp
    obtain st1 where "k_mem_UnmapLinearAddress st w = Some (K_STATUS_OK, st1)" "pmap_ok st1 pd pt"
        "\<forall>lb. K_MEM_PDIR_INDEX lb < 1022 \<longrightarrow> translate st1 lb = (if same_entry pd w lb then None else translate st lb)"
        "same_but_table st st1 pd w"
      using unmap_table [OF ok i(2) lt i(1)] unfolding nn if_False by blast
    then show thesis using that [of st1] False lt se by (simp add: same_page_refl)
  qed
  obtain st2 where st2: "k_mem_MapLinearAddress st1 w (word_of_nat p) flags = Some (K_STATUS_OK, st2)" "pmap_ok st2 pd pt"
      "\<forall>lb. K_MEM_PDIR_INDEX lb < 1022 \<longrightarrow> translate st2 lb =
        (if same_page w lb then Some (word_of_nat p OR (lb AND 0xfff)) else translate st1 lb)" "same_but_table st1 st2 pd w"
    using map_window [OF st1(2) w pw fl st1(4)] by blast
  have "translate st2 w = Some (word_of_nat p)" using st2(3) lt i(3) by (simp add: same_page_def)
  moreover have "same_but_table st st2 pd w" using st1(3) st2(4) by (simp add: same_but_table_def)
  ultimately show ?thesis using st1(1,5) st2 by (simp add: move_window_def)
qed

section \<open>Free pages\<close>

text \<open>An allocation takes the top page of every range, so what counts is the largest free stack.\<close>

definition avail :: "nat \<Rightarrow> prange list \<Rightarrow> bool" where
  "avail n rs \<longleftrightarrow> (\<exists>r \<in> set rs. n \<le> length (free_stack r))"

lemma alloc_avail:
  assumes ok: "prlist_ok rs" and a: "avail (Suc n) rs"
  shows "\<exists>p rs'. k_mem_AllocPhysicalPage flags rs = Some (p, rs') \<and> prlist_ok rs' \<and>
    p \<in> free_set rs \<and> free_set rs' \<subseteq> free_set rs - {p} \<and> avail n rs'"
proof -
  have ne: "free_set rs \<noteq> {}" using a by (fastforce simp: avail_def free_set_def)
  obtain p rs' where p: "k_mem_AllocPhysicalPage flags rs = Some (p, rs')" "prlist_ok rs'"
      "p \<in> free_set rs" "free_set rs' \<subseteq> free_set rs - {p}"
    using k_mem_AllocPhysicalPage_fresh [OF ok ne] by blast
  have m: "map free_stack rs' = map (butlast \<circ> free_stack) rs"
    using alloc_loop_ok [OF ok, of flags 0] p(1) by (auto simp: k_mem_AllocPhysicalPage_def)
  obtain k where k: "k < length rs" "Suc n \<le> length (free_stack (rs ! k))"
    using a by (auto simp: avail_def in_set_conv_nth)
  have "length rs' = length rs" using m by (metis length_map)
  moreover have "free_stack (rs' ! k) = butlast (free_stack (rs ! k))"
    using m k(1) \<open>length rs' = length rs\<close> by (metis comp_apply nth_map)
  ultimately have "avail n rs'" unfolding avail_def using k by (intro bexI [of _ "rs' ! k"]) simp_all
  then show ?thesis using p by blast
qed

lemma free_page_ok:
  assumes "pmap_ok st pd pt" "p \<in> free_set (phys st)"
  shows "page_aligned p \<and> 0 < p \<and> p \<notin> paging st pd \<and> (\<exists>t. frames st p = Some t \<and> length t = 1024)"
proof -
  have ok: "prlist_ok (phys st)" "fresh_page st pd p" using assms by (auto simp: pmap_ok_def)
  then show ?thesis using free_set_page [OF ok(1) assms(2)]
    by (auto simp: page_aligned_def fresh_page_def paging_def)
qed

section \<open>The address space under construction\<close>

definition proc_entry :: "nat option \<Rightarrow> u32" where
  "proc_entry p = (case p of None \<Rightarrow> 0 | Some p \<Rightarrow> word_of_nat p OR process_entry_flags)"

text \<open>
  The directory page \<open>M\<close>, the page tables \<open>tb\<close> by directory index and the pages \<open>pg\<close> by directory and
  table index: what the entries say, all of these pages being distinct, none of them free or one of
  the kernel's paging structures.
\<close>

definition owned :: "nat \<Rightarrow> (nat \<rightharpoonup> nat) \<Rightarrow> (nat \<times> nat \<rightharpoonup> nat) \<Rightarrow> nat set" where
  "owned M tb pg = {M} \<union> ran tb \<union> ran pg"

definition space_ok :: "mmu \<Rightarrow> u32 list \<Rightarrow> nat \<Rightarrow> (nat \<rightharpoonup> nat) \<Rightarrow> (nat \<times> nat \<rightharpoonup> nat) \<Rightarrow> bool" where
  "space_ok st pd M tb pg \<longleftrightarrow>
     (\<exists>ppd. frames st M = Some ppd \<and> length ppd = 1024 \<and> (\<forall>i < 1024. ppd ! i = proc_entry (tb i))) \<and>
     (\<forall>i p. tb i = Some p \<longrightarrow> i < 1024 \<and>
       (\<exists>t. frames st p = Some t \<and> length t = 1024 \<and> (\<forall>j < 1024. t ! j = proc_entry (pg (i, j))))) \<and>
     (\<forall>i j q. pg (i, j) = Some q \<longrightarrow> j < 1024 \<and> tb i \<noteq> None \<and> (\<exists>t. frames st q = Some t \<and> length t = 1024)) \<and>
     inj_on tb (dom tb) \<and> inj_on pg (dom pg) \<and> M \<notin> ran tb \<union> ran pg \<and> ran tb \<inter> ran pg = {} \<and>
     (\<forall>p \<in> owned M tb pg. page_aligned p \<and> 0 < p \<and> p \<notin> paging st pd \<and> p \<notin> free_set (phys st))"

lemma proc_entry_simps:
  "proc_entry None = 0"
  "page_aligned p \<Longrightarrow> proc_entry (Some p) \<noteq> 0 \<and> entry_addr (proc_entry (Some p)) = p \<and>
     proc_entry (Some p) AND 0xfffff000 = word_of_nat p \<and>
     entry_present (proc_entry (Some p)) \<and> \<not> entry_big (proc_entry (Some p))"
proof -
  show "proc_entry None = 0" by (simp add: proc_entry_def)
  assume "page_aligned p"
  then have pw: "(word_of_nat p :: u32) AND 0xfff = 0" "unat (word_of_nat p :: u32) = p"
    using page_word by (auto simp: page_aligned_def)
  have f: "process_entry_flags AND 0xfffff000 = 0" "bit process_entry_flags 0" "\<not> bit process_entry_flags 7"
    by (simp_all add: process_entry_flags_def bit_simps)
  have e: "proc_entry (Some p) AND 0xfffff000 = word_of_nat p"
    using and_or_page [OF pw(1) f(1)] by (simp add: proc_entry_def)
  have b: "entry_present (proc_entry (Some p))" "\<not> entry_big (proc_entry (Some p))"
    using f low_bits [OF pw(1), of 7] by (simp_all add: entry_bits proc_entry_def bit_or_iff)
  then show "proc_entry (Some p) \<noteq> 0 \<and> entry_addr (proc_entry (Some p)) = p \<and>
     proc_entry (Some p) AND 0xfffff000 = word_of_nat p \<and>
     entry_present (proc_entry (Some p)) \<and> \<not> entry_big (proc_entry (Some p))"
    using e pw(2) by (auto simp: entry_addr_def)
qed

lemma space_okD:
  assumes "space_ok st pd M tb pg"
  shows "\<exists>ppd. frames st M = Some ppd \<and> length ppd = 1024 \<and> (\<forall>i < 1024. ppd ! i = proc_entry (tb i))"
    "tb i = Some p \<Longrightarrow> i < 1024 \<and>
       (\<exists>t. frames st p = Some t \<and> length t = 1024 \<and> (\<forall>j < 1024. t ! j = proc_entry (pg (i, j))))"
    "pg (i, j) = Some q \<Longrightarrow> j < 1024 \<and> tb i \<noteq> None \<and> (\<exists>t. frames st q = Some t \<and> length t = 1024)"
    "inj_on tb (dom tb)" "inj_on pg (dom pg)" "M \<notin> ran tb" "M \<notin> ran pg" "ran tb \<inter> ran pg = {}"
    "p \<in> owned M tb pg \<Longrightarrow> page_aligned p \<and> 0 < p \<and> p \<notin> paging st pd \<and> p \<notin> free_set (phys st)"
  using assms by (simp_all add: space_ok_def)

lemma in_owned: "M \<in> owned M tb pg" "tb i = Some p \<Longrightarrow> p \<in> owned M tb pg" "pg k = Some q \<Longrightarrow> q \<in> owned M tb pg"
  unfolding owned_def by (auto intro: ranI)

text \<open>The process's own translation.\<close>

lemma space_translate:
  assumes s: "space_ok st pd M tb pg"
  shows "translate (st\<lparr>cr3 := M\<rparr>) la =
    map_option (\<lambda>q. word_of_nat q OR (la AND 0xfff)) (pg (K_MEM_PDIR_INDEX la, K_MEM_PTABLE_INDEX la))"
proof -
  let ?i = "K_MEM_PDIR_INDEX la" and ?j = "K_MEM_PTABLE_INDEX la"
  obtain ppd where ppd: "frames st M = Some ppd" "length ppd = 1024" "\<And>i. i < 1024 \<Longrightarrow> ppd ! i = proc_entry (tb i)"
    using space_okD(1) [OF s] by blast
  show ?thesis
  proof (cases "tb ?i")
    case None
    then have "pg (?i, ?j) = None" using space_okD(3) [OF s, of ?i ?j] by (cases "pg (?i, ?j)") auto
    then show ?thesis
      using ppd None pdir_index_less [of la] by (simp add: translate_def rd_def proc_entry_simps(1))
  next
    case (Some p)
    obtain t where t: "frames st p = Some t" "length t = 1024" "\<And>j. j < 1024 \<Longrightarrow> t ! j = proc_entry (pg (?i, j))"
      using space_okD(2) [OF s Some] by blast
    have pp: "page_aligned p" using space_okD(9) [OF s in_owned(2) [of tb, OF Some]] by simp
    have "page_aligned q" if "pg (?i, ?j) = Some q" for q using space_okD(9) [OF s in_owned(3) [of pg, OF that]] by simp
    then show ?thesis
      using ppd t Some pdir_index_less [of la] ptable_index_less [of la] proc_entry_simps(2) [OF pp]
      by (cases "pg (?i, ?j)") (simp_all add: translate_def rd_def proc_entry_simps)
  qed
qed

text \<open>What changes the space: nothing of it, a new table, a new page, the contents of a page.\<close>

lemma space_same:
  assumes "space_ok st pd M tb pg" "\<And>p. p \<in> owned M tb pg \<Longrightarrow> frames st' p = frames st p"
    and "cr3 st' = cr3 st" "free_set (phys st') \<subseteq> free_set (phys st)"
  shows "space_ok st' pd M tb pg"
proof -
  note D = space_okD [OF assms(1)]
  have "paging st' pd = paging st pd" using assms(3) by (simp add: paging_def)
  then have o: "p \<in> owned M tb pg \<Longrightarrow> page_aligned p \<and> 0 < p \<and> p \<notin> paging st' pd \<and> p \<notin> free_set (phys st')" for p
    using D(9) [of p] subsetD [OF assms(4), of p] by auto
  have m: "frames st' M = frames st M" using assms(2) in_owned(1) .
  have t: "frames st' p = frames st p" if "tb i = Some p" for i p using assms(2) in_owned(2) [of tb, OF that] .
  have q: "frames st' p = frames st p" if "pg k = Some p" for k p using assms(2) in_owned(3) [of pg, OF that] .
  show ?thesis unfolding space_ok_def
    using D(1-8) o m t q by (intro conjI allI ballI impI) auto
qed

lemma space_page_write:
  assumes "space_ok st pd M tb pg" "pg k = Some q" "length t = 1024"
  shows "space_ok (st\<lparr>frames := (frames st)(q \<mapsto> t)\<rparr>) pd M tb pg"
proof -
  note D = space_okD [OF assms(1)]
  have qr: "q \<in> ran pg" using assms(2) by (auto intro: ranI)
  have "q \<noteq> M" "\<And>i p. tb i = Some p \<Longrightarrow> q \<noteq> p" using D(7,8) qr by (auto intro: ranI)
  moreover have "paging (st\<lparr>frames := (frames st)(q \<mapsto> t)\<rparr>) pd = paging st pd" by (simp add: paging_def)
  ultimately show ?thesis unfolding space_ok_def
    using D assms(3) by (intro conjI allI ballI impI) auto
qed

lemma space_add_table:
  assumes s: "space_ok st pd M tb pg" and i: "tb i = None" "i < 1024"
    and p: "page_aligned p" "0 < p" "p \<notin> paging st pd" "p \<in> free_set (phys st)"
    and st': "frames st M = Some ppd" "frames st' M = Some (ppd[i := proc_entry (Some p)])"
      "frames st' p = Some (replicate 1024 0)" "\<And>q. q \<in> ran tb \<union> ran pg \<Longrightarrow> frames st' q = frames st q"
    and c: "cr3 st' = cr3 st" "free_set (phys st') \<subseteq> free_set (phys st) - {p}"
  shows "space_ok st' pd M (tb(i \<mapsto> p)) pg"
proof -
  note D = space_okD [OF s]
  have pn: "p \<noteq> M" "p \<notin> ran tb" "p \<notin> ran pg"
    using D(9) [of M] D(9) [of p] p(4) by (auto simp: owned_def)
  have rt: "ran (tb(i \<mapsto> p)) = insert p (ran tb)" using i(1) by (simp add: ran_map_upd)
  have pg0: "pg (i, j) = None" for j using D(3) [of i j] i(1) by (cases "pg (i, j)") auto
  have pa: "paging st' pd = paging st pd" using c(1) by (simp add: paging_def)
  have ppd: "length ppd = 1024" "\<forall>k < 1024. ppd ! k = proc_entry (tb k)" using D(1) st'(1) by auto
  have 1: "\<exists>ppd. frames st' M = Some ppd \<and> length ppd = 1024 \<and> (\<forall>k < 1024. ppd ! k = proc_entry ((tb(i \<mapsto> p)) k))"
    using st'(2) ppd by (auto simp: nth_list_update)
  have 2: "k < 1024 \<and> (\<exists>t. frames st' r = Some t \<and> length t = 1024 \<and> (\<forall>j < 1024. t ! j = proc_entry (pg (k, j))))"
    if "(tb(i \<mapsto> p)) k = Some r" for k r
  proof (cases "k = i")
    case True
    then show ?thesis using that i st'(3) pg0 by (auto simp: proc_entry_simps(1))
  next
    case False
    then have tk: "tb k = Some r" using that by simp
    then have "frames st' r = frames st r" using st'(4) by (auto intro: ranI)
    then show ?thesis using D(2) [OF tk] by simp
  qed
  have 3: "j < 1024 \<and> (tb(i \<mapsto> p)) k \<noteq> None \<and> (\<exists>t. frames st' q = Some t \<and> length t = 1024)"
    if "pg (k, j) = Some q" for k j q
  proof -
    have "frames st' q = frames st q" using that st'(4) by (auto intro: ranI)
    then show ?thesis using D(3) [OF that] by auto
  qed
  have 4: "inj_on (tb(i \<mapsto> p)) (dom (tb(i \<mapsto> p)))"
    using D(4) pn(2) by (auto simp: inj_on_def dom_def ran_def split: if_splits)
  have 5: "page_aligned r \<and> 0 < r \<and> r \<notin> paging st' pd \<and> r \<notin> free_set (phys st')" if "r \<in> owned M (tb(i \<mapsto> p)) pg" for r
  proof (cases "r = p")
    case True
    then show ?thesis using p pa c(2) by auto
  next
    case False
    then have "r \<in> owned M tb pg" using that rt by (auto simp: owned_def)
    then show ?thesis using D(9) [of r] pa c(2) by auto
  qed
  show ?thesis unfolding space_ok_def
    using 1 2 3 4 5 D(5-8) pn rt by (intro conjI allI ballI impI) auto
qed

lemma space_add_page:
  assumes s: "space_ok st pd M tb pg" and k: "tb i = Some p" "pg (i, j) = None" "j < 1024"
    and q: "page_aligned q" "0 < q" "q \<notin> paging st pd" "q \<in> free_set (phys st)"
    and st': "frames st p = Some t" "frames st' p = Some (t[j := proc_entry (Some q)])"
      "frames st' q = Some u" "length u = 1024" "\<And>r. r \<in> owned M tb pg - {p} \<Longrightarrow> frames st' r = frames st r"
    and c: "cr3 st' = cr3 st" "free_set (phys st') \<subseteq> free_set (phys st) - {q}"
  shows "space_ok st' pd M tb (pg((i, j) \<mapsto> q))"
proof -
  note D = space_okD [OF s]
  have qn: "q \<noteq> M" "q \<notin> ran tb" "q \<notin> ran pg"
    using D(9) [of M] D(9) [of q] q(4) by (auto simp: owned_def)
  have pn: "p \<noteq> M" "p \<notin> ran pg" using D(6,8) k(1) by (auto intro: ranI)
  have rp: "ran (pg((i, j) \<mapsto> q)) = insert q (ran pg)" using k(2) by (simp add: ran_map_upd)
  have pa: "paging st' pd = paging st pd" using c(1) by (simp add: paging_def)
  have fm: "frames st' M = frames st M" using st'(5) pn by (auto simp: owned_def)
  have tp: "length t = 1024" "\<forall>m < 1024. t ! m = proc_entry (pg (i, m))" using D(2) [OF k(1)] st'(1) by auto
  have 2: "n < 1024 \<and> (\<exists>t. frames st' r = Some t \<and> length t = 1024 \<and> (\<forall>m < 1024. t ! m = proc_entry ((pg((i, j) \<mapsto> q)) (n, m))))"
    if "tb n = Some r" for n r
  proof (cases "n = i")
    case True
    then have "r = p" using that k(1) by simp
    then show ?thesis using True D(2) [OF that] st'(2) tp by (auto simp: nth_list_update)
  next
    case False
    then have "r \<noteq> p" using D(4) that k(1) by (auto simp: inj_on_def dom_def)
    then have "frames st' r = frames st r" using st'(5) that by (auto simp: owned_def intro: ranI)
    then show ?thesis using D(2) [OF that] False by simp
  qed
  have 3: "m < 1024 \<and> tb n \<noteq> None \<and> (\<exists>t. frames st' r = Some t \<and> length t = 1024)"
    if "(pg((i, j) \<mapsto> q)) (n, m) = Some r" for n m r
  proof (cases "(n, m) = (i, j)")
    case True
    then show ?thesis using that k st'(3,4) by auto
  next
    case False
    then have pr: "pg (n, m) = Some r" using that by auto
    then have "frames st' r = frames st r" using st'(5) pn by (auto simp: owned_def intro: ranI)
    then show ?thesis using D(3) [OF pr] by simp
  qed
  have 4: "inj_on (pg((i, j) \<mapsto> q)) (dom (pg((i, j) \<mapsto> q)))"
    using D(5) qn(3) by (auto simp: inj_on_def dom_def ran_def split: if_splits)
  have 5: "page_aligned r \<and> 0 < r \<and> r \<notin> paging st' pd \<and> r \<notin> free_set (phys st')" if "r \<in> owned M tb (pg((i, j) \<mapsto> q))" for r
  proof (cases "r = q")
    case True
    then show ?thesis using q pa c(2) by auto
  next
    case False
    then have "r \<in> owned M tb pg" using that rp by (auto simp: owned_def)
    then show ?thesis using D(9) [of r] pa c(2) by auto
  qed
  show ?thesis unfolding space_ok_def
    using D(1) 2 3 4 5 D(4,6-8) qn rp fm by (intro conjI allI ballI impI) auto
qed

section \<open>Mapping an address\<close>

text \<open>
  The loader's state: the kernel's paging structures, the space, and the three windows, each on a
  page table of the kernel, on the page that the loader says it is on.
\<close>

definition window_at :: "mmu \<Rightarrow> u32 \<Rightarrow> nat \<Rightarrow> bool" where
  "window_at st w cur \<longleftrightarrow> translate st w = (if cur = 0 then None else Some (word_of_nat cur))"

definition windows_ok :: "u32 list \<Rightarrow> k_proc_process_mem_init_t \<Rightarrow> bool" where
  "windows_ok pd mi \<longleftrightarrow> window_addr pd (page_dir mi) \<and> window_addr pd (page_table mi) \<and> window_addr pd (init_page mi) \<and>
     \<not> same_page (page_dir mi) (page_table mi) \<and> \<not> same_page (page_dir mi) (init_page mi) \<and>
     \<not> same_page (page_table mi) (init_page mi)"

definition loader_ok ::
    "mmu \<Rightarrow> u32 list \<Rightarrow> u32 list \<Rightarrow> k_proc_process_mem_init_t \<Rightarrow> nat \<Rightarrow> (nat \<rightharpoonup> nat) \<Rightarrow> (nat \<times> nat \<rightharpoonup> nat) \<Rightarrow> bool" where
  "loader_ok st pd pt mi M tb pg \<longleftrightarrow> pmap_ok st pd pt \<and> space_ok st pd M tb pg \<and> windows_ok pd mi \<and>
     translate st (page_dir mi) = Some (word_of_nat M) \<and>
     window_at st (page_table mi) (cur_page_table_entry mi) \<and> window_at st (init_page mi) (cur_page_entry mi) \<and>
     (cur_page_table_entry mi = 0 \<or> cur_page_table_entry mi \<in> ran tb) \<and>
     (cur_page_entry mi = 0 \<or> cur_page_entry mi \<in> ran pg)"

lemma window_onI:
  assumes "pmap_ok st pd pt" "space_ok st pd M tb pg" "window_addr pd w" "translate st w = Some (word_of_nat p)"
    and "p \<in> owned M tb pg" "frames st p = Some t" "length t = 1024"
  shows "window_on st pd pt w p t"
  using assms space_okD(9) [OF assms(2,5)] by (simp add: window_on_def)

lemma window_flags:
  "process_entry_flags AND 0xfffff000 = 0" "\<not> entry_big process_entry_flags" "(0x2 :: u32) AND 0xfffff000 = 0" "\<not> entry_big 0x2"
  by (simp_all add: process_entry_flags_def entry_bits bit_simps)

lemma same_but_table_paging:
  "window_addr pd w \<Longrightarrow> same_but_table st st' pd w \<Longrightarrow>
   cr3 st' = cr3 st \<and> phys st' = phys st \<and> (\<forall>p. p \<notin> paging st pd \<longrightarrow> frames st' p = frames st p)"
  by (auto simp: same_but_table_def paging_def window_addr_def)

lemma space_move:
  assumes "space_ok st pd M tb pg" "window_addr pd w" "same_but_table st st' pd w"
  shows "space_ok st' pd M tb pg"
proof -
  note k = same_but_table_paging [OF assms(2,3)]
  show ?thesis
  proof (rule space_same [OF assms(1)])
    show "frames st' p = frames st p" if "p \<in> owned M tb pg" for p using space_okD(9) [OF assms(1) that] k by blast
  qed (use k in simp_all)
qed

lemma avail_less: "avail (Suc n) rs \<Longrightarrow> avail n rs"
  unfolding avail_def by (meson Suc_leD)

lemma aim_table:
  assumes l: "loader_ok st pd pt mi M tb pg" and p: "p \<in> ran tb"
  shows "\<exists>st'. (if p \<noteq> cur_page_table_entry mi then do {
       st \<leftarrow> move_window (page_table mi) (cur_page_table_entry mi) p process_entry_flags st;
       Some (mi\<lparr>cur_page_table_entry := p\<rparr>, st)
     } else Some (mi, st)) = Some (mi\<lparr>cur_page_table_entry := p\<rparr>, st') \<and>
     loader_ok st' pd pt (mi\<lparr>cur_page_table_entry := p\<rparr>) M tb pg \<and> phys st' = phys st \<and>
     (\<forall>q. q \<notin> paging st pd \<longrightarrow> frames st' q = frames st q)"
proof (cases "p = cur_page_table_entry mi")
  case True
  then show ?thesis using l by simp
next
  case False
  have ok: "pmap_ok st pd pt" and s: "space_ok st pd M tb pg" and w: "windows_ok pd mi" using l by (auto simp: loader_ok_def)
  have wt: "window_addr pd (page_table mi)" using w by (simp add: windows_ok_def)
  have pp: "page_aligned p" "0 < p" using space_okD(9) [OF s, of p] p by (auto simp: owned_def)
  have cur: "cur_page_table_entry mi = 0 \<longleftrightarrow> translate st (page_table mi) = None"
    using l by (auto simp: loader_ok_def window_at_def split: if_splits)
  obtain st' where st': "move_window (page_table mi) (cur_page_table_entry mi) p process_entry_flags st = Some st'"
      "pmap_ok st' pd pt" "same_but_table st st' pd (page_table mi)" "translate st' (page_table mi) = Some (word_of_nat p)"
      "\<And>lb. K_MEM_PDIR_INDEX lb < 1022 \<Longrightarrow> \<not> same_page (page_table mi) lb \<Longrightarrow> translate st' lb = translate st lb"
    using move_window_ok [OF ok wt pp(1) window_flags(1,2) cur] by blast
  have "translate st' (page_dir mi) = translate st (page_dir mi)" "translate st' (init_page mi) = translate st (init_page mi)"
    using w st'(5) window_addr_index by (auto simp: windows_ok_def same_page_def)
  then have "loader_ok st' pd pt (mi\<lparr>cur_page_table_entry := p\<rparr>) M tb pg"
    using l st'(2,4) space_move [OF s wt st'(3)] p pp(2) by (simp add: loader_ok_def window_at_def windows_ok_def)
  then show ?thesis using False st'(1) same_but_table_paging [OF wt st'(3)] by simp
qed

lemma aim_page:
  assumes l: "loader_ok st pd pt mi M tb pg" and p: "p \<in> ran pg"
  shows "\<exists>st'. (if p \<noteq> cur_page_entry mi then do {
       st \<leftarrow> move_window (init_page mi) (cur_page_entry mi) p 0x2 st;
       Some (mi\<lparr>cur_page_entry := p\<rparr>, st)
     } else Some (mi, st)) = Some (mi\<lparr>cur_page_entry := p\<rparr>, st') \<and>
     loader_ok st' pd pt (mi\<lparr>cur_page_entry := p\<rparr>) M tb pg \<and> phys st' = phys st \<and>
     (\<forall>q. q \<notin> paging st pd \<longrightarrow> frames st' q = frames st q)"
proof (cases "p = cur_page_entry mi")
  case True
  then show ?thesis using l by simp
next
  case False
  have ok: "pmap_ok st pd pt" and s: "space_ok st pd M tb pg" and w: "windows_ok pd mi" using l by (auto simp: loader_ok_def)
  have wt: "window_addr pd (init_page mi)" using w by (simp add: windows_ok_def)
  have pp: "page_aligned p" "0 < p" using space_okD(9) [OF s, of p] p by (auto simp: owned_def)
  have cur: "cur_page_entry mi = 0 \<longleftrightarrow> translate st (init_page mi) = None"
    using l by (auto simp: loader_ok_def window_at_def split: if_splits)
  obtain st' where st': "move_window (init_page mi) (cur_page_entry mi) p 0x2 st = Some st'"
      "pmap_ok st' pd pt" "same_but_table st st' pd (init_page mi)" "translate st' (init_page mi) = Some (word_of_nat p)"
      "\<And>lb. K_MEM_PDIR_INDEX lb < 1022 \<Longrightarrow> \<not> same_page (init_page mi) lb \<Longrightarrow> translate st' lb = translate st lb"
    using move_window_ok [OF ok wt pp(1) window_flags(3,4) cur] by blast
  have "translate st' (page_dir mi) = translate st (page_dir mi)" "translate st' (page_table mi) = translate st (page_table mi)"
    using w st'(5) window_addr_index by (auto simp: windows_ok_def same_page_def)
  then have "loader_ok st' pd pt (mi\<lparr>cur_page_entry := p\<rparr>) M tb pg"
    using l st'(2,4) space_move [OF s wt st'(3)] p pp(2) by (simp add: loader_ok_def window_at_def windows_ok_def)
  then show ?thesis using False st'(1) same_but_table_paging [OF wt st'(3)] by simp
qed

lemma dir_entry:
  assumes l: "loader_ok st pd pt mi M tb pg" and i: "i < 1024"
  shows "\<exists>ppd. window_on st pd pt (page_dir mi) M ppd \<and> ppd ! i = proc_entry (tb i) \<and>
    vload st (page_dir mi + 4 * word_of_nat i) = Some (proc_entry (tb i))"
proof -
  have s: "space_ok st pd M tb pg" using l by (simp add: loader_ok_def)
  obtain ppd where ppd: "frames st M = Some ppd" "length ppd = 1024" "\<And>i. i < 1024 \<Longrightarrow> ppd ! i = proc_entry (tb i)"
    using space_okD(1) [OF s] by blast
  have "window_on st pd pt (page_dir mi) M ppd"
    using l ppd(1,2) in_owned(1) by (intro window_onI [of st pd pt M tb pg]) (auto simp: loader_ok_def windows_ok_def)
  then show ?thesis using window_load [of st pd pt "page_dir mi" M ppd i] i ppd(3) [OF i] by auto
qed

lemma table_entry:
  assumes l: "loader_ok st pd pt mi M tb pg" and i: "tb i = Some (cur_page_table_entry mi)" "j < 1024"
  shows "\<exists>t. window_on st pd pt (page_table mi) (cur_page_table_entry mi) t \<and> t ! j = proc_entry (pg (i, j)) \<and>
    vload st (page_table mi + 4 * word_of_nat j) = Some (proc_entry (pg (i, j)))"
proof -
  let ?p = "cur_page_table_entry mi"
  have s: "space_ok st pd M tb pg" using l by (simp add: loader_ok_def)
  obtain t where t: "frames st ?p = Some t" "length t = 1024" "\<And>j. j < 1024 \<Longrightarrow> t ! j = proc_entry (pg (i, j))"
    using space_okD(2) [OF s i(1)] by blast
  have po: "?p \<in> owned M tb pg" using in_owned(2) [of tb, OF i(1)] .
  then have "0 < ?p" using space_okD(9) [OF s] by simp
  then have "window_on st pd pt (page_table mi) ?p t"
    using l t(1,2) po by (intro window_onI [of st pd pt M tb pg]) (auto simp: loader_ok_def windows_ok_def window_at_def)
  then show ?thesis using window_load [of st pd pt "page_table mi" ?p t j] i(2) t(3) [OF i(2)] by auto
qed

lemma window_on_phys:
  assumes "window_on st pd pt w p t" "prlist_ok r" "free_set r \<subseteq> free_set (phys st)"
  shows "window_on (st\<lparr>phys := r\<rparr>) pd pt w p t"
  using assms phys_upd [of st pd pt r] by (simp add: window_on_def paging_def)

text \<open>A new page table: allocated, entered in the directory, shown in the window and cleared.\<close>

lemma new_table:
  assumes l: "loader_ok st pd pt mi M tb pg" and i: "i < 1024" "tb i = None" and a: "avail (Suc n) (phys st)"
  shows "\<exists>p st'. (do {
       (p, ranges) \<leftarrow> k_mem_AllocPhysicalPage 0 (phys st);
       st \<leftarrow> vstore (st\<lparr>phys := ranges\<rparr>) (page_dir mi + 4 * word_of_nat i) (word_of_nat p OR process_entry_flags);
       e \<leftarrow> vload st (page_dir mi + 4 * word_of_nat i);
       let page_table_entry = entry_addr e;
       st \<leftarrow> move_window (page_table mi) (cur_page_table_entry mi) page_table_entry process_entry_flags st;
       st \<leftarrow> clear_entries 1024 (page_table mi) st;
       Some (mi\<lparr>cur_page_table_entry := page_table_entry\<rparr>, st)
     }) = Some (mi\<lparr>cur_page_table_entry := p\<rparr>, st') \<and>
     loader_ok st' pd pt (mi\<lparr>cur_page_table_entry := p\<rparr>) M (tb(i \<mapsto> p)) pg \<and> avail n (phys st') \<and>
     (\<forall>q \<in> ran pg. frames st' q = frames st q)"
proof -
  have ok: "pmap_ok st pd pt" and s: "space_ok st pd M tb pg" and w: "windows_ok pd mi" using l by (auto simp: loader_ok_def)
  note D = space_okD [OF s]
  have pl: "prlist_ok (phys st)" using ok by (simp add: pmap_ok_def)
  obtain p r where p: "k_mem_AllocPhysicalPage 0 (phys st) = Some (p, r)" "prlist_ok r" "p \<in> free_set (phys st)"
      "free_set r \<subseteq> free_set (phys st) - {p}" "avail n r"
    using alloc_avail [OF pl a] by blast
  have pf: "page_aligned p" "0 < p" "p \<notin> paging st pd" "\<exists>t. frames st p = Some t \<and> length t = 1024"
    using free_page_ok [OF ok p(3)] by auto
  then obtain t where t: "frames st p = Some t" "length t = 1024" by blast
  have po: "p \<notin> owned M tb pg" using D(9) [of p] p(3) by blast
  have r: "free_set r \<subseteq> free_set (phys st)" using p(4) by blast
  obtain ppd where ppd: "window_on st pd pt (page_dir mi) M ppd" using dir_entry [OF l i(1)] by blast
  let ?e = "proc_entry (Some p)"
  define stB where "stB = st\<lparr>phys := r, frames := (frames st)(M \<mapsto> ppd[i := ?e])\<rparr>"
  have wA: "window_on (st\<lparr>phys := r\<rparr>) pd pt (page_dir mi) M ppd" by (rule window_on_phys [OF ppd p(2) r])
  have lp: "length ppd = 1024" "frames st M = Some ppd" using ppd by (auto simp: window_on_def)
  have store: "vstore (st\<lparr>phys := r\<rparr>) (page_dir mi + 4 * word_of_nat i) (word_of_nat p OR process_entry_flags) = Some stB"
    using window_store [OF wA i(1), of ?e] by (simp add: stB_def proc_entry_def)
  have wB: "window_on stB pd pt (page_dir mi) M (ppd[i := ?e])"
    using window_on_upd [OF wA, of "ppd[i := ?e]"] lp by (simp add: stB_def)
  have loadB: "vload stB (page_dir mi + 4 * word_of_nat i) = Some ?e" using window_load [OF wB i(1)] i(1) lp by simp
  have ea: "entry_addr ?e = p" using proc_entry_simps(2) [OF pf(1)] by simp
  have okB: "pmap_ok stB pd pt" using wB by (simp add: window_on_def)
  have Mp: "M \<notin> paging (st\<lparr>phys := r\<rparr>) pd" using wA by (simp add: window_on_def)
  have trB: "translate stB lb = translate st lb" if "K_MEM_PDIR_INDEX lb < 1022" for lb
    using translate_frame_upd [OF _ Mp _ that, of pt "ppd[i := ?e]"] wA lp by (simp add: stB_def window_on_def)
  have wt: "window_addr pd (page_table mi)" and lt: "K_MEM_PDIR_INDEX (page_table mi) < 1022"
    using w window_addr_index by (auto simp: windows_ok_def)
  have cur: "cur_page_table_entry mi = 0 \<longleftrightarrow> translate stB (page_table mi) = None"
    using l trB [OF lt] by (auto simp: loader_ok_def window_at_def split: if_splits)
  obtain stC where stC: "move_window (page_table mi) (cur_page_table_entry mi) p process_entry_flags stB = Some stC"
      "pmap_ok stC pd pt" "same_but_table stB stC pd (page_table mi)" "translate stC (page_table mi) = Some (word_of_nat p)"
      "\<And>lb. K_MEM_PDIR_INDEX lb < 1022 \<Longrightarrow> \<not> same_page (page_table mi) lb \<Longrightarrow> translate stC lb = translate stB lb"
    using move_window_ok [OF okB wt pf(1) window_flags(1,2) cur] by blast
  have pgB: "paging stB pd = paging st pd" by (simp add: stB_def paging_def)
  note C = same_but_table_paging [OF wt stC(3), unfolded pgB]
  have pM: "p \<noteq> M" using po by (auto simp: owned_def)
  have pgC: "paging stC pd = paging st pd" using C by (simp add: paging_def stB_def)
  have "frames stC p = Some t" using C pf(3) t pM by (simp add: stB_def)
  then have wC: "window_on stC pd pt (page_table mi) p t"
    using stC(2,4) wt pf(1,3) t(2) pgC by (simp add: window_on_def)
  define stD where "stD = stC\<lparr>frames := (frames stC)(p \<mapsto> replicate 1024 0)\<rparr>"
  have clear: "clear_entries 1024 (page_table mi) stC = Some stD" using clear_entries_page [OF wC] by (simp add: stD_def)
  have wD: "window_on stD pd pt (page_table mi) p (replicate 1024 0)"
    using window_on_upd [OF wC, of "replicate 1024 0"] by (simp add: stD_def)
  have fD: "frames stD q = frames st q" if "q \<in> ran tb \<union> ran pg" for q
  proof -
    have "q \<in> owned M tb pg" "q \<noteq> M" using that D(6,7) by (auto simp: owned_def)
    then show ?thesis using C D(9) [of q] po by (auto simp: stD_def stB_def)
  qed
  have fM: "frames stD M = Some (ppd[i := ?e])"
    using C D(9) [of M] pM in_owned(1) by (simp add: stD_def stB_def)
  have phD: "phys stD = r" "cr3 stD = cr3 st" using C by (simp_all add: stD_def stB_def)
  have sD: "space_ok stD pd M (tb(i \<mapsto> p)) pg"
    by (rule space_add_table [OF s i(2,1) pf(1-3) p(3) lp(2) fM])
      (use fD phD p(4) in \<open>auto simp: stD_def\<close>)
  have trD: "translate stD lb = translate st lb" if "K_MEM_PDIR_INDEX lb < 1022" "\<not> same_page (page_table mi) lb" for lb
    using translate_frame_upd [OF stC(2) _ _ that(1), of p "replicate 1024 0"] stC(5) [OF that] trB [OF that(1)] pf(3) pgC
    by (simp add: stD_def)
  have "translate stD (page_dir mi) = translate st (page_dir mi)" "translate stD (init_page mi) = translate st (init_page mi)"
    using w trD window_addr_index by (auto simp: windows_ok_def same_page_def)
  then have "loader_ok stD pd pt (mi\<lparr>cur_page_table_entry := p\<rparr>) M (tb(i \<mapsto> p)) pg"
    using l sD wD pf(2) i(2) by (simp add: loader_ok_def window_on_def window_at_def windows_ok_def ran_map_upd)
  moreover have "(\<forall>q \<in> ran pg. frames stD q = frames st q)" using fD by blast
  ultimately show ?thesis
    using p(1,5) store loadB ea stC(1) clear phD by (intro exI [of _ p] exI [of _ stD]) simp
qed

lemma select_table_ok:
  assumes l: "loader_ok st pd pt mi M tb pg" and i: "i < 1024" and a: "avail (Suc n) (phys st)"
  shows "\<exists>p st' tb'. select_table mi i st = Some (mi\<lparr>cur_page_table_entry := p\<rparr>, st') \<and>
    loader_ok st' pd pt (mi\<lparr>cur_page_table_entry := p\<rparr>) M tb' pg \<and> tb' i = Some p \<and> avail n (phys st') \<and>
    (\<forall>q \<in> ran pg. frames st' q = frames st q)"
proof (cases "tb i")
  case (Some p)
  have s: "space_ok st pd M tb pg" using l by (simp add: loader_ok_def)
  have pr: "p \<in> ran tb" using Some by (auto intro: ranI)
  have pa: "page_aligned p" using space_okD(9) [OF s in_owned(2) [of tb, OF Some]] by simp
  have ld: "vload st (page_dir mi + 4 * word_of_nat i) = Some (proc_entry (Some p))" using dir_entry [OF l i] Some by auto
  obtain st' where st': "(if p \<noteq> cur_page_table_entry mi then do {
       st \<leftarrow> move_window (page_table mi) (cur_page_table_entry mi) p process_entry_flags st;
       Some (mi\<lparr>cur_page_table_entry := p\<rparr>, st)
     } else Some (mi, st)) = Some (mi\<lparr>cur_page_table_entry := p\<rparr>, st')"
     "loader_ok st' pd pt (mi\<lparr>cur_page_table_entry := p\<rparr>) M tb pg" "phys st' = phys st"
     "\<forall>q. q \<notin> paging st pd \<longrightarrow> frames st' q = frames st q"
    using aim_table [OF l pr] by blast
  have "select_table mi i st = Some (mi\<lparr>cur_page_table_entry := p\<rparr>, st')"
    unfolding select_table_def using ld proc_entry_simps(2) [OF pa] st'(1) by (auto simp: Let_def split: if_splits)
  moreover have "\<forall>q \<in> ran pg. frames st' q = frames st q" using st'(4) space_okD(9) [OF s] by (auto simp: owned_def)
  ultimately show ?thesis using st'(2,3) Some avail_less [OF a] by auto
next
  case None
  have ld: "vload st (page_dir mi + 4 * word_of_nat i) = Some 0" using dir_entry [OF l i] None by (auto simp: proc_entry_simps)
  obtain p st' where n: "(do {
       (p, ranges) \<leftarrow> k_mem_AllocPhysicalPage 0 (phys st);
       st \<leftarrow> vstore (st\<lparr>phys := ranges\<rparr>) (page_dir mi + 4 * word_of_nat i) (word_of_nat p OR process_entry_flags);
       e \<leftarrow> vload st (page_dir mi + 4 * word_of_nat i);
       let page_table_entry = entry_addr e;
       st \<leftarrow> move_window (page_table mi) (cur_page_table_entry mi) page_table_entry process_entry_flags st;
       st \<leftarrow> clear_entries 1024 (page_table mi) st;
       Some (mi\<lparr>cur_page_table_entry := page_table_entry\<rparr>, st)
     }) = Some (mi\<lparr>cur_page_table_entry := p\<rparr>, st')"
     "loader_ok st' pd pt (mi\<lparr>cur_page_table_entry := p\<rparr>) M (tb(i \<mapsto> p)) pg" "avail n (phys st')"
     "\<forall>q \<in> ran pg. frames st' q = frames st q"
    using new_table [OF l i None a] by blast
  have s': "space_ok st' pd M (tb(i \<mapsto> p)) pg" using n(2) by (simp add: loader_ok_def)
  have "p \<in> owned M (tb(i \<mapsto> p)) pg" by (rule in_owned(2) [of _ i]) simp
  then have pa: "page_aligned p" using space_okD(9) [OF s'] by blast
  have "vload st' (page_dir mi + 4 * word_of_nat i) = Some (proc_entry (Some p))" using dir_entry [OF n(2) i] by auto
  then have "select_table mi i st = Some (mi\<lparr>cur_page_table_entry := p\<rparr>, st')"
    unfolding select_table_def using ld n(1) proc_entry_simps(2) [OF pa] by (simp add: Let_def)
  then show ?thesis using n(2-4) by (intro exI [of _ p] exI [of _ st'] exI [of _ "tb(i \<mapsto> p)"]) simp
qed

lemma new_page:
  assumes l: "loader_ok st pd pt mi M tb pg" and i: "tb i = Some (cur_page_table_entry mi)" "j < 1024" "pg (i, j) = None"
    and a: "avail (Suc n) (phys st)"
  shows "\<exists>q st'. (do {
         (p, ranges) \<leftarrow> k_mem_AllocPhysicalPage 0 (phys st);
         vstore (st\<lparr>phys := ranges\<rparr>) (page_table mi + 4 * word_of_nat j) (word_of_nat p OR process_entry_flags)
       }) = Some st' \<and> loader_ok st' pd pt mi M tb (pg((i, j) \<mapsto> q)) \<and> avail n (phys st') \<and>
     (\<forall>q \<in> ran pg. frames st' q = frames st q)"
proof -
  let ?p = "cur_page_table_entry mi"
  have ok: "pmap_ok st pd pt" and s: "space_ok st pd M tb pg" and w: "windows_ok pd mi" using l by (auto simp: loader_ok_def)
  note D = space_okD [OF s]
  have pl: "prlist_ok (phys st)" using ok by (simp add: pmap_ok_def)
  obtain q r where q: "k_mem_AllocPhysicalPage 0 (phys st) = Some (q, r)" "prlist_ok r" "q \<in> free_set (phys st)"
      "free_set r \<subseteq> free_set (phys st) - {q}" "avail n r"
    using alloc_avail [OF pl a] by blast
  have qf: "page_aligned q" "0 < q" "q \<notin> paging st pd" "\<exists>t. frames st q = Some t \<and> length t = 1024"
    using free_page_ok [OF ok q(3)] by auto
  then obtain u where u: "frames st q = Some u" "length u = 1024" by blast
  have qo: "q \<notin> owned M tb pg" using D(9) [of q] q(3) by blast
  have r: "free_set r \<subseteq> free_set (phys st)" using q(4) by blast
  obtain t where t: "window_on st pd pt (page_table mi) ?p t" using table_entry [OF l i(1,2)] by blast
  let ?e = "proc_entry (Some q)"
  define stB where "stB = st\<lparr>phys := r, frames := (frames st)(?p \<mapsto> t[j := ?e])\<rparr>"
  have wA: "window_on (st\<lparr>phys := r\<rparr>) pd pt (page_table mi) ?p t" by (rule window_on_phys [OF t q(2) r])
  have lt: "length t = 1024" "frames st ?p = Some t" using t by (auto simp: window_on_def)
  have store: "vstore (st\<lparr>phys := r\<rparr>) (page_table mi + 4 * word_of_nat j) (word_of_nat q OR process_entry_flags) = Some stB"
    using window_store [OF wA i(2), of ?e] by (simp add: stB_def proc_entry_def)
  have wB: "window_on stB pd pt (page_table mi) ?p (t[j := ?e])"
    using window_on_upd [OF wA, of "t[j := ?e]"] lt by (simp add: stB_def)
  have pp: "?p \<notin> paging (st\<lparr>phys := r\<rparr>) pd" using wA by (simp add: window_on_def)
  have trB: "translate stB lb = translate st lb" if "K_MEM_PDIR_INDEX lb < 1022" for lb
    using translate_frame_upd [OF _ pp _ that, of pt "t[j := ?e]"] wA lt by (simp add: stB_def window_on_def)
  have po: "?p \<in> owned M tb pg" "?p \<notin> ran pg" using in_owned(2) [of tb, OF i(1)] D(8) i(1) by (auto intro: ranI)
  have sB: "space_ok stB pd M tb (pg((i, j) \<mapsto> q))"
    by (rule space_add_page [OF s i(1,3,2) qf(1-3) q(3) lt(2) _ _ u(2)])
      (use u qo po q(4) in \<open>auto simp: stB_def\<close>)
  have "translate stB (page_dir mi) = translate st (page_dir mi)" "translate stB (init_page mi) = translate st (init_page mi)"
      "translate stB (page_table mi) = translate st (page_table mi)"
    using w trB window_addr_index by (auto simp: windows_ok_def)
  then have "loader_ok stB pd pt mi M tb (pg((i, j) \<mapsto> q))"
    using l sB wB i(3) by (auto simp: loader_ok_def window_on_def window_at_def ran_map_upd)
  moreover have "\<forall>x \<in> ran pg. frames stB x = frames st x" using po(2) by (auto simp: stB_def)
  ultimately show ?thesis using q(1,5) store by (intro exI [of _ q] exI [of _ stB]) (simp add: stB_def)
qed

lemma select_page_ok:
  assumes l: "loader_ok st pd pt mi M tb pg" and i: "tb i = Some (cur_page_table_entry mi)" "j < 1024"
    and a: "avail (Suc n) (phys st)"
  shows "\<exists>q st'. select_page mi j 0 st = Some (mi\<lparr>cur_page_entry := q\<rparr>, st') \<and>
    loader_ok st' pd pt (mi\<lparr>cur_page_entry := q\<rparr>) M tb (pg((i, j) \<mapsto> q)) \<and> avail n (phys st') \<and>
    (pg (i, j) = None \<or> pg (i, j) = Some q) \<and> (\<forall>q \<in> ran pg. frames st' q = frames st q)"
proof -
  have ld: "vload st (page_table mi + 4 * word_of_nat j) = Some (proc_entry (pg (i, j)))" using table_entry [OF l i] by blast
  obtain q st1 where q: "enter_page mi j 0 st = Some st1" "loader_ok st1 pd pt mi M tb (pg((i, j) \<mapsto> q))" "avail n (phys st1)"
      "pg (i, j) = None \<or> pg (i, j) = Some q" "\<forall>q \<in> ran pg. frames st1 q = frames st q"
  proof (cases "pg (i, j)")
    case None
    then show thesis using that new_page [OF l i None a] ld by (auto simp: proc_entry_simps(1) enter_page_def)
  next
    case (Some q)
    have s: "space_ok st pd M tb pg" using l by (simp add: loader_ok_def)
    have "page_aligned q" using space_okD(9) [OF s in_owned(3) [of pg, OF Some]] by simp
    moreover have "pg((i, j) \<mapsto> q) = pg" using Some by auto
    ultimately show thesis using that [of st q] Some l avail_less [OF a] proc_entry_simps(2) [of q] ld by (simp add: enter_page_def)
  qed
  let ?pg = "pg((i, j) \<mapsto> q)"
  have s1: "space_ok st1 pd M tb ?pg" using q(2) by (simp add: loader_ok_def)
  have "q \<in> owned M tb ?pg" by (rule in_owned(3) [of _ "(i, j)"]) simp
  then have pa: "page_aligned q" using space_okD(9) [OF s1] by blast
  have ld1: "vload st1 (page_table mi + 4 * word_of_nat j) = Some (proc_entry (Some q))" using table_entry [OF q(2) i] by auto
  have qr: "q \<in> ran ?pg" by (rule ranI [of _ "(i, j)"]) simp
  obtain st' where st': "(if q \<noteq> cur_page_entry mi then do {
       st \<leftarrow> move_window (init_page mi) (cur_page_entry mi) q 0x2 st1;
       Some (mi\<lparr>cur_page_entry := q\<rparr>, st)
     } else Some (mi, st1)) = Some (mi\<lparr>cur_page_entry := q\<rparr>, st')"
     "loader_ok st' pd pt (mi\<lparr>cur_page_entry := q\<rparr>) M tb ?pg" "phys st' = phys st1"
     "\<forall>x. x \<notin> paging st1 pd \<longrightarrow> frames st' x = frames st1 x"
    using aim_page [OF q(2) qr] by blast
  have e: "entry_addr (proc_entry (Some q)) = q" using proc_entry_simps(2) [OF pa] by simp
  have "select_page mi j 0 st = (if q \<noteq> cur_page_entry mi then do {
       st \<leftarrow> move_window (init_page mi) (cur_page_entry mi) q 0x2 st1;
       Some (mi\<lparr>cur_page_entry := q\<rparr>, st)
     } else Some (mi, st1))"
    unfolding select_page_def using ld1 q(1) e by (simp add: Let_def)
  then have "select_page mi j 0 st = Some (mi\<lparr>cur_page_entry := q\<rparr>, st')" using st'(1) by simp
  moreover have "frames st' x = frames st x" if x: "x \<in> ran pg" for x
  proof -
    have "x \<in> owned M tb ?pg"
    proof -
      obtain a b where "pg (a, b) = Some x" using x by (auto simp: ran_def)
      then have "?pg (a, b) = Some x" using q(4) by auto
      then show ?thesis by (rule in_owned(3))
    qed
    then show ?thesis using st'(4) q(5) x space_okD(9) [OF s1] by auto
  qed
  ultimately show ?thesis using st'(2,3) q(3,4) by (intro exI [of _ q] exI [of _ st']) simp
qed

lemma k_proc_MapProcessAddress_ok:
  assumes l: "loader_ok st pd pt mi M tb pg" and a: "avail (Suc (Suc n)) (phys st)"
  shows "\<exists>mi' st' tb' q. k_proc_MapProcessAddress mi la 0 st = Some (mi', st') \<and>
    loader_ok st' pd pt mi' M tb' (pg((K_MEM_PDIR_INDEX la, K_MEM_PTABLE_INDEX la) \<mapsto> q)) \<and>
    cur_page_entry mi' = q \<and> init_page mi' = init_page mi \<and> avail n (phys st') \<and>
    (pg (K_MEM_PDIR_INDEX la, K_MEM_PTABLE_INDEX la) = None \<or> pg (K_MEM_PDIR_INDEX la, K_MEM_PTABLE_INDEX la) = Some q) \<and>
    (\<forall>q \<in> ran pg. frames st' q = frames st q)"
proof -
  obtain p st1 tb1 where 1: "select_table mi (K_MEM_PDIR_INDEX la) st = Some (mi\<lparr>cur_page_table_entry := p\<rparr>, st1)"
      "loader_ok st1 pd pt (mi\<lparr>cur_page_table_entry := p\<rparr>) M tb1 pg" "tb1 (K_MEM_PDIR_INDEX la) = Some p"
      "avail (Suc n) (phys st1)" "\<forall>q \<in> ran pg. frames st1 q = frames st q"
    using select_table_ok [OF l pdir_index_less a] by blast
  let ?mi = "mi\<lparr>cur_page_table_entry := p\<rparr>"
  have tb1: "tb1 (K_MEM_PDIR_INDEX la) = Some (cur_page_table_entry ?mi)" using 1(3) by simp
  obtain q st2 where 2: "select_page ?mi (K_MEM_PTABLE_INDEX la) 0 st1 = Some (?mi\<lparr>cur_page_entry := q\<rparr>, st2)"
      "loader_ok st2 pd pt (?mi\<lparr>cur_page_entry := q\<rparr>) M tb1 (pg((K_MEM_PDIR_INDEX la, K_MEM_PTABLE_INDEX la) \<mapsto> q))"
      "avail n (phys st2)" "pg (K_MEM_PDIR_INDEX la, K_MEM_PTABLE_INDEX la) = None \<or> pg (K_MEM_PDIR_INDEX la, K_MEM_PTABLE_INDEX la) = Some q"
      "\<forall>q \<in> ran pg. frames st2 q = frames st1 q"
    using select_page_ok [OF 1(2) tb1 ptable_index_less 1(4)] by blast
  show ?thesis
    using 1(1,5) 2
    by (intro exI [of _ "?mi\<lparr>cur_page_entry := q\<rparr>"] exI [of _ st2] exI [of _ tb1] exI [of _ q])
      (simp add: k_proc_MapProcessAddress_def)
qed

section \<open>Segments\<close>

text \<open>Pages by number, over the whole address space.\<close>

definition page_key :: "nat \<Rightarrow> nat \<times> nat" where
  "page_key n = (n div 1024, n mod 1024)"

lemma page_key_inj: "page_key m = page_key n \<longleftrightarrow> m = n"
  unfolding page_key_def prod.inject by (metis div_mult_mod_eq)

lemma key_of_address:
  assumes "a < 2 ^ 32"
  shows "(K_MEM_PDIR_INDEX (word_of_nat a), K_MEM_PTABLE_INDEX (word_of_nat a)) = page_key (a div 4096)"
proof -
  have u: "unat (word_of_nat a :: u32) = a" using assms by (simp add: unat_of_nat)
  have m: "(0x3ff :: u32) = mask 10" by (simp add: mask_eq_exp_minus_1)
  have i: "unat (drop_bit n (word_of_nat a :: u32) AND 0x3ff) = a div 2 ^ n mod 1024" for n
    unfolding m take_bit_eq_mask [symmetric] unsigned_take_bit_eq unat_drop_bit_eq u
    by (simp add: take_bit_eq_mod drop_bit_eq_div)
  have "a div 4194304 < 1024" using assms by (simp add: less_mult_imp_div_less)
  then show ?thesis unfolding K_MEM_PDIR_INDEX_def K_MEM_PTABLE_INDEX_def i page_key_def
    by (simp add: div_mult2_eq [symmetric])
qed

text \<open>What page \<open>k\<close> of a segment has to hold: its part of the file, then zeros.\<close>

definition segment_file :: "bytes \<Rightarrow> k_proc_pheader_t \<Rightarrow> bytes" where
  "segment_file img ph = take (file_size ph) (drop (ph_offset ph) img)"

definition segment_page :: "bytes \<Rightarrow> k_proc_pheader_t \<Rightarrow> nat \<Rightarrow> bytes" where
  "segment_page img ph k = take 4096 (drop (4096 * k) (segment_file img ph) @ replicate 4096 0)"

lemma fill_page_ok:
  assumes w: "window_on st pd pt page q t" and v: "vaddr ph mod 4096 = 0" "vaddr ph + 4096 * k + 4096 < 2 ^ 32"
    and f: "ph_offset ph + file_size ph \<le> length img"
  shows "\<exists>t'. fill_page img ph (vaddr ph + 4096 * k) (min (file_size ph) (4096 * k)) page st =
      Some (vaddr ph + 4096 * (k + 1), min (file_size ph) (4096 * (k + 1)), st\<lparr>frames := (frames st)(q \<mapsto> t')\<rparr>) \<and>
    length t' = 1024 \<and> frame_bytes t' = (if 4096 * k < file_size ph then segment_page img ph k else frame_bytes t)"
proof -
  let ?f = "file_size ph" and ?la = "vaddr ph + 4096 * k"
  have l: "length t = 1024" and ft: "frames st q = Some t" using w by (auto simp: window_on_def)
  have same: "st\<lparr>frames := (frames st)(q \<mapsto> t)\<rparr> = st" using ft by (cases st) (auto simp: fun_eq_iff)
  have al: "(?la + 4096) mod 4096 = 0" using v(1) by simp
  show ?thesis
  proof (cases "4096 * k < ?f")
    case False
    then have mm: "min ?f (4096 * k) = ?f" "min ?f (4096 * (k + 1)) = ?f" by simp_all
    have "fill_page img ph ?la (min ?f (4096 * k)) page st = Some (vaddr ph + 4096 * (k + 1), min ?f (4096 * (k + 1)), st)"
      unfolding mm using v al by (simp add: fill_page_def sub32_def Let_def)
    then show ?thesis using False l same by (intro exI [of _ t]) (simp del: fun_upd_apply)
  next
    case True
    define c where "c = min 4096 (?f - 4096 * k)"
    let ?bs = "take c (drop (ph_offset ph + 4096 * k) img)"
    have c: "0 < c" "c \<le> 4096" "4096 * k + c \<le> ?f" using True by (auto simp: c_def)
    have lb: "length ?bs = c" using c f by simp
    obtain t1 where t1: "store_bytes st (page + word_of_nat 0) ?bs = Some (st\<lparr>frames := (frames st)(q \<mapsto> t1)\<rparr>)"
        "length t1 = 1024" "frame_bytes t1 = blit (frame_bytes t) 0 ?bs"
      using store_bytes_run [OF w, of 0 ?bs] lb c by auto
    let ?st1 = "st\<lparr>frames := (frames st)(q \<mapsto> t1)\<rparr>"
    have w1: "window_on ?st1 pd pt page q t1" by (rule window_on_upd [OF w t1(2)])
    have bs: "?bs = take c (drop (4096 * k) (segment_file img ph))"
      using c(3) by (simp add: segment_file_def drop_take add.commute)
    show ?thesis
    proof (cases "c = 4096")
      case c4: True
      have "frame_bytes t1 = segment_page img ph k"
      proof -
        have "length (drop (4096 * k) (segment_file img ph)) \<ge> 4096" using c f c4 by (simp add: segment_file_def)
        then have "segment_page img ph k = ?bs" unfolding segment_page_def using bs c4 by simp
        then show ?thesis using t1(3) lb c4 l by (simp add: blit_all length_frame_bytes)
      qed
      moreover have "min ?f (4096 * (k + 1)) = 4096 * k + 4096" "min ?f (4096 * k) = 4096 * k" using c c4 by auto
      ultimately show ?thesis using True v al c4 t1 f c
        by (intro exI [of _ t1]) (simp add: fill_page_def sub32_def Let_def c_def [symmetric] del: fun_upd_apply)
    next
      case c4: False
      then have cf: "c = ?f - 4096 * k" "c < 4096" using c by (auto simp: c_def)
      obtain t2 where t2: "store_bytes ?st1 (page + word_of_nat c) (replicate (4096 - c) 0) = Some (?st1\<lparr>frames := (frames ?st1)(q \<mapsto> t2)\<rparr>)"
          "length t2 = 1024" "frame_bytes t2 = blit (frame_bytes t1) c (replicate (4096 - c) 0)"
        using store_bytes_run [OF w1, of c "replicate (4096 - c) 0"] c by auto
      have m: "(?la + c) mod 4096 = c" using v(1) cf(2) by (simp add: mod_add_left_eq [symmetric])
      have "frame_bytes t2 = ?bs @ replicate (4096 - c) 0"
        using t2(3) t1(3) blit_blit [of 0 ?bs "replicate (4096 - c) 0" "frame_bytes t"] lb l c
        by (simp add: length_frame_bytes blit_all)
      also have "\<dots> = segment_page img ph k"
      proof -
        have "drop (4096 * k) (segment_file img ph) = ?bs"
          unfolding bs using cf(1) f True by (simp add: segment_file_def)
        then show ?thesis unfolding segment_page_def using lb c by simp
      qed
      finally have fb: "frame_bytes t2 = segment_page img ph k" .
      have mm: "min ?f (4096 * (k + 1)) = 4096 * k + c" "min ?f (4096 * k) = 4096 * k" using cf c by auto
      have sb: "sub32 4096 c = 4096 - c" "sub32 4096 0 = 4096" using c(2) by (simp_all add: sub32_le)
      show ?thesis using True v m t1(1) t2(1,2) f c cf(2) fb mm
        by (intro exI [of _ t2]) (simp add: fill_page_def sb Let_def c_def [symmetric])
    qed
  qed
qed

lemma segment_loop_step:
  "a < e \<Longrightarrow> segment_loop img ph e a copied mi st = do {
     (mi, st) \<leftarrow> k_proc_MapProcessAddress mi (word_of_nat a) 0 st;
     (a, copied, st) \<leftarrow> fill_page img ph a copied (init_page mi) st;
     segment_loop img ph e a copied mi st
   }"
  by (subst segment_loop.simps) simp

text \<open>The page just mapped, behind its window.\<close>

lemma current_page:
  assumes "loader_ok st pd pt mi M tb pg" "pg k = Some (cur_page_entry mi)"
  shows "\<exists>t. window_on st pd pt (init_page mi) (cur_page_entry mi) t"
proof -
  have s: "space_ok st pd M tb pg" using assms(1) by (simp add: loader_ok_def)
  have o: "cur_page_entry mi \<in> owned M tb pg" by (rule in_owned(3) [of pg, OF assms(2)])
  then have "0 < cur_page_entry mi" using space_okD(9) [OF s] by simp
  moreover obtain t where "frames st (cur_page_entry mi) = Some t" "length t = 1024"
    using space_okD(3) [OF s, of "fst k" "snd k"] assms(2) by auto
  ultimately show ?thesis using assms(1) o s
    by (intro exI [of _ t] window_onI [of st pd pt M tb pg]) (auto simp: loader_ok_def windows_ok_def window_at_def)
qed

lemma page_write_loader:
  assumes "loader_ok st pd pt mi M tb pg" "pg k = Some q" "length t = 1024"
  shows "loader_ok (st\<lparr>frames := (frames st)(q \<mapsto> t)\<rparr>) pd pt mi M tb pg"
proof -
  have s: "space_ok st pd M tb pg" and ok: "pmap_ok st pd pt" and w: "windows_ok pd mi" using assms(1) by (auto simp: loader_ok_def)
  have q: "q \<notin> paging st pd" using space_okD(9) [OF s in_owned(3) [of pg, OF assms(2)]] by simp
  have "translate (st\<lparr>frames := (frames st)(q \<mapsto> t)\<rparr>) x = translate st x" if "window_addr pd x" for x
    using translate_frame_upd [OF ok q assms(3) window_addr_index [OF that]] .
  then show ?thesis
    using assms(1) space_page_write [OF s assms(2,3)] frame_upd [OF ok q assms(3)] w
    by (simp add: loader_ok_def window_at_def windows_ok_def)
qed

lemma segment_loop_ok:
  assumes v: "vaddr ph = 4096 * V" "vaddr ph + 4096 * N < 2 ^ 32" and e: "4096 * N < mem_size ph + 4096" "mem_size ph \<le> 4096 * N"
    and f: "ph_offset ph + file_size ph \<le> length img"
    and "k + n = N" "loader_ok st pd pt mi M tb pg" "avail (2 * n) (phys st)"
  shows "\<exists>mi' st' tb' pg'. segment_loop img ph (vaddr ph + mem_size ph) (vaddr ph + 4096 * k) (min (file_size ph) (4096 * k)) mi st =
      Some (mi', st') \<and> loader_ok st' pd pt mi' M tb' pg' \<and>
    (\<forall>j. k \<le> j \<longrightarrow> j < N \<longrightarrow> (\<exists>q t. pg' (page_key (V + j)) = Some q \<and> frames st' q = Some t \<and>
      (4096 * j < file_size ph \<longrightarrow> frame_bytes t = segment_page img ph j))) \<and>
    (\<forall>m q. pg (page_key m) = Some q \<longrightarrow> m < V + k \<or> V + N \<le> m \<longrightarrow> pg' (page_key m) = Some q \<and> frames st' q = frames st q)"
  using assms(6-)
proof (induction n arbitrary: k st mi tb pg)
  case 0
  then have "\<not> vaddr ph + 4096 * k < vaddr ph + mem_size ph" using e(2) by simp
  then have "segment_loop img ph (vaddr ph + mem_size ph) (vaddr ph + 4096 * k) (min (file_size ph) (4096 * k)) mi st = Some (mi, st)"
    by (subst segment_loop.simps) simp
  then show ?case using 0 by auto
next
  case (Suc n)
  let ?a = "vaddr ph + 4096 * k" and ?e = "vaddr ph + mem_size ph"
  have kN: "k < N" using Suc.prems(1) by simp
  have a: "?a < ?e" using kN e(1) by simp
  have kk: "(K_MEM_PDIR_INDEX (word_of_nat ?a), K_MEM_PTABLE_INDEX (word_of_nat ?a)) = page_key (V + k)"
  proof -
    have "4096 * k \<le> 4096 * N" using kN by simp
    then have "?a < 2 ^ 32" using v(2) by linarith
    moreover have "?a div 4096 = V + k" using v(1) by simp
    ultimately show ?thesis using key_of_address [of ?a] by presburger
  qed
  have av: "avail (Suc (Suc (2 * n))) (phys st)" using Suc.prems(3) by simp
  obtain mi1 st1 tb1 q where 1: "k_proc_MapProcessAddress mi (word_of_nat ?a) 0 st = Some (mi1, st1)"
      "loader_ok st1 pd pt mi1 M tb1 (pg(page_key (V + k) \<mapsto> q))" "cur_page_entry mi1 = q" "avail (2 * n) (phys st1)"
      "pg (page_key (V + k)) = None \<or> pg (page_key (V + k)) = Some q" "\<forall>q \<in> ran pg. frames st1 q = frames st q"
    using k_proc_MapProcessAddress_ok [OF Suc.prems(2) av, of "word_of_nat ?a"] unfolding kk by blast
  let ?pg = "pg(page_key (V + k) \<mapsto> q)"
  obtain t where t: "window_on st1 pd pt (init_page mi1) q t"
    using current_page [OF 1(2), of "page_key (V + k)"] 1(3) by auto
  have al: "vaddr ph mod 4096 = 0" "?a + 4096 < 2 ^ 32"
  proof -
    have "4096 * k + 4096 \<le> 4096 * N" using kN by simp
    then show "?a + 4096 < 2 ^ 32" using v(2) by linarith
  qed (simp add: v(1))
  obtain t' where t': "fill_page img ph ?a (min (file_size ph) (4096 * k)) (init_page mi1) st1 =
      Some (vaddr ph + 4096 * (k + 1), min (file_size ph) (4096 * (k + 1)), st1\<lparr>frames := (frames st1)(q \<mapsto> t')\<rparr>)"
      "length t' = 1024" "frame_bytes t' = (if 4096 * k < file_size ph then segment_page img ph k else frame_bytes t)"
    using fill_page_ok [OF t al f] by blast
  let ?st2 = "st1\<lparr>frames := (frames st1)(q \<mapsto> t')\<rparr>"
  have l2: "loader_ok ?st2 pd pt mi1 M tb1 ?pg" by (rule page_write_loader [OF 1(2), of "page_key (V + k)"]) (use t'(2) in simp_all)
  have p2: "k + 1 + n = N" "avail (2 * n) (phys ?st2)" using Suc.prems(1) 1(4) by simp_all
  obtain mi' st' tb' pg' where ih: "segment_loop img ph ?e (vaddr ph + 4096 * (k + 1)) (min (file_size ph) (4096 * (k + 1))) mi1 ?st2 = Some (mi', st')"
      "loader_ok st' pd pt mi' M tb' pg'"
      "\<forall>j. k + 1 \<le> j \<longrightarrow> j < N \<longrightarrow> (\<exists>q t. pg' (page_key (V + j)) = Some q \<and> frames st' q = Some t \<and>
        (4096 * j < file_size ph \<longrightarrow> frame_bytes t = segment_page img ph j))"
      "\<forall>m q. ?pg (page_key m) = Some q \<longrightarrow> m < V + (k + 1) \<or> V + N \<le> m \<longrightarrow> pg' (page_key m) = Some q \<and> frames st' q = frames ?st2 q"
    using Suc.IH [OF p2(1) l2 p2(2)] by blast
  have run: "segment_loop img ph ?e ?a (min (file_size ph) (4096 * k)) mi st = Some (mi', st')"
    using segment_loop_step [OF a] 1(1) t'(1) ih(1) by simp
  have here: "pg' (page_key (V + k)) = Some q" "frames st' q = Some t'"
    using ih(4) [rule_format, of "V + k" q] by simp_all
  have js: "\<exists>q t. pg' (page_key (V + j)) = Some q \<and> frames st' q = Some t \<and>
      (4096 * j < file_size ph \<longrightarrow> frame_bytes t = segment_page img ph j)" if "k \<le> j" "j < N" for j
    using ih(3) here t'(3) that by (cases "j = k") auto
  have others: "pg' (page_key m) = Some x \<and> frames st' x = frames st x"
    if m: "pg (page_key m) = Some x" "m < V + k \<or> V + N \<le> m" for m x
  proof -
    have mk: "m \<noteq> V + k" using m(2) kN by auto
    then have pm: "?pg (page_key m) = Some x" using m(1) by (simp add: page_key_inj)
    have s: "space_ok st1 pd M tb1 ?pg" using 1(2) by (simp add: loader_ok_def)
    have "x \<noteq> q"
    proof
      assume "x = q"
      then have eq: "?pg (page_key m) = ?pg (page_key (V + k))" using pm by simp
      have "page_key m \<in> dom ?pg" using pm by (rule domI)
      moreover have "page_key (V + k) \<in> dom ?pg" by simp
      ultimately have "page_key m = page_key (V + k)" using eq by (intro inj_onD [OF space_okD(5) [OF s]])
      then show False using mk by (simp add: page_key_inj)
    qed
    moreover have "x \<in> ran pg" using m(1) by (rule ranI)
    ultimately show ?thesis using ih(4) [rule_format, OF pm] m(2) 1(6) by auto
  qed
  show ?case using run ih(2) js others
    by (intro exI [of _ mi'] exI [of _ st'] exI [of _ tb'] exI [of _ pg']) blast
qed

text \<open>A byte of the process, read through its own directory.\<close>

definition process_byte :: "mmu \<Rightarrow> nat \<Rightarrow> nat \<Rightarrow> u8 option" where
  "process_byte st M a = do {
     (p, off, t) \<leftarrow> vframe (st\<lparr>cr3 := M\<rparr>) (word_of_nat a);
     Some (frame_bytes t ! off)
   }"

lemma process_byte_space:
  assumes s: "space_ok st pd M tb pg" and a: "a < 2 ^ 32"
  shows "process_byte st M a = do {
     q \<leftarrow> pg (page_key (a div 4096));
     t \<leftarrow> frames st q;
     Some (frame_bytes t ! (a mod 4096))
   }"
proof -
  have u: "unat (word_of_nat a :: u32) = a" using a by (simp add: unat_of_nat)
  have m: "(0xfff :: u32) = mask 12" by (simp add: mask_eq_exp_minus_1)
  have off: "unat ((word_of_nat a :: u32) AND 0xfff) = a mod 4096"
    unfolding m take_bit_eq_mask [symmetric] unsigned_take_bit_eq u by (simp add: take_bit_eq_mod)
  have lo: "(word_of_nat a :: u32) AND 0xfff = word_of_nat (a mod 4096)"
    unfolding off [symmetric] of_nat_unat by (simp only: ucast_id)
  show ?thesis
  proof (cases "pg (page_key (a div 4096))")
    case None
    then show ?thesis using space_translate [OF s, of "word_of_nat a"] key_of_address [OF a]
      by (simp add: process_byte_def vframe_def)
  next
    case (Some q)
    have "page_aligned q" using space_okD(9) [OF s in_owned(3) [of pg, OF Some]] by simp
    then have pw: "(word_of_nat q :: u32) AND 0xfff = 0" "unat (word_of_nat q :: u32) = q"
      using page_word by (auto simp: page_aligned_def)
    have o: "a mod 4096 < 4096" by simp
    note o = aligned_or [OF pw(1) o]
    have t: "translate (st\<lparr>cr3 := M\<rparr>) (word_of_nat a) = Some (word_of_nat q OR word_of_nat (a mod 4096))"
      using space_translate [OF s, of "word_of_nat a"] key_of_address [OF a] Some lo by simp
    have "entry_addr (word_of_nat q OR word_of_nat (a mod 4096)) = q"
      using o pw(2) by (simp add: entry_addr_def)
    then show ?thesis using o t Some by (simp add: process_byte_def vframe_def)
  qed
qed

text \<open>What byte \<open>k\<close> of a segment has to be, in the pages that hold a part of the file.\<close>

definition segment_byte :: "bytes \<Rightarrow> k_proc_pheader_t \<Rightarrow> nat \<Rightarrow> u8" where
  "segment_byte img ph k = (if k < file_size ph then img ! (ph_offset ph + k) else 0)"

lemma segment_page_nth:
  assumes "ph_offset ph + file_size ph \<le> length img" "o' < 4096"
  shows "segment_page img ph j ! o' = segment_byte img ph (4096 * j + o')"
proof -
  have l: "length (segment_file img ph) = file_size ph" using assms(1) by (simp add: segment_file_def)
  have "segment_file img ph ! k = img ! (ph_offset ph + k)" if "k < file_size ph" for k
    using that assms(1) by (simp add: segment_file_def)
  then show ?thesis using assms(2) l
    by (auto simp: segment_page_def segment_byte_def nth_append)
qed

lemma load_segment_space:
  assumes l: "loader_ok st pd pt mi M tb pg"
    and ty: "ph_type ph = K_PROC_SEGMENT_TYPE_LOAD" and al: "vaddr ph mod 4096 = 0"
    and sz: "file_size ph \<le> mem_size ph" "vaddr ph + mem_size ph + 4096 \<le> 2 ^ 32"
    and im: "ph_offset ph + file_size ph \<le> length img"
    and av: "avail (2 * ((mem_size ph + 4095) div 4096)) (phys st)"
  shows "\<exists>mi' st' tb' pg'. load_segment img ph mi st = Some (mi', st') \<and> loader_ok st' pd pt mi' M tb' pg' \<and>
    (\<forall>j < (mem_size ph + 4095) div 4096. \<exists>q t. pg' (page_key (vaddr ph div 4096 + j)) = Some q \<and> frames st' q = Some t \<and>
      (4096 * j < file_size ph \<longrightarrow> frame_bytes t = segment_page img ph j)) \<and>
    (\<forall>m q. pg (page_key m) = Some q \<longrightarrow> m < vaddr ph div 4096 \<or> vaddr ph div 4096 + (mem_size ph + 4095) div 4096 \<le> m \<longrightarrow>
      pg' (page_key m) = Some q \<and> frames st' q = frames st q)"
proof -
  define V where "V = vaddr ph div 4096"
  define N where "N = (mem_size ph + 4095) div 4096"
  have v: "vaddr ph = 4096 * V" unfolding V_def by (metis al add.right_neutral mult_div_mod_eq)
  have n: "4096 * N < mem_size ph + 4096" "mem_size ph \<le> 4096 * N" unfolding N_def by linarith+
  have lim: "vaddr ph + 4096 * N < 2 ^ 32" using n(1) sz(2) by linarith
  have e: "(vaddr ph + mem_size ph) mod 2 ^ 32 = vaddr ph + mem_size ph" using n lim by simp
  have "load_segment img ph mi st = segment_loop img ph (vaddr ph + mem_size ph) (vaddr ph) 0 mi st"
    using ty v e by (simp add: load_segment_def Let_def mult.commute)
  moreover have "0 + N = N" "avail (2 * N) (phys st)" using av by (simp_all add: N_def)
  ultimately show ?thesis
    using segment_loop_ok [OF v lim n im, of 0 N st pd pt mi M tb pg] l unfolding V_def [symmetric] N_def [symmetric] by simp
qed

text \<open>
  C31: Loading a segment gives the process the segment. When the segment starts on a page boundary
  and a page range has two free pages for every page of it, \<open>k_proc_CreateProcess\<close>'s loop ends, the
  process reads every byte of the file's part at its address, reads zeros in the rest of the last page
  that holds a part of the file, has memory at all other addresses of the segment, and every byte that
  it could read outside the pages of the segment is what it was.
\<close>

theorem load_segment_ok:
  assumes "loader_ok st pd pt mi M tb pg"
    and "ph_type ph = K_PROC_SEGMENT_TYPE_LOAD" "vaddr ph mod 4096 = 0"
    and "file_size ph \<le> mem_size ph" "vaddr ph + mem_size ph + 4096 \<le> 2 ^ 32"
    and "ph_offset ph + file_size ph \<le> length img"
    and "avail (2 * ((mem_size ph + 4095) div 4096)) (phys st)"
  shows "\<exists>mi' st' tb' pg'. load_segment img ph mi st = Some (mi', st') \<and> loader_ok st' pd pt mi' M tb' pg' \<and>
    (\<forall>k < mem_size ph. process_byte st' M (vaddr ph + k) \<noteq> None) \<and>
    (\<forall>k < 4096 * ((file_size ph + 4095) div 4096). process_byte st' M (vaddr ph + k) = Some (segment_byte img ph k)) \<and>
    (\<forall>a < 2 ^ 32. a < vaddr ph \<or> vaddr ph + 4096 * ((mem_size ph + 4095) div 4096) \<le> a \<longrightarrow>
      process_byte st M a \<noteq> None \<longrightarrow> process_byte st' M a = process_byte st M a)"
proof -
  define V where "V = vaddr ph div 4096"
  define N where "N = (mem_size ph + 4095) div 4096"
  have v: "vaddr ph = 4096 * V" unfolding V_def by (metis assms(3) add.right_neutral mult_div_mod_eq)
  have n: "4096 * N < mem_size ph + 4096" "mem_size ph \<le> 4096 * N" unfolding N_def by linarith+
  have lim: "vaddr ph + 4096 * N < 2 ^ 32" using n(1) assms(5) by linarith
  obtain mi' st' tb' pg' where r: "load_segment img ph mi st = Some (mi', st')" and l: "loader_ok st' pd pt mi' M tb' pg'"
    and pages: "\<And>j. j < N \<Longrightarrow> \<exists>q t. pg' (page_key (V + j)) = Some q \<and> frames st' q = Some t \<and>
      (4096 * j < file_size ph \<longrightarrow> frame_bytes t = segment_page img ph j)"
    and rest: "\<And>m q. pg (page_key m) = Some q \<Longrightarrow> m < V \<or> V + N \<le> m \<Longrightarrow> pg' (page_key m) = Some q \<and> frames st' q = frames st q"
    using load_segment_space [OF assms] unfolding V_def [symmetric] N_def [symmetric] by blast
  have s: "space_ok st pd M tb pg" and s': "space_ok st' pd M tb' pg'" using assms(1) l by (simp_all add: loader_ok_def)
  note pb = process_byte_space [OF s] and pb' = process_byte_space [OF s']
  have at: "\<exists>t. process_byte st' M (vaddr ph + k) = Some (frame_bytes t ! (k mod 4096)) \<and>
      (4096 * (k div 4096) < file_size ph \<longrightarrow> frame_bytes t = segment_page img ph (k div 4096))" if k: "k < 4096 * N" for k
  proof -
    have "k div 4096 < N" using k by (simp add: less_mult_imp_div_less mult.commute)
    moreover have "(vaddr ph + k) div 4096 = V + k div 4096" "(vaddr ph + k) mod 4096 = k mod 4096" using v by simp_all
    moreover have "vaddr ph + k < 2 ^ 32" using k lim by linarith
    moreover obtain q t where "pg' (page_key (V + k div 4096)) = Some q" "frames st' q = Some t"
        "4096 * (k div 4096) < file_size ph \<longrightarrow> frame_bytes t = segment_page img ph (k div 4096)"
      using pages [OF calculation(1)] by blast
    ultimately show ?thesis using pb' [of "vaddr ph + k"] by (intro exI [of _ t]) simp
  qed
  have 1: "process_byte st' M (vaddr ph + k) \<noteq> None" if "k < mem_size ph" for k
    using at [of k] that n(2) by fastforce
  have 2: "process_byte st' M (vaddr ph + k) = Some (segment_byte img ph k)" if k: "k < 4096 * ((file_size ph + 4095) div 4096)" for k
  proof -
    have "k div 4096 < (file_size ph + 4095) div 4096" using k by (simp add: less_mult_imp_div_less mult.commute)
    moreover have "4096 * ((file_size ph + 4095) div 4096) \<le> file_size ph + 4095" by (rule times_div_less_eq_dividend)
    ultimately have f: "4096 * (k div 4096) < file_size ph" by linarith
    moreover have "(file_size ph + 4095) div 4096 \<le> N" unfolding N_def using assms(4) by (intro div_le_mono) simp
    then have "k < 4096 * N" using k by linarith
    moreover have "4096 * (k div 4096) + k mod 4096 = k" by simp
    ultimately show ?thesis using at [of k] segment_page_nth [OF assms(6), of "k mod 4096" "k div 4096"] by auto
  qed
  have 3: "process_byte st' M a = process_byte st M a"
    if a: "a < 2 ^ 32" "a < vaddr ph \<or> vaddr ph + 4096 * N \<le> a" "process_byte st M a \<noteq> None" for a
  proof -
    have o: "a div 4096 < V \<or> V + N \<le> a div 4096" using a(2) unfolding v by linarith
    obtain q where "pg (page_key (a div 4096)) = Some q" using a(3) pb [OF a(1)] by (cases "pg (page_key (a div 4096))") auto
    then show ?thesis using rest [OF _ o] pb [OF a(1)] pb' [OF a(1)] by simp
  qed
  show ?thesis using r l 1 2 3 unfolding N_def by blast
qed

text \<open>
  C32: Mapping one address of the process. With two free pages, \<open>k_proc_MapProcessAddress\<close> succeeds and
  changes the process's translation at the page of that address only: a page that was mapped keeps its
  page, a page that was not gets one. The kernel's window shows that page, and whatever bytes the process
  could read it still reads.
\<close>

theorem k_proc_MapProcessAddress_translate:
  assumes "loader_ok st pd pt mi M tb pg" "avail 2 (phys st)"
  shows "\<exists>mi' st' tb' pg' q. k_proc_MapProcessAddress mi la 0 st = Some (mi', st') \<and> loader_ok st' pd pt mi' M tb' pg' \<and>
    page_aligned q \<and> translate st' (init_page mi) = Some (word_of_nat q) \<and>
    (\<forall>lb. translate (st'\<lparr>cr3 := M\<rparr>) lb =
      (if same_page la lb then Some (word_of_nat q OR (lb AND 0xfff)) else translate (st\<lparr>cr3 := M\<rparr>) lb)) \<and>
    (translate (st\<lparr>cr3 := M\<rparr>) la \<noteq> None \<longrightarrow> translate (st'\<lparr>cr3 := M\<rparr>) la = translate (st\<lparr>cr3 := M\<rparr>) la) \<and>
    (\<forall>a < 2 ^ 32. process_byte st M a \<noteq> None \<longrightarrow> process_byte st' M a = process_byte st M a)"
proof -
  let ?k = "(K_MEM_PDIR_INDEX la, K_MEM_PTABLE_INDEX la)"
  have "avail (Suc (Suc 0)) (phys st)" using assms(2) by (simp add: numeral_2_eq_2)
  then obtain mi' st' tb' q where r: "k_proc_MapProcessAddress mi la 0 st = Some (mi', st')"
      "loader_ok st' pd pt mi' M tb' (pg(?k \<mapsto> q))" "cur_page_entry mi' = q" "init_page mi' = init_page mi"
      "pg ?k = None \<or> pg ?k = Some q" "\<forall>q \<in> ran pg. frames st' q = frames st q"
    using k_proc_MapProcessAddress_ok [OF assms(1)] by blast
  have s: "space_ok st pd M tb pg" and s': "space_ok st' pd M tb' (pg(?k \<mapsto> q))"
    using assms(1) r(2) by (simp_all add: loader_ok_def)
  have q: "page_aligned q" "0 < q" using space_okD(9) [OF s' in_owned(3) [of "pg(?k \<mapsto> q)" ?k]] by simp_all
  have w: "translate st' (init_page mi) = Some (word_of_nat q)"
    using r(2-4) q(2) by (simp add: loader_ok_def window_at_def)
  have t: "translate (st'\<lparr>cr3 := M\<rparr>) lb =
      (if same_page la lb then Some (word_of_nat q OR (lb AND 0xfff)) else translate (st\<lparr>cr3 := M\<rparr>) lb)" for lb
    unfolding space_translate [OF s] space_translate [OF s'] by (auto simp: same_page_def)
  have keep: "translate (st'\<lparr>cr3 := M\<rparr>) la = translate (st\<lparr>cr3 := M\<rparr>) la" if "translate (st\<lparr>cr3 := M\<rparr>) la \<noteq> None"
    using that r(5) unfolding space_translate [OF s] space_translate [OF s'] by auto
  have b: "process_byte st' M a = process_byte st M a" if a: "a < 2 ^ 32" "process_byte st M a \<noteq> None" for a
  proof -
    obtain x where x: "pg (page_key (a div 4096)) = Some x"
      using a(2) process_byte_space [OF s a(1)] by (cases "pg (page_key (a div 4096))") auto
    then have "(pg(?k \<mapsto> q)) (page_key (a div 4096)) = Some x" using r(5) by auto
    then show ?thesis
      using process_byte_space [OF s a(1)] process_byte_space [OF s' a(1)] x r(6) ranI [of pg, OF x] by simp
  qed
  show ?thesis using r(1,2) q(1) w t keep b by blast
qed

text \<open>The space that \<open>k_proc_CreateProcess\<close> opens: its own directory, with nothing in it.\<close>

lemma open_space_ok:
  assumes ok: "pmap_ok (kmmu k) pd pt" and a: "avail (Suc n) (phys (kmmu k))"
    and v: "k_mem_AllocVirtualRange 4096 (kvirt k) = Some (d, vl1)" "k_mem_AllocVirtualRange 4096 vl1 = Some (t, vl2)"
      "k_mem_AllocVirtualRange 4096 vl2 = Some (p, vl3)"
    and mi: "mi = \<lparr>page_dir = word_of_nat d, page_table = word_of_nat t, cur_page_table_entry = 0,
      init_page = word_of_nat p, cur_page_entry = 0\<rparr>"
    and w: "windows_ok pd mi" "translate (kmmu k) (page_dir mi) = None" "translate (kmmu k) (page_table mi) = None"
      "translate (kmmu k) (init_page mi) = None"
  shows "\<exists>M k'. open_space k = Some (M, mi, k') \<and> loader_ok (kmmu k') pd pt mi M Map.empty Map.empty \<and>
    avail n (phys (kmmu k')) \<and> (\<forall>la. translate ((kmmu k')\<lparr>cr3 := M\<rparr>) la = None)"
proof -
  let ?st = "kmmu k" and ?w = "page_dir mi"
  have pl: "prlist_ok (phys ?st)" using ok by (simp add: pmap_ok_def)
  obtain M r where M: "k_mem_AllocPhysicalPage 0 (phys ?st) = Some (M, r)" "prlist_ok r" "M \<in> free_set (phys ?st)"
      "free_set r \<subseteq> free_set (phys ?st) - {M}" "avail n r"
    using alloc_avail [OF pl a] by blast
  obtain t0 where f: "page_aligned M" "0 < M" "M \<notin> paging ?st pd" "frames ?st M = Some t0" "length t0 = 1024"
    using free_page_ok [OF ok M(3)] by blast
  let ?sA = "?st\<lparr>phys := r\<rparr>"
  have okA: "pmap_ok ?sA pd pt" using phys_upd [OF ok M(2)] M(4) by blast
  have wa: "window_addr pd ?w" "window_addr pd (page_table mi)" "window_addr pd (init_page mi)"
      "\<not> same_page ?w (page_table mi)" "\<not> same_page ?w (init_page mi)"
    using w(1) by (simp_all add: windows_ok_def)
  have pw: "(word_of_nat M :: u32) AND 0xfff = 0" using f(1) page_word by (auto simp: page_aligned_def)
  have nA: "translate ?sA ?w = None" using w(2) by simp
  obtain st1 where 1: "k_mem_MapLinearAddress ?sA ?w (word_of_nat M) 0x2 = Some (K_STATUS_OK, st1)" "pmap_ok st1 pd pt"
      "\<forall>lb. K_MEM_PDIR_INDEX lb < 1022 \<longrightarrow> translate st1 lb =
        (if same_page ?w lb then Some (word_of_nat M OR (lb AND 0xfff)) else translate ?sA lb)" "same_but_table ?sA st1 pd ?w"
    using map_window [OF okA wa(1) pw window_flags(3,4) nA] by blast
  note c = same_but_table_paging [OF wa(1) 1(4)]
  have pg: "paging ?sA pd = paging ?st pd" "paging st1 pd = paging ?st pd" using c by (simp_all add: paging_def)
  have M1: "frames st1 M = Some t0" using c f pg(1) by simp
  have tw: "translate st1 ?w = Some (word_of_nat M)"
    using 1(3) window_addr_index [OF wa(1)] wa(1) by (simp add: same_page_refl window_addr_def)
  have w1: "window_on st1 pd pt ?w M t0"
    using 1(2) wa(1) tw f M1 pg(2) by (simp add: window_on_def)
  define st2 where "st2 = st1\<lparr>frames := (frames st1)(M \<mapsto> replicate 1024 0)\<rparr>"
  have clr: "clear_entries 1024 ?w st1 = Some st2" using clear_entries_page [OF w1] by (simp add: st2_def)
  have w2: "window_on st2 pd pt ?w M (replicate 1024 0)" using window_on_upd [OF w1] by (simp add: st2_def)
  have ph: "phys st2 = r" using c by (simp add: st2_def)
  have s2: "space_ok st2 pd M Map.empty Map.empty"
    using w2 f(2) M(4) ph by (auto simp: space_ok_def window_on_def owned_def proc_entry_simps(1))
  have M1p: "M \<notin> paging st1 pd" using f(3) pg(2) by simp
  have other: "translate st2 lb = translate ?st lb" if "window_addr pd lb" "\<not> same_page ?w lb" for lb
    using translate_frame_upd [OF 1(2) M1p _ window_addr_index [OF that(1)], of "replicate 1024 0"] that(2) 1(3)
      window_addr_index [OF that(1)] by (simp add: st2_def)
  have l2: "loader_ok st2 pd pt mi M Map.empty Map.empty"
    using w2 s2 w other wa mi by (simp add: loader_ok_def window_on_def window_at_def)
  have "open_space k = Some (M, mi, k\<lparr>kvirt := vl3, kmmu := st2\<rparr>)"
    using M(1) v 1(1) clr mi by (simp add: open_space_def)
  moreover have "translate (st2\<lparr>cr3 := M\<rparr>) la = None" for la using space_translate [OF s2] by simp
  ultimately show ?thesis using l2 M(5) ph by (intro exI [of _ M] exI [of _ "k\<lparr>kvirt := vl3, kmmu := st2\<rparr>"]) simp
qed

section \<open>An instance\<close>

text \<open>A kernel whose entry 3 of the directory has a page table, with the directory of an empty space in its first window.\<close>

definition loader_pd :: "u32 list" where
  "loader_pd = sample_pd[3 := 0x4203]"

definition loader_pt :: "u32 list" where
  "loader_pt = sample_pt[3 := 0x4203]"

definition loader_mmu :: mmu where
  "loader_mmu = \<lparr>cr3 = 0x1000,
     frames = [0x1000 \<mapsto> loader_pd, 0x2000 \<mapsto> loader_pt, 0x4000 \<mapsto> (replicate 1024 0)[0 := 0x5203], 0x5000 \<mapsto> replicate 1024 0,
       0x100000 \<mapsto> replicate 1024 0, 0x102000 \<mapsto> replicate 1024 0],
     phys = [sample_range]\<rparr>"

definition loader_init :: k_proc_process_mem_init_t where
  "loader_init = \<lparr>page_dir = 0xC00000, page_table = 0xC01000, cur_page_table_entry = 0, init_page = 0xC02000, cur_page_entry = 0\<rparr>"

lemma loader_mmu_ok: "pmap_ok loader_mmu loader_pd loader_pt"
proof -
  have a: "entry_addr 0x2203 = 0x2000" "entry_addr 0x1203 = 0x1000" "entry_addr 0x4203 = 0x4000"
    by (simp_all add: entry_addr_div)
  have b: "entry_present 0x2203" "entry_present 0x1203" "entry_big 0x400283" "entry_ok 0x400283" "entry_ok 0x4203"
      "entry_ok 0x5203" "entry_used 0x4203" "\<not> entry_big 0x4203" "entry_present 0x4203"
    by (simp_all add: entry_bits entry_ok_def)
  have n: "loader_pd ! i = (if i = 3 then 0x4203 else sample_pd ! i)" if "i < 1024" for i
    using that by (simp add: loader_pd_def nth_list_update)
  have t: "tables loader_pd = {3}" using b n by (auto simp: tables_def split: if_splits)
  have p: "loader_pt ! 1023 = 0x1203" "loader_pt ! 1022 = 0x2203" "loader_pt ! 3 = 0x4203" by (simp_all add: loader_pt_def sample_pt_def)
  have l: "length loader_pd = 1024" "length loader_pt = 1024" by (simp_all add: loader_pd_def loader_pt_def)
  have "entry_ok e" if "e \<in> set ((replicate 1024 0)[0 := 0x5203])" for e
    using that b set_update_subset_insert [of "replicate 1024 (0 :: u32)" 0 "0x5203"] by auto
  then have tb: "table_ok loader_mmu loader_pd loader_pt 3"
    using a b n p by (simp add: table_ok_def loader_mmu_def)
  have "fresh_page loader_mmu loader_pd q" if "q \<in> {0x100000, 0x102000}" for q
    using that a t n by (auto simp: fresh_page_def loader_mmu_def)
  moreover have "\<forall>i < 1022. entry_ok (loader_pd ! i)" using b n by auto
  ultimately show ?thesis
    using a b t p n l tb sample_range_ok sample_free
    by (simp add: pmap_ok_def loader_mmu_def)
qed

lemma loader_windows:
  "K_MEM_PDIR_INDEX 0xC00000 = 3" "K_MEM_PDIR_INDEX 0xC01000 = 3" "K_MEM_PDIR_INDEX 0xC02000 = 3"
  "K_MEM_PTABLE_INDEX 0xC00000 = 0" "K_MEM_PTABLE_INDEX 0xC01000 = 1" "K_MEM_PTABLE_INDEX 0xC02000 = 2"
  by (simp_all add: K_MEM_PDIR_INDEX_def K_MEM_PTABLE_INDEX_def)

lemma loader_init_ok: "loader_ok loader_mmu loader_pd loader_pt loader_init 0x5000 Map.empty Map.empty"
proof -
  have d: "loader_pd ! 3 = 0x4203" "loader_pd ! 1023 = 0x2203" by (simp_all add: loader_pd_def)
  have b: "entry_used 0x4203" "\<not> entry_big 0x4203" "entry_present 0x4203" "entry_present 0x5203" "entry_big 0x400283"
    by (simp_all add: entry_bits)
  have a: "entry_addr 0x4203 = 0x4000" "entry_addr 0x2203 = 0x2000" by (simp_all add: entry_addr_div)
  have i: "i \<in> tables loader_pd \<Longrightarrow> i = 3" for i
    using b by (auto simp: tables_def loader_pd_def nth_list_update split: if_splits)
  have t3: "3 \<in> tables loader_pd" using b d by (simp add: tables_def)
  have ts: "tables loader_pd = {3}" using i t3 by blast
  have "cr3 loader_mmu = 0x1000" by (simp add: loader_mmu_def)
  then have p: "paging loader_mmu loader_pd = {0x1000, 0x2000, 0x4000}"
    unfolding paging_def ts by (auto simp: a d)
  have fr: "frames loader_mmu 0x4000 = Some ((replicate 1024 0)[0 := 0x5203])" "phys loader_mmu = [sample_range]"
      "frames loader_mmu 0x5000 = Some (replicate 1024 0)"
    by (simp_all add: loader_mmu_def)
  have s: "space_ok loader_mmu loader_pd 0x5000 Map.empty Map.empty"
    using p fr by (simp add: space_ok_def owned_def proc_entry_simps(1) page_aligned_def sample_free)
  have tr: "translate loader_mmu 0xC00000 = Some 0x5000" "translate loader_mmu 0xC01000 = None" "translate loader_mmu 0xC02000 = None"
    unfolding translate_dir [OF loader_mmu_ok]
    using b fr a d by (simp_all add: loader_windows Let_def rd_def)
  show ?thesis
    using loader_mmu_ok s tr t3
    by (simp add: loader_ok_def windows_ok_def loader_init_def window_addr_def window_at_def loader_windows forbidden_def same_page_def)
qed

definition sample_image :: bytes where
  "sample_image = [127, 69, 76, 70, 0x90, 0xc3]"

definition sample_segment :: k_proc_pheader_t where
  "sample_segment = \<lparr>ph_type = 1, ph_offset = 4, vaddr = 0x8048000, file_size = 2, mem_size = 6\<rparr>"

lemma sample_avail: "avail 2 (phys loader_mmu)"
  by (simp add: avail_def loader_mmu_def sample_range_def free_stack_def)

theorem load_segment_ok_witness:
  "\<exists>mi' st'. load_segment sample_image sample_segment loader_init loader_mmu = Some (mi', st') \<and>
     process_byte st' 0x5000 0x8048000 = Some 0x90 \<and> process_byte st' 0x5000 0x8048001 = Some 0xc3 \<and>
     process_byte st' 0x5000 0x8048fff = Some 0"
proof -
  have m: "file_size sample_segment = 2" "mem_size sample_segment = 6" "vaddr sample_segment = 0x8048000"
      "ph_offset sample_segment = 4" "ph_type sample_segment = K_PROC_SEGMENT_TYPE_LOAD" "length sample_image = 6"
    by (simp_all add: sample_segment_def sample_image_def K_PROC_SEGMENT_TYPE_LOAD_def)
  obtain mi' st' where r: "load_segment sample_image sample_segment loader_init loader_mmu = Some (mi', st')"
    and b: "\<forall>k < 4096. process_byte st' 0x5000 (0x8048000 + k) = Some (segment_byte sample_image sample_segment k)"
    using load_segment_ok [OF loader_init_ok, of sample_segment sample_image] m sample_avail by auto
  have "segment_byte sample_image sample_segment 0 = 0x90" "segment_byte sample_image sample_segment 1 = 0xc3"
      "segment_byte sample_image sample_segment 4095 = 0"
    by (simp_all add: segment_byte_def m) (simp_all add: sample_image_def)
  then show ?thesis using r b [rule_format, of 0] b [rule_format, of 1] b [rule_format, of 4095] by simp
qed

theorem k_proc_MapProcessAddress_translate_witness:
  "\<exists>mi' st' q. k_proc_MapProcessAddress loader_init 0x8048000 0 loader_mmu = Some (mi', st') \<and>
     translate (st'\<lparr>cr3 := 0x5000\<rparr>) 0x8048123 = Some (word_of_nat q OR 0x123) \<and>
     translate st' 0xC02000 = Some (word_of_nat q)"
proof -
  have p: "same_page 0x8048000 0x8048123" by (simp add: same_page_def K_MEM_PDIR_INDEX_def K_MEM_PTABLE_INDEX_def)
  have i: "init_page loader_init = 0xC02000" by (simp add: loader_init_def)
  show ?thesis
    using k_proc_MapProcessAddress_translate [OF loader_init_ok sample_avail, of "0x8048000"] p unfolding i by fastforce
qed

end
