(* ===== verification/Rt_Pool.thy ===== *)
theory Rt_Pool
  imports Prelude
begin

text \<open>
  Object pools: \<open>rt/pool.c\<close>. Pages and nodes are addresses, 0 is NULL. A page is 4096 bytes with a
  header of 24; the node of an object is the word at \<open>node_offset\<close> in it, which links the free objects
  of a page and names the page of an object in use. What \<open>k_rt_Malloc\<close> returns is an argument; the
  memory behind it holds what it held, so that the fields that are not set read as that.
\<close>

definition K_RT_POOL_PAGE_SIZE :: nat where "K_RT_POOL_PAGE_SIZE = 4096"
definition K_RT_POOL_PAGE_HEADER :: nat where "K_RT_POOL_PAGE_HEADER = 24"

record k_rt_pool_page_t =
  pp_next :: nat
  pp_prev :: nat
  pp_next_free :: nat
  pp_index :: nat
  pp_used_count :: nat

record k_rt_pool_t =
  first_page :: nat
  last_page :: nat
  cur_page :: nat
  freeable_pages :: nat
  next_page_index :: nat
  obj_size :: nat
  node_offset :: nat
  obj_align :: nat

record pool_mem =
  pool_page :: "nat \<Rightarrow> k_rt_pool_page_t"
  node_at :: "nat \<Rightarrow> nat"
  pool_freed :: "nat list"

definition k_rt_pool_Create :: "nat \<Rightarrow> nat \<Rightarrow> nat \<Rightarrow> k_rt_pool_t" where
  "k_rt_pool_Create node_off sz align = \<lparr>first_page = 0, last_page = 0, cur_page = 0, freeable_pages = 0,
     next_page_index = 0, obj_size = sz, node_offset = node_off, obj_align = align\<rparr>"

text \<open>A store through a page pointer faults on NULL.\<close>

definition upd_pool_page :: "nat \<Rightarrow> (k_rt_pool_page_t \<Rightarrow> k_rt_pool_page_t) \<Rightarrow> pool_mem \<Rightarrow> pool_mem option" where
  "upd_pool_page p f m = (if p = 0 then None else Some (m\<lparr>pool_page := (pool_page m)(p := f (pool_page m p))\<rparr>))"

fun link_nodes :: "nat \<Rightarrow> nat \<Rightarrow> nat \<Rightarrow> pool_mem \<Rightarrow> pool_mem" where
  "link_nodes sz 0 cur_node m = m"
| "link_nodes sz (Suc n) cur_node m = link_nodes sz n (cur_node + sz) (m\<lparr>node_at := (node_at m)(cur_node := cur_node + sz)\<rparr>)"

text \<open>The address of the first entry of the page \<open>a\<close> and the number of entries it is taken to have.\<close>

definition entries_block :: "nat \<Rightarrow> nat \<Rightarrow> nat" where
  "entries_block align a =
     (let b = a + K_RT_POOL_PAGE_HEADER; r = b mod align in if r \<noteq> 0 then b + (align - r) else b)"

definition entry_count :: "nat \<Rightarrow> nat \<Rightarrow> nat \<Rightarrow> nat" where
  "entry_count align sz a = sub32 (K_RT_POOL_PAGE_SIZE - K_RT_POOL_PAGE_HEADER) ((a + K_RT_POOL_PAGE_HEADER) mod align) div sz"

definition init_pool_page :: "k_rt_pool_t \<Rightarrow> nat \<Rightarrow> pool_mem \<Rightarrow> pool_mem option" where
  "init_pool_page pool a m =
     (if obj_align pool = 0 \<or> obj_size pool = 0 then None
      else do {
        let cur_node = entries_block (obj_align pool) a + node_offset pool;
        m \<leftarrow> upd_pool_page a (\<lambda>p. p\<lparr>pp_next_free := cur_node\<rparr>) m;
        Some (link_nodes (obj_size pool) (sub32 (entry_count (obj_align pool) (obj_size pool) a) 1) cur_node m)
      })"

text \<open>The page that \<open>k_rt_pool_AllocObj\<close> allocates from, when it is not the current one.\<close>

definition next_pool_page :: "nat \<Rightarrow> k_rt_pool_t \<Rightarrow> pool_mem \<Rightarrow> (k_rt_pool_t \<times> pool_mem) option" where
  "next_pool_page a pool m = do {
     (p, pool, m) \<leftarrow> (if freeable_pages pool \<noteq> 0 then do {
         let p = freeable_pages pool;
         let pool = pool\<lparr>freeable_pages := pp_next (pool_page m p)\<rparr>;
         m \<leftarrow> upd_pool_page p (\<lambda>x. x\<lparr>pp_next := 0, pp_prev := 0\<rparr>) m;
         Some (p, pool, m)
       }
       else do { m \<leftarrow> init_pool_page pool a m; Some (a, pool, m) });
     let pool = pool\<lparr>cur_page := p\<rparr>;
     (pool, m) \<leftarrow> (if first_page pool = 0 then Some (pool\<lparr>first_page := p\<rparr>, m)
       else do {
         m \<leftarrow> upd_pool_page (last_page pool) (\<lambda>x. x\<lparr>pp_next := p\<rparr>) m;
         m \<leftarrow> upd_pool_page p (\<lambda>x. x\<lparr>pp_prev := last_page pool\<rparr>) m;
         Some (pool, m)
       });
     m \<leftarrow> upd_pool_page p (\<lambda>x. x\<lparr>pp_index := next_page_index pool\<rparr>) m;
     Some (pool\<lparr>last_page := p, next_page_index := (next_page_index pool + 1) mod 2 ^ 32\<rparr>, m)
   }"

text \<open>\<open>k_rt_SetBytes\<close> on an object, as far as the nodes are concerned.\<close>

definition clear_obj :: "nat \<Rightarrow> nat \<Rightarrow> (nat \<Rightarrow> nat) \<Rightarrow> nat \<Rightarrow> nat" where
  "clear_obj obj sz f x = (if obj \<le> x \<and> x < obj + sz then 0 else f x)"

definition take_node :: "k_rt_pool_t \<Rightarrow> pool_mem \<Rightarrow> (nat \<times> pool_mem) option" where
  "take_node pool m = do {
     let node = pp_next_free (pool_page m (cur_page pool));
     let obj = node - node_offset pool;
     m \<leftarrow> (if node = 0 then None
       else upd_pool_page (cur_page pool) (\<lambda>x. x\<lparr>pp_next_free := node_at m node, pp_used_count := (pp_used_count x + 1) mod 2 ^ 32\<rparr>) m);
     let m = m\<lparr>node_at := clear_obj obj (obj_size pool) (node_at m)\<rparr>;
     Some (obj, m\<lparr>node_at := (node_at m)(node := cur_page pool)\<rparr>)
   }"

definition k_rt_pool_AllocObj :: "nat \<Rightarrow> k_rt_pool_t option \<Rightarrow> pool_mem \<Rightarrow> (nat \<times> k_rt_pool_t option \<times> pool_mem) option" where
  "k_rt_pool_AllocObj a pool m = (case pool of
      None \<Rightarrow> Some (0, None, m)
    | Some pool \<Rightarrow> do {
        (pool, m) \<leftarrow> (if cur_page pool = 0 then next_pool_page a pool m else Some (pool, m));
        (obj, m) \<leftarrow> take_node pool m;
        Some (obj, Some pool, m)
      })"

text \<open>An empty page that is not the current one leaves the list of pages for the freeable ones.\<close>

definition unlink_pool_page :: "nat \<Rightarrow> k_rt_pool_t \<Rightarrow> pool_mem \<Rightarrow> (k_rt_pool_t \<times> pool_mem) option" where
  "unlink_pool_page page pool m = do {
     (pool, m) \<leftarrow> (if page = first_page pool then Some (pool\<lparr>first_page := pp_next (pool_page m page)\<rparr>, m)
       else do {
         m \<leftarrow> upd_pool_page (pp_prev (pool_page m page)) (\<lambda>x. x\<lparr>pp_next := pp_next (pool_page m page)\<rparr>) m;
         Some (pool, m)
       });
     (pool, m) \<leftarrow> (if page = last_page pool then Some (pool\<lparr>last_page := pp_prev (pool_page m page)\<rparr>, m)
       else do {
         m \<leftarrow> upd_pool_page (pp_next (pool_page m page)) (\<lambda>x. x\<lparr>pp_prev := pp_prev (pool_page m page)\<rparr>) m;
         Some (pool, m)
       });
     m \<leftarrow> upd_pool_page page (\<lambda>x. x\<lparr>pp_prev := 0, pp_next := freeable_pages pool\<rparr>) m;
     Some (pool\<lparr>freeable_pages := page\<rparr>, m)
   }"

definition k_rt_pool_FreeObj :: "k_rt_pool_t option \<Rightarrow> nat \<Rightarrow> pool_mem \<Rightarrow> (k_rt_pool_t option \<times> pool_mem) option" where
  "k_rt_pool_FreeObj pool obj m = (case pool of
      None \<Rightarrow> Some (None, m)
    | Some pool \<Rightarrow>
        if obj = 0 then Some (Some pool, m)
        else do {
          let node = obj + node_offset pool;
          let page = node_at m node;
          let m = m\<lparr>node_at := (node_at m)(node := pp_next_free (pool_page m page))\<rparr>;
          m \<leftarrow> upd_pool_page page (\<lambda>x. x\<lparr>pp_next_free := node, pp_used_count := sub32 (pp_used_count x) 1\<rparr>) m;
          (pool, m) \<leftarrow> (if cur_page pool = 0 \<or> pp_index (pool_page m page) < pp_index (pool_page m (cur_page pool))
            then Some (pool\<lparr>cur_page := page\<rparr>, m)
            else if pp_used_count (pool_page m page) = 0 then unlink_pool_page page pool m
            else Some (pool, m));
          Some (Some pool, m)
        })"

text \<open>The two loops that give pages back to the heap.\<close>

partial_function (option) free_pool_pages :: "nat \<Rightarrow> pool_mem \<Rightarrow> pool_mem option" where
  "free_pool_pages p m =
     (if p = 0 then Some m else free_pool_pages (pp_next (pool_page m p)) (m\<lparr>pool_freed := pool_freed m @ [p]\<rparr>))"

definition k_rt_pool_FreeUnusedPages :: "k_rt_pool_t option \<Rightarrow> pool_mem \<Rightarrow> (k_rt_pool_t option \<times> pool_mem) option" where
  "k_rt_pool_FreeUnusedPages pool m = (case pool of
      None \<Rightarrow> Some (None, m)
    | Some pool \<Rightarrow> do { m \<leftarrow> free_pool_pages (freeable_pages pool) m; Some (Some (pool\<lparr>freeable_pages := 0\<rparr>), m) })"

definition k_rt_pool_Destroy :: "k_rt_pool_t option \<Rightarrow> pool_mem \<Rightarrow> (k_rt_pool_t option \<times> pool_mem) option" where
  "k_rt_pool_Destroy pool m = (case pool of
      None \<Rightarrow> Some (None, m)
    | Some _ \<Rightarrow> do {
        (pool, m) \<leftarrow> k_rt_pool_FreeUnusedPages pool m;
        pool \<leftarrow> pool;
        m \<leftarrow> free_pool_pages (first_page pool) m;
        Some (Some (pool\<lparr>first_page := 0\<rparr>), m)
      })"

section \<open>Objects of a page\<close>

lemma link_nodes_page [simp]: "pool_page (link_nodes sz n c m) = pool_page m"
  by (induction n arbitrary: c m) simp_all

lemma link_nodes_before: "x < c \<Longrightarrow> node_at (link_nodes sz n c m) x = node_at m x"
  by (induction n arbitrary: c m) simp_all

lemma link_nodes_at:
  "0 < sz \<Longrightarrow> i < n \<Longrightarrow> node_at (link_nodes sz n c m) (c + i * sz) = c + (i + 1) * sz"
proof (induction n arbitrary: c i m)
  case (Suc n)
  let ?m = "m\<lparr>node_at := (node_at m)(c := c + sz)\<rparr>"
  show ?case
  proof (cases i)
    case 0
    then show ?thesis using link_nodes_before [of c "c + sz" sz n ?m] Suc.prems(1) by simp
  next
    case (Suc j)
    then show ?thesis using Suc.IH [of j "c + sz" ?m] Suc.prems by (simp add: algebra_simps)
  qed
qed simp

text \<open>\<open>k\<close> of the \<open>n\<close> objects of the page \<open>a\<close>, whose entries start at \<open>b\<close>, have been handed out.\<close>

definition pool_inv :: "nat \<Rightarrow> nat \<Rightarrow> nat \<Rightarrow> nat \<Rightarrow> k_rt_pool_t \<Rightarrow> pool_mem \<Rightarrow> bool" where
  "pool_inv a b n k pool m \<longleftrightarrow> cur_page pool = a \<and> 0 < a \<and> 0 < b \<and> node_offset pool < obj_size pool \<and>
     (k < n \<longrightarrow> pp_next_free (pool_page m a) = b + k * obj_size pool + node_offset pool) \<and>
     (\<forall>i. k \<le> i \<longrightarrow> i + 1 < n \<longrightarrow>
        node_at m (b + i * obj_size pool + node_offset pool) = b + (i + 1) * obj_size pool + node_offset pool)"

lemma take_node_inv:
  assumes inv: "pool_inv a b n k pool m" and k: "k < n"
  shows "\<exists>m'. take_node pool m = Some (b + k * obj_size pool, m') \<and> pool_inv a b n (k + 1) pool m'"
proof -
  let ?sz = "obj_size pool" and ?off = "node_offset pool"
  let ?o = "b + k * ?sz" and ?nd = "b + k * ?sz + ?off"
  have i: "cur_page pool = a" "0 < a" "0 < b" "?off < ?sz" "pp_next_free (pool_page m a) = ?nd"
      "\<And>i. k \<le> i \<Longrightarrow> i + 1 < n \<Longrightarrow> node_at m (b + i * ?sz + ?off) = b + (i + 1) * ?sz + ?off"
    using inv k by (auto simp: pool_inv_def)
  let ?p = "(pool_page m a)\<lparr>pp_next_free := node_at m ?nd, pp_used_count := (pp_used_count (pool_page m a) + 1) mod 2 ^ 32\<rparr>"
  let ?m = "m\<lparr>pool_page := (pool_page m)(a := ?p), node_at := (clear_obj ?o ?sz (node_at m))(?nd := a)\<rparr>"
  have "take_node pool m = Some (?o, ?m)"
    using i by (simp add: take_node_def upd_pool_page_def Let_def)
  moreover have "pool_inv a b n (k + 1) pool ?m"
  proof -
    have "node_at ?m (b + j * ?sz + ?off) = b + (j + 1) * ?sz + ?off" if j: "k + 1 \<le> j" "j + 1 < n" for j
    proof -
      have "(k + 1) * ?sz \<le> j * ?sz" using j(1) by (rule mult_le_mono1)
      then have "?o + ?sz \<le> b + j * ?sz + ?off" by simp
      moreover have "b + j * ?sz + ?off \<noteq> ?nd" using calculation i(4) by linarith
      ultimately show ?thesis using i(6) [of j] j by (simp add: clear_obj_def)
    qed
    moreover have "k + 1 < n \<Longrightarrow> pp_next_free (pool_page ?m a) = b + (k + 1) * ?sz + ?off" using i(6) [of k] by simp
    ultimately show ?thesis using i(1-4) unfolding pool_inv_def by simp
  qed
  ultimately show ?thesis by (intro exI [of _ ?m]) simp
qed

fun alloc_objs :: "nat \<Rightarrow> nat \<Rightarrow> k_rt_pool_t option \<Rightarrow> pool_mem \<Rightarrow> (nat list \<times> k_rt_pool_t option \<times> pool_mem) option" where
  "alloc_objs a 0 pool m = Some ([], pool, m)"
| "alloc_objs a (Suc k) pool m = do {
     (obj, pool, m) \<leftarrow> k_rt_pool_AllocObj a pool m;
     (objs, pool, m) \<leftarrow> alloc_objs a k pool m;
     Some (obj # objs, pool, m)
   }"

lemma alloc_objs_inv:
  "pool_inv a b n k pool m \<Longrightarrow> k + j \<le> n \<Longrightarrow>
   \<exists>m'. alloc_objs c j (Some pool) m = Some (map (\<lambda>i. b + i * obj_size pool) [k..<k + j], Some pool, m')"
proof (induction j arbitrary: k m)
  case (Suc j)
  obtain m1 where 1: "take_node pool m = Some (b + k * obj_size pool, m1)" "pool_inv a b n (k + 1) pool m1"
    using take_node_inv [OF Suc.prems(1)] Suc.prems(2) by auto
  have c: "cur_page pool \<noteq> 0" using Suc.prems(1) by (simp add: pool_inv_def)
  obtain m' where "alloc_objs c j (Some pool) m1 = Some (map (\<lambda>i. b + i * obj_size pool) [k + 1..<k + 1 + j], Some pool, m')"
    using Suc.IH [OF 1(2)] Suc.prems(2) by auto
  moreover have "[k..<k + Suc j] = k # [k + 1..<k + 1 + j]" by (simp add: upt_conv_Cons del: upt_Suc)
  ultimately show ?case using 1(1) c by (simp add: k_rt_pool_AllocObj_def del: upt_Suc)
qed simp

lemma next_pool_page_new:
  assumes "pool = k_rt_pool_Create off sz al" "off < sz" "0 < al" "0 < a" "n = entry_count al sz a" "0 < n"
  shows "\<exists>pool' m'. next_pool_page a pool m = Some (pool', m') \<and> pool_inv a (entries_block al a) n 0 pool' m' \<and> obj_size pool' = sz"
proof -
  have b: "0 < entries_block al a" by (simp add: entries_block_def Let_def K_RT_POOL_PAGE_HEADER_def)
  have s: "sub32 n 1 = n - 1 \<or> 2 ^ 32 \<le> n" using assms(6) by (auto simp: sub32_le)
  have n32: "n < 2 ^ 32"
  proof -
    have "n \<le> sub32 (K_RT_POOL_PAGE_SIZE - K_RT_POOL_PAGE_HEADER) ((a + K_RT_POOL_PAGE_HEADER) mod al)"
      unfolding assms(5) entry_count_def by (rule div_le_dividend)
    also have "\<dots> < 2 ^ 32" by (simp add: sub32_def)
    finally show ?thesis .
  qed
  let ?b = "entries_block al a"
  define m1 where "m1 = m\<lparr>pool_page := (pool_page m)(a := (pool_page m a)\<lparr>pp_next_free := ?b + off\<rparr>)\<rparr>"
  define m2 where "m2 = link_nodes sz (n - 1) (?b + off) m1"
  define m3 where "m3 = m2\<lparr>pool_page := (pool_page m2)(a := (pool_page m2 a)\<lparr>pp_index := 0\<rparr>)\<rparr>"
  have "next_pool_page a pool m = Some (pool\<lparr>cur_page := a, first_page := a, last_page := a, next_page_index := 1\<rparr>, m3)"
    using assms s n32 by (simp add: next_pool_page_def init_pool_page_def k_rt_pool_Create_def upd_pool_page_def Let_def
      m1_def m2_def m3_def)
  moreover have "pool_inv a ?b n 0 (pool\<lparr>cur_page := a, first_page := a, last_page := a, next_page_index := 1\<rparr>) m3"
  proof -
    have "node_at m3 (?b + i * sz + off) = ?b + (i + 1) * sz + off" if "i + 1 < n" for i
      using link_nodes_at [of sz i "n - 1" "?b + off" m1] that assms(2) by (simp add: m3_def m2_def algebra_simps)
    then show ?thesis using assms b by (simp add: pool_inv_def k_rt_pool_Create_def m3_def m2_def m1_def)
  qed
  ultimately show ?thesis using assms(1) by (simp add: k_rt_pool_Create_def)
qed

lemma entries_in_page:
  assumes "0 < al" "al \<le> 2048" "0 < sz" "(a + 24) mod al = 0 \<or> al \<le> 2 * ((a + 24) mod al)"
  shows "al dvd entries_block al a" "a + 24 \<le> entries_block al a" "entries_block al a + entry_count al sz a * sz \<le> a + 4096"
proof -
  define r where "r = (a + 24) mod al"
  have r: "r < al" using assms(1) by (simp add: r_def)
  have b: "entries_block al a = (if r \<noteq> 0 then a + 24 + (al - r) else a + 24)"
    by (simp add: entries_block_def K_RT_POOL_PAGE_HEADER_def r_def Let_def)
  have "a + 24 + (al - r) = (a + 24 - r) + al" using r r_def by (simp add: mod_le_divisor)
  moreover have "al dvd a + 24 - r" unfolding r_def by (rule dvd_minus_mod)
  ultimately have "al dvd a + 24 + (al - r)" by simp
  moreover have "r = 0 \<Longrightarrow> al dvd a + 24" by (auto simp: r_def)
  ultimately show "al dvd entries_block al a" unfolding b by simp
  show "a + 24 \<le> entries_block al a" unfolding b by simp
  have n: "entry_count al sz a = (4072 - r) div sz"
    using r assms(2) by (simp add: entry_count_def K_RT_POOL_PAGE_SIZE_def K_RT_POOL_PAGE_HEADER_def r_def [symmetric] sub32_le)
  define q where "q = (4072 - r) div sz * sz"
  have "q \<le> 4072 - r" unfolding q_def by (rule div_times_less_eq_dividend)
  moreover have "r \<noteq> 0 \<Longrightarrow> al - r \<le> r" using assms(4) unfolding r_def by linarith
  ultimately show "entries_block al a + entry_count al sz a * sz \<le> a + 4096"
    unfolding n b q_def [symmetric] using r assms(2) by (cases "r = 0") simp_all
qed

text \<open>
  C37: The objects of a pool. From an empty pool, as many allocations as the first page has entries give
  objects inside the page, behind its header, aligned and pairwise disjoint. The page's padding has to be at
  most what \<open>k_rt_pool_AllocObj\<close> takes off the size for it, which is the misalignment and not the padding.
\<close>

theorem k_rt_pool_AllocObj_carves:
  assumes "0 < a" "0 < al" "al \<le> 2048" "al dvd sz" "off + 4 \<le> sz" "(a + 24) mod al = 0 \<or> al \<le> 2 * ((a + 24) mod al)"
    and "k \<le> entry_count al sz a"
  shows "\<exists>objs pool' m'. alloc_objs a k (Some (k_rt_pool_Create off sz al)) m = Some (objs, pool', m') \<and> length objs = k \<and>
    (\<forall>x \<in> set objs. al dvd x \<and> a + 24 \<le> x \<and> x + sz \<le> a + 4096) \<and>
    (\<forall>i j. i < j \<longrightarrow> j < k \<longrightarrow> objs ! i + sz \<le> objs ! j)"
proof (cases k)
  case (Suc k')
  let ?n = "entry_count al sz a" and ?b = "entries_block al a"
  have sz: "0 < sz" "off < sz" using assms(5) by simp_all
  have n: "0 < ?n" "k \<le> ?n" using assms(7) Suc by simp_all
  note e = entries_in_page [OF assms(2,3) sz(1) assms(6)]
  obtain pool1 m1 where 1: "next_pool_page a (k_rt_pool_Create off sz al) m = Some (pool1, m1)" "pool_inv a ?b ?n 0 pool1 m1" "obj_size pool1 = sz"
    using next_pool_page_new [OF refl sz(2) assms(2,1) refl n(1)] by blast
  have c: "cur_page pool1 \<noteq> 0" "cur_page (k_rt_pool_Create off sz al) = 0" using 1(2) by (simp_all add: pool_inv_def k_rt_pool_Create_def)
  have "alloc_objs a k (Some (k_rt_pool_Create off sz al)) m = alloc_objs a k (Some pool1) m1"
    unfolding Suc using 1(1) c by (simp add: k_rt_pool_AllocObj_def)
  moreover obtain m' where "alloc_objs a k (Some pool1) m1 = Some (map (\<lambda>i. ?b + i * sz) [0..<k], Some pool1, m')"
    using alloc_objs_inv [OF 1(2), of k a] n(2) 1(3) by auto
  moreover have "al dvd ?b + i * sz \<and> a + 24 \<le> ?b + i * sz \<and> ?b + i * sz + sz \<le> a + 4096" if "i < k" for i
  proof -
    have "(i + 1) * sz \<le> ?n * sz" using that n(2) by (intro mult_le_mono1) simp
    then have "?b + i * sz + sz \<le> a + 4096" using e(3) by simp
    then show ?thesis using e(1,2) assms(4) by (simp add: dvd_add)
  qed
  moreover have "?b + i * sz + sz \<le> ?b + j * sz" if "i < j" for i j
  proof -
    have "(i + 1) * sz \<le> j * sz" using that by (intro mult_le_mono1) simp
    then show ?thesis by simp
  qed
  ultimately show ?thesis by (intro exI [of _ "map (\<lambda>i. ?b + i * sz) [0..<k]"] exI [of _ "Some pool1"] exI [of _ m']) auto
qed simp

text \<open>
  The last object of the current page to be returned makes the page freeable and leaves it current:
  the pool then gives the page back to the heap and goes on allocating from it.
\<close>

lemma freed_page_stays_current:
  assumes "0 < a" "cur_page pool = a" "first_page pool = a" "last_page pool = a" "node_at m (obj + node_offset pool) = a"
    and "pp_used_count (pool_page m a) = 1" "0 < obj" "freeable_pages pool = 0" "pool_page m a = p"
  shows "\<exists>pool' m' m''. k_rt_pool_FreeObj (Some pool) obj m = Some (Some pool', m') \<and>
    k_rt_pool_FreeUnusedPages (Some pool') m' = Some (Some (pool'\<lparr>freeable_pages := 0\<rparr>), m'') \<and>
    pool_freed m'' = pool_freed m @ [a] \<and> cur_page pool' = a"
proof -
  have s: "free_pool_pages 0 m = Some m" for m by (simp add: free_pool_pages.simps)
  show ?thesis
    using assms s by (simp add: k_rt_pool_FreeObj_def k_rt_pool_FreeUnusedPages_def unlink_pool_page_def upd_pool_page_def Let_def sub32_le
      free_pool_pages.simps [of a])
qed

text \<open>A pool of objects of 20 bytes with their node at 16, on the page at \<open>0x10000\<close>.\<close>

theorem k_rt_pool_AllocObj_carves_witness:
  "\<exists>objs pool' m'. alloc_objs 0x10000 203 (Some (k_rt_pool_Create 16 20 4)) \<lparr>pool_page = (\<lambda>_. \<lparr>pp_next = 7, pp_prev = 7,
       pp_next_free = 7, pp_index = 7, pp_used_count = 7\<rparr>), node_at = (\<lambda>_. 9), pool_freed = []\<rparr> = Some (objs, pool', m') \<and>
     length objs = 203 \<and> (\<forall>x \<in> set objs. x + 20 \<le> 0x11000)"
proof -
  have "(203 :: nat) \<le> entry_count 4 20 0x10000"
    by (simp add: entry_count_def K_RT_POOL_PAGE_SIZE_def K_RT_POOL_PAGE_HEADER_def sub32_def)
  then show ?thesis
    using k_rt_pool_AllocObj_carves [of "0x10000" 4 20 16 203 "\<lparr>pool_page = (\<lambda>_. \<lparr>pp_next = 7, pp_prev = 7,
       pp_next_free = 7, pp_index = 7, pp_used_count = 7\<rparr>), node_at = (\<lambda>_. 9), pool_freed = []\<rparr>"] by fastforce
qed

end
