(* ===== verification/Fs_Volume.thy ===== *)
theory Fs_Volume
  imports Dsk_Ide
begin

text \<open>
  Volume input and output of \<open>kernel/fs/fs.c\<close>: byte and block transfers relative to the first
  block of a partition. Reads compute their position with 64 bits, writes and clears with 32.
  The interface \<open>block_volume\<close> is what the file system relies on, a window of the medium that
  can be read in whole file system blocks; it is provided by a volume on a memory disk and by a
  volume on an IDE disk.
\<close>

section \<open>Operations\<close>

record k_fs_part_t =
  first_block :: nat
  part_block_count :: nat

type_synonym disk_wait = "nat \<Rightarrow> k_dev_disk_t \<Rightarrow> k_dev_disk_t option"

definition mul32 :: "nat \<Rightarrow> nat \<Rightarrow> nat" where
  "mul32 x y = x * y mod 2 ^ 32"

definition k_fs_ReadVolumeBytes ::
    "disk_wait \<Rightarrow> k_fs_part_t \<Rightarrow> nat \<Rightarrow> nat \<Rightarrow> nat \<Rightarrow> nat \<Rightarrow> nat \<times> bytes \<Rightarrow> k_dev_disk_t \<Rightarrow>
     ((nat \<times> bytes) \<times> k_dev_disk_t) option" where
  "k_fs_ReadVolumeBytes wait part block_size block offset count buffer disk = do {
     let read_start = (mul32 (first_block part) (disk_block_size disk) + (block * block_size + offset)) mod 2 ^ 64;
     (_, buffer, disk) \<leftarrow> k_dev_DiskRead wait None read_start count (Some buffer) disk;
     buffer \<leftarrow> buffer;
     Some (buffer, disk)
   }"

definition k_fs_ReadVolumeBlocks ::
    "disk_wait \<Rightarrow> k_fs_part_t \<Rightarrow> nat \<Rightarrow> nat \<Rightarrow> nat \<Rightarrow> nat \<times> bytes \<Rightarrow> k_dev_disk_t \<Rightarrow>
     ((nat \<times> bytes) \<times> k_dev_disk_t) option" where
  "k_fs_ReadVolumeBlocks wait part block_size block block_count buffer disk =
     k_fs_ReadVolumeBytes wait part block_size block 0 (block_size * block_count mod 2 ^ 64) buffer disk"

definition write_start :: "k_fs_part_t \<Rightarrow> nat \<Rightarrow> nat \<Rightarrow> nat \<Rightarrow> k_dev_disk_t \<Rightarrow> nat" where
  "write_start part block_size block offset disk =
     (mul32 (first_block part) (disk_block_size disk) + mul32 block block_size + offset) mod 2 ^ 32"

definition k_fs_WriteVolumeBytes ::
    "disk_wait \<Rightarrow> k_fs_part_t \<Rightarrow> nat \<Rightarrow> nat \<Rightarrow> nat \<Rightarrow> nat \<Rightarrow> nat \<times> bytes \<Rightarrow> k_dev_disk_t \<Rightarrow>
     k_dev_disk_t option" where
  "k_fs_WriteVolumeBytes wait part block_size block offset count buffer disk =
     map_option (\<lambda>(_, _, d). d)
       (k_dev_DiskWrite wait None (write_start part block_size block offset disk) count (Some buffer) disk)"

definition k_fs_WriteVolumeBlocks ::
    "disk_wait \<Rightarrow> k_fs_part_t \<Rightarrow> nat \<Rightarrow> nat \<Rightarrow> nat \<Rightarrow> nat \<times> bytes \<Rightarrow> k_dev_disk_t \<Rightarrow>
     k_dev_disk_t option" where
  "k_fs_WriteVolumeBlocks wait part block_size block block_count buffer disk =
     k_fs_WriteVolumeBytes wait part block_size block 0 (mul32 block_size block_count) buffer disk"

definition k_fs_ClearVolumeBytes ::
    "disk_wait \<Rightarrow> k_fs_part_t \<Rightarrow> nat \<Rightarrow> nat \<Rightarrow> nat \<Rightarrow> nat \<Rightarrow> k_dev_disk_t \<Rightarrow> k_dev_disk_t option" where
  "k_fs_ClearVolumeBytes wait part block_size block offset count disk = (
     let start = write_start part block_size block offset disk;
       disk_end = mul32 (first_block part + part_block_count part) (disk_block_size disk)
     in if (start + count) mod 2 ^ 32 \<le> disk_end
        then map_option snd (k_dev_DiskClear wait None start count disk)
        else Some disk)"

definition k_fs_ClearVolumeBlocks ::
    "disk_wait \<Rightarrow> k_fs_part_t \<Rightarrow> nat \<Rightarrow> nat \<Rightarrow> nat \<Rightarrow> k_dev_disk_t \<Rightarrow> k_dev_disk_t option" where
  "k_fs_ClearVolumeBlocks wait part block_size block block_count disk =
     k_fs_ClearVolumeBytes wait part block_size block 0 (mul32 block_size block_count) disk"

section \<open>A volume as a window of the medium\<close>

definition K_FS_PUP_LOGICAL_BLOCK_SIZE :: nat where
  "K_FS_PUP_LOGICAL_BLOCK_SIZE = 0x1000"

definition volume_start :: "k_fs_part_t \<Rightarrow> k_dev_disk_t \<Rightarrow> nat" where
  "volume_start part disk = first_block part * disk_block_size disk"

definition volume_bytes :: "k_fs_part_t \<Rightarrow> k_dev_disk_t \<Rightarrow> bytes" where
  "volume_bytes part disk =
     take (part_block_count part * disk_block_size disk) (drop (volume_start part disk) (medium disk))"

text \<open>The partition lies on the disk, and all its addresses have 32 bits.\<close>

definition part_ok :: "k_fs_part_t \<Rightarrow> k_dev_disk_t \<Rightarrow> bool" where
  "part_ok part disk \<longleftrightarrow>
     volume_start part disk + part_block_count part * disk_block_size disk \<le> length (medium disk) \<and>
     length (medium disk) + 511 < 2 ^ 32"

lemma part_ok_length:
  "part_ok part disk \<Longrightarrow> length (volume_bytes part disk) = part_block_count part * disk_block_size disk"
  by (auto simp: part_ok_def volume_bytes_def)

lemma mul32_small: "x * y < 2 ^ 32 \<Longrightarrow> mul32 x y = x * y"
  by (simp add: mul32_def)

lemma part_ok_start:
  "part_ok part disk \<Longrightarrow> mul32 (first_block part) (disk_block_size disk) = volume_start part disk"
  by (simp add: part_ok_def volume_start_def mul32_small)

lemma part_ok_bound:
  assumes "part_ok part disk" "e \<le> length (volume_bytes part disk)"
  shows "volume_start part disk + e \<le> length (medium disk)" "volume_start part disk + e + 511 < 2 ^ 32"
  using assms part_ok_length [OF assms(1)] by (auto simp: part_ok_def)

lemma volume_slice:
  assumes "part_ok part disk" "a + n \<le> length (volume_bytes part disk)"
  shows "take n (drop (volume_start part disk + a) (medium disk)) = take n (drop a (volume_bytes part disk))"
  using assms part_ok_length [OF assms(1)]
  by (simp add: volume_bytes_def drop_take take_take min_def add.commute)

lemma read_position:
  assumes p: "part_ok part disk" and e: "b * bs + o' + n \<le> length (volume_bytes part disk)"
  shows "(mul32 (first_block part) (disk_block_size disk) + (b * bs + o')) mod 2 ^ 64 =
    volume_start part disk + (b * bs + o')"
proof -
  have "volume_start part disk + (b * bs + o') < 2 ^ 64"
    using part_ok_bound(2) [OF p e] by simp
  then show ?thesis unfolding part_ok_start [OF p] by simp
qed

lemma write_position:
  assumes p: "part_ok part disk" and e: "b * bs + o' + n \<le> length (volume_bytes part disk)"
  shows "write_start part bs b o' disk = volume_start part disk + (b * bs + o')"
proof -
  have "volume_start part disk + (b * bs + o') < 2 ^ 32"
    using part_ok_bound(2) [OF p e] by simp
  then show ?thesis unfolding write_start_def part_ok_start [OF p]
    by (simp add: mul32_small add.assoc)
qed

section \<open>The interface of the file system\<close>

text \<open>
  Reading whole blocks of a volume, from a disk in one of the states \<open>vok\<close>: the bytes of the
  volume arrive in the buffer and the disk stays in such a state, with the volume unchanged.
\<close>

locale block_volume =
  fixes wait :: disk_wait
    and part :: k_fs_part_t
    and vok :: "k_dev_disk_t \<Rightarrow> bool"
  assumes read_blocks: "vok disk \<Longrightarrow> 0 < a \<Longrightarrow> 0 < n \<Longrightarrow>
      (b + n) * 4096 \<le> length (volume_bytes part disk) \<Longrightarrow> n * 4096 \<le> length buf \<Longrightarrow>
      \<exists>d. k_fs_ReadVolumeBlocks wait part 4096 b n (a, buf) disk =
          Some ((a, blit buf 0 (take (n * 4096) (drop (b * 4096) (volume_bytes part disk)))), d) \<and>
        vok d \<and> volume_bytes part d = volume_bytes part disk"
begin

text \<open>Reading a run of blocks gives what reading its two parts gives.\<close>

lemma read_blocks_split:
  assumes "vok disk" "0 < a" "0 < n" "0 < k" "(b + n + k) * 4096 \<le> length (volume_bytes part disk)"
    and "length buf = (n + k) * 4096"
  shows "\<exists>d e x y. k_fs_ReadVolumeBlocks wait part 4096 b (n + k) (a, buf) disk = Some ((a, x @ y), d) \<and>
    k_fs_ReadVolumeBlocks wait part 4096 b n (a, replicate (n * 4096) 0) disk = Some ((a, x), e) \<and>
    (\<exists>f. k_fs_ReadVolumeBlocks wait part 4096 (b + n) k (a, replicate (k * 4096) 0) e = Some ((a, y), f))"
proof -
  let ?v = "volume_bytes part disk"
  let ?x = "take (n * 4096) (drop (b * 4096) ?v)" and ?y = "take (k * 4096) (drop ((b + n) * 4096) ?v)"
  have le: "(b + (n + k)) * 4096 \<le> length ?v" "(b + n) * 4096 \<le> length ?v" "(n + k) * 4096 \<le> length buf"
    using assms(5,6) by simp_all
  have xy: "take ((n + k) * 4096) (drop (b * 4096) ?v) = ?x @ ?y"
    by (simp add: distrib_right take_add add.commute [of "b * 4096" "n * 4096"])
  obtain d where d: "k_fs_ReadVolumeBlocks wait part 4096 b (n + k) (a, buf) disk =
      Some ((a, blit buf 0 (?x @ ?y)), d)"
    using read_blocks [OF assms(1,2) _ le(1,3)] assms(3) xy by auto
  obtain e where e: "k_fs_ReadVolumeBlocks wait part 4096 b n (a, replicate (n * 4096) 0) disk =
      Some ((a, blit (replicate (n * 4096) 0) 0 ?x), e)" "vok e" "volume_bytes part e = ?v"
    using read_blocks [OF assms(1,2,3) le(2), of "replicate (n * 4096) 0"] by auto
  obtain f where f: "k_fs_ReadVolumeBlocks wait part 4096 (b + n) k (a, replicate (k * 4096) 0) e =
      Some ((a, blit (replicate (k * 4096) 0) 0 ?y), f)"
    using read_blocks [OF e(2) assms(2,4), of "b + n" "replicate (k * 4096) 0"] assms(5) e(3) by auto
  have "blit buf 0 (?x @ ?y) = ?x @ ?y" "blit (replicate (n * 4096) 0) 0 ?x = ?x"
      "blit (replicate (k * 4096) 0) 0 ?y = ?y"
    using assms(5,6) by (simp_all add: blit_def)
  then show ?thesis using d e(1) f by (metis append_Nil2)
qed

end


section \<open>Providers\<close>

text \<open>A volume on a disk in memory.\<close>

definition ram_volume_ok :: "k_fs_part_t \<Rightarrow> k_dev_disk_t \<Rightarrow> bool" where
  "ram_volume_ok part disk \<longleftrightarrow> ram_ok disk \<and> part_ok part disk"

lemma ram_volume_read:
  assumes "ram_volume_ok part disk" "0 < a" "b * bs + o' + n \<le> length (volume_bytes part disk)" "n \<le> length buf"
  shows "k_fs_ReadVolumeBytes wait part bs b o' n (a, buf) disk =
    Some ((a, blit buf 0 (take n (drop (b * bs + o') (volume_bytes part disk)))), disk)"
proof -
  have p: "part_ok part disk" "ram_ok disk" using assms(1) by (simp_all add: ram_volume_ok_def)
  have "volume_start part disk + (b * bs + o') + n \<le> length (medium disk)"
    using part_ok_bound(1) [OF p(1) assms(3)] by simp
  then show ?thesis
    using read_position [OF p(1) assms(3)] volume_slice [OF p(1) assms(3)]
      ram_disk_read [OF p(2) assms(2) _ assms(4)]
    by (simp add: k_fs_ReadVolumeBytes_def)
qed

text \<open>Bytes stored in the window of the volume.\<close>

definition volume_put :: "k_fs_part_t \<Rightarrow> nat \<Rightarrow> bytes \<Rightarrow> k_dev_disk_t \<Rightarrow> k_dev_disk_t" where
  "volume_put part s bs disk = disk\<lparr>medium := blit (medium disk) (volume_start part disk + s) bs\<rparr>"

lemma volume_put_ok:
  assumes v: "ram_volume_ok part disk" and e: "s + length bs \<le> length (volume_bytes part disk)"
  shows "ram_volume_ok part (volume_put part s bs disk)"
    "volume_bytes part (volume_put part s bs disk) = blit (volume_bytes part disk) s bs"
    "disk_block_size (volume_put part s bs disk) = disk_block_size disk"
proof -
  have p: "part_ok part disk" "ram_ok disk" using v by (simp_all add: ram_volume_ok_def)
  let ?p = "volume_start part disk + s" and ?l = "part_block_count part * disk_block_size disk"
  let ?d = "volume_put part s bs disk"
  have bound: "?p + length bs \<le> length (medium disk)"
    using part_ok_bound(1) [OF p(1) e] by simp
  then show "ram_volume_ok part ?d"
    using p by (simp add: ram_volume_ok_def part_ok_def ram_ok_def volume_start_def volume_put_def)
  show "disk_block_size ?d = disk_block_size disk" by (simp add: volume_put_def)
  have vl: "s + length bs \<le> ?l" "volume_start part disk + ?l \<le> length (medium disk)"
    using e part_ok_length [OF p(1)] p(1) by (simp_all add: part_ok_def)
  show "volume_bytes part ?d = blit (volume_bytes part disk) s bs"
  proof (rule nth_equalityI)
    show "length (volume_bytes part ?d) = length (blit (volume_bytes part disk) s bs)"
      using bound e part_ok_length [OF p(1)] vl
      by (simp add: volume_bytes_def volume_start_def volume_put_def)
    fix i assume "i < length (volume_bytes part ?d)"
    then have i: "i < ?l" using bound by (simp add: volume_bytes_def volume_start_def volume_put_def)
    have "medium disk ! (volume_start part disk + i) = volume_bytes part disk ! i"
      using i vl by (simp add: volume_bytes_def)
    moreover have "volume_bytes part ?d ! i = blit (medium disk) ?p bs ! (volume_start part disk + i)"
      using i vl bound by (simp add: volume_bytes_def volume_start_def volume_put_def)
    ultimately show "volume_bytes part ?d ! i = blit (volume_bytes part disk) s bs ! i"
      using i vl bound e part_ok_length [OF p(1)] by (simp add: nth_blit)
  qed
qed

lemma ram_volume_write:
  assumes "ram_volume_ok part disk" "0 < a" "b * bs + o' + n \<le> length (volume_bytes part disk)" "n \<le> length buf"
  shows "k_fs_WriteVolumeBytes wait part bs b o' n (a, buf) disk =
    Some (volume_put part (b * bs + o') (take n buf) disk)"
proof -
  have p: "part_ok part disk" "ram_ok disk" using assms(1) by (simp_all add: ram_volume_ok_def)
  have "volume_start part disk + (b * bs + o') + n \<le> length (medium disk)"
    using part_ok_bound(1) [OF p(1) assms(3)] by simp
  then show ?thesis
    using write_position [OF p(1) assms(3)] ram_disk_write [OF p(2) assms(2) _ assms(4)]
    by (simp add: k_fs_WriteVolumeBytes_def volume_put_def)
qed

text \<open>A clear past the end of the partition does nothing.\<close>

lemma ram_volume_clear:
  assumes "ram_volume_ok part disk" "b * bs + o' + n < 2 ^ 32 - volume_start part disk"
  shows "k_fs_ClearVolumeBytes wait part bs b o' n disk =
    Some (if b * bs + o' + n \<le> length (volume_bytes part disk)
      then volume_put part (b * bs + o') (replicate n 0) disk else disk)"
proof -
  have p: "part_ok part disk" "ram_ok disk" using assms(1) by (simp_all add: ram_volume_ok_def)
  let ?l = "part_block_count part * disk_block_size disk"
  have w: "write_start part bs b o' disk = volume_start part disk + (b * bs + o')"
    using assms(2) unfolding write_start_def part_ok_start [OF p(1)] by (simp add: mul32_small add.assoc)
  have e: "mul32 (first_block part + part_block_count part) (disk_block_size disk) = volume_start part disk + ?l"
    using p(1) unfolding part_ok_def volume_start_def
    by (subst mul32_small) (simp_all add: add_mult_distrib)
  have lt: "(volume_start part disk + (b * bs + o') + n) mod 2 ^ 32 = volume_start part disk + (b * bs + o') + n"
    using assms(2) by simp
  show ?thesis
  proof (cases "b * bs + o' + n \<le> length (volume_bytes part disk)")
    case True
    then have "volume_start part disk + (b * bs + o') + n \<le> length (medium disk)"
      using part_ok_bound(1) [OF p(1) True] by simp
    then show ?thesis using True w e lt ram_disk_clear [OF p(2)] part_ok_length [OF p(1)]
      by (simp add: k_fs_ClearVolumeBytes_def Let_def volume_put_def)
  next
    case False
    then show ?thesis using w e lt part_ok_length [OF p(1)]
      by (simp add: k_fs_ClearVolumeBytes_def Let_def)
  qed
qed

text \<open>The volume as a byte store, in blocks of 4096 bytes.\<close>

interpretation vol: byte_store "ram_volume_ok part" "volume_bytes part"
  "\<lambda>d s n. map_option (snd \<circ> fst) (k_fs_ReadVolumeBytes wait part 4096 0 s n (Suc a, replicate n 0) d)"
  "\<lambda>d s bs. k_fs_WriteVolumeBytes wait part 4096 0 s (length bs) (Suc a, bs) d"
proof
  fix d s n
  assume "ram_volume_ok part d" "s + n \<le> length (volume_bytes part d)"
  then show "map_option (snd \<circ> fst) (k_fs_ReadVolumeBytes wait part 4096 0 s n (Suc a, replicate n 0) d) =
      Some (take n (drop s (volume_bytes part d)))"
    using ram_volume_read [of part d "Suc a" 0 4096 s n "replicate n 0" wait] by (simp add: blit_def)
next
  fix d s and bs :: bytes
  assume "ram_volume_ok part d" "s + length bs \<le> length (volume_bytes part d)"
  then show "\<exists>d'. k_fs_WriteVolumeBytes wait part 4096 0 s (length bs) (Suc a, bs) d = Some d' \<and>
      ram_volume_ok part d' \<and> volume_bytes part d' = blit (volume_bytes part d) s bs"
    using ram_volume_write [of part d "Suc a" 0 4096 s "length bs" bs wait] volume_put_ok [of part d s bs] by simp
qed

lemma blocks_bytes:
  assumes "part_ok part disk" "(b + n) * 4096 \<le> length (volume_bytes part disk)"
  shows "4096 * n mod 2 ^ 64 = n * 4096" "b * 4096 + 0 + n * 4096 \<le> length (volume_bytes part disk)"
proof -
  show b: "b * 4096 + 0 + n * 4096 \<le> length (volume_bytes part disk)" using assms(2) by simp
  have "n * 4096 < 2 ^ 64" using part_ok_bound(2) [OF assms(1) b] by simp
  then show "4096 * n mod 2 ^ 64 = n * 4096" by simp
qed

interpretation ram_vol: block_volume wait part "ram_volume_ok part"
proof
  fix disk :: k_dev_disk_t and a n b :: nat and buf :: bytes
  assume v: "ram_volume_ok part disk" "0 < a" "0 < n" "(b + n) * 4096 \<le> length (volume_bytes part disk)"
    "n * 4096 \<le> length buf"
  have "part_ok part disk" using v(1) by (simp add: ram_volume_ok_def)
  note bb = blocks_bytes [OF this v(4)]
  show "\<exists>d. k_fs_ReadVolumeBlocks wait part 4096 b n (a, buf) disk =
      Some ((a, blit buf 0 (take (n * 4096) (drop (b * 4096) (volume_bytes part disk)))), d) \<and>
    ram_volume_ok part d \<and> volume_bytes part d = volume_bytes part disk"
    using ram_volume_read [OF v(1,2) bb(2) v(5)] v(1) bb(1) by (simp add: k_fs_ReadVolumeBlocks_def)
qed

text \<open>A volume on an IDE disk with 512 byte sectors and a free command.\<close>

definition ide_volume_ok :: "k_fs_part_t \<Rightarrow> k_dev_disk_t \<Rightarrow> bool" where
  "ide_volume_ok part disk \<longleftrightarrow> part_ok part disk \<and> disk_block_size disk = 512 \<and>
     disk_read disk = Some ide_disk_read \<and> 512 dvd length (medium disk) \<and>
     (\<exists>p c fs. pool_ready disk p c fs)"

interpretation ide_vol: block_volume wait_served part "ide_volume_ok part"
proof
  fix disk :: k_dev_disk_t and a n b :: nat and buf :: bytes
  assume v: "ide_volume_ok part disk" "0 < a" "0 < n" "(b + n) * 4096 \<le> length (volume_bytes part disk)"
    "n * 4096 \<le> length buf"
  obtain p c fs where i: "part_ok part disk" "disk_block_size disk = 512" "disk_read disk = Some ide_disk_read"
      "512 dvd length (medium disk)" "pool_ready disk p c fs"
    using v(1) by (auto simp: ide_volume_ok_def)
  note bb = blocks_bytes [OF i(1) v(4)]
  let ?A = "volume_start part disk + b * 4096"
  have A: "volume_start part disk = first_block part * 512" using i(2) by (simp add: volume_start_def)
  have "even ?A" "even (n * 4096)" "0 < n * 4096" "512 dvd ?A + n * 4096" unfolding A using v(3)
    by (auto intro!: dvd_add dvd_mult)
  moreover have "?A + n * 4096 \<le> length (medium disk)" "?A + n * 4096 + 511 < 2 ^ 32"
    using part_ok_bound [OF i(1) bb(2)] by (simp_all add: add.assoc)
  ultimately obtain d where d: "k_dev_DiskRead wait_served None ?A (n * 4096) (Some (a, buf)) disk =
      Some (0, Some (a, blit buf 0 (take (n * 4096) (drop ?A (medium disk)))), d)"
      "pool_ready d p c fs" "medium d = medium disk" "disk_read d = Some ide_disk_read"
      "disk_block_size d = disk_block_size disk"
    using DiskRead_ide [OF i(5,3) _ _ _ _ v(5) _ i(4), of ?A None a] by blast
  have "ide_volume_ok part d" "volume_bytes part d = volume_bytes part disk"
    using i d by (auto simp: ide_volume_ok_def part_ok_def volume_start_def volume_bytes_def)
  then show "\<exists>d. k_fs_ReadVolumeBlocks wait_served part 4096 b n (a, buf) disk =
      Some ((a, blit buf 0 (take (n * 4096) (drop (b * 4096) (volume_bytes part disk)))), d) \<and>
    ide_volume_ok part d \<and> volume_bytes part d = volume_bytes part disk"
    using d(1) bb(1) read_position [OF i(1) bb(2)] volume_slice [OF i(1), of "b * 4096" "n * 4096"] bb(2)
    by (simp add: k_fs_ReadVolumeBlocks_def k_fs_ReadVolumeBytes_def)
qed

end
