(* ===== verification/Pup_Block.thy ===== *)
theory Pup_Block
  imports Prelude
begin

text \<open>
  Links, the root block and the block allocator of the pup file system (\<open>kernel/fs/pup.h\<close>,
  \<open>kernel/fs/pup.c\<close>). The free blocks are a bitmap in memory that several threads change with
  compare-and-exchange: what they leave there at each exchange is an argument of the operations,
  a list of bitmaps, one for each exchange that another thread preceded. The lemmas show that an
  allocation always takes a block that was free at its exchange, and which block a release marks
  free.
\<close>

section \<open>Links and the root block\<close>

definition K_FS_PUP_NODE_INDEX_BITS :: nat where
  "K_FS_PUP_NODE_INDEX_BITS = 8"

definition K_FS_PUP_NULL_LINK :: nat where
  "K_FS_PUP_NULL_LINK = 0"

definition K_FS_PUP_NODE_LINK :: "nat \<Rightarrow> nat \<Rightarrow> nat" where
  "K_FS_PUP_NODE_LINK block_index node_index =
     (push_bit K_FS_PUP_NODE_INDEX_BITS block_index OR (node_index AND (2 ^ (K_FS_PUP_NODE_INDEX_BITS - 1) - 1))) mod 2 ^ 64"

definition K_FS_PUP_NODE_BLOCK :: "nat \<Rightarrow> nat" where
  "K_FS_PUP_NODE_BLOCK link = drop_bit K_FS_PUP_NODE_INDEX_BITS link"

definition K_FS_PUP_NODE_INDEX :: "nat \<Rightarrow> nat" where
  "K_FS_PUP_NODE_INDEX link = link AND (2 ^ K_FS_PUP_NODE_INDEX_BITS - 1)"

record k_fs_pup_root_t =
  ident :: bytes
  root_node :: nat
  bitmask_start :: nat
  bitmask_block_count :: nat
  alloc_start :: nat
  root_block_count :: nat

lemma node_link_or:
  "K_FS_PUP_NODE_LINK b i = (b * 256 + i mod 128) mod 2 ^ 64"
proof -
  have m: "(127 :: nat) = mask 7" by (simp add: mask_eq_exp_minus_1)
  have "push_bit 8 b OR take_bit 7 i = push_bit 8 b + take_bit 7 i"
    by (rule disjunctive_add [symmetric]) (auto simp: bit_simps)
  then show ?thesis
    by (simp add: K_FS_PUP_NODE_LINK_def K_FS_PUP_NODE_INDEX_BITS_def m take_bit_eq_mask [symmetric]
        push_bit_eq_mult take_bit_eq_mod)
qed

lemma node_block_index:
  "K_FS_PUP_NODE_BLOCK l = l div 256" "K_FS_PUP_NODE_INDEX l = l mod 256"
proof -
  have m: "(255 :: nat) = mask 8" by (simp add: mask_eq_exp_minus_1)
  show "K_FS_PUP_NODE_BLOCK l = l div 256" "K_FS_PUP_NODE_INDEX l = l mod 256"
    by (simp_all add: K_FS_PUP_NODE_BLOCK_def K_FS_PUP_NODE_INDEX_def K_FS_PUP_NODE_INDEX_BITS_def
        drop_bit_eq_div m take_bit_eq_mask [symmetric] take_bit_eq_mod)
qed

text \<open>A link keeps the block of a node, and its index up to 127: the mask is one bit too short.\<close>

lemma node_link_block: "b < 2 ^ 56 \<Longrightarrow> K_FS_PUP_NODE_BLOCK (K_FS_PUP_NODE_LINK b i) = b"
  by (simp add: node_link_or node_block_index)

lemma node_link_index: "b < 2 ^ 56 \<Longrightarrow> K_FS_PUP_NODE_INDEX (K_FS_PUP_NODE_LINK b i) = i mod 128"
proof -
  assume b: "b < 2 ^ 56"
  have "i mod 128 < 256" by (rule less_trans [of _ 128]) simp_all
  with b show ?thesis by (simp add: node_link_or node_block_index)
qed

section \<open>The bitmap\<close>

definition block_bit :: "nat \<Rightarrow> u8" where
  "block_bit k = push_bit (k mod 8) 1"

text \<open>
  \<open>k_fs_PupAllocBlock\<close>: a scan for a clear bit, and a compare-and-exchange of its byte. When
  another thread changed the byte, the scan starts over on the bitmap that thread left.
\<close>

function alloc_block ::
    "bytes list \<Rightarrow> bytes \<Rightarrow> nat \<Rightarrow> nat \<Rightarrow> nat \<Rightarrow> (nat \<times> bytes) option" where
  "alloc_block others bm start count block_index =
     (if count \<le> block_index then Some (K_FS_PUP_NULL_LINK, bm)
      else do {
        bitmask \<leftarrow> rd bm (block_index div 8);
        if bitmask AND block_bit block_index \<noteq> 0 then alloc_block others bm start count (block_index + 1)
        else (case others of
            [] \<Rightarrow> do {
              bm \<leftarrow> wr bm (block_index div 8) (bitmask OR block_bit block_index);
              Some (start + block_index, bm)
            }
          | mem # others \<Rightarrow> do {
              now \<leftarrow> rd mem (block_index div 8);
              if now = bitmask then do {
                mem \<leftarrow> wr mem (block_index div 8) (bitmask OR block_bit block_index);
                Some (start + block_index, mem)
              }
              else alloc_block others mem start count 0
            })
      })"
  by pat_completeness auto
termination
  by (relation "measures [\<lambda>(others, _). length others, \<lambda>(_, _, _, count, i). count - i]") auto

declare alloc_block.simps [simp del]

definition k_fs_PupAllocBlock ::
    "bytes list \<Rightarrow> k_fs_pup_root_t \<Rightarrow> bytes \<Rightarrow> (nat \<times> bytes) option" where
  "k_fs_PupAllocBlock others root bm =
     alloc_block others bm (alloc_start root)
       (nat ((int (root_block_count root) - int (alloc_start root)) mod 2 ^ 32)) 0"

text \<open>
  \<open>k_fs_PupFreeBlock\<close>: the byte is read once, and the exchange with it is tried until it succeeds;
  it does not return when the byte stays different from the one that was read.
\<close>

fun free_block :: "bytes list \<Rightarrow> bytes \<Rightarrow> nat \<Rightarrow> u8 \<Rightarrow> bytes option" where
  "free_block [] bm bitmask_index bitmask = do {
     now \<leftarrow> rd bm bitmask_index;
     if now = bitmask then wr bm bitmask_index (bitmask AND NOT (block_bit bitmask_index)) else None
   }"
| "free_block (mem # others) bm bitmask_index bitmask = do {
     now \<leftarrow> rd mem bitmask_index;
     if now = bitmask then wr mem bitmask_index (bitmask AND NOT (block_bit bitmask_index))
     else free_block others mem bitmask_index bitmask
   }"

definition k_fs_PupFreeBlock :: "bytes list \<Rightarrow> k_fs_pup_root_t \<Rightarrow> bytes \<Rightarrow> nat \<Rightarrow> bytes option" where
  "k_fs_PupFreeBlock others root bm block = do {
     let bitmask_index = (block - alloc_start root) div 8;
     bitmask \<leftarrow> rd bm bitmask_index;
     free_block others bm bitmask_index bitmask
   }"

section \<open>Lemmas\<close>

text \<open>Whether block \<open>k\<close> after the first allocatable one is in use.\<close>

definition block_used :: "bytes \<Rightarrow> nat \<Rightarrow> bool" where
  "block_used bm k \<longleftrightarrow> bit (bm ! (k div 8)) (k mod 8)"

lemma and_block_bit: "(v AND block_bit k \<noteq> 0) = bit v (k mod 8)"
  by (simp add: block_bit_def push_bit_eq_mult and_exp_eq_0_iff_not_bit)

lemma block_used_set:
  assumes "k div 8 < length bm"
  shows "block_used (bm[k div 8 := bm ! (k div 8) OR block_bit k]) j = (j = k \<or> block_used bm j)"
proof (cases "j div 8 = k div 8")
  case True
  then have "j = k \<longleftrightarrow> j mod 8 = k mod 8" by (metis div_mult_mod_eq)
  then show ?thesis using True assms by (auto simp: block_used_def block_bit_def bit_simps)
next
  case False
  then show ?thesis by (auto simp: block_used_def)
qed

lemma block_used_clear:
  assumes "q < length bm" "k = 8 * q + q mod 8"
  shows "block_used (bm[q := bm ! q AND NOT (block_bit q)]) j = (j \<noteq> k \<and> block_used bm j)"
proof (cases "j div 8 = q")
  case True
  have k: "k div 8 = q" "k mod 8 = q mod 8" using assms(2) by simp_all
  then have "j = k \<longleftrightarrow> j mod 8 = q mod 8" using True by (metis div_mult_mod_eq)
  then show ?thesis using True assms by (auto simp: block_used_def block_bit_def bit_simps)
next
  case False
  have "k div 8 = q" using assms(2) by simp
  then show ?thesis using False by (auto simp: block_used_def)
qed

text \<open>What an allocation may return, from a scan that found the blocks before \<open>i\<close> in use.\<close>

definition allocated :: "bytes \<Rightarrow> nat \<Rightarrow> nat \<Rightarrow> nat \<times> bytes \<Rightarrow> bool" where
  "allocated mem start count r \<longleftrightarrow>
     (fst r = K_FS_PUP_NULL_LINK \<and> snd r = mem \<and> (\<forall>j < count. block_used mem j)) \<or>
     (\<exists>k < count. fst r = start + k \<and> \<not> block_used mem k \<and>
        (\<forall>j. block_used (snd r) j = (j = k \<or> block_used mem j)) \<and> length (snd r) = length mem)"

lemma alloc_block_ok:
  assumes "\<forall>m \<in> set (bm # others). count \<le> 8 * length m"
    and "\<forall>j < block_index. block_used bm j"
  shows "\<exists>r mem. alloc_block others bm start count block_index = Some r \<and>
    mem \<in> set (bm # others) \<and> allocated mem start count r"
  using assms
proof (induction others bm start count block_index rule: alloc_block.induct)
  case (1 others bm start count i)
  let ?v = "bm ! (i div 8)"
  show ?case
  proof (cases "count \<le> i")
    case True
    then show ?thesis using "1.prems"(2)
      by (subst alloc_block.simps) (auto simp: allocated_def)
  next
    case False
    then have l: "i div 8 < length m" if "m \<in> set (bm # others)" for m
      using "1.prems"(1) that by (intro div_less_iff_less_mult [THEN iffD2]) (auto simp: mult.commute)
    then have rd: "rd bm (i div 8) = Some ?v" by (simp add: rd_in)
    show ?thesis
    proof (cases "?v AND block_bit i \<noteq> 0")
      case True
      then have "block_used bm i" by (simp add: and_block_bit block_used_def)
      then have "\<forall>j < i + 1. block_used bm j" using "1.prems"(2) by (auto simp: less_Suc_eq)
      then show ?thesis using "1.IH"(1) [OF False rd True "1.prems"(1)] False rd True
        by (subst alloc_block.simps) simp
    next
      case free: False
      then have nu: "\<not> block_used bm i" by (simp add: and_block_bit block_used_def)
      show ?thesis
      proof (cases others)
        case Nil
        have "allocated bm start count (start + i, bm[i div 8 := ?v OR block_bit i])"
          using False nu block_used_set [of i bm] l by (auto simp: allocated_def)
        then show ?thesis using False rd free l Nil
          by (subst alloc_block.simps) (auto simp: wr_in)
      next
        case (Cons mem os)
        have lm: "i div 8 < length mem" using l Cons by simp
        then have rm: "rd mem (i div 8) = Some (mem ! (i div 8))" by (simp add: rd_in)
        show ?thesis
        proof (cases "mem ! (i div 8) = ?v")
          case True
          then have "\<not> block_used mem i" using nu by (simp add: block_used_def)
          then have "allocated mem start count (start + i, mem[i div 8 := ?v OR block_bit i])"
            using False block_used_set [OF lm] True by (auto simp: allocated_def)
          then show ?thesis using False rd free rm True lm Cons
            by (subst alloc_block.simps) (auto simp: wr_in)
        next
          case changed: False
          have "\<forall>m \<in> set (mem # os). count \<le> 8 * length m" using "1.prems"(1) Cons by simp
          then obtain r x where "alloc_block os mem start count 0 = Some r" "x \<in> set (mem # os)"
              "allocated x start count r"
            using "1.IH"(2) [OF False rd _ Cons rm changed] free by auto
          then show ?thesis using False rd free rm changed Cons
            by (subst alloc_block.simps) auto
        qed
      qed
    qed
  qed
qed


lemma free_block_alone:
  assumes "q < length bm"
  shows "free_block [] bm q (bm ! q) = Some (bm[q := bm ! q AND NOT (block_bit q)])"
  using assms by (simp add: wr_in rd_in)

lemma free_block_returns:
  assumes "\<forall>m \<in> set (bm # others). q < length m"
  shows "(free_block others bm q v \<noteq> None) = (\<exists>m \<in> set (if others = [] then [bm] else others). m ! q = v)"
  using assms
proof (induction others arbitrary: bm)
  case Nil
  then show ?case by (auto simp: rd_in wr_in)
next
  case (Cons m ms)
  show ?case
  proof (cases "m ! q = v")
    case True
    then show ?thesis using Cons.prems by (auto simp: rd_in wr_in)
  next
    case False
    then show ?thesis using Cons.IH [of m] Cons.prems by (auto simp: rd_in)
  qed
qed

section \<open>Properties\<close>

text \<open>
  C21: Whatever other threads do to the bitmap between the reads and the exchanges of
  \<open>k_fs_PupAllocBlock\<close>, the call returns; the block it returns was free in the bitmap its exchange
  met, is in use afterwards, and no other block changes, so two threads never get the same block.
  The null link is returned only when every allocatable block is in use.
\<close>

theorem k_fs_PupAllocBlock_ok:
  assumes "alloc_start root \<le> root_block_count root" "root_block_count root - alloc_start root < 2 ^ 32"
    and "\<forall>m \<in> set (bm # others). root_block_count root - alloc_start root \<le> 8 * length m"
  shows "\<exists>r mem. k_fs_PupAllocBlock others root bm = Some r \<and> mem \<in> set (bm # others) \<and>
    allocated mem (alloc_start root) (root_block_count root - alloc_start root) r"
proof -
  have "nat ((int (root_block_count root) - int (alloc_start root)) mod 2 ^ 32) =
      root_block_count root - alloc_start root"
    using assms(1,2) by (simp add: of_nat_diff [symmetric] nat_mod_distrib flip: of_nat_diff)
  then show ?thesis
    unfolding k_fs_PupAllocBlock_def using alloc_block_ok [OF assms(3), of 0 "alloc_start root"] by simp
qed

definition sample_root :: k_fs_pup_root_t where
  "sample_root = \<lparr>ident = [], root_node = 256, bitmask_start = 2, bitmask_block_count = 1,
     alloc_start = 4, root_block_count = 20\<rparr>"

theorem k_fs_PupAllocBlock_ok_witness:
  "\<exists>r mem. k_fs_PupAllocBlock [[3, 0]] sample_root [1, 0] = Some r \<and> mem \<in> set [[1, 0], [3, 0 :: u8]] \<and>
    allocated mem 4 16 r"
  using k_fs_PupAllocBlock_ok [of sample_root "[1, 0]" "[[3, 0]]"] by (simp add: sample_root_def)

text \<open>
  \<open>k_fs_PupFreeBlock\<close> takes the bit within the byte from the index of the byte: releasing
  block \<open>k\<close> frees block \<open>8 q + q mod 8\<close> of its byte \<open>q = k div 8\<close> and no other, so a block with
  another position in its byte stays in use and one that may belong to a file becomes free.
\<close>

theorem k_fs_PupFreeBlock_frees:
  assumes "k div 8 < length bm" "k mod 8 \<noteq> (k div 8) mod 8" "block_used bm k"
  shows "\<exists>m. k_fs_PupFreeBlock [] root bm (alloc_start root + k) = Some m \<and> block_used m k \<and>
    (\<forall>j. block_used m j = (j \<noteq> 8 * (k div 8) + (k div 8) mod 8 \<and> block_used bm j))"
proof -
  define q where "q = k div 8"
  have k: "k \<noteq> 8 * q + q mod 8"
  proof
    assume "k = 8 * q + q mod 8"
    then have "k mod 8 = (8 * q + q mod 8) mod 8" by (rule arg_cong)
    then show False using assms(2) by (simp add: q_def)
  qed
  have q: "q < length bm" using assms(1) by (simp add: q_def)
  have "k_fs_PupFreeBlock [] root bm (alloc_start root + k) = Some (bm[q := bm ! q AND NOT (block_bit q)])"
    using q free_block_alone [OF q] by (simp add: k_fs_PupFreeBlock_def rd_in q_def [symmetric])
  then show ?thesis
    using block_used_clear [OF q refl] k assms(3) by (simp add: q_def [symmetric])
qed

theorem k_fs_PupFreeBlock_frees_witness:
  "\<exists>m. k_fs_PupFreeBlock [] sample_root [6, 0] (alloc_start sample_root + 1) = Some m \<and> block_used m 1 \<and>
    (\<forall>j. block_used m j = (j \<noteq> 8 * (1 div 8) + (1 div 8) mod 8 \<and> block_used [6, 0] j))"
proof -
  have "block_used [6, 0] 1"
    by (simp add: block_used_def bit_iff_odd)
  then show ?thesis using k_fs_PupFreeBlock_frees [of 1 "[6, 0]" sample_root] by simp
qed

text \<open>
  C22: \<open>k_fs_PupFreeBlock\<close> reads the byte of the bitmap once: it returns exactly when no other thread
  gets in between, or one of the bitmaps its exchanges meet still has the byte it read. After a
  change of a neighbouring block that is not undone it spins for ever.
\<close>

theorem k_fs_PupFreeBlock_returns:
  assumes "\<forall>m \<in> set (bm # others). k div 8 < length m"
  shows "(k_fs_PupFreeBlock others root bm (alloc_start root + k) \<noteq> None) =
    (others = [] \<or> (\<exists>m \<in> set others. m ! (k div 8) = bm ! (k div 8)))"
proof -
  have "k_fs_PupFreeBlock others root bm (alloc_start root + k) = free_block others bm (k div 8) (bm ! (k div 8))"
    using assms by (simp add: k_fs_PupFreeBlock_def rd_in Let_def)
  then show ?thesis using free_block_returns [OF assms] by auto
qed

theorem k_fs_PupFreeBlock_returns_witness:
  "k_fs_PupFreeBlock [[1, 0], [3, 0]] sample_root [2, 0] (alloc_start sample_root + 1) = None"
  using k_fs_PupFreeBlock_returns [of "[2, 0]" "[[1, 0], [3, 0]]" 1 sample_root] by simp

end
