(* ===== verification/Pup_Cache.thy ===== *)
theory Pup_Cache
  imports Fs_Volume Pup_Block
begin

text \<open>
  The block cache of the pup file system (\<open>kernel/fs/pup.c\<close>): pages of cache entries of four
  blocks each, the list of entries that hold blocks, loading, storing and flushing entries, and
  reading blocks through the cache. A volume record carries the disk it lives on, so that an
  operation that fills an entry changes both. The lemmas show that the entries agree with the
  volume, and that a read through the cache gives the bytes of the volume.
\<close>

section \<open>Data\<close>

definition K_FS_PUP_BLOCKS_PER_ENTRY :: nat where
  "K_FS_PUP_BLOCKS_PER_ENTRY = 4"

definition K_FS_PUP_CENTRY_PAGE_ENTRIES_COUNT :: nat where
  "K_FS_PUP_CENTRY_PAGE_ENTRIES_COUNT = (0x800000 - 20) div (40 + 0x1000 * 4)"

definition K_FS_PUP_CENTRY_FLAG_DIRTY :: u32 where "K_FS_PUP_CENTRY_FLAG_DIRTY = 1"
definition K_FS_PUP_CENTRY_FLAG_PENDING :: u32 where "K_FS_PUP_CENTRY_FLAG_PENDING = 2"

record k_fs_pup_centry_t =
  entry_next :: "nat option"
  entry_prev :: "nat option"
  entry_page :: nat
  ref_count :: nat
  entry_condition :: bool
  entry_flags :: u32
  entry_first_block :: nat
  entry_buffer :: bytes

record k_fs_pup_centry_page_t =
  cp_next :: "nat option"
  cp_prev :: "nat option"
  free_entries :: "nat option"
  used_entries :: nat
  cp_index :: nat

record k_fs_pup_vol_t =
  root :: k_fs_pup_root_t
  first_entry :: "nat option"
  last_entry :: "nat option"
  read_count :: nat
  entry_pages :: "nat option"
  last_entry_page :: "nat option"
  cur_entry_page :: "nat option"
  freeable_entry_pages :: "nat option"
  entry_page_count :: nat
  block_bitmask :: bytes
  entry_at :: "nat \<Rightarrow> k_fs_pup_centry_t"
  cpage_at :: "nat \<Rightarrow> k_fs_pup_centry_page_t"
  partition :: k_fs_part_t
  vol_disk :: k_dev_disk_t

definition upd_entry ::
    "nat \<Rightarrow> (k_fs_pup_centry_t \<Rightarrow> k_fs_pup_centry_t) \<Rightarrow> k_fs_pup_vol_t \<Rightarrow> k_fs_pup_vol_t" where
  "upd_entry e f v = v\<lparr>entry_at := (entry_at v)(e := f (entry_at v e))\<rparr>"

definition upd_cpage ::
    "nat \<Rightarrow> (k_fs_pup_centry_page_t \<Rightarrow> k_fs_pup_centry_page_t) \<Rightarrow> k_fs_pup_vol_t \<Rightarrow> k_fs_pup_vol_t" where
  "upd_cpage p f v = v\<lparr>cpage_at := (cpage_at v)(p := f (cpage_at v p))\<rparr>"

text \<open>The address of an entry in its page, and of the buffer in an entry.\<close>

definition page_entry :: "nat \<Rightarrow> nat \<Rightarrow> nat" where
  "page_entry page index = page + 20 + index * (40 + 0x1000 * 4)"

definition buffer_addr :: "nat \<Rightarrow> nat" where
  "buffer_addr entry = entry + 40"

section \<open>Entry pages\<close>

text \<open>The loop counts down, so that each entry points at the one after it.\<close>

fun init_entries :: "nat \<Rightarrow> nat \<Rightarrow> nat option \<Rightarrow> k_fs_pup_vol_t \<Rightarrow> k_fs_pup_vol_t" where
  "init_entries 0 page next_entry v = v"
| "init_entries (Suc index) page next_entry v =
     init_entries index page (Some (page_entry page index))
       (upd_entry (page_entry page index) (\<lambda>e. e\<lparr>entry_page := page, entry_next := next_entry\<rparr>) v)"

definition k_fs_PupInitCacheEntryPage :: "nat \<Rightarrow> k_fs_pup_vol_t \<Rightarrow> k_fs_pup_vol_t option" where
  "k_fs_PupInitCacheEntryPage page v = do {
     let v = upd_cpage page (\<lambda>p. p\<lparr>cp_next := None, cp_prev := None\<rparr>) v;
     let v = init_entries K_FS_PUP_CENTRY_PAGE_ENTRIES_COUNT page None v;
     let v = upd_cpage page (\<lambda>p. p\<lparr>free_entries := Some (page_entry page 0),
       cp_index := entry_page_count v, used_entries := 0\<rparr>) v;
     let v = v\<lparr>entry_page_count := entry_page_count v + 1\<rparr>;
     v \<leftarrow> (if entry_pages v = None then Some (v\<lparr>entry_pages := Some page\<rparr>)
       else do {
         l \<leftarrow> last_entry_page v;
         let v = upd_cpage page (\<lambda>p. p\<lparr>cp_prev := Some l\<rparr>) v;
         Some (upd_cpage l (\<lambda>p. p\<lparr>cp_next := Some page\<rparr>) v)
       });
     Some (v\<lparr>last_entry_page := Some page\<rparr>)
   }"

text \<open>The search for a page with a free entry; it does not return on a cyclic page list.\<close>

partial_function (option) scan_entry_pages :: "k_fs_pup_vol_t \<Rightarrow> nat option \<Rightarrow> nat option option" where
  "scan_entry_pages v p = (case p of
       None \<Rightarrow> Some None
     | Some a \<Rightarrow> if free_entries (cpage_at v a) = None then scan_entry_pages v (cp_next (cpage_at v a))
         else Some (Some a))"

text \<open>\<open>fresh\<close> is what \<open>k_rt_Malloc\<close> returns for a page; a null page raises an exception.\<close>

definition k_fs_PupAllocCacheEntry :: "nat option \<Rightarrow> k_fs_pup_vol_t \<Rightarrow> (nat \<times> k_fs_pup_vol_t) option" where
  "k_fs_PupAllocCacheEntry fresh v = do {
     cur \<leftarrow> cur_entry_page v;
     (page, v) \<leftarrow> (if free_entries (cpage_at v cur) = None then do {
         found \<leftarrow> scan_entry_pages v (Some cur);
         (page, v) \<leftarrow> (case found of
             Some p \<Rightarrow> Some (p, v)
           | None \<Rightarrow> do {
               (p, v) \<leftarrow> (case freeable_entry_pages v of
                   Some p \<Rightarrow> Some (p, v\<lparr>freeable_entry_pages := cp_next (cpage_at v p)\<rparr>)
                 | None \<Rightarrow> map_option (\<lambda>p. (p, v)) fresh);
               v \<leftarrow> k_fs_PupInitCacheEntryPage p v;
               Some (p, v)
             });
         Some (page, v\<lparr>cur_entry_page := Some page\<rparr>)
       }
       else Some (cur, v));
     entry \<leftarrow> free_entries (cpage_at v page);
     let v = upd_cpage page (\<lambda>p. p\<lparr>free_entries := entry_next (entry_at v entry),
       used_entries := used_entries p + 1\<rparr>) v;
     Some (entry, upd_entry entry (\<lambda>e. e\<lparr>entry_next := None, entry_prev := None, ref_count := 0\<rparr>) v)
   }"

partial_function (option) renumber_pages ::
    "nat option \<Rightarrow> nat \<Rightarrow> k_fs_pup_vol_t \<Rightarrow> k_fs_pup_vol_t option" where
  "renumber_pages used_page index v = (case used_page of
       None \<Rightarrow> Some v
     | Some p \<Rightarrow> renumber_pages (cp_next (cpage_at v p)) (index + 1)
         (upd_cpage p (\<lambda>q. q\<lparr>cp_index := index\<rparr>) v))"

definition unlink_entry_page :: "nat \<Rightarrow> k_fs_pup_vol_t \<Rightarrow> k_fs_pup_vol_t option" where
  "unlink_entry_page page v = do {
     v \<leftarrow> renumber_pages (cp_next (cpage_at v page)) (cp_index (cpage_at v page)) v;
     v \<leftarrow> (if entry_pages v = Some page then do {
         n \<leftarrow> cp_next (cpage_at v page);
         Some (upd_cpage n (\<lambda>p. p\<lparr>cp_prev := None\<rparr>) (v\<lparr>entry_pages := Some n\<rparr>))
       }
       else do {
         b \<leftarrow> cp_prev (cpage_at v page);
         Some (upd_cpage b (\<lambda>p. p\<lparr>cp_next := cp_next (cpage_at v page)\<rparr>) v)
       });
     v \<leftarrow> (if last_entry_page v = Some page then do {
         b \<leftarrow> cp_prev (cpage_at v page);
         Some (upd_cpage b (\<lambda>p. p\<lparr>cp_next := None\<rparr>) (v\<lparr>last_entry_page := Some b\<rparr>))
       }
       else do {
         n \<leftarrow> cp_next (cpage_at v page);
         Some (upd_cpage n (\<lambda>p. p\<lparr>cp_prev := cp_prev (cpage_at v page)\<rparr>) v)
       });
     let v = upd_cpage page (\<lambda>p. p\<lparr>cp_next := freeable_entry_pages v\<rparr>) v;
     let v = v\<lparr>freeable_entry_pages := Some page, entry_page_count := entry_page_count v - 1\<rparr>;
     Some (if cur_entry_page v = Some page then v\<lparr>cur_entry_page := entry_pages v\<rparr> else v)
   }"

definition k_fs_PupFreeCacheEntry :: "nat option \<Rightarrow> k_fs_pup_vol_t \<Rightarrow> k_fs_pup_vol_t option" where
  "k_fs_PupFreeCacheEntry entry v = (case entry of
      None \<Rightarrow> Some v
    | Some e \<Rightarrow> do {
        let page = entry_page (entry_at v e);
        let v = upd_entry e (\<lambda>x. x\<lparr>entry_next := free_entries (cpage_at v page)\<rparr>) v;
        let v = upd_cpage page (\<lambda>p. p\<lparr>free_entries := Some e, used_entries := sub32 (used_entries p) 1\<rparr>) v;
        if used_entries (cpage_at v page) = 0 \<and> 1 < entry_page_count v then unlink_entry_page page v
        else do {
          cur \<leftarrow> cur_entry_page v;
          if cp_index (cpage_at v page) < cp_index (cpage_at v cur)
          then Some (v\<lparr>cur_entry_page := Some page\<rparr>)
          else Some v
        }
      })"

section \<open>The cached entries\<close>

definition k_fs_PupAcquireEntry :: "nat option \<Rightarrow> k_fs_pup_vol_t \<Rightarrow> k_fs_pup_vol_t" where
  "k_fs_PupAcquireEntry entry v = (case entry of
      None \<Rightarrow> v
    | Some e \<Rightarrow> upd_entry e (\<lambda>x. x\<lparr>ref_count := (ref_count x + 1) mod 2 ^ 32\<rparr>) v)"

definition k_fs_PupReleaseEntry :: "nat option \<Rightarrow> k_fs_pup_vol_t \<Rightarrow> k_fs_pup_vol_t" where
  "k_fs_PupReleaseEntry entry v = (case entry of
      None \<Rightarrow> v
    | Some e \<Rightarrow> if ref_count (entry_at v e) \<noteq> 0 then upd_entry e (\<lambda>x. x\<lparr>ref_count := ref_count x - 1\<rparr>) v else v)"

text \<open>The loop of \<open>k_fs_PupFindCacheEntry\<close>; it does not return on a cyclic list.\<close>

partial_function (option) find_entry :: "k_fs_pup_vol_t \<Rightarrow> nat \<Rightarrow> nat option \<Rightarrow> nat option option" where
  "find_entry v block entry = (case entry of
       None \<Rightarrow> Some None
     | Some e \<Rightarrow>
         if block < entry_first_block (entry_at v e) \<or>
           block > entry_first_block (entry_at v e) + (K_FS_PUP_BLOCKS_PER_ENTRY - 1)
         then find_entry v block (entry_next (entry_at v e))
         else Some (Some e))"

definition k_fs_PupFindCacheEntry :: "nat \<Rightarrow> k_fs_pup_vol_t \<Rightarrow> (nat option \<times> k_fs_pup_vol_t) option" where
  "k_fs_PupFindCacheEntry block v = do {
     let v = v\<lparr>read_count := (read_count v + 1) mod 2 ^ 32\<rparr>;
     entry \<leftarrow> find_entry v block (first_entry v);
     let v = k_fs_PupAcquireEntry entry v;
     Some (entry, v\<lparr>read_count := sub32 (read_count v) 1\<rparr>)
   }"

text \<open>The wait for the readers of the set does not end while there is one.\<close>

definition k_fs_PupStashCacheEntry :: "nat \<Rightarrow> k_fs_pup_vol_t \<Rightarrow> k_fs_pup_vol_t option" where
  "k_fs_PupStashCacheEntry entry v =
     (if read_count v \<noteq> 0 then None
      else do {
        v \<leftarrow> (if first_entry v = None then Some (v\<lparr>first_entry := Some entry\<rparr>)
          else do {
            l \<leftarrow> last_entry v;
            Some (upd_entry l (\<lambda>e. e\<lparr>entry_next := Some entry\<rparr>) v)
          });
        Some (v\<lparr>last_entry := Some entry\<rparr>)
      })"

definition entry_block_of :: "nat \<Rightarrow> nat" where
  "entry_block_of block = unat (word_of_nat block AND 0xfffffffffffffffc :: u64)"

definition load_entry :: "disk_wait \<Rightarrow> nat \<Rightarrow> k_fs_pup_vol_t \<Rightarrow> k_fs_pup_vol_t option" where
  "load_entry wait e v = do {
     ((_, buf), d) \<leftarrow> k_fs_ReadVolumeBlocks wait (partition v) 0x1000 (entry_first_block (entry_at v e))
       K_FS_PUP_BLOCKS_PER_ENTRY (buffer_addr e, entry_buffer (entry_at v e)) (vol_disk v);
     Some (upd_entry e (\<lambda>x. x\<lparr>entry_buffer := buf,
       entry_flags := entry_flags x AND NOT K_FS_PUP_CENTRY_FLAG_PENDING, entry_condition := True\<rparr>) (v\<lparr>vol_disk := d\<rparr>))
   }"

text \<open>
  \<open>holder\<close> is \<open>None\<close> when the try lock of the set succeeds, and otherwise what the thread that holds
  the lock does to the volume until it lets go.
\<close>

definition k_fs_PupFindOrLoadCacheEntry ::
    "disk_wait \<Rightarrow> nat option \<Rightarrow> (k_fs_pup_vol_t \<Rightarrow> k_fs_pup_vol_t) option \<Rightarrow> nat \<Rightarrow> k_fs_pup_vol_t \<Rightarrow>
     (nat \<times> k_fs_pup_vol_t) option" where
  "k_fs_PupFindOrLoadCacheEntry wait fresh holder block v = do {
     (entry, v) \<leftarrow> k_fs_PupFindCacheEntry block v;
     (entry, v) \<leftarrow> (case entry of
         Some e \<Rightarrow> Some (Some e, v)
       | None \<Rightarrow> (case holder of
           None \<Rightarrow> do {
             (e, v) \<leftarrow> k_fs_PupAllocCacheEntry fresh v;
             let v = upd_entry e (\<lambda>x. x\<lparr>entry_flags := entry_flags x OR K_FS_PUP_CENTRY_FLAG_PENDING,
               entry_first_block := entry_block_of block\<rparr>) v;
             v \<leftarrow> k_fs_PupStashCacheEntry e v;
             v \<leftarrow> load_entry wait e v;
             Some (Some e, v)
           }
         | Some f \<Rightarrow> k_fs_PupFindCacheEntry block (f v)));
     e \<leftarrow> entry;
     if entry_flags (entry_at v e) AND K_FS_PUP_CENTRY_FLAG_PENDING \<noteq> 0 \<and> \<not> entry_condition (entry_at v e)
     then None
     else Some (e, v)
   }"

definition k_fs_PupStoreCacheEntry :: "disk_wait \<Rightarrow> nat \<Rightarrow> k_fs_pup_vol_t \<Rightarrow> k_fs_pup_vol_t option" where
  "k_fs_PupStoreCacheEntry wait e v = do {
     d \<leftarrow> k_fs_WriteVolumeBlocks wait (partition v) 0x1000 (entry_first_block (entry_at v e))
       K_FS_PUP_BLOCKS_PER_ENTRY (buffer_addr e, entry_buffer (entry_at v e)) (vol_disk v);
     Some (upd_entry e (\<lambda>x. x\<lparr>entry_flags := entry_flags x AND NOT K_FS_PUP_CENTRY_FLAG_DIRTY\<rparr>) (v\<lparr>vol_disk := d\<rparr>))
   }"

partial_function (option) flush_entries ::
    "disk_wait \<Rightarrow> nat option \<Rightarrow> k_fs_pup_vol_t \<Rightarrow> k_fs_pup_vol_t option" where
  "flush_entries wait entry v = (case entry of
       None \<Rightarrow> Some v
     | Some e \<Rightarrow> do {
         v \<leftarrow> k_fs_PupStoreCacheEntry wait e v;
         flush_entries wait (entry_next (entry_at v e)) v
       })"

definition k_fs_PupFlushCache :: "disk_wait \<Rightarrow> k_fs_pup_vol_t \<Rightarrow> k_fs_pup_vol_t option" where
  "k_fs_PupFlushCache wait v = flush_entries wait (first_entry v) v"

section \<open>Reading\<close>

text \<open>The offset of a block in the buffer of its entry.\<close>

definition k_fs_PupGetBlock :: "nat \<Rightarrow> nat \<Rightarrow> k_fs_pup_vol_t \<Rightarrow> nat" where
  "k_fs_PupGetBlock block e v = mul32 (sub32 (block mod 2 ^ 32) (entry_first_block (entry_at v e) mod 2 ^ 32)) 0x1000"

partial_function (option) pup_read_loop ::
    "disk_wait \<Rightarrow> nat option \<Rightarrow> nat \<Rightarrow> nat \<Rightarrow> nat \<Rightarrow> nat \<Rightarrow> nat \<times> bytes \<Rightarrow> k_fs_pup_vol_t \<Rightarrow>
     (bytes \<times> k_fs_pup_vol_t) option" where
  "pup_read_loop wait fresh block last_block block_count buffer_cursor buffer v =
     (if block < last_block then do {
        (e, v) \<leftarrow> k_fs_PupFindOrLoadCacheEntry wait fresh None block v;
        let block_offset = block - entry_first_block (entry_at v e);
        let copy_size = K_FS_PUP_BLOCKS_PER_ENTRY - block_offset;
        let copy_size = (if copy_size > block_count then block_count else copy_size);
        buf \<leftarrow> k_rt_CopyBytes (fst buffer + buffer_cursor) (buffer_addr e + block_offset * 0x1000)
          (snd buffer) buffer_cursor (entry_buffer (entry_at v e)) (block_offset * 0x1000) (copy_size * 0x1000);
        let v = k_fs_PupReleaseEntry (Some e) v;
        pup_read_loop wait fresh (block + copy_size) last_block (block_count - copy_size)
          (buffer_cursor + copy_size * 0x1000) (fst buffer, buf) v
      }
      else Some (snd buffer, v))"

definition k_fs_PupRead ::
    "disk_wait \<Rightarrow> nat option \<Rightarrow> nat \<Rightarrow> nat \<Rightarrow> nat \<times> bytes \<Rightarrow> k_fs_pup_vol_t \<Rightarrow> (bytes \<times> k_fs_pup_vol_t) option" where
  "k_fs_PupRead wait fresh block block_count buffer v =
     (if 0 < block_count
      then pup_read_loop wait fresh block (block + block_count) block_count 0 buffer v
      else Some (snd buffer, v))"


section \<open>The cache agrees with the volume\<close>

text \<open>An entry holds four blocks of the volume \<open>vol\<close>.\<close>

definition entry_valid :: "bytes \<Rightarrow> k_fs_pup_centry_t \<Rightarrow> bool" where
  "entry_valid vol e \<longleftrightarrow> 4 dvd entry_first_block e \<and> (entry_first_block e + 4) * 4096 \<le> length vol \<and>
     entry_buffer e = take (4 * 4096) (drop (entry_first_block e * 4096) vol) \<and>
     entry_flags e AND K_FS_PUP_CENTRY_FLAG_PENDING = 0"

text \<open>The set lists the entries \<open>es\<close>, all valid, and page \<open>p\<close> has the free entries \<open>fs\<close>.\<close>

definition cache_rep :: "bytes \<Rightarrow> k_fs_pup_vol_t \<Rightarrow> nat list \<Rightarrow> nat \<Rightarrow> nat list \<Rightarrow> bool" where
  "cache_rep vol v es p fs \<longleftrightarrow>
     chain (\<lambda>a. entry_next (entry_at v a)) (first_entry v) es \<and> (es \<noteq> [] \<longrightarrow> last_entry v = Some (last es)) \<and>
     cur_entry_page v = Some p \<and> chain (\<lambda>a. entry_next (entry_at v a)) (free_entries (cpage_at v p)) fs \<and>
     set es \<inter> set fs = {} \<and> (\<forall>e \<in> set es. entry_valid vol (entry_at v e)) \<and>
     (\<forall>e \<in> set fs. length (entry_buffer (entry_at v e)) = 4 * 4096) \<and> read_count v = 0"

lemma cache_repD:
  assumes "cache_rep vol v es p fs"
  shows "chain (\<lambda>a. entry_next (entry_at v a)) (first_entry v) es" "es \<noteq> [] \<Longrightarrow> last_entry v = Some (last es)"
    "cur_entry_page v = Some p" "chain (\<lambda>a. entry_next (entry_at v a)) (free_entries (cpage_at v p)) fs"
    "set es \<inter> set fs = {}" "\<And>e. e \<in> set es \<Longrightarrow> entry_valid vol (entry_at v e)"
    "\<And>e. e \<in> set fs \<Longrightarrow> length (entry_buffer (entry_at v e)) = 4 * 4096" "read_count v = 0"
  using assms by (simp_all add: cache_rep_def)

lemma cache_rep_refs:
  assumes "entry_at w = (entry_at v)(e := (entry_at v e)\<lparr>ref_count := n\<rparr>)"
    and "first_entry w = first_entry v" "last_entry w = last_entry v" "cur_entry_page w = cur_entry_page v"
    and "cpage_at w = cpage_at v" "read_count w = read_count v"
  shows "cache_rep vol w es p fs = cache_rep vol v es p fs"
proof -
  have n: "(\<lambda>a. entry_next (entry_at w a)) = (\<lambda>a. entry_next (entry_at v a))"
    and f: "entry_valid vol (entry_at w a) = entry_valid vol (entry_at v a)"
    and l: "length (entry_buffer (entry_at w a)) = length (entry_buffer (entry_at v a))" for a
    unfolding assms(1) by (auto simp: entry_valid_def)
  show ?thesis unfolding cache_rep_def n f l assms(2-6) ..
qed

lemma find_entry_chain:
  "chain (\<lambda>a. entry_next (entry_at v a)) q es \<Longrightarrow>
   find_entry v b q = Some None \<or>
   (\<exists>e. find_entry v b q = Some (Some e) \<and> e \<in> set es \<and> entry_first_block (entry_at v e) \<le> b \<and>
      b \<le> entry_first_block (entry_at v e) + 3)"
proof (induction es arbitrary: q)
  case Nil
  then show ?case by (subst find_entry.simps) simp
next
  case (Cons a as)
  then have q: "q = Some a" "chain (\<lambda>a. entry_next (entry_at v a)) (entry_next (entry_at v a)) as"
    by (auto split: option.splits dest: chain_hd)
  show ?case
  proof (cases "b < entry_first_block (entry_at v a) \<or> b > entry_first_block (entry_at v a) + 3")
    case True
    then have "find_entry v b q = find_entry v b (entry_next (entry_at v a))"
      by (subst find_entry.simps) (simp add: q K_FS_PUP_BLOCKS_PER_ENTRY_def)
    then show ?thesis using Cons.IH [OF q(2)] by auto
  next
    case False
    then have "find_entry v b q = Some (Some a)"
      by (subst find_entry.simps) (simp add: q K_FS_PUP_BLOCKS_PER_ENTRY_def)
    then show ?thesis using False by auto
  qed
qed

lemma FindCacheEntry_rep:
  assumes r: "cache_rep vol v es p fs"
  shows "\<exists>w. cache_rep vol w es p fs \<and> partition w = partition v \<and> vol_disk w = vol_disk v \<and>
    (k_fs_PupFindCacheEntry b v = Some (None, w) \<or>
     (\<exists>e \<in> set es. k_fs_PupFindCacheEntry b v = Some (Some e, w) \<and> entry_first_block (entry_at w e) \<le> b \<and>
        b \<le> entry_first_block (entry_at w e) + 3))"
proof -
  let ?v = "v\<lparr>read_count := 1\<rparr>"
  note d = cache_repD [OF r]
  have c: "chain (\<lambda>a. entry_next (entry_at ?v a)) (first_entry v) es" using d(1) by simp
  consider "find_entry ?v b (first_entry v) = Some None"
    | e where "find_entry ?v b (first_entry v) = Some (Some e)" "e \<in> set es"
        "entry_first_block (entry_at v e) \<le> b" "b \<le> entry_first_block (entry_at v e) + 3"
    using find_entry_chain [OF c, of b] by auto
  then show ?thesis
  proof cases
    case 1
    then have run: "k_fs_PupFindCacheEntry b v = Some (None, v\<lparr>read_count := 0\<rparr>)"
      using d(8) by (simp add: k_fs_PupFindCacheEntry_def k_fs_PupAcquireEntry_def sub32_small)
    have "v\<lparr>read_count := 0\<rparr> = v" using d(8) by (cases v) simp
    then show ?thesis using run r by auto
  next
    case 2
    let ?w = "(upd_entry e (\<lambda>x. x\<lparr>ref_count := (ref_count x + 1) mod 2 ^ 32\<rparr>) v)\<lparr>read_count := 0\<rparr>"
    have run: "k_fs_PupFindCacheEntry b v = Some (Some e, ?w)"
      using d(8) 2(1) by (simp add: k_fs_PupFindCacheEntry_def k_fs_PupAcquireEntry_def sub32_small upd_entry_def)
    have "cache_rep vol ?w es p fs = cache_rep vol v es p fs"
      by (rule cache_rep_refs [of _ _ e "(ref_count (entry_at v e) + 1) mod 2 ^ 32"])
        (simp_all add: upd_entry_def d(8))
    with run r 2 show ?thesis by (auto simp: upd_entry_def)
  qed
qed

lemma entry_block_of_div: "b < 2 ^ 64 \<Longrightarrow> entry_block_of b = 4 * (b div 4)"
proof -
  assume b: "b < 2 ^ 64"
  have m: "(0xfffffffffffffffc :: u64) = NOT (mask 2)" by (simp add: mask_eq_exp_minus_1)
  have u: "unat (word_of_nat b :: u64) = b" using b by (simp add: unat_of_nat)
  have "take_bit LENGTH(64) b = b" using b by (simp add: take_bit_nat_eq_self)
  then have "entry_block_of b = take_bit LENGTH(64) (push_bit 2 (drop_bit 2 b))"
    unfolding entry_block_of_def m and_not_mask by (simp only: unsigned_push_bit_eq unsigned_drop_bit_eq u)
  moreover have "push_bit 2 (drop_bit 2 b) = 4 * (b div 4)" by (simp add: push_bit_eq_mult drop_bit_eq_div)
  moreover have "4 * (b div 4) < 2 ^ 64" using b by simp
  ultimately show ?thesis by (simp add: take_bit_nat_eq_self)
qed


section \<open>Loading\<close>

lemma AllocCacheEntry_free:
  assumes "cur_entry_page v = Some p" "free_entries (cpage_at v p) = Some f"
  shows "k_fs_PupAllocCacheEntry fresh v = Some (f, v
    \<lparr>cpage_at := (cpage_at v)(p := (cpage_at v p)\<lparr>free_entries := entry_next (entry_at v f),
       used_entries := used_entries (cpage_at v p) + 1\<rparr>),
     entry_at := (entry_at v)(f := (entry_at v f)\<lparr>entry_next := None, entry_prev := None, ref_count := 0\<rparr>)\<rparr>)"
  using assms by (simp add: k_fs_PupAllocCacheEntry_def upd_cpage_def upd_entry_def Let_def)

text \<open>The state after a free entry has been put at the end of the set, before its blocks arrive.\<close>

definition stashed ::
    "k_fs_pup_vol_t \<Rightarrow> nat list \<Rightarrow> nat \<Rightarrow> nat \<Rightarrow> k_fs_pup_centry_t \<Rightarrow> k_fs_pup_vol_t" where
  "stashed v es p f e = v
    \<lparr>cpage_at := (cpage_at v)(p := (cpage_at v p)\<lparr>free_entries := entry_next (entry_at v f),
       used_entries := used_entries (cpage_at v p) + 1\<rparr>),
     entry_at := (if es = [] then (entry_at v)(f := e)
       else (entry_at v)(f := e, last es := (entry_at v (last es))\<lparr>entry_next := Some f\<rparr>)),
     first_entry := (if es = [] then Some f else first_entry v), last_entry := Some f\<rparr>"

definition fresh_entry :: "k_fs_pup_centry_t \<Rightarrow> nat \<Rightarrow> k_fs_pup_centry_t" where
  "fresh_entry e b = e\<lparr>entry_next := None, entry_prev := None, ref_count := 0,
     entry_flags := entry_flags e OR K_FS_PUP_CENTRY_FLAG_PENDING, entry_first_block := b\<rparr>"

lemma alloc_stash:
  assumes r: "cache_rep vol v es p (f # fs)"
  shows "\<exists>w. k_fs_PupAllocCacheEntry fresh v = Some (f, w) \<and> k_fs_PupStashCacheEntry f
      (upd_entry f (\<lambda>x. x\<lparr>entry_flags := entry_flags x OR K_FS_PUP_CENTRY_FLAG_PENDING, entry_first_block := b\<rparr>) w) =
    Some (stashed v es p f (fresh_entry (entry_at v f) b))"
proof -
  note d = cache_repD [OF r]
  have f: "free_entries (cpage_at v p) = Some f" using d(4) by (simp add: chain_Some split: option.splits)
  have fe: "first_entry v = None \<longleftrightarrow> es = []" using chain_hd [OF d(1)] by auto
  have "es \<noteq> [] \<Longrightarrow> last es \<noteq> f" using d(5) last_in_set by fastforce
  then show ?thesis
    using d(2,8) fe
    by (auto simp: AllocCacheEntry_free [OF d(3) f] k_fs_PupStashCacheEntry_def stashed_def fresh_entry_def
        upd_entry_def fun_upd_twist)
qed

lemma stashed_fields:
  "vol_disk (stashed v es p f e) = vol_disk v" "partition (stashed v es p f e) = partition v"
  "entry_at (stashed v es p f e) f = (if es \<noteq> [] \<and> last es = f then (entry_at v f)\<lparr>entry_next := Some f\<rparr> else e)"
  by (auto simp: stashed_def)

text \<open>The entry is valid once its buffer holds the blocks.\<close>

lemma stashed_rep:
  assumes r: "cache_rep vol v es p (f # fs)" and e: "entry_next e = None" "entry_valid vol e"
  shows "cache_rep vol ((stashed v es p f e)\<lparr>vol_disk := d\<rparr>) (es @ [f]) p fs"
proof -
  let ?w = "(stashed v es p f e)\<lparr>vol_disk := d\<rparr>"
  let ?nx = "\<lambda>a. entry_next (entry_at v a)" and ?ny = "\<lambda>a. entry_next (entry_at ?w a)"
  note d = cache_repD [OF r]
  have dis: "f \<notin> set es" "f \<notin> set fs" "set es \<inter> set fs = {}"
    using d(5) chain_distinct [OF d(4)] by auto
  have l: "es \<noteq> [] \<Longrightarrow> last es \<in> set es \<and> last es \<noteq> f" using dis(1) last_in_set by fastforce
  have ny: "?ny = (if es = [] then ?nx(f := None) else ?nx(last es := Some f, f := None))"
    using l e(1) by (auto simp: stashed_def fun_eq_iff)
  have fs: "chain ?ny (entry_next (entry_at v f)) fs"
  proof -
    have c: "chain ?nx (entry_next (entry_at v f)) fs" using d(4) by (simp add: chain_Some split: option.splits)
    have eq: "?ny a = ?nx a" if "a \<in> set fs" for a
    proof -
      have "a \<noteq> f" "es \<noteq> [] \<Longrightarrow> a \<noteq> last es" using that dis l by (blast, metis disjoint_iff)
      then have "(if es = [] then ?nx(f := None) else ?nx(last es := Some f, f := None)) a = ?nx a"
        by (cases "es = []") simp_all
      then show ?thesis using fun_cong [OF ny, of a] by (rule trans [rotated])
    qed
    have "chain ?ny (entry_next (entry_at v f)) fs = chain ?nx (entry_next (entry_at v f)) fs"
      by (rule chain_cong) (rule eq)
    with c show ?thesis by (simp only:)
  qed
  have es: "chain ?ny (first_entry ?w) (es @ [f])"
  proof (cases "es = []")
    case True
    then show ?thesis using e(1) by (simp add: ny chain_Some stashed_def)
  next
    case False
    have "?ny = ?nx(last es := Some f, f := None)" unfolding ny using False by (simp only: if_False)
    moreover have "first_entry ?w = first_entry v" using False by (simp add: stashed_def)
    ultimately show ?thesis using chain_snoc [OF d(1) False dis(1)] by (simp only:)
  qed
  have val: "entry_valid vol (entry_at ?w a)" if "a \<in> set (es @ [f])" for a
  proof (cases "a = f")
    case True
    then show ?thesis using e(2) l by (auto simp: stashed_def)
  next
    case False
    then have "entry_valid vol (entry_at v a)" using that d(6) by auto
    then show ?thesis using False by (auto simp: stashed_def entry_valid_def)
  qed
  have len: "length (entry_buffer (entry_at ?w a)) = 4 * 4096" if "a \<in> set fs" for a
    using that dis l d(7) [of a] by (auto simp: stashed_def)
  have rest: "cur_entry_page ?w = Some p" "free_entries (cpage_at ?w p) = entry_next (entry_at v f)"
    "read_count ?w = 0" "last_entry ?w = Some f"
    using d(3,8) by (simp_all add: stashed_def)
  show ?thesis
    unfolding cache_rep_def rest using es fs dis val len by simp
qed

lemma ReleaseEntry_rep:
  "cache_rep vol (k_fs_PupReleaseEntry e v) es p fs = cache_rep vol v es p fs \<and>
   vol_disk (k_fs_PupReleaseEntry e v) = vol_disk v \<and> partition (k_fs_PupReleaseEntry e v) = partition v"
proof (cases e)
  case (Some a)
  have "cache_rep vol (upd_entry a (\<lambda>x. x\<lparr>ref_count := ref_count x - 1\<rparr>) v) es p fs = cache_rep vol v es p fs"
    by (rule cache_rep_refs [of _ _ a "ref_count (entry_at v a) - 1"]) (simp_all add: upd_entry_def)
  then show ?thesis by (simp add: k_fs_PupReleaseEntry_def Some upd_entry_def)
qed (simp add: k_fs_PupReleaseEntry_def)

lemma entry_slice:
  assumes "entry_valid vol e" "entry_first_block e = 4 * (b div 4)" "k \<le> 4 - b mod 4"
  shows "take (k * 4096) (drop (b mod 4 * 4096) (entry_buffer e)) = take (k * 4096) (drop (b * 4096) vol)"
proof -
  have "b mod 4 * 4096 + 4 * (b div 4) * 4096 = b * 4096"
    by (simp only: add_mult_distrib [symmetric] mod_mult_div_eq)
  then have d: "drop (b mod 4 * 4096) (drop (4 * (b div 4) * 4096) vol) = drop (b * 4096) vol"
    by (simp only: drop_drop)
  have "k * 4096 \<le> 4 * 4096 - b mod 4 * 4096" using assms(3) by simp
  then show ?thesis using assms(1,2) by (simp only: entry_valid_def drop_take d take_take min_absorb1)
qed

text \<open>Loading an entry does not touch the root block or the bitmap.\<close>

lemma FindCacheEntry_keeps:
  "k_fs_PupFindCacheEntry b v = Some (e, w) \<Longrightarrow> root w = root v \<and> block_bitmask w = block_bitmask v"
  by (auto simp: k_fs_PupFindCacheEntry_def k_fs_PupAcquireEntry_def upd_entry_def Let_def
      split: Option.bind_splits option.splits)

lemma StashCacheEntry_keeps:
  "k_fs_PupStashCacheEntry e v = Some w \<Longrightarrow> root w = root v \<and> block_bitmask w = block_bitmask v"
  by (auto simp: k_fs_PupStashCacheEntry_def upd_entry_def split: Option.bind_splits if_splits)

lemma InitCacheEntryPage_keeps:
  assumes "k_fs_PupInitCacheEntryPage p v = Some w"
  shows "root w = root v \<and> block_bitmask w = block_bitmask v"
proof -
  have "root (init_entries n p nx u) = root u \<and> block_bitmask (init_entries n p nx u) = block_bitmask u" for n nx u
    by (induction n arbitrary: nx u) (simp_all add: upd_entry_def)
  then show ?thesis using assms
    by (auto simp: k_fs_PupInitCacheEntryPage_def upd_cpage_def Let_def split: Option.bind_splits if_splits)
qed

lemma AllocCacheEntry_keeps:
  "k_fs_PupAllocCacheEntry fresh v = Some (e, w) \<Longrightarrow> root w = root v \<and> block_bitmask w = block_bitmask v"
  by (auto simp: k_fs_PupAllocCacheEntry_def upd_cpage_def upd_entry_def Let_def
      split: Option.bind_splits option.splits if_splits dest!: InitCacheEntryPage_keeps)

lemma load_entry_keeps:
  "load_entry wait e v = Some w \<Longrightarrow> root w = root v \<and> block_bitmask w = block_bitmask v"
  by (auto simp: load_entry_def upd_entry_def split: Option.bind_splits)

lemma FindOrLoad_keeps:
  "k_fs_PupFindOrLoadCacheEntry wait fresh None b v = Some (e, w) \<Longrightarrow>
   root w = root v \<and> block_bitmask w = block_bitmask v"
  by (auto simp: k_fs_PupFindOrLoadCacheEntry_def upd_entry_def Let_def
      split: Option.bind_splits option.splits if_splits
      dest!: FindCacheEntry_keeps AllocCacheEntry_keeps StashCacheEntry_keeps load_entry_keeps)

context block_volume
begin

lemma FindOrLoadCacheEntry_ok:
  assumes r: "cache_rep (volume_bytes part (vol_disk v)) v es p fs" and v: "vok (vol_disk v)" "partition v = part"
    and b: "(4 * (b div 4) + 4) * 4096 \<le> length (volume_bytes part (vol_disk v))" "b < 2 ^ 64" "fs \<noteq> []"
  shows "\<exists>e w es' fs'. k_fs_PupFindOrLoadCacheEntry wait fresh None b v = Some (e, w) \<and>
    cache_rep (volume_bytes part (vol_disk w)) w es' p fs' \<and> vok (vol_disk w) \<and> partition w = part \<and>
    volume_bytes part (vol_disk w) = volume_bytes part (vol_disk v) \<and> length fs \<le> length fs' + 1 \<and>
    e \<in> set es' \<and> entry_first_block (entry_at w e) = 4 * (b div 4)"
proof -
  let ?vol = "volume_bytes part (vol_disk v)"
  obtain w where w: "cache_rep ?vol w es p fs" "partition w = part" "vol_disk w = vol_disk v"
    and found: "k_fs_PupFindCacheEntry b v = Some (None, w) \<or>
      (\<exists>e \<in> set es. k_fs_PupFindCacheEntry b v = Some (Some e, w) \<and> entry_first_block (entry_at w e) \<le> b \<and>
        b \<le> entry_first_block (entry_at w e) + 3)"
    using FindCacheEntry_rep [OF r, of b] v(2) by auto
  from found show ?thesis
  proof
    assume "\<exists>e \<in> set es. k_fs_PupFindCacheEntry b v = Some (Some e, w) \<and> entry_first_block (entry_at w e) \<le> b \<and>
        b \<le> entry_first_block (entry_at w e) + 3"
    then obtain e where e: "e \<in> set es" "k_fs_PupFindCacheEntry b v = Some (Some e, w)"
      "entry_first_block (entry_at w e) \<le> b" "b \<le> entry_first_block (entry_at w e) + 3" by blast
    have val: "entry_valid ?vol (entry_at w e)" using cache_repD(6) [OF w(1) e(1)] .
    then have "4 dvd entry_first_block (entry_at w e)" by (simp add: entry_valid_def)
    then have "entry_first_block (entry_at w e) = 4 * (b div 4)" using e(3,4) by presburger
    moreover have "k_fs_PupFindOrLoadCacheEntry wait fresh None b v = Some (e, w)"
      using e(2) val by (simp add: k_fs_PupFindOrLoadCacheEntry_def entry_valid_def)
    ultimately show ?thesis using w v(1) e(1)
      by (intro exI [of _ e] exI [of _ w] exI [of _ es] exI [of _ fs]) simp
  next
    assume miss: "k_fs_PupFindCacheEntry b v = Some (None, w)"
    obtain f fs' where fs: "fs = f # fs'" using b(3) by (cases fs) auto
    let ?e = "fresh_entry (entry_at w f) (4 * (b div 4))" and ?s = "stashed w es p f (fresh_entry (entry_at w f) (4 * (b div 4)))"
    note rw = w(1) [unfolded fs]
    have lf: "\<not> (es \<noteq> [] \<and> last es = f)" using cache_repD(5) [OF rw] last_in_set [of es] by auto
    have at: "entry_at ?s f = ?e" using lf by (auto simp: stashed_fields(3))
    have len: "length (entry_buffer ?e) = 4 * 4096" using cache_repD(7) [OF rw, of f] by (simp add: fresh_entry_def)
    obtain d where d: "k_fs_ReadVolumeBlocks wait part 4096 (4 * (b div 4)) 4 (buffer_addr f, entry_buffer ?e) (vol_disk v) =
        Some ((buffer_addr f, blit (entry_buffer ?e) 0 (take (4 * 4096) (drop (4 * (b div 4) * 4096) ?vol))), d)"
        "vok d" "volume_bytes part d = ?vol"
      using read_blocks [OF v(1), of "buffer_addr f" 4 "4 * (b div 4)" "entry_buffer ?e"] b(1) len
      by (auto simp: buffer_addr_def)
    have bl: "blit (entry_buffer ?e) 0 (take (4 * 4096) (drop (4 * (b div 4) * 4096) ?vol)) =
        take (4 * 4096) (drop (4 * (b div 4) * 4096) ?vol)"
      using len b(1) by (simp add: blit_def)
    define x where "x = ?e\<lparr>entry_buffer := take (4 * 4096) (drop (4 * (b div 4) * 4096) ?vol),
      entry_flags := entry_flags ?e AND NOT K_FS_PUP_CENTRY_FLAG_PENDING, entry_condition := True\<rparr>"
    let ?w = "(stashed w es p f x)\<lparr>vol_disk := d\<rparr>"
    have load: "load_entry wait f ?s = Some ?w"
      using d(1) bl w(2,3) at lf
      by (simp add: load_entry_def stashed_fields K_FS_PUP_BLOCKS_PER_ENTRY_def fresh_entry_def upd_entry_def)
        (auto simp: stashed_def x_def fresh_entry_def fun_upd_twist)
    have x: "entry_next x = None" "entry_valid ?vol x" "entry_first_block x = 4 * (b div 4)"
      using b(1) by (simp_all add: x_def fresh_entry_def entry_valid_def and.assoc)
    have wf: "entry_at ?w f = x" using lf by (auto simp: stashed_def)
    have run: "k_fs_PupFindOrLoadCacheEntry wait fresh None b v = Some (f, ?w)"
      using miss alloc_stash [OF rw, of fresh "4 * (b div 4)"] load wf x(2)
      by (auto simp: k_fs_PupFindOrLoadCacheEntry_def entry_block_of_div [OF b(2)] entry_valid_def)
    have "cache_rep ?vol ?w (es @ [f]) p fs'" by (rule stashed_rep [OF rw x(1,2)])
    then show ?thesis using run d w(2) wf x(3) fs
      by (intro exI [of _ f] exI [of _ ?w] exI [of _ "es @ [f]"] exI [of _ fs']) (simp add: stashed_fields)
  qed
qed

lemma pup_read_loop_ok:
  assumes "cache_rep (volume_bytes part (vol_disk v)) v es p fs" "vok (vol_disk v)" "partition v = part"
    and "0 < n \<Longrightarrow> (4 * ((b + n - 1) div 4) + 4) * 4096 \<le> length (volume_bytes part (vol_disk v))"
    and "b + n < 2 ^ 64" "n \<le> length fs" "0 < a" "c + n * 4096 \<le> length buf"
  shows "\<exists>w es' fs'. pup_read_loop wait fresh b (b + n) n c (a, buf) v =
      Some (blit buf c (take (n * 4096) (drop (b * 4096) (volume_bytes part (vol_disk v)))), w) \<and>
    cache_rep (volume_bytes part (vol_disk w)) w es' p fs' \<and> vok (vol_disk w) \<and> partition w = part \<and>
    volume_bytes part (vol_disk w) = volume_bytes part (vol_disk v)"
  using assms
proof (induction n arbitrary: b c buf v es fs rule: less_induct)
  case (less n)
  let ?vol = "volume_bytes part (vol_disk v)"
  show ?case
  proof (cases "n = 0")
    case True
    then have "pup_read_loop wait fresh b (b + n) n c (a, buf) v = Some (buf, v)"
      by (subst pup_read_loop.simps) simp
    then show ?thesis using less.prems(1-3) True by auto
  next
    case False
    have "b div 4 \<le> (b + n - 1) div 4" using False by (intro div_le_mono) simp
    then have bnd: "(4 * (b div 4) + 4) * 4096 \<le> length ?vol" using less.prems(4) False by simp
    have b: "b < 2 ^ 64" "fs \<noteq> []" using less.prems(5,6) False by auto
    obtain e w es' fs' where e: "k_fs_PupFindOrLoadCacheEntry wait fresh None b v = Some (e, w)"
        "cache_rep (volume_bytes part (vol_disk w)) w es' p fs'" "vok (vol_disk w)" "partition w = part"
        "volume_bytes part (vol_disk w) = ?vol" "length fs \<le> length fs' + 1"
        "e \<in> set es'" "entry_first_block (entry_at w e) = 4 * (b div 4)"
      using FindOrLoadCacheEntry_ok [OF less.prems(1-3) bnd b] by blast
    define k where "k = min (4 - b mod 4) n"
    have k: "0 < k" "k \<le> n" "k \<le> 4 - b mod 4" "n - k < n" "b + k + (n - k) = b + n"
      using False by (auto simp: k_def)
    have val: "entry_valid ?vol (entry_at w e)" using cache_repD(6) [OF e(2,7)] e(5) by simp
    have len: "length (entry_buffer (entry_at w e)) = 4 * 4096"
      using val by (auto simp: entry_valid_def)
    let ?s = "take (k * 4096) (drop (b * 4096) ?vol)"
    have off: "b - 4 * (b div 4) = b mod 4" by (simp add: minus_mult_div_eq_mod)
    have sz: "(if 4 - b mod 4 > n then n else 4 - b mod 4) = k" by (simp add: k_def min_def)
    have "k * 4096 \<le> n * 4096" using k(2) by (rule mult_le_mono1)
    then have fit1: "c + k * 4096 \<le> length buf" using less.prems(8) by linarith
    have "b mod 4 + k \<le> 4" using k(3) mod_less_divisor [of 4 b] by linarith
    then have "(b mod 4 + k) * 4096 \<le> 4 * 4096" by (rule mult_le_mono1)
    then have fit: "c + k * 4096 \<le> length buf" "b mod 4 * 4096 + k * 4096 \<le> length (entry_buffer (entry_at w e))"
      using fit1 by (simp_all only: len add_mult_distrib)
    have copy: "k_rt_CopyBytes (a + c) (buffer_addr e + b mod 4 * 4096) buf c (entry_buffer (entry_at w e))
        (b mod 4 * 4096) (k * 4096) = Some (blit buf c ?s)"
      using copy_bytes_exec [of "a + c" "buffer_addr e + b mod 4 * 4096" c buf "b mod 4 * 4096"
          "entry_buffer (entry_at w e)" "k * 4096"] less.prems(7) fit
        copy_bytes_in [OF fit] entry_slice [OF val e(8) k(3)] by (simp add: buffer_addr_def)
    let ?r = "k_fs_PupReleaseEntry (Some e) w"
    have step: "pup_read_loop wait fresh b (b + n) n c (a, buf) v =
        pup_read_loop wait fresh (b + k) (b + n) (n - k) (c + k * 4096) (a, blit buf c ?s) ?r"
    proof -
      have "b < b + n" using False by simp
      then show ?thesis
        by (subst pup_read_loop.simps)
          (simp only: if_True e(1,8) off sz K_FS_PUP_BLOCKS_PER_ENTRY_def Let_def Option.bind.bind_lunit prod.case
            fst_conv snd_conv copy)
    qed
    have r: "cache_rep (volume_bytes part (vol_disk ?r)) ?r es' p fs'" "vok (vol_disk ?r)" "partition ?r = part"
        "volume_bytes part (vol_disk ?r) = ?vol"
      using e(2-5) ReleaseEntry_rep [of _ "Some e" w es' p fs'] by simp_all
    have ls: "length ?s = k * 4096"
    proof -
      have "b + k \<le> 4 * (b div 4) + 4" using k(3) mult_div_mod_eq [of 4 b] by linarith
      then have "(b + k) * 4096 \<le> length ?vol" using bnd by (meson le_trans mult_le_mono1)
      then show ?thesis by simp
    qed
    have g: "0 < n - k \<Longrightarrow> (4 * ((b + k + (n - k) - 1) div 4) + 4) * 4096 \<le> length (volume_bytes part (vol_disk ?r))"
        "b + k + (n - k) < 2 ^ 64" "n - k \<le> length fs'" "c + k * 4096 + (n - k) * 4096 \<le> length (blit buf c ?s)"
      unfolding r(4) k(5) using less.prems(4,5,6,8) k(1,2) e(6) ls False by (simp_all add: diff_mult_distrib)
    obtain x es'' fs'' where x: "pup_read_loop wait fresh (b + k) (b + k + (n - k)) (n - k) (c + k * 4096) (a, blit buf c ?s) ?r =
        Some (blit (blit buf c ?s) (c + k * 4096)
          (take ((n - k) * 4096) (drop ((b + k) * 4096) (volume_bytes part (vol_disk ?r)))), x)"
        "cache_rep (volume_bytes part (vol_disk x)) x es'' p fs''" "vok (vol_disk x)" "partition x = part"
        "volume_bytes part (vol_disk x) = volume_bytes part (vol_disk ?r)"
      using less.IH [OF k(4) r(1-3) g(1,2,3) less.prems(7) g(4)] by blast
    have n4: "n * 4096 = k * 4096 + (n - k) * 4096" "k * 4096 + b * 4096 = (b + k) * 4096"
      using k(2) by (simp_all add: diff_mult_distrib)
    have app: "take (n * 4096) (drop (b * 4096) ?vol) = ?s @ take ((n - k) * 4096) (drop ((b + k) * 4096) ?vol)"
      unfolding n4(1) take_add drop_drop n4(2) ..
    have "c + length ?s + length (take ((n - k) * 4096) (drop ((b + k) * 4096) ?vol)) \<le> length buf"
      using less.prems(8) ls n4(1) by simp
    then have "blit (blit buf c ?s) (c + k * 4096) (take ((n - k) * 4096) (drop ((b + k) * 4096) ?vol)) =
        blit buf c (take (n * 4096) (drop (b * 4096) ?vol))"
      unfolding app using blit_blit [of c ?s _ buf] ls by simp
    then show ?thesis using x r(4) unfolding step k(5) by auto
  qed
qed

lemma PupRead_ok:
  assumes "cache_rep (volume_bytes part (vol_disk v)) v es p fs" "vok (vol_disk v)" "partition v = part"
    and "0 < n" "(4 * ((b + n - 1) div 4) + 4) * 4096 \<le> length (volume_bytes part (vol_disk v))"
    and "b + n < 2 ^ 64" "n \<le> length fs" "0 < a" "n * 4096 \<le> length buf"
  shows "\<exists>w es' fs'. k_fs_PupRead wait fresh b n (a, buf) v =
      Some (blit buf 0 (take (n * 4096) (drop (b * 4096) (volume_bytes part (vol_disk v)))), w) \<and>
    cache_rep (volume_bytes part (vol_disk w)) w es' p fs' \<and> vok (vol_disk w) \<and> partition w = part \<and>
    volume_bytes part (vol_disk w) = volume_bytes part (vol_disk v)"
  using pup_read_loop_ok [OF assms(1-3) assms(5-8), of 0 buf] assms(4,9) by (simp add: k_fs_PupRead_def)

end

section \<open>Properties\<close>

text \<open>
  C23: Reading blocks through the cache is the same as reading them from the volume: whatever
  entries are cached already, \<open>k_fs_PupRead\<close> returns with the bytes of the volume in the buffer,
  and every entry still agrees with the volume afterwards; on a volume in memory, and on an IDE
  volume, where the missing entries come through the disk thread.
\<close>

theorem k_fs_PupRead_ok:
  assumes "ram_volume_ok part (vol_disk v) \<or> wait = wait_served \<and> ide_volume_ok part (vol_disk v)"
    and "cache_rep (volume_bytes part (vol_disk v)) v es p fs" "partition v = part"
    and "0 < n" "(4 * ((b + n - 1) div 4) + 4) * 4096 \<le> length (volume_bytes part (vol_disk v))"
    and "b + n < 2 ^ 64" "n \<le> length fs" "0 < a" "n * 4096 \<le> length buf"
  shows "\<exists>w es' fs'. k_fs_PupRead wait fresh b n (a, buf) v =
      Some (blit buf 0 (take (n * 4096) (drop (b * 4096) (volume_bytes part (vol_disk v)))), w) \<and>
    cache_rep (volume_bytes part (vol_disk w)) w es' p fs' \<and>
    volume_bytes part (vol_disk w) = volume_bytes part (vol_disk v)"
  using assms(1)
proof
  assume "ram_volume_ok part (vol_disk v)"
  then show ?thesis using ram_vol.PupRead_ok [OF assms(2) _ assms(3-9), of wait fresh] by blast
next
  assume "wait = wait_served \<and> ide_volume_ok part (vol_disk v)"
  then show ?thesis using ide_vol.PupRead_ok [OF assms(2) _ assms(3-9), of fresh] by blast
qed

definition sample_pup :: k_fs_pup_vol_t where
  "sample_pup = \<lparr>root = sample_root, first_entry = None, last_entry = None, read_count = 0,
     entry_pages = Some 4096, last_entry_page = Some 4096, cur_entry_page = Some 4096,
     freeable_entry_pages = None, entry_page_count = 1, block_bitmask = [],
     entry_at = (\<lambda>_. \<lparr>entry_next = None, entry_prev = None, entry_page = 4096, ref_count = 0,
       entry_condition = False, entry_flags = 0, entry_first_block = 0, entry_buffer = replicate 16384 0\<rparr>),
     cpage_at = (\<lambda>_. \<lparr>cp_next = None, cp_prev = None, free_entries = Some 4116, used_entries = 0, cp_index = 0\<rparr>),
     partition = \<lparr>first_block = 0, part_block_count = 32\<rparr>,
     vol_disk = sample_ram\<lparr>medium := replicate 16384 5\<rparr>\<rparr>"

lemma sample_pup_ok:
  "ram_volume_ok (partition sample_pup) (vol_disk sample_pup)"
  "volume_bytes (partition sample_pup) (vol_disk sample_pup) = replicate 16384 5"
  "cache_rep (replicate 16384 5) sample_pup [] 4096 [4116]"
  by (simp_all add: ram_volume_ok_def ram_ok_def part_ok_def volume_start_def volume_bytes_def sample_pup_def
      sample_ram_def cache_rep_def chain_Some)

theorem k_fs_PupRead_ok_witness:
  "\<exists>w es fs. k_fs_PupRead (\<lambda>_. Some) None 1 1 (8192, replicate 4096 0) sample_pup = Some (replicate 4096 5, w) \<and>
    cache_rep (volume_bytes (partition sample_pup) (vol_disk w)) w es 4096 fs \<and>
    volume_bytes (partition sample_pup) (vol_disk w) = replicate 16384 5"
proof -
  have "blit (replicate 4096 0) 0 (take (1 * 4096) (drop (1 * 4096) (replicate 16384 5))) = replicate 4096 (5 :: u8)"
    by (simp add: blit_def)
  then show ?thesis
    using k_fs_PupRead_ok [of "partition sample_pup" sample_pup "\<lambda>_. Some" "[]" 4096 "[4116]" 1 1 8192
        "replicate 4096 0" None] sample_pup_ok by (simp del: take_replicate drop_replicate)
qed

end
