(* ===== verification/Pup_Format.thy ===== *)
theory Pup_Format
  imports Pup_Cache K_String
begin

text \<open>
  Formatting, mounting and unmounting a pup volume, and the layout of its structures on disk
  (\<open>kernel/fs/pup.c\<close>, \<open>kernel/fs/pup.h\<close>). Structures are their bytes, least significant byte
  first. The lemmas show what a formatted volume holds, and that mounting it gives back the root
  that was written, a bitmap with every block free and a cache that agrees with the volume.
\<close>

section \<open>Structures on disk\<close>

primrec le_bytes :: "nat \<Rightarrow> nat \<Rightarrow> bytes" where
  "le_bytes 0 n = []"
| "le_bytes (Suc k) n = word_of_nat n # le_bytes k (n div 256)"

fun un_le :: "bytes \<Rightarrow> nat" where
  "un_le [] = 0"
| "un_le (b # bs) = unat b + 256 * un_le bs"

lemma length_le_bytes [simp]: "length (le_bytes k n) = k"
  by (induction k arbitrary: n) simp_all

lemma un_le_bytes: "un_le (le_bytes k n) = n mod 256 ^ k"
proof (induction k arbitrary: n)
  case 0
  then show ?case by simp
next
  case (Suc k)
  have "unat (word_of_nat n :: u8) = n mod 256" by (simp add: unat_of_nat)
  then show ?case using Suc mod_mult2_eq [of n 256 "256 ^ k"] by (simp add: mult.commute)
qed

text \<open>The root block: 24 bytes of identification and five 64 bit fields.\<close>

definition root_bytes :: "k_fs_pup_root_t \<Rightarrow> bytes" where
  "root_bytes r = ident r @ le_bytes 8 (root_node r) @ le_bytes 8 (bitmask_start r) @
     le_bytes 8 (bitmask_block_count r) @ le_bytes 8 (alloc_start r) @ le_bytes 8 (root_block_count r)"

definition bytes_root :: "bytes \<Rightarrow> k_fs_pup_root_t" where
  "bytes_root bs = \<lparr>ident = take 24 bs, root_node = un_le (take 8 (drop 24 bs)),
     bitmask_start = un_le (take 8 (drop 32 bs)), bitmask_block_count = un_le (take 8 (drop 40 bs)),
     alloc_start = un_le (take 8 (drop 48 bs)), root_block_count = un_le (take 8 (drop 56 bs))\<rparr>"

definition root_ok :: "k_fs_pup_root_t \<Rightarrow> bool" where
  "root_ok r \<longleftrightarrow> length (ident r) = 24 \<and> root_node r < 2 ^ 64 \<and> bitmask_start r < 2 ^ 64 \<and>
     bitmask_block_count r < 2 ^ 64 \<and> alloc_start r < 2 ^ 64 \<and> root_block_count r < 2 ^ 64"

lemma length_root_bytes: "root_ok r \<Longrightarrow> length (root_bytes r) = 64"
  by (simp add: root_bytes_def root_ok_def)

lemma bytes_root_bytes: "root_ok r \<Longrightarrow> bytes_root (root_bytes r) = r"
  by (cases r) (simp add: bytes_root_def root_bytes_def root_ok_def un_le_bytes)

text \<open>A directory block: a header of 16 bytes and nodes of 256 bytes.\<close>

datatype k_fs_pup_node_type =
    K_FS_PUP_NODE_TYPE_NONE
  | K_FS_PUP_NODE_TYPE_FILE
  | K_FS_PUP_NODE_TYPE_DIR
  | K_FS_PUP_NODE_TYPE_LINK

fun node_type_byte :: "k_fs_pup_node_type \<Rightarrow> u8" where
  "node_type_byte K_FS_PUP_NODE_TYPE_NONE = 0"
| "node_type_byte K_FS_PUP_NODE_TYPE_FILE = 1"
| "node_type_byte K_FS_PUP_NODE_TYPE_DIR = 2"
| "node_type_byte K_FS_PUP_NODE_TYPE_LINK = 3"

record k_fs_pup_node_t =
  node_contents :: nat
  node_size :: nat
  node_lock :: nat
  node_left :: u8
  node_right :: u8
  node_type :: u8
  node_flags :: u8
  node_name :: bytes

definition K_FS_PUP_NODE_NAME_MAX_LEN :: nat where
  "K_FS_PUP_NODE_NAME_MAX_LEN = 256 - 24"

definition node_bytes :: "k_fs_pup_node_t \<Rightarrow> bytes" where
  "node_bytes n = le_bytes 8 (node_contents n) @ le_bytes 8 (node_size n) @ le_bytes 4 (node_lock n) @
     [node_left n, node_right n, node_type n, node_flags n] @ node_name n"

definition bytes_node :: "bytes \<Rightarrow> k_fs_pup_node_t" where
  "bytes_node bs = \<lparr>node_contents = un_le (take 8 bs), node_size = un_le (take 8 (drop 8 bs)),
     node_lock = un_le (take 4 (drop 16 bs)), node_left = bs ! 20, node_right = bs ! 21,
     node_type = bs ! 22, node_flags = bs ! 23, node_name = take K_FS_PUP_NODE_NAME_MAX_LEN (drop 24 bs)\<rparr>"

text \<open>The node at an index of a directory block, as its bytes in the buffer of an entry.\<close>

definition dir_node :: "bytes \<Rightarrow> nat \<Rightarrow> nat \<Rightarrow> k_fs_pup_node_t option" where
  "dir_node buffer offset index =
     (if offset + 16 + index * 256 + 256 \<le> length buffer
      then Some (bytes_node (take 256 (drop (offset + 16 + index * 256) buffer))) else None)"

definition dir_parent :: "bytes \<Rightarrow> nat \<Rightarrow> nat option" where
  "dir_parent buffer offset =
     (if offset + 8 \<le> length buffer then Some (un_le (take 8 (drop offset buffer))) else None)"

section \<open>Formatting\<close>

definition ascii :: "string \<Rightarrow> bytes" where
  "ascii s = map of_char s @ [0]"

definition K_FS_PUP_MAGIC :: bytes where
  "K_FS_PUP_MAGIC = ascii ''OWO UWU LE PUP FS''"

definition format_bitmask_blocks :: "nat \<Rightarrow> nat" where
  "format_bitmask_blocks block_count = (
     let n = mul32 block_count 0x1000 div (0x1000 * 8 + 1) in if n = 0 then 1 else n)"

definition format_root :: "nat \<Rightarrow> k_fs_pup_root_t option" where
  "format_root block_count = do {
     (_, ident) \<leftarrow> k_rt_StrCpy (replicate 24 0) 24 K_FS_PUP_MAGIC;
     let count = format_bitmask_blocks block_count;
     Some \<lparr>ident = ident, root_node = K_FS_PUP_NODE_LINK 1 0, bitmask_start = 2, bitmask_block_count = count,
       alloc_start = unat ((word_of_nat (2 + count) + 3 :: u64) AND NOT 3), root_block_count = block_count\<rparr>
   }"

definition root_dir_block :: "bytes option" where
  "root_dir_block = do {
     (_, name) \<leftarrow> k_rt_StrCpy (replicate K_FS_PUP_NODE_NAME_MAX_LEN 0) K_FS_PUP_NODE_NAME_MAX_LEN (ascii ''I'm dat root, mofkr'');
     let node = node_bytes \<lparr>node_contents = K_FS_PUP_NULL_LINK, node_size = 0, node_lock = 0, node_left = 0xff,
       node_right = 0xff, node_type = node_type_byte K_FS_PUP_NODE_TYPE_DIR, node_flags = 0, node_name = name\<rparr>;
     Some (le_bytes 8 (K_FS_PUP_NODE_LINK 1 0) @ replicate 8 0 @ node @ replicate (4096 - 272) 0)
   }"

definition k_fs_PupFormatVolume ::
    "disk_wait \<Rightarrow> nat \<Rightarrow> k_fs_part_t \<Rightarrow> nat \<Rightarrow> k_dev_disk_t \<Rightarrow> k_dev_disk_t option" where
  "k_fs_PupFormatVolume wait stack part block_count disk = do {
     root \<leftarrow> format_root block_count;
     disk \<leftarrow> k_fs_ClearVolumeBlocks wait part 0x1000 (root_node root) 1 disk;
     disk \<leftarrow> k_fs_ClearVolumeBlocks wait part 0x1000 (bitmask_start root) (bitmask_block_count root) disk;
     disk \<leftarrow> k_fs_WriteVolumeBytes wait part 0x1000 0 0 64 (stack, root_bytes root) disk;
     contents \<leftarrow> root_dir_block;
     k_fs_WriteVolumeBlocks wait part 0x1000 (K_FS_PUP_NODE_BLOCK (root_node root)) 1 (stack, contents) disk
   }"

section \<open>Mounting\<close>

text \<open>
  \<open>page\<close> and \<open>bitmap\<close> are the addresses the heap gives for the first page of cache entries and
  for the bitmap; \<open>garbage\<close> is what new heap memory holds.
\<close>

record heap_memory =
  new_entries :: "nat \<Rightarrow> k_fs_pup_centry_t"
  new_pages :: "nat \<Rightarrow> k_fs_pup_centry_page_t"
  new_bytes :: "nat \<Rightarrow> bytes"

definition k_fs_PupMountVolume ::
    "disk_wait \<Rightarrow> heap_memory \<Rightarrow> nat \<Rightarrow> nat \<Rightarrow> nat \<Rightarrow> k_fs_part_t \<Rightarrow> k_dev_disk_t \<Rightarrow> k_fs_pup_vol_t option" where
  "k_fs_PupMountVolume wait garbage vol_addr page bitmap part disk = do {
     let v = \<lparr>root = bytes_root (replicate 64 0), first_entry = None, last_entry = None, read_count = 0,
       entry_pages = None, last_entry_page = None, cur_entry_page = Some page, freeable_entry_pages = None,
       entry_page_count = 0, block_bitmask = [], entry_at = new_entries garbage, cpage_at = new_pages garbage,
       partition = part, vol_disk = disk\<rparr>;
     v \<leftarrow> k_fs_PupInitCacheEntryPage page v;
     ((_, bs), disk) \<leftarrow> k_fs_ReadVolumeBytes wait part (disk_block_size disk) 0 0 64 (vol_addr, replicate 64 0) disk;
     let v = v\<lparr>root := bytes_root bs\<rparr>;
     ((_, bs), disk) \<leftarrow> k_fs_ReadVolumeBlocks wait part 0x1000 (bitmask_start (root v) mod 2 ^ 32)
       (bitmask_block_count (root v))
       (bitmap, new_bytes garbage (bitmask_block_count (root v) * 0x1000 mod 2 ^ 32)) disk;
     let v = v\<lparr>block_bitmask := bs, vol_disk := disk\<rparr>;
     let root_node_block = K_FS_PUP_NODE_BLOCK (root_node (root v));
     (e, v) \<leftarrow> k_fs_PupFindOrLoadCacheEntry wait None None root_node_block v;
     Some v
   }"

definition k_fs_PupUnmountVolume :: "disk_wait \<Rightarrow> nat \<Rightarrow> k_fs_pup_vol_t \<Rightarrow> k_dev_disk_t option" where
  "k_fs_PupUnmountVolume wait bitmap v = do {
     v \<leftarrow> k_fs_PupFlushCache wait v;
     k_fs_WriteVolumeBlocks wait (partition v) 0x1000 (bitmask_start (root v) mod 2 ^ 32)
       (bitmask_block_count (root v) mod 2 ^ 32) (bitmap, block_bitmask v) (vol_disk v)
   }"


section \<open>What a formatted volume holds\<close>

lemma terminated_ascii: "terminated (ascii s)"
  by (simp add: ascii_def terminated_def)

lemma format_bitmask_pos: "0 < format_bitmask_blocks n"
  by (simp add: format_bitmask_blocks_def Let_def)

lemma format_bitmask_bound: "format_bitmask_blocks n < 2 ^ 32"
proof -
  have "mul32 n 4096 < 2 ^ 32" by (simp add: mul32_def)
  then have "mul32 n 4096 div 32769 < 2 ^ 32" by (rule le_less_trans [OF div_le_dividend])
  then show ?thesis by (simp add: format_bitmask_blocks_def Let_def)
qed

lemma align4:
  assumes "c < 2 ^ 32"
  shows "unat ((word_of_nat (2 + c) + 3 :: u64) AND NOT 3) = (c + 5) div 4 * 4"
proof -
  have m: "(3 :: u64) = mask 2" by (simp add: mask_eq_exp_minus_1)
  have w: "(word_of_nat (2 + c) + 3 :: u64) = word_of_nat (c + 5)" by simp
  have u: "unat (word_of_nat (c + 5) :: u64) = c + 5" using assms by (simp add: unat_of_nat del: of_nat_add)
  have t: "take_bit LENGTH(64) (c + 5) = c + 5" using assms by (intro take_bit_nat_eq_self) simp
  have "unat (word_of_nat (c + 5) AND NOT (mask 2) :: u64) = take_bit LENGTH(64) (push_bit 2 (drop_bit 2 (c + 5)))"
    by (simp only: and_not_mask unsigned_push_bit_eq unsigned_drop_bit_eq u t)
  moreover have "push_bit 2 (drop_bit 2 (c + 5)) = (c + 5) div 4 * 4" by (simp add: push_bit_eq_mult drop_bit_eq_div)
  moreover have "(c + 5) div 4 * 4 < 2 ^ 64" using assms by (intro le_less_trans [OF div_times_less_eq_dividend]) simp
  ultimately show ?thesis unfolding w by (simp add: m take_bit_nat_eq_self del: of_nat_add)
qed

lemma format_root_ok:
  assumes "n < 2 ^ 64"
  shows "\<exists>r. format_root n = Some r \<and> root_ok r \<and> root_node r = 256 \<and> bitmask_start r = 2 \<and>
    bitmask_block_count r = format_bitmask_blocks n \<and> root_block_count r = n \<and>
    alloc_start r = (format_bitmask_blocks n + 5) div 4 * 4"
proof -
  obtain i where i: "k_rt_StrCpy (replicate 24 0) 24 K_FS_PUP_MAGIC =
      Some (min 24 (length (cstr K_FS_PUP_MAGIC) + 1), i)" "length i = 24"
    using k_rt_StrCpy_cstr [of K_FS_PUP_MAGIC 24 "replicate 24 0"]
    by (auto simp: K_FS_PUP_MAGIC_def terminated_ascii)
  have c: "format_bitmask_blocks n < 2 ^ 32" by (rule format_bitmask_bound)
  have a: "(format_bitmask_blocks n + 5) div 4 * 4 < 2 ^ 64"
    using c by (intro le_less_trans [OF div_times_less_eq_dividend]) simp
  show ?thesis using i c a assms align4 [OF c]
    by (simp add: format_root_def root_ok_def node_link_or Let_def)
qed

lemma root_dir_block_ok:
  "\<exists>bs. root_dir_block = Some bs \<and> length bs = 4096 \<and> dir_parent bs 0 = Some 256 \<and>
    (\<exists>n. dir_node bs 0 0 = Some n \<and> node_type n = node_type_byte K_FS_PUP_NODE_TYPE_DIR)"
proof -
  obtain nm where nm: "k_rt_StrCpy (replicate K_FS_PUP_NODE_NAME_MAX_LEN 0) K_FS_PUP_NODE_NAME_MAX_LEN
      (ascii ''I'm dat root, mofkr'') = Some (min K_FS_PUP_NODE_NAME_MAX_LEN
        (length (cstr (ascii ''I'm dat root, mofkr'')) + 1), nm)" "length nm = 232"
    using k_rt_StrCpy_cstr [of "ascii ''I'm dat root, mofkr''" K_FS_PUP_NODE_NAME_MAX_LEN
        "replicate K_FS_PUP_NODE_NAME_MAX_LEN 0"]
    by (auto simp: terminated_ascii K_FS_PUP_NODE_NAME_MAX_LEN_def)
  let ?n = "\<lparr>node_contents = K_FS_PUP_NULL_LINK, node_size = 0, node_lock = 0, node_left = 0xff,
       node_right = 0xff, node_type = node_type_byte K_FS_PUP_NODE_TYPE_DIR, node_flags = 0, node_name = nm\<rparr>"
  let ?bs = "le_bytes 8 (K_FS_PUP_NODE_LINK 1 0) @ replicate 8 0 @ node_bytes ?n @ replicate (4096 - 272) 0"
  have run: "root_dir_block = Some ?bs" by (simp add: root_dir_block_def nm(1) Let_def)
  have len: "length (node_bytes ?n) = 256" by (simp add: node_bytes_def nm(2))
  have t: "take 256 (drop 16 ?bs) = node_bytes ?n" using len by simp
  have "dir_parent ?bs 0 = Some 256" using len by (simp add: dir_parent_def un_le_bytes node_link_or)
  moreover have "dir_node ?bs 0 0 = Some (bytes_node (node_bytes ?n))"
    using len t by (simp add: dir_node_def)
  moreover have "node_type (bytes_node (node_bytes ?n)) = node_type_byte K_FS_PUP_NODE_TYPE_DIR"
    by (simp add: bytes_node_def node_bytes_def nth_append)
  ultimately show ?thesis using run len by (intro exI [of _ ?bs]) simp
qed

text \<open>The volume after formatting, as three ranges: the root block, the first directory, the bitmap.\<close>

lemma ram_volume_block_write:
  assumes "ram_volume_ok part disk" "0 < a" "b * 4096 + 4096 \<le> length (volume_bytes part disk)" "length buf = 4096"
  shows "k_fs_WriteVolumeBlocks wait part 4096 b 1 (a, buf) disk = Some (volume_put part (b * 4096) buf disk)"
  using ram_volume_write [of part disk a b 4096 0 4096 buf wait] assms
  by (simp add: k_fs_WriteVolumeBlocks_def mul32_def)

lemma PupFormatVolume_ok:
  assumes v: "ram_volume_ok part disk" "0 < stack" and n: "n < 2 ^ 64"
    and len: "(2 + format_bitmask_blocks n) * 4096 \<le> length (volume_bytes part disk)"
    and start: "volume_start part disk + 257 * 4096 < 2 ^ 32"
  shows "\<exists>d r bs. k_fs_PupFormatVolume wait stack part n disk = Some d \<and> ram_volume_ok part d \<and>
    length (volume_bytes part d) = length (volume_bytes part disk) \<and> disk_block_size d = disk_block_size disk \<and>
    format_root n = Some r \<and> take 64 (volume_bytes part d) = root_bytes r \<and>
    root_dir_block = Some bs \<and> take 4096 (drop 4096 (volume_bytes part d)) = bs \<and>
    take (format_bitmask_blocks n * 4096) (drop 8192 (volume_bytes part d)) =
      replicate (format_bitmask_blocks n * 4096) 0"
proof -
  let ?c = "format_bitmask_blocks n" and ?V = "volume_bytes part disk"
  obtain r where r: "format_root n = Some r" "root_ok r" "root_node r = 256" "bitmask_start r = 2"
      "bitmask_block_count r = ?c" using format_root_ok [OF n] by blast
  obtain bs where bs: "root_dir_block = Some bs" "length bs = 4096" using root_dir_block_ok by blast
  have c: "0 < ?c" by (rule format_bitmask_pos)
  have p: "part_ok part disk" using v(1) by (simp add: ram_volume_ok_def)
  have lenV: "volume_start part disk + length ?V + 511 < 2 ^ 32" using part_ok_bound(2) [OF p order_refl] .
  define d1 where "d1 = (if 256 * 4096 + 4096 \<le> length ?V then volume_put part (256 * 4096) (replicate 4096 0) disk else disk)"
  have run1: "k_fs_ClearVolumeBlocks wait part 4096 256 1 disk = Some d1"
    using ram_volume_clear [OF v(1), of 256 4096 0 4096 wait] start
    by (simp add: k_fs_ClearVolumeBlocks_def d1_def mul32_def)
  have d1: "ram_volume_ok part d1" "length (volume_bytes part d1) = length ?V"
      "disk_block_size d1 = disk_block_size disk"
    using v(1) volume_put_ok [OF v(1), of "256 * 4096" "replicate 4096 0"] by (auto simp: d1_def)
  have vs: "volume_start part d1 = volume_start part disk" using d1(3) by (simp add: volume_start_def)
  let ?z = "replicate (?c * 4096) (0 :: u8)"
  have fit2: "8192 + length ?z \<le> length (volume_bytes part d1)" using len d1(2) by simp
  define d2 where "d2 = volume_put part 8192 ?z d1"
  have c4: "mul32 4096 ?c = ?c * 4096" using lenV len by (simp add: mul32_def)
  have lt2: "2 * 4096 + 0 + ?c * 4096 < 2 ^ 32 - volume_start part d1" using lenV len vs by simp
  have run2: "k_fs_ClearVolumeBlocks wait part 4096 2 ?c d1 = Some d2"
    using ram_volume_clear [OF d1(1) lt2, of wait] fit2
    by (simp add: k_fs_ClearVolumeBlocks_def d2_def c4)
  note d2 = volume_put_ok [OF d1(1) fit2, folded d2_def]
  have l2: "length (volume_bytes part d2) = length ?V" using d2(2) fit2 d1(2) by simp
  have lr: "length (root_bytes r) = 64" using r(2) by (rule length_root_bytes)
  define d3 where "d3 = volume_put part 0 (root_bytes r) d2"
  have fit3: "0 + length (root_bytes r) \<le> length (volume_bytes part d2)" using lr l2 len by simp
  have run3: "k_fs_WriteVolumeBytes wait part 4096 0 0 64 (stack, root_bytes r) d2 = Some d3"
    using ram_volume_write [OF d2(1) v(2), of 0 4096 0 64 "root_bytes r" wait] lr l2 len by (simp add: d3_def)
  note d3 = volume_put_ok [OF d2(1) fit3, folded d3_def]
  have l3: "length (volume_bytes part d3) = length ?V" using d3(2) fit3 l2 by simp
  define d4 where "d4 = volume_put part 4096 bs d3"
  have fit4: "4096 + length bs \<le> length (volume_bytes part d3)" using bs(2) l3 len c by simp
  have run4: "k_fs_WriteVolumeBlocks wait part 4096 1 1 (stack, bs) d3 = Some d4"
    using ram_volume_block_write [OF d3(1) v(2), of 1 bs wait] fit4 bs(2) by (simp add: d4_def)
  note d4 = volume_put_ok [OF d3(1) fit4, folded d4_def]
  have run: "k_fs_PupFormatVolume wait stack part n disk = Some d4"
    using r run1 run2 run3 run4 by (simp add: k_fs_PupFormatVolume_def node_block_index bs(1))
  have b: "take 64 (drop 0 (volume_bytes part d4)) = root_bytes r"
    unfolding d4(2) using slice_blit_disjoint [OF fit4, of 0 64] d3(2) fit3 lr l3 len
      take_drop_blit [OF fit3] by simp
  have z: "take (?c * 4096) (drop 8192 (volume_bytes part d4)) = ?z"
  proof -
    have "take (?c * 4096) (drop 8192 (volume_bytes part d4)) = take (?c * 4096) (drop 8192 (volume_bytes part d3))"
      unfolding d4(2) using slice_blit_disjoint [OF fit4, of 8192 "?c * 4096"] l3 len bs(2) by simp
    also have "\<dots> = take (?c * 4096) (drop 8192 (volume_bytes part d2))"
      unfolding d3(2) using slice_blit_disjoint [OF fit3, of 8192 "?c * 4096"] l2 len lr by simp
    also have "\<dots> = ?z" unfolding d2(2) using take_drop_blit [OF fit2] by simp
    finally show ?thesis .
  qed
  have "length (volume_bytes part d4) = length ?V" "disk_block_size d4 = disk_block_size disk"
    "take 4096 (drop 4096 (volume_bytes part d4)) = bs"
    using d4(2,3) fit4 l3 d3(3) d2(3) d1(3) take_drop_blit [OF fit4] bs(2) by simp_all
  with run d4(1) r(1) b bs(1) z show ?thesis by auto
qed


section \<open>Mounting\<close>

lemma page_entry_eq: "page_entry page i = page_entry page j \<longleftrightarrow> i = j"
  by (simp add: page_entry_def)

lemma init_entries_rest:
  "first_entry (init_entries n page nx v) = first_entry v \<and> last_entry (init_entries n page nx v) = last_entry v \<and>
   read_count (init_entries n page nx v) = read_count v \<and> cpage_at (init_entries n page nx v) = cpage_at v \<and>
   entry_pages (init_entries n page nx v) = entry_pages v \<and> root (init_entries n page nx v) = root v \<and>
   cur_entry_page (init_entries n page nx v) = cur_entry_page v \<and>
   partition (init_entries n page nx v) = partition v \<and> vol_disk (init_entries n page nx v) = vol_disk v \<and>
   entry_page_count (init_entries n page nx v) = entry_page_count v"
  by (induction n arbitrary: nx v) (simp_all add: upd_entry_def)

lemma init_entries_other:
  "\<forall>j < n. a \<noteq> page_entry page j \<Longrightarrow> entry_at (init_entries n page nx v) a = entry_at v a"
  by (induction n arbitrary: nx v) (simp_all add: upd_entry_def)

lemma init_entries_at:
  "i < n \<Longrightarrow> entry_at (init_entries n page nx v) (page_entry page i) =
     (entry_at v (page_entry page i))\<lparr>entry_page := page,
       entry_next := (if Suc i = n then nx else Some (page_entry page (Suc i)))\<rparr>"
proof (induction n arbitrary: nx v)
  case (Suc n)
  show ?case
  proof (cases "i = n")
    case True
    then show ?thesis
      using init_entries_other [of n "page_entry page n" page]
      by (simp add: upd_entry_def page_entry_eq)
  next
    case False
    then have "i < n" using Suc.prems by simp
    then show ?thesis using False Suc.IH by (simp add: upd_entry_def page_entry_eq)
  qed
qed simp

lemma init_entries_buffer:
  "entry_buffer (entry_at (init_entries n page nx v) a) = entry_buffer (entry_at v a)"
  by (induction n arbitrary: nx v) (simp_all add: upd_entry_def)

text \<open>The entries of a page.\<close>

definition page_entries :: "nat \<Rightarrow> nat list" where
  "page_entries page = map (page_entry page) [0..<K_FS_PUP_CENTRY_PAGE_ENTRIES_COUNT]"

lemma InitCacheEntryPage_free:
  assumes "entry_pages v = None" "cur_entry_page v = Some page" "first_entry v = None" "read_count v = 0"
    and "\<And>e. length (entry_buffer (entry_at v e)) = 4 * 4096"
  shows "\<exists>w. k_fs_PupInitCacheEntryPage page v = Some w \<and> cache_rep vol w [] page (page_entries page) \<and>
    partition w = partition v \<and> vol_disk w = vol_disk v \<and> root w = root v"
proof -
  let ?n = K_FS_PUP_CENTRY_PAGE_ENTRIES_COUNT
  let ?u = "upd_cpage page (\<lambda>p. p\<lparr>cp_next := None, cp_prev := None\<rparr>) v"
  let ?i = "init_entries ?n page None ?u"
  obtain w where w: "k_fs_PupInitCacheEntryPage page v = Some w" "entry_at w = entry_at ?i"
      "free_entries (cpage_at w page) = Some (page_entry page 0)" "first_entry w = None" "read_count w = 0"
      "cur_entry_page w = Some page" "partition w = partition v" "vol_disk w = vol_disk v" "root w = root v"
    using assms(1-4)
    by (simp add: k_fs_PupInitCacheEntryPage_def Let_def init_entries_rest upd_cpage_def)
  have n: "?n = 0 + Suc 509" by (simp add: K_FS_PUP_CENTRY_PAGE_ENTRIES_COUNT_def)
  have "chain (\<lambda>a. entry_next (entry_at w a)) (Some (page_entry page 0)) (map (page_entry page) [0..<0 + Suc 509])"
    by (rule chain_stride) (auto simp: w(2) init_entries_at n)
  then have "chain (\<lambda>a. entry_next (entry_at w a)) (free_entries (cpage_at w page)) (page_entries page)"
    unfolding w(3) page_entries_def n .
  moreover have "length (entry_buffer (entry_at w e)) = 4 * 4096" for e
    unfolding w(2) init_entries_buffer using assms(5) by (simp add: upd_cpage_def)
  ultimately have "cache_rep vol w [] page (page_entries page)"
    using w(4-6) by (simp add: cache_rep_def)
  with w show ?thesis by blast
qed

lemma cache_rep_mount:
  "cache_rep vol (v\<lparr>root := r\<rparr>) es p fs = cache_rep vol v es p fs"
  "cache_rep vol (v\<lparr>block_bitmask := m, vol_disk := d\<rparr>) es p fs = cache_rep vol v es p fs"
  by (simp_all add: cache_rep_def)

text \<open>
  A volume that starts with the root \<open>r\<close> mounts: the root and the bitmap are those of the volume,
  and the cache holds an entry for the root directory.
\<close>

lemma PupMountVolume_ok:
  assumes d: "ram_volume_ok part d" "0 < vol_addr" "0 < bitmap"
    and g: "\<And>e. length (entry_buffer (new_entries garbage e)) = 4 * 4096" "\<And>k. length (new_bytes garbage k) = k"
    and r: "root_ok r" "root_node r = 256" "bitmask_start r = 2" "take 64 (volume_bytes part d) = root_bytes r"
    and len: "(2 + bitmask_block_count r) * 4096 \<le> length (volume_bytes part d)" "4 * 4096 \<le> length (volume_bytes part d)"
  shows "\<exists>v e es fs. k_fs_PupMountVolume wait garbage vol_addr page bitmap part d = Some v \<and> root v = r \<and>
    block_bitmask v = take (bitmask_block_count r * 4096) (drop 8192 (volume_bytes part d)) \<and>
    cache_rep (volume_bytes part (vol_disk v)) v es page fs \<and> partition v = part \<and>
    volume_bytes part (vol_disk v) = volume_bytes part d \<and> e \<in> set es \<and> entry_first_block (entry_at v e) = 0 \<and>
    ram_volume_ok part (vol_disk v)"
proof -
  let ?V = "volume_bytes part d" and ?c = "bitmask_block_count r"
  let ?v0 = "\<lparr>root = bytes_root (replicate 64 0), first_entry = None, last_entry = None, read_count = 0,
       entry_pages = None, last_entry_page = None, cur_entry_page = Some page, freeable_entry_pages = None,
       entry_page_count = 0, block_bitmask = [], entry_at = new_entries garbage, cpage_at = new_pages garbage,
       partition = part, vol_disk = d\<rparr>"
  obtain v1 where v1: "k_fs_PupInitCacheEntryPage page ?v0 = Some v1" "cache_rep ?V v1 [] page (page_entries page)"
      "partition v1 = part" "vol_disk v1 = d"
    using InitCacheEntryPage_free [of ?v0 page ?V] g(1) by auto
  have p: "part_ok part d" using d(1) by (simp add: ram_volume_ok_def)
  have "blit (replicate 64 0) 0 (root_bytes r) = root_bytes r"
    using length_root_bytes [OF r(1)] by (simp add: blit_def)
  then have read1: "k_fs_ReadVolumeBytes wait part (disk_block_size d) 0 0 64 (vol_addr, replicate 64 0) d =
      Some ((vol_addr, root_bytes r), d)"
    using ram_volume_read [OF d(1,2), of 0 "disk_block_size d" 0 64 "replicate 64 0" wait] len(2) r(4) by simp
  have lenV: "length ?V + 511 < 2 ^ 32" using part_ok_bound(2) [OF p order_refl] by simp
  have cm: "?c * 4096 mod 2 ^ 32 = ?c * 4096" using len(1) lenV by simp
  have bb: "2 * 4096 + 0 + ?c * 4096 \<le> length ?V" using len(1) by simp
  have lz: "length (take (?c * 4096) (drop 8192 ?V)) = ?c * 4096" using bb by simp
  have read2: "k_fs_ReadVolumeBlocks wait part 4096 2 ?c (bitmap, new_bytes garbage (?c * 4096)) d =
      Some ((bitmap, take (?c * 4096) (drop 8192 ?V)), d)"
    using ram_volume_read [OF d(1,3) bb, of "new_bytes garbage (?c * 4096)" wait] g(2) [of "?c * 4096"] lz
      blocks_bytes(1) [OF p, of 2 ?c] len(1)
    by (simp add: k_fs_ReadVolumeBlocks_def blit_def)
  let ?v2 = "v1\<lparr>root := r, block_bitmask := take (?c * 4096) (drop 8192 ?V), vol_disk := d\<rparr>"
  have rep2: "cache_rep (volume_bytes part (vol_disk ?v2)) ?v2 [] page (page_entries page)"
    using v1(2) by (simp add: cache_rep_def)
  have pe: "page_entries page \<noteq> []" by (simp add: page_entries_def K_FS_PUP_CENTRY_PAGE_ENTRIES_COUNT_def)
  have "\<exists>e w es' fs'. k_fs_PupFindOrLoadCacheEntry wait None None 1 ?v2 = Some (e, w) \<and>
    cache_rep (volume_bytes part (vol_disk w)) w es' page fs' \<and> ram_volume_ok part (vol_disk w) \<and> partition w = part \<and>
    volume_bytes part (vol_disk w) = volume_bytes part (vol_disk ?v2) \<and> length (page_entries page) \<le> length fs' + 1 \<and>
    e \<in> set es' \<and> entry_first_block (entry_at w e) = 4 * (1 div 4)"
    by (rule ram_vol.FindOrLoadCacheEntry_ok [OF rep2]) (use d(1) v1(3) len(2) pe in simp_all)
  then obtain e w es fs where w: "k_fs_PupFindOrLoadCacheEntry wait None None 1 ?v2 = Some (e, w)"
    "cache_rep (volume_bytes part (vol_disk w)) w es page fs" "partition w = part"
    "volume_bytes part (vol_disk w) = volume_bytes part (vol_disk ?v2)" "e \<in> set es"
    "entry_first_block (entry_at w e) = 4 * (1 div 4)" "ram_volume_ok part (vol_disk w)"
    by blast
  have w4: "volume_bytes part (vol_disk w) = ?V" "entry_first_block (entry_at w e) = 0"
    unfolding w(4,6) by simp_all
  have keep: "root w = r" "block_bitmask w = take (?c * 4096) (drop 8192 ?V)"
    unfolding FindOrLoad_keeps [OF w(1), THEN conjunct1] FindOrLoad_keeps [OF w(1), THEN conjunct2]
    by simp_all
  have "k_fs_PupMountVolume wait garbage vol_addr page bitmap part d = Some w"
    using r(2,3) cm read2 w(1)
    by (simp add: k_fs_PupMountVolume_def Let_def node_block_index v1(1) read1 bytes_root_bytes [OF r(1)])
  then show ?thesis using w(2,3,5,7) w4 keep by blast
qed


section \<open>Properties\<close>

text \<open>
  C24: Formatting a volume in memory and mounting it again gives back the root block that the
  format wrote, with the allocatable blocks after the bitmap, a bitmap in which every block is
  free, and a cache that agrees with the volume and holds the root directory: its parent is
  itself and its first node has the directory type.
\<close>

theorem k_fs_Pup_format_mount:
  assumes "ram_volume_ok part disk" "0 < stack" "0 < vol_addr" "0 < bitmap" "n < 2 ^ 64"
    and "(2 + format_bitmask_blocks n) * 4096 \<le> length (volume_bytes part disk)"
      "4 * 4096 \<le> length (volume_bytes part disk)" "volume_start part disk + 257 * 4096 < 2 ^ 32"
    and "\<And>e. length (entry_buffer (new_entries garbage e)) = 4 * 4096" "\<And>k. length (new_bytes garbage k) = k"
  shows "\<exists>d v e es fs nd. k_fs_PupFormatVolume wait stack part n disk = Some d \<and>
    k_fs_PupMountVolume wait garbage vol_addr page bitmap part d = Some v \<and> format_root n = Some (root v) \<and>
    block_bitmask v = replicate (format_bitmask_blocks n * 4096) 0 \<and>
    cache_rep (volume_bytes part (vol_disk v)) v es page fs \<and> e \<in> set es \<and> entry_first_block (entry_at v e) = 0 \<and>
    dir_parent (entry_buffer (entry_at v e)) 4096 = Some (root_node (root v)) \<and>
    dir_node (entry_buffer (entry_at v e)) 4096 0 = Some nd \<and>
    node_type nd = node_type_byte K_FS_PUP_NODE_TYPE_DIR"
proof -
  obtain d r bs where d: "k_fs_PupFormatVolume wait stack part n disk = Some d" "ram_volume_ok part d"
      "length (volume_bytes part d) = length (volume_bytes part disk)" "format_root n = Some r"
      "take 64 (volume_bytes part d) = root_bytes r" "root_dir_block = Some bs"
      "take 4096 (drop 4096 (volume_bytes part d)) = bs"
      "take (format_bitmask_blocks n * 4096) (drop 8192 (volume_bytes part d)) =
        replicate (format_bitmask_blocks n * 4096) 0"
    using PupFormatVolume_ok [OF assms(1,2,5,6,8), of wait] by blast
  have r: "root_ok r" "root_node r = 256" "bitmask_start r = 2" "bitmask_block_count r = format_bitmask_blocks n"
    using format_root_ok [OF assms(5)] d(4) by auto
  have len: "(2 + bitmask_block_count r) * 4096 \<le> length (volume_bytes part d)"
      "4 * 4096 \<le> length (volume_bytes part d)"
    unfolding d(3) r(4) by (rule assms(6), rule assms(7))
  obtain v e es fs where v: "k_fs_PupMountVolume wait garbage vol_addr page bitmap part d = Some v" "root v = r"
      "block_bitmask v = take (bitmask_block_count r * 4096) (drop 8192 (volume_bytes part d))"
      "cache_rep (volume_bytes part (vol_disk v)) v es page fs" "partition v = part"
      "volume_bytes part (vol_disk v) = volume_bytes part d" "e \<in> set es" "entry_first_block (entry_at v e) = 0"
    using PupMountVolume_ok [OF d(2) assms(3,4,9,10) r(1-3) d(5) len, of wait page] by blast
  obtain nd where nd: "dir_parent bs 0 = Some 256" "dir_node bs 0 0 = Some nd" "length bs = 4096"
      "node_type nd = node_type_byte K_FS_PUP_NODE_TYPE_DIR"
    using root_dir_block_ok d(6) by (metis option.inject)
  have buf: "entry_buffer (entry_at v e) = take (4 * 4096) (volume_bytes part d)"
    using cache_repD(6) [OF v(4,7)] v(6,8) by (simp add: entry_valid_def)
  have "take 4096 (drop 4096 (entry_buffer (entry_at v e))) = bs" "length (entry_buffer (entry_at v e)) = 4 * 4096"
    unfolding buf using d(7) len(2) by (auto simp: drop_take)
  then have "dir_parent (entry_buffer (entry_at v e)) 4096 = dir_parent bs 0"
      "dir_node (entry_buffer (entry_at v e)) 4096 0 = dir_node bs 0 0"
    by (auto simp: dir_parent_def dir_node_def drop_take)
  with nd have nodes: "dir_parent (entry_buffer (entry_at v e)) 4096 = Some (root_node (root v))"
      "dir_node (entry_buffer (entry_at v e)) 4096 0 = Some nd"
    using v(2) r(2) by simp_all
  have bm: "block_bitmask v = replicate (format_bitmask_blocks n * 4096) 0"
    unfolding v(3) r(4) by (rule d(8))
  have "format_root n = Some (root v)" using d(4) v(2) by simp
  with d(1) v(1,4,7,8) nodes nd(4) bm show ?thesis by blast
qed

definition sample_heap_memory :: heap_memory where
  "sample_heap_memory = \<lparr>new_entries = (\<lambda>_. \<lparr>entry_next = None, entry_prev = None, entry_page = 0, ref_count = 0,
       entry_condition = False, entry_flags = 0, entry_first_block = 0, entry_buffer = replicate 16384 9\<rparr>),
     new_pages = (\<lambda>_. \<lparr>cp_next = None, cp_prev = None, free_entries = None, used_entries = 0, cp_index = 0\<rparr>),
     new_bytes = (\<lambda>k. replicate k 9)\<rparr>"

theorem k_fs_Pup_format_mount_witness:
  "\<exists>d v. k_fs_PupFormatVolume (\<lambda>_ _. None) 4096 (partition sample_pup) 4 (vol_disk sample_pup) = Some d \<and>
    k_fs_PupMountVolume (\<lambda>_ _. None) sample_heap_memory 4096 8192 65536 (partition sample_pup) d = Some v \<and>
    format_root 4 = Some (root v)"
proof -
  have "volume_start (partition sample_pup) (vol_disk sample_pup) = 0"
    by (simp add: volume_start_def sample_pup_def)
  moreover have "format_bitmask_blocks 4 = 1" by (simp add: format_bitmask_blocks_def mul32_def Let_def)
  ultimately show ?thesis
    using k_fs_Pup_format_mount [OF sample_pup_ok(1), of 4096 4096 65536 4 sample_heap_memory "\<lambda>_ _. None" 8192]
    by (fastforce simp: sample_pup_ok(2) sample_heap_memory_def)
qed

end
