(* ===== verification/Fs_Mount.thy ===== *)
theory Fs_Mount
  imports Pup_Format
begin

text \<open>
  Volumes as \<open>kernel/fs/fs.c\<close> keeps them: mounting, unmounting and formatting through the
  operations of the file system, and the list of volumes. The lemmas show that what a volume holds in
  memory is what mounting it again gives back.
\<close>

section \<open>Volumes\<close>

record k_fs_vol_t =
  vol_next :: "nat option"
  vol_partition :: k_fs_part_t
  vol_data :: "k_fs_pup_vol_t option"

record k_fs_vols =
  k_fs_volumes :: "nat option"
  vol_at :: "nat \<Rightarrow> k_fs_vol_t"

text \<open>
  What mounting takes from its surroundings: the wait of the disk layer, new heap memory and the addresses
  of the objects that hold the root, the first page of cache entries, the bitmap and the stack buffer.
\<close>

record mount_env =
  env_wait :: disk_wait
  env_memory :: heap_memory
  env_data :: nat
  env_page :: nat
  env_bitmap :: nat
  env_stack :: nat

definition K_FS_FILE_SYSTEM_PUP :: nat where "K_FS_FILE_SYSTEM_PUP = 0"

text \<open>The function pointers of the only entry of \<open>k_fs_file_systems\<close>, on a volume at \<open>vol\<close>.\<close>

definition fsys_mount :: "mount_env \<Rightarrow> nat \<Rightarrow> k_dev_disk_t \<Rightarrow> k_fs_vols \<Rightarrow> k_fs_vols option" where
  "fsys_mount env vol disk s = do {
     v \<leftarrow> k_fs_PupMountVolume (env_wait env) (env_memory env) (env_data env) (env_page env) (env_bitmap env)
       (vol_partition (vol_at s vol)) disk;
     Some (s\<lparr>vol_at := (vol_at s)(vol := (vol_at s vol)\<lparr>vol_data := Some v\<rparr>)\<rparr>)
   }"

definition fsys_unmount :: "mount_env \<Rightarrow> nat \<Rightarrow> k_fs_vols \<Rightarrow> k_dev_disk_t option" where
  "fsys_unmount env vol s = do {
     v \<leftarrow> vol_data (vol_at s vol);
     k_fs_PupUnmountVolume (env_wait env) (env_bitmap env) v
   }"

definition fsys_format :: "mount_env \<Rightarrow> nat \<Rightarrow> nat \<Rightarrow> k_dev_disk_t \<Rightarrow> k_fs_vols \<Rightarrow> k_dev_disk_t option" where
  "fsys_format env vol block_count disk s =
     k_fs_PupFormatVolume (env_wait env) (env_stack env) (vol_partition (vol_at s vol)) block_count disk"

text \<open>A new volume object at \<open>vol\<close>, in front of the list.\<close>

definition link_volume :: "nat \<Rightarrow> k_fs_part_t \<Rightarrow> k_fs_vols \<Rightarrow> k_fs_vols" where
  "link_volume vol part s =
     s\<lparr>vol_at := (vol_at s)(vol := \<lparr>vol_next = k_fs_volumes s, vol_partition = part, vol_data = None\<rparr>), k_fs_volumes := Some vol\<rparr>"

definition k_fs_MountVolume :: "mount_env \<Rightarrow> nat \<Rightarrow> k_fs_part_t \<Rightarrow> k_dev_disk_t \<Rightarrow> k_fs_vols \<Rightarrow> (nat \<times> k_fs_vols) option" where
  "k_fs_MountVolume env vol part disk s = do {
     s \<leftarrow> fsys_mount env vol disk (link_volume vol part s);
     Some (vol, s)
   }"

definition k_fs_UnmountVolume :: "mount_env \<Rightarrow> nat \<Rightarrow> k_fs_vols \<Rightarrow> k_dev_disk_t option" where
  "k_fs_UnmountVolume env vol s = fsys_unmount env vol s"

definition k_fs_FormatVolume :: "mount_env \<Rightarrow> nat \<Rightarrow> nat \<Rightarrow> k_fs_vols \<Rightarrow> k_fs_vols option" where
  "k_fs_FormatVolume env vol block_count s = do {
     disk \<leftarrow> fsys_unmount env vol s;
     disk \<leftarrow> fsys_format env vol block_count disk s;
     fsys_mount env vol disk s
   }"

definition k_fs_FormatPartition ::
    "mount_env \<Rightarrow> nat \<Rightarrow> k_fs_part_t \<Rightarrow> nat \<Rightarrow> nat \<Rightarrow> k_dev_disk_t \<Rightarrow> k_fs_vols \<Rightarrow> (nat \<times> k_fs_vols) option" where
  "k_fs_FormatPartition env vol part file_system block_count disk s =
     (if file_system \<noteq> K_FS_FILE_SYSTEM_PUP then None
      else do {
        let s = link_volume vol part s;
        disk \<leftarrow> fsys_format env vol block_count disk s;
        s \<leftarrow> fsys_mount env vol disk s;
        Some (vol, s)
      })"

section \<open>Writing a volume back\<close>

lemma ram_write_blocks:
  assumes "ram_volume_ok part d" "0 < a" "(b + n) * 4096 \<le> length (volume_bytes part d)" "n * 4096 \<le> length buf"
  shows "k_fs_WriteVolumeBlocks wait part 4096 b n (a, buf) d = Some (volume_put part (b * 4096) (take (n * 4096) buf) d)"
proof -
  have p: "part_ok part d" using assms(1) by (simp add: ram_volume_ok_def)
  note bb = blocks_bytes [OF p assms(3)]
  have "n * 4096 < 2 ^ 32" using part_ok_bound(2) [OF p bb(2)] by simp
  then have "mul32 4096 n = n * 4096" using mul32_small [of 4096 n] by (simp add: mult.commute)
  then show ?thesis using ram_volume_write [OF assms(1,2) bb(2) assms(4), of wait] by (simp add: k_fs_WriteVolumeBlocks_def)
qed

lemma blit_slice: "s + n \<le> length xs \<Longrightarrow> blit xs s (take n (drop s xs)) = xs"
  by (simp add: blit_def) (metis add.commute append_take_drop_id drop_drop)

lemma StoreCacheEntry_ok:
  assumes r: "cache_rep (volume_bytes part (vol_disk v)) v es p fs" and v: "ram_volume_ok part (vol_disk v)" "partition v = part"
    and e: "e \<in> set es"
  shows "\<exists>w. k_fs_PupStoreCacheEntry wait e v = Some w \<and> cache_rep (volume_bytes part (vol_disk w)) w es p fs \<and>
    ram_volume_ok part (vol_disk w) \<and> partition w = part \<and> volume_bytes part (vol_disk w) = volume_bytes part (vol_disk v) \<and>
    disk_block_size (vol_disk w) = disk_block_size (vol_disk v) \<and>
    root w = root v \<and> block_bitmask w = block_bitmask v \<and> (\<forall>a. entry_next (entry_at w a) = entry_next (entry_at v a))"
proof -
  let ?V = "volume_bytes part (vol_disk v)" and ?e = "entry_at v e"
  let ?b = "entry_first_block ?e"
  have val: "(?b + 4) * 4096 \<le> length ?V" "entry_buffer ?e = take (4 * 4096) (drop (?b * 4096) ?V)"
    using cache_repD(6) [OF r e] by (simp_all add: entry_valid_def)
  have l: "4 * 4096 \<le> length (entry_buffer ?e)" using val by simp
  define d where "d = volume_put part (?b * 4096) (entry_buffer ?e) (vol_disk v)"
  have run: "k_fs_WriteVolumeBlocks wait part 4096 ?b 4 (buffer_addr e, entry_buffer ?e) (vol_disk v) = Some d"
    using ram_write_blocks [OF v(1) _ val(1) l, of "buffer_addr e" wait] val(2) by (simp add: d_def buffer_addr_def)
  have fit: "?b * 4096 + length (entry_buffer ?e) \<le> length ?V" using val by simp
  note put = volume_put_ok [OF v(1) fit, folded d_def]
  have V: "volume_bytes part d = ?V" unfolding put(2) val(2) by (rule blit_slice) (use val(1) in simp)
  let ?w = "upd_entry e (\<lambda>x. x\<lparr>entry_flags := entry_flags x AND NOT K_FS_PUP_CENTRY_FLAG_DIRTY\<rparr>) (v\<lparr>vol_disk := d\<rparr>)"
  have "k_fs_PupStoreCacheEntry wait e v = Some ?w"
    using run v(2) by (simp add: k_fs_PupStoreCacheEntry_def K_FS_PUP_BLOCKS_PER_ENTRY_def)
  moreover have "cache_rep ?V ?w es p fs"
  proof -
    have f: "(x AND NOT D) AND P = 0" if "x AND P = 0" for x D P :: "'w :: len word"
    proof -
      have "(x AND NOT D) AND P = (x AND P) AND NOT D" by (simp only: and.assoc and.commute [of "NOT D" P])
      then show ?thesis using that by simp
    qed
    have w: "entry_at ?w a = (if a = e then ?e\<lparr>entry_flags := entry_flags ?e AND NOT K_FS_PUP_CENTRY_FLAG_DIRTY\<rparr> else entry_at v a)"
      "first_entry ?w = first_entry v" "last_entry ?w = last_entry v" "cur_entry_page ?w = cur_entry_page v"
      "cpage_at ?w = cpage_at v" "read_count ?w = read_count v" for a
      by (simp_all add: upd_entry_def)
    have nx: "(\<lambda>a. entry_next (entry_at ?w a)) = (\<lambda>a. entry_next (entry_at v a))"
        "entry_valid ?V (entry_at ?w a) = entry_valid ?V (entry_at v a) \<or> entry_valid ?V (entry_at ?w a)"
        "length (entry_buffer (entry_at ?w a)) = length (entry_buffer (entry_at v a))" for a
      using cache_repD(6) [OF r e] f by (auto simp: w entry_valid_def)
    then show ?thesis using r unfolding cache_rep_def w(2-) by auto
  qed
  ultimately show ?thesis using V put v(2) by (intro exI [of _ ?w]) (simp add: upd_entry_def)
qed

lemma flush_entries_ok:
  assumes "cache_rep (volume_bytes part (vol_disk v)) v es p fs" "ram_volume_ok part (vol_disk v)" "partition v = part"
    and "chain (\<lambda>a. entry_next (entry_at v a)) q qs" "set qs \<subseteq> set es"
  shows "\<exists>w. flush_entries wait q v = Some w \<and> cache_rep (volume_bytes part (vol_disk w)) w es p fs \<and>
    ram_volume_ok part (vol_disk w) \<and> partition w = part \<and> volume_bytes part (vol_disk w) = volume_bytes part (vol_disk v) \<and>
    disk_block_size (vol_disk w) = disk_block_size (vol_disk v) \<and>
    root w = root v \<and> block_bitmask w = block_bitmask v"
  using assms
proof (induction qs arbitrary: q v)
  case Nil
  then show ?case by (subst flush_entries.simps) simp
next
  case (Cons e qs)
  have q: "q = Some e" "e \<in> set es" using Cons.prems(4,5) by simp_all
  obtain w where w: "k_fs_PupStoreCacheEntry wait e v = Some w" "cache_rep (volume_bytes part (vol_disk w)) w es p fs"
      "ram_volume_ok part (vol_disk w)" "partition w = part" "volume_bytes part (vol_disk w) = volume_bytes part (vol_disk v)"
      "disk_block_size (vol_disk w) = disk_block_size (vol_disk v)"
      "root w = root v" "block_bitmask w = block_bitmask v" "\<forall>a. entry_next (entry_at w a) = entry_next (entry_at v a)"
    using StoreCacheEntry_ok [OF Cons.prems(1-3) q(2)] by blast
  have "chain (\<lambda>a. entry_next (entry_at w a)) (entry_next (entry_at w e)) qs" using Cons.prems(4) w(9) by simp
  from Cons.IH [OF w(2-4) this] Cons.prems(5) w
  show ?case by (subst flush_entries.simps) (simp add: q(1))
qed

lemma PupUnmountVolume_ok:
  assumes r: "cache_rep (volume_bytes part (vol_disk v)) v es p fs" and v: "ram_volume_ok part (vol_disk v)" "partition v = part"
    and b: "0 < bitmap" "bitmask_start (root v) = 2" "length (block_bitmask v) = bitmask_block_count (root v) * 4096"
      "(2 + bitmask_block_count (root v)) * 4096 \<le> length (volume_bytes part (vol_disk v))"
  shows "\<exists>d. k_fs_PupUnmountVolume wait bitmap v = Some d \<and> ram_volume_ok part d \<and>
    volume_bytes part d = blit (volume_bytes part (vol_disk v)) 8192 (block_bitmask v) \<and>
    disk_block_size d = disk_block_size (vol_disk v)"
proof -
  let ?c = "bitmask_block_count (root v)"
  obtain w where w: "flush_entries wait (first_entry v) v = Some w" "cache_rep (volume_bytes part (vol_disk w)) w es p fs"
      "ram_volume_ok part (vol_disk w)" "partition w = part" "volume_bytes part (vol_disk w) = volume_bytes part (vol_disk v)"
      "disk_block_size (vol_disk w) = disk_block_size (vol_disk v)" "root w = root v" "block_bitmask w = block_bitmask v"
    using flush_entries_ok [OF r v cache_repD(1) [OF r] order_refl] by blast
  have p: "part_ok part (vol_disk v)" using v(1) by (simp add: ram_volume_ok_def)
  have c: "?c < 2 ^ 32" using part_ok_bound(2) [OF p order_refl] b(4) by simp
  define d where "d = volume_put part 8192 (block_bitmask v) (vol_disk w)"
  have "k_fs_WriteVolumeBlocks wait part 4096 2 ?c (bitmap, block_bitmask v) (vol_disk w) = Some d"
    using ram_write_blocks [OF w(3) b(1), of 2 ?c "block_bitmask v" wait] b(3,4) w(5) by (simp add: d_def)
  then have "k_fs_PupUnmountVolume wait bitmap v = Some d"
    using w c b(2) by (simp add: k_fs_PupUnmountVolume_def k_fs_PupFlushCache_def)
  moreover have "8192 + length (block_bitmask v) \<le> length (volume_bytes part (vol_disk w))" using b(3,4) w(5) by simp
  ultimately show ?thesis using volume_put_ok [OF w(3)] w(5,6) by (fastforce simp: d_def)
qed

section \<open>Volumes of the list\<close>

text \<open>The volume at \<open>vol\<close> is mounted from a disk in memory and its root is the one on the disk.\<close>

definition mounted :: "k_fs_vols \<Rightarrow> nat \<Rightarrow> k_fs_pup_vol_t \<Rightarrow> bool" where
  "mounted s vol v \<longleftrightarrow> vol_data (vol_at s vol) = Some v \<and> vol_partition (vol_at s vol) = partition v \<and>
     ram_volume_ok (partition v) (vol_disk v) \<and>
     (\<exists>es p fs. cache_rep (volume_bytes (partition v) (vol_disk v)) v es p fs) \<and>
     root_ok (root v) \<and> root_node (root v) = 256 \<and> bitmask_start (root v) = 2 \<and>
     take 64 (volume_bytes (partition v) (vol_disk v)) = root_bytes (root v) \<and>
     length (block_bitmask v) = bitmask_block_count (root v) * 4096 \<and>
     (2 + bitmask_block_count (root v)) * 4096 \<le> length (volume_bytes (partition v) (vol_disk v)) \<and>
     4 * 4096 \<le> length (volume_bytes (partition v) (vol_disk v))"

definition mount_env_ok :: "mount_env \<Rightarrow> bool" where
  "mount_env_ok env \<longleftrightarrow> 0 < env_data env \<and> 0 < env_bitmap env \<and> 0 < env_stack env \<and>
     (\<forall>e. length (entry_buffer (new_entries (env_memory env) e)) = 4 * 4096) \<and>
     (\<forall>k. length (new_bytes (env_memory env) k) = k)"

lemma mount_env_okD:
  assumes "mount_env_ok env"
  shows "0 < env_data env" "0 < env_bitmap env" "0 < env_stack env"
    "\<And>e. length (entry_buffer (new_entries (env_memory env) e)) = 4 * 4096" "\<And>k. length (new_bytes (env_memory env) k) = k"
  using assms by (simp_all add: mount_env_ok_def)

text \<open>The volumes of the list, newest first.\<close>

definition volumes_rep :: "k_fs_vols \<Rightarrow> nat list \<Rightarrow> bool" where
  "volumes_rep s vs \<longleftrightarrow> chain (\<lambda>a. vol_next (vol_at s a)) (k_fs_volumes s) vs"

lemma link_volume_rep:
  assumes "volumes_rep s vs" "vol \<notin> set vs"
  shows "volumes_rep (link_volume vol part s) (vol # vs)"
proof -
  have "chain (\<lambda>a. vol_next (vol_at (link_volume vol part s) a)) q vs = chain (\<lambda>a. vol_next (vol_at s a)) q vs" for q
    by (rule chain_cong) (use assms(2) in \<open>auto simp: link_volume_def\<close>)
  then show ?thesis using assms(1) unfolding volumes_rep_def by (simp add: link_volume_def)
qed

lemma set_data_rep:
  "volumes_rep (s\<lparr>vol_at := (vol_at s)(vol := (vol_at s vol)\<lparr>vol_data := q\<rparr>)\<rparr>) vs \<longleftrightarrow> volumes_rep s vs"
proof -
  have "(\<lambda>a. vol_next (((vol_at s)(vol := (vol_at s vol)\<lparr>vol_data := q\<rparr>)) a)) = (\<lambda>a. vol_next (vol_at s a))" by auto
  then show ?thesis by (simp add: volumes_rep_def)
qed

lemma fsys_mount_ok:
  assumes env: "mount_env_ok env" and part: "vol_partition (vol_at s vol) = part" and d: "ram_volume_ok part d"
    and r: "root_ok r" "root_node r = 256" "bitmask_start r = 2" "take 64 (volume_bytes part d) = root_bytes r"
    and len: "(2 + bitmask_block_count r) * 4096 \<le> length (volume_bytes part d)" "4 * 4096 \<le> length (volume_bytes part d)"
  shows "\<exists>w. fsys_mount env vol d s = Some (s\<lparr>vol_at := (vol_at s)(vol := (vol_at s vol)\<lparr>vol_data := Some w\<rparr>)\<rparr>) \<and>
    mounted (s\<lparr>vol_at := (vol_at s)(vol := (vol_at s vol)\<lparr>vol_data := Some w\<rparr>)\<rparr>) vol w \<and> partition w = part \<and> root w = r \<and>
    block_bitmask w = take (bitmask_block_count r * 4096) (drop 8192 (volume_bytes part d)) \<and>
    volume_bytes part (vol_disk w) = volume_bytes part d"
proof -
  obtain w e es fs where w: "k_fs_PupMountVolume (env_wait env) (env_memory env) (env_data env) (env_page env) (env_bitmap env) part d = Some w"
      "root w = r" "block_bitmask w = take (bitmask_block_count r * 4096) (drop 8192 (volume_bytes part d))"
      "cache_rep (volume_bytes part (vol_disk w)) w es (env_page env) fs" "partition w = part"
      "volume_bytes part (vol_disk w) = volume_bytes part d" "ram_volume_ok part (vol_disk w)"
    using PupMountVolume_ok [OF d mount_env_okD(1,2,4,5) [OF env] r len, of "env_wait env" "env_page env"] by blast
  have "mounted (s\<lparr>vol_at := (vol_at s)(vol := (vol_at s vol)\<lparr>vol_data := Some w\<rparr>)\<rparr>) vol w"
    using w r len part by (auto simp: mounted_def)
  then show ?thesis using w part by (intro exI [of _ w]) (simp add: fsys_mount_def)
qed

text \<open>A formatted partition is mounted in front of the list, with every block free.\<close>

lemma k_fs_FormatPartition_ok:
  assumes env: "mount_env_ok env" and vs: "volumes_rep s vs" "vol \<notin> set vs" and d: "ram_volume_ok part disk" and n: "n < 2 ^ 64"
    and len: "(2 + format_bitmask_blocks n) * 4096 \<le> length (volume_bytes part disk)" "4 * 4096 \<le> length (volume_bytes part disk)"
      "volume_start part disk + 257 * 4096 < 2 ^ 32"
  shows "\<exists>s' w. k_fs_FormatPartition env vol part K_FS_FILE_SYSTEM_PUP n disk s = Some (vol, s') \<and> volumes_rep s' (vol # vs) \<and>
    mounted s' vol w \<and> partition w = part \<and> format_root n = Some (root w) \<and>
    block_bitmask w = replicate (format_bitmask_blocks n * 4096) 0 \<and>
    length (volume_bytes part (vol_disk w)) = length (volume_bytes part disk)"
proof -
  obtain d r where f: "k_fs_PupFormatVolume (env_wait env) (env_stack env) part n disk = Some d" "ram_volume_ok part d"
      "length (volume_bytes part d) = length (volume_bytes part disk)" "format_root n = Some r"
      "take 64 (volume_bytes part d) = root_bytes r"
      "take (format_bitmask_blocks n * 4096) (drop 8192 (volume_bytes part d)) = replicate (format_bitmask_blocks n * 4096) 0"
    using PupFormatVolume_ok [OF d mount_env_okD(3) [OF env] n len(1,3)] by blast
  have r: "root_ok r" "root_node r = 256" "bitmask_start r = 2" "bitmask_block_count r = format_bitmask_blocks n"
    using format_root_ok [OF n] f(4) by auto
  let ?s = "link_volume vol part s"
  have p: "vol_partition (vol_at ?s vol) = part" by (simp add: link_volume_def)
  have l: "(2 + bitmask_block_count r) * 4096 \<le> length (volume_bytes part d)" "4 * 4096 \<le> length (volume_bytes part d)"
    unfolding f(3) r(4) by (rule len(1), rule len(2))
  obtain w where w: "fsys_mount env vol d ?s = Some (?s\<lparr>vol_at := (vol_at ?s)(vol := (vol_at ?s vol)\<lparr>vol_data := Some w\<rparr>)\<rparr>)"
      "mounted (?s\<lparr>vol_at := (vol_at ?s)(vol := (vol_at ?s vol)\<lparr>vol_data := Some w\<rparr>)\<rparr>) vol w"
      "partition w = part" "root w = r" "block_bitmask w = take (bitmask_block_count r * 4096) (drop 8192 (volume_bytes part d))"
      "volume_bytes part (vol_disk w) = volume_bytes part d"
    using fsys_mount_ok [OF env p f(2) r(1-3) f(5) l] by blast
  let ?t = "?s\<lparr>vol_at := (vol_at ?s)(vol := (vol_at ?s vol)\<lparr>vol_data := Some w\<rparr>)\<rparr>"
  have "k_fs_FormatPartition env vol part K_FS_FILE_SYSTEM_PUP n disk s = Some (vol, ?t)"
    using f(1) w(1) p by (simp add: k_fs_FormatPartition_def fsys_format_def Let_def)
  moreover have "volumes_rep ?t (vol # vs)" using link_volume_rep [OF vs] set_data_rep by blast
  moreover have "format_root n = Some (root w)" "block_bitmask w = replicate (format_bitmask_blocks n * 4096) 0"
    using f(4,6) w(4,5) r(4) by simp_all
  ultimately show ?thesis using w(2,3,6) f(3) by (intro exI [of _ ?t] exI [of _ w]) simp
qed

lemma unmounted_disk:
  assumes "mounted s vol v" "0 < env_bitmap env"
  shows "\<exists>d. k_fs_UnmountVolume env vol s = Some d \<and> k_fs_PupUnmountVolume (env_wait env) (env_bitmap env) v = Some d \<and> ram_volume_ok (partition v) d \<and>
    length (volume_bytes (partition v) d) = length (volume_bytes (partition v) (vol_disk v)) \<and>
    take 64 (volume_bytes (partition v) d) = root_bytes (root v) \<and>
    take (bitmask_block_count (root v) * 4096) (drop 8192 (volume_bytes (partition v) d)) = block_bitmask v"
proof -
  let ?V = "volume_bytes (partition v) (vol_disk v)"
  have m: "vol_data (vol_at s vol) = Some v" "ram_volume_ok (partition v) (vol_disk v)" "bitmask_start (root v) = 2"
      "take 64 ?V = root_bytes (root v)" "length (block_bitmask v) = bitmask_block_count (root v) * 4096"
      "(2 + bitmask_block_count (root v)) * 4096 \<le> length ?V"
    using assms(1) by (simp_all add: mounted_def)
  obtain es p fs where c: "cache_rep ?V v es p fs" using assms(1) by (auto simp: mounted_def)
  obtain d where d: "k_fs_PupUnmountVolume (env_wait env) (env_bitmap env) v = Some d" "ram_volume_ok (partition v) d"
      "volume_bytes (partition v) d = blit ?V 8192 (block_bitmask v)"
    using PupUnmountVolume_ok [OF c m(2) refl assms(2) m(3,5,6)] by blast
  have fit: "8192 + length (block_bitmask v) \<le> length ?V" using m(5,6) by simp
  have "take 64 (drop 0 (blit ?V 8192 (block_bitmask v))) = take 64 (drop 0 ?V)"
    by (rule slice_blit_disjoint) (use fit in simp_all)
  then show ?thesis using d m(1,4,5) fit take_drop_blit [OF fit]
    by (simp add: k_fs_UnmountVolume_def fsys_unmount_def)
qed

text \<open>
  C38: What a volume holds survives. A mounted volume that is unmounted, with whatever blocks its bitmap in
  memory marks as used, and mounted again from its disk has the same root block and the same bitmap, a
  cache that agrees with the disk, and is the newest volume of the list.
\<close>

theorem k_fs_UnmountVolume_MountVolume:
  assumes env: "mount_env_ok env" and m: "mounted s vol v" and vs: "volumes_rep s vs" "vol' \<notin> set vs"
  shows "\<exists>d s' w. k_fs_UnmountVolume env vol s = Some d \<and>
    k_fs_MountVolume env vol' (partition v) d s = Some (vol', s') \<and> volumes_rep s' (vol' # vs) \<and>
    mounted s' vol' w \<and> partition w = partition v \<and> root w = root v \<and> block_bitmask w = block_bitmask v"
proof -
  obtain d where d: "k_fs_UnmountVolume env vol s = Some d" "ram_volume_ok (partition v) d"
      "length (volume_bytes (partition v) d) = length (volume_bytes (partition v) (vol_disk v))"
      "take 64 (volume_bytes (partition v) d) = root_bytes (root v)"
      "take (bitmask_block_count (root v) * 4096) (drop 8192 (volume_bytes (partition v) d)) = block_bitmask v"
    using unmounted_disk [OF m mount_env_okD(2) [OF env]] by blast
  have r: "root_ok (root v)" "root_node (root v) = 256" "bitmask_start (root v) = 2"
      "(2 + bitmask_block_count (root v)) * 4096 \<le> length (volume_bytes (partition v) d)"
      "4 * 4096 \<le> length (volume_bytes (partition v) d)"
    using m d(3) by (simp_all add: mounted_def)
  let ?s = "link_volume vol' (partition v) s"
  have p: "vol_partition (vol_at ?s vol') = partition v" by (simp add: link_volume_def)
  obtain w where w: "fsys_mount env vol' d ?s = Some (?s\<lparr>vol_at := (vol_at ?s)(vol' := (vol_at ?s vol')\<lparr>vol_data := Some w\<rparr>)\<rparr>)"
      "mounted (?s\<lparr>vol_at := (vol_at ?s)(vol' := (vol_at ?s vol')\<lparr>vol_data := Some w\<rparr>)\<rparr>) vol' w"
      "partition w = partition v" "root w = root v"
      "block_bitmask w = take (bitmask_block_count (root v) * 4096) (drop 8192 (volume_bytes (partition v) d))"
    using fsys_mount_ok [OF env p d(2) r(1-3) d(4) r(4,5)] by blast
  let ?t = "?s\<lparr>vol_at := (vol_at ?s)(vol' := (vol_at ?s vol')\<lparr>vol_data := Some w\<rparr>)\<rparr>"
  have "k_fs_MountVolume env vol' (partition v) d s = Some (vol', ?t)" using w(1) by (simp add: k_fs_MountVolume_def)
  moreover have "volumes_rep ?t (vol' # vs)" using link_volume_rep [OF vs] set_data_rep by blast
  ultimately show ?thesis using d(1,5) w(2-5) by auto
qed

text \<open>A change of the bitmap in memory, as the block allocator makes it.\<close>

definition set_bitmask :: "nat \<Rightarrow> k_fs_pup_vol_t \<Rightarrow> bytes \<Rightarrow> k_fs_vols \<Rightarrow> k_fs_vols" where
  "set_bitmask vol v bs s = s\<lparr>vol_at := (vol_at s)(vol := (vol_at s vol)\<lparr>vol_data := Some (v\<lparr>block_bitmask := bs\<rparr>)\<rparr>)\<rparr>"

lemma set_bitmask_ok:
  assumes "mounted s vol v" "volumes_rep s vs" "length bs = length (block_bitmask v)"
  shows "mounted (set_bitmask vol v bs s) vol (v\<lparr>block_bitmask := bs\<rparr>)" "volumes_rep (set_bitmask vol v bs s) vs"
proof -
  show "volumes_rep (set_bitmask vol v bs s) vs" using assms(2) set_data_rep by (simp add: set_bitmask_def)
  show "mounted (set_bitmask vol v bs s) vol (v\<lparr>block_bitmask := bs\<rparr>)"
    using assms(1,3) by (simp add: mounted_def set_bitmask_def cache_rep_def)
qed

definition sample_mount_env :: mount_env where
  "sample_mount_env = \<lparr>env_wait = (\<lambda>_ _. None), env_memory = sample_heap_memory, env_data = 4096, env_page = 8192,
     env_bitmap = 65536, env_stack = 4096\<rparr>"

lemma sample_mount_env_ok: "mount_env_ok sample_mount_env"
  by (simp add: mount_env_ok_def sample_mount_env_def sample_heap_memory_def)

definition no_volumes :: k_fs_vols where
  "no_volumes = \<lparr>k_fs_volumes = None, vol_at = (\<lambda>_. \<lparr>vol_next = None, vol_partition = \<lparr>first_block = 0, part_block_count = 0\<rparr>, vol_data = None\<rparr>)\<rparr>"

text \<open>A volume of four blocks whose first block is marked as used.\<close>

theorem k_fs_UnmountVolume_MountVolume_witness:
  "\<exists>s v d s' w. k_fs_FormatPartition sample_mount_env 77 (partition sample_pup) K_FS_FILE_SYSTEM_PUP 4 (vol_disk sample_pup) no_volumes = Some (77, s) \<and>
     vol_data (vol_at s 77) = Some v \<and>
     k_fs_UnmountVolume sample_mount_env 77 (set_bitmask 77 v (1 # replicate 4095 0) s) = Some d \<and>
     k_fs_MountVolume sample_mount_env 78 (partition v) d (set_bitmask 77 v (1 # replicate 4095 0) s) = Some (78, s') \<and>
     vol_data (vol_at s' 78) = Some w \<and> block_bitmask w = 1 # replicate 4095 0"
proof -
  have n: "format_bitmask_blocks 4 = 1" by (simp add: format_bitmask_blocks_def mul32_def Let_def)
  have st: "volume_start (partition sample_pup) (vol_disk sample_pup) = 0" by (simp add: volume_start_def sample_pup_def)
  have e: "volumes_rep no_volumes []" by (simp add: volumes_rep_def no_volumes_def)
  have len: "(2 + format_bitmask_blocks 4) * 4096 \<le> length (volume_bytes (partition sample_pup) (vol_disk sample_pup))"
      "4 * 4096 \<le> length (volume_bytes (partition sample_pup) (vol_disk sample_pup))"
      "volume_start (partition sample_pup) (vol_disk sample_pup) + 257 * 4096 < 2 ^ 32"
    unfolding n st sample_pup_ok(2) by simp_all
  obtain s v where s: "k_fs_FormatPartition sample_mount_env 77 (partition sample_pup) K_FS_FILE_SYSTEM_PUP 4 (vol_disk sample_pup) no_volumes = Some (77, s)"
      "volumes_rep s [77]" "mounted s 77 v" "block_bitmask v = replicate 4096 0"
    using k_fs_FormatPartition_ok [OF sample_mount_env_ok e _ sample_pup_ok(1) _ len, of 77] n by auto
  let ?bs = "1 # replicate 4095 (0 :: u8)"
  have l: "length ?bs = length (block_bitmask v)" unfolding s(4) by simp
  note b = set_bitmask_ok [OF s(3,2) l]
  obtain d s' w where "k_fs_UnmountVolume sample_mount_env 77 (set_bitmask 77 v ?bs s) = Some d"
      "k_fs_MountVolume sample_mount_env 78 (partition (v\<lparr>block_bitmask := ?bs\<rparr>)) d (set_bitmask 77 v ?bs s) = Some (78, s')"
      "mounted s' 78 w" "block_bitmask w = block_bitmask (v\<lparr>block_bitmask := ?bs\<rparr>)"
    using k_fs_UnmountVolume_MountVolume [OF sample_mount_env_ok b, of 78] by auto
  moreover have "vol_data (vol_at s' 78) = Some w" using calculation(3) by (simp add: mounted_def)
  moreover have "vol_data (vol_at s 77) = Some v" using s(3) by (simp add: mounted_def)
  ultimately show ?thesis using s(1) by (intro exI [of _ s] exI [of _ v] exI [of _ d] exI [of _ s'] exI [of _ w]) simp
qed

end
