(* ===== verification/Fs_File.thy ===== *)
theory Fs_File
  imports Pup_Format
begin

text \<open>
  File handles and open files (\<open>kernel/fs/fs.c\<close>), and the parts of \<open>kernel/fs/pup.c\<close> that look up,
  initialise and name nodes. Most of the node operations of the source have their bodies commented
  out; what is modelled is the code that is compiled. The lemmas show that the handle allocator
  gives out one handle per page of handles, and that no file can be opened.
\<close>

section \<open>File handles\<close>

record k_fs_file_t =
  file_refs :: nat
  file_volume :: "nat option"
  file_handle :: nat
  file_next :: "nat option"
  file_prev :: "nat option"
  file_page :: nat
  file_path :: "bytes option"

record k_fs_file_handle_page_t =
  handle_page_index :: nat
  next_page :: "nat option"
  prev_page :: "nat option"
  handle_next_free :: "nat option"
  handle_used_count :: nat

record k_fs_files =
  k_fs_open_files :: "nat option"
  k_fs_last_open_file :: "nat option"
  k_fs_file_handle_page_index :: nat
  k_fs_file_handle_page_count :: nat
  k_fs_file_handle_pages :: "nat option"
  k_fs_cur_file_handle_page :: "nat option"
  k_fs_last_file_handle_page :: "nat option"
  file_at :: "nat \<Rightarrow> k_fs_file_t"
  handle_page_at :: "nat \<Rightarrow> k_fs_file_handle_page_t"

definition K_FS_FILE_HANDLE_PAGE_ENTRY_COUNT :: nat where
  "K_FS_FILE_HANDLE_PAGE_ENTRY_COUNT = (4096 - 20) div 36"

definition handle_entry :: "nat \<Rightarrow> nat \<Rightarrow> nat" where
  "handle_entry page index = page + 20 + index * 36"

definition upd_file :: "nat \<Rightarrow> (k_fs_file_t \<Rightarrow> k_fs_file_t) \<Rightarrow> k_fs_files \<Rightarrow> k_fs_files" where
  "upd_file a f s = s\<lparr>file_at := (file_at s)(a := f (file_at s a))\<rparr>"

definition upd_handle_page ::
    "nat \<Rightarrow> (k_fs_file_handle_page_t \<Rightarrow> k_fs_file_handle_page_t) \<Rightarrow> k_fs_files \<Rightarrow> k_fs_files" where
  "upd_handle_page a f s = s\<lparr>handle_page_at := (handle_page_at s)(a := f (handle_page_at s a))\<rparr>"

text \<open>A new page is zeroed before its handles are linked, from the last to the first.\<close>

definition zero_file :: k_fs_file_t where
  "zero_file = \<lparr>file_refs = 0, file_volume = None, file_handle = 0, file_next = None, file_prev = None, file_page = 0, file_path = None\<rparr>"

fun link_handles :: "nat \<Rightarrow> nat \<Rightarrow> nat option \<Rightarrow> k_fs_files \<Rightarrow> k_fs_files" where
  "link_handles 0 page next_entry s = s"
| "link_handles (Suc index) page next_entry s =
     link_handles index page (Some (handle_entry page index))
       (upd_file (handle_entry page index) (\<lambda>_. zero_file\<lparr>file_next := next_entry, file_page := page\<rparr>) s)"

definition new_handle_page :: "nat \<Rightarrow> k_fs_files \<Rightarrow> k_fs_files option" where
  "new_handle_page page s = do {
     let s = s\<lparr>k_fs_cur_file_handle_page := Some page\<rparr>;
     let s = upd_handle_page page (\<lambda>_. \<lparr>handle_page_index = k_fs_file_handle_page_index s, next_page = None,
       prev_page = None, handle_next_free = Some (handle_entry page 0), handle_used_count = 0\<rparr>) s;
     let s = s\<lparr>k_fs_file_handle_page_index := k_fs_file_handle_page_index s + 1\<rparr>;
     let s = link_handles K_FS_FILE_HANDLE_PAGE_ENTRY_COUNT page None s;
     s \<leftarrow> (if k_fs_file_handle_pages s = None then Some (s\<lparr>k_fs_file_handle_pages := Some page\<rparr>)
       else do {
         l \<leftarrow> k_fs_last_file_handle_page s;
         Some (upd_handle_page page (\<lambda>p. p\<lparr>prev_page := Some l\<rparr>)
           (upd_handle_page l (\<lambda>p. p\<lparr>next_page := Some page\<rparr>) s))
       });
     Some (s\<lparr>k_fs_last_file_handle_page := Some page,
       k_fs_file_handle_page_count := k_fs_file_handle_page_count s + 1\<rparr>)
   }"

text \<open>
  The test after a handle is taken is an assignment: it clears the free list of the page and is
  never true.
\<close>

definition k_fs_AllocFileHandle :: "nat \<Rightarrow> k_fs_files \<Rightarrow> (nat \<times> k_fs_files) option" where
  "k_fs_AllocFileHandle new_page s = do {
     s \<leftarrow> (if k_fs_cur_file_handle_page s = None then new_handle_page new_page s else Some s);
     cur \<leftarrow> k_fs_cur_file_handle_page s;
     h \<leftarrow> handle_next_free (handle_page_at s cur);
     let s = upd_handle_page cur (\<lambda>p. p\<lparr>handle_next_free := file_next (file_at s h),
       handle_used_count := handle_used_count p + 1\<rparr>) s;
     let s = upd_file h (\<lambda>f. f\<lparr>file_next := None, file_prev := None\<rparr>) s;
     Some (h, upd_handle_page cur (\<lambda>p. p\<lparr>handle_next_free := None\<rparr>) s)
   }"

definition k_fs_FreeFileHandle :: "nat \<Rightarrow> k_fs_files \<Rightarrow> k_fs_files" where
  "k_fs_FreeFileHandle h s = (
     let page = file_page (file_at s h);
       s = upd_file h (\<lambda>f. f\<lparr>file_next := handle_next_free (handle_page_at s page)\<rparr>) s;
       s = upd_handle_page page (\<lambda>p. p\<lparr>handle_next_free := Some h, handle_used_count := sub32 (handle_used_count p) 1\<rparr>) s
     in if (case k_fs_cur_file_handle_page s of None \<Rightarrow> True
         | Some c \<Rightarrow> handle_page_index (handle_page_at s page) < handle_page_index (handle_page_at s c))
        then s\<lparr>k_fs_cur_file_handle_page := Some page\<rparr> else s)"

section \<open>Nodes\<close>

text \<open>The body of \<open>k_fs_PupFindNode\<close> is commented out: it returns the null link.\<close>

definition k_fs_PupFindNode :: "bytes \<Rightarrow> nat \<Rightarrow> nat" where
  "k_fs_PupFindNode path start_node = K_FS_PUP_NULL_LINK"

definition k_fs_PupAddNode :: "nat \<Rightarrow> bytes \<Rightarrow> bytes \<Rightarrow> nat" where
  "k_fs_PupAddNode start_node path name = (
     let parent = k_fs_PupFindNode path start_node in K_FS_PUP_NULL_LINK)"

text \<open>
  \<open>k_fs_PupGetNodeOnEntry\<close> has no return statement: its callers use a value that is not defined.
\<close>

definition k_fs_PupGetNode ::
    "disk_wait \<Rightarrow> nat option \<Rightarrow> nat \<Rightarrow> k_fs_pup_vol_t \<Rightarrow> (k_fs_pup_node_t option \<times> k_fs_pup_vol_t) option" where
  "k_fs_PupGetNode wait fresh node_address v = do {
     (e, v) \<leftarrow> k_fs_PupFindOrLoadCacheEntry wait fresh None (K_FS_PUP_NODE_BLOCK node_address) v;
     None
   }"

definition k_fs_PupOpenFile ::
    "disk_wait \<Rightarrow> nat option \<Rightarrow> nat \<Rightarrow> bytes \<Rightarrow> k_fs_pup_vol_t \<Rightarrow> k_fs_files \<Rightarrow>
     (nat option \<times> k_fs_pup_vol_t \<times> k_fs_files) option" where
  "k_fs_PupOpenFile wait fresh new_page path v s = (
     let file_node = k_fs_PupFindNode path K_FS_PUP_NULL_LINK
     in if file_node \<noteq> K_FS_PUP_NULL_LINK then do {
          (node, v) \<leftarrow> k_fs_PupGetNode wait fresh file_node v;
          case node of
            None \<Rightarrow> Some (None, v, s)
          | Some n \<Rightarrow> if node_type n = node_type_byte K_FS_PUP_NODE_TYPE_FILE then do {
                (h, s) \<leftarrow> k_fs_AllocFileHandle new_page s;
                Some (Some h, v, upd_file h (\<lambda>f. f\<lparr>file_handle := file_node\<rparr>) s)
              }
              else Some (None, v, s)
        }
        else Some (None, v, s))"

text \<open>The fields that \<open>k_fs_PupInitContents\<close> stores in the entries of a directory block.\<close>

definition K_FS_PUP_DIR_CONTENT_ENTRY_COUNT :: nat where
  "K_FS_PUP_DIR_CONTENT_ENTRY_COUNT = 0x1000 div ((0x1000 - 16) div 256)"

definition K_FS_PUP_DATA_CONTENT_ENTRY_COUNT :: nat where
  "K_FS_PUP_DATA_CONTENT_ENTRY_COUNT = 0x1000 div ((0x1000 - 8) div 20)"

definition put_bytes :: "bytes \<Rightarrow> nat \<Rightarrow> bytes \<Rightarrow> bytes option" where
  "put_bytes buf i bs = copy_bytes buf i bs 0 (length bs)"

fun init_dir_entries :: "nat \<Rightarrow> nat \<Rightarrow> bytes \<Rightarrow> bytes option" where
  "init_dir_entries 0 next_index contents = Some contents"
| "init_dir_entries (Suc index) next_index contents = do {
     contents \<leftarrow> put_bytes contents (16 + 256 * index) (le_bytes 8 K_FS_PUP_NULL_LINK);
     contents \<leftarrow> put_bytes contents (16 + 256 * index + 21)
       [word_of_nat next_index, node_type_byte K_FS_PUP_NODE_TYPE_NONE];
     init_dir_entries index index contents
   }"

fun init_data_entries :: "nat \<Rightarrow> nat \<Rightarrow> bytes \<Rightarrow> bytes option" where
  "init_data_entries 0 next_index contents = Some contents"
| "init_data_entries (Suc index) next_index contents = do {
     contents \<leftarrow> put_bytes contents (8 + 20 * index) (le_bytes 8 K_FS_PUP_NULL_LINK);
     contents \<leftarrow> put_bytes contents (8 + 20 * index + 17) [word_of_nat next_index];
     contents \<leftarrow> put_bytes contents (8 + 20 * index + 8) (le_bytes 8 0);
     init_data_entries index index contents
   }"

datatype k_fs_pup_content_type = K_FS_PUP_CONTENT_TYPE_DATA | K_FS_PUP_CONTENT_TYPE_DIR

fun k_fs_PupInitContents :: "bytes \<Rightarrow> nat \<Rightarrow> k_fs_pup_content_type \<Rightarrow> bytes option" where
  "k_fs_PupInitContents contents node K_FS_PUP_CONTENT_TYPE_DATA = do {
     contents \<leftarrow> put_bytes contents 2 (le_bytes 2 0);
     init_data_entries K_FS_PUP_DATA_CONTENT_ENTRY_COUNT 0xffff contents
   }"
| "k_fs_PupInitContents contents node K_FS_PUP_CONTENT_TYPE_DIR = do {
     contents \<leftarrow> put_bytes contents 0 (le_bytes 8 node);
     contents \<leftarrow> put_bytes contents 9 [0];
     contents \<leftarrow> put_bytes contents 8 [0xff];
     contents \<leftarrow> put_bytes contents 10 (le_bytes 2 K_FS_PUP_DIR_CONTENT_ENTRY_COUNT);
     init_dir_entries K_FS_PUP_DIR_CONTENT_ENTRY_COUNT 0xffff contents
   }"

text \<open>
  The path of a node, from the parents in the directory blocks; the walk does not return when the
  parents do not lead to the root.
\<close>

partial_function (option) k_fs_PupGetPathToNode_r ::
    "disk_wait \<Rightarrow> nat option \<Rightarrow> nat \<Rightarrow> bytes \<Rightarrow> nat \<Rightarrow> k_fs_pup_vol_t \<Rightarrow> (nat \<times> bytes \<times> k_fs_pup_vol_t) option" where
  "k_fs_PupGetPathToNode_r wait fresh start_node path_buffer buffer_size v =
     (if start_node = root_node (root v) then do {
        path_buffer \<leftarrow> wr path_buffer 0 0;
        (_, path_buffer) \<leftarrow> k_rt_StrCpy path_buffer buffer_size [47, 0];
        Some (sub32 buffer_size 1, path_buffer, v)
      }
      else do {
        (e, v) \<leftarrow> k_fs_PupFindOrLoadCacheEntry wait fresh None (K_FS_PUP_NODE_BLOCK start_node) v;
        let offset = k_fs_PupGetBlock (K_FS_PUP_NODE_BLOCK start_node) e v;
        node \<leftarrow> dir_node (entry_buffer (entry_at v e)) offset (K_FS_PUP_NODE_INDEX start_node);
        parent_link \<leftarrow> dir_parent (entry_buffer (entry_at v e)) offset;
        (available, path_buffer, v) \<leftarrow> k_fs_PupGetPathToNode_r wait fresh parent_link path_buffer buffer_size v;
        len \<leftarrow> k_rt_StrLen (Some (node_name node));
        (available, path_buffer) \<leftarrow> (if len + 2 \<le> available then do {
            (_, path_buffer) \<leftarrow> k_rt_StrCat path_buffer available (node_name node);
            (_, path_buffer) \<leftarrow> k_rt_StrCat path_buffer available [47, 0];
            Some (available - (len + 2), path_buffer)
          }
          else Some (available, path_buffer));
        Some (available, path_buffer, k_fs_PupReleaseEntry (Some e) v)
      })"

definition k_fs_PupGetPathToNode ::
    "disk_wait \<Rightarrow> nat option \<Rightarrow> nat \<Rightarrow> bytes \<Rightarrow> nat \<Rightarrow> k_fs_pup_vol_t \<Rightarrow> (bytes \<times> k_fs_pup_vol_t) option" where
  "k_fs_PupGetPathToNode wait fresh start_node path_buffer buffer_size v = do {
     (e, v) \<leftarrow> k_fs_PupFindOrLoadCacheEntry wait fresh None (K_FS_PUP_NODE_BLOCK start_node) v;
     node \<leftarrow> dir_node (entry_buffer (entry_at v e))
       (k_fs_PupGetBlock (K_FS_PUP_NODE_BLOCK start_node) e v) (K_FS_PUP_NODE_INDEX start_node);
     (path_buffer, v) \<leftarrow> (if node_type node \<noteq> node_type_byte K_FS_PUP_NODE_TYPE_NONE
       then map_option snd (k_fs_PupGetPathToNode_r wait fresh start_node path_buffer buffer_size v)
       else Some (path_buffer, v));
     Some (path_buffer, k_fs_PupReleaseEntry (Some e) v)
   }"

section \<open>Opening and closing\<close>

text \<open>
  The search compares with the path of each open file; a file without one is a null pointer, on
  which the comparison is not defined.
\<close>

partial_function (option) find_open_file :: "k_fs_files \<Rightarrow> bytes \<Rightarrow> nat option \<Rightarrow> nat option option" where
  "find_open_file s path h = (case h of
       None \<Rightarrow> Some None
     | Some f \<Rightarrow> do {
         p \<leftarrow> file_path (file_at s f);
         c \<leftarrow> k_rt_StrCmp path p;
         if c = 0 then Some (Some f) else find_open_file s path (file_next (file_at s f))
       })"

definition k_fs_OpenFile ::
    "disk_wait \<Rightarrow> nat option \<Rightarrow> nat \<Rightarrow> nat \<Rightarrow> bytes \<Rightarrow> k_fs_pup_vol_t \<Rightarrow> k_fs_files \<Rightarrow>
     (nat \<times> k_fs_pup_vol_t \<times> k_fs_files) option" where
  "k_fs_OpenFile wait fresh new_page volume path v s = do {
     found \<leftarrow> find_open_file s path (k_fs_open_files s);
     case found of
       Some f \<Rightarrow> Some (f, v, upd_file f (\<lambda>x. x\<lparr>file_refs := file_refs x + 1, file_volume := Some volume\<rparr>) s)
     | None \<Rightarrow> do {
         (h, v, s) \<leftarrow> k_fs_PupOpenFile wait fresh new_page path v s;
         s \<leftarrow> (case h of
             None \<Rightarrow> Some s
           | Some f \<Rightarrow> do {
               s \<leftarrow> (if k_fs_open_files s = None then Some (s\<lparr>k_fs_open_files := Some f\<rparr>)
                 else do {
                   l \<leftarrow> k_fs_last_open_file s;
                   Some (upd_file f (\<lambda>x. x\<lparr>file_prev := Some l\<rparr>) (upd_file l (\<lambda>x. x\<lparr>file_next := Some f\<rparr>) s))
                 });
               Some (s\<lparr>k_fs_last_open_file := Some f\<rparr>)
             });
         f \<leftarrow> h;
         Some (f, v, upd_file f (\<lambda>x. x\<lparr>file_refs := 1, file_volume := Some volume\<rparr>) s)
       }
   }"

text \<open>The last close calls the file system of the file's volume, which does nothing.\<close>

definition k_fs_CloseFile :: "nat option \<Rightarrow> k_fs_files \<Rightarrow> k_fs_files option" where
  "k_fs_CloseFile h s = (case h of
      None \<Rightarrow> Some s
    | Some f \<Rightarrow> if file_handle (file_at s f) \<noteq> 0 \<and> 0 < file_refs (file_at s f) then do {
        let s = upd_file f (\<lambda>x. x\<lparr>file_refs := file_refs x - 1\<rparr>) s;
        if file_refs (file_at s f) = 0 then do {
          _ \<leftarrow> file_volume (file_at s f);
          Some (k_fs_FreeFileHandle f (upd_file f (\<lambda>x. x\<lparr>file_handle := 0\<rparr>) s))
        }
        else Some s
      }
      else Some s)"

definition k_fs_PupRemoveNode :: "disk_wait \<Rightarrow> nat option \<Rightarrow> bytes \<Rightarrow> k_fs_pup_vol_t \<Rightarrow> k_fs_pup_vol_t option" where
  "k_fs_PupRemoveNode wait fresh path v = (
     let node_link = k_fs_PupFindNode path K_FS_PUP_NULL_LINK
     in if node_link \<noteq> K_FS_PUP_NULL_LINK
        then map_option snd (k_fs_PupFindOrLoadCacheEntry wait fresh None (K_FS_PUP_NODE_BLOCK node_link) v)
        else Some v)"

definition k_fs_PupOpenFileNode ::
    "disk_wait \<Rightarrow> nat option \<Rightarrow> nat \<Rightarrow> bytes \<Rightarrow> k_fs_pup_vol_t \<Rightarrow> (nat \<times> k_fs_pup_vol_t) option" where
  "k_fs_PupOpenFileNode wait fresh start_node path v = (
     let file_node = k_fs_PupFindNode path start_node
     in if file_node \<noteq> K_FS_PUP_NULL_LINK then do {
          (e, v) \<leftarrow> k_fs_PupFindOrLoadCacheEntry wait fresh None (K_FS_PUP_NODE_BLOCK file_node) v;
          None
        }
        else Some (file_node, v))"

section \<open>Lemmas\<close>

lemma handle_entry_inj [simp]: "handle_entry p i = handle_entry p j \<longleftrightarrow> i = j"
  by (simp add: handle_entry_def)

text \<open>What linking the handles of a page leaves alone, and what it stores.\<close>

lemma link_handles_keeps [simp]:
  "handle_page_at (link_handles n p nxt s) = handle_page_at s"
  "k_fs_file_handle_pages (link_handles n p nxt s) = k_fs_file_handle_pages s"
  "k_fs_last_file_handle_page (link_handles n p nxt s) = k_fs_last_file_handle_page s"
  "k_fs_cur_file_handle_page (link_handles n p nxt s) = k_fs_cur_file_handle_page s"
  by (induction n arbitrary: nxt s) (simp_all add: upd_file_def)

lemma link_handles_above:
  "n \<le> i \<Longrightarrow> file_at (link_handles n p nxt s) (handle_entry p i) = file_at s (handle_entry p i)"
  by (induction n arbitrary: nxt s) (simp_all add: upd_file_def)

lemma link_handles_at:
  assumes "i < n"
  shows "file_at (link_handles n p nxt s) (handle_entry p i) =
    zero_file\<lparr>file_next := if Suc i = n then nxt else Some (handle_entry p (Suc i)), file_page := p\<rparr>"
  using assms
proof (induction n arbitrary: nxt s)
  case 0
  then show ?case by simp
next
  case (Suc n)
  then show ?case by (cases "i = n") (auto simp: link_handles_above upd_file_def)
qed

text \<open>The first handle of a new page.\<close>

lemma new_handle_page_ok:
  assumes "k_fs_file_handle_pages s \<noteq> None \<longrightarrow> k_fs_last_file_handle_page s \<noteq> None"
  shows "\<exists>t. new_handle_page p s = Some t \<and> k_fs_cur_file_handle_page t = Some p \<and>
    handle_next_free (handle_page_at t p) = Some (handle_entry p 0) \<and>
    file_page (file_at t (handle_entry p 0)) = p"
proof -
  have "0 < K_FS_FILE_HANDLE_PAGE_ENTRY_COUNT" by (simp add: K_FS_FILE_HANDLE_PAGE_ENTRY_COUNT_def)
  note z = link_handles_at [OF this]
  show ?thesis
    using assms by (auto simp: new_handle_page_def upd_handle_page_def z Let_def)
qed

text \<open>A page that has a free handle gives it out and forgets all others.\<close>

lemma AllocFileHandle_once:
  assumes "k_fs_cur_file_handle_page s = Some p" "handle_next_free (handle_page_at s p) = Some h"
    and "file_page (file_at s h) = p"
  shows "\<exists>t. k_fs_AllocFileHandle np s = Some (h, t) \<and> k_fs_cur_file_handle_page t = Some p \<and>
    handle_next_free (handle_page_at t p) = None \<and> file_page (file_at t h) = p"
  using assms by (simp add: k_fs_AllocFileHandle_def upd_file_def upd_handle_page_def)

lemma AllocFileHandle_empty:
  "k_fs_cur_file_handle_page s = Some p \<Longrightarrow> handle_next_free (handle_page_at s p) = None \<Longrightarrow>
   k_fs_AllocFileHandle np s = None"
  by (simp add: k_fs_AllocFileHandle_def)

lemma FreeFileHandle_page:
  assumes "k_fs_cur_file_handle_page s = Some p" "file_page (file_at s h) = p"
  shows "k_fs_cur_file_handle_page (k_fs_FreeFileHandle h s) = Some p"
    "handle_next_free (handle_page_at (k_fs_FreeFileHandle h s) p) = Some h"
    "file_page (file_at (k_fs_FreeFileHandle h s) h) = p"
  using assms by (simp_all add: k_fs_FreeFileHandle_def upd_file_def upd_handle_page_def Let_def)

section \<open>Properties\<close>

text \<open>
  A file can be opened only when it is open already. The search by path is the only way in:
  looking up a node finds nothing, so for every other path \<open>k_fs_OpenFile\<close> goes on with a null
  handle and stores through it, and it never reaches the file system or the disk.
\<close>

theorem k_fs_OpenFile_only_open:
  "k_fs_OpenFile wait fresh new_page volume path v s =
     (case find_open_file s path (k_fs_open_files s) of
        Some (Some f) \<Rightarrow> Some (f, v,
          upd_file f (\<lambda>x. x\<lparr>file_refs := file_refs x + 1, file_volume := Some volume\<rparr>) s)
      | _ \<Rightarrow> None)"
  by (cases "find_open_file s path (k_fs_open_files s)")
    (auto simp: k_fs_OpenFile_def k_fs_PupOpenFile_def k_fs_PupFindNode_def split: option.splits)

text \<open>
  C25: A page of file handles has one handle in use at a time: after the first
  \<open>k_fs_AllocFileHandle\<close> the next call dereferences a null pointer, whatever pages memory could
  still provide, and once that handle is returned the same one is given out again.
\<close>

theorem k_fs_AllocFileHandle_single:
  assumes "k_fs_cur_file_handle_page s = None"
    and "k_fs_file_handle_pages s \<noteq> None \<Longrightarrow> k_fs_last_file_handle_page s \<noteq> None"
  shows "\<exists>t. k_fs_AllocFileHandle p s = Some (handle_entry p 0, t) \<and>
    (\<forall>q. k_fs_AllocFileHandle q t = None) \<and>
    (\<exists>u. k_fs_AllocFileHandle q (k_fs_FreeFileHandle (handle_entry p 0) t) = Some (handle_entry p 0, u))"
proof -
  obtain n where n: "new_handle_page p s = Some n" "k_fs_cur_file_handle_page n = Some p"
      "handle_next_free (handle_page_at n p) = Some (handle_entry p 0)" "file_page (file_at n (handle_entry p 0)) = p"
    using new_handle_page_ok [of s p] assms(2) by auto
  have "k_fs_AllocFileHandle p s = k_fs_AllocFileHandle p n"
    using assms(1) n(1,2) by (simp add: k_fs_AllocFileHandle_def)
  then obtain t where t: "k_fs_AllocFileHandle p s = Some (handle_entry p 0, t)" "k_fs_cur_file_handle_page t = Some p"
      "handle_next_free (handle_page_at t p) = None" "file_page (file_at t (handle_entry p 0)) = p"
    using AllocFileHandle_once [OF n(2-4)] by metis
  show ?thesis
    using t AllocFileHandle_empty [OF t(2,3)]
      AllocFileHandle_once [OF FreeFileHandle_page [OF t(2,4)], of q] by auto
qed

definition no_files :: k_fs_files where
  "no_files = \<lparr>k_fs_open_files = None, k_fs_last_open_file = None, k_fs_file_handle_page_index = 0,
     k_fs_file_handle_page_count = 0, k_fs_file_handle_pages = None, k_fs_cur_file_handle_page = None,
     k_fs_last_file_handle_page = None, file_at = (\<lambda>_. zero_file),
     handle_page_at = (\<lambda>_. \<lparr>handle_page_index = 0, next_page = None, prev_page = None,
       handle_next_free = None, handle_used_count = 0\<rparr>)\<rparr>"

theorem k_fs_AllocFileHandle_single_witness:
  "\<exists>t. k_fs_AllocFileHandle 4096 no_files = Some (handle_entry 4096 0, t) \<and>
    (\<forall>q. k_fs_AllocFileHandle q t = None) \<and>
    (\<exists>u. k_fs_AllocFileHandle 8192 (k_fs_FreeFileHandle (handle_entry 4096 0) t) = Some (handle_entry 4096 0, u))"
  by (rule k_fs_AllocFileHandle_single) (simp_all add: no_files_def)

end
