(* ===== verification/Tool_Mkfs.thy ===== *)
theory Tool_Mkfs
  imports Fs_Mount Fs_File "HOL-Library.Sublist"
begin

text \<open>
  The image tool \<open>tools/mkfs/mkfs.c\<close>: the splitting of its command line, the parser of commands and
  their arguments, which works in place in the buffer of the command, and the commands, which run the
  kernel's file system on a disk in memory. The files of the host are a map; what is printed is left
  out. The lemmas show what the parser makes of an argument and that an image made and saved by the tool mounts.
\<close>

section \<open>Text\<close>

text \<open>The first position from \<open>i\<close> on whose byte does not satisfy \<open>P\<close>; it has to lie in the buffer.\<close>

function scan :: "(u8 \<Rightarrow> bool) \<Rightarrow> bytes \<Rightarrow> nat \<Rightarrow> nat option" where
  "scan P buf i = (if length buf \<le> i then None else if P (buf ! i) then scan P buf (i + 1) else Some i)"
  by auto
termination by (relation "measure (\<lambda>(_, buf, i). length buf - i)") auto

declare scan.simps [simp del]

definition is_space :: "u8 \<Rightarrow> bool" where "is_space c \<longleftrightarrow> c = 32"
definition is_word :: "u8 \<Rightarrow> bool" where "is_word c \<longleftrightarrow> c \<noteq> 0 \<and> c \<noteq> 61 \<and> c \<noteq> 32"

text \<open>The string at a position, and the functions of the C library that are used on it.\<close>

definition c_string :: "bytes \<Rightarrow> nat \<Rightarrow> bytes option" where
  "c_string buf i = (if terminated (drop i buf) then Some (cstr (drop i buf)) else None)"

definition text_of :: "string \<Rightarrow> bytes" where "text_of s = map of_char s"

definition atoi_digits :: "bytes \<Rightarrow> int" where
  "atoi_digits ds = foldl (\<lambda>n d. 10 * n + (uint d - 48)) 0 ds"

definition atoi :: "bytes \<Rightarrow> int option" where
  "atoi s = (
     let s = dropWhile (\<lambda>c. c = 32 \<or> 9 \<le> c \<and> c \<le> 13) s;
       (neg, s) = (case s of c # cs \<Rightarrow> if c = 45 then (True, cs) else if c = 43 then (False, cs) else (False, s) | [] \<Rightarrow> (False, s));
       n = atoi_digits (takeWhile (\<lambda>c. 48 \<le> c \<and> c \<le> 57) s)
     in int32 (if neg then - n else n))"

section \<open>Arguments\<close>

text \<open>
  \<open>parse_arg\<close> from position \<open>cursor\<close>: the buffer with the terminators it writes, the position
  behind the argument, and where its name and its value start.
\<close>

definition parse_value :: "bytes \<Rightarrow> nat \<Rightarrow> nat \<Rightarrow> (bytes \<times> nat \<times> nat option \<times> nat option) option" where
  "parse_value buf name cursor = do {
     ch \<leftarrow> rd buf cursor;
     if ch \<noteq> 0 then do {
       e \<leftarrow> scan is_word buf cursor;
       buf \<leftarrow> wr buf e 0;
       Some (buf, e + 1, Some name, Some cursor)
     }
     else Some (buf, cursor, Some name, None)
   }"

definition parse_arg :: "bytes \<Rightarrow> nat \<Rightarrow> (bytes \<times> nat \<times> nat option \<times> nat option) option" where
  "parse_arg buf cursor = do {
     name \<leftarrow> scan is_space buf cursor;
     ch \<leftarrow> rd buf name;
     if ch = 0 then Some (buf, name, None, None)
     else do {
       e \<leftarrow> scan is_word buf name;
       buf \<leftarrow> wr buf e 0;
       cursor \<leftarrow> scan is_space buf (e + 1);
       ch \<leftarrow> rd buf cursor;
       cursor \<leftarrow> (if ch = 61 then scan is_space buf (cursor + 1) else Some cursor);
       parse_value buf name cursor
     }
   }"

section \<open>The tool\<close>

datatype mkfs_cmd = CMD_INTERACTIVE | CMD_MOUNT | CMD_CREATE | CMD_CD | CMD_DIR | CMD_SAVE | CMD_MKDIR | CMD_MAKE_FROM
  | CMD_QUIT | CMD_TREE | CMD_LAST

definition cmds :: "(mkfs_cmd \<times> string) list" where
  "cmds = [(CMD_INTERACTIVE, ''interactive''), (CMD_MOUNT, ''mount''), (CMD_CREATE, ''create''), (CMD_CD, ''cd''),
     (CMD_DIR, ''dir''), (CMD_SAVE, ''save''), (CMD_MKDIR, ''mkdir''), (CMD_MAKE_FROM, ''mkfrom''), (CMD_QUIT, ''quit''),
     (CMD_TREE, ''tree'')]"

text \<open>
  The state of the tool: its globals, the files of the host and what is still to be read from the standard
  input. Once a volume is mounted, the contents of the disk are those its volume works on.
\<close>

record tool =
  interactive :: bool
  ram_disk :: k_dev_disk_t
  ram_block_count :: nat
  volume :: "nat option"
  volumes :: k_fs_vols
  cur_dir :: nat
  cur_path :: bytes
  host_files :: "bytes \<Rightarrow> bytes option"
  tool_input :: bytes

text \<open>The addresses of new images and volumes, what mounting needs, and the files that can be opened for writing.\<close>

record mkfs_env =
  new_image :: nat
  new_volume :: nat
  tool_mount :: mount_env
  can_write :: "bytes \<Rightarrow> bool"

datatype tool_step = Goes tool | Exits tool

definition tool_error :: "tool \<Rightarrow> tool_step" where
  "tool_error s = (if interactive s then Goes s else Exits s)"

definition clear_disk :: "tool \<Rightarrow> tool" where
  "clear_disk s = s\<lparr>ram_disk := (ram_disk s)\<lparr>start_address := 0, medium := []\<rparr>, ram_block_count := 0\<rparr>"

definition init_disk :: "nat \<Rightarrow> bytes \<Rightarrow> nat \<Rightarrow> tool \<Rightarrow> tool" where
  "init_disk addr disk_buffer disk_size s =
     (let s = clear_disk s
      in s\<lparr>ram_disk := (ram_disk s)\<lparr>start_address := addr, medium := disk_buffer\<rparr>, ram_block_count := disk_size\<rparr>)"

definition use_volume :: "nat \<Rightarrow> k_fs_vols \<Rightarrow> tool \<Rightarrow> tool" where
  "use_volume vol vs s = s\<lparr>volume := Some vol, volumes := vs,
     ram_disk := (case vol_data (vol_at vs vol) of None \<Rightarrow> ram_disk s | Some v \<Rightarrow> vol_disk v)\<rparr>"

definition cd :: "mkfs_env \<Rightarrow> bytes \<Rightarrow> tool \<Rightarrow> tool_step option" where
  "cd env path s = (case volume s of
      None \<Rightarrow> Some (tool_error s)
    | Some vol \<Rightarrow>
        let new_dir = k_fs_PupFindNode path (cur_dir s)
        in if new_dir \<noteq> 0 then do {
             v \<leftarrow> vol_data (vol_at (volumes s) vol);
             (p, v) \<leftarrow> k_fs_PupGetPathToNode (env_wait (tool_mount env)) None new_dir (cur_path s) 512 v;
             Some (Goes (s\<lparr>cur_dir := new_dir, cur_path := p,
               volumes := (volumes s)\<lparr>vol_at := (vol_at (volumes s))(vol := (vol_at (volumes s) vol)\<lparr>vol_data := Some v\<rparr>)\<rparr>\<rparr>))
           }
           else Some (tool_error s))"

definition create_image :: "mkfs_env \<Rightarrow> nat \<Rightarrow> nat \<Rightarrow> tool \<Rightarrow> tool_step option" where
  "create_image env block_size block_count s =
     (if block_count = 0 then Some (tool_error s)
      else do {
        let block_size = K_FS_PUP_LOGICAL_BLOCK_SIZE;
        let s = init_disk (new_image env) (replicate (block_count * block_size) 0) (mul32 block_size block_count) s;
        let part = \<lparr>first_block = 0, part_block_count = mul32 block_size block_count\<rparr>;
        let s = s\<lparr>cur_dir := K_FS_PUP_NULL_LINK\<rparr>;
        (vol, vs) \<leftarrow> k_fs_FormatPartition (tool_mount env) (new_volume env) part K_FS_FILE_SYSTEM_PUP block_count (ram_disk s) (volumes s);
        cd env (text_of ''/'') (use_volume vol vs s)
      })"

definition mount_image :: "mkfs_env \<Rightarrow> tool \<Rightarrow> tool_step option" where
  "mount_image env s = do {
     let part = \<lparr>first_block = 0, part_block_count = mul32 (disk_block_size (ram_disk s)) (ram_block_count s)\<rparr>;
     (vol, vs) \<leftarrow> k_fs_MountVolume (tool_mount env) (new_volume env) part (ram_disk s) (volumes s);
     cd env (text_of ''/'') (use_volume vol vs s)
   }"

definition load_image :: "mkfs_env \<Rightarrow> bytes option \<Rightarrow> tool \<Rightarrow> tool_step option" where
  "load_image env image_file s = (case image_file of
      None \<Rightarrow> Some (tool_error s)
    | Some f \<Rightarrow> (case host_files s f of
        None \<Rightarrow> Some (tool_error s)
      | Some bs \<Rightarrow> mount_image env (init_disk (new_image env) bs (length bs mod 2 ^ 32) s)))"

definition save_image :: "mkfs_env \<Rightarrow> bytes option \<Rightarrow> tool \<Rightarrow> tool_step option" where
  "save_image env image_file s = (case image_file of
      None \<Rightarrow> Some (tool_error s)
    | Some f \<Rightarrow>
        if \<not> can_write env f then Some (tool_error s)
        else do {
          vol \<leftarrow> volume s;
          v \<leftarrow> vol_data (vol_at (volumes s) vol);
          disk \<leftarrow> k_fs_PupUnmountVolume (env_wait (tool_mount env)) (env_bitmap (tool_mount env)) v;
          Some (Goes (s\<lparr>ram_disk := disk,
            volumes := (volumes s)\<lparr>vol_at := (vol_at (volumes s))(vol := (vol_at (volumes s) vol)\<lparr>vol_data := Some (v\<lparr>vol_disk := disk\<rparr>)\<rparr>)\<rparr>,
            host_files := (host_files s)(f \<mapsto> take (disk_block_size disk * ram_block_count s) (medium disk))\<rparr>))
        })"

definition mkfs_dir :: "tool \<Rightarrow> tool_step" where
  "mkfs_dir s = (case volume s of None \<Rightarrow> tool_error s | Some vol \<Rightarrow> Goes s)"

definition mkfs_mkdir :: "bytes \<Rightarrow> tool \<Rightarrow> tool_step" where
  "mkfs_mkdir path s = (case volume s of
      None \<Rightarrow> tool_error s
    | Some vol \<Rightarrow> let new_node = k_fs_PupAddNode (cur_dir s) (text_of ''/'') path in Goes s)"

section \<open>Commands\<close>

definition arg_is :: "bytes \<Rightarrow> nat option \<Rightarrow> string \<Rightarrow> bool option" where
  "arg_is buf name key = (case name of None \<Rightarrow> Some False | Some i \<Rightarrow> map_option (\<lambda>s. s = text_of key) (c_string buf i))"

text \<open>The image argument of \<open>mount\<close> and \<open>save\<close>, and the path argument of \<open>cd\<close>, \<open>mkdir\<close> and \<open>mkfrom\<close>.\<close>

definition image_arg :: "bytes \<Rightarrow> nat option \<Rightarrow> nat option \<Rightarrow> bytes option option" where
  "image_arg buf name val = do {
     is \<leftarrow> arg_is buf name ''image'';
     (case val of
        Some i \<Rightarrow> if is then map_option Some (c_string buf i) else Some None
      | None \<Rightarrow> Some None)
   }"

definition path_arg :: "bool \<Rightarrow> string \<Rightarrow> bytes \<Rightarrow> nat option \<Rightarrow> nat option \<Rightarrow> bytes option option" where
  "path_arg at_prompt key buf name val =
     (if at_prompt then
        (case name of
           None \<Rightarrow> Some None
         | Some n \<Rightarrow> map_option Some (c_string buf (case val of None \<Rightarrow> n | Some i \<Rightarrow> i)))
      else
        (case (name, val) of
           (Some n, Some i) \<Rightarrow> do {
             is \<leftarrow> arg_is buf name key;
             if is then map_option Some (c_string buf i) else Some None
           }
         | _ \<Rightarrow> Some None))"

definition run_path_cmd ::
    "string \<Rightarrow> (bytes \<Rightarrow> tool \<Rightarrow> tool_step option) \<Rightarrow> bytes \<Rightarrow> nat \<Rightarrow> tool \<Rightarrow> (bytes \<times> tool_step) option" where
  "run_path_cmd key f buf cursor s = do {
     (buf, cursor, name, val) \<leftarrow> parse_arg buf cursor;
     path \<leftarrow> path_arg (interactive s) key buf name val;
     step \<leftarrow> (case path of None \<Rightarrow> Some (Goes s) | Some p \<Rightarrow> f p s);
     Some (buf, step)
   }"

definition run_image_cmd ::
    "(bytes option \<Rightarrow> tool \<Rightarrow> tool_step option) \<Rightarrow> bytes \<Rightarrow> nat \<Rightarrow> tool \<Rightarrow> (bytes \<times> tool_step) option" where
  "run_image_cmd f buf cursor s = do {
     (buf, cursor, name, val) \<leftarrow> parse_arg buf cursor;
     image \<leftarrow> image_arg buf name val;
     step \<leftarrow> f image s;
     Some (buf, step)
   }"

text \<open>The only argument of \<open>create\<close>.\<close>

definition run_create :: "mkfs_env \<Rightarrow> bytes \<Rightarrow> nat \<Rightarrow> tool \<Rightarrow> (bytes \<times> tool_step) option" where
  "run_create env buf cursor s = do {
     (buf, cursor, name, val) \<leftarrow> parse_arg buf cursor;
     is \<leftarrow> (case val of None \<Rightarrow> Some False | Some _ \<Rightarrow> arg_is buf name ''block_count'');
     block_count \<leftarrow> (case val of
         Some i \<Rightarrow> if is then do { t \<leftarrow> c_string buf i; map_option (\<lambda>n. nat (n mod 2 ^ 32)) (atoi t) } else Some 0
       | None \<Rightarrow> Some 0);
     step \<leftarrow> create_image env 512 block_count s;
     Some (buf, step)
   }"

fun run_cmd :: "mkfs_env \<Rightarrow> mkfs_cmd \<Rightarrow> bytes \<Rightarrow> nat \<Rightarrow> tool \<Rightarrow> (bytes \<times> tool_step) option" where
  "run_cmd env CMD_CREATE buf cursor s = run_create env buf cursor s"
| "run_cmd env CMD_MOUNT buf cursor s = run_image_cmd (load_image env) buf cursor s"
| "run_cmd env CMD_SAVE buf cursor s = run_image_cmd (save_image env) buf cursor s"
| "run_cmd env CMD_DIR buf cursor s = Some (buf, mkfs_dir s)"
| "run_cmd env CMD_CD buf cursor s = run_path_cmd ''path'' (cd env) buf cursor s"
| "run_cmd env CMD_MKDIR buf cursor s = run_path_cmd ''name'' (\<lambda>p s. Some (mkfs_mkdir p s)) buf cursor s"
| "run_cmd env CMD_MAKE_FROM buf cursor s = run_path_cmd ''path'' (\<lambda>p s. Some (Goes s)) buf cursor s"
| "run_cmd env _ buf cursor s = Some (buf, Goes s)"

definition parse_cmd :: "mkfs_env \<Rightarrow> bytes \<Rightarrow> tool \<Rightarrow> (mkfs_cmd \<times> bytes \<times> tool_step) option" where
  "parse_cmd env buf s = do {
     cursor \<leftarrow> scan is_space buf 0;
     ch \<leftarrow> rd buf cursor;
     if ch = 0 then Some (CMD_LAST, buf, Goes s)
     else do {
       ch \<leftarrow> rd buf 0;
       if \<not> interactive s \<and> ch \<noteq> 45 then Some (CMD_LAST, buf, tool_error s)
       else do {
         let cmd_str = (if interactive s then 0 else 1);
         text \<leftarrow> c_string buf cmd_str;
         (case find (\<lambda>(_, name). prefix (text_of name) text) cmds of
            None \<Rightarrow> Some (CMD_LAST, buf, tool_error s)
          | Some (cmd, _) \<Rightarrow> do {
              cursor \<leftarrow> scan (\<lambda>c. c \<noteq> 32 \<and> c \<noteq> 0) buf (cmd_str + cursor);
              (buf, step) \<leftarrow> run_cmd env cmd buf cursor s;
              Some (cmd, buf, step)
            })
       }
     }
   }"

section \<open>The command line\<close>

text \<open>The characters of an argument up to a comma or its end, appended to the command buffer.\<close>

function copy_arg :: "bytes \<Rightarrow> nat \<Rightarrow> bytes \<Rightarrow> nat \<Rightarrow> (bytes \<times> nat \<times> nat) option" where
  "copy_arg arg i buf n = (if length arg \<le> i then None
     else if arg ! i = 0 \<or> arg ! i = 44 then Some (buf, n, i)
     else do { buf \<leftarrow> wr buf n (arg ! i); copy_arg arg (i + 1) buf (n + 1) })"
  by auto
termination by (relation "measure (\<lambda>(arg, i, _). length arg - i)") auto

declare copy_arg.simps [simp del]

text \<open>
  One argument of the command line, from \<open>i\<close> on: the commands it ends are run. The last component of
  the result says that the rest of the command line is ignored.
\<close>

partial_function (option) main_arg ::
    "mkfs_env \<Rightarrow> bool \<Rightarrow> bytes \<Rightarrow> nat \<Rightarrow> bytes \<Rightarrow> nat \<Rightarrow> tool \<Rightarrow> (bytes \<times> nat \<times> tool_step \<times> bool) option" where
  "main_arg env is_last arg i buf n s = do {
     (buf, n, i) \<leftarrow> copy_arg arg i buf n;
     if arg ! i \<noteq> 44 \<and> \<not> is_last then do { buf \<leftarrow> wr buf n 32; Some (buf, n + 1, Goes s, False) }
     else do {
       buf \<leftarrow> wr buf n 0;
       (cmd, buf, step) \<leftarrow> parse_cmd env buf s;
       (case step of
          Exits s \<Rightarrow> Some (buf, n, Exits s, True)
        | Goes s \<Rightarrow>
            if cmd = CMD_INTERACTIVE then Some (buf, n, Goes (s\<lparr>interactive := True\<rparr>), True)
            else if arg ! i = 44 then do {
              ch \<leftarrow> rd arg (i + 1);
              if ch \<noteq> 0 then main_arg env is_last arg (i + 1) buf 0 s else Some (buf, 0, Goes s, False)
            }
            else Some (buf, 0, Goes s, False))
     }
   }"

fun main_args :: "mkfs_env \<Rightarrow> bytes list \<Rightarrow> bytes \<Rightarrow> nat \<Rightarrow> tool \<Rightarrow> (bytes \<times> tool_step) option" where
  "main_args env [] buf n s = Some (buf, Goes s)"
| "main_args env (arg # args) buf n s = do {
     (buf, n, step, stop) \<leftarrow> main_arg env (args = []) arg 0 buf n s;
     (case step of
        Exits s \<Rightarrow> Some (buf, Exits s)
      | Goes s \<Rightarrow> if stop then Some (buf, Goes s) else main_args env args buf n s)
   }"

text \<open>\<open>fgets\<close> leaves the buffer as it is at the end of the input.\<close>

definition input_line :: "bytes \<Rightarrow> bytes" where
  "input_line input = (let l = takeWhile (\<lambda>c. c \<noteq> 10) input in take 0xfffe (if length l < length input then l @ [10] else l))"

definition mkfs_fgets :: "bytes \<Rightarrow> tool \<Rightarrow> bytes \<times> tool" where
  "mkfs_fgets buf s = (if tool_input s = [] then (buf, s)
     else let l = input_line (tool_input s)
       in (blit buf 0 (l @ [0]), s\<lparr>tool_input := drop (length l) (tool_input s)\<rparr>))"

partial_function (option) main_loop :: "mkfs_env \<Rightarrow> bytes \<Rightarrow> tool \<Rightarrow> tool_step option" where
  "main_loop env buf s = (if \<not> interactive s then Some (Goes s)
     else do {
       let (buf, s) = mkfs_fgets buf s;
       text \<leftarrow> c_string buf 0;
       buf \<leftarrow> wr buf (sub32 (length text) 1) 0;
       (cmd, buf, step) \<leftarrow> parse_cmd env buf s;
       (case step of
          Exits s \<Rightarrow> Some (Exits s)
        | Goes s \<Rightarrow> main_loop env buf (if cmd = CMD_QUIT then s\<lparr>interactive := False\<rparr> else s))
     })"

definition cmd_buffer_size :: nat where "cmd_buffer_size = 0xffff"

definition main :: "mkfs_env \<Rightarrow> bytes list \<Rightarrow> tool \<Rightarrow> tool_step option" where
  "main env argv s = (if length argv \<le> 1 then Some (Goes s)
     else do {
       (buf, step) \<leftarrow> main_args env (tl argv) (replicate cmd_buffer_size 0) 0 s;
       (case step of Exits s \<Rightarrow> Some (Exits s) | Goes s \<Rightarrow> main_loop env buf s)
     })"

section \<open>Parsing an argument\<close>

lemma scan_run:
  assumes "\<forall>x \<in> set xs. P x" "\<not> P c" "i = length pre"
  shows "scan P (pre @ xs @ c # rest) i = Some (i + length xs)"
  using assms
proof (induction xs arbitrary: pre i)
  case Nil
  then show ?case by (subst scan.simps) (simp add: nth_append)
next
  case (Cons x xs)
  have "scan P ((pre @ [x]) @ xs @ c # rest) (i + 1) = Some (i + 1 + length xs)"
    by (rule Cons.IH) (use Cons.prems in simp_all)
  then show ?case using Cons.prems by (subst scan.simps) (simp add: nth_append)
qed


lemma c_string_at: "length pre = i \<Longrightarrow> 0 \<notin> set s \<Longrightarrow> c_string (pre @ s @ 0 # rest) i = Some s"
  by (simp add: c_string_def terminated_def cstr_append0)

text \<open>A word that an argument is made of, and what can follow it.\<close>

definition arg_word :: "bytes \<Rightarrow> bool" where
  "arg_word w \<longleftrightarrow> w \<noteq> [] \<and> (\<forall>c \<in> set w. is_word c)"

definition blanks :: "nat \<Rightarrow> bytes" where "blanks n = replicate n 32"

lemma blanks_space: "\<forall>c \<in> set (blanks n). is_space c" by (simp add: blanks_def is_space_def)

lemma scan_blanks:
  assumes "\<not> is_space c" "i = length pre"
  shows "scan is_space (pre @ blanks n @ c # rest) i = Some (i + n)"
  using scan_run [OF blanks_space assms, of n rest] by (simp add: blanks_def)

lemma arg_wordD:
  assumes "arg_word w"
  shows "0 \<notin> set w" "\<exists>c cs. w = c # cs \<and> \<not> is_space c \<and> c \<noteq> 0 \<and> c \<noteq> 61"
  using assms by (cases w; auto simp: arg_word_def is_word_def is_space_def)+

lemma parse_value_ok:
  assumes v: "arg_word v" and t: "\<not> is_word t" and n: "length pre = i"
  shows "parse_value (pre @ v @ t # rest) name i = Some (pre @ v @ 0 # rest, i + length v + 1, Some name, Some i)"
proof -
  obtain c cs where c: "v = c # cs" "c \<noteq> 0" using arg_wordD(2) [OF v] by blast
  have s: "scan is_word (pre @ v @ t # rest) i = Some (i + length v)"
    by (rule scan_run) (use v t n in \<open>simp_all add: arg_word_def\<close>)
  have u: "(pre @ v @ t # rest)[i + length v := 0] = pre @ v @ 0 # rest" using n by (simp add: list_update_append)
  show ?thesis using s u n c
    by (simp add: parse_value_def rd_def wr_def nth_append)
qed

text \<open>The rest of an argument behind its name and the terminator written there.\<close>

lemma parse_arg_name:
  assumes w: "arg_word w" and t: "\<not> is_word t" and n: "length pre = i"
  shows "parse_arg (pre @ blanks a @ w @ t # rest) i = (let buf = pre @ blanks a @ w @ 0 # rest in do {
     cursor \<leftarrow> scan is_space buf (i + a + length w + 1);
     ch \<leftarrow> rd buf cursor;
     cursor \<leftarrow> (if ch = 61 then scan is_space buf (cursor + 1) else Some cursor);
     parse_value buf (i + a) cursor
   })"
proof -
  obtain c cs where c: "w = c # cs" "\<not> is_space c" "c \<noteq> 0" using arg_wordD(2) [OF w] by blast
  have s1: "scan is_space (pre @ blanks a @ w @ t # rest) i = Some (i + a)"
    unfolding c(1) using scan_blanks [OF c(2) n [symmetric], of a "cs @ t # rest"] by simp
  have n2: "length (pre @ blanks a) = i + a" using n by (simp add: blanks_def)
  have s2: "scan is_word (pre @ blanks a @ w @ t # rest) (i + a) = Some (i + a + length w)"
    using scan_run [of w is_word t "i + a" "pre @ blanks a" rest] w t n2 by (simp add: arg_word_def)
  have r: "rd (pre @ blanks a @ w @ t # rest) (i + a) = Some c"
    using n2 unfolding c(1) by (simp add: rd_def nth_append blanks_def)
  have u: "wr (pre @ blanks a @ w @ t # rest) (i + a + length w) 0 = Some (pre @ blanks a @ w @ 0 # rest)"
    using n2 by (simp add: wr_def list_update_append blanks_def)
  show ?thesis using s1 s2 r u c(3) by (simp add: parse_arg_def Let_def)
qed

lemma parse_arg_pair_ok:
  assumes w: "arg_word w" "arg_word v" and t: "\<not> is_word t" and n: "length pre = i"
  shows "\<exists>x name val. parse_arg (pre @ blanks a @ w @ blanks b @ 61 # blanks c @ v @ t # rest) i =
      Some (pre @ x @ rest, i + length x, Some name, Some val) \<and>
    length x = a + length w + b + 1 + c + length v + 1 \<and>
    c_string (pre @ x @ rest) name = Some w \<and> c_string (pre @ x @ rest) val = Some v"
proof -
  obtain v0 vs where v: "v = v0 # vs" "\<not> is_space v0" "v0 \<noteq> 0" "v0 \<noteq> 61" using arg_wordD(2) [OF w(2)] by blast
  have nw: "\<not> is_word 61" "\<not> is_word 32" "\<not> is_space 61" by (simp_all add: is_word_def is_space_def)
  \<comment> \<open>the buffer from the terminator of the name to the start of the value\<close>
  obtain g where g: "length g = b + c" and
    run: "parse_arg (pre @ blanks a @ w @ blanks b @ 61 # blanks c @ v @ t # rest) i =
      parse_value ((pre @ blanks a @ w @ 0 # g) @ v @ t # rest) (i + a) (length (pre @ blanks a @ w @ 0 # g))"
  proof (cases b)
    case 0
    let ?buf = "(pre @ blanks a @ w @ [0]) @ blanks c @ v @ t # rest"
    have l: "length (pre @ blanks a @ w @ [0]) = i + a + length w + 1" using n by (simp add: blanks_def)
    have s: "scan is_space ?buf (i + a + length w + 1) = Some (i + a + length w + 1 + c)"
      unfolding v(1) using scan_blanks [OF v(2) l [symmetric], of c "vs @ t # rest"] by simp
    have r: "rd ?buf (i + a + length w + 1 + c) = Some v0"
      using l unfolding v(1) by (simp add: rd_def nth_append blanks_def)
    show ?thesis
      using parse_arg_name [OF w(1) nw(1) n, of a "blanks c @ v @ t # rest"] s r v(4) n that [of "blanks c"] 0
      by (simp add: Let_def blanks_def add.assoc)
  next
    case (Suc b')
    let ?buf = "(pre @ blanks a @ w @ [0]) @ blanks b' @ 61 # blanks c @ v @ t # rest"
    have l: "length (pre @ blanks a @ w @ [0]) = i + a + length w + 1" using n by (simp add: blanks_def)
    have s: "scan is_space ?buf (i + a + length w + 1) = Some (i + a + length w + 1 + b')"
      using scan_blanks [OF nw(3) l [symmetric], of b' "blanks c @ v @ t # rest"] by simp
    have r: "rd ?buf (i + a + length w + 1 + b') = Some 61"
      using l by (simp add: rd_def nth_append blanks_def)
    have l2: "length ((pre @ blanks a @ w @ [0]) @ blanks b' @ [61]) = i + a + length w + 1 + b' + 1"
      using n by (simp add: blanks_def)
    have s2: "scan is_space ?buf (i + a + length w + 1 + b' + 1) = Some (i + a + length w + 1 + b' + 1 + c)"
      unfolding v(1) using scan_blanks [OF v(2) l2 [symmetric], of c "vs @ t # rest"] by simp
    have "blanks b = 32 # blanks b'" by (simp add: Suc blanks_def)
    then show ?thesis
      using parse_arg_name [OF w(1) nw(2) n, of a "blanks b' @ 61 # blanks c @ v @ t # rest"] s r s2 n
        that [of "blanks b' @ 61 # blanks c"] Suc
      by (simp add: Let_def blanks_def add.assoc)
  qed
  let ?pre = "pre @ blanks a @ w @ 0 # g"
  let ?x = "blanks a @ w @ 0 # g @ v @ [0]"
  have eq: "?pre @ v @ 0 # rest = pre @ ?x @ rest" by simp
  have "parse_arg (pre @ blanks a @ w @ blanks b @ 61 # blanks c @ v @ t # rest) i =
      Some (pre @ ?x @ rest, i + length ?x, Some (i + a), Some (length ?pre))"
    unfolding run parse_value_ok [OF w(2) t refl] using n by (simp add: blanks_def)
  moreover have "c_string (pre @ ?x @ rest) (i + a) = Some w"
    using c_string_at [of "pre @ blanks a" "i + a" w "g @ v @ 0 # rest"] arg_wordD(1) [OF w(1)] n by (simp add: blanks_def)
  moreover have "c_string (pre @ ?x @ rest) (length ?pre) = Some v"
    using c_string_at [of ?pre "length ?pre" v rest] arg_wordD(1) [OF w(2)] by simp
  ultimately show ?thesis using g by (intro exI [of _ ?x]) (simp add: blanks_def)
qed

text \<open>
  C40: An argument is read back. Wherever in the command an argument is written as a name, an equals sign
  and a value, with any blanks in front and around the sign, the parser finds the name and the value as
  strings, ends behind the terminator and leaves the rest of the command as it was.
\<close>

theorem parse_arg_pair:
  assumes "arg_word w" "arg_word v" "\<not> is_word t"
  shows "\<exists>x name val. parse_arg (pre @ blanks a @ w @ blanks b @ 61 # blanks c @ v @ t # rest) (length pre) =
      Some (pre @ x @ rest, length (pre @ x), Some name, Some val) \<and>
    length x = length (blanks a @ w @ blanks b @ 61 # blanks c @ v @ [t]) \<and>
    c_string (pre @ x @ rest) name = Some w \<and> c_string (pre @ x @ rest) val = Some v"
proof -
  obtain x name val where "parse_arg (pre @ blanks a @ w @ blanks b @ 61 # blanks c @ v @ t # rest) (length pre) =
      Some (pre @ x @ rest, length pre + length x, Some name, Some val)"
    "length x = a + length w + b + 1 + c + length v + 1"
    "c_string (pre @ x @ rest) name = Some w" "c_string (pre @ x @ rest) val = Some v"
    using parse_arg_pair_ok [OF assms refl] by blast
  then show ?thesis by (intro exI [of _ x] exI [of _ name] exI [of _ val]) (simp add: blanks_def)
qed

theorem parse_arg_pair_witness:
  "\<exists>x name val. parse_arg (text_of ''create'' @ blanks 1 @ text_of ''block_count'' @ blanks 0 @ 61 # blanks 2 @ text_of ''64'' @ 0 # [])
      (length (text_of ''create'')) = Some (text_of ''create'' @ x @ [], length (text_of ''create'' @ x), Some name, Some val) \<and>
    c_string (text_of ''create'' @ x @ []) name = Some (text_of ''block_count'') \<and> c_string (text_of ''create'' @ x @ []) val = Some (text_of ''64'')"
proof -
  have "arg_word (text_of ''block_count'')" "arg_word (text_of ''64'')" "\<not> is_word 0"
    by (simp_all add: arg_word_def text_of_def is_word_def)
  then show ?thesis using parse_arg_pair [of "text_of ''block_count''" "text_of ''64''" 0 "text_of ''create''" 1 0 2 "[]"] by blast
qed

text \<open>
  An argument without a value that ends the command takes whatever an earlier, longer command left in the
  buffer behind the terminator as its value.
\<close>

lemma parse_arg_past_end:
  assumes w: "arg_word w" "arg_word v" and n: "length pre = i"
  shows "parse_arg (pre @ blanks a @ w @ 0 # v @ 0 # rest) i =
    Some (pre @ blanks a @ w @ 0 # v @ 0 # rest, i + a + length w + 1 + length v + 1, Some (i + a), Some (i + a + length w + 1))"
proof -
  obtain v0 vs where v: "v = v0 # vs" "\<not> is_space v0" "v0 \<noteq> 0" "v0 \<noteq> 61" using arg_wordD(2) [OF w(2)] by blast
  have nw: "\<not> is_word 0" by (simp add: is_word_def)
  let ?buf = "(pre @ blanks a @ w @ [0]) @ v @ 0 # rest"
  have l: "length (pre @ blanks a @ w @ [0]) = i + a + length w + 1" using n by (simp add: blanks_def)
  have s: "scan is_space ?buf (i + a + length w + 1) = Some (i + a + length w + 1)"
    unfolding v(1) using scan_blanks [OF v(2) l [symmetric], of 0 "vs @ 0 # rest"] by (simp add: blanks_def)
  have r: "rd ?buf (i + a + length w + 1) = Some v0" using l unfolding v(1) by (simp add: rd_def nth_append blanks_def)
  show ?thesis
    using parse_arg_name [OF w(1) nw n, of a "v @ 0 # rest"] s r v(4) parse_value_ok [OF w(2) nw l, of rest "i + a"]
    by (simp add: Let_def)
qed

section \<open>Making an image\<close>

definition tool_ready :: "mkfs_env \<Rightarrow> tool \<Rightarrow> bool" where
  "tool_ready env s \<longleftrightarrow> mount_env_ok (tool_mount env) \<and> 0 < new_image env \<and> disk_type (ram_disk s) = K_DEV_DSK_TYPE_RAM \<and>
     disk_read (ram_disk s) = Some k_dsk_RamRead \<and> disk_write (ram_disk s) = Some k_dsk_RamWrite \<and>
     disk_clear (ram_disk s) = Some k_dsk_RamClear \<and> disk_block_size (ram_disk s) = 1 \<and>
     (\<exists>vs. volumes_rep (volumes s) vs \<and> new_volume env \<notin> set vs)"

text \<open>The size of an image is a number of 32 bits, and the bitmap and the first cache entry fit.\<close>

definition image_size_ok :: "nat \<Rightarrow> bool" where
  "image_size_ok n \<longleftrightarrow> n * 4096 + 511 < 2 ^ 32 \<and> 2 + format_bitmask_blocks n \<le> n \<and> 4 \<le> n"

lemma init_disk_ok:
  assumes "tool_ready env s" "length bs + 511 < 2 ^ 32"
  shows "ram_volume_ok \<lparr>first_block = 0, part_block_count = length bs\<rparr> (ram_disk (init_disk (new_image env) bs k s))"
    "volume_bytes \<lparr>first_block = 0, part_block_count = length bs\<rparr> (ram_disk (init_disk (new_image env) bs k s)) = bs"
    "disk_block_size (ram_disk (init_disk (new_image env) bs k s)) = 1"
    "volume_start \<lparr>first_block = 0, part_block_count = length bs\<rparr> (ram_disk (init_disk (new_image env) bs k s)) = 0"
  using assms
  by (simp_all add: tool_ready_def init_disk_def clear_disk_def ram_volume_ok_def ram_ok_def part_ok_def volume_start_def volume_bytes_def Let_def)

lemma cd_at_prompt: "interactive s \<Longrightarrow> volume s \<noteq> None \<Longrightarrow> cd env p s = Some (Goes s)"
  by (auto simp: cd_def k_fs_PupFindNode_def K_FS_PUP_NULL_LINK_def tool_error_def)

lemma part_size_one:
  assumes "part_ok part d" "part_ok part e" "length (volume_bytes part d) = length (volume_bytes part e)"
    and "disk_block_size e = 1" "0 < part_block_count part"
  shows "disk_block_size d = 1"
  using part_ok_length [OF assms(1)] part_ok_length [OF assms(2)] assms(3-5) by simp

lemma create_image_ok:
  assumes t: "tool_ready env s" "interactive s" and n: "image_size_ok n"
  shows "\<exists>s' v. create_image env bs n s = Some (Goes s') \<and> mounted (volumes s') (new_volume env) v \<and> volume s' = Some (new_volume env) \<and>
    partition v = \<lparr>first_block = 0, part_block_count = n * 4096\<rparr> \<and> disk_block_size (vol_disk v) = 1 \<and>
    format_root n = Some (root v) \<and> block_bitmask v = replicate (format_bitmask_blocks n * 4096) 0 \<and>
    interactive s' \<and> tool_input s' = tool_input s \<and> ram_block_count s' = n * 4096"
proof -
  let ?bs = "replicate (n * 4096) (0 :: u8)" and ?part = "\<lparr>first_block = 0, part_block_count = n * 4096\<rparr>"
  let ?s = "(init_disk (new_image env) ?bs (n * 4096) s)\<lparr>cur_dir := 0\<rparr>"
  have n': "n * 4096 + 511 < 2 ^ 32" "0 < n" "n < 2 ^ 64" "mul32 4096 n = n * 4096"
    using n mul32_small [of 4096 n] by (simp_all add: image_size_ok_def mult.commute)
  have i: "ram_volume_ok ?part (ram_disk ?s)" "volume_bytes ?part (ram_disk ?s) = ?bs" "disk_block_size (ram_disk ?s) = 1"
      "volume_start ?part (ram_disk ?s) = 0"
    using init_disk_ok [OF t(1), of ?bs "n * 4096"] n'(1) by simp_all
  obtain vs where vs: "volumes_rep (volumes ?s) vs" "new_volume env \<notin> set vs"
    using t(1) by (auto simp: tool_ready_def init_disk_def clear_disk_def Let_def)
  have me: "mount_env_ok (tool_mount env)" using t(1) by (simp add: tool_ready_def)
  have len: "(2 + format_bitmask_blocks n) * 4096 \<le> length (volume_bytes ?part (ram_disk ?s))"
      "4 * 4096 \<le> length (volume_bytes ?part (ram_disk ?s))" "volume_start ?part (ram_disk ?s) + 257 * 4096 < 2 ^ 32"
    unfolding i(2,4) using n by (simp_all add: image_size_ok_def)
  obtain vs' v where f: "k_fs_FormatPartition (tool_mount env) (new_volume env) ?part K_FS_FILE_SYSTEM_PUP n (ram_disk ?s) (volumes ?s) =
        Some (new_volume env, vs')" "mounted vs' (new_volume env) v" "partition v = ?part" "format_root n = Some (root v)"
      "block_bitmask v = replicate (format_bitmask_blocks n * 4096) 0"
      "length (volume_bytes ?part (vol_disk v)) = length (volume_bytes ?part (ram_disk ?s))"
    using k_fs_FormatPartition_ok [OF me vs i(1) n'(3) len] by blast
  have "disk_block_size (vol_disk v) = 1"
    by (rule part_size_one [OF _ _ f(6) i(3)]) (use f(2,3) i(1) n'(2) in \<open>simp_all add: mounted_def ram_volume_ok_def\<close>)
  let ?t = "use_volume (new_volume env) vs' ?s"
  have u: "interactive ?t" "volume ?t = Some (new_volume env)" "volumes ?t = vs'" "tool_input ?t = tool_input s" "ram_block_count ?t = n * 4096"
    using t(2) by (simp_all add: use_volume_def init_disk_def clear_disk_def Let_def)
  have "create_image env bs n s = Some (Goes ?t)"
    using f(1) n'(2,4) cd_at_prompt [OF u(1), of env "text_of ''/''"] u(2)
    by (simp add: create_image_def K_FS_PUP_LOGICAL_BLOCK_SIZE_def K_FS_PUP_NULL_LINK_def Let_def)
  then show ?thesis using u f \<open>disk_block_size (vol_disk v) = 1\<close> by (intro exI [of _ ?t] exI [of _ v]) simp
qed


lemma save_image_ok:
  assumes t: "tool_ready env u" and m: "mounted (volumes s) (new_volume env) v" "volume s = Some (new_volume env)"
    and p: "partition v = \<lparr>first_block = 0, part_block_count = k\<rparr>" "disk_block_size (vol_disk v) = 1" "0 < k" "ram_block_count s = k"
    and f: "can_write env f"
  shows "\<exists>s' bs. save_image env (Some f) s = Some (Goes s') \<and> host_files s' f = Some bs \<and> length bs = k \<and>
    take 64 bs = root_bytes (root v) \<and> take (bitmask_block_count (root v) * 4096) (drop 8192 bs) = block_bitmask v \<and>
    interactive s' = interactive s \<and> tool_input s' = tool_input s"
proof -
  have me: "mount_env_ok (tool_mount env)" using t by (simp add: tool_ready_def)
  have v: "vol_data (vol_at (volumes s) (new_volume env)) = Some v" "part_ok (partition v) (vol_disk v)"
    using m(1) by (simp_all add: mounted_def ram_volume_ok_def)
  obtain d where d: "k_fs_PupUnmountVolume (env_wait (tool_mount env)) (env_bitmap (tool_mount env)) v = Some d"
      "ram_volume_ok (partition v) d" "length (volume_bytes (partition v) d) = length (volume_bytes (partition v) (vol_disk v))"
      "take 64 (volume_bytes (partition v) d) = root_bytes (root v)"
      "take (bitmask_block_count (root v) * 4096) (drop 8192 (volume_bytes (partition v) d)) = block_bitmask v"
    using unmounted_disk [OF m(1) mount_env_okD(2) [OF me]] by blast
  have b: "disk_block_size d = 1"
    by (rule part_size_one [OF _ v(2) d(3) p(2)]) (use d(2) p(1,3) in \<open>simp_all add: ram_volume_ok_def\<close>)
  have V: "volume_bytes (partition v) d = take k (medium d)" by (simp add: volume_bytes_def volume_start_def p(1) b)
  have l: "length (volume_bytes (partition v) d) = k"
    using part_ok_length [of "partition v" d] d(2) b p(1) by (simp add: ram_volume_ok_def)
  show ?thesis using v(1) d(1,4,5) m(2) f b l V p(4) by (auto simp: save_image_def)
qed

lemma load_image_ok:
  assumes t: "tool_ready env s" "interactive s" and f: "host_files s f = Some bs" "length bs + 511 < 2 ^ 32"
    and r: "root_ok r" "root_node r = 256" "bitmask_start r = 2" "take 64 bs = root_bytes r"
      "(2 + bitmask_block_count r) * 4096 \<le> length bs" "4 * 4096 \<le> length bs"
  shows "\<exists>s' v. load_image env (Some f) s = Some (Goes s') \<and> mounted (volumes s') (new_volume env) v \<and> root v = r \<and>
    block_bitmask v = take (bitmask_block_count r * 4096) (drop 8192 bs)"
proof -
  let ?part = "\<lparr>first_block = 0, part_block_count = length bs\<rparr>"
  let ?s = "init_disk (new_image env) bs (length bs) s"
  note i = init_disk_ok [OF t(1) f(2), of "length bs"]
  have me: "mount_env_ok (tool_mount env)" using t(1) by (simp add: tool_ready_def)
  let ?vs = "link_volume (new_volume env) ?part (volumes ?s)"
  have p: "vol_partition (vol_at ?vs (new_volume env)) = ?part" by (simp add: link_volume_def)
  obtain w where w: "fsys_mount (tool_mount env) (new_volume env) (ram_disk ?s) ?vs =
        Some (?vs\<lparr>vol_at := (vol_at ?vs)(new_volume env := (vol_at ?vs (new_volume env))\<lparr>vol_data := Some w\<rparr>)\<rparr>)"
      "mounted (?vs\<lparr>vol_at := (vol_at ?vs)(new_volume env := (vol_at ?vs (new_volume env))\<lparr>vol_data := Some w\<rparr>)\<rparr>) (new_volume env) w"
      "root w = r" "block_bitmask w = take (bitmask_block_count r * 4096) (drop 8192 bs)"
    using fsys_mount_ok [OF me p i(1) r(1-3)] r(4-6) i(2) by auto
  let ?t = "use_volume (new_volume env) (?vs\<lparr>vol_at := (vol_at ?vs)(new_volume env := (vol_at ?vs (new_volume env))\<lparr>vol_data := Some w\<rparr>)\<rparr>) ?s"
  have u: "interactive ?t" "volume ?t = Some (new_volume env)"
      "volumes ?t = ?vs\<lparr>vol_at := (vol_at ?vs)(new_volume env := (vol_at ?vs (new_volume env))\<lparr>vol_data := Some w\<rparr>)\<rparr>"
    using t(2) by (simp_all add: use_volume_def init_disk_def clear_disk_def Let_def)
  have k: "disk_block_size (ram_disk ?s) = 1" "ram_block_count ?s = length bs" "length bs mod 2 ^ 32 = length bs" "mul32 1 (length bs) = length bs"
    using i(3) f(2) mul32_small [of 1 "length bs"] by (simp_all add: init_disk_def Let_def)
  have "load_image env (Some f) s = Some (Goes ?t)"
    using f(1) w(1) k cd_at_prompt [OF u(1), of env "text_of ''/''"] u(2)
    by (simp add: load_image_def mount_image_def k_fs_MountVolume_def Let_def)
  then show ?thesis using u w by (intro exI [of _ ?t] exI [of _ w]) simp
qed

text \<open>A command at the prompt with one argument.\<close>

lemma parse_cmd_arg:
  assumes i: "interactive s" and w: "arg_word name" "arg_word w" "arg_word v"
    and f: "find (\<lambda>(_, n). prefix (text_of n) (name @ 32 # w @ 61 # v)) cmds = Some (cmd, n)"
  shows "\<exists>buf arg val. length buf = length name + length w + length v + length rest + 3 \<and>
    parse_arg (name @ 32 # w @ 61 # v @ 0 # rest) (length name) = Some (buf, length buf - length rest, Some arg, Some val) \<and>
    c_string buf arg = Some w \<and> c_string buf val = Some v \<and>
    parse_cmd env (name @ 32 # w @ 61 # v @ 0 # rest) s =
      do { (buf, step) \<leftarrow> run_cmd env cmd (name @ 32 # w @ 61 # v @ 0 # rest) (length name) s; Some (cmd, buf, step) }"
proof -
  let ?buf = "name @ 32 # w @ 61 # v @ 0 # rest"
  obtain c cs where c: "name = c # cs" "\<not> is_space c" "c \<noteq> 0" using arg_wordD(2) [OF w(1)] by blast
  have nw: "\<not> is_word 0" by (simp add: is_word_def)
  obtain x arg val where x: "parse_arg ?buf (length name) = Some (name @ x @ rest, length name + length x, Some arg, Some val)"
      "length x = 1 + length w + 0 + 1 + 0 + length v + 1"
      "c_string (name @ x @ rest) arg = Some w" "c_string (name @ x @ rest) val = Some v"
    using parse_arg_pair_ok [OF w(2,3) nw refl, of name 1 0 0 rest] by (auto simp: blanks_def)
  have s0: "scan is_space ?buf 0 = Some 0" using c by (subst scan.simps) simp
  have r0: "rd ?buf 0 = Some c" using c by (simp add: rd_def)
  have z: "0 \<notin> set (name @ 32 # w @ 61 # v)" using arg_wordD(1) [OF w(1)] arg_wordD(1) [OF w(2)] arg_wordD(1) [OF w(3)] by simp
  have cs: "c_string ?buf 0 = Some (name @ 32 # w @ 61 # v)" using c_string_at [of "[]" 0 "name @ 32 # w @ 61 # v" rest] z by simp
  have s1: "scan (\<lambda>c. c \<noteq> 32 \<and> c \<noteq> 0) ?buf 0 = Some (length name)"
    using scan_run [of name "\<lambda>c. c \<noteq> 32 \<and> c \<noteq> 0" 32 0 "[]" "w @ 61 # v @ 0 # rest"] w(1) by (auto simp: arg_word_def is_word_def)
  have "parse_cmd env ?buf s = do { (buf, step) \<leftarrow> run_cmd env cmd ?buf (length name) s; Some (cmd, buf, step) }"
    using i s0 r0 c(3) cs s1 f by (simp add: parse_cmd_def Let_def)
  then show ?thesis using x by (intro exI [of _ "name @ x @ rest"] exI [of _ arg] exI [of _ val]) simp
qed

text \<open>A line typed at the prompt is the command, terminated in front of its newline.\<close>

lemma main_loop_line:
  assumes "interactive s" "tool_input s = l @ 10 # rest" "10 \<notin> set l" "0 \<notin> set l" "length l + 2 \<le> length buf" "length buf = cmd_buffer_size"
  shows "main_loop env buf s = do {
     (cmd, buf, step) \<leftarrow> parse_cmd env (l @ 0 # 0 # drop (length l + 2) buf) (s\<lparr>tool_input := rest\<rparr>);
     (case step of
        Exits s \<Rightarrow> Some (Exits s)
      | Goes s \<Rightarrow> main_loop env buf (if cmd = CMD_QUIT then s\<lparr>interactive := False\<rparr> else s))
   }"
proof -
  have tw: "takeWhile (\<lambda>c. c \<noteq> 10) (l @ 10 # rest) = l" using assms(3) by (simp add: takeWhile_tail) (metis takeWhile_eq_all_conv)
  have il: "input_line (tool_input s) = l @ [10]" using assms(2,5,6) tw by (simp add: input_line_def Let_def cmd_buffer_size_def)
  have g: "mkfs_fgets buf s = (l @ 10 # 0 # drop (length l + 2) buf, s\<lparr>tool_input := rest\<rparr>)"
    using assms(2) il by (simp add: mkfs_fgets_def Let_def blit_def)
  have c: "c_string (l @ 10 # 0 # drop (length l + 2) buf) 0 = Some (l @ [10])"
    using c_string_at [of "[]" 0 "l @ [10]" "drop (length l + 2) buf"] assms(4) by simp
  have w: "wr (l @ 10 # 0 # drop (length l + 2) buf) (sub32 (length (l @ [10])) 1) 0 = Some (l @ 0 # 0 # drop (length l + 2) buf)"
  proof -
    have "length l + 1 < 2 ^ 32" using assms(5,6) by (simp add: cmd_buffer_size_def)
    then have "sub32 (length (l @ [10])) 1 = length l" by (simp add: sub32_le)
    then show ?thesis by (simp add: wr_def list_update_append)
  qed
  show ?thesis using assms(1) g c w by (subst main_loop.simps) (simp add: Let_def)
qed


lemma copy_arg_run:
  assumes "\<forall>x \<in> set xs. x \<noteq> 0 \<and> x \<noteq> 44" "c = 0 \<or> c = 44" "length pre = i" "n + length xs \<le> length buf"
  shows "copy_arg (pre @ xs @ c # rest) i buf n = Some (blit buf n xs, n + length xs, i + length xs)"
  using assms
proof (induction xs arbitrary: pre i buf n)
  case Nil
  then show ?case by (subst copy_arg.simps) (auto simp: nth_append)
next
  case (Cons x xs)
  have "copy_arg ((pre @ [x]) @ xs @ c # rest) (i + 1) (buf[n := x]) (n + 1) =
      Some (blit (buf[n := x]) (n + 1) xs, n + 1 + length xs, i + 1 + length xs)"
    by (rule Cons.IH) (use Cons.prems in simp_all)
  moreover have "blit (buf[n := x]) (n + 1) xs = blit buf n (x # xs)"
    using blit_blit [of n "[x]" xs buf] Cons.prems(4) blit_snoc [of n "[]" buf x] by simp
  ultimately show ?case using Cons.prems by (subst copy_arg.simps) (simp add: nth_append wr_def)
qed

lemma main_interactive:
  assumes "\<not> interactive s"
  shows "\<exists>buf. length buf = cmd_buffer_size \<and>
    main env [arg0, text_of ''-interactive'' @ [0]] s = main_loop env buf (s\<lparr>interactive := True\<rparr>)"
proof -
  let ?a = "text_of ''-interactive''" and ?w = "text_of ''interactive''"
  let ?z = "replicate cmd_buffer_size (0 :: u8)"
  have a: "?a = 45 # ?w" "length ?a = 12" "\<forall>x \<in> set ?a. x \<noteq> 0 \<and> x \<noteq> 44" "\<forall>x \<in> set ?w. x \<noteq> 32 \<and> x \<noteq> 0" "0 \<notin> set ?w"
    by (simp_all add: text_of_def)
  obtain m where m: "cmd_buffer_size = 12 + Suc m" by (rule that [of 65522]) (simp add: cmd_buffer_size_def)
  have z: "?z = replicate 12 0 @ 0 # replicate m 0" unfolding m replicate_add by simp
  have bz: "blit ?z 0 ?a = ?a @ 0 # replicate m 0" unfolding z blit_def using a(2) by simp
  have cp: "copy_arg (?a @ [0]) 0 ?z 0 = Some (?a @ 0 # replicate m 0, 12, 12)"
    using copy_arg_run [OF a(3), of 0 "[]" 0 0 ?z "[]"] a(2) bz m by simp
  have w: "wr (?a @ 0 # replicate m 0) 12 0 = Some (?a @ 0 # replicate m 0)"
    using a(2) by (simp add: wr_def list_update_append)
  have c0: "(?a @ [0]) ! 12 = 0" using a(2) by (simp add: nth_append)
  let ?buf = "45 # ?w @ 0 # replicate m 0"
  have s0: "scan is_space ?buf 0 = Some 0" by (subst scan.simps) (simp add: is_space_def)
  have cs: "c_string ?buf 1 = Some ?w" using c_string_at [of "[45]" 1 ?w "replicate m 0"] a(5) by simp
  have s1: "scan (\<lambda>c. c \<noteq> 32 \<and> c \<noteq> 0) ?buf 1 = Some (1 + length ?w)"
    using scan_run [of ?w "\<lambda>c. c \<noteq> 32 \<and> c \<noteq> 0" 0 1 "[45]" "replicate m 0"] a(4) by simp
  have f: "find (\<lambda>(_, n). prefix (text_of n) ?w) cmds = Some (CMD_INTERACTIVE, ''interactive'')" by (simp add: cmds_def)
  have "parse_cmd env ?buf s = Some (CMD_INTERACTIVE, ?buf, Goes s)"
    using assms s0 cs s1 f by (simp add: parse_cmd_def Let_def rd_def)
  then have "main_arg env True (?a @ [0]) 0 ?z 0 s = Some (?buf, 12, Goes (s\<lparr>interactive := True\<rparr>), True)"
    using cp w c0 unfolding a(1) by (subst main_arg.simps) (simp add: Let_def)
  then have "main env [arg0, ?a @ [0]] s = main_loop env ?buf (s\<lparr>interactive := True\<rparr>)"
    by (simp add: main_def)
  moreover have "length ?buf = cmd_buffer_size" using a(1,2) m by simp
  ultimately show ?thesis by blast
qed

definition digits :: "bytes \<Rightarrow> nat \<Rightarrow> bool" where
  "digits ds n \<longleftrightarrow> ds \<noteq> [] \<and> (\<forall>c \<in> set ds. 48 \<le> c \<and> c \<le> 57) \<and> atoi_digits ds = int n"

lemma digit_word: "48 \<le> c \<Longrightarrow> c \<le> 57 \<Longrightarrow> is_word c \<and> c \<noteq> 10 \<and> c \<noteq> 45 \<and> c \<noteq> 43 \<and> \<not> c \<le> 13" for c :: u8
  by (auto simp: is_word_def word_le_nat_alt)

lemma atoi_ok:
  assumes "digits ds n" "n < 2 ^ 31"
  shows "atoi ds = Some (int n)" "arg_word ds" "10 \<notin> set ds"
proof -
  obtain c cs where c: "ds = c # cs" "48 \<le> c" "c \<le> 57" using assms(1) by (cases ds) (auto simp: digits_def)
  have d: "c \<noteq> 32 \<and> \<not> (9 \<le> c \<and> c \<le> 13)" "c \<noteq> 45" "c \<noteq> 43" using digit_word [OF c(2,3)] by (auto simp: is_word_def)
  have dw: "dropWhile (\<lambda>c. c = 32 \<or> 9 \<le> c \<and> c \<le> 13) ds = ds" using d(1) c(1) by auto
  have tw: "takeWhile (\<lambda>c. 48 \<le> c \<and> c \<le> 57) ds = ds" using assms(1) by (auto simp: digits_def takeWhile_eq_all_conv)
  have "atoi_digits ds = int n" using assms(1) by (simp add: digits_def)
  then show "atoi ds = Some (int n)" unfolding atoi_def Let_def dw using d(2,3) c(1) tw assms(2) by (simp add: int32_def)
  show "arg_word ds" "10 \<notin> set ds" using assms(1) digit_word by (auto simp: digits_def arg_word_def)
qed

definition create_line :: "bytes \<Rightarrow> bytes" where
  "create_line ds = text_of ''create'' @ 32 # text_of ''block_count'' @ 61 # ds"

definition save_line :: "bytes \<Rightarrow> bytes" where
  "save_line f = text_of ''save'' @ 32 # text_of ''image'' @ 61 # f"

lemma arg_words: "arg_word (text_of ''create'')" "arg_word (text_of ''block_count'')" "arg_word (text_of ''save'')" "arg_word (text_of ''image'')"
  by (simp_all add: arg_word_def text_of_def is_word_def)

lemma create_cmd:
  assumes i: "interactive s" and d: "digits ds n" "n < 2 ^ 31"
  shows "\<exists>buf. length buf = length (create_line ds @ 0 # rest) \<and>
    parse_cmd env (create_line ds @ 0 # rest) s = map_option (\<lambda>step. (CMD_CREATE, buf, step)) (create_image env 512 n s)"
proof -
  have f: "find (\<lambda>(_, n). prefix (text_of n) (create_line ds)) cmds = Some (CMD_CREATE, ''create'')"
    by (simp add: cmds_def text_of_def create_line_def)
  note a = atoi_ok [OF d]
  obtain buf arg val where b: "length buf = length (text_of ''create'') + length (text_of ''block_count'') + length ds + length rest + 3"
      "parse_arg (create_line ds @ 0 # rest) (length (text_of ''create'')) = Some (buf, length buf - length rest, Some arg, Some val)"
      "c_string buf arg = Some (text_of ''block_count'')" "c_string buf val = Some ds"
      "parse_cmd env (create_line ds @ 0 # rest) s =
        do { (buf, step) \<leftarrow> run_cmd env CMD_CREATE (create_line ds @ 0 # rest) (length (text_of ''create'')) s; Some (CMD_CREATE, buf, step) }"
    using parse_cmd_arg [OF i arg_words(1,2) a(2) f [unfolded create_line_def], of rest env]
    unfolding create_line_def append_assoc append_Cons by blast
  have "int n mod 2 ^ 32 = int n" using d(2) by simp
  then have "run_cmd env CMD_CREATE (create_line ds @ 0 # rest) (length (text_of ''create'')) s =
      map_option (\<lambda>step. (buf, step)) (create_image env 512 n s)"
    using b(2-4) a(1) by (simp add: run_create_def arg_is_def map_option_case split: option.split)
  then have "parse_cmd env (create_line ds @ 0 # rest) s = map_option (\<lambda>step. (CMD_CREATE, buf, step)) (create_image env 512 n s)"
    using b(5) by (cases "create_image env 512 n s") simp_all
  moreover have "length buf = length (create_line ds @ 0 # rest)" using b(1) by (simp add: create_line_def)
  ultimately show ?thesis by blast
qed

lemma save_cmd:
  assumes i: "interactive s" and f: "arg_word f"
  shows "\<exists>buf. length buf = length (save_line f @ 0 # rest) \<and>
    parse_cmd env (save_line f @ 0 # rest) s = map_option (\<lambda>step. (CMD_SAVE, buf, step)) (save_image env (Some f) s)"
proof -
  have fd: "find (\<lambda>(_, n). prefix (text_of n) (save_line f)) cmds = Some (CMD_SAVE, ''save'')"
    by (simp add: cmds_def text_of_def save_line_def)
  obtain buf arg val where b: "length buf = length (text_of ''save'') + length (text_of ''image'') + length f + length rest + 3"
      "parse_arg (save_line f @ 0 # rest) (length (text_of ''save'')) = Some (buf, length buf - length rest, Some arg, Some val)"
      "c_string buf arg = Some (text_of ''image'')" "c_string buf val = Some f"
      "parse_cmd env (save_line f @ 0 # rest) s =
        do { (buf, step) \<leftarrow> run_cmd env CMD_SAVE (save_line f @ 0 # rest) (length (text_of ''save'')) s; Some (CMD_SAVE, buf, step) }"
    using parse_cmd_arg [OF i arg_words(3,4) f fd [unfolded save_line_def], of rest env]
    unfolding save_line_def append_assoc append_Cons by blast
  have "run_cmd env CMD_SAVE (save_line f @ 0 # rest) (length (text_of ''save'')) s =
      map_option (\<lambda>step. (buf, step)) (save_image env (Some f) s)"
    using b(2-4) by (simp add: run_image_cmd_def image_arg_def arg_is_def map_option_case split: option.split)
  then have "parse_cmd env (save_line f @ 0 # rest) s = map_option (\<lambda>step. (CMD_SAVE, buf, step)) (save_image env (Some f) s)"
    using b(5) by (cases "save_image env (Some f) s") simp_all
  moreover have "length buf = length (save_line f @ 0 # rest)" using b(1) by (simp add: save_line_def)
  ultimately show ?thesis by blast
qed

lemma quit_cmd:
  assumes "interactive s"
  shows "parse_cmd env (text_of ''quit'' @ 0 # rest) s = Some (CMD_QUIT, text_of ''quit'' @ 0 # rest, Goes s)"
proof -
  let ?q = "text_of ''quit''"
  have q: "\<forall>x \<in> set ?q. x \<noteq> 32 \<and> x \<noteq> 0" "0 \<notin> set ?q" "?q ! 0 = 113" "0 < length ?q" by (simp_all add: text_of_def)
  have s0: "scan is_space (?q @ 0 # rest) 0 = Some 0" using q(3,4) by (subst scan.simps) (simp add: is_space_def nth_append)
  have r0: "rd (?q @ 0 # rest) 0 = Some 113" using q(3,4) by (simp add: rd_def nth_append)
  have s1: "scan (\<lambda>c. c \<noteq> 32 \<and> c \<noteq> 0) (?q @ 0 # rest) 0 = Some (length ?q)"
    using scan_run [of ?q "\<lambda>c. c \<noteq> 32 \<and> c \<noteq> 0" 0 0 "[]" rest] q(1) by simp
  have cs: "c_string (?q @ 0 # rest) 0 = Some ?q" using c_string_at [of "[]" 0 ?q rest] q(2) by simp
  have f: "find (\<lambda>(_, n). prefix (text_of n) ?q) cmds = Some (CMD_QUIT, ''quit'')" by (simp add: cmds_def text_of_def)
  show ?thesis using assms s0 r0 s1 cs f by (simp add: parse_cmd_def Let_def)
qed


text \<open>
  C39: An image made at the prompt. Started with \<open>-interactive\<close> and given the lines that create an image
  of \<open>n\<close> blocks, save it and quit, the tool ends, and the file holds \<open>n\<close> blocks; and loading that file, in
  any later run of the tool, mounts a volume with the root block of a format of \<open>n\<close> blocks and every block free.
\<close>

theorem mkfs_image:
  assumes t: "tool_ready env s" "\<not> interactive s" and n: "digits ds n" "image_size_ok n" "length ds \<le> 1000"
    and f: "arg_word f" "10 \<notin> set f" "length f \<le> 1000" "can_write env f"
    and inp: "tool_input s = create_line ds @ 10 # save_line f @ 10 # text_of ''quit'' @ 10 # more_input"
  shows "\<exists>s' bs. main env [arg0, text_of ''-interactive'' @ [0]] s = Some (Goes s') \<and> host_files s' f = Some bs \<and> length bs = n * 4096 \<and>
    (\<forall>u. tool_ready env u \<longrightarrow> interactive u \<longrightarrow> host_files u f = Some bs \<longrightarrow>
      (\<exists>u' v. load_image env (Some f) u = Some (Goes u') \<and> mounted (volumes u') (new_volume env) v \<and>
        format_root n = Some (root v) \<and> block_bitmask v = replicate (format_bitmask_blocks n * 4096) 0))"
proof -
  have n': "n < 2 ^ 31" "n < 2 ^ 64" "0 < n * 4096" "n * 4096 + 511 < 2 ^ 32" using n(2) by (simp_all add: image_size_ok_def)
  let ?q = "text_of ''quit''" and ?cb = cmd_buffer_size
  have l: "length (create_line ds) + 2 \<le> ?cb" "length (save_line f) + 2 \<le> ?cb" "length ?q + 2 \<le> ?cb"
    using n(3) f(3) by (simp_all add: create_line_def save_line_def text_of_def cmd_buffer_size_def)
  have z: "10 \<notin> set (create_line ds)" "0 \<notin> set (create_line ds)" "10 \<notin> set (save_line f)" "0 \<notin> set (save_line f)" "10 \<notin> set ?q" "0 \<notin> set ?q"
    using atoi_ok(2,3) [OF n(1) n'(1)] arg_wordD(1) f(1,2) by (auto simp: create_line_def save_line_def text_of_def)
  obtain b0 where b0: "length b0 = ?cb" "main env [arg0, text_of ''-interactive'' @ [0]] s = main_loop env b0 (s\<lparr>interactive := True\<rparr>)"
    using main_interactive [OF t(2)] by blast
  \<comment> \<open>the line that creates the image\<close>
  let ?s1 = "s\<lparr>interactive := True, tool_input := save_line f @ 10 # ?q @ 10 # more_input\<rparr>"
  have t1: "tool_ready env ?s1" "interactive ?s1" using t(1) by (simp_all add: tool_ready_def)
  obtain s2 v where s2: "create_image env 512 n ?s1 = Some (Goes s2)" "mounted (volumes s2) (new_volume env) v" "volume s2 = Some (new_volume env)"
      "partition v = \<lparr>first_block = 0, part_block_count = n * 4096\<rparr>" "disk_block_size (vol_disk v) = 1" "format_root n = Some (root v)"
      "block_bitmask v = replicate (format_bitmask_blocks n * 4096) 0" "interactive s2" "tool_input s2 = tool_input ?s1" "ram_block_count s2 = n * 4096"
    using create_image_ok [OF t1 n(2)] by blast
  obtain b1 where b1: "length b1 = ?cb" "main_loop env b0 (s\<lparr>interactive := True\<rparr>) = main_loop env b1 s2"
  proof -
    obtain b where b: "length b = length (create_line ds @ 0 # 0 # drop (length (create_line ds) + 2) b0)"
        "parse_cmd env (create_line ds @ 0 # 0 # drop (length (create_line ds) + 2) b0) ?s1 = Some (CMD_CREATE, b, Goes s2)"
      using create_cmd [OF t1(2) n(1) n'(1), of "0 # drop (length (create_line ds) + 2) b0" env] s2(1) by auto
    have "main_loop env b0 (s\<lparr>interactive := True\<rparr>) = main_loop env b s2"
      using main_loop_line [OF _ _ z(1,2) _ b0(1), of "s\<lparr>interactive := True\<rparr>" "save_line f @ 10 # ?q @ 10 # more_input" env] inp l(1) b0(1) b(2) by simp
    moreover have "length b = ?cb" using b(1) l(1) b0(1) by simp
    ultimately show ?thesis using that by blast
  qed
  \<comment> \<open>the line that saves it\<close>
  let ?s3 = "s2\<lparr>tool_input := ?q @ 10 # more_input\<rparr>"
  have m3: "mounted (volumes ?s3) (new_volume env) v" "volume ?s3 = Some (new_volume env)" "ram_block_count ?s3 = n * 4096" "interactive ?s3"
    using s2 by simp_all
  obtain s4 bs where s4: "save_image env (Some f) ?s3 = Some (Goes s4)" "host_files s4 f = Some bs" "length bs = n * 4096"
      "take 64 bs = root_bytes (root v)" "take (bitmask_block_count (root v) * 4096) (drop 8192 bs) = block_bitmask v"
      "interactive s4 = interactive ?s3" "tool_input s4 = tool_input ?s3"
    using save_image_ok [OF t(1) m3(1,2) s2(4,5) n'(3) m3(3) f(4)] by blast
  obtain b3 where b3: "length b3 = ?cb" "main_loop env b1 s2 = main_loop env b3 s4"
  proof -
    obtain b where b: "length b = length (save_line f @ 0 # 0 # drop (length (save_line f) + 2) b1)"
        "parse_cmd env (save_line f @ 0 # 0 # drop (length (save_line f) + 2) b1) ?s3 = Some (CMD_SAVE, b, Goes s4)"
      using save_cmd [OF m3(4) f(1), of "0 # drop (length (save_line f) + 2) b1" env] s4(1) by auto
    have "main_loop env b1 s2 = main_loop env b s4"
      using main_loop_line [OF s2(8) _ z(3,4) _ b1(1), of "?q @ 10 # more_input" env] s2(9) l(2) b1(1) b(2) by simp
    moreover have "length b = ?cb" using b(1) l(2) b1(1) by simp
    ultimately show ?thesis using that by blast
  qed
  \<comment> \<open>the line that ends the tool\<close>
  let ?s5 = "s4\<lparr>tool_input := more_input, interactive := False\<rparr>"
  have i4: "interactive s4" "interactive (s4\<lparr>tool_input := more_input\<rparr>)" "tool_input s4 = ?q @ 10 # more_input" using s4(6,7) m3(4) by simp_all
  have "main_loop env b3 s4 = main_loop env (?q @ 0 # 0 # drop (length ?q + 2) b3) ?s5"
    using main_loop_line [OF i4(1,3) z(5,6) _ b3(1), of env] l(3) b3(1) quit_cmd [OF i4(2), of env "0 # drop (length ?q + 2) b3"] by simp
  also have "\<dots> = Some (Goes ?s5)" by (subst main_loop.simps) simp
  finally have run: "main env [arg0, text_of ''-interactive'' @ [0]] s = Some (Goes ?s5)" using b0(2) b1(2) b3(2) by simp
  have r: "root_ok (root v)" "root_node (root v) = 256" "bitmask_start (root v) = 2" "bitmask_block_count (root v) = format_bitmask_blocks n"
    using format_root_ok [OF n'(2)] s2(6) by auto
  have len: "(2 + bitmask_block_count (root v)) * 4096 \<le> length bs" "4 * 4096 \<le> length bs" "length bs + 511 < 2 ^ 32"
    using n(2) s4(3) r(4) by (simp_all add: image_size_ok_def)
  have "\<exists>u' w. load_image env (Some f) u = Some (Goes u') \<and> mounted (volumes u') (new_volume env) w \<and>
        format_root n = Some (root w) \<and> block_bitmask w = replicate (format_bitmask_blocks n * 4096) 0"
    if u: "tool_ready env u" "interactive u" "host_files u f = Some bs" for u
  proof -
    obtain u' w where "load_image env (Some f) u = Some (Goes u')" "mounted (volumes u') (new_volume env) w" "root w = root v"
        "block_bitmask w = take (bitmask_block_count (root v) * 4096) (drop 8192 bs)"
      using load_image_ok [OF u len(3) r(1-3) s4(4) len(1,2)] by blast
    then show ?thesis using s4(5) s2(6,7) by (intro exI [of _ u'] exI [of _ w]) simp
  qed
  then show ?thesis using run s4(2,3) by (intro exI [of _ ?s5] exI [of _ bs]) simp
qed

definition sample_mkfs :: mkfs_env where
  "sample_mkfs = \<lparr>new_image = 4096, new_volume = 77, tool_mount = sample_mount_env, can_write = (\<lambda>_. True)\<rparr>"

definition sample_tool :: tool where
  "sample_tool = \<lparr>interactive = False, ram_disk = sample_ram\<lparr>disk_block_size := 1\<rparr>, ram_block_count = 0, volume = None, volumes = no_volumes,
     cur_dir = 0, cur_path = replicate 512 0, host_files = (\<lambda>_. None),
     tool_input = create_line (text_of ''64'') @ 10 # save_line (text_of ''disk.pup'') @ 10 # text_of ''quit'' @ 10 # []\<rparr>"

theorem mkfs_image_witness:
  "\<exists>s' bs. main sample_mkfs [text_of ''mkfs'' @ [0], text_of ''-interactive'' @ [0]] sample_tool = Some (Goes s') \<and>
     host_files s' (text_of ''disk.pup'') = Some bs \<and> length bs = 262144"
proof -
  have t: "tool_ready sample_mkfs sample_tool" "\<not> interactive sample_tool"
    using sample_mount_env_ok
    by (auto simp: tool_ready_def sample_mkfs_def sample_tool_def sample_ram_def volumes_rep_def no_volumes_def intro: exI [of _ "[]"])
  have d: "digits (text_of ''64'') 64" by (simp add: digits_def text_of_def atoi_digits_def)
  have n: "image_size_ok 64" by (simp add: image_size_ok_def format_bitmask_blocks_def mul32_def Let_def)
  have f: "arg_word (text_of ''disk.pup'')" "10 \<notin> set (text_of ''disk.pup'')" "length (text_of ''disk.pup'') \<le> 1000"
      "can_write sample_mkfs (text_of ''disk.pup'')" "length (text_of ''64'') \<le> 1000"
    by (simp_all add: arg_word_def text_of_def is_word_def sample_mkfs_def)
  have i: "tool_input sample_tool = create_line (text_of ''64'') @ 10 # save_line (text_of ''disk.pup'') @ 10 # text_of ''quit'' @ 10 # []"
    by (simp add: sample_tool_def)
  have e: "64 * 4096 = (262144 :: nat)" by simp
  show ?thesis using mkfs_image [OF t d n f(5,1-4) i, of "text_of ''mkfs'' @ [0]"] unfolding e by blast
qed

text \<open>Without the prompt, creating or mounting an image always ends the tool, before anything can be saved.\<close>

lemma create_image_exits:
  assumes "\<not> interactive s" "create_image env bs n s = Some step"
  shows "\<exists>s'. step = Exits s'"
proof -
  have c: "cd env p u = Some (Exits u)" if "\<not> interactive u" for p u
    using that by (auto simp: cd_def k_fs_PupFindNode_def K_FS_PUP_NULL_LINK_def tool_error_def split: option.split)
  have i: "\<not> interactive (use_volume vol vs ((init_disk a b k s)\<lparr>cur_dir := d\<rparr>))" for vol vs a b k d
    using assms(1) by (simp add: use_volume_def init_disk_def clear_disk_def Let_def)
  show ?thesis using assms c [OF i]
    by (auto simp: create_image_def tool_error_def Let_def split: if_splits Option.bind_splits prod.splits)
qed

end
