(* ===== verification/Gfx_Vga.thy ===== *)
theory Gfx_Vga
  imports Sys_Term Mem_Pmap
begin

text \<open>
  The registers of the graphics controller: \<open>gfx/k_vga.c\<close> and \<open>gfx/k_vga.h\<close>. The controller is behind the
  ports of a world of type \<open>'d\<close>; what is relied on of it, the hypothesis \<open>vga_hardware\<close>, is that three
  index ports each select a register of a file that the data port then reads or writes, and that the
  miscellaneous register says at which of two addresses the file of the display controller is. The
  lemmas show which registers every operation changes, and that the cursor and the modes end up in the
  registers as the terminal expects.
\<close>

section \<open>Registers\<close>

definition K_GFX_VGA_GFX_REG_ADDR_PORT :: nat where "K_GFX_VGA_GFX_REG_ADDR_PORT = 0x03ce"
definition K_GFX_VGA_GFX_REG_DATA_PORT :: nat where "K_GFX_VGA_GFX_REG_DATA_PORT = 0x03cf"
definition K_GFX_VGA_GFX_REG_MISC :: u8 where "K_GFX_VGA_GFX_REG_MISC = 0x06"
definition K_GFX_VGA_GFX_REG_LAST :: u8 where "K_GFX_VGA_GFX_REG_LAST = 0x09"
definition K_GFX_VGA_GFX_MISC_REG_FLAG_ALPHA_DISABLE :: u8 where "K_GFX_VGA_GFX_MISC_REG_FLAG_ALPHA_DISABLE = 1"
definition K_GFX_VGA_MEM_MAP_SEL_SHIFT :: nat where "K_GFX_VGA_MEM_MAP_SEL_SHIFT = 2"
definition K_GFX_VGA_MEM_MAP_SEL_MASK :: u8 where "K_GFX_VGA_MEM_MAP_SEL_MASK = 0x0c"
definition K_GFX_VGA_MEM_MAP0 :: u32 where "K_GFX_VGA_MEM_MAP0 = 0"
definition K_GFX_VGA_MEM_MAP3 :: u32 where "K_GFX_VGA_MEM_MAP3 = 3"
definition K_GFX_VGA_CRT_REG_ADDR_PORT0 :: nat where "K_GFX_VGA_CRT_REG_ADDR_PORT0 = 0x03b4"
definition K_GFX_VGA_CRT_REG_CURSOR_START :: u8 where "K_GFX_VGA_CRT_REG_CURSOR_START = 0x0a"
definition K_GFX_VGA_CRT_REG_CURSOR_LOCH :: u8 where "K_GFX_VGA_CRT_REG_CURSOR_LOCH = 0x0e"
definition K_GFX_VGA_CRT_REG_CURSOR_LOCL :: u8 where "K_GFX_VGA_CRT_REG_CURSOR_LOCL = 0x0f"
definition K_GFX_VGA_CRT_REG_LAST :: u8 where "K_GFX_VGA_CRT_REG_LAST = 0x19"
definition K_GFX_VGA_CRT_CURSOR_START_REG_FLAG_CURSOR_DISABLE :: u8 where
  "K_GFX_VGA_CRT_CURSOR_START_REG_FLAG_CURSOR_DISABLE = 0x20"
definition K_GFX_VGA_SEQ_REG_ADDRESS_PORT :: nat where "K_GFX_VGA_SEQ_REG_ADDRESS_PORT = 0x03c4"
definition K_GFX_VGA_SEQ_REG_DATA_PORT :: nat where "K_GFX_VGA_SEQ_REG_DATA_PORT = 0x03c5"
definition K_GFX_VGA_SEQ_REG_MAP_MASK :: u8 where "K_GFX_VGA_SEQ_REG_MAP_MASK = 2"
definition K_GFX_VGA_SEQ_REG_LAST :: u8 where "K_GFX_VGA_SEQ_REG_LAST = 5"
definition K_GFX_VGA_EXT_REG_MISC :: u8 where "K_GFX_VGA_EXT_REG_MISC = 0"
definition K_GFX_VGA_EXT_REG_FEAT_CTRL :: u8 where "K_GFX_VGA_EXT_REG_FEAT_CTRL = 1"
definition K_GFX_VGA_EXT_REG_INPUT_STATUS1 :: u8 where "K_GFX_VGA_EXT_REG_INPUT_STATUS1 = 5"
definition K_GFX_VGA_EXT_REG_LAST :: u8 where "K_GFX_VGA_EXT_REG_LAST = 8"
definition K_GFX_VGA_EXT_MISC_REG_FLAG_IO_ADDR_SEL :: u8 where "K_GFX_VGA_EXT_MISC_REG_FLAG_IO_ADDR_SEL = 1"
definition K_GFX_VGA_GFX_MODE_GRAPHIC :: u32 where "K_GFX_VGA_GFX_MODE_GRAPHIC = 0"
definition K_GFX_VGA_GFX_MODE_ALPHANUMERIC :: u32 where "K_GFX_VGA_GFX_MODE_ALPHANUMERIC = 1"

lemmas vga_consts = K_GFX_VGA_GFX_REG_ADDR_PORT_def K_GFX_VGA_GFX_REG_DATA_PORT_def K_GFX_VGA_GFX_REG_MISC_def
  K_GFX_VGA_GFX_REG_LAST_def K_GFX_VGA_GFX_MISC_REG_FLAG_ALPHA_DISABLE_def K_GFX_VGA_MEM_MAP_SEL_SHIFT_def
  K_GFX_VGA_MEM_MAP_SEL_MASK_def K_GFX_VGA_MEM_MAP0_def K_GFX_VGA_MEM_MAP3_def K_GFX_VGA_CRT_REG_ADDR_PORT0_def
  K_GFX_VGA_CRT_REG_CURSOR_START_def K_GFX_VGA_CRT_REG_CURSOR_LOCH_def K_GFX_VGA_CRT_REG_CURSOR_LOCL_def
  K_GFX_VGA_CRT_REG_LAST_def K_GFX_VGA_CRT_CURSOR_START_REG_FLAG_CURSOR_DISABLE_def K_GFX_VGA_SEQ_REG_ADDRESS_PORT_def
  K_GFX_VGA_SEQ_REG_DATA_PORT_def K_GFX_VGA_SEQ_REG_MAP_MASK_def K_GFX_VGA_SEQ_REG_LAST_def K_GFX_VGA_EXT_REG_MISC_def
  K_GFX_VGA_EXT_REG_FEAT_CTRL_def K_GFX_VGA_EXT_REG_INPUT_STATUS1_def K_GFX_VGA_EXT_REG_LAST_def
  K_GFX_VGA_EXT_MISC_REG_FLAG_IO_ADDR_SEL_def K_GFX_VGA_GFX_MODE_GRAPHIC_def K_GFX_VGA_GFX_MODE_ALPHANUMERIC_def

text \<open>
  The ports of the external registers, to read and to write. The entries of the two registers that stand
  for whichever of two is active are not set, and are zero.
\<close>

definition k_gfx_vga_ext_reg_ports :: "(nat \<times> nat) list" where
  "k_gfx_vga_ext_reg_ports = [(0x03cc, 0x03c2), (0, 0), (0x03ca, 0x03ba), (0x03ca, 0x03da), (0x03c2, 0), (0, 0),
     (0x03ba, 0), (0x03da, 0)]"

definition k_gfx_vga_mem_maps :: "nat list" where
  "k_gfx_vga_mem_maps = [0xa0000, 0xa0000, 0xb0000, 0xb8000]"

definition k_gfx_WriteVgaGfxReg :: "'d port_io \<Rightarrow> u8 \<Rightarrow> u8 \<Rightarrow> 'd \<Rightarrow> 'd" where
  "k_gfx_WriteVgaGfxReg io reg value d =
     (if reg < K_GFX_VGA_GFX_REG_LAST
      then out_b io value K_GFX_VGA_GFX_REG_DATA_PORT (out_b io reg K_GFX_VGA_GFX_REG_ADDR_PORT d) else d)"

definition k_gfx_ReadVgaGfxReg :: "'d port_io \<Rightarrow> u8 \<Rightarrow> 'd \<Rightarrow> u8 \<times> 'd" where
  "k_gfx_ReadVgaGfxReg io reg d =
     (if reg < K_GFX_VGA_GFX_REG_LAST
      then in_b io K_GFX_VGA_GFX_REG_DATA_PORT (out_b io reg K_GFX_VGA_GFX_REG_ADDR_PORT d) else (0, d))"

text \<open>
  A call of \<open>k_gfx_ReadVgaExtReg\<close> for the miscellaneous register, which the function itself makes to see
  whether the monochrome or the colour port of a register is in use.
\<close>

definition io_addr_sel :: "'d port_io \<Rightarrow> 'd \<Rightarrow> bool \<times> 'd" where
  "io_addr_sel io d =
     (case in_b io (fst (k_gfx_vga_ext_reg_ports ! unat K_GFX_VGA_EXT_REG_MISC)) d of
       (misc, d) \<Rightarrow> (misc AND K_GFX_VGA_EXT_MISC_REG_FLAG_IO_ADDR_SEL \<noteq> 0, d))"

definition k_gfx_ReadVgaExtReg :: "'d port_io \<Rightarrow> u8 \<Rightarrow> 'd \<Rightarrow> u8 \<times> 'd" where
  "k_gfx_ReadVgaExtReg io reg d =
     (if reg < K_GFX_VGA_EXT_REG_LAST then
        case (if reg = K_GFX_VGA_EXT_REG_INPUT_STATUS1 \<or> reg = K_GFX_VGA_EXT_REG_FEAT_CTRL
          then case io_addr_sel io d of (colour, d) \<Rightarrow> (if colour then reg + 1 + 1 else reg + 1, d)
          else (reg, d)) of
        (reg, d) \<Rightarrow> in_b io (fst (k_gfx_vga_ext_reg_ports ! unat reg)) d
      else (0, d))"

definition k_gfx_WriteVgaExtReg :: "'d port_io \<Rightarrow> u8 \<Rightarrow> u8 \<Rightarrow> 'd \<Rightarrow> 'd" where
  "k_gfx_WriteVgaExtReg io reg value d =
     (if reg < K_GFX_VGA_EXT_REG_LAST \<and> snd (k_gfx_vga_ext_reg_ports ! unat reg) \<noteq> 0
      then out_b io value (snd (k_gfx_vga_ext_reg_ports ! unat reg)) d else d)"

text \<open>The address port of the display controller.\<close>

definition crt_port :: "'d port_io \<Rightarrow> 'd \<Rightarrow> nat \<times> 'd" where
  "crt_port io d = (case k_gfx_ReadVgaExtReg io K_GFX_VGA_EXT_REG_MISC d of (misc, d) \<Rightarrow>
     (if misc AND K_GFX_VGA_EXT_MISC_REG_FLAG_IO_ADDR_SEL \<noteq> 0 then K_GFX_VGA_CRT_REG_ADDR_PORT0 + 0x20
      else K_GFX_VGA_CRT_REG_ADDR_PORT0, d))"

definition k_gfx_WriteVgaCrtReg :: "'d port_io \<Rightarrow> u8 \<Rightarrow> u8 \<Rightarrow> 'd \<Rightarrow> 'd" where
  "k_gfx_WriteVgaCrtReg io reg value d =
     (if reg < K_GFX_VGA_CRT_REG_LAST
      then case crt_port io d of (port, d) \<Rightarrow> out_b io value (port + 1) (out_b io reg port d) else d)"

definition k_gfx_ReadVgaCrtReg :: "'d port_io \<Rightarrow> u8 \<Rightarrow> 'd \<Rightarrow> u8 \<times> 'd" where
  "k_gfx_ReadVgaCrtReg io reg d =
     (if reg < K_GFX_VGA_CRT_REG_LAST
      then case crt_port io d of (port, d) \<Rightarrow> in_b io (port + 1) (out_b io reg port d) else (0, d))"

definition k_gfx_WriteVgaSeqReg :: "'d port_io \<Rightarrow> u8 \<Rightarrow> u8 \<Rightarrow> 'd \<Rightarrow> 'd" where
  "k_gfx_WriteVgaSeqReg io reg value d =
     (if reg < K_GFX_VGA_SEQ_REG_LAST
      then out_b io value K_GFX_VGA_SEQ_REG_DATA_PORT (out_b io reg K_GFX_VGA_SEQ_REG_ADDRESS_PORT d) else d)"

definition k_gfx_ReadVgaSeqReg :: "'d port_io \<Rightarrow> u8 \<Rightarrow> 'd \<Rightarrow> u8 \<times> 'd" where
  "k_gfx_ReadVgaSeqReg io reg d =
     (if reg < K_GFX_VGA_SEQ_REG_LAST
      then in_b io K_GFX_VGA_SEQ_REG_DATA_PORT (out_b io reg K_GFX_VGA_SEQ_REG_ADDRESS_PORT d) else (0, d))"

section \<open>Modes\<close>

text \<open>The variables of the driver.\<close>

record k_gfx_vga =
  k_gfx_vga_cur_mem_map :: nat
  k_gfx_vga_width :: u32
  k_gfx_vga_height :: u32

definition k_gfx_SetVgaMemMap :: "'d port_io \<Rightarrow> u32 \<Rightarrow> k_gfx_vga \<times> 'd \<Rightarrow> k_gfx_vga \<times> 'd" where
  "k_gfx_SetVgaMemMap io mem_map s = (case s of (g, d) \<Rightarrow>
     if mem_map \<le> K_GFX_VGA_MEM_MAP3 then
       case k_gfx_ReadVgaGfxReg io K_GFX_VGA_GFX_REG_MISC d of (reg_value, d) \<Rightarrow>
         let reg_value = (reg_value AND NOT K_GFX_VGA_MEM_MAP_SEL_MASK) OR ucast (push_bit K_GFX_VGA_MEM_MAP_SEL_SHIFT mem_map)
         in (g\<lparr>k_gfx_vga_cur_mem_map := k_gfx_vga_mem_maps ! unat mem_map\<rparr>,
             k_gfx_WriteVgaGfxReg io K_GFX_VGA_GFX_REG_MISC reg_value d)
     else (g, d))"

definition k_gfx_SetVgaCursorPos_regs :: "'d port_io \<Rightarrow> u32 \<Rightarrow> u32 \<Rightarrow> k_gfx_vga \<Rightarrow> 'd \<Rightarrow> 'd" where
  "k_gfx_SetVgaCursorPos_regs io x y g d =
     (let cursor_pos = ucast (x + y * k_gfx_vga_width g) :: u16
      in k_gfx_WriteVgaCrtReg io K_GFX_VGA_CRT_REG_CURSOR_LOCL (ucast (cursor_pos AND 0xff))
           (k_gfx_WriteVgaCrtReg io K_GFX_VGA_CRT_REG_CURSOR_LOCH (ucast (drop_bit 8 cursor_pos AND 0xff)) d))"

definition k_gfx_ToggleVgaCursor :: "'d port_io \<Rightarrow> u32 \<Rightarrow> 'd \<Rightarrow> 'd" where
  "k_gfx_ToggleVgaCursor io enable d =
     (case k_gfx_ReadVgaCrtReg io K_GFX_VGA_CRT_REG_CURSOR_START d of (reg_value, d) \<Rightarrow>
        let reg_value = (if enable = 0 then reg_value OR K_GFX_VGA_CRT_CURSOR_START_REG_FLAG_CURSOR_DISABLE
          else reg_value AND NOT K_GFX_VGA_CRT_CURSOR_START_REG_FLAG_CURSOR_DISABLE)
        in k_gfx_WriteVgaCrtReg io K_GFX_VGA_CRT_REG_CURSOR_START reg_value d)"

definition k_gfx_SetVgaGfxMode :: "'d port_io \<Rightarrow> u32 \<Rightarrow> 'd \<Rightarrow> 'd" where
  "k_gfx_SetVgaGfxMode io mode d =
     (case k_gfx_ReadVgaGfxReg io K_GFX_VGA_GFX_REG_MISC d of (misc_value, d) \<Rightarrow>
        let (misc_value, map_mask_value) = (if mode = K_GFX_VGA_GFX_MODE_GRAPHIC
          then (misc_value OR K_GFX_VGA_GFX_MISC_REG_FLAG_ALPHA_DISABLE, 0x0f)
          else (misc_value AND NOT K_GFX_VGA_GFX_MISC_REG_FLAG_ALPHA_DISABLE, 0x03))
        in k_gfx_WriteVgaSeqReg io K_GFX_VGA_SEQ_REG_MAP_MASK map_mask_value
             (k_gfx_WriteVgaGfxReg io K_GFX_VGA_GFX_REG_MISC misc_value d))"

text \<open>The video memory is mapped at its own address; the status of that is not looked at.\<close>

definition k_gfx_InitVga :: "'d port_io \<Rightarrow> k_gfx_vga \<times> 'd \<Rightarrow> mmu \<Rightarrow> ((k_gfx_vga \<times> 'd) \<times> mmu) option" where
  "k_gfx_InitVga io s mm = (case s of (g, d) \<Rightarrow> do {
     let g = g\<lparr>k_gfx_vga_width := 80, k_gfx_vga_height := 25\<rparr>;
     let (g, d) = k_gfx_SetVgaMemMap io K_GFX_VGA_MEM_MAP0 (g, d);
     let map = word_of_nat (k_gfx_vga_cur_mem_map g);
     (_, mm) \<leftarrow> k_mem_MapLinearAddress mm map map (0x2 OR 0x4);
     Some ((g, k_gfx_SetVgaGfxMode io K_GFX_VGA_GFX_MODE_ALPHANUMERIC d), mm)
   })"

text \<open>The bytes that \<open>k_gfx_FillSquare\<close> sets, whatever its arguments.\<close>

definition k_gfx_FillSquare :: "k_gfx_vga \<Rightarrow> (nat \<Rightarrow> u8) \<Rightarrow> nat \<Rightarrow> u8" where
  "k_gfx_FillSquare g mem0 a =
     (if k_gfx_vga_cur_mem_map g \<le> a \<and> a < k_gfx_vga_cur_mem_map g + 0xffff then 0xf else mem0 a)"

section \<open>The controller\<close>

record vga_regs =
  gfx_index :: u8
  gfx_reg :: "u8 \<Rightarrow> u8"
  seq_index :: u8
  seq_reg :: "u8 \<Rightarrow> u8"
  crt_index :: u8
  crt_reg :: "u8 \<Rightarrow> u8"
  misc_reg :: u8

definition crt_base :: "vga_regs \<Rightarrow> nat" where
  "crt_base r = (if misc_reg r AND 1 \<noteq> 0 then 0x3d4 else 0x3b4)"

definition vga_hardware :: "'d port_io \<Rightarrow> ('d \<Rightarrow> vga_regs) \<Rightarrow> bool" where
  "vga_hardware io regs \<longleftrightarrow>
     (\<forall>v d. regs (out_b io v 0x3ce d) = (regs d)\<lparr>gfx_index := v\<rparr> \<and>
        regs (out_b io v 0x3cf d) = (regs d)\<lparr>gfx_reg := (gfx_reg (regs d))(gfx_index (regs d) := v)\<rparr> \<and>
        regs (out_b io v 0x3c4 d) = (regs d)\<lparr>seq_index := v\<rparr> \<and>
        regs (out_b io v 0x3c5 d) = (regs d)\<lparr>seq_reg := (seq_reg (regs d))(seq_index (regs d) := v)\<rparr> \<and>
        regs (out_b io v (crt_base (regs d)) d) = (regs d)\<lparr>crt_index := v\<rparr> \<and>
        regs (out_b io v (crt_base (regs d) + 1) d) =
          (regs d)\<lparr>crt_reg := (crt_reg (regs d))(crt_index (regs d) := v)\<rparr> \<and>
        regs (out_b io v 0x3c2 d) = (regs d)\<lparr>misc_reg := v\<rparr>) \<and>
     (\<forall>d. fst (in_b io 0x3cf d) = gfx_reg (regs d) (gfx_index (regs d)) \<and> regs (snd (in_b io 0x3cf d)) = regs d \<and>
        fst (in_b io 0x3c5 d) = seq_reg (regs d) (seq_index (regs d)) \<and> regs (snd (in_b io 0x3c5 d)) = regs d \<and>
        fst (in_b io (crt_base (regs d) + 1) d) = crt_reg (regs d) (crt_index (regs d)) \<and>
        regs (snd (in_b io (crt_base (regs d) + 1) d)) = regs d \<and>
        fst (in_b io 0x3cc d) = misc_reg (regs d) \<and> regs (snd (in_b io 0x3cc d)) = regs d)"

lemma vga_out:
  assumes "vga_hardware io regs"
  shows "regs (out_b io v 0x3ce d) = (regs d)\<lparr>gfx_index := v\<rparr>"
    "regs (out_b io v 0x3cf d) = (regs d)\<lparr>gfx_reg := (gfx_reg (regs d))(gfx_index (regs d) := v)\<rparr>"
    "regs (out_b io v 0x3c4 d) = (regs d)\<lparr>seq_index := v\<rparr>"
    "regs (out_b io v 0x3c5 d) = (regs d)\<lparr>seq_reg := (seq_reg (regs d))(seq_index (regs d) := v)\<rparr>"
    "crt_base (regs d) = p \<Longrightarrow> regs (out_b io v p d) = (regs d)\<lparr>crt_index := v\<rparr>"
    "crt_base (regs d) = p \<Longrightarrow>
       regs (out_b io v (Suc p) d) = (regs d)\<lparr>crt_reg := (crt_reg (regs d))(crt_index (regs d) := v)\<rparr>"
    "regs (out_b io v 0x3c2 d) = (regs d)\<lparr>misc_reg := v\<rparr>"
  using assms unfolding vga_hardware_def by auto

lemma vga_in:
  assumes "vga_hardware io regs"
  shows "fst (in_b io 0x3cf d) = gfx_reg (regs d) (gfx_index (regs d))" "regs (snd (in_b io 0x3cf d)) = regs d"
    "fst (in_b io 0x3c5 d) = seq_reg (regs d) (seq_index (regs d))" "regs (snd (in_b io 0x3c5 d)) = regs d"
    "crt_base (regs d) = p \<Longrightarrow> fst (in_b io (Suc p) d) = crt_reg (regs d) (crt_index (regs d))"
    "crt_base (regs d) = p \<Longrightarrow> regs (snd (in_b io (Suc p) d)) = regs d"
    "fst (in_b io 0x3cc d) = misc_reg (regs d)" "regs (snd (in_b io 0x3cc d)) = regs d"
  using assms unfolding vga_hardware_def by auto

section \<open>Access to the registers\<close>

lemma write_gfx:
  "vga_hardware io regs \<Longrightarrow> reg < 9 \<Longrightarrow>
   regs (k_gfx_WriteVgaGfxReg io reg v d) = (regs d)\<lparr>gfx_index := reg, gfx_reg := (gfx_reg (regs d))(reg := v)\<rparr>"
  by (simp add: k_gfx_WriteVgaGfxReg_def vga_consts vga_out)

lemma read_gfx:
  "vga_hardware io regs \<Longrightarrow> reg < 9 \<Longrightarrow>
   fst (k_gfx_ReadVgaGfxReg io reg d) = gfx_reg (regs d) reg \<and>
   regs (snd (k_gfx_ReadVgaGfxReg io reg d)) = (regs d)\<lparr>gfx_index := reg\<rparr>"
  by (simp add: k_gfx_ReadVgaGfxReg_def vga_consts vga_out vga_in)

lemma write_seq:
  "vga_hardware io regs \<Longrightarrow> reg < 5 \<Longrightarrow>
   regs (k_gfx_WriteVgaSeqReg io reg v d) = (regs d)\<lparr>seq_index := reg, seq_reg := (seq_reg (regs d))(reg := v)\<rparr>"
  by (simp add: k_gfx_WriteVgaSeqReg_def vga_consts vga_out)

lemma read_seq:
  "vga_hardware io regs \<Longrightarrow> reg < 5 \<Longrightarrow>
   fst (k_gfx_ReadVgaSeqReg io reg d) = seq_reg (regs d) reg \<and>
   regs (snd (k_gfx_ReadVgaSeqReg io reg d)) = (regs d)\<lparr>seq_index := reg\<rparr>"
  by (simp add: k_gfx_ReadVgaSeqReg_def vga_consts vga_out vga_in)

lemma read_misc:
  "vga_hardware io regs \<Longrightarrow>
   fst (k_gfx_ReadVgaExtReg io 0 d) = misc_reg (regs d) \<and> regs (snd (k_gfx_ReadVgaExtReg io 0 d)) = regs d"
  by (simp add: k_gfx_ReadVgaExtReg_def vga_consts k_gfx_vga_ext_reg_ports_def vga_in)

lemma write_misc:
  "vga_hardware io regs \<Longrightarrow> regs (k_gfx_WriteVgaExtReg io 0 v d) = (regs d)\<lparr>misc_reg := v\<rparr>"
  by (simp add: k_gfx_WriteVgaExtReg_def vga_consts k_gfx_vga_ext_reg_ports_def vga_out)

lemma crt_port_base:
  "vga_hardware io regs \<Longrightarrow> fst (crt_port io d) = crt_base (regs d) \<and> regs (snd (crt_port io d)) = regs d"
  using read_misc [of io regs d]
  by (auto simp: crt_port_def crt_base_def vga_consts split: prod.splits)

lemma write_crt:
  assumes "vga_hardware io regs" "reg < 25"
  shows "regs (k_gfx_WriteVgaCrtReg io reg v d) = (regs d)\<lparr>crt_index := reg, crt_reg := (crt_reg (regs d))(reg := v)\<rparr>"
proof -
  obtain p e where c: "crt_port io d = (p, e)" by fastforce
  then have e: "p = crt_base (regs e)" "regs e = regs d" using crt_port_base [OF assms(1), of d] by auto
  then have "crt_base (regs (out_b io reg p e)) = p" using vga_out(5) [OF assms(1)] by (simp add: crt_base_def)
  then show ?thesis using assms(2) e c by (simp add: k_gfx_WriteVgaCrtReg_def vga_consts vga_out [OF assms(1)])
qed

lemma read_crt:
  assumes "vga_hardware io regs" "reg < 25"
  shows "fst (k_gfx_ReadVgaCrtReg io reg d) = crt_reg (regs d) reg \<and>
    regs (snd (k_gfx_ReadVgaCrtReg io reg d)) = (regs d)\<lparr>crt_index := reg\<rparr>"
proof -
  obtain p e where c: "crt_port io d = (p, e)" by fastforce
  then have e: "p = crt_base (regs e)" "regs e = regs d" using crt_port_base [OF assms(1), of d] by auto
  then have "crt_base (regs (out_b io reg p e)) = p" using vga_out(5) [OF assms(1)] by (simp add: crt_base_def)
  then show ?thesis using assms(2) e c by (simp add: k_gfx_ReadVgaCrtReg_def vga_consts vga_out [OF assms(1)] vga_in [OF assms(1)])
qed

lemma vga_reg_out_of_range:
  "\<not> reg < 9 \<Longrightarrow> k_gfx_WriteVgaGfxReg io reg v d = d" "\<not> reg < 5 \<Longrightarrow> k_gfx_WriteVgaSeqReg io reg v d = d"
  "\<not> reg < 25 \<Longrightarrow> k_gfx_WriteVgaCrtReg io reg v d = d" "\<not> reg < 8 \<Longrightarrow> k_gfx_WriteVgaExtReg io reg v d = d"
  by (simp_all add: k_gfx_WriteVgaGfxReg_def k_gfx_WriteVgaSeqReg_def k_gfx_WriteVgaCrtReg_def k_gfx_WriteVgaExtReg_def vga_consts)

text \<open>
  The feature control register can be read as the active one of the two, but a write of it that way is
  dropped.
\<close>

lemma feature_control_write_dropped:
  "k_gfx_WriteVgaExtReg io K_GFX_VGA_EXT_REG_FEAT_CTRL v d = d"
  "fst (k_gfx_ReadVgaExtReg io K_GFX_VGA_EXT_REG_FEAT_CTRL d) = fst (in_b io 0x3ca (snd (in_b io 0x3cc d)))"
  by (simp_all add: k_gfx_WriteVgaExtReg_def k_gfx_ReadVgaExtReg_def io_addr_sel_def vga_consts k_gfx_vga_ext_reg_ports_def
    split: prod.splits)

section \<open>Cursor and modes\<close>

lemma toggle_cursor:
  assumes "vga_hardware io regs"
  shows "regs (k_gfx_ToggleVgaCursor io enable d) = (regs d)\<lparr>crt_index := 0x0a,
    crt_reg := (crt_reg (regs d))(0x0a :=
      (if enable = 0 then crt_reg (regs d) 0x0a OR 0x20 else crt_reg (regs d) 0x0a AND NOT 0x20))\<rparr>"
  using read_crt [OF assms, of "0x0a" d] write_crt [OF assms, of "0x0a"]
  by (auto simp: k_gfx_ToggleVgaCursor_def vga_consts split: prod.splits)

lemma set_mem_map:
  assumes "vga_hardware io regs" "mem_map \<le> 3"
  shows "fst (k_gfx_SetVgaMemMap io mem_map (g, d)) = g\<lparr>k_gfx_vga_cur_mem_map := k_gfx_vga_mem_maps ! unat mem_map\<rparr>"
    "regs (snd (k_gfx_SetVgaMemMap io mem_map (g, d))) = (regs d)\<lparr>gfx_index := 6,
      gfx_reg := (gfx_reg (regs d))(6 := (gfx_reg (regs d) 6 AND NOT 0x0c) OR ucast (push_bit 2 mem_map))\<rparr>"
  using read_gfx [OF assms(1), of 6 d] write_gfx [OF assms(1), of 6] assms(2)
  by (auto simp: k_gfx_SetVgaMemMap_def vga_consts Let_def split: prod.splits)

lemma set_gfx_mode:
  assumes "vga_hardware io regs"
  shows "regs (k_gfx_SetVgaGfxMode io mode d) = (regs d)\<lparr>gfx_index := 6, seq_index := 2,
      gfx_reg := (gfx_reg (regs d))(6 := (if mode = 0 then gfx_reg (regs d) 6 OR 1 else gfx_reg (regs d) 6 AND NOT 1)),
      seq_reg := (seq_reg (regs d))(2 := (if mode = 0 then 0x0f else 0x03))\<rparr>"
  using read_gfx [OF assms, of 6 d] write_gfx [OF assms, of 6] write_seq [OF assms, of 2]
  by (auto simp: k_gfx_SetVgaGfxMode_def vga_consts split: prod.splits)

text \<open>The position that the controller shows its cursor at.\<close>

definition cursor_location :: "vga_regs \<Rightarrow> u16" where
  "cursor_location r = push_bit 8 (ucast (crt_reg r 0x0e)) OR ucast (crt_reg r 0x0f)"

lemma bytes_of_u16: "push_bit 8 (ucast (ucast (drop_bit 8 c AND 0xff) :: u8)) OR ucast (ucast (c AND 0xff) :: u8) = (c :: u16)"
proof -
  have m: "(0xff :: u16) = mask 8" by (simp add: mask_eq_exp_minus_1)
  have "bit (push_bit 8 (ucast (ucast (take_bit 8 (drop_bit 8 c)) :: u8)) OR ucast (ucast (take_bit 8 c) :: u8) :: u16) n \<longleftrightarrow> bit c n"
    if "n < 16" for n
    using that by (cases "n < 8") (auto simp: bit_or_iff bit_push_bit_iff bit_ucast_iff bit_take_bit_iff bit_drop_bit_eq)
  then show ?thesis unfolding m take_bit_eq_mask [symmetric] by (intro bit_word_eqI) simp
qed

lemma cursor_location_bytes:
  "cursor_location (r\<lparr>crt_index := i, crt_reg := f(0x0e := hi, 0x0f := lo)\<rparr>) = push_bit 8 (ucast hi) OR ucast lo"
  by (simp add: cursor_location_def)

lemma write_crt2:
  "vga_hardware io regs \<Longrightarrow> r1 < 25 \<Longrightarrow> r2 < 25 \<Longrightarrow>
   regs (k_gfx_WriteVgaCrtReg io r2 v2 (k_gfx_WriteVgaCrtReg io r1 v1 d)) =
   (regs d)\<lparr>crt_index := r2, crt_reg := (crt_reg (regs d))(r1 := v1, r2 := v2)\<rparr>"
  by (simp add: write_crt)

lemma set_cursor:
  assumes "vga_hardware io regs"
  shows "regs (k_gfx_SetVgaCursorPos_regs io x y g d) = (regs d)\<lparr>crt_index := 0x0f,
    crt_reg := (crt_reg (regs d))(0x0e := ucast (drop_bit 8 (ucast (x + y * k_gfx_vga_width g) :: u16) AND 0xff),
      0x0f := ucast ((ucast (x + y * k_gfx_vga_width g) :: u16) AND 0xff))\<rparr>"
  unfolding k_gfx_SetVgaCursorPos_regs_def Let_def K_GFX_VGA_CRT_REG_CURSOR_LOCL_def K_GFX_VGA_CRT_REG_CURSOR_LOCH_def
  by (rule write_crt2 [OF assms]) simp_all

text \<open>
  With the width that the terminal has, setting the cursor of the controller puts the position
  that the terminal model records into its two cursor location registers, high byte and low byte, whether
  the registers are at the monochrome or the colour address; no other register but the index changes.
\<close>

theorem vga_cursor_refines:
  assumes "vga_hardware io regs" "k_gfx_vga_width g = word_of_nat (vga_width t)"
  shows "\<exists>hi lo. regs (k_gfx_SetVgaCursorPos_regs io x y g d) =
      (regs d)\<lparr>crt_index := 0x0f, crt_reg := (crt_reg (regs d))(0x0e := hi, 0x0f := lo)\<rparr> \<and>
    cursor_location (regs (k_gfx_SetVgaCursorPos_regs io x y g d)) = vga_cursor (k_gfx_SetVgaCursorPos x y t)"
proof (intro exI conjI)
  show "regs (k_gfx_SetVgaCursorPos_regs io x y g d) = (regs d)\<lparr>crt_index := 0x0f, crt_reg := (crt_reg (regs d))
      (0x0e := ucast (drop_bit 8 (ucast (x + y * k_gfx_vga_width g) :: u16) AND 0xff),
       0x0f := ucast ((ucast (x + y * k_gfx_vga_width g) :: u16) AND 0xff))\<rparr>"
    by (rule set_cursor [OF assms(1)])
  show "cursor_location (regs (k_gfx_SetVgaCursorPos_regs io x y g d)) = vga_cursor (k_gfx_SetVgaCursorPos x y t)"
    unfolding set_cursor [OF assms(1)] cursor_location_bytes bytes_of_u16 k_gfx_SetVgaCursorPos_def assms(2) by simp
qed

text \<open>A controller of registers only.\<close>

definition vga_board :: "vga_regs port_io" where
  "vga_board = \<lparr>
     in_b = (\<lambda>port r. (if port = 0x3cf then gfx_reg r (gfx_index r) else if port = 0x3c5 then seq_reg r (seq_index r)
       else if port = crt_base r + 1 then crt_reg r (crt_index r) else if port = 0x3cc then misc_reg r else 0xff, r)),
     out_b = (\<lambda>v port r. if port = 0x3ce then r\<lparr>gfx_index := v\<rparr>
       else if port = 0x3cf then r\<lparr>gfx_reg := (gfx_reg r)(gfx_index r := v)\<rparr>
       else if port = 0x3c4 then r\<lparr>seq_index := v\<rparr>
       else if port = 0x3c5 then r\<lparr>seq_reg := (seq_reg r)(seq_index r := v)\<rparr>
       else if port = crt_base r then r\<lparr>crt_index := v\<rparr>
       else if port = crt_base r + 1 then r\<lparr>crt_reg := (crt_reg r)(crt_index r := v)\<rparr>
       else if port = 0x3c2 then r\<lparr>misc_reg := v\<rparr> else r)\<rparr>"

lemma vga_board_hardware: "vga_hardware vga_board id"
  by (simp add: vga_hardware_def vga_board_def crt_base_def)

definition board_regs :: vga_regs where
  "board_regs = \<lparr>gfx_index = 0, gfx_reg = (\<lambda>_. 0), seq_index = 0, seq_reg = (\<lambda>_. 0), crt_index = 0,
     crt_reg = (\<lambda>_. 0xaa), misc_reg = 1\<rparr>"

definition board_term :: terminal where
  "board_term = \<lparr>output_buffer = [], term_width = 80, term_height = 0, term_color = 0, cursor_x = 0, buffer_cursor_y = 0,
     display_cursor_y = 0, scroll_y = 0, vga_width = 80, vga_height = 25, vga_mem = [], vga_cursor = 0\<rparr>"

lemma vga_cursor_refines_witness:
  "cursor_location (k_gfx_SetVgaCursorPos_regs vga_board 5 4 \<lparr>k_gfx_vga_cur_mem_map = 0xa0000, k_gfx_vga_width = 80,
     k_gfx_vga_height = 25\<rparr> board_regs) = 325"
  using vga_cursor_refines [OF vga_board_hardware, of "\<lparr>k_gfx_vga_cur_mem_map = 0xa0000, k_gfx_vga_width = 80,
     k_gfx_vga_height = 25\<rparr>" board_term 5 4 board_regs]
  by (simp add: board_term_def k_gfx_SetVgaCursorPos_def)

text \<open>
  After the start of the driver the controller is in text mode with the first memory map, the other bits of
  the register are kept, and both colour planes of text can be written; the memory is mapped at its own
  address, and the text of the display fits in the page.
\<close>

lemma init_vga:
  assumes hw: "vga_hardware io regs" and run: "k_gfx_InitVga io (g, d) mm = Some ((g', d'), mm')"
  shows "gfx_reg (regs d') 6 = gfx_reg (regs d) 6 AND NOT 0x0d" "seq_reg (regs d') 2 = 3"
    "k_gfx_vga_cur_mem_map g' = 0xa0000" "k_gfx_vga_width g' = 80" "k_gfx_vga_height g' = 25"
    "\<exists>status. k_mem_MapLinearAddress mm 0xa0000 0xa0000 6 = Some (status, mm')"
    "2 * unat (k_gfx_vga_width g') * unat (k_gfx_vga_height g') \<le> 4096"
proof -
  let ?g = "g\<lparr>k_gfx_vga_width := 80, k_gfx_vga_height := 25\<rparr>"
  obtain g1 d1 where 1: "k_gfx_SetVgaMemMap io K_GFX_VGA_MEM_MAP0 (?g, d) = (g1, d1)" by fastforce
  have g1: "g1 = ?g\<lparr>k_gfx_vga_cur_mem_map := 0xa0000\<rparr>"
    using set_mem_map(1) [OF hw, of 0 ?g d] 1 by (simp add: vga_consts k_gfx_vga_mem_maps_def)
  have d1: "gfx_reg (regs d1) 6 = gfx_reg (regs d) 6 AND NOT 0x0c"
    using set_mem_map(2) [OF hw, of 0 ?g d] 1 by (simp add: vga_consts)
  have r: "g' = g1" "d' = k_gfx_SetVgaGfxMode io 1 d1" "\<exists>status. k_mem_MapLinearAddress mm 0xa0000 0xa0000 6 = Some (status, mm')"
    using run 1 g1 by (auto simp: k_gfx_InitVga_def vga_consts Let_def bind_eq_Some_conv split: prod.splits)
  show "gfx_reg (regs d') 6 = gfx_reg (regs d) 6 AND NOT 0x0d" "seq_reg (regs d') 2 = 3"
    using set_gfx_mode [OF hw, of 1 d1] r(2) d1 by (simp_all add: and.assoc)
  show "k_gfx_vga_cur_mem_map g' = 0xa0000" "k_gfx_vga_width g' = 80" "k_gfx_vga_height g' = 25"
    "2 * unat (k_gfx_vga_width g') * unat (k_gfx_vga_height g') \<le> 4096" using r(1) g1 by simp_all
  show "\<exists>status. k_mem_MapLinearAddress mm 0xa0000 0xa0000 6 = Some (status, mm')" by (rule r(3))
qed

end
