(* ===== verification/Rt_Atomic.thy ===== *)
theory Rt_Atomic
  imports Rt_Lock
begin

text \<open>
  The other atomic operations of \<open>kernel/rt/atm_a.asm\<close>. Memory is a map from addresses to dwords, so that
  the location of a result may be the operand itself; a null address for the old value is skipped where the
  code tests for it and a fault elsewhere. An operation that loads its location and exchanges it later is
  given what others have left there in between. The lemmas show that each is its
  arithmetic on the value at its successful exchange.
\<close>

definition store32 :: "nat \<Rightarrow> u32 \<Rightarrow> (nat \<Rightarrow> u32) \<Rightarrow> (nat \<Rightarrow> u32) option" where
  "store32 a v m = (if a = 0 then None else Some (m(a := v)))"

definition load32 :: "nat \<Rightarrow> (nat \<Rightarrow> u32) \<Rightarrow> u32 option" where
  "load32 a m = (if a = 0 then None else Some (m a))"

section \<open>Single instructions\<close>

definition k_rt_Xchg32 :: "nat \<Rightarrow> u32 \<Rightarrow> nat \<Rightarrow> (nat \<Rightarrow> u32) \<Rightarrow> (nat \<Rightarrow> u32) option" where
  "k_rt_Xchg32 location new old m = do {
     v \<leftarrow> load32 location m;
     m \<leftarrow> store32 location new m;
     store32 old v m
   }"

definition k_rt_CmpXchg :: "nat \<Rightarrow> u32 \<Rightarrow> u32 \<Rightarrow> nat \<Rightarrow> (nat \<Rightarrow> u32) \<Rightarrow> (bool \<times> (nat \<Rightarrow> u32)) option" where
  "k_rt_CmpXchg location cmp new old m = do {
     v \<leftarrow> load32 location m;
     let (r, eax, v) = k_rt_CmpXchg32 v cmp new;
     m \<leftarrow> store32 location v m;
     m \<leftarrow> (if old = 0 then Some m else store32 old eax m);
     Some (r, m)
   }"

text \<open>The byte variant compares the low byte of \<open>cmp\<close> only.\<close>

definition k_rt_CmpXchg8 :: "nat \<Rightarrow> u32 \<Rightarrow> u32 \<Rightarrow> nat \<Rightarrow> (nat \<Rightarrow> u8) \<Rightarrow> (bool \<times> (nat \<Rightarrow> u8)) option" where
  "k_rt_CmpXchg8 location cmp new old m =
     (if location = 0 then None
      else let al = (if m location = ucast cmp then ucast cmp else m location);
          r = (m location = ucast cmp);
          m = (if r then m(location := ucast new) else m)
        in Some (r, if old = 0 then m else m(old := al)))"

definition k_rt_Inc32Wrap :: "nat \<Rightarrow> (nat \<Rightarrow> u32) \<Rightarrow> (nat \<Rightarrow> u32) option" where
  "k_rt_Inc32Wrap location m = do { v \<leftarrow> load32 location m; store32 location (v + 1) m }"

definition k_rt_Dec32Wrap :: "nat \<Rightarrow> (nat \<Rightarrow> u32) \<Rightarrow> (nat \<Rightarrow> u32) option" where
  "k_rt_Dec32Wrap location m = do { v \<leftarrow> load32 location m; store32 location (v + 0xffffffff) m }"

section \<open>Load and exchange\<close>

text \<open>
  \<open>k_rt_Inc32Clamp\<close> and \<open>k_rt_Dec32Clamp\<close> load the location once and try one exchange; \<open>between\<close> is what others
  do to memory before it. The result is \<open>ecx\<close>: zero at the limit, otherwise whether the exchange was made.
\<close>

definition clamp32 :: "u32 \<Rightarrow> nat \<Rightarrow> u32 \<Rightarrow> nat \<Rightarrow> ((nat \<Rightarrow> u32) \<Rightarrow> (nat \<Rightarrow> u32)) \<Rightarrow> (nat \<Rightarrow> u32) \<Rightarrow> (u32 \<times> (nat \<Rightarrow> u32)) option" where
  "clamp32 delta location limit old between m = do {
     eax \<leftarrow> load32 location m;
     let ecx = limit XOR eax;
     (ecx, eax, m) \<leftarrow> (if ecx = 0 then Some (ecx, eax, m)
       else do {
         let m = between m;
         v \<leftarrow> load32 location m;
         let (r, eax, v) = k_rt_CmpXchg32 v eax (eax + delta);
         m \<leftarrow> store32 location v m;
         Some (of_bool r, eax, m)
       });
     m \<leftarrow> store32 old eax m;
     Some (ecx, m)
   }"

definition k_rt_Inc32Clamp :: "nat \<Rightarrow> u32 \<Rightarrow> nat \<Rightarrow> ((nat \<Rightarrow> u32) \<Rightarrow> (nat \<Rightarrow> u32)) \<Rightarrow> (nat \<Rightarrow> u32) \<Rightarrow> (u32 \<times> (nat \<Rightarrow> u32)) option" where
  "k_rt_Inc32Clamp location mx old between m = clamp32 1 location mx old between m"

definition k_rt_Dec32Clamp :: "nat \<Rightarrow> u32 \<Rightarrow> nat \<Rightarrow> ((nat \<Rightarrow> u32) \<Rightarrow> (nat \<Rightarrow> u32)) \<Rightarrow> (nat \<Rightarrow> u32) \<Rightarrow> (u32 \<times> (nat \<Rightarrow> u32)) option" where
  "k_rt_Dec32Clamp location mn old between m = clamp32 (- 1) location mn old between m"

text \<open>
  The loops of \<open>k_rt_AtomicOr32\<close> and \<open>k_rt_AtomicAnd32\<close>: \<open>ws\<close> are the values that others leave at the location
  before each exchange; when there are no more the location keeps the value \<open>w\<close> it has. The result is
  the value at the successful exchange and the value stored.
\<close>

fun exchange_loop :: "(u32 \<Rightarrow> u32) \<Rightarrow> u32 list \<Rightarrow> u32 \<Rightarrow> u32 \<Rightarrow> u32 \<times> u32" where
  "exchange_loop f [] w eax =
     (case k_rt_CmpXchg32 w eax (f eax) of (True, _, v) \<Rightarrow> (w, v)
      | (False, seen, _) \<Rightarrow> (case k_rt_CmpXchg32 w seen (f seen) of (_, _, v) \<Rightarrow> (w, v)))"
| "exchange_loop f (w # ws) w0 eax =
     (case k_rt_CmpXchg32 w eax (f eax) of (True, _, v) \<Rightarrow> (w, v)
      | (False, seen, _) \<Rightarrow> exchange_loop f ws w seen)"

definition k_rt_AtomicOr32 :: "u32 list \<Rightarrow> u32 \<Rightarrow> u32 \<Rightarrow> u32 \<times> u32" where
  "k_rt_AtomicOr32 ws location operand = exchange_loop (\<lambda>eax. eax OR operand) ws location location"

definition k_rt_AtomicAnd32 :: "u32 list \<Rightarrow> u32 \<Rightarrow> u32 \<Rightarrow> u32 \<times> u32" where
  "k_rt_AtomicAnd32 ws location operand = exchange_loop (\<lambda>eax. eax AND operand) ws location location"

section \<open>What they do\<close>

lemma xor_zero_iff: "(a :: u32) XOR b = 0 \<longleftrightarrow> a = b"
  by (auto simp: bit_eq_iff bit_xor_iff)

lemma exchange_loop_atomic:
  "exchange_loop f ws w eax = (x, y) \<Longrightarrow> y = f x \<and> x \<in> set (w # ws)"
proof (induction ws arbitrary: w eax)
  case Nil
  then show ?case by (auto simp: k_rt_CmpXchg32_def split: if_splits)
next
  case (Cons a ws)
  then show ?case by (auto simp: k_rt_CmpXchg32_def split: if_splits)
qed

lemma k_rt_AtomicOr32_atomic:
  "k_rt_AtomicOr32 ws w operand = (x, y) \<Longrightarrow> y = x OR operand \<and> x \<in> set (w # ws)"
  unfolding k_rt_AtomicOr32_def by (rule exchange_loop_atomic)

lemma k_rt_AtomicAnd32_atomic:
  "k_rt_AtomicAnd32 ws w operand = (x, y) \<Longrightarrow> y = x AND operand \<and> x \<in> set (w # ws)"
  unfolding k_rt_AtomicAnd32_def by (rule exchange_loop_atomic)

text \<open>A counter that only these operations change stays within its limits, and the result says whether it moved.\<close>

lemma k_rt_Inc32Clamp_alone:
  assumes "0 < location" "0 < old" "location \<noteq> old"
  shows "k_rt_Inc32Clamp location mx old id m =
    Some (if m location = mx then (0, m(old := m location))
      else (1, m(location := m location + 1, old := m location)))"
  using assms by (auto simp: k_rt_Inc32Clamp_def clamp32_def load32_def store32_def k_rt_CmpXchg32_def Let_def xor_zero_iff)

lemma k_rt_Dec32Clamp_alone:
  assumes "0 < location" "0 < old" "location \<noteq> old"
  shows "k_rt_Dec32Clamp location mn old id m =
    Some (if m location = mn then (0, m(old := m location))
      else (1, m(location := m location - 1, old := m location)))"
  using assms by (auto simp: k_rt_Dec32Clamp_def clamp32_def load32_def store32_def k_rt_CmpXchg32_def Let_def xor_zero_iff)

text \<open>
  With interference the exchange is made only if the location still holds the value that was compared with the
  limit, and the old value reported is the one that was there at the exchange.
\<close>

lemma k_rt_Inc32Clamp_interference:
  assumes "0 < location" "0 < old" "location \<noteq> old" "m location \<noteq> mx"
  shows "k_rt_Inc32Clamp location mx old between m =
    Some (if between m location = m location
      then (1, (between m)(location := m location + 1, old := m location))
      else (0, (between m)(old := between m location)))"
  using assms by (simp add: k_rt_Inc32Clamp_def clamp32_def load32_def store32_def k_rt_CmpXchg32_def Let_def xor_zero_iff)

text \<open>An exchange reports what it replaced, also onto itself.\<close>

lemma k_rt_Xchg32_swap:
  "0 < location \<Longrightarrow> 0 < old \<Longrightarrow> k_rt_Xchg32 location new old m = Some (m(location := new, old := m location))"
  by (simp add: k_rt_Xchg32_def load32_def store32_def)

lemma inc_dec_wrap:
  "0 < location \<Longrightarrow> Option.bind (k_rt_Inc32Wrap location m) (k_rt_Dec32Wrap location) = Some m"
proof -
  have "(0xffffffff :: u32) = - 1" by simp
  moreover assume "0 < location"
  ultimately show ?thesis unfolding k_rt_Inc32Wrap_def k_rt_Dec32Wrap_def by (simp only: load32_def store32_def) simp
qed

lemma k_rt_CmpXchg_alone:
  "0 < location \<Longrightarrow> k_rt_CmpXchg location cmp new 0 m =
     Some (m location = cmp, if m location = cmp then m(location := new) else m)"
  by (simp add: k_rt_CmpXchg_def k_rt_CmpXchg32_def load32_def store32_def Let_def)

section \<open>Locks and the interrupt flag\<close>

text \<open>
  \<open>k_rt_TrySpinLockCritical\<close> with the value it loaded, the word at its exchange: whether the lock was taken, the
  word afterwards, and whether interrupts are enabled on return. Interrupts are off at the exchange, and the
  branch over \<open>sti\<close> is taken when the result is zero. The unlock of the critical variant leaves the flag alone.
\<close>

definition k_rt_TrySpinLockCritical :: "u32 \<Rightarrow> u32 \<Rightarrow> bool \<times> u32 \<times> bool" where
  "k_rt_TrySpinLockCritical eax w = (case lock_exchange w eax of (r, _, w) \<Rightarrow>
     let interrupts = False in (r, w, if \<not> r then interrupts else True))"

definition k_rt_SpinUnlockCritical :: "u32 \<Rightarrow> u32" where
  "k_rt_SpinUnlockCritical eax = eax AND 0xfffffffe"

lemma try_critical_flag_inverted:
  "k_rt_TrySpinLockCritical eax w = (r, w', interrupts) \<Longrightarrow> interrupts \<longleftrightarrow> r"
  by (auto simp: k_rt_TrySpinLockCritical_def Let_def split: prod.splits if_splits)

lemma try_critical_takes: "\<not> bit w 0 \<Longrightarrow> k_rt_TrySpinLockCritical w w = (True, w + 1, True)"
proof -
  assume 0: "\<not> bit w 0"
  have m: "(0xfffffffe :: u32) = NOT 1" by simp
  have "w AND 0xfffffffe = w"
    unfolding m by (rule bit_word_eqI) (use 0 in \<open>auto simp: bit_simps intro: ccontr\<close>)
  then show ?thesis by (simp add: k_rt_TrySpinLockCritical_def lock_exchange_def k_rt_CmpXchg32_def Let_def)
qed

lemma unlock_critical: "k_rt_SpinUnlockCritical = unlock_value"
  by (simp add: fun_eq_iff k_rt_SpinUnlockCritical_def unlock_value_def)

end
