(* ===== verification/Rt_ObjList.thy ===== *)
theory Rt_ObjList
  imports Prelude
begin

text \<open>
  Lists of objects with an index: \<open>rt/objlist.c\<close>. The objects lie in buffers of equal size; freed indices
  are kept on a stack, or in the objects themselves when their contents need not be preserved. The two share a
  word: \<open>free_word\<close> is the top of the stack or the address of the first free object. What \<open>k_rt_Malloc\<close> returns
  and what a new stack holds are arguments. The lemmas show that the indices given out
  are distinct and in range, and that the last one freed comes back first. Counts do not wrap: there is not as
  much memory as that.
\<close>

record k_rt_objlist_t =
  ol_heap :: nat
  ol_elem_size :: nat
  ol_buffer_size :: nat
  ol_buffer_count :: nat
  ol_cursor :: nat
  ol_used :: nat
  ol_buffers :: "nat list option"
  preserve_free :: bool
  free_word :: nat
  free_stack :: "nat list option"

text \<open>The fields of \<open>struct k_rt_free_obj_t\<close> at an address.\<close>

record objlist_mem =
  free_obj_next :: "nat \<Rightarrow> nat"
  free_obj_index :: "nat \<Rightarrow> nat"

definition sizeof_objlist :: nat where "sizeof_objlist = 40"
definition NO_INDEX :: nat where "NO_INDEX = 0xffffffff"

text \<open>
  What the heap gives to \<open>k_rt_AddObjListBuffer\<close>: the addresses of the new buffers and the contents of the
  new stack of free indices.
\<close>

record objlist_heap =
  new_buffers :: "nat list"
  new_stack :: "nat \<Rightarrow> nat"

definition k_rt_AddObjListBuffer :: "objlist_heap \<Rightarrow> nat \<Rightarrow> k_rt_objlist_t \<Rightarrow> k_rt_objlist_t option" where
  "k_rt_AddObjListBuffer hp buffer_count l =
     (if buffer_count = 0 then Some l
      else if length (new_buffers hp) \<noteq> buffer_count then None
      else let new_buffer_count = ol_buffer_count l + buffer_count;
          old = (case ol_buffers l of None \<Rightarrow> [] | Some bs \<Rightarrow> bs);
          l = l\<lparr>ol_buffers := Some (take (ol_buffer_count l) old @ new_buffers hp)\<rparr>;
          l = (if preserve_free l
            then l\<lparr>free_stack := Some (map (new_stack hp) [0..<new_buffer_count * ol_buffer_size l])\<rparr> else l)
        in Some (l\<lparr>ol_buffer_count := new_buffer_count\<rparr>))"

text \<open>All fields are zero before they are set, so that a list of bad parameters has no buffers.\<close>

definition k_rt_CreateObjList :: "objlist_heap \<Rightarrow> nat \<Rightarrow> nat \<Rightarrow> nat \<Rightarrow> bool \<Rightarrow> k_rt_objlist_t option" where
  "k_rt_CreateObjList hp elem_size buffer_size heap preserve =
     (let l = \<lparr>ol_heap = 0, ol_elem_size = 0, ol_buffer_size = 0, ol_buffer_count = 0, ol_cursor = 0, ol_used = 0, ol_buffers = None,
        preserve_free = False, free_word = 0, free_stack = None\<rparr>
      in if elem_size \<noteq> 0 \<and> buffer_size \<noteq> 0 \<and> heap \<noteq> 0
        then let elem_size = (if \<not> preserve \<and> elem_size < sizeof_objlist then sizeof_objlist else elem_size);
            l = (if preserve then l\<lparr>free_word := NO_INDEX\<rparr> else l)
          in k_rt_AddObjListBuffer hp 1 (l\<lparr>ol_heap := heap, ol_elem_size := elem_size, ol_buffer_size := buffer_size, preserve_free := preserve\<rparr>)
        else Some l)"

definition k_rt_GetObjListElement :: "k_rt_objlist_t option \<Rightarrow> nat \<Rightarrow> nat option" where
  "k_rt_GetObjListElement list index = (case list of None \<Rightarrow> Some 0
     | Some l \<Rightarrow> (case ol_buffers l of None \<Rightarrow> Some 0
        | Some bs \<Rightarrow> if index < ol_cursor l then do {
              buffer \<leftarrow> (if ol_buffer_size l = 0 then None else rd bs (index div ol_buffer_size l));
              Some (buffer + (index mod ol_buffer_size l) * ol_elem_size l)
            }
            else Some 0))"

definition k_rt_AllocObjListElement ::
    "objlist_heap \<Rightarrow> objlist_mem \<Rightarrow> k_rt_objlist_t option \<Rightarrow> (nat \<times> k_rt_objlist_t option) option" where
  "k_rt_AllocObjListElement hp m list = (case list of None \<Rightarrow> Some (NO_INDEX, None)
     | Some l \<Rightarrow> if ol_buffers l = None then Some (NO_INDEX, Some l)
        else do {
          (index, l) \<leftarrow> (if preserve_free l \<and> free_word l \<noteq> NO_INDEX then do {
              stack \<leftarrow> free_stack l;
              index \<leftarrow> rd stack (free_word l);
              Some (index, l\<lparr>free_word := sub32 (free_word l) 1\<rparr>)
            }
            else if \<not> preserve_free l \<and> free_word l \<noteq> 0 then
              Some (free_obj_index m (free_word l), l\<lparr>free_word := free_obj_next m (free_word l)\<rparr>)
            else do {
              let index = ol_cursor l;
              let l = l\<lparr>ol_cursor := ol_cursor l + 1\<rparr>;
              l \<leftarrow> (if ol_cursor l = ol_buffer_size l * ol_buffer_count l then k_rt_AddObjListBuffer hp 1 l else Some l);
              Some (index, l)
            });
          Some (index, Some (l\<lparr>ol_used := ol_used l + 1\<rparr>))
        })"

definition k_rt_FreeObjListElement ::
    "nat \<Rightarrow> objlist_mem \<Rightarrow> k_rt_objlist_t option \<Rightarrow> (objlist_mem \<times> k_rt_objlist_t option) option" where
  "k_rt_FreeObjListElement index m list = do {
     element \<leftarrow> k_rt_GetObjListElement list index;
     case list of None \<Rightarrow> Some (m, None)
     | Some l \<Rightarrow>
       if element = 0 then Some (m, Some l)
       else do {
         (m, l) \<leftarrow> (if preserve_free l then do {
             let top = (free_word l + 1) mod 2 ^ 32;
             stack \<leftarrow> free_stack l;
             stack \<leftarrow> wr stack top index;
             Some (m, l\<lparr>free_word := top, free_stack := Some stack\<rparr>)
           }
           else Some (m\<lparr>free_obj_index := (free_obj_index m)(element := index), free_obj_next := (free_obj_next m)(element := free_word l)\<rparr>,
             l\<lparr>free_word := element\<rparr>));
         Some (m, Some (l\<lparr>ol_used := sub32 (ol_used l) 1\<rparr>))
       }
   }"

text \<open>The buffers that \<open>k_rtl_DestroyObjList\<close> returns to the heap, in order; the arrays go back with them.\<close>

definition k_rtl_DestroyObjList :: "k_rt_objlist_t option \<Rightarrow> (nat list \<times> k_rt_objlist_t option) option" where
  "k_rtl_DestroyObjList list = (case list of None \<Rightarrow> Some ([], None)
     | Some l \<Rightarrow> (case ol_buffers l of None \<Rightarrow> Some ([], Some l)
        | Some bs \<Rightarrow> if length bs < ol_buffer_count l then None
            else Some (take (ol_buffer_count l) bs, Some (l\<lparr>preserve_free := False, ol_buffers := None, ol_buffer_size := 0,
              ol_buffer_count := 0, ol_cursor := 0, ol_used := 0, ol_elem_size := 0\<rparr>))))"

section \<open>Indices\<close>

text \<open>A list that preserves its objects; \<open>free\<close> are the freed indices, the last one first.\<close>

definition objlist_ok :: "nat list \<Rightarrow> k_rt_objlist_t \<Rightarrow> bool" where
  "objlist_ok free l \<longleftrightarrow> preserve_free l \<and> 0 < ol_buffer_size l \<and>
     (\<exists>bs st. ol_buffers l = Some bs \<and> length bs = ol_buffer_count l \<and> 0 \<notin> set bs \<and>
        free_stack l = Some st \<and> length st = ol_buffer_count l * ol_buffer_size l \<and>
        take (length free) st = rev free) \<and>
     ol_cursor l < ol_buffer_count l * ol_buffer_size l \<and> ol_buffer_count l * ol_buffer_size l < NO_INDEX \<and>
     free_word l = (if free = [] then NO_INDEX else length free - 1) \<and>
     distinct free \<and> set free \<subseteq> {..<ol_cursor l} \<and> ol_used l + length free = ol_cursor l"

definition live :: "nat list \<Rightarrow> k_rt_objlist_t \<Rightarrow> nat set" where
  "live free l = {..<ol_cursor l} - set free"

lemma create_objlist_ok:
  assumes "0 < elem_size" "1 < buffer_size" "buffer_size < NO_INDEX" "0 < heap" "new_buffers hp = [b]" "0 < b"
  shows "\<exists>l. k_rt_CreateObjList hp elem_size buffer_size heap True = Some l \<and> objlist_ok [] l \<and> live [] l = {}"
  using assms by (simp add: k_rt_CreateObjList_def k_rt_AddObjListBuffer_def objlist_ok_def live_def Let_def)

lemma free_length_le: "distinct free \<Longrightarrow> set free \<subseteq> {..<n} \<Longrightarrow> length free \<le> n"
  by (metis card_lessThan card_mono distinct_card finite_lessThan)

lemma alloc_objlist_ok:
  assumes ok: "objlist_ok free l" and hp: "new_buffers hp = [b]" "0 < b"
    and room: "(ol_buffer_count l + 1) * ol_buffer_size l < NO_INDEX"
  shows "\<exists>i l'. k_rt_AllocObjListElement hp m (Some l) = Some (i, Some l') \<and> i \<notin> live free l \<and>
    objlist_ok (tl free) l' \<and> live (tl free) l' = insert i (live free l) \<and>
    i = (case free of [] \<Rightarrow> ol_cursor l | j # _ \<Rightarrow> j)"
proof -
  obtain bs st where l: "preserve_free l" "ol_buffers l = Some bs" "length bs = ol_buffer_count l" "0 \<notin> set bs"
      "free_stack l = Some st" "length st = ol_buffer_count l * ol_buffer_size l" "take (length free) st = rev free"
      "distinct free" "set free \<subseteq> {..<ol_cursor l}" "ol_used l + length free = ol_cursor l"
      "free_word l = (if free = [] then NO_INDEX else length free - 1)"
      "ol_cursor l < ol_buffer_count l * ol_buffer_size l" "ol_buffer_count l * ol_buffer_size l < NO_INDEX" "0 < ol_buffer_size l"
    using ok by (auto simp: objlist_ok_def)
  show ?thesis
  proof (cases free)
    case (Cons i rest)
    have len: "length free < NO_INDEX" using free_length_le [OF l(8,9)] l(12,13) by linarith
    have w: "free_word l = length rest" "free_word l \<noteq> NO_INDEX" using l(11) Cons len by auto
    have n: "length rest < length st" using free_length_le [OF l(8,9)] Cons l(6,12) by simp
    have t: "take (Suc (length rest)) st = rev rest @ [i]" using l(7) Cons by simp
    have "st ! length rest = take (Suc (length rest)) st ! length rest" using n by simp
    also have "\<dots> = i" unfolding t by (simp add: nth_append)
    finally have s: "st ! length rest = i" .
    have "take (length rest) st = take (length rest) (take (Suc (length rest)) st)" by (simp add: min_def)
    also have "\<dots> = rev rest" unfolding t by simp
    finally have t': "take (length rest) st = rev rest" .
    let ?l = "l\<lparr>free_word := sub32 (length rest) 1, ol_used := ol_used l + 1\<rparr>"
    have "sub32 (length rest) 1 = (if rest = [] then NO_INDEX else length rest - 1)"
    proof (cases rest)
      case (Cons c cs)
      then have "length rest < 2 ^ 32" using len \<open>free = i # rest\<close> by (simp add: NO_INDEX_def)
      then show ?thesis using Cons by (simp add: sub32_le)
    qed (simp add: sub32_def NO_INDEX_def)
    then have "objlist_ok rest ?l" using l Cons t' by (auto simp: objlist_ok_def)
    moreover have "k_rt_AllocObjListElement hp m (Some l) = Some (i, Some ?l)"
      using l(1,2,5) w n s by (simp add: k_rt_AllocObjListElement_def rd_def)
    moreover have "live rest ?l = insert i (live free l)" "i \<notin> live free l" using l(8,9) Cons by (auto simp: live_def)
    ultimately show ?thesis using Cons by auto
  next
    case Nil
    then have w: "free_word l = NO_INDEX" using l(11) by simp
    have lv: "live [] (l\<lparr>ol_cursor := ol_cursor l + 1, ol_used := k\<rparr>) = insert (ol_cursor l) (live free l)" for k
      unfolding live_def Nil by auto
    show ?thesis
    proof (cases "ol_cursor l + 1 = ol_buffer_size l * ol_buffer_count l")
      case False
      let ?l = "l\<lparr>ol_cursor := ol_cursor l + 1, ol_used := ol_used l + 1\<rparr>"
      have "k_rt_AllocObjListElement hp m (Some l) = Some (ol_cursor l, Some ?l)"
        using l(1,2) w False by (simp add: k_rt_AllocObjListElement_def Let_def)
      moreover have "objlist_ok [] ?l" using l Nil False by (auto simp: objlist_ok_def mult.commute)
      ultimately show ?thesis using Nil lv [of "ol_used l + 1"] by (auto simp: live_def)
    next
      case True
      let ?l = "l\<lparr>ol_cursor := ol_cursor l + 1, ol_buffers := Some (bs @ [b]),
        free_stack := Some (map (new_stack hp) [0..<(ol_buffer_count l + 1) * ol_buffer_size l]),
        ol_buffer_count := ol_buffer_count l + 1, ol_used := ol_used l + 1\<rparr>"
      have "k_rt_AllocObjListElement hp m (Some l) = Some (ol_cursor l, Some ?l)"
        using l(1-3) w True hp by (simp add: k_rt_AllocObjListElement_def k_rt_AddObjListBuffer_def Let_def)
      moreover have "objlist_ok [] ?l" using l Nil True hp room by (simp add: objlist_ok_def mult.commute)
      moreover have "live [] ?l = insert (ol_cursor l) (live free l)" unfolding live_def Nil by auto
      ultimately show ?thesis using Nil by (auto simp: live_def)
    qed
  qed
qed

lemma element_address:
  assumes ok: "objlist_ok free l" and i: "i < ol_cursor l"
  shows "\<exists>bs. ol_buffers l = Some bs \<and> k_rt_GetObjListElement (Some l) i =
    Some (bs ! (i div ol_buffer_size l) + (i mod ol_buffer_size l) * ol_elem_size l) \<and> 0 < bs ! (i div ol_buffer_size l)"
proof -
  obtain bs where l: "ol_buffers l = Some bs" "length bs = ol_buffer_count l" "0 \<notin> set bs"
      "ol_cursor l < ol_buffer_count l * ol_buffer_size l" "0 < ol_buffer_size l"
    using ok by (auto simp: objlist_ok_def)
  have d: "i div ol_buffer_size l < length bs"
    using l i by (simp add: less_mult_imp_div_less)
  then have "bs ! (i div ol_buffer_size l) \<noteq> 0" using l(3) by (metis nth_mem)
  then show ?thesis using l i d by (simp add: k_rt_GetObjListElement_def rd_def)
qed

lemma free_objlist_ok:
  assumes ok: "objlist_ok free l" and i: "i \<in> live free l"
  shows "\<exists>l'. k_rt_FreeObjListElement i m (Some l) = Some (m, Some l') \<and> objlist_ok (i # free) l' \<and>
    live (i # free) l' = live free l - {i}"
proof -
  obtain bs st where l: "preserve_free l" "ol_buffers l = Some bs" "length bs = ol_buffer_count l" "0 \<notin> set bs"
      "free_stack l = Some st" "length st = ol_buffer_count l * ol_buffer_size l" "take (length free) st = rev free"
      "distinct free" "set free \<subseteq> {..<ol_cursor l}" "ol_used l + length free = ol_cursor l"
      "free_word l = (if free = [] then NO_INDEX else length free - 1)"
      "ol_cursor l < ol_buffer_count l * ol_buffer_size l" "ol_buffer_count l * ol_buffer_size l < NO_INDEX" "0 < ol_buffer_size l"
    using ok by (auto simp: objlist_ok_def)
  have i': "i < ol_cursor l" "i \<notin> set free" using i by (auto simp: live_def)
  obtain a where a: "k_rt_GetObjListElement (Some l) i = Some a" "0 < a" using element_address [OF ok i'(1)] by auto
  have le: "length (i # free) \<le> ol_cursor l" using free_length_le [of "i # free" "ol_cursor l"] l(8,9) i' by auto
  then have u: "0 < ol_used l" "ol_used l < 2 ^ 32" using l(10,12,13) by (auto simp: NO_INDEX_def)
  have top: "(free_word l + 1) mod 2 ^ 32 = length free"
    using l(11,12,13) le by (auto simp: NO_INDEX_def)
  let ?l = "l\<lparr>free_word := length free, free_stack := Some (st[length free := i]), ol_used := ol_used l - 1\<rparr>"
  have "k_rt_FreeObjListElement i m (Some l) = Some (m, Some ?l)"
    using a l(1,5,6,12) le top u by (simp add: k_rt_FreeObjListElement_def wr_def Let_def sub32_le)
  moreover have "take (length (i # free)) (st[length free := i]) = rev (i # free)"
    using l(6,7,12) le by (simp add: take_Suc_conv_app_nth)
  then have "objlist_ok (i # free) ?l" using l i' u by (auto simp: objlist_ok_def)
  moreover have "live (i # free) ?l = live free l - {i}" by (auto simp: live_def)
  ultimately show ?thesis by blast
qed

text \<open>Adding a buffer while indices are free replaces the stack: they are taken from memory that was never written.\<close>

lemma add_buffer_forgets:
  assumes "objlist_ok free l" "free \<noteq> []" "new_buffers hp = [b]"
  shows "\<exists>l' i. k_rt_AddObjListBuffer hp 1 l = Some l' \<and>
    k_rt_AllocObjListElement hp' m (Some l') = Some (new_stack hp (length free - 1), i)"
proof -
  have "length free - 1 < (ol_buffer_count l + 1) * ol_buffer_size l" "length free - 1 \<noteq> NO_INDEX"
    using assms(1) free_length_le [of free "ol_cursor l"] by (auto simp: objlist_ok_def)
  then show ?thesis
    using assms by (auto simp: k_rt_AddObjListBuffer_def k_rt_AllocObjListElement_def objlist_ok_def rd_def Let_def)
qed

text \<open>Without preserved contents the last object freed is the next one given out.\<close>

lemma free_alloc_intrusive:
  assumes "\<not> preserve_free l" "k_rt_GetObjListElement (Some l) i = Some a" "0 < a"
  shows "\<exists>m' l'. k_rt_FreeObjListElement i m (Some l) = Some (m', Some l') \<and>
    (\<exists>l''. k_rt_AllocObjListElement hp m' (Some l') = Some (i, Some l'') \<and> free_word l'' = free_word l)"
  using assms by (auto simp: k_rt_FreeObjListElement_def k_rt_AllocObjListElement_def k_rt_GetObjListElement_def split: option.splits)

end
