(* ===== verification/Sys_Crash.thy ===== *)
theory Sys_Crash
  imports K_String Sys_Term
begin

text \<open>
  The crash screen: \<open>k_sys_HaltAndCatchFire\<close> of \<open>sys/sys.c\<close>, which prints what happened and then
  burns the screen down for ever, \<open>k_sys_TerminalPrintf\<close> of \<open>sys/term.c\<close>, which it prints with, and the
  generator of \<open>k_rng.c\<close>, which feeds the fire. The fire is a step on the heat of the cells, the video
  memory and the generator. The lemmas show that it never leaves its buffers and never goes out, and
  which page faults have a message.
\<close>

section \<open>The generator\<close>

definition k_rng_Rand :: "u32 \<Rightarrow> u32" where
  "k_rng_Rand seed = (
     let v = seed;
       v = v XOR push_bit 13 v;
       v = v XOR drop_bit 17 v
     in v XOR push_bit 5 v)"

section \<open>Messages\<close>

definition k_sys_exception_codes :: "string option list" where
  "k_sys_exception_codes = [None, Some ''GENERAL PROTECTION FAULT'', Some ''DIVIDE ERROR FAULT'', Some ''PAGE FAULT'',
     Some ''INVALID OPCODE EXCEPTION'', Some ''FAILED MEMORY ALLOCATION'', Some ''UNKNOWN EXCEPTION'']"

definition K_EXCEPTION_GENERAL_PROTECTION_FAULT :: nat where "K_EXCEPTION_GENERAL_PROTECTION_FAULT = 1"
definition K_EXCEPTION_PAGE_FAULT :: nat where "K_EXCEPTION_PAGE_FAULT = 3"

text \<open>The messages of page faults, at the error codes of the processor: bit 0 present, 1 write, 2 user, 4 fetch.\<close>

definition k_sys_pf_messages :: "string option list" where
  "k_sys_pf_messages = (replicate 22 None) [
     0 := Some ''KERNEL-MODE READ ATTEMPT'',
     16 := Some ''KERNEL-MODE INSTRUCTION FETCH ATTEMPT'',
     1 := Some ''KERNEL-MODE READ PAGE-LEVEL PROTECTION VIOLATION'',
     17 := Some ''KERNEL-MODE INSTRUCTION FETCH PAGE-LEVEL PROTECTION VIOLATION'',
     2 := Some ''KERNEL-MODE WRITE ATTEMPT'',
     3 := Some ''KERNEL-MODE WRITE ATTEMPT PAGE-LEVEL PROTECTION VIOLATION'',
     4 := Some ''USER-MODE READ ATTEMPT'',
     20 := Some ''USER-MODE INSTRUCTION FETCH ATTEMPT'',
     5 := Some ''USER-MODE READ PAGE-LEVEL PROTECTION VIOLATION'',
     21 := Some ''USER-MODE INSTRUCTION FETCH PAGE-LEVEL PROTECTION VIOLATION'',
     6 := Some ''USER-MODE WRITE ATTEMPT'',
     7 := Some ''USER-MODE WRITE ATTEMPT PAGE-LEVEL PROTECTION VIOLATION'']"

text \<open>A string of a table as the argument of \<open>%s\<close>; an index out of the table and a null string are faults.\<close>

definition c_string :: "string \<Rightarrow> bytes" where
  "c_string s = map of_char s @ [0]"

definition table_string :: "string option list \<Rightarrow> nat \<Rightarrow> bytes option" where
  "table_string tab i = do { s \<leftarrow> rd tab i; s \<leftarrow> s; Some (c_string s) }"

section \<open>Printing\<close>

text \<open>\<open>stack\<close> is what the 1024 bytes of the buffer hold on entry.\<close>

definition k_sys_TerminalPrintf :: "bytes \<Rightarrow> bytes \<Rightarrow> vararg list \<Rightarrow> terminal \<Rightarrow> terminal option" where
  "k_sys_TerminalPrintf stack fmt args t = do {
     buffer \<leftarrow> k_vasfmt stack 511 fmt args;
     k_sys_TerminalPuts buffer t
   }"

text \<open>Lines of text as a C string, with a newline between each two of them.\<close>

fun text_lines :: "string list \<Rightarrow> bytes" where
  "text_lines [] = [0]"
| "text_lines [s] = c_string s"
| "text_lines (s # t # ls) = map of_char s @ 10 # text_lines (t # ls)"

definition K_SYS_TERM_COLOR_BLUE :: u8 where "K_SYS_TERM_COLOR_BLUE = 1"
definition K_SYS_TERM_COLOR_LIGHT_GREY :: u8 where "K_SYS_TERM_COLOR_LIGHT_GREY = 7"

fun print_lines :: "(nat \<Rightarrow> bytes) \<Rightarrow> nat \<Rightarrow> (bytes \<times> vararg list) list \<Rightarrow> terminal \<Rightarrow> terminal option" where
  "print_lines stack k [] t = Some t"
| "print_lines stack k ((fmt, args) # ls) t = do {
     t \<leftarrow> k_sys_TerminalPrintf (stack k) fmt args t;
     print_lines stack (k + 1) ls t
   }"

text \<open>What the \<open>switch\<close> over the exception prints; \<open>va\<close> are the variable arguments.\<close>

definition exception_lines :: "nat \<Rightarrow> u32 list \<Rightarrow> (bytes \<times> vararg list) list option" where
  "exception_lines exception va =
     (if exception = K_EXCEPTION_GENERAL_PROTECTION_FAULT then do {
        error_code \<leftarrow> rd va 0;
        Some [(text_lines [''            ERROR CODE: 0x%x'', ''''], [Dword error_code])]
      }
      else if exception = K_EXCEPTION_PAGE_FAULT then do {
        fault_address \<leftarrow> rd va 0;
        error_code \<leftarrow> rd va 1;
        message \<leftarrow> table_string k_sys_pf_messages (unat error_code);
        Some [(text_lines [''            FAULT ADDRESS: 0x%x'', ''''], [Dword fault_address]),
          (text_lines [''            ERROR CODE: %s (0x%x)'', ''''], [Str message, Dword error_code])]
      }
      else Some [])"

definition crash_text :: "(nat \<Rightarrow> bytes) \<Rightarrow> nat \<Rightarrow> u32 \<Rightarrow> u32 \<Rightarrow> u32 list \<Rightarrow> terminal \<Rightarrow> terminal option" where
  "crash_text stack exception eip cs va t = do {
     let t = k_sys_TerminalSetColor K_SYS_TERM_COLOR_LIGHT_GREY K_SYS_TERM_COLOR_BLUE t;
     t \<leftarrow> k_sys_TerminalClear t;
     t \<leftarrow> print_lines stack 0 [(text_lines ['''', '''', '''', '''', '''', '''', ''                                 ''], [])] t;
     let t = k_sys_TerminalSetColor K_SYS_TERM_COLOR_BLUE K_SYS_TERM_COLOR_LIGHT_GREY t;
     t \<leftarrow> print_lines stack 1 [(text_lines [''*** CRASH! ***'', '''', ''''], [])] t;
     let t = k_sys_TerminalSetColor K_SYS_TERM_COLOR_LIGHT_GREY K_SYS_TERM_COLOR_BLUE t;
     t \<leftarrow> print_lines stack 2
       [(text_lines [''      Something pretty terrible, like an exception or something, happened'', ''''], []),
        (text_lines [''      at 0x%x:0x%x. Probably your fault. Keep your grubby fingers to'', ''''], [Dword cs, Dword eip]),
        (text_lines [''      yourself next time.'', ''''], [])] t;
     code \<leftarrow> table_string k_sys_exception_codes exception;
     t \<leftarrow> print_lines stack 5
       [(text_lines ['''', '''', ''      TECHNICAL INFORMATION:'', ''            %s (0x%x)'', ''''],
         [Str code, Dword (word_of_nat exception)])] t;
     ls \<leftarrow> exception_lines exception va;
     print_lines stack 6 ls t
   }"

section \<open>The fire\<close>

record fire =
  fire_buffer :: bytes
  cur_mem_map :: "u16 list"
  rand_var :: u32
  rand_timer :: nat
  rng_seed :: u32

definition fire_buffer_size :: nat where "fire_buffer_size = 80 * 25"

text \<open>The characters of the levels of heat.\<close>

definition fire_colors :: "u16 list" where
  "fire_colors = [k_sys_TerminalChar 178 0x00, k_sys_TerminalChar 178 0x06, k_sys_TerminalChar 177 0x06,
     k_sys_TerminalChar 177 0x2c, k_sys_TerminalChar 177 0xec, k_sys_TerminalChar 219 0xee,
     k_sys_TerminalChar 177 0xfe, k_sys_TerminalChar 219 0xff]"

fun light_columns :: "nat \<Rightarrow> nat \<Rightarrow> bytes \<Rightarrow> bytes option" where
  "light_columns 0 i buf = Some buf"
| "light_columns (Suc n) i buf = do { buf \<leftarrow> wr buf i 7; light_columns n (i + 1) buf }"

text \<open>The heat of a cell rises to the row above it and up to two columns to the left, and fades at random.\<close>

definition spread :: "nat \<Rightarrow> nat \<Rightarrow> nat \<Rightarrow> fire \<Rightarrow> fire option" where
  "spread w h from f = do {
     heat \<leftarrow> rd (fire_buffer f) from;
     if heat > 0 then
       if rand_var f = 0 then None
       else do {
         let seed = k_rng_Rand (rng_seed f);
         let rand = seed mod rand_var f;
         let to = sub32 (sub32 from w) (unat (rand mod 3));
         if to < w * h then do {
           buf \<leftarrow> wr (fire_buffer f) to (heat - ucast (rand AND 1));
           Some (f\<lparr>fire_buffer := buf, rng_seed := seed\<rparr>)
         }
         else Some (f\<lparr>rng_seed := seed\<rparr>)
       }
     else Some f
   }"

text \<open>Where there is no heat, the text of the crash screen and its blue background stay.\<close>

definition show_cell :: "nat \<Rightarrow> fire \<Rightarrow> fire option" where
  "show_cell i f = do {
     heat \<leftarrow> rd (fire_buffer f) i;
     fire_color \<leftarrow> rd fire_colors (unat heat);
     cell \<leftarrow> rd (cur_mem_map f) i;
     let screen_color = (ucast (drop_bit 8 cell) :: u8);
     if fire_color AND 0xff00 \<noteq> 0 \<or>
       drop_bit 4 screen_color \<noteq> K_SYS_TERM_COLOR_BLUE \<and> screen_color AND 0x0f \<noteq> K_SYS_TERM_COLOR_BLUE
     then do { m \<leftarrow> wr (cur_mem_map f) i fire_color; Some (f\<lparr>cur_mem_map := m\<rparr>) }
     else Some f
   }"

definition tick :: "fire \<Rightarrow> fire" where
  "tick f = (if rand_timer f + 1 > 19
     then let seed = k_rng_Rand (rng_seed f) in f\<lparr>rand_timer := 0, rand_var := 3 - seed mod 2, rng_seed := seed\<rparr>
     else f\<lparr>rand_timer := rand_timer f + 1\<rparr>)"

definition burn_cell :: "nat \<Rightarrow> nat \<Rightarrow> nat \<Rightarrow> fire \<Rightarrow> fire option" where
  "burn_cell w h i f = do { f \<leftarrow> spread w h i f; f \<leftarrow> show_cell i f; Some (tick f) }"

fun burn_column :: "nat \<Rightarrow> nat \<Rightarrow> nat \<Rightarrow> nat \<Rightarrow> nat \<Rightarrow> fire \<Rightarrow> fire option" where
  "burn_column w h 0 column row f = Some f"
| "burn_column w h (Suc n) column row f = do {
     f \<leftarrow> burn_cell w h (row * w + column) f;
     burn_column w h n column (row + 1) f
   }"

fun burn_columns :: "nat \<Rightarrow> nat \<Rightarrow> nat \<Rightarrow> nat \<Rightarrow> fire \<Rightarrow> fire option" where
  "burn_columns w h 0 column f = Some f"
| "burn_columns w h (Suc n) column f = do {
     f \<leftarrow> burn_column w h h column 0 f;
     burn_columns w h n (column + 1) f
   }"

text \<open>\<open>n\<close> rounds of the endless loop, and the buffer as it is set up in front of it.\<close>

primrec burn :: "nat \<Rightarrow> nat \<Rightarrow> nat \<Rightarrow> fire \<Rightarrow> fire option" where
  "burn w h 0 f = Some f"
| "burn w h (Suc n) f = do { f \<leftarrow> burn_columns w h w 0 f; burn w h n f }"

definition light :: "nat \<Rightarrow> nat \<Rightarrow> u16 list \<Rightarrow> u32 \<Rightarrow> fire option" where
  "light w h screen seed = do {
     buf \<leftarrow> light_columns w (w * (h - 1)) (replicate fire_buffer_size 0);
     Some \<lparr>fire_buffer = buf, cur_mem_map = screen, rand_var = 2, rand_timer = 0, rng_seed = seed\<rparr>
   }"

section \<open>The fire stays in its buffers\<close>

text \<open>The row at the bottom is at full heat; \<open>white\<close> says up to which column the display shows it.\<close>

definition fire_ok :: "nat \<Rightarrow> nat \<Rightarrow> fire \<Rightarrow> bool" where
  "fire_ok w h f \<longleftrightarrow> length (fire_buffer f) = 2000 \<and> (\<forall>heat \<in> set (fire_buffer f). heat \<le> 7) \<and>
     length (cur_mem_map f) = w * h \<and> (rand_var f = 2 \<or> rand_var f = 3) \<and>
     (\<forall>c < w. fire_buffer f ! (w * (h - 1) + c) = 7)"

definition white :: "nat \<Rightarrow> nat \<Rightarrow> nat \<Rightarrow> fire \<Rightarrow> bool" where
  "white w h k f \<longleftrightarrow> (\<forall>c < k. cur_mem_map f ! (w * (h - 1) + c) = fire_colors ! 7)"

definition fits :: "nat \<Rightarrow> nat \<Rightarrow> bool" where
  "fits w h \<longleftrightarrow> 0 < w \<and> 0 < h \<and> w * h \<le> 2000"

lemma heat_le: "fire_ok w h f \<Longrightarrow> i < 2000 \<Longrightarrow> fire_buffer f ! i \<le> 7"
  by (simp add: fire_ok_def)

lemma bottom_row: "fits w h \<Longrightarrow> w * (h - 1) + w = w * h"
  by (cases h) (auto simp: fits_def)

lemma spread_target:
  assumes "fits w h" "from < w * h" "r \<le> 2" "sub32 (sub32 from w) r < w * h"
  shows "sub32 (sub32 from w) r < w * (h - 1)"
proof -
  have w: "0 < w" "w \<le> w * h" "w * h \<le> 2000" "w \<le> 2000" using assms(1) by (cases h; simp add: fits_def)+
  show ?thesis
  proof (cases "w + r \<le> from")
    case True
    then have "sub32 (sub32 from w) r = from - w - r" using w assms(2) by (simp add: sub32_le)
    then show ?thesis using bottom_row [OF assms(1)] assms(2) True w by linarith
  next
    case False
    have "2 ^ 32 - 2002 \<le> sub32 (sub32 from w) r"
    proof (cases "w \<le> from")
      case True
      then have "sub32 from w = from - w" using w assms(2) by (simp add: sub32_le)
      then show ?thesis using False True w assms(2,3) by (simp add: sub32_wrap)
    next
      case False
      then have "sub32 from w = from + 2 ^ 32 - w" using w assms(2) by (simp add: sub32_wrap)
      then show ?thesis using False w assms(2,3) by (simp add: sub32_le)
    qed
    then show ?thesis using assms(4) w(3) by simp
  qed
qed

lemma spread_ok:
  assumes fits: "fits w h" and ok: "fire_ok w h f" and i: "from < w * h"
  shows "\<exists>f'. spread w h from f = Some f' \<and> fire_ok w h f' \<and> cur_mem_map f' = cur_mem_map f"
proof (cases "fire_buffer f ! from > 0")
  case False
  then show ?thesis using assms by (simp add: spread_def rd_def fire_ok_def fits_def)
next
  case True
  let ?seed = "k_rng_Rand (rng_seed f)"
  let ?rand = "?seed mod rand_var f"
  let ?to = "sub32 (sub32 from w) (unat (?rand mod 3))"
  let ?v = "fire_buffer f ! from - ucast (?rand AND 1)"
  have l: "length (fire_buffer f) = 2000" "from < 2000" "w * h \<le> 2000"
    using ok i fits by (auto simp: fire_ok_def fits_def)
  have "unat (?rand mod 3) < 3" by (simp add: unat_mod)
  then have r: "unat (?rand mod 3) \<le> 2" by simp
  have v: "?v \<le> 7"
  proof -
    have "?rand AND 1 = 0 \<or> ?rand AND 1 = 1" by (simp only: and_one_eq) (auto simp: odd_iff_mod_2_eq_one)
    then have "ucast (?rand AND 1) = (0 :: u8) \<or> ucast (?rand AND 1) = (1 :: u8)" by (elim disjE) (simp_all only: unsigned_0 unsigned_1 simp_thms)
    moreover have "x - 1 \<le> 7" if "0 < x" "x \<le> 7" for x :: u8
      using that by unat_arith
    ultimately show ?thesis using heat_le [OF ok l(2)] True by (elim disjE; simp)
  qed
  have rv: "rand_var f \<noteq> 0" using ok by (auto simp: fire_ok_def)
  show ?thesis
  proof (cases "?to < w * h")
    case False
    then show ?thesis using True rv l ok by (simp add: spread_def rd_def Let_def fire_ok_def)
  next
    case t: True
    have b: "?to < w * (h - 1)" by (rule spread_target [OF fits i r t])
    have "fire_ok w h (f\<lparr>fire_buffer := (fire_buffer f)[?to := ?v], rng_seed := ?seed\<rparr>)"
      using ok v b set_update_subset_insert [of "fire_buffer f" ?to ?v] by (auto simp: fire_ok_def)
    then show ?thesis using True rv l t by (simp add: spread_def rd_def wr_def Let_def)
  qed
qed
lemma show_cell_ok:
  assumes fits: "fits w h" and ok: "fire_ok w h f" and i: "i < w * h"
  shows "\<exists>f'. show_cell i f = Some f' \<and> fire_ok w h f' \<and> fire_buffer f' = fire_buffer f \<and>
    (\<forall>j. j \<noteq> i \<longrightarrow> cur_mem_map f' ! j = cur_mem_map f ! j) \<and>
    (fire_buffer f ! i = 7 \<longrightarrow> cur_mem_map f' ! i = fire_colors ! 7)"
proof -
  have l: "length (fire_buffer f) = 2000" "i < 2000" "length (cur_mem_map f) = w * h"
    using ok i fits by (auto simp: fire_ok_def fits_def)
  have "unat (fire_buffer f ! i) < 8" using heat_le [OF ok l(2)] by unat_arith
  then have c: "rd fire_colors (unat (fire_buffer f ! i)) = Some (fire_colors ! unat (fire_buffer f ! i))"
    by (simp add: rd_def fire_colors_def)
  have hot: "fire_colors ! 7 AND 0xff00 \<noteq> 0" by (simp add: fire_colors_def k_sys_TerminalChar_def)
  show ?thesis
    using ok i l c hot by (auto simp: show_cell_def rd_def wr_def Let_def fire_ok_def)
qed

lemma tick_ok:
  "fire_ok w h f \<Longrightarrow> fire_ok w h (tick f) \<and> cur_mem_map (tick f) = cur_mem_map f"
proof -
  assume ok: "fire_ok w h f"
  have "3 - v mod 2 = 2 \<or> 3 - v mod 2 = (3 :: u32)" for v :: u32
  proof -
    have "v AND 1 = 0 \<or> v AND 1 = 1" by (simp only: and_one_eq) (auto simp: odd_iff_mod_2_eq_one)
    then have "v mod 2 = 0 \<or> v mod 2 = 1" by (simp only: and_one_eq)
    then show ?thesis by (elim disjE) simp_all
  qed
  with ok show ?thesis by (auto simp: tick_def Let_def fire_ok_def)
qed

text \<open>What a cell does to the picture: the cells of the bottom row turn white and stay that way.\<close>

lemma burn_cell_ok:
  assumes fits: "fits w h" and ok: "fire_ok w h f" and i: "i < w * h"
  shows "\<exists>f'. burn_cell w h i f = Some f' \<and> fire_ok w h f' \<and>
    (\<forall>j. j \<noteq> i \<longrightarrow> cur_mem_map f' ! j = cur_mem_map f ! j) \<and>
    (w * (h - 1) \<le> i \<longrightarrow> cur_mem_map f' ! i = fire_colors ! 7)"
proof -
  obtain f1 where 1: "spread w h i f = Some f1" "fire_ok w h f1" "cur_mem_map f1 = cur_mem_map f"
    using spread_ok [OF fits ok i] by blast
  obtain f2 where 2: "show_cell i f1 = Some f2" "fire_ok w h f2"
      "\<forall>j. j \<noteq> i \<longrightarrow> cur_mem_map f2 ! j = cur_mem_map f1 ! j"
      "fire_buffer f1 ! i = 7 \<longrightarrow> cur_mem_map f2 ! i = fire_colors ! 7"
    using show_cell_ok [OF fits 1(2) i] by blast
  have "fire_buffer f1 ! i = 7" if "w * (h - 1) \<le> i"
  proof -
    have "i - w * (h - 1) < w" using that i bottom_row [OF fits] by linarith
    then have "fire_buffer f1 ! (w * (h - 1) + (i - w * (h - 1))) = 7" using 1(2) unfolding fire_ok_def by blast
    then show ?thesis using that by simp
  qed
  then show ?thesis using 1 2 tick_ok [OF 2(2)] by (auto simp: burn_cell_def)
qed

lemma burn_column_ok:
  "fits w h \<Longrightarrow> fire_ok w h f \<Longrightarrow> c < w \<Longrightarrow> row + n \<le> h \<Longrightarrow> white w h k f \<Longrightarrow> k \<le> w \<Longrightarrow>
   \<exists>f'. burn_column w h n c row f = Some f' \<and> fire_ok w h f' \<and> white w h k f' \<and>
     (0 < n \<longrightarrow> row + n = h \<longrightarrow> cur_mem_map f' ! (w * (h - 1) + c) = fire_colors ! 7)"
proof (induction n arbitrary: row f)
  case (Suc n)
  let ?i = "row * w + c"
  have "Suc row * w \<le> h * w" using Suc.prems(4) by (intro mult_le_mono1) simp
  then have i: "?i < w * h" using Suc.prems(3) by (simp add: mult.commute)
  obtain f1 where 1: "burn_cell w h ?i f = Some f1" "fire_ok w h f1"
      "\<And>j. j \<noteq> ?i \<Longrightarrow> cur_mem_map f1 ! j = cur_mem_map f ! j"
      "w * (h - 1) \<le> ?i \<Longrightarrow> cur_mem_map f1 ! ?i = fire_colors ! 7"
    using burn_cell_ok [OF Suc.prems(1,2) i] by blast
  have wh: "white w h k f1"
    unfolding white_def
  proof (intro allI impI)
    fix d
    assume "d < k"
    then show "cur_mem_map f1 ! (w * (h - 1) + d) = fire_colors ! 7"
      using 1(3) [of "w * (h - 1) + d"] 1(4) Suc.prems(5) by (cases "w * (h - 1) + d = ?i") (auto simp: white_def)
  qed
  obtain f' where f': "burn_column w h n c (row + 1) f1 = Some f'" "fire_ok w h f'" "white w h k f'"
      "0 < n \<longrightarrow> row + 1 + n = h \<longrightarrow> cur_mem_map f' ! (w * (h - 1) + c) = fire_colors ! 7"
    using Suc.IH [of f1 "row + 1"] 1(2) wh Suc.prems by auto
  have "cur_mem_map f' ! (w * (h - 1) + c) = fire_colors ! 7" if "row + Suc n = h"
  proof (cases n)
    case 0
    then have f1: "f' = f1" and r: "row = h - 1" using f'(1) that by auto
    have "?i = w * (h - 1) + c" unfolding r by (simp add: mult.commute)
    then have e: "?i = w * (h - 1) + c" .
    show ?thesis using 1(4) unfolding f1 e by simp
  next
    case (Suc m)
    then show ?thesis using f'(4) that by simp
  qed
  then show ?case using 1(1) f' by auto
qed (auto simp: white_def)

lemma burn_columns_ok:
  "fits w h \<Longrightarrow> fire_ok w h f \<Longrightarrow> c + n \<le> w \<Longrightarrow> white w h c f \<Longrightarrow>
   \<exists>f'. burn_columns w h n c f = Some f' \<and> fire_ok w h f' \<and> white w h (c + n) f'"
proof (induction n arbitrary: c f)
  case (Suc n)
  have h: "0 < h" using Suc.prems(1) by (simp add: fits_def)
  obtain f1 where 1: "burn_column w h h c 0 f = Some f1" "fire_ok w h f1" "white w h c f1"
      "cur_mem_map f1 ! (w * (h - 1) + c) = fire_colors ! 7"
    using burn_column_ok [OF Suc.prems(1,2), of c 0 h c] Suc.prems h by auto
  then have "white w h (c + 1) f1" by (auto simp: white_def less_Suc_eq)
  then show ?case using Suc.IH [of f1 "c + 1"] Suc.prems 1 by auto
qed auto

lemma burn_ok:
  "fits w h \<Longrightarrow> fire_ok w h f \<Longrightarrow>
   \<exists>f'. burn w h n f = Some f' \<and> fire_ok w h f' \<and> (0 < n \<longrightarrow> white w h w f')"
proof (induction n arbitrary: f)
  case (Suc n)
  obtain f1 where 1: "burn_columns w h w 0 f = Some f1" "fire_ok w h f1" "white w h w f1"
    using burn_columns_ok [OF Suc.prems, of 0 w] by (auto simp: white_def)
  show ?case
  proof (cases n)
    case 0
    then show ?thesis using 1 by simp
  next
    case (Suc m)
    then show ?thesis using Suc.IH [OF Suc.prems(1) 1(2)] 1(1) by auto
  qed
qed simp

lemma light_columns_ok:
  "i + n \<le> length buf \<Longrightarrow> \<exists>buf'. light_columns n i buf = Some buf' \<and> length buf' = length buf \<and>
     set buf' \<subseteq> insert 7 (set buf) \<and> (\<forall>j. i \<le> j \<longrightarrow> j < i + n \<longrightarrow> buf' ! j = 7) \<and> (\<forall>j. j < i \<longrightarrow> buf' ! j = buf ! j)"
proof (induction n arbitrary: i buf)
  case (Suc n)
  obtain b where b: "light_columns n (i + 1) (buf[i := 7]) = Some b" "length b = length buf"
      "set b \<subseteq> insert 7 (set (buf[i := 7]))" "\<forall>j. i + 1 \<le> j \<longrightarrow> j < i + 1 + n \<longrightarrow> b ! j = 7"
      "\<forall>j. j < i + 1 \<longrightarrow> b ! j = buf[i := 7] ! j"
    using Suc.IH [of "i + 1" "buf[i := 7]"] Suc.prems by auto
  have "b ! j = 7" if "i \<le> j" "j < i + Suc n" for j
    using b(4,5) Suc.prems that by (cases "j = i") auto
  then show ?case using b Suc.prems set_update_subset_insert [of buf i 7] by (auto simp: wr_def)
qed auto

lemma light_ok:
  assumes "fits w h" "length screen = w * h"
  shows "\<exists>f. light w h screen seed = Some f \<and> fire_ok w h f"
proof -
  have "w * (h - 1) + w \<le> length (replicate fire_buffer_size (0 :: u8))"
    using bottom_row [OF assms(1)] assms(1) by (simp add: fits_def fire_buffer_size_def)
  from light_columns_ok [OF this] obtain b where b: "light_columns w (w * (h - 1)) (replicate fire_buffer_size 0) = Some b"
      "length b = 2000" "set b \<subseteq> insert 7 (set (replicate fire_buffer_size 0))" "\<forall>j. w * (h - 1) \<le> j \<longrightarrow> j < w * (h - 1) + w \<longrightarrow> b ! j = 7"
    by (auto simp: fire_buffer_size_def)
  then have "\<forall>x \<in> set b. x \<le> 7" by (auto simp: fire_buffer_size_def)
  then show ?thesis using b assms(2) by (simp add: light_def fire_ok_def)
qed

text \<open>
  The fire of the crash screen can burn for ever: on a display that fits its buffer of 2000 cells,
  whatever the display showed and whatever the seed, any number of rounds is defined - no access is out of
  the buffer of heat, the table of characters or the video memory, and the modulus of the generator is never
  zero - the heat stays within the eight levels, and from the first round on the bottom row shows full heat.
\<close>

theorem crash_fire_burns:
  assumes "0 < w" "0 < h" "w * h \<le> fire_buffer_size" "length screen = w * h"
  shows "\<exists>f0 f. light w h screen seed = Some f0 \<and> burn w h n f0 = Some f \<and>
    (\<forall>heat \<in> set (fire_buffer f). heat \<le> 7) \<and> length (cur_mem_map f) = w * h \<and>
    (0 < n \<longrightarrow> (\<forall>c < w. cur_mem_map f ! (w * (h - 1) + c) = k_sys_TerminalChar 219 0xff))"
proof -
  have fits: "fits w h" using assms by (simp add: fits_def fire_buffer_size_def)
  obtain f0 where 0: "light w h screen seed = Some f0" "fire_ok w h f0" using light_ok [OF fits assms(4)] by blast
  obtain f where f: "burn w h n f0 = Some f" "fire_ok w h f" "0 < n \<longrightarrow> white w h w f" using burn_ok [OF fits 0(2)] by blast
  have "fire_colors ! 7 = k_sys_TerminalChar 219 0xff" by (simp add: fire_colors_def)
  then show ?thesis using 0 f unfolding fire_ok_def white_def by metis
qed

lemma crash_fire_burns_witness:
  "\<exists>f0 f. light 2 2 [0x1741, 0x1742, 0, 7] 3 = Some f0 \<and> burn 2 2 100 f0 = Some f \<and>
     cur_mem_map f ! 2 = k_sys_TerminalChar 219 0xff \<and> cur_mem_map f ! 3 = k_sys_TerminalChar 219 0xff"
proof -
  obtain f0 f where f: "light 2 2 [0x1741, 0x1742, 0, 7] 3 = Some f0" "burn 2 2 100 f0 = Some f"
      "\<forall>c < 2. cur_mem_map f ! (2 * (2 - 1) + c) = k_sys_TerminalChar 219 0xff"
    using crash_fire_burns [of 2 2 "[0x1741, 0x1742, 0, 7]" 3 100] by (auto simp: fire_buffer_size_def)
  have "cur_mem_map f ! 2 = k_sys_TerminalChar 219 0xff" "cur_mem_map f ! 3 = k_sys_TerminalChar 219 0xff"
    using f(3) [rule_format, of 0] f(3) [rule_format, of 1] by simp_all
  then show ?thesis using f(1,2) by blast
qed

text \<open>The text of the crash screen stays where there is no heat: its cells are blue on grey or grey on blue.\<close>

lemma cold_text_stays:
  assumes "rd (fire_buffer f) i = Some 0" "rd (cur_mem_map f) i = Some cell"
    and "cell = k_sys_TerminalChar ch 0x17 \<or> cell = k_sys_TerminalChar ch 0x71"
  shows "show_cell i f = Some f"
proof -
  have a: "(ucast (drop_bit 8 (k_sys_TerminalChar ch col)) :: u8) = col" for col
    unfolding k_sys_TerminalChar_def
    by (intro bit_word_eqI) (auto simp: bit_simps dest: bit_imp_le_length)
  have c: "fire_colors ! 0 AND 0xff00 = 0" "rd fire_colors 0 = Some (fire_colors ! 0)"
    by (simp_all add: fire_colors_def k_sys_TerminalChar_def rd_def)
  show ?thesis
    using assms(1,2) assms(3) c a [of "0x17"] a [of "0x71"]
    by (elim disjE) (simp_all add: show_cell_def Let_def K_SYS_TERM_COLOR_BLUE_def)
qed

section \<open>The generator and the messages\<close>

text \<open>A step of the generator can be undone, so that it never reaches the fixed point zero from another seed.\<close>

lemma k_rng_Rand_0 [simp]: "k_rng_Rand 0 = 0"
  by (simp add: k_rng_Rand_def)

lemma xor_shift_up_0: "(v :: u32) XOR push_bit k v = 0 \<Longrightarrow> 0 < k \<Longrightarrow> v = 0"
proof (rule bit_word_eqI)
  fix n
  assume 0: "v XOR push_bit k v = 0" "0 < k"
  then have e: "v = push_bit k v" by (simp add: bit_eq_iff bit_xor_iff)
  show "bit v n = bit 0 n"
  proof (induction n rule: less_induct)
    case (less n)
    show ?case using e 0(2) less [of "n - k"] bit_push_bit_iff [of k v n] by (cases "k \<le> n") auto
  qed
qed

lemma xor_shift_down_0: "(v :: u32) XOR drop_bit k v = 0 \<Longrightarrow> 0 < k \<Longrightarrow> v = 0"
proof (rule ccontr)
  assume 0: "v XOR drop_bit k v = 0" "0 < k" "v \<noteq> 0"
  then have e: "v = drop_bit k v" by (simp add: bit_eq_iff bit_xor_iff)
  have "unat v div 2 ^ k < unat v" using 0(2,3) by (intro div_less_dividend one_less_power) (auto simp: unat_gt_0)
  moreover have "unat (drop_bit k v) = unat v div 2 ^ k" by (simp only: unat_drop_bit_eq drop_bit_nat_def)
  ultimately show False using e by simp
qed

lemma k_rng_Rand_nonzero: "seed \<noteq> 0 \<Longrightarrow> k_rng_Rand seed \<noteq> 0"
  unfolding k_rng_Rand_def Let_def
  by (metis xor_shift_up_0 xor_shift_down_0 zero_less_numeral)

text \<open>
  The message of a page fault says who did what to what: every error code has it that has the reserved bit
  clear and does not say that an instruction was written.
\<close>

definition pf_message :: "nat \<Rightarrow> string" where
  "pf_message e = (if bit e 2 then ''USER-MODE '' else ''KERNEL-MODE '') @
     (if bit e 4 then ''INSTRUCTION FETCH '' else if bit e 1 then ''WRITE '' else ''READ '') @
     (if \<not> bit e 0 then ''ATTEMPT'' else if bit e 1 then ''ATTEMPT PAGE-LEVEL PROTECTION VIOLATION''
      else ''PAGE-LEVEL PROTECTION VIOLATION'')"

lemma pf_table: "\<forall>e \<in> set [0..<22]. k_sys_pf_messages ! e =
    (if bit e 3 \<or> bit e 1 \<and> bit e 4 then None else Some (pf_message e))"
  by code_simp

lemma pf_table_length: "length k_sys_pf_messages = 22"
  by (simp add: k_sys_pf_messages_def)

lemma pf_code_bound: "\<forall>e \<in> set [0..<32]. \<not> bit e 3 \<longrightarrow> \<not> (bit e 1 \<and> bit e 4) \<longrightarrow> e < (22 :: nat)"
  by code_simp

lemma pf_messages:
  assumes "e < 32" "\<not> bit e 3" "\<not> (bit e 1 \<and> bit e 4)"
  shows "table_string k_sys_pf_messages e = Some (c_string (pf_message e))"
proof -
  have "e < 22" using bspec [OF pf_code_bound, of e] assms by auto
  then show ?thesis using bspec [OF pf_table, of e] assms(2,3) by (auto simp: table_string_def rd_def pf_table_length)
qed

text \<open>The others have no message: the crash screen follows a null pointer or reads behind the table.\<close>

lemma pf_message_missing:
  assumes "bit e 3 \<or> bit e 1 \<and> bit e 4 \<or> 32 \<le> e"
  shows "table_string k_sys_pf_messages e = None"
proof (cases "e < 22")
  case True
  then show ?thesis using bspec [OF pf_table, of e] assms by (auto simp: table_string_def rd_def pf_table_length)
qed (simp add: table_string_def rd_def pf_table_length)

lemma crash_text_faults:
  assumes "bit (unat e) 3 \<or> bit (unat e) 1 \<and> bit (unat e) 4 \<or> 32 \<le> unat e"
  shows "crash_text stack K_EXCEPTION_PAGE_FAULT eip cs [address, e] t = None"
proof -
  have "exception_lines K_EXCEPTION_PAGE_FAULT [address, e] = None"
    using pf_message_missing [OF assms]
    by (simp add: exception_lines_def K_EXCEPTION_PAGE_FAULT_def K_EXCEPTION_GENERAL_PROTECTION_FAULT_def rd_def)
  then show ?thesis by (simp add: crash_text_def Let_def split: bind_splits)
qed

end
