(* ===== verification/Sys_Shell.thy ===== *)
theory Sys_Shell
  imports Sys_Crash Fs_File
begin

text \<open>
  The shell of \<open>sys/shell.c\<close> and the table of system calls of \<open>sys/syscall.c\<close>. One command of the shell is a
  step on the terminal, the path and the volume; \<open>stack\<close> is what the buffers of the calls of
  \<open>k_sys_TerminalPrintf\<close> hold on entry. The lemmas show which lines run which command, and that no directory
  is ever changed to.
\<close>

section \<open>System calls\<close>

datatype syscall =
    k_sys_TestSysCall
  | k_sys_CrashSysCall
  | k_sys_YieldThread
  | k_sys_TerminateProcess
  | k_sys_WaitProcess
  | k_sys_Puts
  | k_sys_ReadLine

definition K_SYS_SYSCALL_LAST :: nat where "K_SYS_SYSCALL_LAST = 13"

text \<open>The entries without an initialiser are null.\<close>

definition k_sys_syscall_table :: "syscall option list" where
  "k_sys_syscall_table = [Some k_sys_TestSysCall, Some k_sys_CrashSysCall, None, None, None, Some k_sys_YieldThread, None,
     None, None, Some k_sys_TerminateProcess, Some k_sys_WaitProcess, Some k_sys_Puts, Some k_sys_ReadLine]"

text \<open>
  \<open>run\<close> are the functions of the table, on a state of type \<open>'s\<close>; a call through a null entry is a fault, and a
  number that is too large returns \<open>K_STATUS_OK\<close>.
\<close>

definition k_sys_DispatchSysCall :: "(syscall \<Rightarrow> nat list \<Rightarrow> 's \<Rightarrow> (nat \<times> 's) option) \<Rightarrow> nat list \<Rightarrow> 's \<Rightarrow> (nat \<times> 's) option" where
  "k_sys_DispatchSysCall run args s = do {
     n \<leftarrow> rd args 0;
     if n < K_SYS_SYSCALL_LAST then do {
       f \<leftarrow> rd k_sys_syscall_table n;
       f \<leftarrow> f;
       run f args s
     }
     else Some (0, s)
   }"

text \<open>
  The system calls of the terminal: \<open>objects\<close> gives the bytes of the object at an address of the kernel, at which
  the address of the process appears after adding the offset of its stack.
\<close>

definition sys_puts :: "(u32 \<Rightarrow> bytes option) \<Rightarrow> u32 \<Rightarrow> u32 list \<Rightarrow> terminal \<Rightarrow> (nat \<times> terminal) option" where
  "sys_puts objects kernel_stack_offset args t = do {
     a \<leftarrow> rd args 1;
     str \<leftarrow> objects (a + kernel_stack_offset);
     t \<leftarrow> k_sys_TerminalPuts str t;
     Some (0, t)
   }"

definition sys_read_line ::
    "bytes \<Rightarrow> (u32 \<Rightarrow> bytes option) \<Rightarrow> u32 \<Rightarrow> u32 list \<Rightarrow> terminal \<Rightarrow> (nat \<times> (u32 \<Rightarrow> bytes option) \<times> terminal) option" where
  "sys_read_line keys objects kernel_stack_offset args t = do {
     a \<leftarrow> rd args 1;
     let output_buffer = a + kernel_stack_offset;
     n \<leftarrow> rd args 2;
     (_, out, t) \<leftarrow> k_sys_TerminalReadLine keys (if output_buffer = 0 then None else objects output_buffer) (unat n) t;
     Some (0, if output_buffer = 0 then objects else objects(output_buffer := out), t)
   }"

section \<open>Commands\<close>

record shell =
  sh_term :: terminal
  keyboard_buffer :: bytes
  current_path :: bytes
  cur_dir_node :: nat
  sh_volume :: k_fs_pup_vol_t

definition k_sys_Help :: "(nat \<Rightarrow> bytes) \<Rightarrow> terminal \<Rightarrow> terminal option" where
  "k_sys_Help stack t = print_lines stack 0
     [(text_lines [''Available commands:'', ''''], []),
      (text_lines [''    help: runs this command'', ''''], []),
      (text_lines [''    clear: clears the screen'', ''''], []),
      (text_lines [''    crash: crashes the system'', ''''], []),
      (text_lines [''    cd: changes directory'', ''''], []),
      (text_lines [''    dir: lists contents of directory'', ''''], []),
      (text_lines [''    disks: prints information about detected disks'', ''''], [])] t"

text \<open>\<open>buf\<close> is what the keyboard buffer of eight bytes holds; the system call stores through a null pointer.\<close>

definition k_sys_Crash :: "(nat \<Rightarrow> bytes) \<Rightarrow> bytes \<Rightarrow> bytes \<Rightarrow> terminal \<Rightarrow> terminal option" where
  "k_sys_Crash stack keys buf t = do {
     t \<leftarrow> k_sys_TerminalPrintf (stack 0) (c_string ''Are you sure you want to crash the machine? (y/n) '') [] t;
     (_, buf, t) \<leftarrow> k_sys_TerminalReadLine keys (Some buf) 8 t;
     buf \<leftarrow> buf;
     y \<leftarrow> k_rt_StrCmp buf (c_string ''y'');
     crash \<leftarrow> (if y = 0 then Some True else do { y \<leftarrow> k_rt_StrCmp buf (c_string ''Y''); Some (y = 0) });
     if crash then None
     else k_sys_TerminalPrintf (stack 1) (text_lines [''Phew... (%s)'', '''']) [Str buf] t
   }"

text \<open>The first blank of a line, or its end.\<close>

fun arg_index :: "bytes \<Rightarrow> nat option" where
  "arg_index [] = None"
| "arg_index (c # s) = (if c \<noteq> 0x20 \<and> c \<noteq> 0 then map_option Suc (arg_index s) else Some 0)"

definition shell_cd :: "disk_wait \<Rightarrow> nat option \<Rightarrow> bytes \<Rightarrow> bytes \<Rightarrow> shell \<Rightarrow> shell option" where
  "shell_cd wait fresh stack line sh = do {
     index \<leftarrow> arg_index line;
     c \<leftarrow> rd line index;
     if c \<noteq> 0 then
       let node = k_fs_PupFindNode (drop index line) (cur_dir_node sh)
       in if node \<noteq> 0 then do {
            (path, v) \<leftarrow> k_fs_PupGetPathToNode wait fresh node (current_path sh) 512 (sh_volume sh);
            Some (sh\<lparr>cur_dir_node := node, current_path := path, sh_volume := v\<rparr>)
          }
          else do {
            t \<leftarrow> k_sys_TerminalPrintf stack (text_lines [''%s: no such file or directory'', '''']) [Str (drop index line)] (sh_term sh);
            Some (sh\<lparr>sh_term := t\<rparr>)
          }
     else Some sh
   }"

definition is_command :: "bytes \<Rightarrow> string \<Rightarrow> bool option" where
  "is_command line s = do { d \<leftarrow> k_rt_StrCmp line (c_string s); Some (d = 0) }"

definition unknown_fmt :: bytes where
  "unknown_fmt = map of_char ''ERROR: unknown command '' @ [0x27] @ map of_char ''%s'' @ [0x27, 10, 0]"

text \<open>\<open>keys\<close> are what the question of \<open>k_sys_Crash\<close> is answered with, \<open>buf\<close> its buffer.\<close>

definition shell_command ::
    "disk_wait \<Rightarrow> nat option \<Rightarrow> (nat \<Rightarrow> bytes) \<Rightarrow> bytes \<Rightarrow> bytes \<Rightarrow> bytes \<Rightarrow> shell \<Rightarrow> shell option" where
  "shell_command wait fresh stack keys buf line sh = do {
     help \<leftarrow> is_command line ''help'';
     if help then do { t \<leftarrow> k_sys_Help stack (sh_term sh); Some (sh\<lparr>sh_term := t\<rparr>) }
     else do {
       clear \<leftarrow> is_command line ''clear'';
       if clear then do { t \<leftarrow> k_sys_TerminalClear (sh_term sh); Some (sh\<lparr>sh_term := t\<rparr>) }
       else do {
         crash \<leftarrow> is_command line ''crash'';
         if crash then do { t \<leftarrow> k_sys_Crash stack keys buf (sh_term sh); Some (sh\<lparr>sh_term := t\<rparr>) }
         else do {
           cd \<leftarrow> k_rt_StrStr (Some line) (Some (c_string ''cd''));
           if cd = Some 0 then shell_cd wait fresh (stack 0) line sh
           else do {
             c \<leftarrow> rd line 0;
             if c = 0 then Some sh
             else do {
               t \<leftarrow> k_sys_TerminalPrintf (stack 0) unknown_fmt [Str line] (sh_term sh);
               Some (sh\<lparr>sh_term := t\<rparr>)
             }
           }
         }
       }
     }
   }"

text \<open>One round of the loop of \<open>k_sys_ShellMain\<close>: the prompt, the line that \<open>line_keys\<close> type, and the command.\<close>

definition shell_round ::
    "disk_wait \<Rightarrow> nat option \<Rightarrow> bytes \<Rightarrow> (nat \<Rightarrow> bytes) \<Rightarrow> bytes \<Rightarrow> bytes \<Rightarrow> bytes \<Rightarrow> shell \<Rightarrow> shell option" where
  "shell_round wait fresh stack0 stack line_keys keys buf sh = do {
     t \<leftarrow> k_sys_TerminalPrintf stack0 (c_string ''[root > %s ]: '') [Str (current_path sh)] (sh_term sh);
     (_, line, t) \<leftarrow> k_sys_TerminalReadLine line_keys (Some (keyboard_buffer sh)) 512 t;
     line \<leftarrow> line;
     shell_command wait fresh stack keys buf line (sh\<lparr>sh_term := t, keyboard_buffer := line\<rparr>)
   }"

section \<open>Numbers without a function\<close>

lemma dispatch_null:
  "n \<in> {2, 3, 4, 6, 7, 8} \<Longrightarrow> k_sys_DispatchSysCall run (n # as) s = None"
  by (auto simp: k_sys_DispatchSysCall_def K_SYS_SYSCALL_LAST_def k_sys_syscall_table_def rd_def)

lemma dispatch_runs:
  "n < 13 \<Longrightarrow> n \<notin> {2, 3, 4, 6, 7, 8} \<Longrightarrow>
   \<exists>f. k_sys_syscall_table ! n = Some f \<and> k_sys_DispatchSysCall run (n # as) s = run f (n # as) s"
  by (simp add: k_sys_DispatchSysCall_def K_SYS_SYSCALL_LAST_def k_sys_syscall_table_def rd_def eval_nat_numeral less_Suc_eq) auto

lemma dispatch_out_of_range: "13 \<le> n \<Longrightarrow> k_sys_DispatchSysCall run (n # as) s = Some (0, s)"
  by (simp add: k_sys_DispatchSysCall_def K_SYS_SYSCALL_LAST_def rd_def)

section \<open>Which line runs what\<close>

lemma k_rt_StrCmp_equal:
  "terminated s \<Longrightarrow> terminated t \<Longrightarrow> \<exists>d. k_rt_StrCmp s t = Some d \<and> (d = 0 \<longleftrightarrow> cstr s = cstr t)"
proof (induction s t rule: k_rt_StrCmp.induct)
  case (1 a as b bs)
  have eq: "sint a - sint b = 0 \<longleftrightarrow> a = b" by (auto intro: signed_word_eqI)
  show ?case
  proof (cases "a \<noteq> 0 \<and> b \<noteq> 0 \<and> a = b")
    case True
    then show ?thesis using 1 by (auto simp: Let_def)
  next
    case False
    then show ?thesis using eq by (auto simp: Let_def)
  qed
qed auto

lemma c_string_terminated [simp]: "terminated (c_string s)"
  by (simp add: c_string_def terminated_def)

lemma is_command_iff:
  "terminated line \<Longrightarrow> is_command line s = Some (cstr line = cstr (c_string s))"
  using k_rt_StrCmp_equal [of line "c_string s"] by (auto simp: is_command_def)

lemma cd_prefix:
  assumes "terminated line"
  shows "\<exists>r. k_rt_StrStr (Some line) (Some (c_string ''cd'')) = Some r \<and> (r = Some 0 \<longleftrightarrow> prefix (cstr (c_string ''cd'')) (cstr line))"
proof -
  have cd: "cstr (c_string ''cd'') = [0x63, 0x64]" by (simp add: c_string_def of_char_def)
  obtain r where r: "k_rt_StrStr (Some line) (Some (c_string ''cd'')) = Some r" "r = find_sub (cstr (c_string ''cd'')) (cstr line)"
    using k_rt_StrStr_occurrence [OF assms c_string_terminated [of "''cd''"]] cd by auto
  have "find_sub [0x63, 0x64] xs = Some 0 \<longleftrightarrow> prefix [0x63, 0x64] xs" for xs :: bytes by (cases xs) auto
  then show ?thesis using r cd by auto
qed

lemma arg_index_word:
  "terminated line \<Longrightarrow> arg_index line = Some (length (takeWhile (\<lambda>c. c \<noteq> 0x20) (cstr line)))"
  by (induction line) auto

text \<open>What a line means, and that the shell does it; the argument of a change of directory keeps its leading blank.\<close>

datatype command = Help | Clear | Crash | Change_Dir | No_Dir bytes | Nothing | Unknown

definition command_of :: "bytes \<Rightarrow> command" where
  "command_of cmd = (if cmd = cstr (c_string ''help'') then Help
     else if cmd = cstr (c_string ''clear'') then Clear
     else if cmd = cstr (c_string ''crash'') then Crash
     else if prefix (cstr (c_string ''cd'')) cmd then
       (if 0x20 \<in> set cmd then No_Dir (dropWhile (\<lambda>c. c \<noteq> 0x20) cmd) else Change_Dir)
     else if cmd = [] then Nothing else Unknown)"

definition run_command :: "(nat \<Rightarrow> bytes) \<Rightarrow> bytes \<Rightarrow> bytes \<Rightarrow> bytes \<Rightarrow> bytes \<Rightarrow> terminal \<Rightarrow> terminal option" where
  "run_command stack keys buf line arg t = (case command_of (cstr line) of
      Help \<Rightarrow> k_sys_Help stack t
    | Clear \<Rightarrow> k_sys_TerminalClear t
    | Crash \<Rightarrow> k_sys_Crash stack keys buf t
    | Change_Dir \<Rightarrow> Some t
    | No_Dir _ \<Rightarrow> k_sys_TerminalPrintf (stack 0) (text_lines [''%s: no such file or directory'', '''']) [Str arg] t
    | Nothing \<Rightarrow> Some t
    | Unknown \<Rightarrow> k_sys_TerminalPrintf (stack 0) unknown_fmt [Str line] t)"

lemma shell_cd_message:
  assumes t: "terminated line" and i: "i = length (takeWhile (\<lambda>c. c \<noteq> 0x20) (cstr line))"
  shows "shell_cd wait fresh stack line sh =
    (if 0x20 \<in> set (cstr line) then map_option (\<lambda>t. sh\<lparr>sh_term := t\<rparr>)
      (k_sys_TerminalPrintf stack (text_lines [''%s: no such file or directory'', '''']) [Str (drop i line)] (sh_term sh))
     else Some sh)"
proof -
  have le: "i \<le> length (cstr line)" unfolding i by (rule length_takeWhile_le)
  have rd: "rd line i = Some (line ! i)" using le length_cstr [OF t] by (simp add: rd_def)
  have z: "line ! i = 0 \<longleftrightarrow> 0x20 \<notin> set (cstr line)"
  proof (cases "i = length (cstr line)")
    case True
    then have "takeWhile (\<lambda>c. c \<noteq> 0x20) (cstr line) = cstr line"
      using takeWhile_eq_take [of "\<lambda>c. c \<noteq> 0x20" "cstr line"] i by simp
    then have "0x20 \<notin> set (cstr line)" by (auto simp: takeWhile_eq_all_conv)
    then show ?thesis using nth_cstr [OF t] True by simp
  next
    case False
    then have lt: "i < length (cstr line)" using le by simp
    then have "cstr line ! i = 0x20" unfolding i using nth_length_takeWhile [of "\<lambda>c. c \<noteq> 0x20" "cstr line"] by simp
    moreover have "line ! i = cstr line ! i" using lt by (metis cstr_take nth_take)
    ultimately show ?thesis using lt nth_mem [OF lt] by auto
  qed
  show ?thesis
    unfolding shell_cd_def arg_index_word [OF t] i [symmetric]
    using rd z by (auto simp: k_fs_PupFindNode_def K_FS_PUP_NULL_LINK_def Let_def map_option_bind option.map_ident map_conv_bind_option comp_def)
qed

text \<open>
  Whatever line was typed, the shell runs the command that the line names, and changes nothing but the
  terminal: the path and the directory stay what they were, since no directory is ever found.
\<close>

theorem shell_runs_command:
  assumes "terminated line"
  shows "shell_command wait fresh stack keys buf line sh = map_option (\<lambda>t. sh\<lparr>sh_term := t\<rparr>)
    (run_command stack keys buf line (dropWhile (\<lambda>c. c \<noteq> 0x20) (cstr line) @ drop (length (cstr line)) line) (sh_term sh))"
proof -
  let ?i = "length (takeWhile (\<lambda>c. c \<noteq> 0x20) (cstr line))"
  have "drop ?i line = drop ?i (cstr line) @ drop (length (cstr line)) line"
    using length_takeWhile_le [of "\<lambda>c. c \<noteq> 0x20" "cstr line"] cstr_take [of line]
    by (metis append_take_drop_id drop_append diff_is_0_eq drop_0)
  moreover have "drop ?i (cstr line) = dropWhile (\<lambda>c. c \<noteq> 0x20) (cstr line)" by (rule dropWhile_eq_drop [symmetric])
  ultimately have arg: "drop ?i line = dropWhile (\<lambda>c. c \<noteq> 0x20) (cstr line) @ drop (length (cstr line)) line" by simp
  obtain r where r: "k_rt_StrStr (Some line) (Some (c_string ''cd'')) = Some r"
      "r = Some 0 \<longleftrightarrow> prefix (cstr (c_string ''cd'')) (cstr line)"
    using cd_prefix [OF assms] by blast
  have c: "rd line 0 = Some (line ! 0)" "line ! 0 = 0 \<longleftrightarrow> cstr line = []"
    using assms by (cases line; simp add: rd_def)+
  have s: "Option.bind m (\<lambda>t. Some (sh\<lparr>sh_term := t\<rparr>)) = map_option (\<lambda>t. sh\<lparr>sh_term := t\<rparr>) m" for m
    by (cases m) auto
  show ?thesis
    unfolding shell_command_def is_command_iff [OF assms] r(1) c(1) shell_cd_message [OF assms refl] arg
    by (auto simp: run_command_def command_of_def r(2) c(2) s)
qed

end
