(* ===== verification/Spec2Isabelle.thy ===== *)
theory Spec2Isabelle
  imports K_String Mem_Init Proc_Step Rt_Queue Rt_Lock Dev_Piix3 Proc_Space Rt_Pool Tool_Mkfs Gfx_Vga Rt_Atomic Rt_ObjList
    Sys_Shell
begin

text \<open>
  A verification development for doggOS: the kernel (\<open>src/kernel\<close>) and the tool that makes disk images
  with the kernel's file system (\<open>src/tools/mkfs\<close>). File names below are relative to \<open>src/kernel\<close>.

  \<^bold>\<open>The program.\<close> The kernel runs on one 32 bit x86 processor. \<open>mem\<close> hands out physical pages and ranges of
  virtual addresses and edits the paging structures; \<open>rt\<close> has the heap, pools and queues on top of it, the
  memory and string routines and the locks; \<open>proc\<close> has threads, the scheduler that switches between them
  and the loader of processes; \<open>irq\<close> and \<open>dev\<close> route interrupts to the drivers, find devices on the PCI bus,
  and queue disk requests for the threads of the disk drivers; \<open>fs\<close> has the volumes and the pup file
  system; \<open>io.c\<close>, \<open>sys/term.c\<close>, \<open>dev/kb.c\<close> and \<open>gfx\<close> connect the keyboard with a stream of bytes, the stream
  with the line editor of the terminal, and the terminal with the display.

  \<^bold>\<open>Theories.\<close>
  \<^item> \<open>Prelude\<close>: machine integers, checked buffer access, linked lists over a map of next pointers, processor
    ports, and the interfaces \<open>fifo\<close> and \<open>byte_store\<close>.
  \<^item> \<open>Rt_Mem\<close> (\<open>rt/mem_a.asm\<close>, \<open>rt/mem.c\<close>), \<open>Rt_String\<close> and \<open>Rt_Number\<close> (\<open>rt/string.c\<close>), \<open>K_String\<close>
    (\<open>k_string.c\<close>): copying and filling memory, strings, decimal and hexadecimal numbers, the formatter.
  \<^item> \<open>Mem_Phys\<close>, \<open>Mem_Virt\<close> (\<open>mem/mngr.c\<close>), \<open>Mem_Pmap\<close> (\<open>mem/pmap.c\<close>), \<open>Mem_Init\<close> (\<open>mem/mem.c\<close>): physical pages,
    virtual ranges, paging structures, and their set-up from the memory map of the boot loader.
  \<^item> \<open>Rt_Alloc\<close> (\<open>rt/alloc.c\<close>), \<open>Rt_Pool\<close> (\<open>rt/pool.c\<close>), \<open>Rt_ObjList\<close> (\<open>rt/objlist.c\<close>), \<open>Rt_Queue\<close>
    (\<open>rt/queue.c\<close>), \<open>Rt_Lock\<close> and \<open>Rt_Atomic\<close> (\<open>rt/atm_a.asm\<close>): the heap, object pools, lists of objects with an
    index, the queue of compare-and-exchanges, the spin locks and the other atomic operations.
  \<^item> \<open>Proc_Thread\<close> (\<open>proc/thread.c\<close>, \<open>proc/thread_a.asm\<close>), \<open>Proc_Sched\<close> and \<open>Proc_Step\<close> (\<open>proc/proc.c\<close>), \<open>Proc_Load\<close>
    and \<open>Proc_Space\<close> (\<open>proc/proc.c\<close>): thread objects and their lists, the scheduler pass, the transition system
    of scheduler and threads, and the creation of processes from ELF images.
  \<^item> \<open>Cpu_Seg\<close> (\<open>cpu/defs.h\<close>, \<open>proc/proc.c\<close>), \<open>Irq_Table\<close> (\<open>irq\<close>), \<open>Dev_Pci\<close> (\<open>dev/pci.c\<close>), \<open>Dev_Piix3\<close> (\<open>dev/dev.c\<close>,
    \<open>dev/soc/piix3\<close>): segment descriptors, the interrupt tables and the local APIC, the configuration space and
    the bus scan, and the chipset driver with the list of devices.
  \<^item> \<open>Dsk_Disk\<close> (\<open>dev/dsk.c\<close>, \<open>dsk/ram.c\<close>), \<open>Dsk_Ide\<close> (\<open>dev/ide.c\<close>): the request queue of a disk, the disk in
    memory and the IDE disk.
  \<^item> \<open>Fs_Volume\<close>, \<open>Fs_Mount\<close>, \<open>Fs_File\<close> (\<open>fs/fs.c\<close>), \<open>Pup_Block\<close>, \<open>Pup_Cache\<close>, \<open>Pup_Format\<close> (\<open>fs/pup.c\<close>, \<open>fs/pup.h\<close>):
    partitions, mounting, file handles, and the blocks, the cache and the layout of the pup file system.
  \<^item> \<open>Sys_Term\<close> (\<open>sys/term.c\<close>), \<open>Gfx_Vga\<close> (\<open>gfx/k_vga.c\<close>), \<open>Io_Stream\<close> (\<open>io.c\<close>), \<open>Dev_Keyboard\<close> (\<open>dev/ps2.c\<close>,
    \<open>dev/kb.c\<close>), \<open>Sys_Crash\<close> (\<open>sys/sys.c\<close>, \<open>k_rng.c\<close>), \<open>Sys_Shell\<close> (\<open>sys/shell.c\<close>, \<open>sys/syscall.c\<close>): terminal, display
    registers, streams, keyboard, crash screen, and the shell with the table of system calls.
  \<^item> \<open>Tool_Mkfs\<close> (\<open>tools/mkfs/mkfs.c\<close>): the command line and commands of the image tool, over the theories of \<open>fs\<close>.

  \<^bold>\<open>How the code is rendered.\<close> A struct is a record and an operation a function on the state it touches, under
  the name it has in the source; a part of a function that is a definition of its own has a name of its own.
  \<^item> A result of type \<open>'a option\<close> is \<open>None\<close> exactly where the C code has no defined behaviour (an access outside
    its object, a null dereference, signed overflow, a division by zero) or does not return. Status codes, null
    results and early returns are ordinary values.
  \<^item> Addresses and counters are natural numbers below \<open>2 ^ 32\<close>, with \<open>sub32\<close> and its like where the arithmetic
    can wrap; values whose bits matter are words of their width; signed values are integers that \<open>int32\<close>
    checks. Buffers are lists of bytes; pointers into objects are indices, pointers to nodes are keys of a map.
  \<^item> Objects linked by pointers are described by \<open>chain\<close>: the list of nodes that the next pointers run through.
  \<^item> An operation under a spin lock or with interrupts off is one step. Where the code works without a lock
    - the queue, the block bitmap, the locks themselves, the scheduler - the steps are its exchanges, and
    what others do between them is an argument or a step of a transition system.
  \<^item> What \<open>k_rt_Malloc\<close> returns and what fresh memory holds, the condition that a wait loop waits for, the
    registers of devices and the thread of a driver are arguments. Hypotheses on devices
    (\<open>vga_hardware\<close>, the fields of \<open>port_io\<close>) say what their data sheets say.
  \<^item> Loops are structural recursions or functions with a measure; loops that follow pointers or wait are
    \<open>partial_function (option)\<close>, and that they return is part of the theorems about them.

  \<^bold>\<open>Interfaces.\<close> \<open>fifo\<close> is a container that gives its elements back in order; the lock-free queue, the
  requests of a disk and the streams interpret it, and what clients rely on is proved in it.
  \<open>byte_store\<close> is a medium that is read and written by offset, interpreted by the disk in memory;
  \<open>block_volume\<close> in \<open>Fs_Volume\<close> is what the pup file system reads from, interpreted by volumes on the disk
  in memory and on the IDE disk, so that \<open>Pup_Cache\<close> and \<open>Pup_Format\<close> hold for both.

  \<^bold>\<open>What is shown.\<close> Memory: the well-formedness of the page and range allocators and what each operation does to
  it; mapping and unmapping change the processor's translation of one page and nothing else; the pages that
  start-up hands to the allocators; what the heap gives out is disjoint and comes back to its bucket. Runtime:
  the assembly routines equal plain loops, numbers survive printing and reading, the queue is first-in
  first-out, a lock excludes. Threads: one invariant of all
  interleavings says on which list every thread is, a scheduler pass wakes and runs the right ones, and a
  waiter gets the value of the thread it waits for. Processes: mapped pages and loaded segments. Devices: which
  routine an interrupt runs, which driver a device gets, and that disk and keyboard work through the
  chipset. Storage: requests in order, reads and writes of the media, blocks of the bitmap under interference,
  the cache against the medium, format, mount and unmount, an image from the tool to a mounted volume. Input
  and output: the display shows the lines of the terminal, the line editor, streams as queues, typed text as
  read, and the shell runs the command that a line names. Where the code falls short of what it means to do,
  the theorem states the inputs on which it does, and a lemma exhibits the others; these are the findings of
  the manifest.

  \<^bold>\<open>Bounds.\<close> No theorem bounds the number of threads, pages, requests or volumes. Bounds in hypotheses are those
  of 32 bit addresses and of the code's own arrays (the 2000 cells of the fire, the 8192 lines of the terminal,
  the entries of the handler table). Fuel occurs in \<open>walk\<close> and \<open>drain\<close>, where the
  lemmas say how much is enough, and as the number of rounds of \<open>burn\<close>, where the theorem holds for every number;
  other numeric recursions are loops of the code that run a given number of rounds.

  \<^bold>\<open>Not modelled.\<close> The boot loader and the switch to protected mode (16 bit assembly, BIOS calls); \<open>k_main.c\<close> and
  \<open>init\<close>, which call the set-up of the components in turn and start test threads; the functions behind the
  system calls for threads and processes, which pass their arguments on; the wrappers of single
  instructions in \<open>cpu/k_cpu_a.asm\<close>; drivers that are declarations only (AHCI, DMA controller, timer chip,
  mouse, virtio, ACPI, FAT32, the driver registry); files and functions whose body is commented out
  (\<open>dsk/dsk.c\<close>, most of the node operations of \<open>fs/pup.c\<close>, \<open>rt/rbuffer.c\<close>); the host's C library and
  the stand-ins for locks and printing in \<open>tools/mkfs/kstubs.c\<close>; the version counter of the build.
  Time, caches and the order of memory accesses of several processors have no place in the model.
\<close>

end
